(* ===== verification/MT_Base.thy ===== *)
theory MT_Base
  imports Main "HOL-Library.Word"
begin

text \<open>
  Shared vocabulary of the development: the C integer types, unsigned 32-bit arithmetic
  on \<^typ>\<open>nat\<close> with its wrap-around written out, \<open>memcpy\<close> on byte memories, and
  circular views of a memory. The components build on the lemma collections declared here:
  \<open>c_int\<close> (32-bit arithmetic where no wrap-around happens), \<open>mem_simps\<close> (reading
  after writing) and \<open>ring_simps\<close> (circular reading and writing).
\<close>

unbundle bit_operations_syntax

named_theorems c_int \<open>unsigned arithmetic that does not wrap\<close>
named_theorems mem_simps \<open>memory reads after memory writes\<close>
named_theorems ring_simps \<open>circular views\<close>

type_synonym u8 = "8 word"
type_synonym u16 = "16 word"
type_synonym u32 = "32 word"
type_synonym u64 = "64 word"

text \<open>Return codes of the C API: \<open>MT_SUCCESS\<close> is 0 and \<open>MT_FAILURE\<close> is -1.\<close>

datatype mt_ret = MT_SUCCESS | MT_FAILURE

section \<open>Unsigned 32-bit arithmetic on natural numbers\<close>

abbreviation U32_RANGE :: nat where
  "U32_RANGE \<equiv> 4294967296"

definition u32_add :: "nat \<Rightarrow> nat \<Rightarrow> nat" where
  "u32_add a b = (a + b) mod U32_RANGE"

definition u32_sub :: "nat \<Rightarrow> nat \<Rightarrow> nat" where
  "u32_sub a b = (a + (U32_RANGE - b mod U32_RANGE)) mod U32_RANGE"

definition u32_mul :: "nat \<Rightarrow> nat \<Rightarrow> nat" where
  "u32_mul a b = (a * b) mod U32_RANGE"

lemma u32_add_small [c_int]: "a + b < U32_RANGE \<Longrightarrow> u32_add a b = a + b"
  by (simp add: u32_add_def)

lemma u32_add_1 [c_int]: "Suc k < U32_RANGE \<Longrightarrow> u32_add k (Suc 0) = Suc k"
  by (simp add: u32_add_def)

lemma u32_mul_small [c_int]: "a * b < U32_RANGE \<Longrightarrow> u32_mul a b = a * b"
  by (simp add: u32_mul_def)

lemma u32_sub_small [c_int]:
  assumes "b \<le> a" "a < U32_RANGE"
  shows "u32_sub a b = a - b"
proof -
  have "a + (U32_RANGE - b mod U32_RANGE) = (a - b) + U32_RANGE"
    using assms by simp
  then show ?thesis
    using assms by (simp only: u32_sub_def mod_add_self2) simp
qed

lemma u32_sub_wrap:
  assumes "a < b" "b < U32_RANGE"
  shows "u32_sub a b = U32_RANGE + a - b"
  using assms by (simp add: u32_sub_def)

lemma u32_add_less [simp]: "u32_add a b < U32_RANGE"
  by (simp add: u32_add_def)

lemma u32_sub_less [simp]: "u32_sub a b < U32_RANGE"
  by (simp add: u32_sub_def)

lemma u32_mul_less [simp]: "u32_mul a b < U32_RANGE"
  by (simp add: u32_mul_def)

lemma unat_u32_less: "unat (w :: u32) < U32_RANGE"
  by (rule order_less_le_trans [OF unsigned_less]) simp

section \<open>Byte memories\<close>

text \<open>\<open>mem_write m p src\<close> is \<open>memcpy(m + p, src, len)\<close>; \<open>mem_read m p n\<close> are the
  \<open>n\<close> bytes at \<open>m + p\<close>.\<close>

definition mem_write :: "'a list \<Rightarrow> nat \<Rightarrow> 'a list \<Rightarrow> 'a list" where
  "mem_write m p src = take p m @ src @ drop (p + length src) m"

definition mem_read :: "'a list \<Rightarrow> nat \<Rightarrow> nat \<Rightarrow> 'a list" where
  "mem_read m p n = take n (drop p m)"

lemma length_mem_write [mem_simps]:
  "p + length src \<le> length m \<Longrightarrow> length (mem_write m p src) = length m"
  by (simp add: mem_write_def)

lemma length_mem_read [mem_simps]: "p + n \<le> length m \<Longrightarrow> length (mem_read m p n) = n"
  by (simp add: mem_read_def)

lemma nth_mem_write:
  assumes "p + length src \<le> length m" "i < length m"
  shows "mem_write m p src ! i = (if p \<le> i \<and> i < p + length src then src ! (i - p) else m ! i)"
  using assms by (auto simp: mem_write_def nth_append min_def)

lemma nth_mem_read: "i < n \<Longrightarrow> p + n \<le> length m \<Longrightarrow> mem_read m p n ! i = m ! (p + i)"
  by (simp add: mem_read_def)

lemma mem_read_write_same [mem_simps]:
  "p + length src \<le> length m \<Longrightarrow> n = length src \<Longrightarrow> mem_read (mem_write m p src) p n = src"
  by (simp add: mem_write_def mem_read_def min_def)

lemma mem_read_write_other [mem_simps]:
  assumes "p + length src \<le> length m" "q + n \<le> length m"
    and "q + n \<le> p \<or> p + length src \<le> q"
  shows "mem_read (mem_write m p src) q n = mem_read m q n"
proof (rule nth_equalityI)
  show "length (mem_read (mem_write m p src) q n) = length (mem_read m q n)"
    using assms by (simp add: mem_simps)
next
  fix i assume "i < length (mem_read (mem_write m p src) q n)"
  then have "i < n" using assms by (simp add: mem_simps)
  then show "mem_read (mem_write m p src) q n ! i = mem_read m q n ! i"
    using assms by (auto simp: nth_mem_read nth_mem_write mem_simps)
qed

section \<open>Circular views\<close>

text \<open>\<open>ring_view m s p n\<close>: the \<open>n\<close> cells that follow position \<open>p\<close> in the first
  \<open>s\<close> cells of \<open>m\<close>, taken circularly. \<open>ring_write m s p src\<close>: the two-part copy
  that every circular buffer of the repository does.\<close>

definition ring_view :: "'a list \<Rightarrow> nat \<Rightarrow> nat \<Rightarrow> nat \<Rightarrow> 'a list" where
  "ring_view m s p n = map (\<lambda>i. m ! ((p + i) mod s)) [0..<n]"

definition ring_write :: "'a list \<Rightarrow> nat \<Rightarrow> nat \<Rightarrow> 'a list \<Rightarrow> 'a list" where
  "ring_write m s p src =
     (if p + length src \<le> s then mem_write m p src
      else mem_write (mem_write m p (take (s - p) src)) 0 (drop (s - p) src))"

lemma mod_below_double: "(x::nat) < 2 * s \<Longrightarrow> x mod s = (if x < s then x else x - s)"
  by (simp add: le_mod_geq)

lemma length_ring_view [simp]: "length (ring_view m s p n) = n"
  by (simp add: ring_view_def)

lemma nth_ring_view [simp]: "i < n \<Longrightarrow> ring_view m s p n ! i = m ! ((p + i) mod s)"
  by (simp add: ring_view_def)

lemma ring_view_0 [simp]: "ring_view m s p 0 = []"
  by (simp add: ring_view_def)

lemma ring_view_add: "ring_view m s p (a + b) = ring_view m s p a @ ring_view m s (p + a) b"
  by (rule nth_equalityI) (auto simp: nth_append add.assoc)

lemma ring_view_mod [ring_simps]: "ring_view m s (p mod s) n = ring_view m s p n"
  by (rule nth_equalityI) (auto simp: mod_add_left_eq)

lemma ring_view_Suc: "ring_view m s p (Suc n) = m ! (p mod s) # ring_view m s (Suc p) n"
  using ring_view_add [of m s p 1 n] by (simp add: ring_view_def)

lemma ring_view_drop: "k \<le> n \<Longrightarrow> drop k (ring_view m s p n) = ring_view m s (p + k) (n - k)"
  by (rule nth_equalityI) (auto simp: add.assoc)

lemma ring_view_take: "take k (ring_view m s p n) = ring_view m s p (min k n)"
  by (rule nth_equalityI) auto

lemma ring_view_linear:
  "p + n \<le> s \<Longrightarrow> s \<le> length m \<Longrightarrow> ring_view m s p n = mem_read m p n"
  by (rule nth_equalityI) (auto simp: nth_mem_read mem_simps)

lemma ring_view_wrapped:
  assumes "p \<le> s" "s \<le> length m" "s \<le> p + n" "n \<le> s"
  shows "ring_view m s p n = mem_read m p (s - p) @ mem_read m 0 (n - (s - p))"
proof -
  have "ring_view m s p n = ring_view m s p (s - p) @ ring_view m s s (n - (s - p))"
    using ring_view_add [of m s p "s - p" "n - (s - p)"] assms by simp
  moreover have "ring_view m s s (n - (s - p)) = ring_view m s 0 (n - (s - p))"
    using ring_view_mod [of m s s] by simp
  ultimately show ?thesis
    using assms by (simp add: ring_view_linear)
qed

lemma length_ring_write [ring_simps]:
  "p \<le> s \<Longrightarrow> length src \<le> s \<Longrightarrow> s \<le> length m \<Longrightarrow> length (ring_write m s p src) = length m"
  by (simp add: ring_write_def mem_simps)

text \<open>The circular copy seen cell by cell: cell \<open>i\<close> lies at distance \<open>(i + s - p) mod s\<close>
  behind the write position.\<close>

lemma nth_ring_write:
  assumes "p < s" "length src \<le> s" "s \<le> length m" "i < s"
  shows "ring_write m s p src ! i =
    (if (i + s - p) mod s < length src then src ! ((i + s - p) mod s) else m ! i)"
proof -
  have d: "(i + s - p) mod s = (if p \<le> i then i - p else i + s - p)"
    using assms by (simp add: mod_below_double)
  show ?thesis
  proof (cases "p + length src \<le> s")
    case True
    then show ?thesis
      using assms d by (auto simp: ring_write_def nth_mem_write)
  next
    case False
    let ?m1 = "mem_write m p (take (s - p) src)"
    have l1: "length ?m1 = length m"
      using False assms by (intro length_mem_write) simp
    have m1: "?m1 ! i = (if p \<le> i then src ! (i - p) else m ! i)"
    proof -
      have "length (take (s - p) src) = s - p" using False assms by simp
      then show ?thesis using False assms by (subst nth_mem_write) auto
    qed
    have "ring_write m s p src ! i =
        (if i < length src - (s - p) then drop (s - p) src ! i else ?m1 ! i)"
      using False assms l1 by (simp add: ring_write_def nth_mem_write)
    then show ?thesis
      using False assms d m1 by (auto simp: add.commute)
  qed
qed

lemma ring_distance:
  fixes j p s :: nat
  assumes "j < s" "p < s"
  shows "((p + j) mod s + s - p) mod s = j"
proof (cases "p + j < s")
  case True
  then show ?thesis using assms by simp
next
  case False
  then have "(p + j) mod s = p + j - s"
    using assms by (simp add: mod_below_double)
  then show ?thesis
    using False assms by simp
qed

lemma ring_view_write_same:
  assumes "p < s" "length src \<le> s" "s \<le> length m"
  shows "ring_view (ring_write m s p src) s p (length src) = src"
  using assms by (intro nth_equalityI) (auto simp: nth_ring_write ring_distance)

lemma ring_distance_behind:
  fixes q n k i s :: nat
  assumes "q < s" "n + k \<le> s" "i < n" "k > 0"
  shows "k \<le> (((q + i) mod s) + s - (q + n) mod s) mod s"
proof -
  have a: "(q + n) mod s = (if q + n < s then q + n else q + n - s)"
    using assms by (intro mod_below_double) simp
  have b: "(q + i) mod s = (if q + i < s then q + i else q + i - s)"
    using assms by (intro mod_below_double) simp
  let ?x = "(q + i) mod s + s - (q + n) mod s"
  have "?x mod s = (if ?x < s then ?x else ?x - s)"
    using assms a b by (intro mod_below_double) (auto split: if_splits)
  then show ?thesis
    using assms a b by (auto split: if_splits)
qed

text \<open>Writing \<open>k\<close> cells behind \<open>n\<close> live cells leaves the live cells alone.\<close>

lemma ring_view_write_other:
  assumes "q < s" "s \<le> length m" "n + length src \<le> s"
  shows "ring_view (ring_write m s ((q + n) mod s) src) s q n = ring_view m s q n"
proof (cases "length src = 0")
  case True
  then show ?thesis by (simp add: ring_write_def mem_write_def)
next
  case False
  show ?thesis
  proof (rule nth_equalityI)
    fix i assume "i < length (ring_view (ring_write m s ((q + n) mod s) src) s q n)"
    then have i: "i < n" by simp
    have "length src \<le> (((q + i) mod s) + s - (q + n) mod s) mod s"
      using ring_distance_behind [of q s n "length src" i] assms i False by simp
    then show "ring_view (ring_write m s ((q + n) mod s) src) s q n ! i = ring_view m s q n ! i"
      using assms i by (auto simp: nth_ring_write)
  qed simp
qed

lemma ring_view_write_behind:
  assumes "q < s" "s \<le> length m" "n + length src \<le> s"
  shows "ring_view (ring_write m s ((q + n) mod s) src) s q (n + length src)
    = ring_view m s q n @ src"
proof -
  let ?m = "ring_write m s ((q + n) mod s) src"
  have "ring_view ?m s (q + n) (length src) = ring_view ?m s ((q + n) mod s) (length src)"
    by (simp add: ring_simps)
  also have "\<dots> = src"
    using assms by (intro ring_view_write_same) auto
  finally show ?thesis
    using assms by (simp add: ring_view_add ring_view_write_other)
qed

section \<open>Arrays of fixed-size elements in a byte memory\<close>

definition slots :: "'a list \<Rightarrow> nat \<Rightarrow> nat \<Rightarrow> 'a list list" where
  "slots m es n = map (\<lambda>k. mem_read m (k * es) es) [0..<n]"

lemma length_slots [simp]: "length (slots m es n) = n"
  by (simp add: slots_def)

lemma nth_slots [simp]: "k < n \<Longrightarrow> slots m es n ! k = mem_read m (k * es) es"
  by (simp add: slots_def)

lemma slot_bound:
  assumes "k < (n::nat)"
  shows "k * es + es \<le> n * es"
proof -
  have "Suc k * es \<le> n * es" using assms by (intro mult_le_mono1) simp
  then show ?thesis by simp
qed

lemma slots_write:
  assumes "length m = n * es" "k < n" "length x = es"
  shows "slots (mem_write m (k * es) x) es n = mem_write (slots m es n) k [x]"
proof (rule nth_equalityI)
  show "length (slots (mem_write m (k * es) x) es n) = length (mem_write (slots m es n) k [x])"
    using assms by (simp add: length_mem_write)
next
  fix j assume "j < length (slots (mem_write m (k * es) x) es n)"
  then have j: "j < n" by simp
  have bk: "k * es + es \<le> n * es" and bj: "j * es + es \<le> n * es"
    using slot_bound assms j by blast+
  show "slots (mem_write m (k * es) x) es n ! j = mem_write (slots m es n) k [x] ! j"
  proof (cases "j = k")
    case True
    then show ?thesis using assms bk by (simp add: nth_mem_write mem_simps)
  next
    case False
    then have "j * es + es \<le> k * es \<or> k * es + es \<le> j * es"
      using slot_bound [of j k es] slot_bound [of k j es] by linarith
    then show ?thesis
      using False assms bk bj j by (auto simp: nth_mem_write mem_read_write_other)
  qed
qed

text \<open>The number of elements between a tail and a head position of a ring, and what a step of the
  tail does to it.\<close>

definition ring_count :: "nat \<Rightarrow> nat \<Rightarrow> nat \<Rightarrow> nat" where
  "ring_count s h t = (h + s - t) mod s"

lemma ring_count_0: "h < s \<Longrightarrow> t < s \<Longrightarrow> ring_count s h t = 0 \<longleftrightarrow> h = t"
  by (auto simp: ring_count_def mod_below_double split: if_splits)

lemma ring_count_step:
  "h < s \<Longrightarrow> t < s \<Longrightarrow> h \<noteq> t \<Longrightarrow> ring_count s h t = Suc (ring_count s h (Suc t mod s))"
  by (auto simp: ring_count_def mod_below_double split: if_splits)

lemma ring_view_count_step:
  assumes "h < s" "t < s" "h \<noteq> t"
  shows "ring_view m s t (ring_count s h t) = m ! t # ring_view m s (Suc t mod s) (ring_count s h (Suc t mod s))"
  using assms by (simp add: ring_count_step [OF assms] ring_view_Suc ring_simps)

section \<open>Little-endian words in a byte memory\<close>

definition le32 :: "u8 list \<Rightarrow> u32" where
  "le32 bs = word_of_nat (unat (bs ! 0) + 256 * (unat (bs ! 1) + 256 * (unat (bs ! 2) + 256 * unat (bs ! 3))))"

definition le32_bytes :: "u32 \<Rightarrow> u8 list" where
  "le32_bytes w = (let n = unat w in [word_of_nat n, word_of_nat (n div 256),
     word_of_nat (n div 256 div 256), word_of_nat (n div 256 div 256 div 256)])"

lemma length_le32_bytes [simp]: "length (le32_bytes w) = 4"
  by (simp add: le32_bytes_def Let_def)

lemma le32_roundtrip [simp]: "le32 (le32_bytes w) = w"
proof -
  define n where "n = unat w"
  have "n < 4294967296" unfolding n_def by (rule unat_u32_less)
  then have "n div 256 div 256 div 256 < 256" by (simp add: div_mult2_eq [symmetric])
  then have "n mod 256 + 256 * (n div 256 mod 256 + 256 * (n div 256 div 256 mod 256
      + 256 * (n div 256 div 256 div 256 mod 256))) = n"
    by (simp add: mod_less mod_mult_div_eq)
  then have "le32 (le32_bytes w) = word_of_nat n"
    unfolding le32_def le32_bytes_def Let_def n_def [symmetric]
    by (simp add: unat_of_nat)
  then show ?thesis by (simp add: n_def)
qed

end
