(* ===== verification/Queue_Interface.thy ===== *)
theory Queue_Interface
  imports MT_Base
begin

text \<open>
  The contract of a first-in-first-out queue as the SDK's producers and consumers rely on it,
  stated as the locale \<open>fifo_queue\<close>: what an insertion and a removal do to the abstract
  contents, and what they keep of the invariant. Every operation of the implementations runs
  under the queue's own mutex, so an interleaving of producers and consumers is a sequence of
  whole operations; \<open>queue_run\<close> executes such a sequence. The lemmas on whole runs are
  proved once here and reach the implementations by interpretation.
\<close>

datatype 'a qop = Put 'a | Take

text \<open>Runs a sequence of operations; returns the final state, the elements accepted and the
  elements delivered, both in order.\<close>

fun queue_run ::
  "('s \<Rightarrow> 'a \<Rightarrow> 's \<times> bool) \<Rightarrow> ('s \<Rightarrow> 's \<times> 'a option) \<Rightarrow> 's \<Rightarrow> 'a qop list \<Rightarrow> 's \<times> 'a list \<times> 'a list"
where
  "queue_run ins rem s [] = (s, [], [])"
| "queue_run ins rem s (Put x # ops) =
     (let (s1, ok) = ins s x; (s2, acc, out) = queue_run ins rem s1 ops
      in (s2, if ok then x # acc else acc, out))"
| "queue_run ins rem s (Take # ops) =
     (let (s1, r) = rem s; (s2, acc, out) = queue_run ins rem s1 ops
      in (s2, acc, case r of None \<Rightarrow> out | Some y \<Rightarrow> y # out))"

locale fifo_queue =
  fixes inv :: "'s \<Rightarrow> bool"
    and contents :: "'s \<Rightarrow> 'a list"
    and fits :: "'s \<Rightarrow> 'a \<Rightarrow> bool"
    and full :: "'s \<Rightarrow> bool"
    and ins :: "'s \<Rightarrow> 'a \<Rightarrow> 's \<times> bool"
    and rem :: "'s \<Rightarrow> 's \<times> 'a option"
  assumes ins_full: "inv s \<Longrightarrow> full s \<Longrightarrow> ins s x = (s, False)"
    and ins_accepts: "inv s \<Longrightarrow> fits s x \<Longrightarrow> \<not> full s \<Longrightarrow> snd (ins s x)"
    and ins_inv: "inv s \<Longrightarrow> fits s x \<Longrightarrow> \<not> full s \<Longrightarrow> inv (fst (ins s x))"
    and ins_contents: "inv s \<Longrightarrow> fits s x \<Longrightarrow> \<not> full s \<Longrightarrow> contents (fst (ins s x)) = contents s @ [x]"
    and ins_fits: "inv s \<Longrightarrow> fits s x \<Longrightarrow> \<not> full s \<Longrightarrow> fits (fst (ins s x)) y = fits s y"
    and rem_empty: "inv s \<Longrightarrow> contents s = [] \<Longrightarrow> rem s = (s, None)"
    and rem_inv: "inv s \<Longrightarrow> contents s = y # ys \<Longrightarrow> inv (fst (rem s))"
    and rem_contents: "inv s \<Longrightarrow> contents s = y # ys \<Longrightarrow> contents (fst (rem s)) = ys"
    and rem_result: "inv s \<Longrightarrow> contents s = y # ys \<Longrightarrow> snd (rem s) = Some y"
    and rem_fits: "inv s \<Longrightarrow> contents s = z # zs \<Longrightarrow> fits (fst (rem s)) y = fits s y"
begin

lemma ins_cases:
  assumes "inv s" "fits s x"
  obtains (full) "full s" "ins s x = (s, False)"
    | (accepted) s1 where "ins s x = (s1, True)" "inv s1" "contents s1 = contents s @ [x]"
        "\<And>y. fits s1 y = fits s y"
proof (cases "full s")
  case True
  with assms ins_full have "ins s x = (s, False)" by blast
  with True show ?thesis by (rule full)
next
  case False
  obtain s1 ok where eq: "ins s x = (s1, ok)" by (cases "ins s x")
  with False assms show ?thesis
    using ins_accepts [of s x] ins_inv [of s x] ins_contents [of s x] ins_fits [of s x]
    by (intro accepted [of s1]) auto
qed

lemma rem_cases:
  assumes "inv s"
  obtains (empty) "contents s = []" "rem s = (s, None)"
    | (delivered) s1 y where "rem s = (s1, Some y)" "inv s1" "contents s = y # contents s1"
        "\<And>z. fits s1 z = fits s z"
proof (cases "contents s")
  case Nil
  with assms rem_empty have "rem s = (s, None)" by blast
  with Nil show ?thesis by (rule empty)
next
  case (Cons y ys)
  obtain s1 r where eq: "rem s = (s1, r)" by (cases "rem s")
  with Cons assms show ?thesis
    using rem_inv [of s y ys] rem_contents [of s y ys] rem_result [of s y ys] rem_fits [of s y ys]
    by (intro delivered [of s1 y]) auto
qed

text \<open>Whatever the interleaving, the elements delivered followed by those still queued are
  the elements queued at the start followed by those accepted: nothing is lost, duplicated
  or reordered.\<close>

lemma run_fifo:
  assumes "inv s" "\<forall>x. Put x \<in> set ops \<longrightarrow> fits s x"
    and "queue_run ins rem s ops = (s', acc, out)"
  shows "inv s' \<and> contents s @ acc = out @ contents s'"
  using assms
proof (induction ops arbitrary: s acc out)
  case Nil
  then show ?case by simp
next
  case (Cons op ops)
  show ?case
  proof (cases op)
    case (Put x)
    from Cons.prems Put have fx: "fits s x" by simp
    from \<open>inv s\<close> fx show ?thesis
    proof (cases rule: ins_cases)
      case full
      then show ?thesis using Cons.prems Put Cons.IH [of s]
        by (auto split: prod.splits)
    next
      case (accepted s1)
      obtain acc1 out1 where r: "queue_run ins rem s1 ops = (s', acc1, out1)"
        using Cons.prems(3) Put accepted(1) by (auto split: prod.splits)
      have "inv s' \<and> contents s1 @ acc1 = out1 @ contents s'"
        using Cons.IH [OF \<open>inv s1\<close> _ r] Cons.prems(2) accepted(4) by simp
      then show ?thesis using Cons.prems(3) Put accepted r by auto
    qed
  next
    case Take
    from \<open>inv s\<close> show ?thesis
    proof (cases rule: rem_cases)
      case empty
      then show ?thesis using Cons.prems Take Cons.IH [of s]
        by (auto split: prod.splits)
    next
      case (delivered s1 y)
      obtain acc1 out1 where r: "queue_run ins rem s1 ops = (s', acc1, out1)"
        using Cons.prems(3) Take delivered(1) by (auto split: prod.splits)
      have "inv s' \<and> contents s1 @ acc1 = out1 @ contents s'"
        using Cons.IH [OF \<open>inv s1\<close> _ r] Cons.prems(2) delivered(4) by simp
      then show ?thesis using Cons.prems(3) Take delivered r by auto
    qed
  qed
qed

lemma put_take_roundtrip:
  assumes "inv s" "fits s x" "\<not> full s" "contents s = []"
  shows "snd (rem (fst (ins s x))) = Some x"
  using rem_result [of "fst (ins s x)" x "[]"] ins_inv [of s x] ins_contents [of s x] assms by simp

end

end
