(* ===== verification/CcQueue.thy ===== *)
theory CcQueue
  imports Queue_Interface
begin

text \<open>
  The caption element queue of \<open>kware/cc/src/708/common/src/cc_queue.c\<close>: a circular array of
  \<open>Size\<close> slots of \<open>Element_size\<close> bytes. The model keeps the byte memory behind \<open>Element\<close>
  (\<open>None\<close> is the NULL of a failed allocation) and the C arithmetic on \<open>MT_U32\<close>. The mutex
  makes every operation atomic; the condition variables carry no data. It interprets
  \<open>fifo_queue\<close>.
\<close>

record tri_queue =
  Head :: nat
  Tail :: nat
  Size :: nat
  Element_size :: nat
  Element :: "u8 list option"

text \<open>\<open>mem\<close> is the answer of \<open>MT_MEMCC_MALLOC(element_size*queue_size)\<close>, whose request is
  computed in 32 bits.\<close>

definition CCQueue_alloc_request :: "nat \<Rightarrow> nat \<Rightarrow> nat" where
  "CCQueue_alloc_request queue_size element_size = u32_mul element_size queue_size"

definition CCQueue_Init :: "u8 list option \<Rightarrow> nat \<Rightarrow> nat \<Rightarrow> tri_queue" where
  "CCQueue_Init mem queue_size element_size =
     \<lparr>Head = 0, Tail = 0, Size = queue_size, Element_size = element_size, Element = mem\<rparr>"

definition CCQueue_Destroy :: "tri_queue \<Rightarrow> tri_queue" where
  "CCQueue_Destroy q = q\<lparr>Element := None\<rparr>"

definition CCQueue_Insert :: "tri_queue \<Rightarrow> u8 list \<Rightarrow> tri_queue \<times> bool" where
  "CCQueue_Insert q element =
     (if u32_add (Head q) 1 mod Size q = Tail q then (q, False)
      else (let n = Head q;
                q1 = q\<lparr>Head := u32_add (Head q) 1\<rparr>;
                q2 = (case Element q1 of
                        None \<Rightarrow> q1
                      | Some m \<Rightarrow> q1\<lparr>Element := Some (mem_write m (u32_mul n (Element_size q1))
                                       (take (Element_size q1) element))\<rparr>)
            in (q2\<lparr>Head := Head q2 mod Size q2\<rparr>, True)))"

text \<open>The third component is what was copied to \<open>*element\<close>; \<open>None\<close> when nothing was.\<close>

definition CCQueue_Remove :: "tri_queue \<Rightarrow> tri_queue \<times> bool \<times> u8 list option" where
  "CCQueue_Remove q =
     (if Tail q = Head q then (q, False, None)
      else (let n = Tail q;
                q1 = q\<lparr>Tail := u32_add (Tail q) 1\<rparr>;
                e = (case Element q1 of
                       None \<Rightarrow> None
                     | Some m \<Rightarrow> Some (mem_read m (u32_mul n (Element_size q1)) (Element_size q1)))
            in (q1\<lparr>Tail := Tail q1 mod Size q1\<rparr>, True, e)))"

definition CCQueue_Get :: "tri_queue \<Rightarrow> bool \<times> u8 list option" where
  "CCQueue_Get q =
     (if Tail q = Head q then (False, None)
      else (True, case Element q of
                    None \<Rightarrow> None
                  | Some m \<Rightarrow> Some (mem_read m (u32_mul (Tail q) (Element_size q)) (Element_size q))))"

definition CCQueue_IsFull :: "tri_queue \<Rightarrow> bool" where
  "CCQueue_IsFull q \<longleftrightarrow> u32_add (Head q) 1 mod Size q = Tail q"

definition CCQueue_IsEmpty :: "tri_queue \<Rightarrow> bool" where
  "CCQueue_IsEmpty q \<longleftrightarrow> Tail q = Head q"

definition CCQueue_Availability :: "tri_queue \<Rightarrow> nat" where
  "CCQueue_Availability q =
     (if Head q < Tail q then u32_sub (Tail q) (Head q)
      else u32_add (u32_sub (Size q) (Head q)) (Tail q))"

definition CCQueue_GetHeadPos :: "tri_queue \<Rightarrow> nat" where
  "CCQueue_GetHeadPos q = Head q"

definition CCQueue_TailPos :: "tri_queue \<Rightarrow> nat" where
  "CCQueue_TailPos q = Tail q"

definition CCQueue_Flush :: "tri_queue \<Rightarrow> tri_queue" where
  "CCQueue_Flush q = q\<lparr>Head := 0, Tail := 0\<rparr>"

definition CCQueue_GetItemNum :: "tri_queue \<Rightarrow> nat" where
  "CCQueue_GetItemNum q =
     (if Tail q \<le> Head q then u32_sub (Head q) (Tail q)
      else u32_sub (u32_add (Size q) (Head q)) (Tail q))"

section \<open>Abstraction\<close>

text \<open>The number of queued elements and the queued elements.\<close>

definition queue_items :: "tri_queue \<Rightarrow> nat" where
  "queue_items q = (Head q + Size q - Tail q) mod Size q"

definition queue_contents :: "tri_queue \<Rightarrow> u8 list list" where
  "queue_contents q =
     (case Element q of
        None \<Rightarrow> []
      | Some m \<Rightarrow> ring_view (slots m (Element_size q) (Size q)) (Size q) (Tail q) (queue_items q))"

definition queue_inv :: "tri_queue \<Rightarrow> bool" where
  "queue_inv q \<longleftrightarrow> Head q < Size q \<and> Tail q < Size q \<and> Size q < U32_RANGE
     \<and> Size q * Element_size q < U32_RANGE
     \<and> (case Element q of None \<Rightarrow> False | Some m \<Rightarrow> length m = Size q * Element_size q)"

definition queue_fits :: "tri_queue \<Rightarrow> u8 list \<Rightarrow> bool" where
  "queue_fits q x \<longleftrightarrow> length x = Element_size q"

lemma queue_inv_cases:
  assumes "queue_inv q"
  obtains m where "Element q = Some m" "length m = Size q * Element_size q"
    "Head q < Size q" "Tail q < Size q" "Size q < U32_RANGE" "Size q * Element_size q < U32_RANGE"
  using assms by (auto simp: queue_inv_def split: option.splits)

lemma queue_items_less: "queue_inv q \<Longrightarrow> queue_items q < Size q"
  by (auto simp: queue_items_def queue_inv_def)

lemma queue_items_if:
  "Head q < Size q \<Longrightarrow> Tail q < Size q \<Longrightarrow>
   queue_items q = (if Tail q \<le> Head q then Head q - Tail q else Head q + Size q - Tail q)"
  by (simp add: queue_items_def mod_below_double)

lemma head_of_items:
  "Head q < Size q \<Longrightarrow> Tail q < Size q \<Longrightarrow> (Tail q + queue_items q) mod Size q = Head q"
  by (auto simp: queue_items_if mod_below_double)

lemma full_iff_items: "queue_inv q \<Longrightarrow> CCQueue_IsFull q \<longleftrightarrow> Suc (queue_items q) = Size q"
  by (erule queue_inv_cases)
     (auto simp: CCQueue_IsFull_def u32_add_1 queue_items_if mod_below_double)

lemma items_insert:
  assumes "queue_inv q" "\<not> CCQueue_IsFull q"
  shows "queue_items (q\<lparr>Head := Suc (Head q) mod Size q\<rparr>) = Suc (queue_items q)"
  using assms full_iff_items [OF assms(1)]
  by (elim queue_inv_cases) (auto simp: queue_items_if mod_below_double split: if_splits)

lemma items_update_element [simp]: "queue_items (q\<lparr>Element := m\<rparr>) = queue_items q"
  by (simp add: queue_items_def)

lemma slot_address [c_int]:
  assumes "k < Size q" "Size q * Element_size q < U32_RANGE"
  shows "u32_mul k (Element_size q) = k * Element_size q"
  using slot_bound [of k "Size q" "Element_size q"] assms by (simp add: u32_mul_small)

lemma insert_eq:
  assumes "queue_inv q" "queue_fits q x" "\<not> CCQueue_IsFull q" "Element q = Some m"
  shows "CCQueue_Insert q x =
    (q\<lparr>Head := Suc (Head q) mod Size q,
       Element := Some (mem_write m (Head q * Element_size q) x)\<rparr>, True)"
  using assms(1,2,3,4)
  by (elim queue_inv_cases)
     (simp add: CCQueue_Insert_def CCQueue_IsFull_def queue_fits_def u32_add_1 slot_address)

lemma insert_inv:
  assumes "queue_inv q" "queue_fits q x" "\<not> CCQueue_IsFull q"
  shows "queue_inv (fst (CCQueue_Insert q x))"
  using assms(1)
proof (rule queue_inv_cases)
  fix m assume m: "Element q = Some m" "length m = Size q * Element_size q"
    "Head q < Size q" "Tail q < Size q" "Size q < U32_RANGE" "Size q * Element_size q < U32_RANGE"
  have "length (mem_write m (Head q * Element_size q) x) = length m"
    using m assms(2) slot_bound [OF m(3), of "Element_size q"]
    by (intro length_mem_write) (simp add: queue_fits_def)
  then show ?thesis
    using m by (simp add: insert_eq [OF assms m(1)] queue_inv_def)
qed

lemma insert_contents:
  assumes "queue_inv q" "queue_fits q x" "\<not> CCQueue_IsFull q"
  shows "queue_contents (fst (CCQueue_Insert q x)) = queue_contents q @ [x]"
  using assms(1)
proof (rule queue_inv_cases)
  fix m assume m: "Element q = Some m" "length m = Size q * Element_size q"
    "Head q < Size q" "Tail q < Size q" "Size q < U32_RANGE" "Size q * Element_size q < U32_RANGE"
  let ?S = "Size q" and ?es = "Element_size q" and ?k = "queue_items q"
  let ?sl = "slots m ?es ?S"
  have w: "slots (mem_write m (Head q * ?es) x) ?es ?S = ring_write ?sl ?S (Head q) [x]"
    using m assms(2) by (simp add: slots_write queue_fits_def ring_write_def)
  have i: "queue_items (q\<lparr>Head := Suc (Head q) mod ?S,
      Element := Some (mem_write m (Head q * ?es) x)\<rparr>) = Suc ?k"
    using items_insert [OF assms(1,3)] by (simp add: queue_items_def)
  have "ring_view (ring_write ?sl ?S ((Tail q + ?k) mod ?S) [x]) ?S (Tail q) (?k + length [x])
      = ring_view ?sl ?S (Tail q) ?k @ [x]"
    using m queue_items_less [OF assms(1)] by (intro ring_view_write_behind) auto
  then show ?thesis
    using m w i head_of_items [OF m(3,4)]
    by (simp add: insert_eq [OF assms m(1)] queue_contents_def)
qed

lemma contents_cons:
  assumes "queue_inv q" "Tail q \<noteq> Head q" "Element q = Some m"
  shows "queue_contents q = mem_read m (Tail q * Element_size q) (Element_size q)
      # ring_view (slots m (Element_size q) (Size q)) (Size q) (Suc (Tail q)) (queue_items q - 1)"
proof -
  from assms(1) have b: "Head q < Size q" "Tail q < Size q"
    by (auto simp: queue_inv_def)
  then obtain k where k: "queue_items q = Suc k"
    using assms(2) by (cases "queue_items q") (auto simp: queue_items_if split: if_splits)
  show ?thesis
    using assms(3) b by (simp add: queue_contents_def k ring_view_Suc)
qed

lemma contents_empty_iff: "queue_inv q \<Longrightarrow> queue_contents q = [] \<longleftrightarrow> Tail q = Head q"
proof -
  assume inv: "queue_inv q"
  then obtain m where m: "Element q = Some m" by (rule queue_inv_cases)
  show ?thesis
  proof (cases "Tail q = Head q")
    case True
    then show ?thesis using m by (simp add: queue_contents_def queue_items_def)
  next
    case False
    then show ?thesis using contents_cons [OF inv False m] by simp
  qed
qed

lemma remove_eq:
  assumes "queue_inv q" "Tail q \<noteq> Head q" "Element q = Some m"
  shows "CCQueue_Remove q = (q\<lparr>Tail := Suc (Tail q) mod Size q\<rparr>, True,
    Some (mem_read m (Tail q * Element_size q) (Element_size q)))"
  using assms by (elim queue_inv_cases) (simp add: CCQueue_Remove_def u32_add_1 slot_address)

lemma remove_inv: "queue_inv q \<Longrightarrow> queue_inv (fst (CCQueue_Remove q))"
  by (auto simp: CCQueue_Remove_def queue_inv_def Let_def split: option.splits)

lemma remove_contents:
  assumes "queue_inv q" "Tail q \<noteq> Head q"
  shows "queue_contents (fst (CCQueue_Remove q)) = tl (queue_contents q)"
proof -
  from assms(1) obtain m where m: "Element q = Some m" "Head q < Size q" "Tail q < Size q"
    by (rule queue_inv_cases)
  have "queue_items (q\<lparr>Tail := Suc (Tail q) mod Size q\<rparr>) = queue_items q - 1"
    using m assms(2) by (auto simp: queue_items_if mod_below_double split: if_splits)
  then have "queue_contents (fst (CCQueue_Remove q)) =
      ring_view (slots m (Element_size q) (Size q)) (Size q) (Suc (Tail q)) (queue_items q - 1)"
    using m by (simp add: remove_eq [OF assms m(1)] queue_contents_def ring_simps)
  then show ?thesis
    by (simp add: contents_cons [OF assms m(1)])
qed

lemma remove_result:
  assumes "queue_inv q" "Tail q \<noteq> Head q"
  shows "snd (snd (CCQueue_Remove q)) = Some (hd (queue_contents q))"
proof -
  from assms(1) obtain m where m: "Element q = Some m" by (rule queue_inv_cases)
  show ?thesis by (simp add: remove_eq [OF assms m] contents_cons [OF assms m])
qed

text \<open>The removal as a consumer sees it: the state and the element delivered.\<close>

definition queue_rem :: "tri_queue \<Rightarrow> tri_queue \<times> u8 list option" where
  "queue_rem q = (case CCQueue_Remove q of (q', _, e) \<Rightarrow> (q', e))"

lemma queue_rem_simps [simp]:
  "fst (queue_rem q) = fst (CCQueue_Remove q)" "snd (queue_rem q) = snd (snd (CCQueue_Remove q))"
  by (simp_all add: queue_rem_def split: prod.splits)

interpretation ccq: fifo_queue queue_inv queue_contents queue_fits CCQueue_IsFull
  CCQueue_Insert queue_rem
proof (unfold_locales, goal_cases)
  case (1 s x) then show ?case by (simp add: CCQueue_Insert_def CCQueue_IsFull_def)
next
  case (2 s x) then show ?case by (elim queue_inv_cases) (simp add: insert_eq queue_inv_def)
next
  case (3 s x) then show ?case by (rule insert_inv)
next
  case (4 s x) then show ?case by (rule insert_contents)
next
  case (5 s x y) then show ?case
    by (auto simp: CCQueue_Insert_def queue_fits_def Let_def split: option.splits)
next
  case (6 s) then show ?case
    by (simp add: contents_empty_iff queue_rem_def CCQueue_Remove_def)
next
  case (7 s y ys) then show ?case by (simp add: remove_inv)
next
  case (8 s y ys)
  then have "Tail s \<noteq> Head s" using contents_empty_iff [of s] by auto
  with 8 show ?case by (simp add: remove_contents)
next
  case (9 s y ys)
  then have "Tail s \<noteq> Head s" using contents_empty_iff [of s] by auto
  with 9 show ?case by (simp add: remove_result)
next
  case (10 s z zs y) then show ?case
    by (auto simp: CCQueue_Remove_def queue_fits_def Let_def split: option.splits)
qed

lemma length_queue_contents: "queue_inv q \<Longrightarrow> length (queue_contents q) = queue_items q"
  by (elim queue_inv_cases) (simp add: queue_contents_def)

section \<open>Properties\<close>

text \<open>C1. Under any interleaving of insertions and removals of whole elements, started from a
  well-formed queue, the caption queue stays well-formed and delivers exactly the accepted
  elements, byte for byte and in order: what was queued followed by what was accepted is what
  was delivered followed by what is still queued.\<close>

theorem CCQueue_run_fifo:
  assumes "queue_inv q" "\<forall>x. Put x \<in> set ops \<longrightarrow> queue_fits q x"
    and "queue_run CCQueue_Insert queue_rem q ops = (q', acc, out)"
  shows "queue_inv q' \<and> queue_contents q @ acc = out @ queue_contents q'"
  using assms by (rule ccq.run_fifo)

theorem CCQueue_run_fifo_witness:
  "queue_inv (CCQueue_Init (Some [0, 0, 0, 0, 0, 0]) 3 2) \<and>
   (let (q', acc, out) = queue_run CCQueue_Insert queue_rem
      (CCQueue_Init (Some [0, 0, 0, 0, 0, 0]) 3 2) [Put [1, 2], Put [3, 4], Put [5, 6], Take]
    in acc = [[1, 2], [3, 4]] \<and> out = [[1, 2]] \<and> queue_contents q' = [[3, 4]])"
proof -
  let ?q = "CCQueue_Init (Some [0, 0, 0, 0, 0, 0]) 3 2"
  let ?ops = "[Put [1, 2], Put [3, 4], Put [5, 6], Take] :: u8 list qop list"
  have inv: "queue_inv ?q" by (simp add: CCQueue_Init_def queue_inv_def)
  have fits: "\<forall>x. Put x \<in> set ?ops \<longrightarrow> queue_fits ?q x"
    by (simp add: queue_fits_def CCQueue_Init_def)
  obtain q' acc out where r: "queue_run CCQueue_Insert queue_rem ?q ?ops = (q', acc, out)"
    by (cases "queue_run CCQueue_Insert queue_rem ?q ?ops") auto
  have io: "acc = [[1, 2], [3, 4]] \<and> out = [[1, 2]]"
    using r by (simp add: CCQueue_Insert_def queue_rem_def CCQueue_Remove_def CCQueue_Init_def
        u32_add_def u32_mul_def mem_write_def mem_read_def)
  have "queue_contents ?q = []" using contents_empty_iff [OF inv] by (simp add: CCQueue_Init_def)
  then have "queue_contents q' = [[3, 4]]"
    using CCQueue_run_fifo [OF inv fits r] io by simp
  then show ?thesis using inv r io by simp
qed

text \<open>The counters agree with the contents: \<open>CCQueue_GetItemNum\<close> is the number of queued
  elements, \<open>CCQueue_IsEmpty\<close> and \<open>CCQueue_IsFull\<close> are its extremes 0 and \<open>Size - 1\<close>, and
  \<open>CCQueue_Availability\<close> is \<open>Size\<close> minus that number: one more than the number of
  insertions that still succeed, because one slot always stays unused.\<close>

theorem CCQueue_counters:
  assumes "queue_inv q"
  shows "CCQueue_GetItemNum q = length (queue_contents q)
    \<and> (CCQueue_IsEmpty q \<longleftrightarrow> queue_contents q = [])
    \<and> (CCQueue_IsFull q \<longleftrightarrow> length (queue_contents q) = Size q - 1)
    \<and> CCQueue_Availability q = Size q - length (queue_contents q)"
proof -
  from assms obtain m where m: "Head q < Size q" "Tail q < Size q" "Size q < U32_RANGE"
    by (rule queue_inv_cases)
  have items: "CCQueue_GetItemNum q = queue_items q"
  proof (cases "Tail q \<le> Head q")
    case True
    then show ?thesis using m by (simp add: CCQueue_GetItemNum_def queue_items_if u32_sub_small)
  next
    case False
    then show ?thesis using m
      by (auto simp: CCQueue_GetItemNum_def queue_items_if u32_add_def u32_sub_def mod_if)
  qed
  have avail: "CCQueue_Availability q = Size q - queue_items q"
    using m by (auto simp: CCQueue_Availability_def queue_items_if u32_add_small u32_sub_small)
  show ?thesis
    using items avail contents_empty_iff [OF assms] full_iff_items [OF assms] m
    by (auto simp: length_queue_contents [OF assms] CCQueue_IsEmpty_def)
qed

theorem CCQueue_counters_witness:
  "queue_inv (CCQueue_Init (Some [1, 2, 3]) 3 1\<lparr>Head := 2\<rparr>)
   \<and> CCQueue_IsFull (CCQueue_Init (Some [1, 2, 3]) 3 1\<lparr>Head := 2\<rparr>)
   \<and> CCQueue_Availability (CCQueue_Init (Some [1, 2, 3]) 3 1\<lparr>Head := 2\<rparr>) = 1"
proof -
  let ?q = "CCQueue_Init (Some [1, 2, 3]) 3 1\<lparr>Head := 2\<rparr>"
  have inv: "queue_inv ?q" by (simp add: CCQueue_Init_def queue_inv_def)
  have "length (queue_contents ?q) = 2"
    using inv by (simp add: length_queue_contents queue_items_def CCQueue_Init_def)
  then show ?thesis
    using inv CCQueue_counters [OF inv] by (simp add: CCQueue_Init_def)
qed

end
