(* ===== verification/SoQueue.thy ===== *)
theory SoQueue
  imports Queue_Interface
begin

text \<open>
  The subtitle output queue of \<open>kware/subtoutput/src/so_queue.c\<close>: a linked list of nodes, each
  one allocation that holds a copy of the caller's descriptor and of the subtitle bytes. The
  model keeps the heap of the nodes (\<open>heap\<close>, node identity to payload bytes), so that copying,
  handing a node to the consumer and freeing it are visible. A handle of \<open>None\<close> is the NULL
  handle. An answer of \<open>malloc\<close> is an argument: \<open>None\<close> or a fresh node identity. Freeing
  something that is not a live node is undefined in C and is the value \<open>None\<close> here.
  The queue interprets \<open>fifo_queue\<close>.
\<close>

datatype so_type = SUBTITLE_BITMAP | SUBTITLE_TEXT | SUBTITLE_ASS | SUBTITLE_BUTT

datatype so_ptr = NullPtr | Buf "u8 list" | NodeData nat

text \<open>The common part of the three members of the union: the pts, the duration, the length of
  the data and the data pointer; \<open>so_rest\<close> stands for the members that are only copied
  (palette, position, extra data).\<close>

record so_info =
  eType :: so_type
  s64Pts :: int
  u32Duration :: nat
  u32Len :: nat
  pu8Data :: so_ptr
  so_rest :: "u8 list"

record so_queue =
  num :: int
  u32MaxNodeNum :: nat
  s32BufferSize :: int
  u32MaxBufferSize :: nat
  nodes :: "(nat \<times> so_info) list"
  heap :: "nat \<rightharpoonup> u8 list"

text \<open>The conversions \<open>(mt_s32)x\<close> and the wrap-around of the signed counters.\<close>

definition s32 :: "int \<Rightarrow> int" where
  "s32 x = (x + 2147483648) mod 4294967296 - 2147483648"

abbreviation to_s32 :: "nat \<Rightarrow> int" where
  "to_s32 n \<equiv> s32 (int n)"

definition SO_GetBufLen :: "so_info \<Rightarrow> int" where
  "SO_GetBufLen info = (if eType info = SUBTITLE_BUTT then 0 else to_s32 (u32Len info))"

fun ptr_bytes :: "(nat \<rightharpoonup> u8 list) \<Rightarrow> so_ptr \<Rightarrow> u8 list" where
  "ptr_bytes h NullPtr = []"
| "ptr_bytes h (Buf bs) = bs"
| "ptr_bytes h (NodeData i) = (case h i of None \<Rightarrow> [] | Some bs \<Rightarrow> bs)"

text \<open>The descriptor after \<open>memset(&pNode->stInfo, 0, ...)\<close>; the type code 0 is the bitmap.\<close>

definition zero_info :: so_info where
  "zero_info = \<lparr>eType = SUBTITLE_BITMAP, s64Pts = 0, u32Duration = 0, u32Len = 0,
     pu8Data = NullPtr, so_rest = []\<rparr>"

text \<open>\<open>_SO_InitNode\<close>: the descriptor and the payload of the node, and the return code. On an
  unknown type the zeroed node is left as it is.\<close>

definition SO_InitNode :: "(nat \<rightharpoonup> u8 list) \<Rightarrow> so_info \<Rightarrow> so_info \<times> u8 list \<times> mt_ret" where
  "SO_InitNode h info =
     (if eType info \<noteq> SUBTITLE_BUTT
      then (info, take (u32Len info) (ptr_bytes h (pu8Data info)) @ [0], MT_SUCCESS)
      else (zero_info, [], MT_FAILURE))"

definition SO_QueueInit :: "bool \<Rightarrow> nat \<Rightarrow> nat \<Rightarrow> so_queue option \<times> mt_ret" where
  "SO_QueueInit malloc_ok bufsize maxNodeNum =
     (if bufsize < 1024 then (None, MT_FAILURE)
      else if \<not> malloc_ok then (None, MT_FAILURE)
      else (Some \<lparr>num = 0, u32MaxNodeNum = maxNodeNum, s32BufferSize = 0,
                  u32MaxBufferSize = bufsize, nodes = [], heap = Map.empty\<rparr>, MT_SUCCESS))"

definition SO_QueueFull :: "so_queue \<Rightarrow> bool" where
  "SO_QueueFull q \<longleftrightarrow> to_s32 (u32MaxBufferSize q) \<le> s32BufferSize q \<and> to_s32 (u32MaxNodeNum q) \<le> num q"

definition SO_QueuePut ::
  "nat option \<Rightarrow> so_queue option \<Rightarrow> so_info option \<Rightarrow> so_queue option \<times> mt_ret" where
  "SO_QueuePut mal handle pstInfo =
     (case handle of None \<Rightarrow> (None, MT_FAILURE) | Some q \<Rightarrow>
      case pstInfo of None \<Rightarrow> (Some q, MT_FAILURE) | Some info \<Rightarrow>
      let s32Len = SO_GetBufLen info in
      if s32Len < 0 then (Some q, MT_FAILURE)
      else if SO_QueueFull q then (Some q, MT_FAILURE)
      else case mal of None \<Rightarrow> (Some q, MT_FAILURE) | Some i \<Rightarrow>
      let (stInfo, addr, _) = SO_InitNode (heap q) info in
      (Some (q\<lparr>nodes := nodes q @ [(i, stInfo)], heap := (heap q)(i \<mapsto> addr),
               num := s32 (num q + 1), s32BufferSize := s32 (s32BufferSize q + s32Len)\<rparr>), MT_SUCCESS))"

text \<open>In the two getters the flag \<open>pstInfo\<close> says that the caller's output pointer is not NULL.
  The descriptor handed out: its data pointer is the node's own bytes. A type other than the
  three known ones would keep its pointer.\<close>

definition SO_node_view :: "nat \<Rightarrow> so_info \<Rightarrow> so_info" where
  "SO_node_view i info = (if eType info = SUBTITLE_BUTT then info else info\<lparr>pu8Data := NodeData i\<rparr>)"

definition SO_QueueGet ::
  "so_queue option \<Rightarrow> bool \<Rightarrow> so_queue option \<times> so_info option \<times> mt_ret" where
  "SO_QueueGet handle pstInfo =
     (case handle of None \<Rightarrow> (None, None, MT_FAILURE) | Some q \<Rightarrow>
      if \<not> pstInfo then (Some q, None, MT_FAILURE) else
      case nodes q of [] \<Rightarrow> (Some q, None, MT_FAILURE)
      | (i, info) # ns \<Rightarrow>
        (Some (q\<lparr>nodes := ns, num := s32 (num q - 1),
               s32BufferSize := s32 (s32BufferSize q - SO_GetBufLen info)\<rparr>),
         Some (SO_node_view i info), MT_SUCCESS))"

definition SO_QueueGetNodeInfoNotDel :: "so_queue option \<Rightarrow> bool \<Rightarrow> so_info option \<times> mt_ret" where
  "SO_QueueGetNodeInfoNotDel handle pstInfo =
     (case handle of None \<Rightarrow> (None, MT_FAILURE) | Some q \<Rightarrow>
      if \<not> pstInfo then (None, MT_FAILURE) else
      case nodes q of [] \<Rightarrow> (None, MT_FAILURE)
      | (i, info) # ns \<Rightarrow> (Some (SO_node_view i info), MT_SUCCESS))"

definition SO_QueueFree ::
  "so_queue option \<Rightarrow> so_info option \<Rightarrow> (so_queue option \<times> mt_ret) option" where
  "SO_QueueFree handle pstInfo =
     (case (handle, pstInfo) of
        (Some q, Some info) \<Rightarrow>
          (let pu8 = (if eType info = SUBTITLE_BUTT then NullPtr else pu8Data info) in
           case pu8 of
             NullPtr \<Rightarrow> Some (Some q, MT_FAILURE)
           | Buf _ \<Rightarrow> None
           | NodeData i \<Rightarrow> (if heap q i = None then None
                          else Some (Some (q\<lparr>heap := (heap q)(i := None)\<rparr>), MT_SUCCESS)))
      | _ \<Rightarrow> Some (handle, MT_FAILURE))"

fun free_nodes :: "(nat \<times> so_info) list \<Rightarrow> (nat \<rightharpoonup> u8 list) \<Rightarrow> (nat \<rightharpoonup> u8 list)" where
  "free_nodes [] h = h"
| "free_nodes ((i, info) # ns) h = free_nodes ns (h(i := None))"

definition SO_QueueRemove :: "so_queue option \<Rightarrow> so_queue option \<times> mt_ret" where
  "SO_QueueRemove handle =
     (case handle of None \<Rightarrow> (None, MT_FAILURE) | Some q \<Rightarrow>
      (Some (q\<lparr>nodes := [], heap := free_nodes (nodes q) (heap q), num := 0, s32BufferSize := 0\<rparr>),
       MT_SUCCESS))"

definition SO_QueueReset :: "so_queue option \<Rightarrow> so_queue option \<times> mt_ret" where
  "SO_QueueReset handle = SO_QueueRemove handle"

text \<open>Returns the queue that is left (\<open>None\<close>: the control block is freed) and the heap of the
  nodes the consumers still hold.\<close>

definition SO_QueueDeinit ::
  "so_queue option \<Rightarrow> so_queue option \<times> (nat \<rightharpoonup> u8 list) \<times> mt_ret" where
  "SO_QueueDeinit handle =
     (case fst (SO_QueueRemove handle) of
        None \<Rightarrow> (None, Map.empty, MT_FAILURE)
      | Some q \<Rightarrow> (None, heap q, MT_SUCCESS))"

definition so_stale :: "int \<Rightarrow> so_info \<Rightarrow> bool" where
  "so_stale pts info \<longleftrightarrow> eType info \<noteq> SUBTITLE_BUTT \<and> s64Pts info < pts"

text \<open>The loop of \<open>SO_QueueReset_ByPts\<close> over the list: the nodes kept, the heap, the two
  counters.\<close>

fun reset_by_pts_loop ::
  "int \<Rightarrow> (nat \<times> so_info) list \<Rightarrow> (nat \<rightharpoonup> u8 list) \<Rightarrow> int \<Rightarrow> int
   \<Rightarrow> (nat \<times> so_info) list \<times> (nat \<rightharpoonup> u8 list) \<times> int \<times> int" where
  "reset_by_pts_loop pts [] h n sz = ([], h, n, sz)"
| "reset_by_pts_loop pts ((i, info) # ns) h n sz =
     (if so_stale pts info
      then reset_by_pts_loop pts ns (h(i := None)) (s32 (n - 1)) (s32 (sz - to_s32 (u32Len info)))
      else (let (ns', h', n', sz') = reset_by_pts_loop pts ns h n sz
            in ((i, info) # ns', h', n', sz')))"

definition SO_QueueReset_ByPts :: "so_queue option \<Rightarrow> int \<Rightarrow> so_queue option \<times> mt_ret" where
  "SO_QueueReset_ByPts handle pts =
     (case handle of None \<Rightarrow> (None, MT_FAILURE) | Some q \<Rightarrow>
      let (ns, h, n, sz) = reset_by_pts_loop pts (nodes q) (heap q) (num q) (s32BufferSize q)
      in (Some (q\<lparr>nodes := ns, heap := h, num := n, s32BufferSize := sz\<rparr>), MT_SUCCESS))"

text \<open>\<open>SO_QueueNum\<close> answers \<open>MT_FAILURE\<close>, that is -1, on a NULL handle.\<close>

definition SO_QueueNum :: "so_queue option \<Rightarrow> int" where
  "SO_QueueNum handle = (case handle of None \<Rightarrow> -1 | Some q \<Rightarrow> num q)"

section \<open>Invariant\<close>

text \<open>The two counters are exact, node identities are distinct and live, every node has a known
  type and carries as many bytes as its length field says, followed by the terminator.\<close>

definition node_ok :: "(nat \<rightharpoonup> u8 list) \<Rightarrow> nat \<times> so_info \<Rightarrow> bool" where
  "node_ok h n = (case n of (i, info) \<Rightarrow>
     eType info \<noteq> SUBTITLE_BUTT \<and> u32Len info < 2147483648 \<and>
     (case h i of None \<Rightarrow> False | Some bs \<Rightarrow> u32Len info \<le> length bs))"

definition sum_len :: "(nat \<times> so_info) list \<Rightarrow> int" where
  "sum_len ns = sum_list (map (\<lambda>n. SO_GetBufLen (snd n)) ns)"

definition so_inv :: "so_queue \<Rightarrow> bool" where
  "so_inv q \<longleftrightarrow> num q = to_s32 (length (nodes q)) \<and> s32BufferSize q = s32 (sum_len (nodes q))
     \<and> distinct (map fst (nodes q)) \<and> list_all (node_ok (heap q)) (nodes q)"

lemma s32_eqI: "(a - b) mod 4294967296 = 0 \<Longrightarrow> s32 a = s32 b"
proof -
  assume "(a - b) mod 4294967296 = 0"
  then have "((a + 2147483648) - (b + 2147483648)) mod 4294967296 = 0" by simp
  then have "(a + 2147483648) mod 4294967296 = (b + 2147483648) mod (4294967296 :: int)"
    by (simp only: mod_eq_dvd_iff dvd_eq_mod_eq_0)
  then show ?thesis by (simp add: s32_def)
qed

lemma s32_diff: "(s32 a - a) mod 4294967296 = 0"
proof -
  have "s32 a - a = ((a + 2147483648) mod 4294967296 - (a + 2147483648))" by (simp add: s32_def)
  then show ?thesis by (simp only: mod_diff_left_eq) simp
qed

lemma s32_idem [simp]:
  "s32 (s32 a + b) = s32 (a + b)" "s32 (s32 a - b) = s32 (a - b)"
  "s32 (a + s32 b) = s32 (a + b)" "s32 (a - s32 b) = s32 (a - b)" "s32 (s32 a) = s32 a"
  "s32 (a - (s32 b + c)) = s32 (a - (b + c))"
  using s32_diff [of a] s32_diff [of b]
  by (auto intro!: s32_eqI simp: dvd_eq_mod_eq_0 [symmetric] dvd_diff_commute)

lemma s32_small [c_int]: "- 2147483648 \<le> x \<Longrightarrow> x < 2147483648 \<Longrightarrow> s32 x = x"
  by (simp add: s32_def)

lemma to_s32_neg: "n < U32_RANGE \<Longrightarrow> to_s32 n < 0 \<longleftrightarrow> 2147483648 \<le> n"
proof -
  assume n: "n < U32_RANGE"
  have "s32 (int n) = int n - 4294967296" if "2147483648 \<le> n"
    using n that mod_pos_pos_trivial [of "int n - 2147483648" 4294967296]
      mod_add_self2 [of "int n - 2147483648" 4294967296] by (simp add: s32_def add.commute)
  then show ?thesis using n by (cases "n < 2147483648") (auto simp: s32_small)
qed

lemma sum_len_simps [simp]:
  "sum_len [] = 0" "sum_len (n # ns) = SO_GetBufLen (snd n) + sum_len ns"
  "sum_len (ns @ ms) = sum_len ns + sum_len ms"
  by (simp_all add: sum_len_def)

lemma node_ok_known: "node_ok h (i, info) \<Longrightarrow> eType info \<noteq> SUBTITLE_BUTT"
  by (simp add: node_ok_def)

lemma node_live: "so_inv q \<Longrightarrow> n \<in> set (nodes q) \<Longrightarrow> heap q (fst n) \<noteq> None"
  by (force simp: so_inv_def list_all_iff node_ok_def split: option.splits)

lemma node_ok_other: "i \<noteq> fst n \<Longrightarrow> node_ok (h(i := x)) n = node_ok h n"
  by (auto simp: node_ok_def split: prod.splits)

lemma nodes_ok_other:
  "i \<notin> set (map fst ns) \<Longrightarrow> list_all (node_ok (h(i := x))) ns = list_all (node_ok h) ns"
  by (induction ns) (auto simp: node_ok_other)

text \<open>A descriptor a caller may pass: known type or not, and with as many readable bytes as its
  length field says.\<close>

definition info_readable :: "(nat \<rightharpoonup> u8 list) \<Rightarrow> so_info \<Rightarrow> bool" where
  "info_readable h info \<longleftrightarrow> u32Len info < U32_RANGE
     \<and> (eType info \<noteq> SUBTITLE_BUTT \<longrightarrow> u32Len info \<le> length (ptr_bytes h (pu8Data info)))"

lemma put_inv:
  assumes "so_inv q" "info_readable (heap q) info"
    and "SO_QueuePut (Some i) (Some q) (Some info) = (Some q', r)" "heap q i = None"
  shows "so_inv q'"
proof -
  have i: "i \<notin> set (map fst (nodes q))"
    using assms(1,4) node_live [of q] by force
  show ?thesis
    using assms i
    by (auto simp: SO_QueuePut_def Let_def SO_InitNode_def so_inv_def nodes_ok_other node_ok_def
        info_readable_def SO_GetBufLen_def to_s32_neg add.commute zero_info_def split: if_splits)
qed

lemma get_inv:
  assumes "so_inv q" "SO_QueueGet (Some q) True = (Some q', p, r)"
  shows "so_inv q'"
  using assms by (auto simp: SO_QueueGet_def so_inv_def split: list.splits)

lemma free_inv:
  assumes "so_inv q" "SO_QueueFree (Some q) (Some info) = Some (Some q', r)"
    and "\<And>i. pu8Data info = NodeData i \<Longrightarrow> i \<notin> set (map fst (nodes q))"
  shows "so_inv q'"
  using assms
  by (auto simp: SO_QueueFree_def Let_def so_inv_def nodes_ok_other split: so_ptr.splits if_splits)

lemma free_nodes_apply: "free_nodes ns h x = (if x \<in> set (map fst ns) then None else h x)"
proof (induction ns arbitrary: h)
  case (Cons n ns)
  then show ?case by (cases n) (simp add: fun_upd_def)
qed simp

lemma dom_free_nodes: "dom (free_nodes ns h) = dom h - set (map fst ns)"
  by (auto simp: dom_def free_nodes_apply)

lemma reset_by_pts_loop_eq:
  assumes "list_all (node_ok h0) ns" "s32 n = n" "s32 sz = sz"
  shows "reset_by_pts_loop pts ns h n sz =
    (filter (\<lambda>m. \<not> so_stale pts (snd m)) ns,
     free_nodes (filter (\<lambda>m. so_stale pts (snd m)) ns) h,
     s32 (n - int (length (filter (\<lambda>m. so_stale pts (snd m)) ns))),
     s32 (sz - sum_len (filter (\<lambda>m. so_stale pts (snd m)) ns)))"
  using assms
  by (induction pts ns h n sz rule: reset_by_pts_loop.induct)
     (auto simp: SO_GetBufLen_def so_stale_def algebra_simps)

lemma free_nodes_other: "i \<notin> set (map fst ns) \<Longrightarrow> free_nodes ns h i = h i"
  by (simp add: free_nodes_apply)

lemma filter_counts:
  "int (length ns) - int (length (filter P ns)) = int (length (filter (\<lambda>x. \<not> P x) ns))"
  "sum_len ns - sum_len (filter P ns) = sum_len (filter (\<lambda>x. \<not> P x) ns)"
  by (induction ns) auto

lemma distinct_fst_filter:
  "distinct (map fst ns) \<Longrightarrow> m \<in> set ns \<Longrightarrow> \<not> P m \<Longrightarrow> fst m \<notin> set (map fst (filter P ns))"
  by (induction ns) (auto simp: rev_image_eqI)

lemma nodes_ok_free:
  assumes "distinct (map fst ns)" "list_all (node_ok h) ns"
  shows "list_all (node_ok (free_nodes (filter P ns) h)) (filter (\<lambda>m. \<not> P m) ns)"
proof -
  have "node_ok (free_nodes (filter P ns) h) m" if "m \<in> set ns" "\<not> P m" for m
    using free_nodes_other [OF distinct_fst_filter [of ns m P, OF assms(1) that]] assms(2) that
    by (auto simp: node_ok_def list_all_iff split: prod.splits)
  then show ?thesis by (simp add: list_all_iff)
qed

section \<open>The queue as an interpretation of the FIFO contract\<close>

text \<open>The consumer's view: the descriptor without its pointer, and the bytes. The allocator of
  this view hands out increasing identities, which satisfies what the C code needs of
  \<open>malloc\<close>: a block that is not in use.\<close>

type_synonym so_item = "so_info \<times> u8 list"

definition so_item_of :: "(nat \<rightharpoonup> u8 list) \<Rightarrow> nat \<times> so_info \<Rightarrow> so_item" where
  "so_item_of h n = (case n of (i, info) \<Rightarrow>
     (info\<lparr>pu8Data := NullPtr\<rparr>, take (u32Len info) (ptr_bytes h (NodeData i))))"

definition so_contents :: "so_queue \<times> nat \<Rightarrow> so_item list" where
  "so_contents s = (case s of (q, _) \<Rightarrow> map (so_item_of (heap q)) (nodes q))"

definition so_state_inv :: "so_queue \<times> nat \<Rightarrow> bool" where
  "so_state_inv s \<longleftrightarrow> (case s of (q, nx) \<Rightarrow> so_inv q \<and> (\<forall>i \<ge> nx. heap q i = None))"

definition so_fits :: "so_queue \<times> nat \<Rightarrow> so_item \<Rightarrow> bool" where
  "so_fits s x \<longleftrightarrow> (case x of (info, bs) \<Rightarrow> eType info \<noteq> SUBTITLE_BUTT \<and> pu8Data info = NullPtr
     \<and> u32Len info = length bs \<and> length bs < 2147483648)"

definition so_ins :: "so_queue \<times> nat \<Rightarrow> so_item \<Rightarrow> (so_queue \<times> nat) \<times> bool" where
  "so_ins s x = (case s of (q, nx) \<Rightarrow> case x of (info, bs) \<Rightarrow>
     case SO_QueuePut (Some nx) (Some q) (Some (info\<lparr>pu8Data := Buf bs\<rparr>)) of
       (Some q', MT_SUCCESS) \<Rightarrow> ((q', Suc nx), True)
     | _ \<Rightarrow> ((q, nx), False))"

definition so_rem :: "so_queue \<times> nat \<Rightarrow> (so_queue \<times> nat) \<times> so_item option" where
  "so_rem s = (case s of (q, nx) \<Rightarrow>
     case SO_QueueGet (Some q) True of
       (Some q', Some info, MT_SUCCESS) \<Rightarrow>
         ((q', nx), Some (info\<lparr>pu8Data := NullPtr\<rparr>,
            take (u32Len info) (ptr_bytes (heap q') (pu8Data info))))
     | _ \<Rightarrow> (s, None))"

lemma so_item_other: "i \<noteq> fst n \<Longrightarrow> so_item_of (h(i := x)) n = so_item_of h n"
  by (auto simp: so_item_of_def split: prod.splits)

lemma so_ins_eq:
  assumes "so_fits (q, nx) (info, bs)" "\<not> SO_QueueFull q"
  shows "so_ins (q, nx) (info, bs) =
    ((q\<lparr>nodes := nodes q @ [(nx, info\<lparr>pu8Data := Buf bs\<rparr>)],
        heap := (heap q)(nx \<mapsto> bs @ [0]), num := s32 (num q + 1),
        s32BufferSize := s32 (s32BufferSize q + int (length bs))\<rparr>, Suc nx), True)"
  using assms
  by (auto simp: so_ins_def so_fits_def SO_QueuePut_def SO_GetBufLen_def s32_small
      SO_InitNode_def Let_def)

lemma so_ins_inv:
  assumes "so_state_inv (q, nx)" "so_fits (q, nx) (info, bs)" "\<not> SO_QueueFull q"
  shows "so_state_inv (fst (so_ins (q, nx) (info, bs)))"
proof -
  let ?q' = "q\<lparr>nodes := nodes q @ [(nx, info\<lparr>pu8Data := Buf bs\<rparr>)],
        heap := (heap q)(nx \<mapsto> bs @ [0]), num := s32 (num q + 1),
        s32BufferSize := s32 (s32BufferSize q + int (length bs))\<rparr>"
  have "SO_QueuePut (Some nx) (Some q) (Some (info\<lparr>pu8Data := Buf bs\<rparr>)) = (Some ?q', MT_SUCCESS)"
    using assms by (auto simp: so_fits_def SO_QueuePut_def SO_GetBufLen_def s32_small
        SO_InitNode_def Let_def)
  then have "so_inv ?q'"
    using assms put_inv [of q "info\<lparr>pu8Data := Buf bs\<rparr>" nx ?q']
    by (simp add: so_state_inv_def so_fits_def info_readable_def)
  then show ?thesis
    using assms by (simp add: so_ins_eq so_state_inv_def)
qed

lemma so_ins_contents:
  assumes "so_state_inv (q, nx)" "so_fits (q, nx) (info, bs)" "\<not> SO_QueueFull q"
  shows "so_contents (fst (so_ins (q, nx) (info, bs))) = so_contents (q, nx) @ [(info, bs)]"
proof -
  have "fst n \<noteq> nx" if "n \<in> set (nodes q)" for n
    using assms(1) node_live [of q n] that by (auto simp: so_state_inv_def)
  then show ?thesis
    using assms
    by (auto simp: so_ins_eq so_contents_def so_item_other so_fits_def so_item_of_def
        intro!: so_info.equality)
qed

lemma so_rem_eq:
  assumes "so_state_inv (q, nx)" "nodes q = (i, info) # ns"
  shows "so_rem (q, nx) =
    ((q\<lparr>nodes := ns, num := s32 (num q - 1),
               s32BufferSize := s32 (s32BufferSize q - SO_GetBufLen info)\<rparr>, nx),
     Some (so_item_of (heap q) (i, info)))"
  using assms
  by (auto simp: so_rem_def SO_QueueGet_def SO_node_view_def so_item_of_def so_state_inv_def
      so_inv_def node_ok_def)

lemma so_rem_inv:
  assumes "so_state_inv (q, nx)" "nodes q = (i, info) # ns"
  shows "so_state_inv (fst (so_rem (q, nx)))"
  using assms get_inv [of q] by (simp add: so_rem_eq so_state_inv_def SO_QueueGet_def)

interpretation soq: fifo_queue so_state_inv so_contents so_fits "\<lambda>s. SO_QueueFull (fst s)" so_ins so_rem
proof (unfold_locales, goal_cases)
  case (1 s x) then show ?case
    by (auto simp: so_ins_def SO_QueuePut_def Let_def split: prod.splits)
next
  case (2 s x) then show ?case by (cases s; cases x) (simp add: so_ins_eq)
next
  case (3 s x) then show ?case by (cases s; cases x) (simp add: so_ins_inv)
next
  case (4 s x) then show ?case by (cases s; cases x) (simp add: so_ins_contents)
next
  case (5 s x y) then show ?case by (simp add: so_fits_def)
next
  case (6 s) then show ?case by (cases s) (simp add: so_contents_def so_rem_def SO_QueueGet_def)
next
  case (7 s y ys)
  then show ?case by (cases s; cases "nodes (fst s)") (auto simp: so_contents_def so_rem_inv)
next
  case (8 s y ys)
  then show ?case by (cases s; cases "nodes (fst s)") (auto simp: so_contents_def so_rem_eq)
next
  case (9 s y ys)
  then show ?case by (cases s; cases "nodes (fst s)") (auto simp: so_contents_def so_rem_eq)
next
  case (10 s z zs y) then show ?case by (simp add: so_fits_def)
qed

section \<open>Properties\<close>

text \<open>C3. For every interleaving of puts and gets of descriptors of a known type, from any
  well-formed subtitle queue, the consumer obtains the accepted subtitles unchanged (all copied
  descriptor members and the payload bytes, read from the node's own memory) and in order; the
  queue stays well-formed.\<close>

theorem SO_Queue_run_fifo:
  assumes "so_state_inv s" "\<forall>x. Put x \<in> set ops \<longrightarrow> so_fits s x"
    and "queue_run so_ins so_rem s ops = (s', acc, out)"
  shows "so_state_inv s' \<and> so_contents s @ acc = out @ so_contents s'"
  using assms by (rule soq.run_fifo)

definition so_empty :: so_queue where
  "so_empty = \<lparr>num = 0, u32MaxNodeNum = 1, s32BufferSize = 0, u32MaxBufferSize = 1024,
     nodes = [], heap = Map.empty\<rparr>"

definition so_text :: "int \<Rightarrow> u8 list \<Rightarrow> so_item" where
  "so_text pts bs = (\<lparr>eType = SUBTITLE_TEXT, s64Pts = pts, u32Duration = 5, u32Len = length bs,
     pu8Data = NullPtr, so_rest = []\<rparr>, bs)"

lemma so_empty_inv: "so_state_inv (so_empty, 0)"
  by (simp add: so_empty_def so_state_inv_def so_inv_def s32_def)

theorem SO_Queue_run_fifo_witness:
  "so_state_inv (so_empty, 0) \<and>
   (\<exists>s'. queue_run so_ins so_rem (so_empty, 0) [Put (so_text 1 [7, 8]), Put (so_text 2 [9]), Take]
      = (s', [so_text 1 [7, 8], so_text 2 [9]], [so_text 1 [7, 8]]) \<and> so_contents s' = [so_text 2 [9]])"
proof -
  let ?ops = "[Put (so_text 1 [7, 8]), Put (so_text 2 [9]), Take]"
  obtain s' acc out where r: "queue_run so_ins so_rem (so_empty, 0) ?ops = (s', acc, out)"
    by (cases "queue_run so_ins so_rem (so_empty, 0) ?ops") auto
  have io: "acc = [so_text 1 [7, 8], so_text 2 [9]] \<and> out = [so_text 1 [7, 8]]"
    using r by (simp add: so_ins_def so_rem_def SO_QueuePut_def SO_QueueGet_def SO_GetBufLen_def
        SO_InitNode_def SO_QueueFull_def SO_node_view_def so_text_def so_empty_def s32_def)
  have fits: "\<forall>x. Put x \<in> set ?ops \<longrightarrow> so_fits (so_empty, 0) x"
    by (simp add: so_fits_def so_text_def)
  have "so_contents (so_empty, 0) = []" by (simp add: so_contents_def so_empty_def)
  then have "so_contents s' = [so_text 2 [9]]"
    using SO_Queue_run_fifo [OF so_empty_inv fits r] io by simp
  then show ?thesis using so_empty_inv r io by simp
qed

text \<open>\<open>SO_QueueReset_ByPts\<close> removes exactly the subtitles with an earlier pts: the other
  nodes stay in order with their payload, the memory of the removed ones and nothing else is
  freed, and both counters stay exact (the invariant is kept).\<close>

theorem SO_QueueReset_ByPts_exact:
  assumes "so_inv q" "SO_QueueReset_ByPts (Some q) pts = (Some q', r)"
  shows "so_inv q' \<and> r = MT_SUCCESS
    \<and> nodes q' = filter (\<lambda>n. pts \<le> s64Pts (snd n)) (nodes q)
    \<and> dom (heap q') = dom (heap q) - set (map fst (filter (\<lambda>n. s64Pts (snd n) < pts) (nodes q)))
    \<and> (\<forall>i \<in> dom (heap q'). heap q' i = heap q i)"
proof -
  let ?P = "\<lambda>m. so_stale pts (snd m)"
  have ok: "list_all (node_ok (heap q)) (nodes q)" and d: "distinct (map fst (nodes q))"
    using assms(1) by (auto simp: so_inv_def)
  have stale: "?P m \<longleftrightarrow> s64Pts (snd m) < pts" if "m \<in> set (nodes q)" for m
    using ok that node_ok_known [of "heap q" "fst m" "snd m"]
    by (auto simp: so_stale_def list_all_iff)
  have cnt: "num q = to_s32 (length (nodes q))" "s32BufferSize q = s32 (sum_len (nodes q))"
    using assms(1) by (auto simp: so_inv_def)
  then have "s32 (num q) = num q" "s32 (s32BufferSize q) = s32BufferSize q" by simp_all
  note loop = reset_by_pts_loop_eq [OF ok this, of pts "heap q"]
  have q': "q' = q\<lparr>nodes := filter (\<lambda>m. \<not> ?P m) (nodes q),
      heap := free_nodes (filter ?P (nodes q)) (heap q),
      num := to_s32 (length (filter (\<lambda>m. \<not> ?P m) (nodes q))),
      s32BufferSize := s32 (sum_len (filter (\<lambda>m. \<not> ?P m) (nodes q)))\<rparr>" and "r = MT_SUCCESS"
    using assms(2) by (simp_all add: SO_QueueReset_ByPts_def loop) (simp add: cnt filter_counts)
  have f: "filter (\<lambda>m. \<not> ?P m) (nodes q) = filter (\<lambda>n. pts \<le> s64Pts (snd n)) (nodes q)"
    using stale by (intro filter_cong) auto
  have "so_inv q'"
    using d nodes_ok_free [OF d ok, of ?P] by (simp add: q' so_inv_def distinct_map_filter)
  moreover have "dom (heap q') = dom (heap q) - set (map fst (filter (\<lambda>n. s64Pts (snd n) < pts) (nodes q)))"
    using stale by (auto simp: q' dom_free_nodes)
  moreover have "\<forall>i \<in> dom (heap q'). heap q' i = heap q i"
    by (auto simp: q' free_nodes_apply dom_def)
  ultimately show ?thesis using q' f \<open>r = MT_SUCCESS\<close> by simp
qed

theorem SO_QueueReset_ByPts_exact_witness:
  "\<exists>q q'. so_inv q \<and> length (nodes q) = 2 \<and> SO_QueueReset_ByPts (Some q) 2 = (Some q', MT_SUCCESS)
     \<and> map fst (nodes q') = [1] \<and> dom (heap q') = {1}"
proof -
  let ?i1 = "fst (so_text 1 [7, 8])\<lparr>pu8Data := Buf [7, 8]\<rparr>" and ?i2 = "fst (so_text 2 [9])\<lparr>pu8Data := Buf [9]\<rparr>"
  let ?q = "so_empty\<lparr>nodes := [(0, ?i1), (1, ?i2)], heap := [0 \<mapsto> [7, 8, 0], 1 \<mapsto> [9, 0]],
    num := 2, s32BufferSize := 3\<rparr>"
  have inv: "so_inv ?q"
    by (simp add: so_inv_def so_empty_def so_text_def node_ok_def SO_GetBufLen_def s32_def)
  obtain q' r where r: "SO_QueueReset_ByPts (Some ?q) 2 = (Some q', r)"
    by (cases "reset_by_pts_loop 2 (nodes ?q) (heap ?q) (num ?q) (s32BufferSize ?q)")
       (simp add: SO_QueueReset_ByPts_def del: reset_by_pts_loop.simps)
  have "nodes q' = [(1, ?i2)] \<and> dom (heap q') = {1} \<and> r = MT_SUCCESS"
    using SO_QueueReset_ByPts_exact [OF inv r] by (auto simp: so_text_def)
  then show ?thesis using inv r by (intro exI [of _ ?q] exI [of _ q']) simp
qed

text \<open>Ownership: a successful \<open>SO_QueueGet\<close> followed by \<open>SO_QueueFree\<close> of the descriptor it
  returned is defined, succeeds, releases exactly the memory of the first node, and leaves a
  well-formed queue with the remaining nodes.\<close>

theorem SO_QueueGet_Free:
  assumes "so_inv q" "nodes q = (i, info) # ns"
    and "SO_QueueGet (Some q) True = (Some q1, Some out, r)"
  shows "r = MT_SUCCESS \<and> (\<exists>q2. SO_QueueFree (Some q1) (Some out) = Some (Some q2, MT_SUCCESS)
     \<and> so_inv q2 \<and> nodes q2 = ns \<and> heap q2 = (heap q)(i := None))"
proof -
  have known: "eType info \<noteq> SUBTITLE_BUTT"
    using assms(1,2) node_ok_known [of "heap q" i info] by (simp add: so_inv_def)
  have live: "heap q i \<noteq> None" using node_live [OF assms(1), of "(i, info)"] assms(2) by simp
  have fresh: "i \<notin> set (map fst ns)" using assms(1,2) by (auto simp: so_inv_def)
  have g: "q1 = q\<lparr>nodes := ns, num := s32 (num q - 1),
      s32BufferSize := s32 (s32BufferSize q - SO_GetBufLen info)\<rparr>"
    "out = info\<lparr>pu8Data := NodeData i\<rparr>" "r = MT_SUCCESS"
    using assms known by (auto simp: SO_QueueGet_def SO_node_view_def)
  let ?q2 = "q1\<lparr>heap := (heap q1)(i := None)\<rparr>"
  have f: "SO_QueueFree (Some q1) (Some out) = Some (Some ?q2, MT_SUCCESS)"
    using known live by (simp add: SO_QueueFree_def g)
  have "so_inv ?q2"
    using free_inv [OF get_inv [OF assms(1,3)] f] fresh by (simp add: g)
  then show ?thesis using f g by simp
qed

theorem SO_QueueGet_Free_witness:
  "\<exists>q1 out q2. SO_QueueGet (Some (fst (fst (so_ins (so_empty, 0) (so_text 1 [7]))))) True
      = (Some q1, Some out, MT_SUCCESS)
    \<and> SO_QueueFree (Some q1) (Some out) = Some (Some q2, MT_SUCCESS) \<and> dom (heap q2) = {}"
proof -
  let ?i = "fst (so_text 1 [7])\<lparr>pu8Data := Buf [7]\<rparr>"
  let ?q = "fst (fst (so_ins (so_empty, 0) (so_text 1 [7])))"
  have fits: "so_fits (so_empty, 0) (so_text 1 [7])" and nf: "\<not> SO_QueueFull so_empty"
    by (simp_all add: so_fits_def so_text_def SO_QueueFull_def so_empty_def s32_def)
  have inv: "so_inv ?q"
    using so_ins_inv [OF so_empty_inv, of "fst (so_text 1 [7])" "[7]"] fits nf
    by (auto simp: so_state_inv_def so_text_def split: prod.splits)
  have n: "nodes ?q = [(0, ?i)]" and h: "heap ?q = [0 \<mapsto> [7, 0]]"
    using so_ins_eq [of so_empty 0 "fst (so_text 1 [7])" "[7]"] fits nf
    by (simp_all add: so_text_def so_empty_def)
  obtain q1 out r where g: "SO_QueueGet (Some ?q) True = (Some q1, Some out, r)"
    using n by (auto simp: SO_QueueGet_def)
  show ?thesis
    using SO_QueueGet_Free [OF inv n g] g h by auto
qed

text \<open>The two limits given to \<open>SO_QueueInit\<close> bound the queue only together: a put is refused
  for lack of room exactly when the byte limit and the node limit are both reached, so a queue
  whose node limit is not reached accepts a subtitle of any length.\<close>

theorem SO_QueuePut_limits:
  assumes "so_inv q" "eType info \<noteq> SUBTITLE_BUTT" "u32Len info < 2147483648"
    and "sum_len (nodes q) < 2147483648" "length (nodes q) < 2147483648"
    and "u32MaxBufferSize q < 2147483648" "u32MaxNodeNum q < 2147483648"
  shows "snd (SO_QueuePut (Some i) (Some q) (Some info)) = MT_FAILURE
    \<longleftrightarrow> int (u32MaxBufferSize q) \<le> sum_len (nodes q) \<and> u32MaxNodeNum q \<le> length (nodes q)"
proof -
  have "0 \<le> sum_len ns" if "list_all (node_ok h) ns" for h and ns :: "(nat \<times> so_info) list"
    using that by (induction ns) (auto simp: SO_GetBufLen_def s32_small node_ok_def split: prod.splits)
  then have "0 \<le> sum_len (nodes q)" using assms(1) by (auto simp: so_inv_def)
  then have full: "SO_QueueFull q \<longleftrightarrow> int (u32MaxBufferSize q) \<le> sum_len (nodes q)
      \<and> u32MaxNodeNum q \<le> length (nodes q)"
    using assms by (simp add: SO_QueueFull_def so_inv_def s32_small)
  show ?thesis
    using assms(2,3) by (simp add: SO_QueuePut_def SO_GetBufLen_def s32_small Let_def full
        split: prod.splits)
qed

theorem SO_QueuePut_limits_witness:
  "snd (SO_QueuePut (Some 0) (Some so_empty) (Some (fst (so_text 1 (replicate 5000 0))))) = MT_SUCCESS
   \<and> u32MaxBufferSize so_empty = 1024"
proof -
  let ?i = "fst (so_text 1 (replicate 5000 0))"
  have "snd (SO_QueuePut (Some 0) (Some so_empty) (Some ?i)) \<noteq> MT_FAILURE"
    using SO_QueuePut_limits [of so_empty ?i 0]
    by (simp add: so_inv_def so_empty_def so_text_def s32_def)
  then show ?thesis by (cases "snd (SO_QueuePut (Some 0) (Some so_empty) (Some ?i))")
    (simp_all add: so_empty_def)
qed

end
