(* ===== verification/Stream_Interface.thy ===== *)
theory Stream_Interface
  imports MT_Base
begin

text \<open>
  The contract of a byte stream buffer between one feeder and one drainer: a \<open>Feed\<close> appends the
  bytes of its argument when there is room for them, a \<open>Drain\<close> takes a prefix of the pending
  bytes. The locale \<open>byte_stream\<close> states it per operation and derives what holds of whole
  runs; the caption FIFO and the decoder ring buffer interpret it.
\<close>

datatype ('w, 'k) sop = Feed 'w | Drain 'k

text \<open>Runs a sequence of operations, where a feeder that finds no room drops its data (the
  buffers leave that test to the caller). Returns the final state, the bytes taken in and the
  bytes given out.\<close>

fun stream_run ::
  "('w \<Rightarrow> 'd list) \<Rightarrow> ('s \<Rightarrow> 'w \<Rightarrow> bool) \<Rightarrow> ('s \<Rightarrow> 'w \<Rightarrow> 's) \<Rightarrow> ('s \<Rightarrow> 'k \<Rightarrow> 's \<times> 'd list)
   \<Rightarrow> 's \<Rightarrow> ('w, 'k) sop list \<Rightarrow> 's \<times> 'd list \<times> 'd list"
where
  "stream_run bytes room put get s [] = (s, [], [])"
| "stream_run bytes room put get s (Feed w # ops) =
     (if room s w
      then (let (s2, acc, out) = stream_run bytes room put get (put s w) ops
            in (s2, bytes w @ acc, out))
      else stream_run bytes room put get s ops)"
| "stream_run bytes room put get s (Drain k # ops) =
     (let (s1, d) = get s k; (s2, acc, out) = stream_run bytes room put get s1 ops
      in (s2, acc, d @ out))"

locale byte_stream =
  fixes inv :: "'s \<Rightarrow> bool"
    and pending :: "'s \<Rightarrow> 'd list"
    and bytes :: "'w \<Rightarrow> 'd list"
    and room :: "'s \<Rightarrow> 'w \<Rightarrow> bool"
    and put :: "'s \<Rightarrow> 'w \<Rightarrow> 's"
    and get :: "'s \<Rightarrow> 'k \<Rightarrow> 's \<times> 'd list"
  assumes put_inv: "inv s \<Longrightarrow> room s w \<Longrightarrow> inv (put s w)"
    and put_pending: "inv s \<Longrightarrow> room s w \<Longrightarrow> pending (put s w) = pending s @ bytes w"
    and get_inv: "inv s \<Longrightarrow> inv (fst (get s k))"
    and get_pending: "inv s \<Longrightarrow> snd (get s k) @ pending (fst (get s k)) = pending s"
begin

lemma run_stream:
  assumes "inv s" "stream_run bytes room put get s ops = (s', acc, out)"
  shows "inv s' \<and> pending s @ acc = out @ pending s'"
  using assms
proof (induction ops arbitrary: s acc out)
  case (Cons op ops)
  show ?case
  proof (cases op)
    case (Feed w)
    show ?thesis
    proof (cases "room s w")
      case True
      obtain a o' where r: "stream_run bytes room put get (put s w) ops = (s', a, o')"
        and eq: "acc = bytes w @ a" "out = o'"
        using Cons.prems Feed True by (auto split: prod.splits)
      show ?thesis
        using Cons.IH [OF put_inv [OF Cons.prems(1) True] r] eq
          put_pending [OF Cons.prems(1) True] by simp
    next
      case False
      then show ?thesis using Cons Feed by simp
    qed
  next
    case (Drain k)
    obtain s1 d where g: "get s k = (s1, d)" by (cases "get s k")
    obtain o' where r: "stream_run bytes room put get s1 ops = (s', acc, o')" and eq: "out = d @ o'"
      using Cons.prems Drain g by (auto split: prod.splits)
    show ?thesis
      using Cons.IH [OF _ r] get_inv [OF Cons.prems(1), of k] get_pending [OF Cons.prems(1), of k]
        g eq by (metis append.assoc fst_conv snd_conv)
  qed
qed simp

text \<open>A drain right after a feed of a drained buffer gives back a prefix of what was fed.\<close>

lemma feed_drain_prefix:
  assumes "inv s" "pending s = []" "room s w"
  shows "snd (get (put s w) k) = take (length (snd (get (put s w) k))) (bytes w)"
  using get_pending [OF put_inv [OF assms(1,3)], of k] put_pending [OF assms(1,3)] assms(2)
  by (metis append_eq_conv_conj append_Nil)

end

end
