(* ===== verification/CcFifo.thy ===== *)
theory CcFifo
  imports Stream_Interface
begin

text \<open>
  The user-data FIFO of the closed caption front end, \<open>kware/cc/src/mt_cc_fifo.c\<close>: a circular
  byte buffer of 4096 bytes between \<open>MT_UNF_CC_InjectUserData\<close> and the caption task. The global
  pointer \<open>g_p_cc_data\<close> is an option (\<open>None\<close>: NULL). \<open>getCcDisplayOnOff()\<close> is an argument of
  \<open>cc_fifo_put\<close>. A dereference of NULL is the outer \<open>None\<close> of \<open>cc_fifo_init\<close>. The diagnostic
  prints of \<open>cc_fifo_get\<close> are left out. The FIFO interprets \<open>byte_stream\<close>.
\<close>

record cc_fifo =
  fifo_read_p :: nat
  fifo_write_p :: nat
  fifo_buff :: "u8 list"

definition CC_FIFO_TOTAL_LENGTH :: nat where
  "CC_FIFO_TOTAL_LENGTH = 4 * 1024"

text \<open>\<open>mal\<close> is the answer of \<open>CcMalloc\<close>.\<close>

definition cc_fifo_init :: "cc_fifo option \<Rightarrow> (cc_fifo option \<times> mt_ret) option" where
  "cc_fifo_init mal =
     (case mal of None \<Rightarrow> None
      | Some f \<Rightarrow> Some (Some (f\<lparr>fifo_read_p := 0, fifo_write_p := 0\<rparr>), MT_SUCCESS))"

definition cc_fifo_deinit :: "cc_fifo option \<Rightarrow> cc_fifo option \<times> mt_ret" where
  "cc_fifo_deinit g = (None, MT_SUCCESS)"

definition cc_fifo_put ::
  "bool \<Rightarrow> cc_fifo option \<Rightarrow> u8 list \<Rightarrow> nat \<Rightarrow> cc_fifo option \<times> mt_ret" where
  "cc_fifo_put displayOnOff g cc_data cc_len =
     (if \<not> displayOnOff then (g, MT_SUCCESS)
      else if cc_len > CC_FIFO_TOTAL_LENGTH then (g, MT_FAILURE)
      else if cc_len \<le> 0 then (g, MT_FAILURE)
      else case g of None \<Rightarrow> (None, MT_FAILURE) | Some f \<Rightarrow>
        let wp = fifo_write_p f;
            buff = (if u32_add wp cc_len \<le> CC_FIFO_TOTAL_LENGTH
                    then mem_write (fifo_buff f) wp (take cc_len cc_data)
                    else (let len1 = CC_FIFO_TOTAL_LENGTH - wp; len2 = cc_len - len1
                          in mem_write (mem_write (fifo_buff f) wp (take len1 cc_data)) 0
                               (take len2 (drop len1 cc_data))))
        in (Some (f\<lparr>fifo_buff := buff,
                    fifo_write_p := u32_add wp cc_len mod CC_FIFO_TOTAL_LENGTH\<rparr>), MT_SUCCESS))"

text \<open>Returns the state, the bytes copied to \<open>data\<close> (as many as \<open>*length\<close> says) and the return
  code; \<open>data = None\<close> is the NULL buffer, which leaves \<open>*length\<close> unwritten.\<close>

definition cc_fifo_get ::
  "bool \<Rightarrow> cc_fifo option \<Rightarrow> cc_fifo option \<times> u8 list option \<times> mt_ret" where
  "cc_fifo_get data g =
     (if \<not> data then (g, None, MT_FAILURE)
      else case g of None \<Rightarrow> (None, Some [], MT_FAILURE) | Some f \<Rightarrow>
        let wp = fifo_write_p f; rp = fifo_read_p f in
        if rp = wp then (Some f, Some [], MT_SUCCESS)
        else if wp > rp
        then (let len = wp - rp in
              if len \<ge> 6
              then (Some (f\<lparr>fifo_read_p := u32_add rp len\<rparr>), Some (mem_read (fifo_buff f) rp len),
                    MT_SUCCESS)
              else (Some f, Some [], MT_SUCCESS))
        else (let len1 = CC_FIFO_TOTAL_LENGTH - rp; len2 = wp; len = len1 + len2 in
              if len \<ge> 6
              then (Some (f\<lparr>fifo_read_p := wp\<rparr>),
                    Some (mem_read (fifo_buff f) rp len1 @ mem_read (fifo_buff f) 0 len2), MT_SUCCESS)
              else (Some f, Some [], MT_SUCCESS)))"

definition cc_fifo_clear :: "cc_fifo option \<Rightarrow> cc_fifo option \<times> mt_ret" where
  "cc_fifo_clear g =
     (case g of None \<Rightarrow> (None, MT_FAILURE)
      | Some f \<Rightarrow> (Some (f\<lparr>fifo_read_p := fifo_write_p f\<rparr>), MT_SUCCESS))"

section \<open>Abstraction and invariant\<close>

definition fifo_inv :: "cc_fifo \<Rightarrow> bool" where
  "fifo_inv f \<longleftrightarrow> fifo_read_p f < 4096 \<and> fifo_write_p f < 4096 \<and> length (fifo_buff f) = 4096"

definition fifo_count :: "cc_fifo \<Rightarrow> nat" where
  "fifo_count f = (fifo_write_p f + 4096 - fifo_read_p f) mod 4096"

definition fifo_pending :: "cc_fifo \<Rightarrow> u8 list" where
  "fifo_pending f = ring_view (fifo_buff f) 4096 (fifo_read_p f) (fifo_count f)"

definition fifo_room :: "cc_fifo \<Rightarrow> u8 list \<Rightarrow> bool" where
  "fifo_room f bs \<longleftrightarrow> 0 < length bs \<and> fifo_count f + length bs < 4096"

definition fifo_put :: "cc_fifo \<Rightarrow> u8 list \<Rightarrow> cc_fifo" where
  "fifo_put f bs = the (fst (cc_fifo_put True (Some f) bs (length bs)))"

definition fifo_get :: "cc_fifo \<Rightarrow> unit \<Rightarrow> cc_fifo \<times> u8 list" where
  "fifo_get f u = (case cc_fifo_get True (Some f) of (g, d, _) \<Rightarrow> (the g, the d))"

lemmas fifo_defs = fifo_inv_def CC_FIFO_TOTAL_LENGTH_def

lemma put_eq:
  assumes "fifo_inv f" "0 < length bs" "length bs \<le> 4096"
  shows "cc_fifo_put True (Some f) bs (length bs) =
    (Some (f\<lparr>fifo_buff := ring_write (fifo_buff f) 4096 (fifo_write_p f) bs,
       fifo_write_p := (fifo_write_p f + length bs) mod 4096\<rparr>), MT_SUCCESS)"
proof -
  have "u32_add (fifo_write_p f) (length bs) = fifo_write_p f + length bs"
    using assms by (intro u32_add_small) (simp add: fifo_inv_def)
  then show ?thesis
    using assms by (simp add: cc_fifo_put_def fifo_defs ring_write_def Let_def)
qed

lemma put_fifo_inv:
  "fifo_inv f \<Longrightarrow> 0 < length bs \<Longrightarrow> length bs \<le> 4096 \<Longrightarrow> fifo_inv (fifo_put f bs)"
  by (simp add: fifo_put_def put_eq) (simp add: fifo_inv_def ring_simps)

lemma count_less: "fifo_count f < 4096"
  by (simp add: fifo_count_def)

lemma count_pending: "fifo_count f = length (fifo_pending f)"
  by (simp add: fifo_pending_def)

lemma write_of_count: "fifo_inv f \<Longrightarrow> (fifo_read_p f + fifo_count f) mod 4096 = fifo_write_p f"
  by (auto simp: fifo_inv_def fifo_count_def mod_below_double)

lemma count_put:
  assumes "fifo_inv f" "fifo_count f + n < 4096"
  shows "((fifo_write_p f + n) mod 4096 + 4096 - fifo_read_p f) mod 4096 = fifo_count f + n"
  using assms by (auto simp: fifo_inv_def fifo_count_def mod_below_double split: if_splits)

lemma put_pending:
  assumes "fifo_inv f" "fifo_room f bs"
  shows "fifo_pending (fifo_put f bs) = fifo_pending f @ bs"
proof -
  let ?n = "fifo_count f" and ?r = "fifo_read_p f"
  have c: "fifo_count (fifo_put f bs) = ?n + length bs"
    using assms count_put [of f "length bs"]
    by (simp add: fifo_put_def put_eq fifo_room_def) (simp add: fifo_count_def)
  have "ring_view (ring_write (fifo_buff f) 4096 ((?r + ?n) mod 4096) bs) 4096 ?r (?n + length bs)
      = ring_view (fifo_buff f) 4096 ?r ?n @ bs"
    using assms by (intro ring_view_write_behind) (auto simp: fifo_inv_def fifo_room_def)
  then show ?thesis
    using assms c write_of_count [OF assms(1)]
    by (simp add: fifo_pending_def) (simp add: fifo_put_def put_eq fifo_room_def)
qed

text \<open>What a get does, on every branch: nothing below six pending bytes, everything otherwise.\<close>

lemma get_eq:
  assumes "fifo_inv f"
  shows "cc_fifo_get True (Some f) =
    (if fifo_count f < 6 then (Some f, Some [], MT_SUCCESS)
     else (Some (f\<lparr>fifo_read_p := fifo_write_p f\<rparr>), Some (fifo_pending f), MT_SUCCESS))"
proof -
  let ?r = "fifo_read_p f" and ?w = "fifo_write_p f"
  have b: "?r < 4096" "?w < 4096" "length (fifo_buff f) = 4096" using assms by (auto simp: fifo_inv_def)
  consider "?r = ?w" | "?r < ?w" | "?w < ?r" by linarith
  then show ?thesis
  proof cases
    case 1
    then show ?thesis by (simp add: cc_fifo_get_def fifo_count_def)
  next
    case 2
    then have c: "fifo_count f = ?w - ?r" using b by (simp add: fifo_count_def mod_below_double)
    then have "fifo_pending f = mem_read (fifo_buff f) ?r (?w - ?r)"
      using 2 b by (simp add: fifo_pending_def ring_view_linear)
    then show ?thesis using 2 b c by (simp add: cc_fifo_get_def u32_add_small Let_def)
  next
    case 3
    then have c: "fifo_count f = 4096 - ?r + ?w" using b by (simp add: fifo_count_def mod_below_double)
    then have "fifo_pending f = mem_read (fifo_buff f) ?r (4096 - ?r) @ mem_read (fifo_buff f) 0 ?w"
      using 3 b ring_view_wrapped [of ?r 4096 "fifo_buff f" "fifo_count f"]
      by (simp add: fifo_pending_def)
    then show ?thesis using 3 b c by (simp add: cc_fifo_get_def CC_FIFO_TOTAL_LENGTH_def Let_def)
  qed
qed

lemma fifo_get_eq:
  "fifo_inv f \<Longrightarrow> fifo_get f u = (if fifo_count f < 6 then (f, [])
     else (f\<lparr>fifo_read_p := fifo_write_p f\<rparr>, fifo_pending f))"
  by (simp add: fifo_get_def get_eq)

interpretation ccf: byte_stream fifo_inv fifo_pending "\<lambda>bs. bs" fifo_room fifo_put fifo_get
proof (unfold_locales, goal_cases)
  case (1 s w) then show ?case by (intro put_fifo_inv) (auto simp: fifo_room_def)
next
  case (2 s w) then show ?case by (rule put_pending)
next
  case (3 s k) then show ?case by (simp add: fifo_get_eq) (simp add: fifo_inv_def)
next
  case (4 s k) then show ?case by (simp add: fifo_get_eq fifo_pending_def fifo_count_def)
qed

section \<open>Properties\<close>

text \<open>C7. As long as the injected packets fit the free space, the caption task receives exactly
  the injected bytes in order, across every wrap-around of the buffer, and the positions stay
  inside it.\<close>

theorem cc_fifo_run_stream:
  assumes "fifo_inv f" "stream_run (\<lambda>bs. bs) fifo_room fifo_put fifo_get f ops = (f', acc, out)"
  shows "fifo_inv f' \<and> fifo_pending f @ acc = out @ fifo_pending f'"
  using assms by (rule ccf.run_stream)

definition fifo_fresh :: cc_fifo where
  "fifo_fresh = \<lparr>fifo_read_p = 0, fifo_write_p = 0, fifo_buff = replicate 4096 0\<rparr>"

lemma fresh_inv: "fifo_inv fifo_fresh"
  by (simp add: fifo_inv_def fifo_fresh_def)

lemma fresh_pending: "fifo_pending fifo_fresh = []"
  by (simp add: fifo_pending_def fifo_count_def fifo_fresh_def)

theorem cc_fifo_run_stream_witness:
  "\<exists>f'. stream_run (\<lambda>bs. bs) fifo_room fifo_put fifo_get fifo_fresh
      [Feed [1, 2, 3], Drain (), Feed [4, 5, 6], Drain ()] = (f', [1, 2, 3, 4, 5, 6], [1, 2, 3, 4, 5, 6])
     \<and> fifo_pending f' = []"
proof -
  let ?f1 = "fifo_put fifo_fresh [1, 2, 3]"
  let ?f2 = "fifo_put ?f1 [4, 5, 6]"
  have c0: "fifo_count fifo_fresh = 0" by (simp add: fifo_count_def fifo_fresh_def)
  then have r0: "fifo_room fifo_fresh [1, 2, 3]" by (simp add: fifo_room_def)
  have i1: "fifo_inv ?f1" using ccf.put_inv [OF fresh_inv r0] .
  have p1: "fifo_pending ?f1 = [1, 2, 3]" using put_pending [OF fresh_inv r0] fresh_pending by simp
  then have c1: "fifo_count ?f1 = 3" by (simp add: count_pending)
  then have r1: "fifo_room ?f1 [4, 5, 6]" by (simp add: fifo_room_def)
  have i2: "fifo_inv ?f2" using ccf.put_inv [OF i1 r1] .
  have p2: "fifo_pending ?f2 = [1, 2, 3, 4, 5, 6]" using put_pending [OF i1 r1] p1 by simp
  then have c2: "fifo_count ?f2 = 6" by (simp add: count_pending)
  let ?f3 = "?f2\<lparr>fifo_read_p := fifo_write_p ?f2\<rparr>"
  have run: "stream_run (\<lambda>bs. bs) fifo_room fifo_put fifo_get fifo_fresh
      [Feed [1, 2, 3], Drain (), Feed [4, 5, 6], Drain ()] = (?f3, [1, 2, 3, 4, 5, 6], [1, 2, 3, 4, 5, 6])"
    using r0 r1 i1 i2 c1 c2 p2 by (simp add: fifo_get_eq)
  then show ?thesis
    using cc_fifo_run_stream [OF fresh_inv run] fresh_pending by simp
qed

text \<open>A get never copies more than the 4095 bytes the caption task's 4096-byte buffer can take,
  delivers all pending bytes or, below six of them, none and keeps them, and leaves the buffer
  and the write position alone.\<close>

theorem cc_fifo_get_bounded:
  assumes "fifo_inv f" "cc_fifo_get True (Some f) = (Some f', Some d, r)"
  shows "r = MT_SUCCESS \<and> fifo_inv f' \<and> length d < CC_FIFO_TOTAL_LENGTH
    \<and> (if length (fifo_pending f) < 6 then d = [] \<and> f' = f
        else d = fifo_pending f \<and> fifo_pending f' = [])
    \<and> fifo_buff f' = fifo_buff f \<and> fifo_write_p f' = fifo_write_p f"
  using assms count_less [of f]
  by (auto simp: get_eq fifo_defs fifo_pending_def fifo_count_def split: if_splits)

theorem cc_fifo_get_bounded_witness:
  "\<exists>f' d. cc_fifo_get True (Some (fifo_put fifo_fresh [1, 2, 3, 4, 5])) = (Some f', Some d, MT_SUCCESS)
     \<and> d = [] \<and> length (fifo_pending f') = 5"
proof -
  let ?f = "fifo_put fifo_fresh [1, 2, 3, 4, 5]"
  have r: "fifo_room fifo_fresh [1, 2, 3, 4, 5]"
    by (simp add: fifo_room_def fifo_count_def fifo_fresh_def)
  have inv: "fifo_inv ?f" using ccf.put_inv [OF fresh_inv r] .
  have p: "length (fifo_pending ?f) = 5" using put_pending [OF fresh_inv r] fresh_pending by simp
  obtain f' d r where g: "cc_fifo_get True (Some ?f) = (Some f', Some d, r)"
    using get_eq [OF inv] by (cases "fifo_count ?f < 6") auto
  show ?thesis
    using cc_fifo_get_bounded [OF inv g] p g by auto
qed

text \<open>\<open>cc_fifo_put\<close> does not look at the read position: every packet of 1 to 4096 bytes is
  accepted whatever is pending, and the number of pending bytes afterwards is the sum modulo
  4096. A packet that does not fit the free space therefore makes bytes disappear; one of
  exactly the buffer size does not make the FIFO any fuller.\<close>

theorem cc_fifo_put_overrun:
  assumes "fifo_inv f" "0 < length bs" "length bs \<le> CC_FIFO_TOTAL_LENGTH"
  shows "\<exists>f'. cc_fifo_put True (Some f) bs (length bs) = (Some f', MT_SUCCESS) \<and> fifo_inv f'
     \<and> length (fifo_pending f') = (length (fifo_pending f) + length bs) mod CC_FIFO_TOTAL_LENGTH"
proof -
  have l: "length bs \<le> 4096" using assms(3) by (simp add: CC_FIFO_TOTAL_LENGTH_def)
  have "((fifo_write_p f + length bs) mod 4096 + 4096 - fifo_read_p f) mod 4096
      = (fifo_count f + length bs) mod 4096"
  proof -
    have r: "fifo_read_p f \<le> 4096" using assms(1) by (simp add: fifo_inv_def)
    have "((fifo_write_p f + length bs) mod 4096 + 4096 - fifo_read_p f) mod 4096
      = ((fifo_write_p f + length bs) mod 4096 + (4096 - fifo_read_p f)) mod 4096" using r by simp
    also have "\<dots> = (fifo_write_p f + (4096 - fifo_read_p f) + length bs) mod 4096"
      by (simp add: mod_simps ac_simps)
    also have "\<dots> = (fifo_count f + length bs) mod 4096"
      using r by (simp add: fifo_count_def mod_simps)
    finally show ?thesis .
  qed
  then have c: "fifo_count (fifo_put f bs) = (fifo_count f + length bs) mod 4096"
    using assms l by (simp add: fifo_put_def put_eq) (simp add: fifo_count_def)
  moreover have "cc_fifo_put True (Some f) bs (length bs) = (Some (fifo_put f bs), MT_SUCCESS)"
    using assms l by (simp add: fifo_put_def put_eq)
  ultimately show ?thesis
    using put_fifo_inv [OF assms(1,2) l] by (simp add: count_pending [symmetric] CC_FIFO_TOTAL_LENGTH_def)
qed

theorem cc_fifo_put_overrun_witness:
  "\<exists>f'. cc_fifo_put True (Some fifo_fresh) (replicate 4096 7) (length (replicate 4096 (7::u8)))
      = (Some f', MT_SUCCESS) \<and> fifo_pending f' = []"
proof -
  have l: "0 < length (replicate 4096 (7::u8))" "length (replicate 4096 (7::u8)) \<le> CC_FIFO_TOTAL_LENGTH"
    by (simp_all add: CC_FIFO_TOTAL_LENGTH_def)
  show ?thesis
    using cc_fifo_put_overrun [OF fresh_inv l] fresh_pending
    by (auto simp: CC_FIFO_TOTAL_LENGTH_def)
qed

end
