(* ===== verification/RingBuffer.thy ===== *)
theory RingBuffer
  imports Stream_Interface
begin

text \<open>
  The ring buffer of the external audio decoder, \<open>msp/api/adec/ext_decoder/RingBuffer.c\<close>: a raw
  byte ring with an extension area in front of it, so that a window that wraps can be made
  contiguous, and a ring of time stamped frames. Pointers are offsets from \<open>start_ext\<close>, the
  start of the allocated block \<open>mem\<close>; the counters are 32-bit. A freed block that is freed again
  is the value \<open>None\<close>. \<open>ring_buffer_write\<close> and \<open>ring_buffer_read\<close> copy; only
  \<open>ring_buffer_validate\<close> moves the pointers. The raw ring interprets \<open>byte_stream\<close>.
\<close>

record frm_info =
  tms :: nat
  pos :: nat
  frm_size :: nat

record tms_rb =
  idx_rd :: nat
  idx_wr :: nat
  tms_cnt :: nat
  tms_size :: nat
  ptfrm :: "frm_info list option"

record raw_rb =
  start_ext_set :: bool
  live :: bool
  mem :: "u8 list"
  start :: nat
  raw_end :: nat
  rd :: nat
  wr :: nat
  cnt :: nat
  size_ext :: nat
  raw_size :: nat

record media_rb =
  used :: nat
  raw :: raw_rb
  tmsr :: tms_rb

definition INVALID_TMS :: nat where
  "INVALID_TMS = 18446744073709551615"

datatype rb_flag = RB_FLAG_WR | RB_FLAG_RD | RB_FLAG_OTHER

text \<open>The length asked of \<open>RB_MALLOC\<close>; \<open>buf\<close> and \<open>frm_ok\<close> are the answers to the two
  allocations. When the second one fails the block of the first is freed, and \<open>start_ext\<close> keeps
  pointing to it.\<close>

definition ring_buffer_alloc_request :: "nat \<Rightarrow> nat \<Rightarrow> nat" where
  "ring_buffer_alloc_request raw_data_len ext_data_len = u32_add raw_data_len ext_data_len"

definition ring_buffer_initialize ::
  "u8 list option \<Rightarrow> bool \<Rightarrow> media_rb \<Rightarrow> nat \<Rightarrow> nat \<Rightarrow> nat \<Rightarrow> media_rb \<times> bool" where
  "ring_buffer_initialize buf frm_ok m raw_data_len ext_data_len tms_num =
     (case buf of None \<Rightarrow> (m, False) | Some bs \<Rightarrow>
       let r = \<lparr>start_ext_set = True, live = True, mem = bs, start = ext_data_len,
                raw_end = ext_data_len + raw_data_len - 1, rd = ext_data_len, wr = ext_data_len,
                cnt = 0, size_ext = ext_data_len, raw_size = raw_data_len\<rparr>;
           t = \<lparr>idx_rd = 0, idx_wr = 0, tms_cnt = 0, tms_size = tms_num,
                ptfrm = (if frm_ok then Some (replicate tms_num \<lparr>tms = 0, pos = 0, frm_size = 0\<rparr>)
                         else None)\<rparr>
       in if frm_ok then (\<lparr>used = 1, raw = r, tmsr = t\<rparr>, True)
          else (\<lparr>used = 1, raw = r\<lparr>live := False\<rparr>, tmsr = t\<rparr>, False))"

text \<open>The result: the buffer, the answer, what is stored in \<open>*real_len\<close> and in \<open>*addr\<close>.
  \<open>real_len\<close> and \<open>addr\<close> say whether the caller's pointers are non-NULL.\<close>

definition ring_buffer_enough ::
  "media_rb \<Rightarrow> nat \<Rightarrow> rb_flag \<Rightarrow> bool \<Rightarrow> bool \<Rightarrow> media_rb \<times> bool \<times> nat option \<times> nat option" where
  "ring_buffer_enough m op_len rw_flag real_len addr =
     (let r = raw m in
      if \<not> real_len then (m, False, None, None)
      else case rw_flag of
        RB_FLAG_RD \<Rightarrow>
          (if op_len > 0
           then (if cnt r \<ge> op_len
                 then (if addr
                       then (let tail_len = raw_end r - rd r + 1 in
                             if tail_len < op_len
                             then (if tail_len < size_ext r
                                   then (let new_start = start r - tail_len;
                                             mem' = mem_write (mem r) new_start
                                                      (mem_read (mem r) (rd r) tail_len)
                                         in (m\<lparr>raw := r\<lparr>mem := mem', rd := new_start\<rparr>\<rparr>, True,
                                             Some op_len, Some new_start))
                                   else (m, True, Some tail_len, Some (rd r)))
                             else (m, True, Some op_len, Some (rd r)))
                       else (m, True, Some op_len, None))
                 else (m, False, Some (cnt r), None))
           else (m, False, None, None))
      | RB_FLAG_WR \<Rightarrow>
          (m, u32_add (cnt r) op_len \<le> raw_size r, Some (u32_sub (raw_size r) (cnt r)),
           if addr then Some (wr r) else None)
      | RB_FLAG_OTHER \<Rightarrow> (m, False, None, None))"

definition advance :: "raw_rb \<Rightarrow> nat \<Rightarrow> nat \<Rightarrow> nat" where
  "advance r p n =
     (if p + n > raw_end r then start r + (p + n - raw_end r) - 1 else p + n)"

definition ring_buffer_validate :: "media_rb \<Rightarrow> rb_flag \<Rightarrow> nat \<Rightarrow> media_rb \<times> bool" where
  "ring_buffer_validate m rw_flag len =
     (let r = raw m in
      if rw_flag = RB_FLAG_WR
      then (m\<lparr>raw := r\<lparr>wr := advance r (wr r) len, cnt := u32_add (cnt r) len\<rparr>\<rparr>, True)
      else (m\<lparr>raw := r\<lparr>rd := advance r (rd r) len, cnt := u32_sub (cnt r) len\<rparr>\<rparr>, True))"

text \<open>The copy and the time stamp part of \<open>ring_buffer_write\<close>.\<close>

definition raw_copy_in :: "raw_rb \<Rightarrow> u8 list \<Rightarrow> nat \<Rightarrow> raw_rb" where
  "raw_copy_in r src write_len =
     (if wr r + write_len > raw_end r
      then (let copy_len = raw_end r - wr r + 1; remain_len = u32_sub write_len copy_len
            in r\<lparr>mem := mem_write (mem_write (mem r) (wr r) (take copy_len src)) (start r)
                         (take remain_len (drop copy_len src))\<rparr>)
      else r\<lparr>mem := mem_write (mem r) (wr r) (take write_len src)\<rparr>)"

definition tms_record :: "tms_rb \<Rightarrow> nat \<Rightarrow> nat \<Rightarrow> nat \<Rightarrow> tms_rb" where
  "tms_record t wpos write_len ts =
     (case ptfrm t of None \<Rightarrow> t | Some fs \<Rightarrow>
      if tms_cnt t \<ge> tms_size t then t
      else (let is_repeated =
              (tms_cnt t > 0 \<and>
               (let last_wr_pos = (if idx_wr t = 0 then tms_size t - 1 else idx_wr t - 1)
                in tms (fs ! last_wr_pos) = ts))
            in if \<not> is_repeated
               then t\<lparr>ptfrm := Some (fs[idx_wr t := \<lparr>tms = ts, pos = wpos, frm_size = write_len\<rparr>]),
                      tms_cnt := tms_cnt t + 1, idx_wr := (idx_wr t + 1) mod tms_size t\<rparr>
               else t\<lparr>ptfrm := Some (fs[idx_wr t :=
                        (fs ! idx_wr t)\<lparr>frm_size := u32_add (frm_size (fs ! idx_wr t)) write_len\<rparr>])\<rparr>))"

definition ring_buffer_write ::
  "media_rb \<Rightarrow> u8 list \<Rightarrow> nat \<Rightarrow> bool \<Rightarrow> nat \<Rightarrow> media_rb \<times> mt_ret" where
  "ring_buffer_write m src write_len do_copy ts =
     (if raw_size (raw m) < u32_add (cnt (raw m)) write_len then (m, MT_FAILURE)
      else (m\<lparr>raw := (if do_copy then raw_copy_in (raw m) src write_len else raw m),
              tmsr := tms_record (tmsr m) (wr (raw m)) write_len ts\<rparr>, MT_SUCCESS))"

text \<open>The time stamp part of \<open>ring_buffer_read\<close>: the time stamp ring, the bound on the length
  and the stamp stored in \<open>*tms\<close> (\<open>None\<close>: not written, the "unexpected case").\<close>

definition tms_next_frame :: "tms_rb \<Rightarrow> frm_info \<Rightarrow> nat \<Rightarrow> tms_rb \<times> nat \<times> nat option" where
  "tms_next_frame t nf len =
     (t\<lparr>tms_cnt := tms_cnt t - 1, idx_rd := (idx_rd t + 1) mod tms_size t\<rparr>,
      if len > frm_size nf then frm_size nf else len, Some (tms nf))"

definition tms_lookup :: "tms_rb \<Rightarrow> raw_rb \<Rightarrow> nat \<Rightarrow> tms_rb \<times> nat \<times> nat option" where
  "tms_lookup t r read_len =
     (case ptfrm t of None \<Rightarrow> (t, read_len, Some INVALID_TMS) | Some fs \<Rightarrow>
      if tms_cnt t = 0 then (t, read_len, Some INVALID_TMS)
      else if tms_cnt t = 1 then (t, read_len, Some (tms (fs ! idx_rd t)))
      else (let cf = fs ! idx_rd t; nf = fs ! ((idx_rd t + 1) mod tms_size t) in
            if pos cf > pos nf
            then (if rd r \<ge> pos cf
                  then (t, u32_sub (pos nf + raw_size r) (rd r), Some (tms cf))
                  else if rd r < pos nf then (t, u32_sub (pos nf) (rd r), Some (tms cf))
                  else if rd r = pos nf then tms_next_frame t nf read_len
                  else (t, read_len, None))
            else (if rd r \<ge> pos cf \<and> rd r < pos nf
                  then (t, u32_sub (pos nf) (rd r), Some (tms cf))
                  else if rd r = pos nf then tms_next_frame t nf read_len
                  else (t, read_len, None))))"

definition raw_copy_out :: "raw_rb \<Rightarrow> nat \<Rightarrow> u8 list" where
  "raw_copy_out r read_len =
     (if rd r + read_len > raw_end r
      then (let copy_len = raw_end r - rd r + 1; remain_len = u32_sub read_len copy_len
            in mem_read (mem r) (rd r) copy_len @ mem_read (mem r) (start r) remain_len)
      else mem_read (mem r) (rd r) read_len)"

text \<open>The result of a successful read: the bytes copied to \<open>dst\<close>, \<open>*real_len\<close> and \<open>*tms\<close>.\<close>

definition ring_buffer_read ::
  "media_rb \<Rightarrow> nat \<Rightarrow> bool \<Rightarrow> media_rb \<times> (u8 list \<times> nat \<times> nat option) option" where
  "ring_buffer_read m read_len do_copy =
     (if cnt (raw m) < read_len \<or> read_len = 0 then (m, None)
      else (let (t, fsize, ts) = tms_lookup (tmsr m) (raw m) read_len;
                len = (if read_len > fsize then fsize else read_len)
            in (m\<lparr>tmsr := t\<rparr>, Some (if do_copy then raw_copy_out (raw m) len else [], len, ts))))"

definition ring_buffer_finalize :: "media_rb \<Rightarrow> (media_rb \<times> bool) option" where
  "ring_buffer_finalize m =
     (if start_ext_set (raw m) \<and> \<not> live (raw m) then None
      else Some (m\<lparr>used := 0, raw := (raw m)\<lparr>live := False\<rparr>\<rparr>, True))"

definition ring_buffer_reset :: "media_rb \<Rightarrow> media_rb \<times> bool" where
  "ring_buffer_reset m =
     (m\<lparr>raw := (raw m)\<lparr>cnt := 0, rd := start (raw m), wr := start (raw m)\<rparr>,
        tmsr := (tmsr m)\<lparr>tms_cnt := 0, idx_rd := 0, idx_wr := 0\<rparr>\<rparr>, True)"

section \<open>Abstraction and invariant\<close>

text \<open>The read pointer may lie in the extension area, which then holds the first bytes.\<close>

definition raw_inv :: "raw_rb \<Rightarrow> bool" where
  "raw_inv r \<longleftrightarrow> 0 < raw_size r \<and> start r = size_ext r \<and> raw_end r = start r + raw_size r - 1
     \<and> rd r < start r + raw_size r \<and> start r \<le> wr r \<and> wr r < start r + raw_size r
     \<and> cnt r \<le> raw_size r \<and> length (mem r) = start r + raw_size r
     \<and> start r + raw_size r < U32_RANGE \<and> start r \<le> rd r + cnt r
     \<and> wr r = (if rd r + cnt r < start r + raw_size r then rd r + cnt r else rd r + cnt r - raw_size r)"

definition raw_contents :: "raw_rb \<Rightarrow> u8 list" where
  "raw_contents r = mem_read (mem r) (rd r) (start r - rd r)
     @ ring_view (drop (start r) (mem r)) (raw_size r) (rd r - start r) (cnt r - (start r - rd r))"

lemma mem_write_Nil [mem_simps]: "mem_write m p [] = m"
  by (simp add: mem_write_def)

lemma mem_read_add: "mem_read m p (a + b) = mem_read m p a @ mem_read m (p + a) b"
  by (simp add: mem_read_def take_add add.commute)

lemma mem_read_drop: "mem_read (drop s m) p n = mem_read m (s + p) n"
  by (simp add: mem_read_def add.commute)

lemma mem_write_shift:
  "s \<le> p \<Longrightarrow> p \<le> length m \<Longrightarrow> mem_write m p src = take s m @ mem_write (drop s m) (p - s) src"
  by (simp add: mem_write_def drop_take)
     (metis append_assoc append_take_drop_id le_add_diff_inverse take_add)

lemma mem_write_append:
  "length a = s \<Longrightarrow> s \<le> p \<Longrightarrow> mem_write (a @ b) p src = a @ mem_write b (p - s) src"
  by (simp add: mem_write_def)

lemma raw_inv_cases:
  assumes "raw_inv r"
  obtains "0 < raw_size r" "start r = size_ext r" "raw_end r = start r + raw_size r - 1"
    "rd r < start r + raw_size r" "start r \<le> wr r" "wr r < start r + raw_size r"
    "cnt r \<le> raw_size r" "length (mem r) = start r + raw_size r"
    "start r + raw_size r < U32_RANGE" "start r \<le> rd r + cnt r"
    "wr r = (if rd r + cnt r < start r + raw_size r then rd r + cnt r else rd r + cnt r - raw_size r)"
  using assms unfolding raw_inv_def by (elim conjE) (rule that)

lemma copy_in_mem:
  assumes "raw_inv r" "cnt r + length src \<le> raw_size r"
  shows "raw_copy_in r src (length src) =
    r\<lparr>mem := take (start r) (mem r)
        @ ring_write (drop (start r) (mem r)) (raw_size r) (wr r - start r) src\<rparr>"
  using assms(1)
proof (rule raw_inv_cases)
  assume i: "0 < raw_size r" "raw_end r = start r + raw_size r - 1" "start r \<le> wr r"
    "wr r < start r + raw_size r" "length (mem r) = start r + raw_size r"
    "start r + raw_size r < U32_RANGE"
  let ?p = "wr r - start r"
  have shift: "mem_write (mem r) (wr r) bs =
      take (start r) (mem r) @ mem_write (drop (start r) (mem r)) ?p bs" for bs
    using i by (intro mem_write_shift) auto
  show ?thesis
  proof (cases "wr r + length src > raw_end r")
    case True
    then have copy: "raw_end r - wr r + 1 = raw_size r - ?p" using i by linarith
    have rem: "u32_sub (length src) (raw_size r - ?p) = length src - (raw_size r - ?p)"
      using True i assms(2) by (intro u32_sub_small) linarith+
    have "raw_copy_in r src (length src) = r\<lparr>mem := take (start r) (mem r)
        @ mem_write (mem_write (drop (start r) (mem r)) ?p (take (raw_size r - ?p) src)) 0
            (drop (raw_size r - ?p) src)\<rparr>"
      unfolding raw_copy_in_def Let_def copy rem if_P [OF True]
      using i by (simp add: shift mem_write_append)
    moreover have "ring_write (drop (start r) (mem r)) (raw_size r) ?p src =
        mem_write (mem_write (drop (start r) (mem r)) ?p (take (raw_size r - ?p) src)) 0
            (drop (raw_size r - ?p) src)"
      using True i by (auto simp: ring_write_def mem_write_Nil)
    ultimately show ?thesis by simp
  next
    case False
    then show ?thesis using i by (simp add: raw_copy_in_def ring_write_def shift)
  qed
qed

text \<open>Writing behind the contents and validating appends; the extension area is not touched.\<close>

definition raw_put :: "raw_rb \<Rightarrow> u8 list \<Rightarrow> raw_rb" where
  "raw_put r bs = (let r1 = raw_copy_in r bs (length bs)
     in r1\<lparr>wr := advance r1 (wr r1) (length bs), cnt := u32_add (cnt r1) (length bs)\<rparr>)"

lemma raw_put_inv:
  assumes "raw_inv r" "cnt r + length bs \<le> raw_size r"
  shows "raw_inv (raw_put r bs)"
  using assms(1)
proof (rule raw_inv_cases)
  assume i: "0 < raw_size r" "start r = size_ext r" "raw_end r = start r + raw_size r - 1"
    "rd r < start r + raw_size r" "start r \<le> wr r" "wr r < start r + raw_size r"
    "length (mem r) = start r + raw_size r" "start r + raw_size r < U32_RANGE" "start r \<le> rd r + cnt r"
    "wr r = (if rd r + cnt r < start r + raw_size r then rd r + cnt r else rd r + cnt r - raw_size r)"
  have l: "length (ring_write (drop (start r) (mem r)) (raw_size r) (wr r - start r) bs) = raw_size r"
    using i assms(2) by (subst length_ring_write) auto
  have c: "u32_add (cnt r) (length bs) = cnt r + length bs"
    using assms(2) i by (intro u32_add_small) simp
  have a: "advance r p n = (if p + n < start r + raw_size r then p + n else p + n - raw_size r)"
    for p n using i by (auto simp: advance_def)
  have a': "advance (r\<lparr>mem := x\<rparr>) = advance r" for x by (simp add: advance_def fun_eq_iff)
  have w: "advance r (wr r) (length bs) = (if rd r + (cnt r + length bs) < start r + raw_size r
      then rd r + (cnt r + length bs) else rd r + (cnt r + length bs) - raw_size r)"
    using i assms(2) by (cases "rd r + cnt r < start r + raw_size r") (simp_all add: a add.assoc)
  moreover have "start r \<le> advance r (wr r) (length bs)" "advance r (wr r) (length bs) < start r + raw_size r"
    using i(4,9) assms(2) unfolding w by (auto split: if_splits)
  ultimately show ?thesis
    unfolding raw_inv_def raw_put_def copy_in_mem [OF assms] Let_def
    using i(1-4,7-9) assms(2) l by (simp add: a' c)
qed

lemma raw_put_contents:
  assumes "raw_inv r" "cnt r + length bs \<le> raw_size r"
  shows "raw_contents (raw_put r bs) = raw_contents r @ bs"
  using assms(1)
proof (rule raw_inv_cases)
  assume i: "0 < raw_size r" "rd r < start r + raw_size r" "start r \<le> wr r" "cnt r \<le> raw_size r"
    "length (mem r) = start r + raw_size r" "start r + raw_size r < U32_RANGE" "start r \<le> rd r + cnt r"
    "wr r = (if rd r + cnt r < start r + raw_size r then rd r + cnt r else rd r + cnt r - raw_size r)"
  let ?n = "cnt r - (start r - rd r)" and ?q = "rd r - start r" and ?m = "drop (start r) (mem r)"
  have c: "u32_add (cnt r) (length bs) = cnt r + length bs"
    using assms(2) i by (intro u32_add_small) simp
  have w: "(?q + ?n) mod raw_size r = wr r - start r"
    using i by (auto simp: mod_below_double)
  have n: "cnt r + length bs - (start r - rd r) = ?n + length bs" using i by linarith
  have "ring_view (ring_write ?m (raw_size r) ((?q + ?n) mod raw_size r) bs) (raw_size r) ?q
      (?n + length bs) = ring_view ?m (raw_size r) ?q ?n @ bs"
    using i assms(2) by (intro ring_view_write_behind) auto
  moreover have "mem_read (take (start r) (mem r) @ x) (rd r) (start r - rd r)
      = mem_read (mem r) (rd r) (start r - rd r)" for x
    using i by (simp add: mem_read_def drop_take)
  ultimately show ?thesis
    unfolding raw_contents_def raw_put_def copy_in_mem [OF assms] Let_def w
    using i(5) by (simp add: c n)
qed

lemma length_contents: "raw_inv r \<Longrightarrow> length (raw_contents r) = cnt r"
  by (erule raw_inv_cases) (simp add: raw_contents_def mem_simps)

lemma copy_out_eq:
  assumes "raw_inv r" "n \<le> cnt r"
  shows "raw_copy_out r n = take n (raw_contents r)"
  using assms(1)
proof (rule raw_inv_cases)
  assume i: "0 < raw_size r" "raw_end r = start r + raw_size r - 1" "rd r < start r + raw_size r"
    "cnt r \<le> raw_size r" "length (mem r) = start r + raw_size r" "start r + raw_size r < U32_RANGE"
    "start r \<le> rd r + cnt r"
  let ?m = "drop (start r) (mem r)" and ?q = "rd r - start r" and ?s = "raw_size r"
  have rv: "take n (raw_contents r) =
      take n (mem_read (mem r) (rd r) (start r - rd r)) @ ring_view ?m ?s ?q (n - (start r - rd r))"
    using i min_absorb1 [OF diff_le_mono [OF assms(2)], of "start r - rd r"]
    by (simp add: raw_contents_def mem_simps ring_view_take)
  show ?thesis
  proof (cases "rd r + n > raw_end r")
    case True
    then have above: "start r \<le> rd r" using i assms(2) by linarith
    have copy: "raw_end r - rd r + 1 = ?s - ?q" using i above by linarith
    have rem: "u32_sub n (?s - ?q) = n - (?s - ?q)"
      using True i assms(2) by (intro u32_sub_small) linarith+
    have "ring_view ?m ?s ?q n = mem_read ?m ?q (?s - ?q) @ mem_read ?m 0 (n - (?s - ?q))"
      using True i above assms(2) by (intro ring_view_wrapped) auto
    then show ?thesis
      unfolding raw_copy_out_def Let_def copy rem if_P [OF True]
      using above by (simp add: rv mem_read_drop mem_read_def)
  next
    case False
    show ?thesis
    proof (cases "n \<le> start r - rd r")
      case True
      then show ?thesis using False by (simp add: raw_copy_out_def rv mem_read_def min_def)
    next
      case n: False
      have "mem_read (mem r) (rd r) n = mem_read (mem r) (rd r) (start r - rd r)
          @ mem_read (mem r) (rd r + (start r - rd r)) (n - (start r - rd r))"
        using n mem_read_add [of "mem r" "rd r" "start r - rd r" "n - (start r - rd r)"] by simp
      moreover have "ring_view ?m ?s ?q (n - (start r - rd r)) = mem_read ?m ?q (n - (start r - rd r))"
        using False i by (intro ring_view_linear) auto
      moreover have "start r + ?q = rd r + (start r - rd r)" by simp
      ultimately show ?thesis
        using False n i by (simp add: raw_copy_out_def rv mem_read_drop mem_simps)
    qed
  qed
qed

text \<open>Validating a read of \<open>n\<close> pending bytes drops them.\<close>

definition raw_drop :: "raw_rb \<Rightarrow> nat \<Rightarrow> raw_rb" where
  "raw_drop r n = r\<lparr>rd := advance r (rd r) n, cnt := u32_sub (cnt r) n\<rparr>"

lemma raw_drop_fields [simp]:
  "mem (raw_drop r n) = mem r" "start (raw_drop r n) = start r" "raw_size (raw_drop r n) = raw_size r"
  "raw_end (raw_drop r n) = raw_end r" "wr (raw_drop r n) = wr r" "size_ext (raw_drop r n) = size_ext r"
  by (simp_all add: raw_drop_def)

lemma raw_drop_pos:
  assumes "raw_inv r" "n \<le> cnt r"
  shows "cnt (raw_drop r n) = cnt r - n"
    and "rd (raw_drop r n) = (if rd r + n < start r + raw_size r then rd r + n else rd r + n - raw_size r)"
  using assms by (auto elim!: raw_inv_cases simp: raw_drop_def advance_def u32_sub_small)

lemma raw_drop_inv:
  assumes "raw_inv r" "n \<le> cnt r"
  shows "raw_inv (raw_drop r n)"
  using assms(1)
proof (rule raw_inv_cases)
  assume i: "0 < raw_size r" "start r = size_ext r" "raw_end r = start r + raw_size r - 1"
    "rd r < start r + raw_size r" "start r \<le> wr r" "wr r < start r + raw_size r" "cnt r \<le> raw_size r"
    "length (mem r) = start r + raw_size r" "start r + raw_size r < U32_RANGE" "start r \<le> rd r + cnt r"
    "wr r = (if rd r + cnt r < start r + raw_size r then rd r + cnt r else rd r + cnt r - raw_size r)"
  note pos = raw_drop_pos [OF assms]
  let ?r = "raw_drop r n"
  show ?thesis
  proof (cases "rd r + n < start r + raw_size r")
    case True
    then have "rd ?r + cnt ?r = rd r + cnt r" "rd ?r < start r + raw_size r" "cnt ?r \<le> raw_size r"
      using pos assms(2) i(7) by simp_all
    then show ?thesis using i by (simp add: raw_inv_def)
  next
    case False
    then have z: "start r \<le> rd r" "start r + raw_size r \<le> rd r + cnt r" using i assms(2) by linarith+
    then have "rd ?r + cnt ?r = rd r + cnt r - raw_size r" "rd ?r < start r + raw_size r"
      "cnt ?r \<le> raw_size r" "rd r + cnt r - raw_size r < start r + raw_size r"
      using pos assms(2) i(4,7) False by simp_all
    then show ?thesis using i z by (simp add: raw_inv_def)
  qed
qed

lemma raw_drop_contents:
  assumes "raw_inv r" "n \<le> cnt r"
  shows "raw_contents (raw_drop r n) = drop n (raw_contents r)"
  using assms(1)
proof (rule raw_inv_cases)
  assume i: "0 < raw_size r" "rd r < start r + raw_size r" "cnt r \<le> raw_size r"
    "length (mem r) = start r + raw_size r" "start r \<le> rd r + cnt r"
  let ?m = "drop (start r) (mem r)" and ?q = "rd r - start r" and ?s = "raw_size r"
  let ?k = "start r - rd r"
  have dr: "drop n (raw_contents r) = drop n (mem_read (mem r) (rd r) ?k)
      @ ring_view ?m ?s (?q + (n - ?k)) (cnt r - ?k - (n - ?k))"
    using i diff_le_mono [OF assms(2), of ?k]
    by (simp add: raw_contents_def mem_simps ring_view_drop)
  show ?thesis
  proof (cases "rd r + n < start r + raw_size r")
    case True
    have k: "start r - (rd r + n) = ?k - n" "rd r + n - start r = ?q + (n - ?k)"
      "cnt r - n - (?k - n) = cnt r - ?k - (n - ?k)" using i(5) assms(2) by linarith+
    have d: "drop n (mem_read (mem r) (rd r) ?k) = mem_read (mem r) (rd r + n) (?k - n)"
      by (simp add: mem_read_def drop_take add.commute)
    show ?thesis
      unfolding dr d by (simp only: raw_contents_def raw_drop_pos [OF assms] if_P [OF True] raw_drop_fields k)
  next
    case False
    then have z: "start r \<le> rd r" "?k = 0" using i assms by linarith+
    have q: "?q + n = (rd r + n - ?s - start r) + ?s" using False z by linarith
    have "ring_view ?m ?s (?q + n) (cnt r - n) = ring_view ?m ?s ((?q + n) mod ?s) (cnt r - n)"
      by (simp add: ring_view_mod)
    also have "(?q + n) mod ?s = (rd r + n - ?s - start r) mod ?s" unfolding q by simp
    finally show ?thesis
      using False z i assms
      by (simp add: raw_contents_def raw_drop_pos mem_read_def ring_view_mod ring_view_drop)
  qed
qed

lemma raw_window:
  assumes "raw_inv r" "k \<le> raw_end r - rd r + 1" "k \<le> cnt r"
  shows "mem_read (mem r) (rd r) k = take k (raw_contents r)"
proof (cases "rd r + k > raw_end r")
  case True
  moreover have "rd r \<le> raw_end r" using assms(1) by (auto elim!: raw_inv_cases)
  ultimately have k: "raw_end r - rd r + 1 = k" using assms(2) by linarith
  moreover have "u32_sub k k = 0"
    using assms(1,3) by (auto elim!: raw_inv_cases simp: u32_sub_small)
  ultimately show ?thesis
    unfolding copy_out_eq [OF assms(1,3), symmetric] raw_copy_out_def if_P [OF True] Let_def k
    by (simp add: mem_read_def)
next
  case False
  then show ?thesis using copy_out_eq [OF assms(1,3)] by (simp add: raw_copy_out_def)
qed

text \<open>Moving the tail of the ring in front of its start, as \<open>ring_buffer_enough\<close> does.\<close>

definition raw_rollback :: "raw_rb \<Rightarrow> raw_rb" where
  "raw_rollback r = (let t = raw_end r - rd r + 1
     in r\<lparr>mem := mem_write (mem r) (start r - t) (mem_read (mem r) (rd r) t), rd := start r - t\<rparr>)"

lemma raw_rollback_fields [simp]:
  "start (raw_rollback r) = start r" "raw_size (raw_rollback r) = raw_size r"
  "raw_end (raw_rollback r) = raw_end r" "wr (raw_rollback r) = wr r" "cnt (raw_rollback r) = cnt r"
  "size_ext (raw_rollback r) = size_ext r" "rd (raw_rollback r) = start r - (raw_end r - rd r + 1)"
  by (simp_all add: raw_rollback_def Let_def)

lemma rollback_facts:
  assumes "raw_inv r" "raw_end r - rd r + 1 < n" "raw_end r - rd r + 1 < size_ext r" "n \<le> cnt r"
    and "t = raw_end r - rd r + 1"
  shows "start r \<le> rd r" "rd r + t = start r + raw_size r" "0 < t" "t < start r" "t < cnt r"
    "length (mem_read (mem r) (rd r) t) = t"
    "length (mem (raw_rollback r)) = length (mem r)"
proof -
  show a: "start r \<le> rd r" "rd r + t = start r + raw_size r" "0 < t" "t < start r" "t < cnt r"
    using assms by (auto elim!: raw_inv_cases)
  show b: "length (mem_read (mem r) (rd r) t) = t"
    using a assms(1) by (intro length_mem_read) (auto elim!: raw_inv_cases)
  show "length (mem (raw_rollback r)) = length (mem r)"
    using a b assms(1,5) by (auto simp: raw_rollback_def Let_def length_mem_write elim!: raw_inv_cases)
qed

lemma raw_rollback_inv:
  assumes "raw_inv r" "n \<le> cnt r" "raw_end r - rd r + 1 < n" "raw_end r - rd r + 1 < size_ext r"
  shows "raw_inv (raw_rollback r)"
proof -
  note f = rollback_facts [OF assms(1,3,4,2) refl]
  have w: "wr r = rd r + cnt r - raw_size r" using assms(1) f(2,5) by (auto elim!: raw_inv_cases)
  have "rd (raw_rollback r) + cnt r = rd r + cnt r - raw_size r" "rd (raw_rollback r) < start r"
    using f(1-5) unfolding raw_rollback_fields by linarith+
  then show ?thesis
    using assms(1) f(7) w by (simp add: raw_inv_def del: raw_rollback_fields(7))
qed

lemma raw_rollback_contents:
  assumes "raw_inv r" "n \<le> cnt r" "raw_end r - rd r + 1 < n" "raw_end r - rd r + 1 < size_ext r"
  shows "raw_contents (raw_rollback r) = raw_contents r"
proof -
  define t where "t = raw_end r - rd r + 1"
  note f = rollback_facts [OF assms(1,3,4,2) t_def]
  have lm: "length (mem r) = start r + raw_size r" using assms(1) by (rule raw_inv_cases)
  let ?src = "mem_read (mem r) (rd r) t" and ?v = "ring_view (drop (start r) (mem r)) (raw_size r) 0 (cnt r - t)"
  let ?mem = "mem_write (mem r) (start r - t) ?src"
  have "raw_contents r = take t (raw_contents r) @ drop t (raw_contents r)" by simp
  also have "take t (raw_contents r) = ?src"
    using raw_window [OF assms(1), of t] f(5) t_def by simp
  also have "drop t (raw_contents r) = ?v"
    using raw_drop_contents [OF assms(1), of t] raw_drop_pos [OF assms(1), of t] f
    by (simp add: raw_contents_def mem_read_def)
  finally have old: "raw_contents r = ?src @ ?v" .
  have "drop (start r) ?mem = drop (start r) (mem r)"
    using f lm by (simp add: mem_write_def)
  moreover have "mem_read ?mem (start r - t) t = ?src"
    using f lm by (intro mem_read_write_same) auto
  moreover have "raw_rollback r = r\<lparr>mem := ?mem, rd := start r - t\<rparr>"
    by (simp add: raw_rollback_def t_def Let_def)
  ultimately show ?thesis
    unfolding old using f by (simp add: raw_contents_def)
qed

section \<open>The ring buffer as a byte stream\<close>

definition rb_inv :: "media_rb \<Rightarrow> bool" where
  "rb_inv m \<longleftrightarrow> raw_inv (raw m)"

definition rb_contents :: "media_rb \<Rightarrow> u8 list" where
  "rb_contents m = raw_contents (raw m)"

definition rb_room :: "media_rb \<Rightarrow> u8 list \<times> nat \<Rightarrow> bool" where
  "rb_room m w \<longleftrightarrow> cnt (raw m) + length (fst w) \<le> raw_size (raw m)"

definition rb_put :: "media_rb \<Rightarrow> u8 list \<times> nat \<Rightarrow> media_rb" where
  "rb_put m w = (case w of (bs, ts) \<Rightarrow>
     fst (ring_buffer_validate (fst (ring_buffer_write m bs (length bs) True ts)) RB_FLAG_WR (length bs)))"

definition rb_get :: "media_rb \<Rightarrow> nat \<Rightarrow> media_rb \<times> u8 list" where
  "rb_get m k = (case ring_buffer_read m k True of
       (m1, None) \<Rightarrow> (m1, [])
     | (m1, Some (bs, n, ts)) \<Rightarrow> (fst (ring_buffer_validate m1 RB_FLAG_RD n), bs))"

lemma rb_put_raw:
  assumes "rb_inv m" "rb_room m w"
  shows "raw (rb_put m w) = raw_put (raw m) (fst w)"
proof -
  obtain bs ts where w: "w = (bs, ts)" by (cases w)
  have "u32_add (cnt (raw m)) (length bs) \<le> raw_size (raw m)"
    using assms w by (auto simp: rb_inv_def rb_room_def u32_add_small elim!: raw_inv_cases)
  then show ?thesis
    by (simp add: w rb_put_def ring_buffer_write_def ring_buffer_validate_def raw_put_def Let_def)
qed

lemma rb_get_raw:
  obtains (none) "raw (fst (rb_get m k)) = raw m" "snd (rb_get m k) = []"
    | (some) n where "n \<le> k" "k \<le> cnt (raw m)" "raw (fst (rb_get m k)) = raw_drop (raw m) n"
        "snd (rb_get m k) = raw_copy_out (raw m) n"
proof (cases "cnt (raw m) < k \<or> k = 0")
  case True
  then show ?thesis by (intro none) (auto simp: rb_get_def ring_buffer_read_def)
next
  case False
  obtain t f ts where l: "tms_lookup (tmsr m) (raw m) k = (t, f, ts)"
    by (cases "tms_lookup (tmsr m) (raw m) k")
  show ?thesis
    using False l
    by (intro some [of "if k > f then f else k"])
       (auto simp: rb_get_def ring_buffer_read_def ring_buffer_validate_def raw_drop_def Let_def)
qed

interpretation rbs: byte_stream rb_inv rb_contents fst rb_room rb_put rb_get
proof (unfold_locales, goal_cases)
  case (1 s w)
  then show ?case using rb_put_raw [of s w] by (simp add: rb_inv_def rb_room_def raw_put_inv)
next
  case (2 s w)
  then show ?case
    using rb_put_raw [of s w] by (simp add: rb_contents_def rb_inv_def rb_room_def raw_put_contents)
next
  case (3 s k)
  show ?case
    using 3 by (cases rule: rb_get_raw [of s k]) (simp_all add: rb_inv_def raw_drop_inv)
next
  case (4 s k)
  show ?case
    using 4 by (cases rule: rb_get_raw [of s k])
      (simp_all add: rb_inv_def rb_contents_def raw_drop_contents copy_out_eq)
qed

lemma initialize_inv:
  assumes "0 < len" "len + ext < U32_RANGE" "length bs = ring_buffer_alloc_request len ext"
    and "ring_buffer_initialize (Some bs) True m len ext n = (m', b)"
  shows "b \<and> rb_inv m' \<and> rb_contents m' = []"
  using assms by (auto simp: ring_buffer_initialize_def ring_buffer_alloc_request_def u32_add_small
      rb_inv_def raw_inv_def rb_contents_def raw_contents_def mem_read_def)

section \<open>Properties\<close>

text \<open>C10. The decoder thread receives the injected bytes unchanged and in order: for every
  sequence of writes that fit and reads of any length, each followed by its validate, the bytes
  delivered followed by the bytes left are the bytes present followed by the bytes accepted,
  whatever the time stamp ring does to the length of a read.\<close>

theorem ring_buffer_run_stream:
  assumes "rb_inv m" "stream_run fst rb_room rb_put rb_get m ops = (m', acc, out)"
  shows "rb_inv m' \<and> rb_contents m @ acc = out @ rb_contents m'"
  using assms by (rule rbs.run_stream)

definition rb_example :: media_rb where
  "rb_example = \<lparr>used = 1, raw = \<lparr>start_ext_set = True, live = True, mem = [0, 0, 0, 0, 0, 0, 0],
     start = 3, raw_end = 6, rd = 3, wr = 3, cnt = 0, size_ext = 3, raw_size = 4\<rparr>,
     tmsr = \<lparr>idx_rd = 0, idx_wr = 0, tms_cnt = 0, tms_size = 2,
       ptfrm = Some [\<lparr>tms = 0, pos = 0, frm_size = 0\<rparr>, \<lparr>tms = 0, pos = 0, frm_size = 0\<rparr>]\<rparr>\<rparr>"

definition rb_wrapped :: media_rb where
  "rb_wrapped = rb_example\<lparr>raw := (raw rb_example)\<lparr>mem := [0, 0, 0, 5, 6, 0, 4], rd := 6, wr := 5,
     cnt := 3\<rparr>\<rparr>"

lemma rb_example_inv: "rb_inv rb_example"
  by (simp add: rb_inv_def raw_inv_def rb_example_def)

lemma rb_example_contents: "rb_contents rb_example = []"
  by (simp add: rb_contents_def raw_contents_def rb_example_def mem_read_def)

lemmas rb_eval = rb_room_def rb_put_def rb_get_def ring_buffer_write_def ring_buffer_validate_def
  raw_copy_in_def tms_record_def ring_buffer_read_def tms_lookup_def tms_next_frame_def
  raw_copy_out_def advance_def u32_add_def u32_sub_def mem_write_def mem_read_def Let_def

theorem ring_buffer_run_stream_witness:
  "\<exists>m'. stream_run fst rb_room rb_put rb_get rb_example
      [Feed ([1, 2, 3], 10), Drain 2, Feed ([4, 5, 6], 11), Drain 1]
      = (m', [1, 2, 3, 4, 5, 6], [1, 2, 3]) \<and> rb_contents m' = [4, 5, 6]"
proof -
  obtain m' acc out where r: "stream_run fst rb_room rb_put rb_get rb_example
      [Feed ([1, 2, 3], 10), Drain 2, Feed ([4, 5, 6], 11), Drain 1] = (m', acc, out)"
    by (metis prod_cases3)
  then have io: "acc = [1, 2, 3, 4, 5, 6]" "out = [1, 2, 3]"
    by (simp_all add: rb_eval rb_example_def)
  then show ?thesis
    using ring_buffer_run_stream [OF rb_example_inv r] rb_example_contents r by simp
qed

text \<open>Peeking gives a contiguous window: when \<open>ring_buffer_enough\<close> answers a read request
  with an address, the \<open>*real_len\<close> bytes at that address are the first pending bytes, also when
  the ring wraps inside the window (the tail is then copied into the extension area), the
  window is inside the allocated block, and the pending bytes do not change.\<close>

theorem ring_buffer_enough_contiguous:
  assumes "rb_inv m" "ring_buffer_enough m op_len RB_FLAG_RD True True = (m', True, Some n, Some a)"
  shows "rb_inv m' \<and> rb_contents m' = rb_contents m \<and> 0 < n \<and> n \<le> op_len
    \<and> a + n \<le> length (mem (raw m')) \<and> mem_read (mem (raw m')) a n = take n (rb_contents m)"
proof -
  let ?r = "raw m"
  let ?t = "raw_end ?r - rd ?r + 1"
  have inv: "raw_inv ?r" using assms(1) by (simp add: rb_inv_def)
  have op: "0 < op_len" "op_len \<le> cnt ?r"
    using assms(2) by (auto simp: ring_buffer_enough_def Let_def split: if_splits)
  show ?thesis
  proof (cases "?t < op_len \<and> ?t < size_ext ?r")
    case True
    have res: "m' = m\<lparr>raw := raw_rollback ?r\<rparr>" "n = op_len" "a = rd (raw m')"
      using assms(2) True op
      by (auto simp: ring_buffer_enough_def raw_rollback_def Let_def split: if_splits)
    have inv': "raw_inv (raw m')" using raw_rollback_inv [OF inv op(2)] True res(1) by simp
    have "rd (raw m') \<le> start (raw m')" "op_len \<le> cnt (raw m')" using op by (simp_all add: res(1))
    then have "op_len \<le> raw_end (raw m') - rd (raw m') + 1" "a + op_len \<le> length (mem (raw m'))"
      unfolding res(3) by (rule_tac raw_inv_cases [OF inv'], linarith)+
    then show ?thesis
      using raw_rollback_inv [OF inv, of op_len] raw_rollback_contents [OF inv, of op_len] True op res
        raw_window [of "raw m'" op_len] by (simp add: rb_inv_def rb_contents_def)
  next
    case False
    then have res: "m' = m" "a = rd ?r" "n = min op_len ?t"
      using assms(2) op by (auto simp: ring_buffer_enough_def Let_def split: if_splits)
    have "rd ?r + ?t = length (mem ?r)" using inv by (auto elim!: raw_inv_cases)
    then show ?thesis
      using inv raw_window [OF inv, of n] op res by (auto simp: rb_inv_def rb_contents_def)
  qed
qed

theorem ring_buffer_enough_contiguous_witness:
  "\<exists>m'. ring_buffer_enough rb_wrapped 3 RB_FLAG_RD True True = (m', True, Some 3, Some 2)
     \<and> mem_read (mem (raw m')) 2 3 = rb_contents rb_wrapped"
proof -
  have inv: "rb_inv rb_wrapped"
    by (simp add: rb_inv_def raw_inv_def rb_wrapped_def rb_example_def)
  then have l: "length (rb_contents rb_wrapped) = 3"
    using length_contents [of "raw rb_wrapped"]
    by (simp add: rb_inv_def rb_contents_def) (simp add: rb_wrapped_def rb_example_def)
  obtain m' where e: "ring_buffer_enough rb_wrapped 3 RB_FLAG_RD True True = (m', True, Some 3, Some 2)"
    by (simp add: ring_buffer_enough_def rb_wrapped_def rb_example_def)
  show ?thesis using ring_buffer_enough_contiguous [OF inv e] e l by auto
qed

text \<open>A write whose time stamp repeats the stamp of the last recorded frame adds its length
  to the entry at the write index, which is not the entry of that frame when the ring has more
  than one entry: the recorded size of the last frame is left as it was.\<close>

theorem tms_repeated_wrong_entry:
  assumes "ptfrm t = Some fs" "length fs = tms_size t" "1 < tms_size t" "idx_wr t < tms_size t"
    and "0 < tms_cnt t" "tms_cnt t < tms_size t"
    and "lst = (if idx_wr t = 0 then tms_size t - 1 else idx_wr t - 1)" "tms (fs ! lst) = ts"
  shows "\<exists>fs'. tms_record t wpos len ts = t\<lparr>ptfrm := Some fs'\<rparr> \<and> fs' ! lst = fs ! lst
     \<and> frm_size (fs' ! idx_wr t) = u32_add (frm_size (fs ! idx_wr t)) len"
proof -
  have "idx_wr t \<noteq> lst" using assms by auto
  then show ?thesis using assms by (auto simp: tms_record_def Let_def)
qed

theorem tms_repeated_wrong_entry_witness:
  "\<exists>t fs'. tms_record t 5 8 10 = t\<lparr>ptfrm := Some fs'\<rparr> \<and> frm_size (fs' ! 0) = 3
     \<and> frm_size (fs' ! 1) = 8"
proof -
  let ?t = "tmsr (rb_put rb_example ([1, 2, 3], 10))"
  let ?fs = "[\<lparr>tms = 10, pos = 3, frm_size = 3\<rparr>, \<lparr>tms = 0, pos = 0, frm_size = 0\<rparr>]"
  have f: "ptfrm ?t = Some ?fs" "idx_wr ?t = 1" "tms_cnt ?t = 1" "tms_size ?t = 2"
    by (simp_all add: rb_eval rb_example_def)
  show ?thesis
    using tms_repeated_wrong_entry [of ?t ?fs 0 10 5 8] f
    by (intro exI [of _ ?t]) (auto simp: u32_add_def)
qed

end
