(* ===== verification/Frc.thy ===== *)
theory Frc
  imports MT_Base
begin

text \<open>
  The frame rate conversion of the player, \<open>msp/api/avplay/mt_avplay_frc.c\<close>. For every input
  frame \<open>AVPLAY_FrcCalculate\<close> decides whether it is dropped (-1), shown once (0) or repeated
  (n more times); the player shows it \<open>1 + s32FrmState\<close> times. The model is the state passing
  form of that function with the 32-bit wrap-around of its products; a division by zero is
  the value \<open>None\<close>. The main result is that the frames shown follow the output rate exactly
  over a cycle and stay within one frame of it at every moment.
\<close>

record frc_alg =
  u32InRate :: nat
  u32OutRate :: nat
  u32PlayRate :: nat
  u32CurID :: nat
  u32InputCount :: nat

record frc_cfg =
  cfgInRate :: nat
  cfgOutRate :: nat
  cfgPlayRate :: nat

record avplay_frc =
  FrcCalAlg :: frc_alg
  FrcParamCfg :: frc_cfg
  s32FrmState :: int

definition frc_zero :: frc_alg where
  "frc_zero = \<lparr>u32InRate = 0, u32OutRate = 0, u32PlayRate = 0, u32CurID = 0, u32InputCount = 0\<rparr>"

definition AVPLAY_FrcCreate :: "avplay_frc \<Rightarrow> avplay_frc" where
  "AVPLAY_FrcCreate a = a\<lparr>FrcCalAlg := frc_zero, s32FrmState := 0,
     FrcParamCfg := \<lparr>cfgInRate = 25, cfgOutRate = 25, cfgPlayRate = 256\<rparr>\<rparr>"

definition AVPLAY_FrcDestroy :: "avplay_frc \<Rightarrow> avplay_frc" where
  "AVPLAY_FrcDestroy a = a\<lparr>FrcCalAlg := frc_zero\<rparr>"

definition AVPLAY_FrcReset :: "frc_alg option \<Rightarrow> frc_alg option \<times> mt_ret" where
  "AVPLAY_FrcReset h = (case h of None \<Rightarrow> (None, MT_FAILURE) | Some _ \<Rightarrow> (Some frc_zero, MT_SUCCESS))"

text \<open>The test and the step that the two conversion branches share: the position in the cycle
  at which the current insertion or drop is due, and the index of the one after it.\<close>

definition frc_due :: "nat \<Rightarrow> nat \<Rightarrow> nat \<Rightarrow> nat" where
  "frc_due inRate remder curID = (inRate * curID + remder div 2) div remder"

definition frc_next_id :: "nat \<Rightarrow> nat \<Rightarrow> nat" where
  "frc_next_id remder curID =
     (let c = u32_add curID 1 in if c mod remder = 0 then remder else c mod remder)"

text \<open>The first half of \<open>AVPLAY_FrcCalculate\<close> restarts the cycle when a rate has changed, the
  second half places the frame in the cycle.\<close>

definition frc_reconfigure :: "frc_alg \<Rightarrow> frc_cfg \<Rightarrow> frc_alg" where
  "frc_reconfigure hFrc pstFrcCfg =
     (if u32OutRate hFrc \<noteq> cfgOutRate pstFrcCfg \<or> u32PlayRate hFrc \<noteq> cfgPlayRate pstFrcCfg
         \<or> u32InRate hFrc \<noteq> cfgInRate pstFrcCfg
      then (the (fst (AVPLAY_FrcReset (Some hFrc))))
        \<lparr>u32InRate := cfgInRate pstFrcCfg, u32OutRate := cfgOutRate pstFrcCfg,
         u32PlayRate := cfgPlayRate pstFrcCfg, u32CurID := 1\<rparr>
      else hFrc)"

definition frc_convert :: "frc_alg \<Rightarrow> nat \<Rightarrow> (frc_alg \<times> int) option" where
  "frc_convert h playRate =
     (if playRate = 0 then None else
      let outRate = u32_mul (u32_mul (u32OutRate h) 32) 256 div playRate;
          inRate = u32_mul (u32InRate h) 32;
          curID = u32CurID h;
          h' = h\<lparr>u32InputCount := u32_add (u32InputCount h) 1\<rparr> in
      if inRate < outRate
      then (if inRate = 0 then None else
            let quot = outRate div inRate; remder = outRate mod inRate;
                remder_cyc = u32InputCount h mod inRate + 1 in
            if remder \<noteq> 0 \<and> frc_due inRate remder curID = remder_cyc
            then Some (h'\<lparr>u32CurID := frc_next_id remder curID\<rparr>, int quot)
            else Some (h', int quot - 1))
      else if inRate > outRate
      then (if outRate = 0 then None else
            let remder = inRate - outRate;
                remder_cyc = u32InputCount h mod inRate + 1 in
            if remder \<noteq> 0 \<and> frc_due inRate remder curID = remder_cyc
            then Some (h'\<lparr>u32CurID := frc_next_id remder curID\<rparr>, -1)
            else Some (h', 0))
      else Some (h', 0))"

definition AVPLAY_FrcCalculate :: "frc_alg \<Rightarrow> frc_cfg \<Rightarrow> (frc_alg \<times> int) option" where
  "AVPLAY_FrcCalculate hFrc pstFrcCfg =
     (if cfgInRate pstFrcCfg < 1 then Some (hFrc, 0)
      else frc_convert (frc_reconfigure hFrc pstFrcCfg) (cfgPlayRate pstFrcCfg))"

text \<open>The player's loop: the calculation for \<open>n\<close> frames, and the number of frames shown.\<close>

fun frc_play :: "frc_cfg \<Rightarrow> nat \<Rightarrow> frc_alg \<Rightarrow> (frc_alg \<times> int) option" where
  "frc_play cfg 0 h = Some (h, 0)"
| "frc_play cfg (Suc n) h =
     (case frc_play cfg n h of
        None \<Rightarrow> None
      | Some (h1, shown) \<Rightarrow>
        (case AVPLAY_FrcCalculate h1 cfg of
           None \<Rightarrow> None
         | Some (h2, s) \<Rightarrow> Some (h2, shown + (1 + s))))"

section \<open>The distribution of the insertions and drops\<close>

text \<open>\<open>remder\<close> positions spread over a cycle of \<open>inRate\<close> frames; \<open>frc_due\<close> continues from one
  cycle into the next.\<close>

lemma due_0: "0 < R \<Longrightarrow> frc_due I R 0 = 0"
  by (simp add: frc_due_def)

lemma due_shift: "0 < R \<Longrightarrow> frc_due I R (a * R + b) = a * I + frc_due I R b"
proof -
  assume R: "0 < R"
  have "I * (a * R + b) + R div 2 = (I * b + R div 2) + R * (a * I)" by (simp add: algebra_simps)
  then have "frc_due I R (a * R + b) = ((I * b + R div 2) + R * (a * I)) div R"
    by (simp only: frc_due_def)
  also have "\<dots> = a * I + (I * b + R div 2) div R" using R by (intro div_mult_self2) simp
  finally show ?thesis by (simp add: frc_due_def)
qed

lemma due_mono: "0 < R \<Longrightarrow> a \<le> b \<Longrightarrow> frc_due I R a \<le> frc_due I R b"
  by (simp add: frc_due_def div_le_mono)

lemma due_strict:
  assumes "0 < R" "R \<le> I"
  shows "frc_due I R k < frc_due I R (Suc k)"
proof -
  have "I * k + R div 2 + R \<le> I * Suc k + R div 2" using assms by simp
  then have "(I * k + R div 2 + R) div R \<le> (I * Suc k + R div 2) div R" by (rule div_le_mono)
  moreover have "(I * k + R div 2 + R) div R = Suc ((I * k + R div 2) div R)"
    using assms(1) by (subst div_add_self2) simp_all
  ultimately show ?thesis unfolding frc_due_def by linarith
qed

lemma due_full: "0 < R \<Longrightarrow> frc_due I R R = I"
  using due_shift [of R I 1 0] due_0 [of R I] by simp

text \<open>After \<open>F\<close> hits the index in the cycle is \<open>F mod R + 1\<close>.\<close>

lemma next_id:
  assumes "0 < R" "R < U32_RANGE - 1"
  shows "frc_next_id R (F mod R + 1) = Suc F mod R + 1"
proof -
  have l: "F mod R < R" using assms by simp
  have u: "u32_add (F mod R + 1) 1 = F mod R + 2" using assms l by (intro u32_add_small [THEN trans]) auto
  have s: "Suc F mod R = (if Suc (F mod R) = R then 0 else Suc (F mod R))" by (simp add: mod_Suc)
  show ?thesis
  proof (cases "R = 1")
    case True
    then show ?thesis using u by (simp add: frc_next_id_def)
  next
    case R: False
    consider "F mod R + 2 = R" | "F mod R + 1 = R" | "F mod R + 2 < R" using l by linarith
    then show ?thesis
    proof cases
      case 2
      then have "(F mod R + 2) mod R = 1" using R assms by (simp add: mod_if)
      then show ?thesis using u s 2 by (simp add: frc_next_id_def)
    qed (use u s in \<open>simp_all add: frc_next_id_def\<close>)
  qed
qed

text \<open>The invariant of the cycle after \<open>j\<close> frames and \<open>F\<close> hits.\<close>

definition frc_sync :: "nat \<Rightarrow> nat \<Rightarrow> nat \<Rightarrow> nat \<Rightarrow> bool" where
  "frc_sync I R j F \<longleftrightarrow> frc_due I R F \<le> j \<and> j < frc_due I R (Suc F)"

lemma sync_0: "0 < R \<Longrightarrow> R \<le> I \<Longrightarrow> frc_sync I R 0 0"
  using due_strict [of R I 0] by (simp add: frc_sync_def due_0)

lemma sync_hit:
  assumes "0 < R" "R \<le> I" "frc_sync I R j F"
  shows "frc_due I R (F mod R + 1) = j mod I + 1 \<longleftrightarrow> frc_due I R (Suc F) = Suc j"
proof -
  let ?a = "F div R" and ?b = "F mod R"
  have b: "?b < R" using assms(1) by simp
  have F: "F = ?a * R + ?b" by simp
  have dF: "frc_due I R F = ?a * I + frc_due I R ?b"
    using due_shift [OF assms(1), of I ?a ?b] by simp
  have dS: "frc_due I R (Suc F) = ?a * I + frc_due I R (?b + 1)"
    using due_shift [OF assms(1), of I ?a "?b + 1"] by simp
  have le: "frc_due I R (?b + 1) \<le> I"
    using due_mono [OF assms(1), of "?b + 1" R I] b due_full [OF assms(1), of I] by simp
  have lo: "?a * I \<le> j" using assms(3) dF by (simp add: frc_sync_def)
  have hi: "j < ?a * I + I" using assms(3) dS le by (simp add: frc_sync_def)
  have "j mod I = j - ?a * I"
  proof -
    have "j mod I = (?a * I + (j - ?a * I)) mod I" using lo by (subst le_add_diff_inverse) simp_all
    also have "\<dots> = (j - ?a * I) mod I" by (rule mod_mult_self3)
    also have "\<dots> = j - ?a * I" using hi lo by (intro mod_less) linarith
    finally show ?thesis .
  qed
  then show ?thesis using dS lo by linarith
qed

lemma sync_step:
  assumes "0 < R" "R \<le> I" "frc_sync I R j F"
  shows "frc_sync I R (Suc j) (if frc_due I R (Suc F) = Suc j then Suc F else F)"
  using assms due_strict [OF assms(1,2), of "Suc F"] by (auto simp: frc_sync_def)

text \<open>Hits are spread evenly: \<open>F\<close> is within one of \<open>R * j / I\<close>.\<close>

lemma sync_even:
  assumes "0 < R" "R \<le> I" "frc_sync I R j F"
  shows "\<bar>int I * int F - int R * int j\<bar> < int I"
proof -
  have "I * F + R div 2 < R * Suc j"
  proof -
    have "(I * F + R div 2) div R < Suc j" using assms(3) by (simp add: frc_sync_def frc_due_def)
    then show ?thesis using assms(1) by (simp add: div_less_iff_less_mult mult.commute)
  qed
  then have lo: "int I * int F + int (R div 2) < int R * int j + int R"
    by (simp flip: of_nat_mult of_nat_add add: algebra_simps)
  have "R * Suc j \<le> I * Suc F + R div 2"
  proof -
    have "Suc j \<le> (I * Suc F + R div 2) div R" using assms(3) by (simp add: frc_sync_def frc_due_def)
    then show ?thesis using assms(1) by (simp add: less_eq_div_iff_mult_less_eq mult.commute)
  qed
  then have hi: "int R * int j + int R \<le> int I * int F + int I + int (R div 2)"
    by (simp flip: of_nat_mult of_nat_add add: algebra_simps)
  have "int (R div 2) < int R" using assms(1) by simp
  then show ?thesis using lo hi assms(2) by linarith
qed

section \<open>The player's loop\<close>

text \<open>The scaled rates; a configuration is valid when they fit 32 bits and are not zero.\<close>

definition frc_in :: "frc_cfg \<Rightarrow> nat" where
  "frc_in cfg = cfgInRate cfg * 32"

definition frc_out :: "frc_cfg \<Rightarrow> nat" where
  "frc_out cfg = cfgOutRate cfg * 8192 div cfgPlayRate cfg"

definition frc_valid :: "frc_cfg \<Rightarrow> bool" where
  "frc_valid cfg \<longleftrightarrow> 0 < cfgInRate cfg \<and> 0 < cfgPlayRate cfg \<and> cfgInRate cfg * 32 < U32_RANGE - 1
     \<and> cfgOutRate cfg * 8192 < U32_RANGE \<and> 0 < frc_out cfg"

definition frc_start :: "frc_cfg \<Rightarrow> frc_alg" where
  "frc_start cfg = \<lparr>u32InRate = cfgInRate cfg, u32OutRate = cfgOutRate cfg,
     u32PlayRate = cfgPlayRate cfg, u32CurID = 1, u32InputCount = 0\<rparr>"

text \<open>A state from which a conversion starts: the reset state, or one left by other rates.\<close>

definition frc_fresh :: "frc_cfg \<Rightarrow> frc_alg \<Rightarrow> bool" where
  "frc_fresh cfg h \<longleftrightarrow> h = frc_start cfg \<or> u32OutRate h \<noteq> cfgOutRate cfg
     \<or> u32PlayRate h \<noteq> cfgPlayRate cfg \<or> u32InRate h \<noteq> cfgInRate cfg"

text \<open>The number of hits in a cycle, and the frames shown for a frame that is not hit.\<close>

definition frc_rem :: "frc_cfg \<Rightarrow> nat" where
  "frc_rem cfg = (if frc_in cfg < frc_out cfg then frc_out cfg mod frc_in cfg
     else frc_in cfg - frc_out cfg)"

definition frc_base :: "frc_cfg \<Rightarrow> int" where
  "frc_base cfg = (if frc_in cfg < frc_out cfg then int (frc_out cfg div frc_in cfg) else 1)"

definition frc_sign :: "frc_cfg \<Rightarrow> int" where
  "frc_sign cfg = (if frc_in cfg < frc_out cfg then 1 else -1)"

text \<open>The state after \<open>j\<close> frames with \<open>F\<close> hits.\<close>

definition frc_at :: "frc_cfg \<Rightarrow> nat \<Rightarrow> nat \<Rightarrow> frc_alg" where
  "frc_at cfg j F = (frc_start cfg)\<lparr>u32CurID := (if frc_rem cfg = 0 then 1 else F mod frc_rem cfg + 1),
     u32InputCount := j\<rparr>"

definition frc_hit :: "frc_cfg \<Rightarrow> nat \<Rightarrow> nat \<Rightarrow> bool" where
  "frc_hit cfg j F \<longleftrightarrow> 0 < frc_rem cfg \<and> frc_due (frc_in cfg) (frc_rem cfg) (Suc F) = Suc j"

lemma valid_rates:
  assumes "frc_valid cfg"
  shows "u32_mul (cfgInRate cfg) 32 = frc_in cfg"
    and "u32_mul (u32_mul (cfgOutRate cfg) 32) 256 div cfgPlayRate cfg = frc_out cfg"
    and "0 < frc_in cfg" "0 < frc_out cfg" "frc_in cfg < U32_RANGE - 1" "frc_rem cfg < frc_in cfg"
proof -
  show i: "0 < frc_in cfg" "0 < frc_out cfg" "frc_in cfg < U32_RANGE - 1"
    using assms by (auto simp: frc_valid_def frc_in_def)
  then show "frc_rem cfg < frc_in cfg" by (auto simp: frc_rem_def)
  show "u32_mul (cfgInRate cfg) 32 = frc_in cfg"
    using i by (simp add: frc_in_def u32_mul_small)
  show "u32_mul (u32_mul (cfgOutRate cfg) 32) 256 div cfgPlayRate cfg = frc_out cfg"
    using assms by (simp add: frc_valid_def u32_mul_small frc_out_def mult.commute)
qed

lemma calculate_at:
  assumes "frc_valid cfg" "Suc j < U32_RANGE"
    and "0 < frc_rem cfg \<Longrightarrow> frc_sync (frc_in cfg) (frc_rem cfg) j F"
  shows "AVPLAY_FrcCalculate (frc_at cfg j F) cfg =
    Some (frc_at cfg (Suc j) (if frc_hit cfg j F then Suc F else F),
      frc_base cfg - 1 + (if frc_hit cfg j F then frc_sign cfg else 0))"
proof -
  let ?I = "frc_in cfg" and ?R = "frc_rem cfg"
  note v = valid_rates [OF assms(1)]
  have cnt: "u32_add j 1 = Suc j" using assms(2) by (simp add: u32_add_1)
  have hit: "frc_hit cfg j F \<longleftrightarrow> ?R \<noteq> 0 \<and> frc_due ?I ?R (F mod ?R + 1) = j mod ?I + 1"
    using sync_hit [of ?R ?I j F] assms(3) v(6) by (auto simp: frc_hit_def)
  have nid: "?R \<noteq> 0 \<Longrightarrow> frc_next_id ?R (F mod ?R + 1) = Suc F mod ?R + 1"
    using next_id [of ?R F] v(5,6) by simp
  have rates: "0 < cfgInRate cfg" "cfgPlayRate cfg \<noteq> 0" using assms(1) by (auto simp: frc_valid_def)
  consider "?I < frc_out cfg" | "frc_out cfg < ?I" | "frc_out cfg = ?I" by linarith
  then show ?thesis
  proof cases
    case 1
    then have R: "?R = frc_out cfg mod ?I" by (simp add: frc_rem_def)
    show ?thesis
      using 1 rates v(1-4) hit nid cnt
      by (simp add: AVPLAY_FrcCalculate_def frc_reconfigure_def frc_convert_def frc_at_def frc_start_def frc_base_def frc_sign_def
          Let_def flip: R)
  next
    case 2
    then have R: "?R = ?I - frc_out cfg" by (simp add: frc_rem_def)
    show ?thesis
      using 2 rates v(1-4) hit nid cnt
      by (simp add: AVPLAY_FrcCalculate_def frc_reconfigure_def frc_convert_def frc_at_def frc_start_def frc_base_def frc_sign_def
          Let_def flip: R)
  next
    case 3
    then have R: "?R = 0" by (simp add: frc_rem_def)
    show ?thesis
      using 3 rates v(1-4) hit R cnt
      by (simp add: AVPLAY_FrcCalculate_def frc_reconfigure_def frc_convert_def frc_at_def frc_start_def frc_base_def)
  qed
qed

lemma play_at:
  assumes "frc_valid cfg" "n < U32_RANGE"
  shows "\<exists>F. frc_play cfg n (frc_start cfg) = Some (frc_at cfg n F, frc_base cfg * int n + frc_sign cfg * int F)
    \<and> (0 < frc_rem cfg \<longrightarrow> frc_sync (frc_in cfg) (frc_rem cfg) n F) \<and> (frc_rem cfg = 0 \<longrightarrow> F = 0)"
  using assms(2)
proof (induction n)
  case 0
  have "frc_at cfg 0 0 = frc_start cfg" by (simp add: frc_at_def frc_start_def)
  then show ?case
    using sync_0 [of "frc_rem cfg" "frc_in cfg"] valid_rates(6) [OF assms(1)]
    by (intro exI [of _ 0]) simp
next
  case (Suc n)
  obtain F where F: "frc_play cfg n (frc_start cfg)
      = Some (frc_at cfg n F, frc_base cfg * int n + frc_sign cfg * int F)"
    "0 < frc_rem cfg \<longrightarrow> frc_sync (frc_in cfg) (frc_rem cfg) n F" "frc_rem cfg = 0 \<longrightarrow> F = 0"
    using Suc.IH [OF Suc_lessD [OF Suc.prems]] by (elim exE conjE) (rule that)
  let ?F = "if frc_hit cfg n F then Suc F else F"
  have "frc_sync (frc_in cfg) (frc_rem cfg) (Suc n) ?F" if "0 < frc_rem cfg"
    using sync_step [of "frc_rem cfg" "frc_in cfg" n F] F(2) that valid_rates(6) [OF assms(1)]
    by (simp add: frc_hit_def)
  moreover have "?F = 0" if "frc_rem cfg = 0" using that F(3) by (simp add: frc_hit_def)
  ultimately show ?case
    using F(1) calculate_at [OF assms(1) Suc.prems, of F] F(2)
    by (intro exI [of _ ?F]) (auto simp: algebra_simps)
qed

lemma calculate_fresh:
  assumes "frc_valid cfg" "frc_fresh cfg h"
  shows "AVPLAY_FrcCalculate h cfg = AVPLAY_FrcCalculate (frc_start cfg) cfg"
proof -
  have "frc_reconfigure h cfg = frc_start cfg" "frc_reconfigure (frc_start cfg) cfg = frc_start cfg"
    using assms(2)
    by (auto simp: frc_reconfigure_def frc_fresh_def AVPLAY_FrcReset_def frc_zero_def frc_start_def)
  then show ?thesis using assms(1) by (simp add: AVPLAY_FrcCalculate_def frc_valid_def)
qed

lemma play_fresh:
  assumes "frc_valid cfg" "frc_fresh cfg h"
  shows "frc_play cfg (Suc n) h = frc_play cfg (Suc n) (frc_start cfg)"
proof (induction n)
  case 0
  then show ?case using calculate_fresh [OF assms] by simp
next
  case (Suc n)
  then show ?case by (subst (1 2) frc_play.simps) simp
qed

text \<open>The rate identity behind the conversion.\<close>

lemma base_rate:
  assumes "frc_valid cfg"
  shows "int (frc_in cfg) * frc_base cfg + frc_sign cfg * int (frc_rem cfg) = int (frc_out cfg)"
proof (cases "frc_in cfg < frc_out cfg")
  case True
  have "int (frc_in cfg) * int (frc_out cfg div frc_in cfg) + int (frc_out cfg mod frc_in cfg)
      = int (frc_out cfg)"
    by (metis mult_div_mod_eq of_nat_add of_nat_mult)
  then show ?thesis using True by (simp add: frc_base_def frc_sign_def frc_rem_def)
next
  case False
  then show ?thesis by (simp add: frc_base_def frc_sign_def frc_rem_def)
qed

section \<open>Properties\<close>

text \<open>C13. The frame rate conversion is exact and smooth: from a fresh state, for every number \<open>n\<close> of
  input frames below the wrap of the frame counter, the calculation never traps and the number
  of frames shown so far differs from \<open>n\<close> times the ratio of the scaled output rate to the
  scaled input rate by less than one frame.\<close>

theorem frc_smooth:
  assumes "frc_valid cfg" "frc_fresh cfg h" "n < U32_RANGE"
  shows "\<exists>h' shown. frc_play cfg n h = Some (h', shown)
    \<and> \<bar>int (frc_in cfg) * shown - int (frc_out cfg) * int n\<bar> < int (frc_in cfg)"
proof (cases n)
  case 0
  then show ?thesis using valid_rates(3) [OF assms(1)] by simp
next
  case (Suc k)
  let ?I = "int (frc_in cfg)"
  obtain F where F: "frc_play cfg n (frc_start cfg)
      = Some (frc_at cfg n F, frc_base cfg * int n + frc_sign cfg * int F)"
    "0 < frc_rem cfg \<longrightarrow> frc_sync (frc_in cfg) (frc_rem cfg) n F" "frc_rem cfg = 0 \<longrightarrow> F = 0"
    using play_at [OF assms(1,3)] by (elim exE conjE) (rule that)
  have even: "\<bar>?I * int F - int (frc_rem cfg) * int n\<bar> < ?I"
    using F(2,3) sync_even [of "frc_rem cfg" "frc_in cfg" n F] valid_rates(3,6) [OF assms(1)]
    by (cases "frc_rem cfg = 0") auto
  have "?I * (frc_base cfg * int n + frc_sign cfg * int F) - int (frc_out cfg) * int n
      = frc_sign cfg * (?I * int F - int (frc_rem cfg) * int n)"
    unfolding base_rate [OF assms(1), symmetric] by (simp add: algebra_simps)
  moreover have "\<bar>frc_sign cfg * x\<bar> = \<bar>x\<bar>" for x by (simp add: frc_sign_def)
  moreover have "frc_play cfg n h = frc_play cfg n (frc_start cfg)"
    unfolding Suc by (rule play_fresh [OF assms(1,2)])
  ultimately show ?thesis
    using even F(1) by metis
qed

text \<open>A configuration that turns 24 frames per second into 60.\<close>

definition frc_24_60 :: frc_cfg where
  "frc_24_60 = \<lparr>cfgInRate = 24, cfgOutRate = 60, cfgPlayRate = 256\<rparr>"

theorem frc_smooth_witness:
  "\<exists>h' shown. frc_play frc_24_60 768 frc_zero = Some (h', shown) \<and> shown = 1920"
proof -
  have "frc_valid frc_24_60" "frc_fresh frc_24_60 frc_zero"
    "frc_in frc_24_60 = 768" "frc_out frc_24_60 = 1920"
    by (simp_all add: frc_valid_def frc_in_def frc_out_def frc_24_60_def frc_fresh_def frc_zero_def)
  then obtain h' shown where "frc_play frc_24_60 768 frc_zero = Some (h', shown)"
    "\<bar>768 * shown - 1920 * 768\<bar> < (768::int)"
    using frc_smooth [of frc_24_60 frc_zero 768] by auto
  then show ?thesis by auto
qed

text \<open>Over whole cycles the count is exact: after \<open>c\<close> times \<open>InRate * 32\<close> frames exactly
  \<open>c\<close> times the scaled output rate have been shown, and the insertion index is back at 1.\<close>

theorem frc_cycle_exact:
  assumes "frc_valid cfg" "frc_fresh cfg h" "0 < c" "c * frc_in cfg < U32_RANGE"
  shows "\<exists>h'. frc_play cfg (c * frc_in cfg) h = Some (h', int c * int (frc_out cfg))
    \<and> u32CurID h' = 1 \<and> u32InputCount h' = c * frc_in cfg"
proof -
  let ?I = "frc_in cfg" and ?R = "frc_rem cfg" and ?n = "c * frc_in cfg"
  note v = valid_rates [OF assms(1)]
  obtain k where k: "?n = Suc k" using assms(3) v(3) by (cases ?n) auto
  obtain F where F: "frc_play cfg ?n (frc_start cfg)
      = Some (frc_at cfg ?n F, frc_base cfg * int ?n + frc_sign cfg * int F)"
    "0 < ?R \<longrightarrow> frc_sync ?I ?R ?n F" "?R = 0 \<longrightarrow> F = 0"
    using play_at [OF assms(1,4)] by (elim exE conjE) (rule that)
  have Fc: "F = c * ?R"
  proof (cases "?R = 0")
    case False
    have "\<bar>int ?I * (int F - int c * int ?R)\<bar> < int ?I"
      using sync_even [of ?R ?I ?n F] F(2) False v(6) by (simp add: algebra_simps)
    then have "\<bar>int F - int c * int ?R\<bar> < 1"
      using v(3) by (simp add: abs_mult)
    then show ?thesis by (simp flip: of_nat_mult)
  qed (use F(3) in simp)
  have "frc_base cfg * int ?n + frc_sign cfg * int F = int c * int (frc_out cfg)"
    unfolding Fc base_rate [OF assms(1), symmetric] by (simp add: algebra_simps)
  moreover have "frc_play cfg ?n h = frc_play cfg ?n (frc_start cfg)"
    unfolding k by (rule play_fresh [OF assms(1,2)])
  moreover have "u32CurID (frc_at cfg ?n F) = 1" "u32InputCount (frc_at cfg ?n F) = ?n"
    by (simp_all add: frc_at_def Fc)
  ultimately show ?thesis using F(1) by metis
qed

theorem frc_cycle_exact_witness:
  "\<exists>h'. frc_play \<lparr>cfgInRate = 60, cfgOutRate = 50, cfgPlayRate = 256\<rparr> (2 * 1920) frc_zero
     = Some (h', 3200) \<and> u32CurID h' = 1"
proof -
  let ?c = "\<lparr>cfgInRate = 60, cfgOutRate = 50, cfgPlayRate = 256\<rparr>"
  have "frc_valid ?c" "frc_fresh ?c frc_zero" "frc_in ?c = 1920" "frc_out ?c = 1600"
    by (simp_all add: frc_valid_def frc_in_def frc_out_def frc_fresh_def frc_zero_def)
  then obtain h' where "frc_play ?c (2 * 1920) frc_zero = Some (h', int 2 * int 1600)" "u32CurID h' = 1"
    using frc_cycle_exact [of ?c frc_zero 2] by (auto simp del: frc_play.simps)
  then show ?thesis by (intro exI [of _ h']) (simp del: frc_play.simps)
qed

text \<open>The calculation traps exactly on the division by a zero play rate or by a scaled output
  rate that is rounded to zero (a play rate above 8192 times the output rate): the code does
  not guard either.\<close>

theorem frc_traps:
  assumes "0 < cfgInRate cfg" "cfgInRate cfg * 32 < U32_RANGE" "cfgOutRate cfg * 8192 < U32_RANGE"
  shows "AVPLAY_FrcCalculate h cfg = None
    \<longleftrightarrow> cfgPlayRate cfg = 0 \<or> cfgOutRate cfg * 8192 < cfgPlayRate cfg"
proof -
  have rates: "u32InRate (frc_reconfigure h cfg) = cfgInRate cfg"
    "u32OutRate (frc_reconfigure h cfg) = cfgOutRate cfg" by (auto simp: frc_reconfigure_def)
  have "u32_mul (cfgInRate cfg) 32 = cfgInRate cfg * 32" using assms by (simp add: u32_mul_small)
  moreover have "u32_mul (u32_mul (cfgOutRate cfg) 32) 256 = cfgOutRate cfg * 8192"
    using assms by (simp add: u32_mul_small)
  ultimately show ?thesis
    using assms
    by (auto simp: AVPLAY_FrcCalculate_def frc_convert_def rates Let_def div_eq_0_iff)
qed

theorem frc_traps_witness:
  "AVPLAY_FrcCalculate frc_zero \<lparr>cfgInRate = 25, cfgOutRate = 0, cfgPlayRate = 256\<rparr> = None"
  using frc_traps [of "\<lparr>cfgInRate = 25, cfgOutRate = 0, cfgPlayRate = 256\<rparr>" frc_zero] by simp

end
