(* ===== verification/PtsDesc.thy ===== *)
theory PtsDesc
  imports MT_Base
begin

text \<open>
  The PTS descriptors of the demultiplexer, \<open>msp/api/demux/mpi_demux_pts_descriptor.c\<close>, with the
  register accessors of \<open>msp/api/demux/mt_mpi_demux.c\<close> and the client that finds the descriptor of
  an audio packet, \<open>avplay_get_aud_pts_desc_by_es_addr\<close> of \<open>msp/api/avplay/mt_mpi_avplay.c\<close>. The
  hardware fills a ring of 16-byte descriptors and moves the write register; the model is the
  state of a channel at a moment, and a call sees one such state. Loops that may not end and
  divisions by zero are the value \<open>None\<close>. \<open>MALLOC\<close> succeeding is an argument.
\<close>

record dmx_chan =
  dmx_ready :: bool
  playCh :: nat
  descBuf :: "u8 list"
  descBufSize :: nat
  rd_reg :: nat
  wr_reg :: nat

record pts_desc =
  origPTS :: u64
  u64PTS :: u64
  u32EsPhyAddr :: u32

datatype whence = SEEK_CUR | SEEK_OTHER

section \<open>Registers\<close>

definition MT_MPI_DMX_GetCurrentDescBufferWritePoint :: "dmx_chan \<Rightarrow> nat" where
  "MT_MPI_DMX_GetCurrentDescBufferWritePoint ch =
     (if \<not> dmx_ready ch then 0 else if playCh ch > 16 then 0 else wr_reg ch)"

definition MT_MPI_DMX_GetCurrentDescBufferReadPoint :: "dmx_chan \<Rightarrow> nat" where
  "MT_MPI_DMX_GetCurrentDescBufferReadPoint ch =
     (if \<not> dmx_ready ch then 0 else if playCh ch > 16 then 0 else rd_reg ch)"

definition MT_MPI_DMX_SetCurrentDescBufferReadPoint :: "dmx_chan \<Rightarrow> nat \<Rightarrow> dmx_chan" where
  "MT_MPI_DMX_SetCurrentDescBufferReadPoint ch rp =
     (if \<not> dmx_ready ch then ch else if playCh ch > 16 then ch
      else ch\<lparr>rd_reg := rp mod U32_RANGE\<rparr>)"

section \<open>Descriptors\<close>

definition demux_pts_descriptor_size :: nat where
  "demux_pts_descriptor_size = 16"

definition mpi_demux_desc_get_size :: nat where
  "mpi_demux_desc_get_size = demux_pts_descriptor_size"

text \<open>The bytes copied to the caller's buffer and the value returned; \<open>buffer\<close> says that the
  buffer is not NULL.\<close>

definition mpi_demux_desc_read ::
  "bool \<Rightarrow> nat \<Rightarrow> nat \<Rightarrow> dmx_chan \<Rightarrow> u8 list \<times> nat" where
  "mpi_demux_desc_read buffer sz count ch =
     (if \<not> buffer then ([], 0)
      else if sz \<noteq> demux_pts_descriptor_size \<or> count \<noteq> 1 then ([], 0)
      else (let rp = MT_MPI_DMX_GetCurrentDescBufferReadPoint ch;
                wp = MT_MPI_DMX_GetCurrentDescBufferWritePoint ch in
            if rp \<noteq> wp then (mem_read (descBuf ch) rp (sz * count), sz * count)
            else ([], 0)))"

definition mpi_demux_desc_seek :: "dmx_chan \<Rightarrow> int \<Rightarrow> whence \<Rightarrow> (dmx_chan \<times> mt_ret) option" where
  "mpi_demux_desc_seek ch offset fromwhere =
     (if fromwhere \<noteq> SEEK_CUR then Some (ch, MT_FAILURE)
      else if offset \<le> 0 \<or> nat offset mod demux_pts_descriptor_size \<noteq> 0 then Some (ch, MT_FAILURE)
      else (let rp = MT_MPI_DMX_GetCurrentDescBufferReadPoint ch;
                wp = MT_MPI_DMX_GetCurrentDescBufferWritePoint ch in
            if rp \<noteq> wp
            then (if descBufSize ch = 0 then None
                  else Some (MT_MPI_DMX_SetCurrentDescBufferReadPoint ch
                         ((rp + nat offset mod U32_RANGE) mod descBufSize ch), MT_SUCCESS))
            else Some (ch, MT_FAILURE)))"

text \<open>The members of \<open>MT_MPI_DMX_DESCRIPTOR_DATA_S\<close> in the order of the structure.\<close>

definition desc_u32Info :: "u8 list \<Rightarrow> u32" where "desc_u32Info b = le32 (mem_read b 0 4)"
definition desc_u32Addr :: "u8 list \<Rightarrow> u32" where "desc_u32Addr b = le32 (mem_read b 4 4)"
definition desc_u32Dts :: "u8 list \<Rightarrow> u32" where "desc_u32Dts b = le32 (mem_read b 8 4)"
definition desc_u32Pts :: "u8 list \<Rightarrow> u32" where "desc_u32Pts b = le32 (mem_read b 12 4)"

definition parse_origPTS :: "u32 \<Rightarrow> u32 \<Rightarrow> u64" where
  "parse_origPTS pts info =
     push_bit 1 (ucast (drop_bit 1 pts AND 0x3FFFFFFF)
       OR ucast (push_bit 30 (drop_bit 24 info AND 0x03)))"

definition mpi_demux_desc_parse :: "bool \<Rightarrow> u8 list option \<Rightarrow> nat \<Rightarrow> pts_desc option" where
  "mpi_demux_desc_parse malloc_ok buffer sz =
     (case buffer of None \<Rightarrow> None | Some b \<Rightarrow>
      if sz \<noteq> demux_pts_descriptor_size then None
      else if desc_u32Pts b AND 0x80000000 = 0 then None
      else if \<not> malloc_ok then None
      else (let orig = parse_origPTS (desc_u32Pts b) (desc_u32Info b)
            in Some \<lparr>origPTS = orig, u64PTS = orig * 1000 div 90, u32EsPhyAddr = desc_u32Addr b\<rparr>))"

definition mpi_demux_desc_get_orig_pts :: "pts_desc option \<Rightarrow> bool \<Rightarrow> u64 option \<times> mt_ret" where
  "mpi_demux_desc_get_orig_pts desc pts =
     (case desc of None \<Rightarrow> (None, MT_FAILURE)
      | Some d \<Rightarrow> if \<not> pts then (None, MT_FAILURE) else (Some (origPTS d), MT_SUCCESS))"

definition mpi_demux_desc_get_pts64 :: "pts_desc option \<Rightarrow> bool \<Rightarrow> u64 option \<times> mt_ret" where
  "mpi_demux_desc_get_pts64 desc pts =
     (case desc of None \<Rightarrow> (None, MT_FAILURE)
      | Some d \<Rightarrow> if \<not> pts then (None, MT_FAILURE) else (Some (u64PTS d), MT_SUCCESS))"

definition mpi_demux_desc_get_es_start_addr :: "pts_desc option \<Rightarrow> bool \<Rightarrow> u32 option \<times> mt_ret" where
  "mpi_demux_desc_get_es_start_addr desc addr =
     (case desc of None \<Rightarrow> (None, MT_FAILURE)
      | Some d \<Rightarrow> if \<not> addr then (None, MT_FAILURE) else (Some (u32EsPhyAddr d), MT_SUCCESS))"

text \<open>The loop of \<open>mpi_demux_desc_next\<close>.\<close>

partial_function (option) mpi_demux_desc_next ::
  "bool \<Rightarrow> dmx_chan \<Rightarrow> (dmx_chan \<times> pts_desc option) option" where
  "mpi_demux_desc_next malloc_ok ch =
     (if mpi_demux_desc_get_size > 32 then Some (ch, None)
      else case mpi_demux_desc_read True mpi_demux_desc_get_size 1 ch of (buffer, n) \<Rightarrow>
        if n \<noteq> mpi_demux_desc_get_size then Some (ch, None)
        else Option.bind (mpi_demux_desc_seek ch (int mpi_demux_desc_get_size) SEEK_CUR)
          (\<lambda>(ch', _). case mpi_demux_desc_parse malloc_ok (Some buffer) mpi_demux_desc_get_size of
               Some d \<Rightarrow> Some (ch', Some d)
             | None \<Rightarrow> mpi_demux_desc_next malloc_ok ch'))"

text \<open>\<open>mpi_demux_desc_sample\<close> reads one descriptor for diagnostics and moves on; what it parses is
  freed again, so that its only effect is the seek.\<close>

definition mpi_demux_desc_sample :: "dmx_chan \<Rightarrow> dmx_chan option" where
  "mpi_demux_desc_sample ch =
     (if mpi_demux_desc_get_size > 32 then Some ch
      else if snd (mpi_demux_desc_read True mpi_demux_desc_get_size 1 ch) \<noteq> mpi_demux_desc_get_size
      then Some ch
      else map_option fst (mpi_demux_desc_seek ch (int mpi_demux_desc_get_size) SEEK_CUR))"

section \<open>The descriptor of an audio packet\<close>

text \<open>\<open>AudPtsDesc[0]\<close> and \<open>AudPtsDesc[1]\<close> of the player, and the stored \<open>*size\<close> (\<open>None\<close>: not
  written). \<open>aud_pair_match\<close> is the test of the loop on two neighbouring descriptors.\<close>

definition aud_pair_match :: "u32 \<Rightarrow> pts_desc \<Rightarrow> pts_desc \<Rightarrow> bool" where
  "aud_pair_match phy d1 d2 =
     (let a1 = u32EsPhyAddr d1; a2 = u32EsPhyAddr d2 in
      if a1 < a2 then a1 \<le> phy \<and> phy < a2
      else if a2 < a1 then a1 \<le> phy \<or> phy < a2
      else False)"

definition aud_pair_size :: "u32 \<Rightarrow> pts_desc \<Rightarrow> u32 option" where
  "aud_pair_size phy d2 = (if phy < u32EsPhyAddr d2 then Some (u32EsPhyAddr d2 - phy) else None)"

partial_function (option) aud_desc_loop ::
  "bool \<Rightarrow> u32 \<Rightarrow> dmx_chan \<Rightarrow> pts_desc \<Rightarrow> pts_desc option
   \<Rightarrow> (dmx_chan \<times> pts_desc \<times> pts_desc option \<times> u32 option) option" where
  "aud_desc_loop malloc_ok phy ch d1 d2opt =
     Option.bind (case d2opt of None \<Rightarrow> mpi_demux_desc_next malloc_ok ch | Some d \<Rightarrow> Some (ch, Some d))
       (\<lambda>(ch', r). case r of
            None \<Rightarrow> Some (ch', d1, None, None)
          | Some d2 \<Rightarrow>
              if aud_pair_match phy d1 d2 then Some (ch', d1, Some d2, aud_pair_size phy d2)
              else aud_desc_loop malloc_ok phy ch' d2 None)"

definition avplay_get_aud_pts_desc_by_es_addr ::
  "bool \<Rightarrow> pts_desc option \<times> pts_desc option \<Rightarrow> dmx_chan \<Rightarrow> u32
   \<Rightarrow> (dmx_chan \<times> (pts_desc option \<times> pts_desc option) \<times> pts_desc option \<times> u32 option) option" where
  "avplay_get_aud_pts_desc_by_es_addr malloc_ok aud ch phy =
     Option.bind (case fst aud of None \<Rightarrow> mpi_demux_desc_next malloc_ok ch | Some d \<Rightarrow> Some (ch, Some d))
       (\<lambda>(ch1, r). case r of
            None \<Rightarrow> Some (ch1, aud, None, None)
          | Some d1 \<Rightarrow>
              map_option (\<lambda>(ch2, d1', d2', sz). (ch2, (Some d1', d2'), Some d1', sz))
                (aud_desc_loop malloc_ok phy ch1 d1 (snd aud)))"

text \<open>The return code, \<open>*pts32\<close>, \<open>*pts64\<close> and \<open>*size\<close> of \<open>avplay_get_aud_pts_by_es_addr\<close>.\<close>

definition avplay_get_aud_pts_by_es_addr ::
  "bool \<Rightarrow> pts_desc option \<times> pts_desc option \<Rightarrow> dmx_chan \<Rightarrow> u32
   \<Rightarrow> (dmx_chan \<times> (pts_desc option \<times> pts_desc option) \<times> mt_ret \<times> (u32 \<times> u64) option \<times> u32 option) option" where
  "avplay_get_aud_pts_by_es_addr malloc_ok aud ch phy =
     map_option (\<lambda>(ch', aud', d, sz). case d of
         None \<Rightarrow> (ch', aud', MT_FAILURE, None, sz)
       | Some d \<Rightarrow> (ch', aud', MT_SUCCESS, Some (ucast (drop_bit 1 (origPTS d)), u64PTS d), sz))
       (avplay_get_aud_pts_desc_by_es_addr malloc_ok aud ch phy)"

section \<open>The descriptor ring as a list\<close>

definition chan_inv :: "dmx_chan \<Rightarrow> bool" where
  "chan_inv ch \<longleftrightarrow> dmx_ready ch \<and> playCh ch \<le> 16 \<and> descBufSize ch < U32_RANGE
     \<and> 16 dvd descBufSize ch \<and> 16 dvd rd_reg ch \<and> 16 dvd wr_reg ch
     \<and> rd_reg ch < descBufSize ch \<and> wr_reg ch < descBufSize ch \<and> length (descBuf ch) = descBufSize ch"

definition chan_pending :: "dmx_chan \<Rightarrow> u8 list list" where
  "chan_pending ch = (let n = descBufSize ch div 16
     in ring_view (slots (descBuf ch) 16 n) n (rd_reg ch div 16)
          (ring_count n (wr_reg ch div 16) (rd_reg ch div 16)))"

abbreviation chan_step :: "dmx_chan \<Rightarrow> dmx_chan" where
  "chan_step ch \<equiv> ch\<lparr>rd_reg := (rd_reg ch + 16) mod descBufSize ch\<rparr>"

definition chan_parse :: "u8 list \<Rightarrow> pts_desc option" where
  "chan_parse b = mpi_demux_desc_parse True (Some b) 16"

lemma chan_empty: "chan_inv ch \<Longrightarrow> rd_reg ch = wr_reg ch \<Longrightarrow> chan_pending ch = []"
  by (simp add: chan_pending_def Let_def ring_count_def)

lemma chan_step_inv: "chan_inv ch \<Longrightarrow> chan_inv (chan_step ch)"
  by (auto simp: chan_inv_def intro: dvd_mod)

lemma chan_cons:
  assumes "chan_inv ch" "rd_reg ch \<noteq> wr_reg ch"
  shows "chan_pending ch = mem_read (descBuf ch) (rd_reg ch) 16 # chan_pending (chan_step ch)"
proof -
  obtain n r w where e: "descBufSize ch = 16 * n" "rd_reg ch = 16 * r" "wr_reg ch = 16 * w"
    using assms(1) by (auto simp: chan_inv_def elim!: dvdE)
  have b: "r < n" "w < n" "r \<noteq> w" using assms e by (auto simp: chan_inv_def)
  have s: "(16 * r + 16) mod (16 * n) = 16 * (Suc r mod n)"
    using mult_mod_right [of 16 "Suc r" n] by (simp add: add.commute)
  show ?thesis
    using b by (simp add: chan_pending_def e s ring_view_count_step mult.commute [of _ 16])
qed

lemma desc_read_eq:
  assumes "chan_inv ch"
  shows "mpi_demux_desc_read True 16 (Suc 0) ch =
    (if rd_reg ch = wr_reg ch then ([], 0) else (mem_read (descBuf ch) (rd_reg ch) 16, 16))"
  using assms by (auto simp: mpi_demux_desc_read_def chan_inv_def demux_pts_descriptor_size_def
      MT_MPI_DMX_GetCurrentDescBufferReadPoint_def MT_MPI_DMX_GetCurrentDescBufferWritePoint_def)

lemma desc_seek_eq:
  assumes "chan_inv ch" "rd_reg ch \<noteq> wr_reg ch"
  shows "mpi_demux_desc_seek ch 16 SEEK_CUR = Some (chan_step ch, MT_SUCCESS)"
proof -
  have "(rd_reg ch + 16) mod descBufSize ch < descBufSize ch" using assms by (auto simp: chan_inv_def)
  then have "(rd_reg ch + 16) mod descBufSize ch < U32_RANGE"
    using assms(1) unfolding chan_inv_def by (elim conjE) (rule less_trans)
  then show ?thesis
    using assms by (auto simp: mpi_demux_desc_seek_def chan_inv_def demux_pts_descriptor_size_def
      MT_MPI_DMX_GetCurrentDescBufferReadPoint_def MT_MPI_DMX_GetCurrentDescBufferWritePoint_def
      MT_MPI_DMX_SetCurrentDescBufferReadPoint_def Let_def)
qed

text \<open>The loop returns, and what it returns is the first descriptor that parses.\<close>

lemma next_spec:
  assumes "chan_inv ch"
  shows "\<exists>ch'. mpi_demux_desc_next True ch = Some (ch',
      case dropWhile (\<lambda>b. chan_parse b = None) (chan_pending ch) of [] \<Rightarrow> None | b # _ \<Rightarrow> chan_parse b)
    \<and> chan_inv ch' \<and> chan_pending ch' = tl (dropWhile (\<lambda>b. chan_parse b = None) (chan_pending ch))"
  using assms
proof (induction "chan_pending ch" arbitrary: ch)
  case Nil
  then have "rd_reg ch = wr_reg ch" using chan_cons [of ch] by fastforce
  then show ?case
    using Nil by (subst mpi_demux_desc_next.simps)
      (simp add: desc_read_eq mpi_demux_desc_get_size_def demux_pts_descriptor_size_def)
next
  case (Cons b bs)
  have ne: "rd_reg ch \<noteq> wr_reg ch" using Cons.hyps(2) chan_empty [OF Cons.prems] by fastforce
  have hd: "b = mem_read (descBuf ch) (rd_reg ch) 16" "bs = chan_pending (chan_step ch)"
    using chan_cons [OF Cons.prems ne] Cons.hyps(2) by simp_all
  have step: "mpi_demux_desc_next True ch = (case chan_parse b of
      Some d \<Rightarrow> Some (chan_step ch, Some d) | None \<Rightarrow> mpi_demux_desc_next True (chan_step ch))"
    using ne by (subst mpi_demux_desc_next.simps)
      (simp add: desc_read_eq [OF Cons.prems] desc_seek_eq [OF Cons.prems ne] hd(1) chan_parse_def
        mpi_demux_desc_get_size_def demux_pts_descriptor_size_def)
  show ?case
  proof (cases "chan_parse b")
    case None
    then show ?thesis
      using Cons.hyps(1) [OF hd(2) chan_step_inv [OF Cons.prems]] step
      by (simp flip: Cons.hyps(2)) (simp flip: hd(2))
  next
    case (Some d)
    then show ?thesis
      using step chan_step_inv [OF Cons.prems] hd(2) by (simp flip: Cons.hyps(2))
  qed
qed

section \<open>The search for an audio packet on lists\<close>

definition chan_descs :: "dmx_chan \<Rightarrow> pts_desc list" where
  "chan_descs ch = List.map_filter chan_parse (chan_pending ch)"

lemma map_filter_dropWhile:
  "List.map_filter f xs = (case dropWhile (\<lambda>x. f x = None) xs of [] \<Rightarrow> []
     | x # ys \<Rightarrow> the (f x) # List.map_filter f ys)"
  by (induction xs) (auto simp: List.map_filter_simps split: option.splits)

lemma next_descs:
  assumes "chan_inv ch"
  shows "\<exists>ch'. mpi_demux_desc_next True ch
      = Some (ch', case chan_descs ch of [] \<Rightarrow> None | d # _ \<Rightarrow> Some d)
    \<and> chan_inv ch' \<and> chan_descs ch' = tl (chan_descs ch)"
proof -
  let ?l = "dropWhile (\<lambda>b. chan_parse b = None) (chan_pending ch)"
  note mf = map_filter_dropWhile [of chan_parse "chan_pending ch"]
  show ?thesis
  proof (cases ?l)
    case Nil
    then show ?thesis
      using next_spec [OF assms] mf unfolding Nil
      by (elim exE conjE) (simp add: chan_descs_def List.map_filter_simps)
  next
    case (Cons b bs)
    then have "chan_parse b \<noteq> None"
      using hd_dropWhile [of "\<lambda>b. chan_parse b = None" "chan_pending ch"] by simp
    then show ?thesis
      using next_spec [OF assms] mf unfolding Cons
      by (elim exE conjE) (auto simp: chan_descs_def)
  qed
qed

fun aud_search :: "u32 \<Rightarrow> pts_desc \<Rightarrow> pts_desc list \<Rightarrow> pts_desc \<times> pts_desc option \<times> pts_desc list" where
  "aud_search phy d [] = (d, None, [])"
| "aud_search phy d (e # es) =
     (if aud_pair_match phy d e then (d, Some e, es) else aud_search phy e es)"

definition opt_list :: "'a option \<Rightarrow> 'a list" where
  "opt_list x = (case x of None \<Rightarrow> [] | Some y \<Rightarrow> [y])"

lemma opt_list_simps [simp]: "opt_list None = []" "opt_list (Some y) = [y]"
  by (simp_all add: opt_list_def)

lemma loop_search:
  assumes "chan_inv ch" "aud_search phy d1 (opt_list d2 @ chan_descs ch) = (a, b, rest)"
  shows "\<exists>ch'. aud_desc_loop True phy ch d1 d2
      = Some (ch', a, b, Option.bind b (aud_pair_size phy)) \<and> chan_inv ch' \<and> chan_descs ch' = rest"
  using assms
proof (induction "opt_list d2 @ chan_descs ch" arbitrary: d1 d2 ch)
  case Nil
  then have "d2 = None" "chan_descs ch = []" by (auto simp: opt_list_def split: option.splits)
  then show ?case
    using Nil next_descs [of ch] by (subst aud_desc_loop.simps) auto
next
  case (Cons e es)
  obtain ch1 where g: "(case d2 of None \<Rightarrow> mpi_demux_desc_next True ch | Some d \<Rightarrow> Some (ch, Some d))
      = Some (ch1, Some e)" "chan_inv ch1" "chan_descs ch1 = es"
  proof (cases d2)
    case None
    then show ?thesis using that next_descs [OF Cons.prems(1)] Cons.hyps(2) by (auto split: list.splits)
  next
    case (Some d)
    then show ?thesis using that [of ch] Cons.prems(1) Cons.hyps(2) by simp
  qed
  show ?case
  proof (cases "aud_pair_match phy d1 e")
    case True
    then show ?thesis
      using Cons.prems(2) g unfolding Cons.hyps(2) [symmetric]
      by (subst aud_desc_loop.simps) auto
  next
    case False
    then have s: "aud_search phy e (opt_list None @ chan_descs ch1) = (a, b, rest)"
      using Cons.prems(2) g(3) unfolding Cons.hyps(2) [symmetric] by simp
    show ?thesis
      using Cons.hyps(1) [of None ch1 e, OF _ g(2) s] g False
      by (subst aud_desc_loop.simps) simp
  qed
qed

text \<open>What the search returns: the first neighbouring pair that matches, or the last element.\<close>

lemma search_spec:
  assumes "aud_search phy d es = (a, b, rest)"
  shows "\<exists>pre. d # es = pre @ a # opt_list b @ rest \<and> (b = None \<longrightarrow> rest = [])
    \<and> (\<forall>e. b = Some e \<longrightarrow> aud_pair_match phy a e)
    \<and> (\<forall>i. i < length pre \<longrightarrow> \<not> aud_pair_match phy ((pre @ [a]) ! i) ((pre @ [a]) ! Suc i))"
  using assms
proof (induction phy d es rule: aud_search.induct)
  case (1 phy d)
  then show ?case by (intro exI [of _ "[]"]) auto
next
  case (2 phy d e es)
  show ?case
  proof (cases "aud_pair_match phy d e")
    case True
    then show ?thesis using 2(2) by (intro exI [of _ "[]"]) auto
  next
    case False
    then obtain pre where pre: "e # es = pre @ a # opt_list b @ rest" "b = None \<longrightarrow> rest = []"
      "\<forall>e. b = Some e \<longrightarrow> aud_pair_match phy a e"
      "\<forall>i. i < length pre \<longrightarrow> \<not> aud_pair_match phy ((pre @ [a]) ! i) ((pre @ [a]) ! Suc i)"
      using 2 by auto
    have e: "(pre @ [a]) ! 0 = e" using pre(1) by (cases pre) auto
    have "\<not> aud_pair_match phy ((d # pre @ [a]) ! i) ((d # pre @ [a]) ! Suc i)"
      if "i < length (d # pre)" for i
      using that False pre(4) e by (cases i) auto
    then show ?thesis using pre by (intro exI [of _ "d # pre"]) auto
  qed
qed

section \<open>Properties\<close>

text \<open>The descriptor the writer of the ring builds from the upper 32 bits of a 33-bit PTS and an
  address (the layout that \<open>mt_mpi_demux.h\<close> documents above the structure).\<close>

definition desc_encode :: "u32 \<Rightarrow> u32 \<Rightarrow> u8 list" where
  "desc_encode high32bitpts es_addr =
     le32_bytes (push_bit 24 (drop_bit 30 high32bitpts)) @ le32_bytes es_addr @ le32_bytes 0
     @ le32_bytes (push_bit 1 (high32bitpts AND 0x3fffffff) OR 0x80000000)"

lemma desc_encode_fields:
  "desc_u32Info (desc_encode h a) = push_bit 24 (drop_bit 30 h)"
  "desc_u32Addr (desc_encode h a) = a"
  "desc_u32Pts (desc_encode h a) = push_bit 1 (h AND 0x3fffffff) OR 0x80000000"
  by (simp_all add: desc_u32Info_def desc_u32Addr_def desc_u32Pts_def desc_encode_def mem_read_def)

lemma low_mask: "(0x3FFFFFFF :: u32) = mask 30" "(0x03 :: u32) = mask 2" "(0x80000000 :: u32) = push_bit 31 1"
  by (simp_all add: mask_eq_exp_minus_1 push_bit_eq_mult)

lemma parse_origPTS_encode:
  "parse_origPTS (push_bit 1 (h AND 0x3fffffff) OR 0x80000000) (push_bit 24 (drop_bit 30 h))
    = push_bit 1 (ucast h)"
proof (rule bit_word_eqI)
  fix n assume "n < LENGTH(64)"
  then have "n = 0 \<or> 0 < n \<and> n < 31 \<or> n = 31 \<or> n = 32 \<or> 32 < n \<and> n < 64" by auto
  then show "bit (parse_origPTS (push_bit 1 (h AND 0x3fffffff) OR 0x80000000)
      (push_bit 24 (drop_bit 30 h))) n = bit (push_bit 1 (ucast h) :: u64) n"
    unfolding parse_origPTS_def low_mask
    by (simp only: bit_simps comp_apply, elim disjE conjE)
       (auto simp: possible_bit_word dest: bit_imp_le_length)
qed

text \<open>C16. Round trip: parsing the descriptor built for the upper 32 bits \<open>h\<close> of a PTS gives back
  the PTS \<open>2 * h\<close>, its value in microseconds rounded down, without any overflow of the 64-bit
  product, and the address.\<close>

theorem desc_parse_encode:
  "\<exists>d. mpi_demux_desc_parse True (Some (desc_encode h a)) demux_pts_descriptor_size = Some d
    \<and> unat (origPTS d) = 2 * unat h \<and> unat (u64PTS d) = 2 * unat h * 1000 div 90
    \<and> u32EsPhyAddr d = a"
proof -
  let ?o = "push_bit 1 (ucast h) :: u64"
  note h = unat_u32_less [of h]
  then have "unat (ucast h :: u64) = unat h"
    by (simp add: unsigned_ucast_eq take_bit_nat_eq_self)
  then have o: "unat ?o = 2 * unat h"
    using h by (simp add: push_bit_eq_mult unat_word_ariths)
  have mul: "unat (x * 1000) = unat x * 1000" if "unat x < 2 ^ 33" for x :: u64
    using that by (simp add: unat_word_ariths)
  have "unat (?o * 1000) = unat ?o * 1000" by (rule mul) (use h o in simp)
  then have "unat (?o * 1000) = 2 * unat h * 1000"
    by (simp only: o)
  then have u: "unat (?o * 1000 div 90) = 2 * unat h * 1000 div 90" by (simp add: unat_div)
  have flag: "(push_bit 1 (h AND 0x3fffffff) OR 0x80000000) AND 0x80000000 \<noteq> (0 :: u32)"
  proof
    assume "(push_bit 1 (h AND 0x3fffffff) OR 0x80000000) AND 0x80000000 = (0 :: u32)"
    then have "bit ((push_bit 1 (h AND 0x3fffffff) OR 0x80000000) AND 0x80000000 :: u32) 31 = bit 0 31"
      by simp
    then show False unfolding low_mask by (simp only: bit_simps) simp
  qed
  show ?thesis
    unfolding mpi_demux_desc_parse_def desc_encode_fields parse_origPTS_encode option.case Let_def
    using flag o u by simp
qed

text \<open>C17. \<open>mpi_demux_desc_next\<close> always returns on a well-formed channel: it delivers the first
  pending descriptor whose PTS flag is set, or NULL when there is none, and consumes exactly
  the descriptors up to and including it.\<close>

theorem desc_next_total:
  assumes "chan_inv ch"
  shows "\<exists>ch' r. mpi_demux_desc_next True ch = Some (ch', r) \<and> chan_inv ch'
    \<and> (case dropWhile (\<lambda>b. desc_u32Pts b AND 0x80000000 = 0) (chan_pending ch) of
          [] \<Rightarrow> r = None \<and> chan_pending ch' = []
        | b # bs \<Rightarrow> r = mpi_demux_desc_parse True (Some b) 16 \<and> r \<noteq> None \<and> chan_pending ch' = bs)"
proof -
  have p: "chan_parse b = None \<longleftrightarrow> desc_u32Pts b AND 0x80000000 = 0" for b
    by (simp add: chan_parse_def mpi_demux_desc_parse_def demux_pts_descriptor_size_def Let_def)
  let ?l = "dropWhile (\<lambda>b. desc_u32Pts b AND 0x80000000 = 0) (chan_pending ch)"
  show ?thesis
  proof (cases ?l)
    case Nil
    then show ?thesis using next_spec [OF assms] unfolding p Nil by (elim exE conjE) simp
  next
    case (Cons b bs)
    then have ok: "desc_u32Pts b AND 0x80000000 \<noteq> 0"
      using hd_dropWhile [of "\<lambda>b. desc_u32Pts b AND 0x80000000 = 0" "chan_pending ch"] by simp
    show ?thesis
      using next_spec [OF assms] unfolding p Cons
      by (elim exE conjE) (use p [of b] ok in \<open>simp add: chan_parse_def\<close>)
  qed
qed

definition chan_example :: dmx_chan where
  "chan_example = \<lparr>dmx_ready = True, playCh = 0,
     descBuf = replicate 16 0 @ desc_encode 45 4096 @ replicate 16 0,
     descBufSize = 48, rd_reg = 0, wr_reg = 32\<rparr>"

lemma chan_example_inv: "chan_inv chan_example"
  by (simp add: chan_inv_def chan_example_def desc_encode_def)

lemma chan_example_pending: "chan_pending chan_example = [replicate 16 0, desc_encode 45 4096]"
proof -
  have l: "length (desc_encode 45 4096) = 16" by (simp add: desc_encode_def)
  have "chan_pending chan_example = mem_read (descBuf chan_example) 0 16 # mem_read (descBuf chan_example) 16 16 # []"
    using chan_cons [OF chan_example_inv] chan_cons [OF chan_step_inv [OF chan_example_inv]]
      chan_empty [OF chan_step_inv [OF chan_step_inv [OF chan_example_inv]]]
    by (simp add: chan_example_def)
  then show ?thesis using l by (simp add: chan_example_def mem_read_def)
qed

theorem desc_next_total_witness:
  "chan_inv chan_example \<and> (\<exists>ch' d. mpi_demux_desc_next True chan_example = Some (ch', Some d)
     \<and> unat (origPTS d) = 90 \<and> chan_pending ch' = [])"
proof -
  have z: "desc_u32Pts (replicate 16 0) = 0"
    by (simp add: desc_u32Pts_def mem_read_def le32_def numeral_2_eq_2 numeral_3_eq_3)
  have z2: "desc_u32Pts (desc_encode 45 4096) AND 0x80000000 \<noteq> 0"
    by (simp add: desc_encode_fields)
  obtain d where d: "mpi_demux_desc_parse True (Some (desc_encode 45 4096)) 16 = Some d" "unat (origPTS d) = 90"
    using desc_parse_encode [of 45 4096] by (auto simp: demux_pts_descriptor_size_def)
  show ?thesis
    using desc_next_total [OF chan_example_inv] chan_example_inv d
    by (auto simp: chan_example_pending z z2)
qed

text \<open>The player's search for the descriptor of an audio packet always returns, and finds the
  first pair of neighbouring descriptors, among the two cached ones and the valid pending ones,
  whose address interval (wrapping at the end of the buffer) contains the packet's address; it
  keeps that pair cached and leaves exactly the later descriptors pending. Without such a pair it
  returns the last descriptor.\<close>

theorem aud_pts_desc_found:
  assumes "chan_inv ch" "aud = (None, None) \<or> fst aud \<noteq> None"
    and "ds = opt_list (fst aud) @ opt_list (snd aud) @ chan_descs ch" "ds \<noteq> []"
  shows "\<exists>ch' d1 d2 sz pre.
      avplay_get_aud_pts_desc_by_es_addr True aud ch phy = Some (ch', (Some d1, d2), Some d1, sz)
    \<and> chan_inv ch' \<and> ds = pre @ d1 # opt_list d2 @ chan_descs ch'
    \<and> (case d2 of None \<Rightarrow> chan_descs ch' = []
        | Some e \<Rightarrow> aud_pair_match phy d1 e \<and> sz = aud_pair_size phy e)
    \<and> (\<forall>i < length pre. \<not> aud_pair_match phy ((pre @ [d1]) ! i) ((pre @ [d1]) ! Suc i))"
proof -
  obtain ch1 d where g: "(case fst aud of None \<Rightarrow> mpi_demux_desc_next True ch | Some d \<Rightarrow> Some (ch, Some d))
      = Some (ch1, Some d)" "chan_inv ch1" "ds = d # opt_list (snd aud) @ chan_descs ch1"
  proof (cases "fst aud")
    case None
    then have "ds = chan_descs ch" "snd aud = None" using assms(2,3) by auto
    then show ?thesis
      using that next_descs [OF assms(1)] assms(4) None by (cases "chan_descs ch") auto
  next
    case (Some d)
    then show ?thesis using that [of ch d] assms(1,3) by simp
  qed
  obtain a b rest where s: "aud_search phy d (opt_list (snd aud) @ chan_descs ch1) = (a, b, rest)"
    by (metis prod_cases3)
  obtain ch' where l: "aud_desc_loop True phy ch1 d (snd aud)
      = Some (ch', a, b, Option.bind b (aud_pair_size phy))" "chan_inv ch'" "chan_descs ch' = rest"
    using loop_search [OF g(2) s] by blast
  obtain pre where "ds = pre @ a # opt_list b @ rest" "b = None \<longrightarrow> rest = []"
    "\<forall>e. b = Some e \<longrightarrow> aud_pair_match phy a e"
    "\<forall>i. i < length pre \<longrightarrow> \<not> aud_pair_match phy ((pre @ [a]) ! i) ((pre @ [a]) ! Suc i)"
    using search_spec [OF s] g(3) by auto
  then show ?thesis
    using g(1) l by (intro exI [of _ ch'] exI [of _ a] exI [of _ b] exI [of _ "Option.bind b (aud_pair_size phy)"] exI [of _ pre])
      (auto simp: avplay_get_aud_pts_desc_by_es_addr_def split: option.splits)
qed

theorem aud_pts_desc_found_witness:
  "\<exists>ch' d1 d2. avplay_get_aud_pts_desc_by_es_addr True
      (Some \<lparr>origPTS = 1, u64PTS = 11, u32EsPhyAddr = 4000\<rparr>, None) chan_example 4050
      = Some (ch', (Some d1, Some d2), Some d1, Some 46) \<and> u32EsPhyAddr d1 = 4000"
proof -
  let ?d = "\<lparr>origPTS = 1, u64PTS = 11, u32EsPhyAddr = 4000\<rparr> :: pts_desc"
  have z: "chan_parse (replicate 16 0) = None"
    by (simp add: chan_parse_def mpi_demux_desc_parse_def desc_u32Pts_def mem_read_def le32_def
        numeral_2_eq_2 numeral_3_eq_3)
  obtain e where e: "chan_parse (desc_encode 45 4096) = Some e" "u32EsPhyAddr e = 4096"
    using desc_parse_encode [of 45 4096] by (auto simp: demux_pts_descriptor_size_def chan_parse_def)
  have c: "chan_descs chan_example = [e]"
    using z e by (simp add: chan_descs_def chan_example_pending List.map_filter_simps)
  have m: "aud_pair_match 4050 ?d e" "aud_pair_size 4050 e = Some 46"
    using e by (simp_all add: aud_pair_match_def aud_pair_size_def)
  obtain ch' d1 d2 sz pre where r: "avplay_get_aud_pts_desc_by_es_addr True (Some ?d, None) chan_example 4050
      = Some (ch', (Some d1, d2), Some d1, sz)" "[?d, e] = pre @ d1 # opt_list d2 @ chan_descs ch'"
    "case d2 of None \<Rightarrow> chan_descs ch' = [] | Some e \<Rightarrow> aud_pair_match 4050 d1 e \<and> sz = aud_pair_size 4050 e"
    "\<forall>i < length pre. \<not> aud_pair_match 4050 ((pre @ [d1]) ! i) ((pre @ [d1]) ! Suc i)"
    using aud_pts_desc_found [of chan_example "(Some ?d, None)" "[?d, e]" 4050] chan_example_inv c by auto
  have "pre = []"
  proof (cases pre)
    case (Cons p ps)
    then have "ps = []" "p = ?d" "d1 = e" using r(2) by (cases ps; auto)+
    then show ?thesis using r(4) m(1) Cons by auto
  qed simp
  then have "d1 = ?d" "d2 = Some e" using r(2,3) by (auto split: option.splits)
  then show ?thesis using r(1,3) m(2) by auto
qed

end
