(* ===== verification/WMalloc.thy ===== *)
theory WMalloc
  imports MT_Base
begin

text \<open>
  The memory pool of the drawing engine driver, \<open>msp/drv/tde/wmalloc_k.c\<close>: four classes of
  fixed-size units, each with a free list whose links are 16-bit unit numbers stored in the
  first bytes of the free units. The model keeps the byte memory as a function from addresses,
  so the links, the clearing of a unit and the user's own writes share one memory. Addresses
  are natural numbers; \<open>MT_TDE_BUFFER\<close> (a build option), and the answers of \<open>MT_GFX_AllocMem\<close> and
  \<open>MT_GFX_Map\<close> are arguments. Usage statistics (\<open>MT_TDE_MEMCOUNT_SUPPORT\<close>) are off by default and
  left out, as are the traces. The contract of the pool is the locale \<open>unit_pool\<close>.
\<close>

section \<open>The pool contract\<close>

datatype ('n, 'u) pool_op = Alloc 'n | Free 'u

text \<open>Runs allocations and releases; a release of something the clients do not hold is skipped.
  Returns the final state, the units held and the units handed out, in order.\<close>

fun pool_run ::
  "('s \<Rightarrow> 'n \<Rightarrow> 's \<times> 'u option) \<Rightarrow> ('s \<Rightarrow> 'u \<Rightarrow> 's) \<Rightarrow> 's \<Rightarrow> 'u set \<Rightarrow> ('n, 'u) pool_op list
   \<Rightarrow> 's \<times> 'u set" where
  "pool_run al fr s held [] = (s, held)"
| "pool_run al fr s held (Alloc n # ops) =
     (case al s n of (s', None) \<Rightarrow> pool_run al fr s' held ops
      | (s', Some u) \<Rightarrow> pool_run al fr s' (insert u held) ops)"
| "pool_run al fr s held (Free u # ops) =
     (if u \<in> held then pool_run al fr (fr s u) (held - {u}) ops else pool_run al fr s held ops)"

locale unit_pool =
  fixes inv :: "'s \<Rightarrow> bool"
    and units :: "'s \<Rightarrow> 'u set"
    and avail :: "'s \<Rightarrow> 'u set"
    and al :: "'s \<Rightarrow> 'n \<Rightarrow> 's \<times> 'u option"
    and fr :: "'s \<Rightarrow> 'u \<Rightarrow> 's"
  assumes avail_units: "inv s \<Longrightarrow> avail s \<subseteq> units s"
    and al_none: "inv s \<Longrightarrow> al s n = (s', None) \<Longrightarrow> s' = s"
    and al_inv: "inv s \<Longrightarrow> al s n = (s', Some u) \<Longrightarrow> inv s'"
    and al_units: "inv s \<Longrightarrow> al s n = (s', Some u) \<Longrightarrow> units s' = units s"
    and al_avail: "inv s \<Longrightarrow> al s n = (s', Some u) \<Longrightarrow> u \<in> avail s \<and> avail s' = avail s - {u}"
    and fr_inv: "inv s \<Longrightarrow> u \<in> units s - avail s \<Longrightarrow> inv (fr s u)"
    and fr_units: "inv s \<Longrightarrow> u \<in> units s - avail s \<Longrightarrow> units (fr s u) = units s"
    and fr_avail: "inv s \<Longrightarrow> u \<in> units s - avail s \<Longrightarrow> avail (fr s u) = insert u (avail s)"
begin

text \<open>Clients that only release what they hold always hold exactly the units that are not
  available: nothing is handed out twice and nothing is lost.\<close>

lemma run_partition:
  assumes "inv s" "held = units s - avail s" "pool_run al fr s held ops = (s', held')"
  shows "inv s' \<and> units s' = units s \<and> held' = units s' - avail s'"
  using assms
proof (induction ops arbitrary: s held)
  case (Cons op ops)
  show ?case
  proof (cases op)
    case (Alloc n)
    obtain s1 r where a: "al s n = (s1, r)" by (cases "al s n")
    show ?thesis
    proof (cases r)
      case None
      then have "s1 = s" using al_none [OF Cons.prems(1)] a by simp
      then show ?thesis using Cons.IH [OF Cons.prems(1,2)] Cons.prems(3) Alloc a None by simp
    next
      case (Some u)
      note f = al_inv [OF Cons.prems(1) a [unfolded Some]] al_units [OF Cons.prems(1) a [unfolded Some]]
        al_avail [OF Cons.prems(1) a [unfolded Some]] avail_units [OF Cons.prems(1)]
      then have "insert u held = units s1 - avail s1" using Cons.prems(2) by auto
      then show ?thesis using Cons.IH [of s1 "insert u held"] Cons.prems(3) Alloc a Some f by simp
    qed
  next
    case (Free u)
    show ?thesis
    proof (cases "u \<in> held")
      case True
      then have u: "u \<in> units s - avail s" using Cons.prems(2) by simp
      note f = fr_inv [OF Cons.prems(1) u] fr_units [OF Cons.prems(1) u] fr_avail [OF Cons.prems(1) u]
      then have "held - {u} = units (fr s u) - avail (fr s u)" using Cons.prems(2) by auto
      then show ?thesis using Cons.IH [of "fr s u" "held - {u}"] Cons.prems(3) Free True f by simp
    next
      case False
      then show ?thesis using Cons.IH [OF Cons.prems(1,2)] Cons.prems(3) Free by simp
    qed
  qed
qed simp

end

section \<open>The memory blocks\<close>

datatype unit_size = UNIT_SIZE_CMD | UNIT_SIZE_JOB | UNIT_SIZE_NODE | UNIT_SIZE_FILTER

record mem_block =
  nSize :: nat
  nFree :: nat
  nFirst :: nat
  nUnitSize :: nat
  pStartAddr :: nat

record wpool =
  g_struMemBlock :: "unit_size \<Rightarrow> mem_block"
  wmem :: "nat \<Rightarrow> u8"
  g_u32MemPoolPhyAddr :: nat
  g_u32MemPoolVrtAddr :: nat
  g_u32TdeBuf :: nat

fun unit_bytes :: "unit_size \<Rightarrow> nat" where
  "unit_bytes UNIT_SIZE_CMD = 64"
| "unit_bytes UNIT_SIZE_JOB = 96"
| "unit_bytes UNIT_SIZE_NODE = 1536"
| "unit_bytes UNIT_SIZE_FILTER = 2048"

definition rd16 :: "(nat \<Rightarrow> u8) \<Rightarrow> nat \<Rightarrow> nat" where
  "rd16 m a = unat (m a) + 256 * unat (m (a + 1))"

definition wr16 :: "(nat \<Rightarrow> u8) \<Rightarrow> nat \<Rightarrow> nat \<Rightarrow> nat \<Rightarrow> u8" where
  "wr16 m a v = m(a := word_of_nat (v mod 256), a + 1 := word_of_nat (v div 256))"

definition memset0 :: "(nat \<Rightarrow> u8) \<Rightarrow> nat \<Rightarrow> nat \<Rightarrow> nat \<Rightarrow> u8" where
  "memset0 m a n = (\<lambda>x. if a \<le> x \<and> x < a + n then 0 else m x)"

text \<open>The loop that links the units; its counter is 16 bits wide.\<close>

partial_function (option) init_links ::
  "nat \<Rightarrow> nat \<Rightarrow> nat \<Rightarrow> nat \<Rightarrow> (nat \<Rightarrow> u8) \<Rightarrow> (nat \<Rightarrow> u8) option" where
  "init_links us n i pData m =
     (if i < n then init_links us n ((i + 1) mod 65536) (pData + us) (wr16 m pData i) else Some m)"

definition MemoryBlockInit ::
  "wpool \<Rightarrow> unit_size \<Rightarrow> nat \<Rightarrow> nat \<Rightarrow> (wpool \<times> mt_ret) option" where
  "MemoryBlockInit p eUnitSize nUnitNum pAddr =
     (if pAddr = 0 \<or> nUnitNum = 0 then Some (p, MT_FAILURE)
      else case init_links (unit_bytes eUnitSize) nUnitNum 1 pAddr (wmem p) of
        None \<Rightarrow> None
      | Some m \<Rightarrow>
          Some (p\<lparr>wmem := m, g_struMemBlock := (g_struMemBlock p)(eUnitSize :=
             \<lparr>nSize = u32_mul nUnitNum (unit_bytes eUnitSize), nFree = nUnitNum mod 65536, nFirst = 0,
              nUnitSize = unit_bytes eUnitSize, pStartAddr = pAddr\<rparr>)\<rparr>, MT_SUCCESS))"

definition mallocUnit :: "wpool \<Rightarrow> unit_size \<Rightarrow> wpool \<times> nat option" where
  "mallocUnit p eUnitSize =
     (let b = g_struMemBlock p eUnitSize in
      if nFree b = 0 then (p, None)
      else (let pFree = pStartAddr b + nFirst b * nUnitSize b
            in (p\<lparr>g_struMemBlock := (g_struMemBlock p)(eUnitSize :=
                    b\<lparr>nFirst := rd16 (wmem p) pFree, nFree := nFree b - 1\<rparr>),
                  wmem := memset0 (wmem p) pFree (nUnitSize b)\<rparr>, Some pFree)))"

text \<open>The loops of \<open>wmalloc\<close> over the classes from the smallest that fits.\<close>

fun try_units :: "wpool \<Rightarrow> unit_size list \<Rightarrow> wpool \<times> nat option" where
  "try_units p [] = (p, None)"
| "try_units p (u # us) =
     (case mallocUnit p u of (p', Some a) \<Rightarrow> (p', Some a) | (p', None) \<Rightarrow> try_units p' us)"

definition wmalloc :: "wpool \<Rightarrow> nat \<Rightarrow> wpool \<times> nat option" where
  "wmalloc p sz =
     (if sz > 2048 \<or> sz = 0 then (p, None)
      else if sz \<le> 64 then try_units p [UNIT_SIZE_CMD, UNIT_SIZE_JOB, UNIT_SIZE_NODE, UNIT_SIZE_FILTER]
      else if sz \<le> 96 then try_units p [UNIT_SIZE_JOB, UNIT_SIZE_NODE, UNIT_SIZE_FILTER]
      else if sz \<le> 1536 then try_units p [UNIT_SIZE_NODE, UNIT_SIZE_FILTER]
      else mallocUnit p UNIT_SIZE_FILTER)"

definition freeUnit :: "wpool \<Rightarrow> unit_size \<Rightarrow> nat \<Rightarrow> wpool \<times> mt_ret" where
  "freeUnit p eUnitSize ptr =
     (let b = g_struMemBlock p eUnitSize in
      if ptr < pStartAddr b \<or> ptr \<ge> pStartAddr b + nSize b then (p, MT_FAILURE)
      else (p\<lparr>g_struMemBlock := (g_struMemBlock p)(eUnitSize :=
                b\<lparr>nFree := (nFree b + 1) mod 65536,
                  nFirst := (ptr - pStartAddr b) div nUnitSize b mod 65536\<rparr>),
              wmem := wr16 (wmem p) ptr (nFirst b)\<rparr>, MT_SUCCESS))"

fun free_units :: "wpool \<Rightarrow> nat \<Rightarrow> unit_size list \<Rightarrow> wpool \<times> mt_ret" where
  "free_units p ptr [] = (p, MT_FAILURE)"
| "free_units p ptr (u # us) =
     (case freeUnit p u ptr of (p', MT_SUCCESS) \<Rightarrow> (p', MT_SUCCESS)
      | (p', MT_FAILURE) \<Rightarrow> free_units p' ptr us)"

definition wfree :: "wpool \<Rightarrow> nat \<Rightarrow> wpool \<times> mt_ret" where
  "wfree p ptr = free_units p ptr [UNIT_SIZE_CMD, UNIT_SIZE_JOB, UNIT_SIZE_NODE, UNIT_SIZE_FILTER]"

section \<open>The pool of the drawing engine\<close>

definition TDE_MIN_BUFFER :: nat where
  "TDE_MIN_BUFFER = 2048 * 2 + (64 + 1536 + 96) * 2"

definition TDE_MAX_BUFFER :: nat where
  "TDE_MAX_BUFFER = 1024 * 1024"

definition MT_TDE_CMD_NUM :: "nat \<Rightarrow> nat" where
  "MT_TDE_CMD_NUM tdeBuf = (tdeBuf - 2048 * 2) div (64 + 1536 + 96)"

definition TDE_JOB_OFFSET :: "nat \<Rightarrow> nat" where
  "TDE_JOB_OFFSET tdeBuf = MT_TDE_CMD_NUM tdeBuf * 64"

definition TDE_NODE_OFFSET :: "nat \<Rightarrow> nat" where
  "TDE_NODE_OFFSET tdeBuf = TDE_JOB_OFFSET tdeBuf + MT_TDE_CMD_NUM tdeBuf * 96"

definition TDE_FILTER_OFFSET :: "nat \<Rightarrow> nat" where
  "TDE_FILTER_OFFSET tdeBuf = TDE_NODE_OFFSET tdeBuf + MT_TDE_CMD_NUM tdeBuf * 1536"

definition TDE_MEMPOOL_SIZE :: "nat \<Rightarrow> nat" where
  "TDE_MEMPOOL_SIZE tdeBuf = MT_TDE_CMD_NUM tdeBuf * 64 + MT_TDE_CMD_NUM tdeBuf * 96
     + MT_TDE_CMD_NUM tdeBuf * 1536 + 2 * 2048"

definition tde_buf_clamp :: "nat \<Rightarrow> nat" where
  "tde_buf_clamp tde_buffer =
     (if tde_buffer > TDE_MAX_BUFFER then TDE_MAX_BUFFER
      else if tde_buffer < TDE_MIN_BUFFER then TDE_MIN_BUFFER else tde_buffer)"

text \<open>\<open>phy\<close> is the answer of \<open>MT_GFX_AllocMem\<close> (0: failure) and \<open>vrt\<close> the one of \<open>MT_GFX_Map\<close>.\<close>

definition wmeminit :: "nat \<Rightarrow> nat \<Rightarrow> nat \<Rightarrow> wpool \<Rightarrow> (wpool \<times> mt_ret) option" where
  "wmeminit tde_buffer phy vrt p =
     (let buf = tde_buf_clamp tde_buffer;
          p0 = p\<lparr>g_u32TdeBuf := buf, g_u32MemPoolPhyAddr := phy\<rparr> in
      if phy = 0 then Some (p0, MT_FAILURE)
      else
        Option.bind (MemoryBlockInit (p0\<lparr>g_u32MemPoolVrtAddr := vrt\<rparr>) UNIT_SIZE_CMD
          (MT_TDE_CMD_NUM buf) vrt) (\<lambda>(p1, _).
        Option.bind (MemoryBlockInit p1 UNIT_SIZE_JOB (MT_TDE_CMD_NUM buf) (vrt + TDE_JOB_OFFSET buf)) (\<lambda>(p2, _).
        Option.bind (MemoryBlockInit p2 UNIT_SIZE_NODE (MT_TDE_CMD_NUM buf) (vrt + TDE_NODE_OFFSET buf)) (\<lambda>(p3, _).
        Option.bind (MemoryBlockInit p3 UNIT_SIZE_FILTER 2 (vrt + TDE_FILTER_OFFSET buf)) (\<lambda>(p4, _).
        Some (p4, MT_SUCCESS))))))"

definition wmemterm :: "wpool \<Rightarrow> wpool" where
  "wmemterm p = p\<lparr>g_u32MemPoolPhyAddr := 0, g_u32MemPoolVrtAddr := 0\<rparr>"

definition wgetphy :: "wpool \<Rightarrow> nat \<Rightarrow> nat" where
  "wgetphy p ptr =
     (if ptr < g_u32MemPoolVrtAddr p
         \<or> ptr \<ge> g_u32MemPoolVrtAddr p + TDE_MEMPOOL_SIZE (g_u32TdeBuf p)
      then 0 else g_u32MemPoolPhyAddr p + (ptr - g_u32MemPoolVrtAddr p))"

definition wgetvrt :: "wpool \<Rightarrow> nat \<Rightarrow> nat" where
  "wgetvrt p phyaddr =
     (if phyaddr < g_u32MemPoolPhyAddr p
         \<or> phyaddr \<ge> g_u32MemPoolPhyAddr p + TDE_MEMPOOL_SIZE (g_u32TdeBuf p)
      then 0 else g_u32MemPoolVrtAddr p + (phyaddr - g_u32MemPoolPhyAddr p))"

definition wgetfreenum :: "wpool \<Rightarrow> nat" where
  "wgetfreenum p = fold (\<lambda>u n. if n > nFree (g_struMemBlock p u) then nFree (g_struMemBlock p u) else n)
     [UNIT_SIZE_CMD, UNIT_SIZE_JOB, UNIT_SIZE_NODE] (nFree (g_struMemBlock p UNIT_SIZE_CMD))"

section \<open>Free lists\<close>

lemma rd16_wr16 [simp]: "v < 65536 \<Longrightarrow> rd16 (wr16 m a v) a = v"
  by (simp add: rd16_def wr16_def unat_of_nat)

text \<open>Two memories agree outside a range.\<close>

definition agree_out :: "(nat \<Rightarrow> u8) \<Rightarrow> (nat \<Rightarrow> u8) \<Rightarrow> nat \<Rightarrow> nat \<Rightarrow> bool" where
  "agree_out m m' a n \<longleftrightarrow> (\<forall>x. x < a \<or> a + n \<le> x \<longrightarrow> m' x = m x)"

lemma agree_memset0: "agree_out m (memset0 m a n) a n"
  by (auto simp: agree_out_def memset0_def)

lemma agree_wr16: "2 \<le> n \<Longrightarrow> agree_out m (wr16 m a v) a n"
  by (auto simp: agree_out_def wr16_def)

lemma rd16_agree: "agree_out m m' a n \<Longrightarrow> x + 1 < a \<or> a + n \<le> x \<Longrightarrow> rd16 m' x = rd16 m x"
  by (auto simp: agree_out_def rd16_def)

text \<open>The free list: the numbers of the free units in the order they will be handed out.\<close>

fun chain :: "(nat \<Rightarrow> u8) \<Rightarrow> nat \<Rightarrow> nat \<Rightarrow> nat \<Rightarrow> nat \<Rightarrow> nat list" where
  "chain m st us f 0 = []"
| "chain m st us f (Suc n) = f # chain m st us (rd16 m (st + f * us)) n"

definition block_chain :: "(nat \<Rightarrow> u8) \<Rightarrow> mem_block \<Rightarrow> nat list" where
  "block_chain m b = chain m (pStartAddr b) (nUnitSize b) (nFirst b) (nFree b)"

definition block_units :: "mem_block \<Rightarrow> nat" where
  "block_units b = nSize b div nUnitSize b"

definition unit_addr :: "mem_block \<Rightarrow> nat \<Rightarrow> nat" where
  "unit_addr b k = pStartAddr b + k * nUnitSize b"

definition block_ok :: "(nat \<Rightarrow> u8) \<Rightarrow> unit_size \<Rightarrow> mem_block \<Rightarrow> bool" where
  "block_ok m u b \<longleftrightarrow> nUnitSize b = unit_bytes u \<and> nSize b = block_units b * nUnitSize b
     \<and> block_units b < 65536 \<and> distinct (block_chain m b) \<and> (\<forall>k \<in> set (block_chain m b). k < block_units b)"

definition ranges_disjoint :: "mem_block \<Rightarrow> mem_block \<Rightarrow> bool" where
  "ranges_disjoint b c \<longleftrightarrow> pStartAddr b + nSize b \<le> pStartAddr c \<or> pStartAddr c + nSize c \<le> pStartAddr b"

definition pool_inv :: "wpool \<Rightarrow> bool" where
  "pool_inv p \<longleftrightarrow> (\<forall>u. block_ok (wmem p) u (g_struMemBlock p u))
     \<and> (\<forall>u v. u \<noteq> v \<longrightarrow> ranges_disjoint (g_struMemBlock p u) (g_struMemBlock p v))"

definition pool_units :: "wpool \<Rightarrow> nat set" where
  "pool_units p = (\<Union>u. unit_addr (g_struMemBlock p u) ` {..<block_units (g_struMemBlock p u)})"

definition pool_avail :: "wpool \<Rightarrow> nat set" where
  "pool_avail p = (\<Union>u. unit_addr (g_struMemBlock p u) ` set (block_chain (wmem p) (g_struMemBlock p u)))"

lemma unit_bytes_pos [simp]: "2 \<le> unit_bytes u" "0 < unit_bytes u"
  by (cases u; simp)+

lemma length_chain [simp]: "length (chain m st us f n) = n"
  by (induction n arbitrary: f) auto

lemma chain_cong:
  "(\<And>k. k \<in> set (chain m st us f n) \<Longrightarrow> rd16 m' (st + k * us) = rd16 m (st + k * us)) \<Longrightarrow>
   chain m' st us f n = chain m st us f n"
  by (induction n arbitrary: f) auto

lemma unit_separate:
  fixes st us :: nat
  assumes "j \<noteq> k" "2 \<le> us"
  shows "st + j * us + 1 < st + k * us \<or> st + k * us + us \<le> st + j * us"
proof (cases "j < k")
  case True
  then have "Suc j * us \<le> k * us" by (intro mult_le_mono1) simp
  then show ?thesis using assms(2) by simp
next
  case False
  then have "Suc k * us \<le> j * us" using assms(1) by (intro mult_le_mono1) simp
  then show ?thesis by simp
qed

lemma unit_inside:
  assumes "nSize b = block_units b * nUnitSize b" "k < block_units b"
  shows "unit_addr b k + nUnitSize b \<le> pStartAddr b + nSize b"
proof -
  have "Suc k * nUnitSize b \<le> block_units b * nUnitSize b" using assms(2) by (intro mult_le_mono1) simp
  then show ?thesis using assms(1) by (simp add: unit_addr_def)
qed

lemma unit_addr_inj: "0 < nUnitSize b \<Longrightarrow> unit_addr b j = unit_addr b k \<longleftrightarrow> j = k"
  by (simp add: unit_addr_def)

text \<open>A write inside unit \<open>k\<close> of a block leaves every free list alone that does not pass through
  that unit.\<close>

lemma chain_same_block:
  assumes "agree_out m m' (st + k * us) us" "2 \<le> us" "k \<notin> set (chain m st us f n)"
  shows "chain m' st us f n = chain m st us f n"
proof (rule chain_cong)
  fix j assume "j \<in> set (chain m st us f n)"
  then have "j \<noteq> k" using assms(3) by auto
  then show "rd16 m' (st + j * us) = rd16 m (st + j * us)"
    using rd16_agree [OF assms(1)] unit_separate [of j k us st] assms(2) by simp
qed

lemma chain_other_block:
  assumes "agree_out m m' (unit_addr b k) (nUnitSize b)" "nSize b = block_units b * nUnitSize b"
    and "k < block_units b" "ranges_disjoint b c" "block_ok m v c"
  shows "block_chain m' c = block_chain m c"
  unfolding block_chain_def
proof (rule chain_cong)
  fix j assume "j \<in> set (chain m (pStartAddr c) (nUnitSize c) (nFirst c) (nFree c))"
  then have "j < block_units c" "nSize c = block_units c * nUnitSize c" "2 \<le> nUnitSize c"
    using assms(5) by (auto simp: block_ok_def block_chain_def)
  then have "unit_addr c j + 2 \<le> pStartAddr c + nSize c"
    using unit_inside [of c j] by simp
  moreover have "unit_addr b k + nUnitSize b \<le> pStartAddr b + nSize b"
    using unit_inside [OF assms(2,3)] .
  moreover have "pStartAddr c \<le> unit_addr c j" "pStartAddr b \<le> unit_addr b k"
    by (simp_all add: unit_addr_def)
  ultimately have "unit_addr c j + 1 < unit_addr b k \<or> unit_addr b k + nUnitSize b \<le> unit_addr c j"
    using assms(4) unfolding ranges_disjoint_def by linarith
  then show "rd16 m' (pStartAddr c + j * nUnitSize c) = rd16 m (pStartAddr c + j * nUnitSize c)"
    using rd16_agree [OF assms(1)] by (simp add: unit_addr_def)
qed

text \<open>Replacing one block and writing inside one of its units keeps the pool well-formed when the
  block itself stays so.\<close>

lemma pool_update:
  assumes "pool_inv p" "b = g_struMemBlock p u" "k < block_units b"
    and "agree_out (wmem p) m' (unit_addr b k) (nUnitSize b)"
    and "block_ok m' u b'" "nSize b' = nSize b" "nUnitSize b' = nUnitSize b" "pStartAddr b' = pStartAddr b"
    and "p' = p\<lparr>g_struMemBlock := (g_struMemBlock p)(u := b'), wmem := m'\<rparr>"
  shows "pool_inv p'" "pool_units p' = pool_units p"
    and "v \<noteq> u \<Longrightarrow> block_chain m' (g_struMemBlock p v) = block_chain (wmem p) (g_struMemBlock p v)"
proof -
  have okv: "block_ok (wmem p) v (g_struMemBlock p v)" for v using assms(1) by (simp add: pool_inv_def)
  have dis: "v \<noteq> w \<Longrightarrow> ranges_disjoint (g_struMemBlock p v) (g_struMemBlock p w)" for v w
    using assms(1) by (simp add: pool_inv_def)
  have ch: "block_chain m' (g_struMemBlock p v) = block_chain (wmem p) (g_struMemBlock p v)"
    if "v \<noteq> u" for v
    using chain_other_block [OF assms(4) _ assms(3) dis [of u v, folded assms(2)] okv] that
      okv [of u, folded assms(2)] by (simp add: block_ok_def)
  then show "v \<noteq> u \<Longrightarrow> block_chain m' (g_struMemBlock p v) = block_chain (wmem p) (g_struMemBlock p v)" .
  have bu: "block_units b' = block_units b" "unit_addr b' = unit_addr b"
    using assms(6-8) by (simp_all add: block_units_def unit_addr_def fun_eq_iff)
  have "block_ok m' v (g_struMemBlock p v)" if "v \<noteq> u" for v
    using okv [of v] ch [OF that] by (simp add: block_ok_def)
  moreover have "v \<noteq> w \<Longrightarrow> ranges_disjoint (g_struMemBlock p' v) (g_struMemBlock p' w)" for v w
    using dis [of v w] assms(2,6-9) by (auto simp: ranges_disjoint_def)
  ultimately show "pool_inv p'"
    using assms(5,9) by (auto simp: pool_inv_def)
  show "pool_units p' = pool_units p"
    unfolding pool_units_def using bu assms(2,9) by (intro SUP_cong) auto
qed

section \<open>Allocation and release\<close>

abbreviation blk :: "wpool \<Rightarrow> unit_size \<Rightarrow> mem_block" where
  "blk p u \<equiv> g_struMemBlock p u"

lemma pool_block: "pool_inv p \<Longrightarrow> block_ok (wmem p) u (blk p u)"
  by (simp add: pool_inv_def)

lemma block_unit_size:
  assumes "block_ok m u b"
  shows "nUnitSize b = unit_bytes u" "nSize b = block_units b * nUnitSize b" "2 \<le> nUnitSize b"
  using assms by (auto simp: block_ok_def)

lemma addr_in_range:
  assumes "pool_inv p" "k < block_units (blk p u)"
  shows "pStartAddr (blk p u) \<le> unit_addr (blk p u) k"
    and "unit_addr (blk p u) k + nUnitSize (blk p u) \<le> pStartAddr (blk p u) + nSize (blk p u)"
    and "0 < nUnitSize (blk p u)"
  using unit_inside [OF block_unit_size(2) [OF pool_block [OF assms(1)]] assms(2)]
    block_unit_size(3) [OF pool_block [OF assms(1)], of u] by (auto simp: unit_addr_def)

lemma addr_not_in_other:
  assumes "pool_inv p" "k < block_units (blk p u)" "v \<noteq> u"
  shows "unit_addr (blk p u) k < pStartAddr (blk p v)
    \<or> pStartAddr (blk p v) + nSize (blk p v) \<le> unit_addr (blk p u) k"
proof -
  have "ranges_disjoint (blk p u) (blk p v)" using assms by (simp add: pool_inv_def)
  then show ?thesis
    using addr_in_range [OF assms(1,2)] unfolding ranges_disjoint_def by linarith
qed

lemma addr_unique:
  assumes "pool_inv p" "k < block_units (blk p u)" "j < block_units (blk p v)"
    and "unit_addr (blk p u) k = unit_addr (blk p v) j"
  shows "v = u \<and> j = k"
proof (cases "v = u")
  case True
  then show ?thesis using assms addr_in_range(3) [OF assms(1,2)] by (simp add: unit_addr_inj)
next
  case False
  then show ?thesis
    using addr_not_in_other [OF assms(1,2) False] addr_in_range [OF assms(1,3)] assms(4) by linarith
qed

lemma chain_index:
  "pool_inv p \<Longrightarrow> j \<in> set (block_chain (wmem p) (blk p v)) \<Longrightarrow> j < block_units (blk p v)"
  using pool_block [of p v] by (simp add: block_ok_def)

lemma addr_avail_iff:
  assumes "pool_inv p" "k < block_units (blk p u)"
  shows "unit_addr (blk p u) k \<in> pool_avail p \<longleftrightarrow> k \<in> set (block_chain (wmem p) (blk p u))"
  using addr_unique [OF assms] chain_index [OF assms(1)] by (auto simp: pool_avail_def)

text \<open>The address \<open>a\<close> handed out by \<open>mallocUnit\<close> and the pool it leaves.\<close>

lemma mallocUnit_spec:
  assumes "pool_inv p" "nFree (blk p u) \<noteq> 0"
  obtains p' k where "mallocUnit p u = (p', Some (unit_addr (blk p u) k))"
    "block_chain (wmem p) (blk p u) = k # block_chain (wmem p') (blk p' u)" "k < block_units (blk p u)"
    "pool_inv p'" "pool_units p' = pool_units p"
    "pool_avail p' = pool_avail p - {unit_addr (blk p u) k}"
    "wmem p' = memset0 (wmem p) (unit_addr (blk p u) k) (unit_bytes u)"
    "\<And>v. v \<noteq> u \<Longrightarrow> blk p' v = blk p v"
proof -
  let ?b = "blk p u" and ?k = "nFirst (blk p u)"
  let ?a = "unit_addr ?b ?k"
  let ?m = "memset0 (wmem p) ?a (nUnitSize ?b)"
  let ?b' = "?b\<lparr>nFirst := rd16 (wmem p) ?a, nFree := nFree ?b - 1\<rparr>"
  let ?p = "p\<lparr>g_struMemBlock := (g_struMemBlock p)(u := ?b'), wmem := ?m\<rparr>"
  note ok = pool_block [OF assms(1), of u]
  obtain n where n: "nFree ?b = Suc n" using assms(2) not0_implies_Suc by blast
  have old: "block_chain (wmem p) ?b = ?k # chain (wmem p) (pStartAddr ?b) (nUnitSize ?b) (rd16 (wmem p) ?a) n"
    by (simp add: block_chain_def n unit_addr_def)
  have kin: "?k < block_units ?b" using chain_index [OF assms(1), of ?k u] old by simp
  have "distinct (block_chain (wmem p) ?b)" using ok unfolding block_ok_def by blast
  then have notin: "?k \<notin> set (chain (wmem p) (pStartAddr ?b) (nUnitSize ?b) (rd16 (wmem p) ?a) n)"
    unfolding old by simp
  have new: "block_chain ?m ?b' = chain (wmem p) (pStartAddr ?b) (nUnitSize ?b) (rd16 (wmem p) ?a) n"
    using chain_same_block [OF _ block_unit_size(3) [OF ok] notin, of ?m] agree_memset0
    by (simp add: block_chain_def n unit_addr_def)
  have bu: "block_units ?b' = block_units ?b" by (simp add: block_units_def)
  have ok': "block_ok ?m u ?b'"
    using ok unfolding block_ok_def old new bu by (elim conjE) simp
  note up = pool_update [OF assms(1) refl kin agree_memset0 ok' _ _ _ refl]
  have avail: "pool_avail ?p = pool_avail p - {?a}"
  proof -
    have "x \<in> pool_avail ?p \<longleftrightarrow> x \<in> pool_avail p \<and> x \<noteq> ?a" for x
    proof
      assume "x \<in> pool_avail ?p"
      then obtain v j where v: "x = unit_addr (blk ?p v) j" "j \<in> set (block_chain ?m (blk ?p v))"
        by (auto simp: pool_avail_def)
      have "x = unit_addr (blk p v) j" "j \<in> set (block_chain (wmem p) (blk p v))" "v = u \<longrightarrow> j \<noteq> ?k"
        using v up(3) new old notin by (cases "v = u"; auto simp: unit_addr_def)+
      then show "x \<in> pool_avail p \<and> x \<noteq> ?a"
        using addr_unique [OF assms(1) kin, of j v] chain_index [OF assms(1)] by (auto simp: pool_avail_def)
    next
      assume x: "x \<in> pool_avail p \<and> x \<noteq> ?a"
      then obtain v j where v: "x = unit_addr (blk p v) j" "j \<in> set (block_chain (wmem p) (blk p v))"
        by (auto simp: pool_avail_def)
      have "x = unit_addr (blk ?p v) j" "j \<in> set (block_chain ?m (blk ?p v))"
        using v x up(3) new old by (cases "v = u"; auto simp: unit_addr_def)+
      then show "x \<in> pool_avail ?p" by (auto simp: pool_avail_def)
    qed
    then show ?thesis by auto
  qed
  show thesis
  proof (rule that [of ?p ?k])
    show "mallocUnit p u = (?p, Some ?a)"
      using assms(2) by (simp add: mallocUnit_def Let_def unit_addr_def)
    show "block_chain (wmem p) ?b = ?k # block_chain (wmem ?p) (blk ?p u)" using old new by simp
    show "wmem ?p = memset0 (wmem p) ?a (unit_bytes u)" using block_unit_size(1) [OF ok] by simp
  qed (use kin up(1,2) avail in simp_all)
qed

lemma mallocUnit_none: "nFree (blk p u) = 0 \<Longrightarrow> mallocUnit p u = (p, None)"
  by (simp add: mallocUnit_def)

lemma freeUnit_spec:
  assumes "pool_inv p" "k < block_units (blk p u)" "k \<notin> set (block_chain (wmem p) (blk p u))"
  obtains p' where "freeUnit p u (unit_addr (blk p u) k) = (p', MT_SUCCESS)"
    "block_chain (wmem p') (blk p' u) = k # block_chain (wmem p) (blk p u)"
    "pool_inv p'" "pool_units p' = pool_units p"
    "pool_avail p' = insert (unit_addr (blk p u) k) (pool_avail p)"
proof -
  let ?b = "blk p u"
  let ?a = "unit_addr ?b k"
  let ?m = "wr16 (wmem p) ?a (nFirst ?b)"
  let ?b' = "?b\<lparr>nFree := nFree ?b + 1, nFirst := k\<rparr>"
  let ?p = "p\<lparr>g_struMemBlock := (g_struMemBlock p)(u := ?b'), wmem := ?m\<rparr>"
  note ok = pool_block [OF assms(1), of u] and us = block_unit_size(3) [OF pool_block [OF assms(1), of u]]
  have agree: "agree_out (wmem p) ?m ?a (nUnitSize ?b)" by (rule agree_wr16 [OF us])
  have "nFree ?b = card (set (block_chain (wmem p) ?b))"
    using ok by (simp add: block_ok_def distinct_card) (simp add: block_chain_def)
  also have "\<dots> \<le> card ({..<block_units ?b} - {k})"
    using chain_index [OF assms(1)] assms(3) by (intro card_mono) auto
  also have "\<dots> < block_units ?b" using assms(2) by simp
  finally have cnt: "nFree ?b + 1 < 65536" "k < 65536" using ok assms(2) by (auto simp: block_ok_def)
  have tail: "chain ?m (pStartAddr ?b) (nUnitSize ?b) (nFirst ?b) (nFree ?b) = block_chain (wmem p) ?b"
    using chain_same_block [OF _ us, of "wmem p" ?m "pStartAddr ?b" k] agree assms(3)
    by (simp add: block_chain_def unit_addr_def)
  have new: "block_chain ?m ?b' = k # block_chain (wmem p) ?b"
  proof (cases "nFree ?b")
    case 0
    then show ?thesis by (simp add: block_chain_def)
  next
    case (Suc n)
    then have "nFirst ?b < block_units ?b"
      using chain_index [OF assms(1), of "nFirst ?b" u] by (simp add: block_chain_def)
    then have "rd16 ?m ?a = nFirst ?b" using ok by (simp add: block_ok_def)
    then show ?thesis using tail by (simp add: block_chain_def unit_addr_def)
  qed
  have ok': "block_ok ?m u ?b'"
    using ok new assms(2,3) by (auto simp: block_ok_def block_units_def)
  note up = pool_update [OF assms(1) refl assms(2) agree ok' _ _ _ refl]
  have "pool_avail ?p = insert ?a (pool_avail p)"
  proof -
    have "unit_addr (blk ?p v) ` set (block_chain ?m (blk ?p v)) =
        unit_addr (blk p v) ` set (block_chain (wmem p) (blk p v)) \<union> (if v = u then {?a} else {})" for v
      using up(3) new by (cases "v = u") (auto simp: unit_addr_def)
    then show ?thesis unfolding pool_avail_def by (auto split: if_splits)
  qed
  moreover have "freeUnit p u ?a = (?p, MT_SUCCESS)"
  proof -
    have "(?a - pStartAddr ?b) div nUnitSize ?b = k" using us by (simp add: unit_addr_def)
    then show ?thesis
      using addr_in_range [OF assms(1,2)] cnt by (simp add: freeUnit_def Let_def)
  qed
  ultimately show thesis
    using that [of ?p] new up(1,2) by simp
qed

lemma freeUnit_other:
  "pool_inv p \<Longrightarrow> k < block_units (blk p u) \<Longrightarrow> v \<noteq> u \<Longrightarrow>
   freeUnit p v (unit_addr (blk p u) k) = (p, MT_FAILURE)"
  using addr_not_in_other [of p k u v] by (auto simp: freeUnit_def Let_def)

lemma wfree_eq:
  assumes "pool_inv p" "k < block_units (blk p u)" "k \<notin> set (block_chain (wmem p) (blk p u))"
  shows "wfree p (unit_addr (blk p u) k) = freeUnit p u (unit_addr (blk p u) k)"
proof -
  note other = freeUnit_other [OF assms(1,2)]
  obtain p' where "freeUnit p u (unit_addr (blk p u) k) = (p', MT_SUCCESS)"
    using freeUnit_spec [OF assms] by metis
  then show ?thesis using other by (cases u) (simp_all add: wfree_def)
qed

section \<open>The pool as a unit pool\<close>

text \<open>The classes that \<open>wmalloc\<close> tries for a size, smallest first.\<close>

definition fitting :: "nat \<Rightarrow> unit_size list" where
  "fitting sz = (if sz > 2048 \<or> sz = 0 then [] else filter (\<lambda>u. sz \<le> unit_bytes u)
     [UNIT_SIZE_CMD, UNIT_SIZE_JOB, UNIT_SIZE_NODE, UNIT_SIZE_FILTER])"

lemma wmalloc_fitting: "wmalloc p sz = try_units p (fitting sz)"
  by (auto simp: wmalloc_def fitting_def split: option.splits prod.splits)

lemma fitting_size: "u \<in> set (fitting sz) \<Longrightarrow> sz \<le> unit_bytes u"
  by (auto simp: fitting_def split: if_splits)

lemma try_units_cases:
  assumes "pool_inv p"
  obtains (none) "\<forall>u \<in> set us. nFree (blk p u) = 0" "try_units p us = (p, None)"
    | (some) u where "u \<in> set us" "nFree (blk p u) \<noteq> 0" "try_units p us = mallocUnit p u"
proof (induction us)
  case Nil
  then show ?case by simp
next
  case (Cons v us)
  show ?case
  proof (cases "nFree (blk p v) = 0")
    case True
    then have "mallocUnit p v = (p, None)" by (rule mallocUnit_none)
    then show ?thesis using Cons True by auto
  next
    case False
    then obtain p' a where "mallocUnit p v = (p', Some a)" using mallocUnit_spec [OF assms] by metis
    then show ?thesis using Cons.prems(2) [of v] False by simp
  qed
qed

definition pool_free :: "wpool \<Rightarrow> nat \<Rightarrow> wpool" where
  "pool_free p a = fst (wfree p a)"

lemma wmalloc_some:
  assumes "pool_inv p" "wmalloc p sz = (p', Some a)"
  obtains u k where "u \<in> set (fitting sz)" "a = unit_addr (blk p u) k" "k < block_units (blk p u)"
    "block_chain (wmem p) (blk p u) = k # block_chain (wmem p') (blk p' u)"
    "pool_inv p'" "pool_units p' = pool_units p" "pool_avail p' = pool_avail p - {a}"
    "wmem p' = memset0 (wmem p) a (unit_bytes u)"
proof (cases rule: try_units_cases [OF assms(1), of "fitting sz"])
  case 1
  then show ?thesis using assms(2) by (simp add: wmalloc_fitting)
next
  case (2 u)
  have m: "mallocUnit p u = (p', Some a)" using 2(3) assms(2) by (simp add: wmalloc_fitting)
  show ?thesis
  proof (rule mallocUnit_spec [OF assms(1) 2(2)])
    fix p1 k assume q: "mallocUnit p u = (p1, Some (unit_addr (blk p u) k))"
      "block_chain (wmem p) (blk p u) = k # block_chain (wmem p1) (blk p1 u)" "k < block_units (blk p u)"
      "pool_inv p1" "pool_units p1 = pool_units p" "pool_avail p1 = pool_avail p - {unit_addr (blk p u) k}"
      "wmem p1 = memset0 (wmem p) (unit_addr (blk p u) k) (unit_bytes u)"
    then have "p1 = p'" "a = unit_addr (blk p u) k" using m by simp_all
    then show ?thesis using that [of u k] 2(1) q by simp
  qed
qed

lemma unit_cases:
  assumes "pool_inv p" "a \<in> pool_units p - pool_avail p"
  obtains u k where "a = unit_addr (blk p u) k" "k < block_units (blk p u)"
    "k \<notin> set (block_chain (wmem p) (blk p u))"
  using assms addr_avail_iff [OF assms(1)] by (auto simp: pool_units_def)

lemma wfree_spec:
  assumes "pool_inv p" "a \<in> pool_units p - pool_avail p"
  obtains p' where "wfree p a = (p', MT_SUCCESS)" "pool_inv p'" "pool_units p' = pool_units p"
    "pool_avail p' = insert a (pool_avail p)"
proof (rule unit_cases [OF assms])
  fix u k assume k: "a = unit_addr (blk p u) k" "k < block_units (blk p u)"
    "k \<notin> set (block_chain (wmem p) (blk p u))"
  show thesis
    using freeUnit_spec [OF assms(1) k(2,3)] wfree_eq [OF assms(1) k(2,3)] k(1) that by metis
qed

interpretation wp: unit_pool pool_inv pool_units pool_avail wmalloc pool_free
proof (unfold_locales, goal_cases)
  case (1 s)
  then show ?case using chain_index [of s] by (auto simp: pool_avail_def pool_units_def)
next
  case (2 s n s')
  show ?case
  proof (cases rule: try_units_cases [OF 2(1), of "fitting n"])
    case 1
    then show ?thesis using 2(2) by (simp add: wmalloc_fitting)
  next
    case (2 u)
    then have "mallocUnit s u = (s', None)" using \<open>wmalloc s n = (s', None)\<close> by (simp add: wmalloc_fitting)
    then show ?thesis using 2(2) by (simp add: mallocUnit_def Let_def)
  qed
next
  case (3 s n s' u)
  show ?case by (rule wmalloc_some [OF 3])
next
  case (4 s n s' u)
  show ?case by (rule wmalloc_some [OF 4])
next
  case (5 s n s' u)
  show ?case
  proof (rule wmalloc_some [OF 5])
    fix v k assume "u = unit_addr (blk s v) k"
      "block_chain (wmem s) (blk s v) = k # block_chain (wmem s') (blk s' v)"
      "pool_avail s' = pool_avail s - {u}"
    moreover have "unit_addr (blk s v) k \<in> pool_avail s"
      using calculation(2) unfolding pool_avail_def by force
    ultimately show ?thesis by simp
  qed
next
  case (6 s u)
  then show ?case using wfree_spec [of s u] by (metis fst_conv pool_free_def)
next
  case (7 s u)
  then show ?case using wfree_spec [of s u] by (metis fst_conv pool_free_def)
next
  case (8 s u)
  then show ?case using wfree_spec [of s u] by (metis fst_conv pool_free_def)
qed

section \<open>Initialisation\<close>

lemma init_links_spec:
  assumes "0 < i" "i \<le> n" "n < 65536" "2 \<le> us" "pData = st + (i - 1) * us"
  shows "\<exists>m'. init_links us n i pData m = Some m'
    \<and> (\<forall>j. i \<le> Suc j \<and> Suc j < n \<longrightarrow> rd16 m' (st + j * us) = Suc j)
    \<and> agree_out m m' pData ((n - i) * us)"
  using assms(1,2,5)
proof (induction "n - i" arbitrary: i pData m)
  case 0
  then show ?case by (subst init_links.simps) (auto simp: agree_out_def)
next
  case (Suc d)
  then have i: "i < n" "(i + 1) mod 65536 = Suc i" using assms(3) by auto
  let ?m = "wr16 m pData i"
  have p: "pData + us = st + (Suc i - 1) * us" using Suc.prems by (cases i) auto
  obtain m' where m': "init_links us n (Suc i) (pData + us) ?m = Some m'"
    "\<forall>j. Suc i \<le> Suc j \<and> Suc j < n \<longrightarrow> rd16 m' (st + j * us) = Suc j"
    "agree_out ?m m' (pData + us) ((n - Suc i) * us)"
  proof -
    have "d = n - Suc i" using Suc.hyps(2) by simp
    from Suc.hyps(1) [OF this _ _ p, of ?m] show thesis using i that by auto
  qed
  have "rd16 m' pData = i"
    using rd16_agree [OF m'(3), of pData] assms(3,4) i by simp
  then have "rd16 m' (st + j * us) = Suc j" if "i \<le> Suc j" "Suc j < n" for j
    using that m'(2) Suc.prems by (cases "i = Suc j") auto
  moreover have "agree_out m m' pData ((n - i) * us)"
  proof -
    have "(n - i) * us = us + (n - Suc i) * us" using i by (simp add: Suc_diff_Suc [symmetric] flip: mult_Suc)
    then show ?thesis
      using m'(3) agree_wr16 [OF assms(4), of m pData i] by (auto simp: agree_out_def)
  qed
  ultimately show ?case
    using m'(1) i by (subst init_links.simps) auto
qed

lemma chain_init:
  assumes "\<forall>j. Suc j < n \<longrightarrow> rd16 m (st + j * us) = Suc j" "i + c \<le> n"
  shows "chain m st us i c = [i..<i + c]"
  using assms(2)
proof (induction c arbitrary: i)
  case (Suc c)
  show ?case
  proof (cases c)
    case 0
    then show ?thesis by simp
  next
    case (Suc c')
    then have "rd16 m (st + i * us) = Suc i" using assms(1) Suc.prems by simp
    then show ?thesis using Suc.IH [of "Suc i"] Suc.prems by (simp add: upt_conv_Cons)
  qed
qed simp

lemma MemoryBlockInit_spec:
  assumes "0 < pAddr" "0 < n" "n < 65536"
  obtains p' where "MemoryBlockInit p u n pAddr = Some (p', MT_SUCCESS)"
    "blk p' u = \<lparr>nSize = n * unit_bytes u, nFree = n, nFirst = 0, nUnitSize = unit_bytes u, pStartAddr = pAddr\<rparr>"
    "\<And>v. v \<noteq> u \<Longrightarrow> blk p' v = blk p v" "block_chain (wmem p') (blk p' u) = [0..<n]"
    "agree_out (wmem p) (wmem p') pAddr (n * unit_bytes u)"
    "g_u32MemPoolPhyAddr p' = g_u32MemPoolPhyAddr p" "g_u32MemPoolVrtAddr p' = g_u32MemPoolVrtAddr p"
    "g_u32TdeBuf p' = g_u32TdeBuf p"
proof -
  obtain m where m: "init_links (unit_bytes u) n 1 pAddr (wmem p) = Some m"
    "\<forall>j. 1 \<le> Suc j \<and> Suc j < n \<longrightarrow> rd16 m (pAddr + j * unit_bytes u) = Suc j"
    "agree_out (wmem p) m pAddr ((n - 1) * unit_bytes u)"
    using init_links_spec [of 1 n "unit_bytes u" pAddr pAddr "wmem p"] assms by auto
  let ?b = "\<lparr>nSize = n * unit_bytes u, nFree = n, nFirst = 0, nUnitSize = unit_bytes u, pStartAddr = pAddr\<rparr>"
  have "n * unit_bytes u \<le> 65535 * 2048" using assms(3) by (intro mult_le_mono) (cases u; simp)+
  then have mul: "u32_mul n (unit_bytes u) = n * unit_bytes u" by (simp add: u32_mul_small)
  have "chain m pAddr (unit_bytes u) 0 n = [0..<n]" using chain_init [of n m] m(2) by simp
  moreover have "agree_out (wmem p) m pAddr (n * unit_bytes u)"
  proof -
    have "(n - 1) * unit_bytes u \<le> n * unit_bytes u" by (intro mult_le_mono1) simp
    then have "pAddr + (n - 1) * unit_bytes u \<le> x" if "pAddr + n * unit_bytes u \<le> x" for x
      using that by linarith
    then show ?thesis using m(3) unfolding agree_out_def by blast
  qed
  ultimately show thesis
    using that [of "p\<lparr>wmem := m, g_struMemBlock := (g_struMemBlock p)(u := ?b)\<rparr>"] assms m(1) mul
    by (simp add: MemoryBlockInit_def block_chain_def)
qed

text \<open>A free list is not changed by writes outside its block.\<close>

lemma chain_outside:
  assumes "agree_out m m' a len" "nUnitSize c = unit_bytes u" "nSize c = n * unit_bytes u"
    and "block_chain m c = [0..<n]" "pStartAddr c + nSize c \<le> a \<or> a + len \<le> pStartAddr c"
  shows "block_chain m' c = [0..<n]"
proof -
  have "rd16 m' (pStartAddr c + k * nUnitSize c) = rd16 m (pStartAddr c + k * nUnitSize c)"
    if "k \<in> set (block_chain m c)" for k
  proof (rule rd16_agree [OF assms(1)])
    have "Suc k * unit_bytes u \<le> n * unit_bytes u" using that assms(4) by (intro mult_le_mono1) simp
    moreover have "2 \<le> unit_bytes u" by simp
    ultimately show "pStartAddr c + k * nUnitSize c + 1 < a \<or> a + len \<le> pStartAddr c + k * nUnitSize c"
      using assms(5) unfolding assms(2,3) mult_Suc by linarith
  qed
  then have "block_chain m' c = block_chain m c"
    unfolding block_chain_def by (rule chain_cong) (simp add: block_chain_def)
  then show ?thesis using assms(4) by simp
qed

definition init_block :: "unit_size \<Rightarrow> nat \<Rightarrow> nat \<Rightarrow> mem_block" where
  "init_block u n a = \<lparr>nSize = n * unit_bytes u, nFree = n, nFirst = 0, nUnitSize = unit_bytes u,
     pStartAddr = a\<rparr>"

lemma init_block_fields [simp]:
  "nSize (init_block u n a) = n * unit_bytes u" "nUnitSize (init_block u n a) = unit_bytes u"
  "pStartAddr (init_block u n a) = a" "nFree (init_block u n a) = n"
  "block_units (init_block u n a) = n"
  by (simp_all add: init_block_def block_units_def)

lemma cmd_num_bounds:
  "2 \<le> MT_TDE_CMD_NUM (tde_buf_clamp b)" "MT_TDE_CMD_NUM (tde_buf_clamp b) < 65536"
proof -
  have "7488 \<le> tde_buf_clamp b" "tde_buf_clamp b \<le> 1048576"
    by (auto simp: tde_buf_clamp_def TDE_MIN_BUFFER_def TDE_MAX_BUFFER_def)
  then show "2 \<le> MT_TDE_CMD_NUM (tde_buf_clamp b)" "MT_TDE_CMD_NUM (tde_buf_clamp b) < 65536"
    by (simp_all add: MT_TDE_CMD_NUM_def less_eq_div_iff_mult_less_eq div_less_iff_less_mult)
qed

fun init_num :: "nat \<Rightarrow> unit_size \<Rightarrow> nat" where
  "init_num buf UNIT_SIZE_FILTER = 2"
| "init_num buf u = MT_TDE_CMD_NUM buf"

fun init_offset :: "nat \<Rightarrow> unit_size \<Rightarrow> nat" where
  "init_offset buf UNIT_SIZE_CMD = 0"
| "init_offset buf UNIT_SIZE_JOB = TDE_JOB_OFFSET buf"
| "init_offset buf UNIT_SIZE_NODE = TDE_NODE_OFFSET buf"
| "init_offset buf UNIT_SIZE_FILTER = TDE_FILTER_OFFSET buf"

lemma init_layout:
  assumes "u \<noteq> v"
  shows "init_offset buf u + init_num buf u * unit_bytes u \<le> init_offset buf v
    \<or> init_offset buf v + init_num buf v * unit_bytes v \<le> init_offset buf u"
  using assms
  by (cases u; cases v) (auto simp: TDE_JOB_OFFSET_def TDE_NODE_OFFSET_def TDE_FILTER_OFFSET_def)

lemma init_layout_inside: "init_offset buf u + init_num buf u * unit_bytes u \<le> TDE_MEMPOOL_SIZE buf"
  by (cases u) (auto simp: TDE_JOB_OFFSET_def TDE_NODE_OFFSET_def TDE_FILTER_OFFSET_def TDE_MEMPOOL_SIZE_def)

text \<open>One step of the initialisation: the block becomes the initial one, the blocks already
  initialised stay so.\<close>

definition initialised :: "nat \<Rightarrow> nat \<Rightarrow> wpool \<Rightarrow> unit_size \<Rightarrow> bool" where
  "initialised buf vrt p u \<longleftrightarrow> blk p u = init_block u (init_num buf u) (vrt + init_offset buf u)
     \<and> block_chain (wmem p) (blk p u) = [0..<init_num buf u]"

lemma init_step:
  assumes "buf = tde_buf_clamp tb" "0 < vrt"
  obtains p' where "MemoryBlockInit p u (init_num buf u) (vrt + init_offset buf u) = Some (p', MT_SUCCESS)"
    "initialised buf vrt p' u" "\<And>v. v \<noteq> u \<Longrightarrow> initialised buf vrt p v \<Longrightarrow> initialised buf vrt p' v"
    "g_u32MemPoolPhyAddr p' = g_u32MemPoolPhyAddr p" "g_u32MemPoolVrtAddr p' = g_u32MemPoolVrtAddr p"
    "g_u32TdeBuf p' = g_u32TdeBuf p"
proof -
  let ?n = "init_num buf u" and ?a = "vrt + init_offset buf u"
  have "0 < ?n" "?n < 65536" using cmd_num_bounds [of tb] assms(1) by (cases u; simp)+
  then obtain p' where p': "MemoryBlockInit p u ?n ?a = Some (p', MT_SUCCESS)"
    "blk p' u = init_block u ?n ?a" "\<And>v. v \<noteq> u \<Longrightarrow> blk p' v = blk p v"
    "block_chain (wmem p') (blk p' u) = [0..<?n]" "agree_out (wmem p) (wmem p') ?a (?n * unit_bytes u)"
    "g_u32MemPoolPhyAddr p' = g_u32MemPoolPhyAddr p" "g_u32MemPoolVrtAddr p' = g_u32MemPoolVrtAddr p"
    "g_u32TdeBuf p' = g_u32TdeBuf p"
    using MemoryBlockInit_spec [of ?a ?n p u] assms(2) unfolding init_block_def by (metis add_gr_0)
  have "initialised buf vrt p' v" if "v \<noteq> u" "initialised buf vrt p v" for v
  proof -
    have "block_chain (wmem p') (blk p v) = [0..<init_num buf v]"
      using that init_layout [OF that(1), of buf]
      by (intro chain_outside [OF p'(5), of _ v]) (auto simp: initialised_def)
    then show ?thesis using that p'(3) by (simp add: initialised_def)
  qed
  moreover have "initialised buf vrt p' u" using p'(2,4) by (simp add: initialised_def)
  ultimately show thesis using that [of p'] p'(1,6,7,8) by blast
qed

lemma initialised_pool:
  assumes "buf = tde_buf_clamp tb" "\<And>u. initialised buf vrt p u"
  shows "pool_inv p" "pool_avail p = pool_units p"
    "a \<in> pool_units p \<Longrightarrow> vrt \<le> a \<and> a < vrt + TDE_MEMPOOL_SIZE buf"
proof -
  have b: "blk p u = init_block u (init_num buf u) (vrt + init_offset buf u)"
    "block_chain (wmem p) (blk p u) = [0..<init_num buf u]" for u
    using assms(2) [of u] unfolding initialised_def by blast+
  have n: "init_num buf u < 65536" for u using cmd_num_bounds [of tb] assms(1) by (cases u) simp_all
  have "block_ok (wmem p) u (blk p u)" for u
    using n [of u] b(1) [of u] unfolding block_ok_def b(2) by simp
  moreover have "ranges_disjoint (blk p u) (blk p v)" if "u \<noteq> v" for u v
    using init_layout [OF that, of buf] unfolding b(1) ranges_disjoint_def by auto
  ultimately show "pool_inv p" by (simp add: pool_inv_def)
  show "pool_avail p = pool_units p"
    unfolding pool_avail_def pool_units_def b(2) using b(1) by (intro SUP_cong) auto
  assume "a \<in> pool_units p"
  then obtain u k where a: "a = vrt + init_offset buf u + k * unit_bytes u" "k < init_num buf u"
    unfolding pool_units_def b(1) by (auto simp: unit_addr_def)
  have "Suc k * unit_bytes u \<le> init_num buf u * unit_bytes u" using a(2) by (intro mult_le_mono1) simp
  then show "vrt \<le> a \<and> a < vrt + TDE_MEMPOOL_SIZE buf"
    using init_layout_inside [of buf u] unit_bytes_pos(2) [of u] unfolding a(1) mult_Suc by linarith
qed

lemma wmeminit_initialised:
  assumes "0 < phy" "0 < vrt"
  shows "\<exists>p'. wmeminit tde_buffer phy vrt p = Some (p', MT_SUCCESS)
    \<and> (\<forall>u. initialised (tde_buf_clamp tde_buffer) vrt p' u) \<and> g_u32MemPoolPhyAddr p' = phy
    \<and> g_u32MemPoolVrtAddr p' = vrt \<and> g_u32TdeBuf p' = tde_buf_clamp tde_buffer"
proof -
  define buf where "buf = tde_buf_clamp tde_buffer"
  let ?p0 = "p\<lparr>g_u32TdeBuf := buf, g_u32MemPoolPhyAddr := phy, g_u32MemPoolVrtAddr := vrt\<rparr>"
  note step = init_step [OF buf_def assms(2)]
  obtain p1 where 1: "MemoryBlockInit ?p0 UNIT_SIZE_CMD (MT_TDE_CMD_NUM buf) vrt = Some (p1, MT_SUCCESS)"
    "initialised buf vrt p1 UNIT_SIZE_CMD" "g_u32MemPoolPhyAddr p1 = phy" "g_u32MemPoolVrtAddr p1 = vrt"
    "g_u32TdeBuf p1 = buf"
    by (rule step [of ?p0 UNIT_SIZE_CMD]) simp
  obtain p2 where 2: "MemoryBlockInit p1 UNIT_SIZE_JOB (MT_TDE_CMD_NUM buf) (vrt + TDE_JOB_OFFSET buf) = Some (p2, MT_SUCCESS)"
    "initialised buf vrt p2 UNIT_SIZE_CMD" "initialised buf vrt p2 UNIT_SIZE_JOB"
    "g_u32MemPoolPhyAddr p2 = phy" "g_u32MemPoolVrtAddr p2 = vrt" "g_u32TdeBuf p2 = buf"
    by (rule step [of p1 UNIT_SIZE_JOB]) (use 1 in simp)
  obtain p3 where 3: "MemoryBlockInit p2 UNIT_SIZE_NODE (MT_TDE_CMD_NUM buf) (vrt + TDE_NODE_OFFSET buf) = Some (p3, MT_SUCCESS)"
    "initialised buf vrt p3 UNIT_SIZE_CMD" "initialised buf vrt p3 UNIT_SIZE_JOB" "initialised buf vrt p3 UNIT_SIZE_NODE"
    "g_u32MemPoolPhyAddr p3 = phy" "g_u32MemPoolVrtAddr p3 = vrt" "g_u32TdeBuf p3 = buf"
    by (rule step [of p2 UNIT_SIZE_NODE]) (use 2 in simp)
  obtain p4 where 4: "MemoryBlockInit p3 UNIT_SIZE_FILTER 2 (vrt + TDE_FILTER_OFFSET buf) = Some (p4, MT_SUCCESS)"
    "initialised buf vrt p4 UNIT_SIZE_CMD" "initialised buf vrt p4 UNIT_SIZE_JOB" "initialised buf vrt p4 UNIT_SIZE_NODE"
    "initialised buf vrt p4 UNIT_SIZE_FILTER"
    "g_u32MemPoolPhyAddr p4 = phy" "g_u32MemPoolVrtAddr p4 = vrt" "g_u32TdeBuf p4 = buf"
    by (rule step [of p3 UNIT_SIZE_FILTER]) (use 3 in simp)
  have "initialised buf vrt p4 u" for u using 4 by (cases u) simp_all
  moreover have "wmeminit tde_buffer phy vrt p = Some (p4, MT_SUCCESS)"
    using assms(1) 1(1) 2(1) 3(1) 4(1) by (simp add: wmeminit_def Let_def buf_def [symmetric])
  ultimately show ?thesis using 4(6-8) unfolding buf_def by blast
qed

definition wpool_zero :: wpool where
  "wpool_zero = \<lparr>g_struMemBlock = (\<lambda>_. \<lparr>nSize = 0, nFree = 0, nFirst = 0, nUnitSize = 0, pStartAddr = 0\<rparr>),
     wmem = (\<lambda>_. 0), g_u32MemPoolPhyAddr = 0, g_u32MemPoolVrtAddr = 0, g_u32TdeBuf = 0\<rparr>"

lemma wpool_example:
  obtains p where "wmeminit 0 4096 8192 wpool_zero = Some (p, MT_SUCCESS)" "pool_inv p"
    "pool_avail p = pool_units p" "nFree (blk p UNIT_SIZE_NODE) = 2" "g_u32MemPoolPhyAddr p = 4096"
    "g_u32MemPoolVrtAddr p = 8192" "g_u32TdeBuf p = 7488"
proof -
  obtain p where p: "wmeminit 0 4096 8192 wpool_zero = Some (p, MT_SUCCESS)"
    "\<And>u. initialised (tde_buf_clamp 0) 8192 p u" "g_u32MemPoolPhyAddr p = 4096"
    "g_u32MemPoolVrtAddr p = 8192" "g_u32TdeBuf p = tde_buf_clamp 0"
    using wmeminit_initialised [of 4096 8192 0 wpool_zero] by auto
  have c: "tde_buf_clamp 0 = 7488" by (simp add: tde_buf_clamp_def TDE_MIN_BUFFER_def TDE_MAX_BUFFER_def)
  have "nFree (blk p UNIT_SIZE_NODE) = 2"
    using p(2) [of UNIT_SIZE_NODE] c by (simp add: initialised_def MT_TDE_CMD_NUM_def)
  then show thesis using that [of p] p initialised_pool [OF refl p(2)] c by simp
qed

section \<open>Properties\<close>

text \<open>\<open>wmeminit\<close> ends and leaves a well-formed pool whatever the configured buffer size: every
  unit of the four classes is free and lies inside the block of \<open>TDE_MEMPOOL_SIZE\<close> bytes that was
  allocated for the pool.\<close>

theorem wmeminit_pool:
  assumes "0 < phy" "0 < vrt"
  shows "\<exists>p'. wmeminit tde_buffer phy vrt p = Some (p', MT_SUCCESS) \<and> pool_inv p'
    \<and> pool_avail p' = pool_units p' \<and> g_u32MemPoolPhyAddr p' = phy \<and> g_u32MemPoolVrtAddr p' = vrt
    \<and> (\<forall>a \<in> pool_units p'. vrt \<le> a \<and> a < vrt + TDE_MEMPOOL_SIZE (g_u32TdeBuf p'))"
proof -
  obtain p' where p': "wmeminit tde_buffer phy vrt p = Some (p', MT_SUCCESS)"
    "\<And>u. initialised (tde_buf_clamp tde_buffer) vrt p' u" "g_u32MemPoolPhyAddr p' = phy"
    "g_u32MemPoolVrtAddr p' = vrt" "g_u32TdeBuf p' = tde_buf_clamp tde_buffer"
    using wmeminit_initialised [OF assms] by blast
  note pool = initialised_pool [OF refl p'(2)]
  show ?thesis using pool p'(1,3-5) by auto
qed

theorem wmeminit_pool_witness:
  "\<exists>p'. wmeminit 0 4096 8192 wpool_zero = Some (p', MT_SUCCESS) \<and> pool_inv p' \<and> pool_avail p' = pool_units p'"
  using wmeminit_pool [of 4096 8192 0 wpool_zero] by auto

text \<open>C20. An allocation gives the caller a unit of its own: it is large enough, cleared, and
  overlaps no other unit of the pool, held or free; no other byte of memory changes.\<close>

theorem wmalloc_fresh:
  assumes "pool_inv p" "wmalloc p sz = (p', Some a)"
  shows "\<exists>u k. a = unit_addr (blk p u) k \<and> k < block_units (blk p u) \<and> 0 < sz \<and> sz \<le> unit_bytes u
    \<and> a \<in> pool_avail p \<and> pool_inv p' \<and> pool_avail p' = pool_avail p - {a}
    \<and> (\<forall>x. wmem p' x = (if a \<le> x \<and> x < a + unit_bytes u then 0 else wmem p x))
    \<and> (\<forall>v j. j < block_units (blk p v) \<and> (v, j) \<noteq> (u, k) \<longrightarrow>
         unit_addr (blk p v) j + unit_bytes v \<le> a \<or> a + unit_bytes u \<le> unit_addr (blk p v) j)"
proof (rule wmalloc_some [OF assms])
  fix u k
  assume f: "u \<in> set (fitting sz)" "a = unit_addr (blk p u) k" "k < block_units (blk p u)"
    "pool_inv p'" "pool_avail p' = pool_avail p - {a}" "wmem p' = memset0 (wmem p) a (unit_bytes u)"
  have us: "nUnitSize (blk p v) = unit_bytes v" for v using block_unit_size(1) [OF pool_block [OF assms(1)]] .
  have av: "a \<in> pool_avail p" using wp.al_avail [OF assms] by simp
  have sz: "0 < sz" "sz \<le> unit_bytes u" using f(1) fitting_size [OF f(1)] by (auto simp: fitting_def split: if_splits)
  have sep: "unit_addr (blk p v) j + unit_bytes v \<le> a \<or> a + unit_bytes u \<le> unit_addr (blk p v) j"
    if j: "j < block_units (blk p v)" "(v, j) \<noteq> (u, k)" for v j
  proof (cases "v = u")
    case True
    then have "j \<noteq> k" using j(2) by simp
    then consider "Suc j \<le> k" | "Suc k \<le> j" by linarith
    then show ?thesis
    proof cases
      case 1
      then have "Suc j * unit_bytes u \<le> k * unit_bytes u" by (rule mult_le_mono1)
      then show ?thesis using f(2) us True by (simp add: unit_addr_def)
    next
      case 2
      then have "Suc k * unit_bytes u \<le> j * unit_bytes u" by (rule mult_le_mono1)
      then show ?thesis using f(2) us True by (simp add: unit_addr_def)
    qed
  next
    case False
    then have "ranges_disjoint (blk p u) (blk p v)" using assms(1) by (simp add: pool_inv_def)
    then show ?thesis
      using addr_in_range [OF assms(1) f(3)] addr_in_range [OF assms(1) j(1)] f(2) us
      unfolding ranges_disjoint_def by auto
  qed
  show ?thesis
    using f av sz sep by (intro exI [of _ u] exI [of _ k]) (auto simp: memset0_def)
qed

theorem wmalloc_fresh_witness:
  "\<exists>p p' a. pool_inv p \<and> wmalloc p 100 = (p', Some a) \<and> (\<forall>x. a \<le> x \<and> x < a + 100 \<longrightarrow> wmem p' x = 0)"
proof -
  obtain p where p: "pool_inv p" "nFree (blk p UNIT_SIZE_NODE) = 2" by (rule wpool_example)
  then obtain p' a where m: "wmalloc p 100 = (p', Some a)"
    by (auto simp: wmalloc_def mallocUnit_def Let_def)
  from wmalloc_fresh [OF p(1) m] obtain u where
    "100 \<le> unit_bytes u" "\<forall>x. wmem p' x = (if a \<le> x \<and> x < a + unit_bytes u then 0 else wmem p x)"
    by blast
  then show ?thesis using p(1) m by (intro exI [of _ p] exI [of _ p'] exI [of _ a]) auto
qed



text \<open>\<open>wmalloc\<close> fails exactly when the size is zero or above 2048, or when every class whose
  units are large enough is exhausted; a failing call changes nothing.\<close>

theorem wmalloc_fails_iff:
  assumes "pool_inv p"
  shows "(snd (wmalloc p sz) = None \<longleftrightarrow>
      sz = 0 \<or> sz > 2048 \<or> (\<forall>u. sz \<le> unit_bytes u \<longrightarrow> block_chain (wmem p) (blk p u) = []))
    \<and> (snd (wmalloc p sz) = None \<longrightarrow> wmalloc p sz = (p, None))"
proof -
  have nil: "block_chain (wmem p) (blk p u) = [] \<longleftrightarrow> nFree (blk p u) = 0" for u
    by (cases "nFree (blk p u)") (simp_all add: block_chain_def)
  have fit: "u \<in> set (fitting sz) \<longleftrightarrow> sz \<noteq> 0 \<and> sz \<le> 2048 \<and> sz \<le> unit_bytes u" for u
    by (cases u) (auto simp: fitting_def)
  have *: "(snd (wmalloc p sz) = None \<longleftrightarrow> (\<forall>u \<in> set (fitting sz). nFree (blk p u) = 0))
      \<and> (snd (wmalloc p sz) = None \<longrightarrow> wmalloc p sz = (p, None))"
  proof (cases rule: try_units_cases [OF assms, of "fitting sz"])
    case 1
    then show ?thesis by (simp add: wmalloc_fitting)
  next
    case (2 u)
    then show ?thesis by (auto simp: wmalloc_fitting mallocUnit_def Let_def)
  qed
  then show ?thesis using nil fit by (auto simp: not_less)
qed

theorem wmalloc_fails_iff_witness:
  "\<exists>p. pool_inv p \<and> wmalloc p 4000 = (p, None)"
proof -
  obtain p where p: "pool_inv p" by (rule wpool_example)
  show ?thesis using wmalloc_fails_iff [OF p, of 4000] p by (intro exI [of _ p]) simp
qed

text \<open>The address translations of the pool are inverse to each other on the whole pool: every
  virtual address of a unit has a physical address that translates back to it.\<close>

theorem wgetvrt_wgetphy:
  assumes "0 < phy" "0 < vrt" "wmeminit tde_buffer phy vrt p = Some (p', MT_SUCCESS)" "a \<in> pool_units p'"
  shows "wgetvrt p' (wgetphy p' a) = a \<and> wgetphy p' a \<noteq> 0"
proof -
  obtain q where q: "wmeminit tde_buffer phy vrt p = Some (q, MT_SUCCESS)"
    "\<And>u. initialised (tde_buf_clamp tde_buffer) vrt q u" "g_u32MemPoolPhyAddr q = phy"
    "g_u32MemPoolVrtAddr q = vrt" "g_u32TdeBuf q = tde_buf_clamp tde_buffer"
    using wmeminit_initialised [OF assms(1,2)] by blast
  then have "vrt \<le> a \<and> a < vrt + TDE_MEMPOOL_SIZE (tde_buf_clamp tde_buffer)"
    using initialised_pool(3) [OF refl q(2)] assms(3,4) by simp
  then show ?thesis
    using assms(1,3) q by (auto simp: wgetvrt_def wgetphy_def)
qed

theorem wgetvrt_wgetphy_witness:
  "\<exists>p' a. wmeminit 0 4096 8192 wpool_zero = Some (p', MT_SUCCESS) \<and> a \<in> pool_units p'
     \<and> wgetvrt p' (wgetphy p' a) = a"
proof -
  obtain p where p: "wmeminit 0 4096 8192 wpool_zero = Some (p, MT_SUCCESS)" "pool_inv p"
    "pool_avail p = pool_units p" "nFree (blk p UNIT_SIZE_NODE) = 2"
    by (rule wpool_example)
  have "wmalloc p 1000 = mallocUnit p UNIT_SIZE_NODE" "nFree (blk p UNIT_SIZE_NODE) \<noteq> 0"
    using p(4) by (simp_all add: wmalloc_def mallocUnit_def Let_def)
  then obtain p1 a where "wmalloc p 1000 = (p1, Some a)" by (auto simp: mallocUnit_def Let_def)
  then have a: "a \<in> pool_units p" using wp.al_avail [OF p(2)] p(3) by blast
  then show ?thesis
    using wgetvrt_wgetphy [OF _ _ p(1) a] p(1) by (intro exI [of _ p] exI [of _ a]) simp
qed

end
