(* ===== verification/Bit_Interface.thy ===== *)
theory Bit_Interface
  imports MT_Base
begin

text \<open>
  The contract between a bit reader and the parsers that use it. \<open>mem_bit\<close> numbers the bits of
  a byte memory most significant bit first; \<open>bits_at mem p n\<close> is the \<open>n\<close>-bit field at bit
  position \<open>p\<close>, as a number. The locale \<open>bit_reader\<close> states what showing and skipping
  bits must do; its lemmas say that a parser that alternates the two reads consecutive fields.
\<close>

definition mem_bit :: "(nat \<Rightarrow> u8) \<Rightarrow> nat \<Rightarrow> bool" where
  "mem_bit mem k = bit (mem (k div 8)) (7 - k mod 8)"

primrec bits_at :: "(nat \<Rightarrow> u8) \<Rightarrow> nat \<Rightarrow> nat \<Rightarrow> nat" where
  "bits_at mem p 0 = 0"
| "bits_at mem p (Suc n) = of_bool (mem_bit mem (p + n)) + 2 * bits_at mem p n"

primrec fields_at :: "(nat \<Rightarrow> u8) \<Rightarrow> nat \<Rightarrow> nat list \<Rightarrow> nat list" where
  "fields_at mem p [] = []"
| "fields_at mem p (w # ws) = bits_at mem p w # fields_at mem (p + w) ws"

lemma bits_at_less: "bits_at mem p n < 2 ^ n"
  by (induction n) auto

lemma bit_bits_at: "bit (bits_at mem p n) i \<longleftrightarrow> i < n \<and> mem_bit mem (p + (n - 1 - i))"
proof (induction n arbitrary: i)
  case 0
  then show ?case by simp
next
  case (Suc n)
  then show ?case
    by (cases i) (auto simp: bit_0 bit_Suc Suc_diff_Suc less_diff_conv)
qed

lemma bits_at_add: "bits_at mem p (a + b) = bits_at mem p a * 2 ^ b + bits_at mem (p + a) b"
  by (induction b) (auto simp: algebra_simps)

locale bit_reader =
  fixes mem :: "nat \<Rightarrow> u8"
    and good :: "'s \<Rightarrow> bool"
    and pos :: "'s \<Rightarrow> nat"
    and show_bits :: "'s \<Rightarrow> nat \<Rightarrow> u32 option"
    and skip :: "'s \<Rightarrow> nat \<Rightarrow> 's"
  assumes show_law: "good s \<Longrightarrow> 1 \<le> n \<Longrightarrow> n \<le> 32 \<Longrightarrow> map_option unat (show_bits s n) = Some (bits_at mem (pos s) n)"
    and skip_good: "good s \<Longrightarrow> n \<le> 32 \<Longrightarrow> good (skip s n)"
    and skip_pos: "good s \<Longrightarrow> n \<le> 32 \<Longrightarrow> pos (skip s n) = pos s + n"
begin

primrec read_fields :: "'s \<Rightarrow> nat list \<Rightarrow> (nat list \<times> 's) option" where
  "read_fields s [] = Some ([], s)"
| "read_fields s (w # ws) =
     (case show_bits s w of None \<Rightarrow> None
      | Some v \<Rightarrow> map_option (\<lambda>(vs, s'). (unat v # vs, s')) (read_fields (skip s w) ws))"

lemma show_SomeE:
  assumes "good s" "1 \<le> n" "n \<le> 32"
  obtains v where "show_bits s n = Some v" "unat v = bits_at mem (pos s) n"
  using show_law [OF assms] by auto

lemma read_fields_ok:
  assumes "good s" "\<forall>w\<in>set ws. 1 \<le> w \<and> w \<le> 32"
  shows "\<exists>s'. read_fields s ws = Some (fields_at mem (pos s) ws, s') \<and> good s'
    \<and> pos s' = pos s + sum_list ws"
  using assms
proof (induction ws arbitrary: s)
  case Nil
  then show ?case by simp
next
  case (Cons w ws)
  from Cons.prems obtain v where v: "show_bits s w = Some v" "unat v = bits_at mem (pos s) w"
    by (elim show_SomeE [of s w]) auto
  have "good (skip s w)" "pos (skip s w) = pos s + w"
    using Cons.prems by (auto intro: skip_good simp: skip_pos)
  with Cons.IH [of "skip s w"] Cons.prems v show ?case
    by auto
qed

end

end
