(* ===== verification/Bitstream.thy ===== *)
theory Bitstream
  imports Bit_Interface
begin

text \<open>
  The bit reader of the demultiplexer driver, \<open>src/msp/drv/demux/drv_demux_bitstream.c\<close>:
  all its functions, on a byte memory \<open>mem\<close> indexed by address. The reader keeps two
  big-endian words \<open>Bufa\<close> and \<open>Bufb\<close> and the bit position \<open>BufPos\<close> inside the first.
  A shift by a count outside \<open>0..31\<close> is undefined in C and gives \<open>None\<close>. Counters of type
  \<open>mt_s32\<close> are \<^typ>\<open>int\<close>: their overflow is undefined in C, so an execution with a
  meaning never leaves the range.
\<close>

section \<open>Data and operations\<close>

record pvr_bs =
  pHead :: nat
  pTail :: nat
  Bufa :: u32
  Bufb :: u32
  BsLen :: int
  BufPos :: int
  TotalPos :: int

definition ENDIAN32 :: "u32 \<Rightarrow> u32" where
  "ENDIAN32 x = push_bit 24 x OR push_bit 8 (x AND 0x0000ff00)
     OR drop_bit 8 (x AND 0x00ff0000) OR (drop_bit 24 x AND 0x000000ff)"

definition load32 :: "(nat \<Rightarrow> u8) \<Rightarrow> nat \<Rightarrow> u32" where
  "load32 mem p = le32 [mem p, mem (p + 1), mem (p + 2), mem (p + 3)]"

definition CalcZeroNum :: "nat list" where
  "CalcZeroNum = [8,7,6,6] @ replicate 4 5 @ replicate 8 4 @ replicate 16 3 @ replicate 32 2
     @ replicate 64 1 @ replicate 128 0"

fun zeros_loop :: "nat \<Rightarrow> u32 \<Rightarrow> nat \<Rightarrow> nat" where
  "zeros_loop 0 data ZeroNum = ZeroNum"
| "zeros_loop (Suc i) data ZeroNum =
     (let tmpdata = drop_bit 24 (data AND 0xff000000);
          tmpZeroNum = CalcZeroNum ! unat tmpdata;
          ZeroNum = ZeroNum + tmpZeroNum
      in if 8 \<noteq> tmpZeroNum then ZeroNum else zeros_loop i (push_bit 8 data) ZeroNum)"

definition PvrZerosMS_32 :: "u32 \<Rightarrow> nat" where
  "PvrZerosMS_32 data = zeros_loop 4 data 0"

definition c_shl :: "u32 \<Rightarrow> int \<Rightarrow> u32 option" where
  "c_shl w k = (if 0 \<le> k \<and> k < 32 then Some (push_bit (nat k) w) else None)"

definition c_shr :: "u32 \<Rightarrow> int \<Rightarrow> u32 option" where
  "c_shr w k = (if 0 \<le> k \<and> k < 32 then Some (drop_bit (nat k) w) else None)"

definition PvrBsInit :: "(nat \<Rightarrow> u8) \<Rightarrow> nat \<Rightarrow> int \<Rightarrow> pvr_bs" where
  "PvrBsInit mem pInput len =
     (let h = pInput AND 0xfffffffc
      in \<lparr>pHead = h, pTail = h + 8, Bufa = ENDIAN32 (load32 mem h), Bufb = ENDIAN32 (load32 mem (h + 4)),
          BsLen = len, BufPos = int (push_bit 3 (pInput AND 3)), TotalPos = 0\<rparr>)"

definition PvrBsPos :: "pvr_bs \<Rightarrow> int" where
  "PvrBsPos pBS = TotalPos pBS"

definition PvrBsShow :: "pvr_bs \<Rightarrow> int \<Rightarrow> u32 option" where
  "PvrBsShow pBS nBits =
     (let ABBufPos = nBits + BufPos pBS
      in if ABBufPos > 32
         then Option.bind (c_shl (Bufa pBS) (BufPos pBS)) (\<lambda>Data.
              Option.bind (c_shr (Bufb pBS) (32 - BufPos pBS)) (\<lambda>Data1.
              c_shr (Data OR Data1) (32 - nBits)))
         else Option.bind (c_shl (Bufa pBS) (BufPos pBS)) (\<lambda>Data. c_shr Data (32 - nBits)))"

text \<open>The common body of \<open>PvrBsSkip\<close> and \<open>PvrBsSkipWithoutCount\<close> is written out in both, as
  in the code.\<close>

definition PvrBsSkip :: "(nat \<Rightarrow> u8) \<Rightarrow> pvr_bs \<Rightarrow> int \<Rightarrow> pvr_bs" where
  "PvrBsSkip mem pBS nBits =
     (let ABBufPos = nBits + BufPos pBS;
          pBS = pBS\<lparr>TotalPos := TotalPos pBS + nBits\<rparr>
      in if ABBufPos \<ge> 32
         then pBS\<lparr>BufPos := ABBufPos - 32, Bufa := Bufb pBS,
                  Bufb := ENDIAN32 (load32 mem (pTail pBS)), pTail := pTail pBS + 4\<rparr>
         else pBS\<lparr>BufPos := BufPos pBS + nBits\<rparr>)"

definition PvrBsGet :: "(nat \<Rightarrow> u8) \<Rightarrow> pvr_bs \<Rightarrow> int \<Rightarrow> (u32 \<times> pvr_bs) option" where
  "PvrBsGet mem pBS nBits = map_option (\<lambda>Data. (Data, PvrBsSkip mem pBS nBits)) (PvrBsShow pBS nBits)"

definition PvrBsBack :: "(nat \<Rightarrow> u8) \<Rightarrow> pvr_bs \<Rightarrow> int \<Rightarrow> int \<times> pvr_bs" where
  "PvrBsBack mem pBS nBits =
     (let nBits = (if nBits > TotalPos pBS then TotalPos pBS else nBits);
          PredBufPos = BufPos pBS - nBits;
          pBS = pBS\<lparr>TotalPos := TotalPos pBS - nBits\<rparr>
      in (nBits,
          if PredBufPos \<ge> 0 then pBS\<lparr>BufPos := PredBufPos\<rparr>
          else pBS\<lparr>pTail := pTail pBS - 4, Bufb := Bufa pBS,
                   Bufa := ENDIAN32 (load32 mem (pTail pBS - 4 - 8)), BufPos := PredBufPos + 32\<rparr>))"

definition PvrBsBitsToNextByte :: "pvr_bs \<Rightarrow> int" where
  "PvrBsBitsToNextByte pBS = ((TotalPos pBS + 7) AND 0xfffffff8) - TotalPos pBS"

definition PvrBsToNextByte :: "(nat \<Rightarrow> u8) \<Rightarrow> pvr_bs \<Rightarrow> int \<times> pvr_bs" where
  "PvrBsToNextByte mem pBS =
     (let AlignPos = (TotalPos pBS + 7) AND 0xfffffff8; SkipLen = AlignPos - TotalPos pBS
      in (SkipLen, PvrBsSkip mem pBS SkipLen))"

definition PvrBsResidBits :: "pvr_bs \<Rightarrow> int" where
  "PvrBsResidBits pBS = 8 * BsLen pBS - TotalPos pBS"

definition PvrBsIsByteAligned :: "pvr_bs \<Rightarrow> bool" where
  "PvrBsIsByteAligned pBS = (if TotalPos pBS AND 7 \<noteq> 0 then False else True)"

definition PvrBsNextBitsByteAligned :: "(nat \<Rightarrow> u8) \<Rightarrow> pvr_bs \<Rightarrow> int \<Rightarrow> (u32 \<times> pvr_bs) option" where
  "PvrBsNextBitsByteAligned mem pBS nBits =
     (let BitsToByte = 8 - (TotalPos pBS AND 7); pBS = PvrBsSkip mem pBS BitsToByte
      in map_option (\<lambda>Data. (Data, snd (PvrBsBack mem pBS BitsToByte))) (PvrBsShow pBS nBits))"

definition long_jump :: "(nat \<Rightarrow> u8) \<Rightarrow> pvr_bs \<Rightarrow> int \<Rightarrow> int \<times> pvr_bs" where
  "long_jump mem pBS nBits =
     (let bits = 32 - BufPos pBS;
          pBS = pBS\<lparr>TotalPos := TotalPos pBS + bits, BufPos := 0\<rparr>;
          nBits = nBits - bits;
          words = nBits div 32;
          bits = nBits AND 0x1f;
          t = nat (int (pTail pBS) + 4 * (words - 1));
          pBS = pBS\<lparr>Bufa := ENDIAN32 (load32 mem t), Bufb := ENDIAN32 (load32 mem (t + 4)),
                    pTail := t + 4 + 4, TotalPos := TotalPos pBS + words * 32\<rparr>
      in (nBits, if bits > 0 then PvrBsSkip mem pBS bits else pBS))"

definition PvrBsLongSkip :: "(nat \<Rightarrow> u8) \<Rightarrow> pvr_bs \<Rightarrow> int \<Rightarrow> int \<times> pvr_bs" where
  "PvrBsLongSkip mem pBS nBits =
     (if nBits = 0 then (0, pBS)
      else if nBits \<le> 64
      then (let (n, b) = (if nBits > 32 then (nBits - 32, PvrBsSkip mem pBS 32) else (nBits, pBS))
            in (n, PvrBsSkip mem b n))
      else long_jump mem pBS nBits)"

definition PvrBsSkipWithoutCount :: "(nat \<Rightarrow> u8) \<Rightarrow> pvr_bs \<Rightarrow> int \<Rightarrow> pvr_bs" where
  "PvrBsSkipWithoutCount mem pBS nBits =
     (let ABBufPos = nBits + BufPos pBS
      in if ABBufPos \<ge> 32
         then pBS\<lparr>BufPos := ABBufPos - 32, Bufa := Bufb pBS,
                  Bufb := ENDIAN32 (load32 mem (pTail pBS)), pTail := pTail pBS + 4\<rparr>
         else pBS\<lparr>BufPos := BufPos pBS + nBits\<rparr>)"

definition PvrBsGetNextBytePtr :: "pvr_bs \<Rightarrow> nat" where
  "PvrBsGetNextBytePtr pBS = (let BitsInBufa = 32 - BufPos pBS in pTail pBS - (4 + nat (BitsInBufa div 8)))"

section \<open>Big-endian words\<close>

lemma bit_byte_step:
  fixes a n :: nat
  assumes "a < 256"
  shows "bit (a + 256 * n) i \<longleftrightarrow> (if i < 8 then bit a i else bit n (i - 8))"
proof -
  have t: "take_bit 8 a = a" using assms by (simp add: take_bit_eq_mod)
  have high: "\<not> bit a j" if "8 \<le> j" for j
    using that by (subst t [symmetric]) (simp add: bit_take_bit_iff)
  have "a + push_bit 8 n = a OR push_bit 8 n"
    by (rule disjunctive_add) (use high in \<open>auto simp: bit_push_bit_iff\<close>)
  then have "a + 256 * n = a OR push_bit 8 n"
    by (simp add: push_bit_eq_mult mult.commute)
  then show ?thesis
    using high [of i] by (auto simp: bit_or_iff bit_push_bit_iff)
qed

lemma div_mod_byte:
  assumes "n = 8 * u + v" "v < (8::nat)"
  shows "n div 8 = u" "n mod 8 = v"
  using assms by simp_all

lemma unat_byte_less: "unat (b :: u8) < 256"
  by (rule order_less_le_trans [OF unsigned_less]) simp

lemma unat_le32:
  "unat (le32 [a, b, c, d]) = unat a + 256 * (unat b + 256 * (unat c + 256 * unat d))"
proof -
  have "unat a + 256 * (unat b + 256 * (unat c + 256 * unat d)) < 4294967296"
    (is "?n < _")
    using unat_byte_less [of a] unat_byte_less [of b] unat_byte_less [of c] unat_byte_less [of d] by simp
  then have "unat (word_of_nat ?n :: u32) = ?n"
    by (simp only: unsigned_of_nat) (simp add: take_bit_nat_eq_self)
  then show ?thesis
    by (simp only: le32_def nth_Cons_0 nth_Cons_Suc One_nat_def numeral_2_eq_2 numeral_3_eq_3)
qed

lemma bit_unat [simp]: "bit (unat w) i = bit w i"
  by (auto simp: bit_unsigned_iff dest: bit_imp_le_length)

lemma bit_le32:
  assumes "i < 32"
  shows "bit (le32 [a, b, c, d]) i = bit ([a, b, c, d] ! (i div 8)) (i mod 8)"
proof -
  obtain q r where i: "i = 8 * q + r" "r < 8"
    by (metis mod_less_divisor mult_div_mod_eq zero_less_numeral)
  have "q = 0 \<or> q = 1 \<or> q = 2 \<or> q = 3" using assms i by linarith
  moreover have "i div 8 = q" "i mod 8 = r" using i by simp_all
  moreover have "bit (le32 [a, b, c, d]) i = (if i < 8 then bit a i else if i - 8 < 8 then bit b (i - 8)
      else if i - 8 - 8 < 8 then bit c (i - 8 - 8) else bit d (i - 8 - 8 - 8))"
    by (subst bit_unat [symmetric], subst unat_le32) (simp only: bit_byte_step unat_byte_less bit_unat
        bit_byte_step [of _ "unat _", OF unat_byte_less] split: if_split)
  ultimately show ?thesis
    using i by (elim disjE) simp_all
qed

lemma ENDIAN32_bit:
  assumes "i < 32"
  shows "bit (ENDIAN32 x) i = bit x (8 * (3 - i div 8) + i mod 8)"
proof -
  obtain q r where i: "i = 8 * q + r" "r < 8"
    by (metis mod_less_divisor mult_div_mod_eq zero_less_numeral)
  have q: "q = 0 \<or> q = 1 \<or> q = 2 \<or> q = 3" using assms i by linarith
  have m: "(0x0000ff00::u32) = push_bit 8 (mask 8)" "(0x00ff0000::u32) = push_bit 16 (mask 8)"
    "(0x000000ff::u32) = mask 8"
    by (simp_all add: mask_numeral)
  have "bit (ENDIAN32 x) i \<longleftrightarrow> (24 \<le> i \<and> bit x (i - 24)) \<or> (16 \<le> i \<and> i < 24 \<and> bit x (i - 8))
      \<or> (8 \<le> i \<and> i < 16 \<and> bit x (i + 8)) \<or> (i < 8 \<and> bit x (i + 24))"
    unfolding ENDIAN32_def m using assms
    by (auto simp: bit_simps possible_bit_word add.commute)
  moreover have "i div 8 = q" "i mod 8 = r" using i by simp_all
  ultimately show ?thesis
    using i q by (elim disjE) (simp_all add: add.commute)
qed

definition be_word :: "(nat \<Rightarrow> u8) \<Rightarrow> nat \<Rightarrow> u32" where
  "be_word mem p = ENDIAN32 (load32 mem p)"

lemma bit_be_word: "i < 32 \<Longrightarrow> bit (be_word mem p) i = mem_bit mem (8 * p + (31 - i))"
proof -
  assume i: "i < 32"
  have "bit (be_word mem p) i = bit ([mem p, mem (p + 1), mem (p + 2), mem (p + 3)] ! (3 - i div 8)) (i mod 8)"
  proof -
    have "8 * (3 - i div 8) + i mod 8 < 32" using i by linarith
    moreover have "(8 * (3 - i div 8) + i mod 8) div 8 = 3 - i div 8" by simp
    moreover have "(8 * (3 - i div 8) + i mod 8) mod 8 = i mod 8" by simp
    ultimately show ?thesis
      using i by (simp only: be_word_def load32_def ENDIAN32_bit bit_le32)
  qed
  moreover have "[mem p, mem (p + 1), mem (p + 2), mem (p + 3)] ! k = mem (p + k)" if "k < 4" for k
    using that by (auto simp: less_Suc_eq numeral_eq_Suc)
  moreover have "8 * p + (31 - i) = 8 * (p + (3 - i div 8)) + (7 - i mod 8)"
    using i by presburger
  note div_mod_byte [OF this]
  ultimately show ?thesis
    using i by (simp add: mem_bit_def)
qed

section \<open>Counting leading zeros\<close>

lemma CalcZeroNum_table:
  "\<forall>t\<in>set [0..<256]. t < 2 ^ (8 - CalcZeroNum ! t) \<and>
     (if t = 0 then CalcZeroNum ! t = 8 else CalcZeroNum ! t < 8 \<and> 2 ^ (7 - CalcZeroNum ! t) \<le> t)"
  by code_simp

lemma CalcZeroNum_spec:
  assumes "t < 256"
  shows "t < 2 ^ (8 - CalcZeroNum ! t)"
    and "CalcZeroNum ! t = 8 \<longleftrightarrow> t = 0"
    and "t \<noteq> 0 \<Longrightarrow> CalcZeroNum ! t < 8 \<and> 2 ^ (7 - CalcZeroNum ! t) \<le> t"
proof -
  have "t \<in> set [0..<256]" using assms by simp
  note t = bspec [OF CalcZeroNum_table this]
  show "t < 2 ^ (8 - CalcZeroNum ! t)" using t by (rule conjunct1)
  show "CalcZeroNum ! t = 8 \<longleftrightarrow> t = 0" using conjunct2 [OF t] by (cases "t = 0") simp_all
  show "t \<noteq> 0 \<Longrightarrow> CalcZeroNum ! t < 8 \<and> 2 ^ (7 - CalcZeroNum ! t) \<le> t"
    using conjunct2 [OF t] by simp
qed

lemma unat_top_byte: "unat (drop_bit 24 (d AND 0xff000000) :: u32) = unat d div 2 ^ 24"
proof -
  have m: "(0xff000000::u32) = push_bit 24 (mask 8)" by (simp add: mask_numeral)
  have e: "drop_bit 24 (d AND 0xff000000) = drop_bit 24 d"
    unfolding m by (intro bit_word_eqI, simp only: bit_simps comp_apply)
      (auto simp: possible_bit_word dest: bit_imp_le_length)
  show ?thesis
    by (simp only: e unat_drop_bit_eq) (simp only: drop_bit_eq_div)
qed

lemma unat_push_8: "unat d < 2 ^ 24 \<Longrightarrow> unat (push_bit 8 d :: u32) = 256 * unat d"
  by (simp only: unsigned_push_bit_eq) (simp add: take_bit_eq_mod push_bit_eq_mult mult.commute)

lemma zeros_loop_spec:
  assumes "256 ^ (4 - i) dvd unat d" "i \<le> 4"
  shows "\<exists>z. zeros_loop i d acc = acc + z \<and> unat d < 2 ^ (32 - z)
    \<and> (if d = 0 then z = 8 * i else z < 8 * i \<and> 2 ^ (31 - z) \<le> unat d)"
  using assms
proof (induction i arbitrary: d acc)
  case 0
  then have "unat d = 0"
    using unat_u32_less [of d] by (auto dest: dvd_imp_le)
  then have "d = 0" by (simp add: unat_eq_0)
  then show ?case by simp
next
  case (Suc i)
  define n t where "n = unat d" and "t = n div 2 ^ 24"
  define c where "c = CalcZeroNum ! t"
  have n: "n < 2 ^ 32" using unat_u32_less [of d] by (simp add: n_def)
  have t: "t < 256" using n by (simp add: t_def)
  note ct = CalcZeroNum_spec [OF t, folded c_def]
  have step: "zeros_loop (Suc i) d acc = (if 8 \<noteq> c then acc + c else zeros_loop i (push_bit 8 d) (acc + c))"
    by (simp only: zeros_loop.simps Let_def unat_top_byte c_def t_def n_def)

  show ?case
  proof (cases "t = 0")
    case False
    with ct have c: "c < 8" "2 ^ (7 - c) \<le> t" "t < 2 ^ (8 - c)" by auto
    have "Suc t * 2 ^ 24 \<le> 2 ^ (8 - c) * 2 ^ 24"
      using c by (intro mult_le_mono1) simp
    moreover have "n < Suc t * 2 ^ 24"
      unfolding t_def by (simp add: dividend_less_div_times add.commute)
    moreover have c32: "32 - c = (8 - c) + 24" "31 - c = (7 - c) + 24" using c by simp_all
    then have "(2::nat) ^ (8 - c) * 2 ^ 24 = 2 ^ (32 - c)"
      by (simp only: power_add)
    ultimately have hi: "n < 2 ^ (32 - c)" by linarith
    have "(2::nat) ^ (31 - c) = 2 ^ (7 - c) * 2 ^ 24"
      by (simp only: c32 power_add)
    also have "\<dots> \<le> t * 2 ^ 24" using c by (intro mult_le_mono1)
    also have "\<dots> \<le> n" by (simp add: t_def)
    finally have lo: "2 ^ (31 - c) \<le> n" .
    have "d \<noteq> 0" using False by (auto simp: t_def n_def)
    then show ?thesis
      using step c hi lo by (intro exI [of _ c]) (simp add: n_def)
  next
    case True
    then have small: "n < 2 ^ 24" by (simp add: t_def div_eq_0_iff)
    have p: "unat (push_bit 8 d) = 256 * n" using small by (simp add: n_def unat_push_8)
    have "256 ^ (4 - i) = 256 * (256::nat) ^ (4 - Suc i)"
      using Suc.prems(2) by (simp flip: power_Suc add: Suc_diff_Suc)
    then have "256 ^ (4 - i) dvd unat (push_bit 8 d)"
      using Suc.prems(1) by (simp add: p n_def)
    then obtain z where z: "zeros_loop i (push_bit 8 d) (acc + 8) = acc + 8 + z" "256 * n < 2 ^ (32 - z)"
      "if push_bit 8 d = 0 then z = 8 * i else z < 8 * i \<and> 2 ^ (31 - z) \<le> 256 * n"
      using Suc.IH [of "push_bit 8 d" "acc + 8"] Suc.prems(2) by (auto simp only: p Suc_leD)
    have d0: "push_bit 8 d = 0 \<longleftrightarrow> d = 0"
      using p by (metis n_def mult_eq_0_iff unat_eq_0 zero_neq_numeral)
    have loop: "zeros_loop (Suc i) d acc = acc + (8 + z)"
      using step ct True z by simp
    show ?thesis
    proof (cases "d = 0")
      case True
      then show ?thesis using loop z d0 by (intro exI [of _ "8 + z"]) simp
    next
      case False
      then have zz: "z < 8 * i" "2 ^ (31 - z) \<le> 256 * n" using z d0 by auto
      then have "z < 24" using Suc.prems(2) by simp
      then have "(2::nat) ^ (32 - z) = 256 * 2 ^ (24 - z)" "(2::nat) ^ (31 - z) = 256 * 2 ^ (23 - z)"
        using power_add [of "2::nat" 8 "24 - z"] power_add [of "2::nat" 8 "23 - z"] by simp_all
      then show ?thesis
        using loop z zz False by (intro exI [of _ "8 + z"]) (simp add: n_def)
    qed
  qed
qed

lemma PvrZerosMS_32_bounds:
  "unat d < 2 ^ (32 - PvrZerosMS_32 d)"
  "d = 0 \<Longrightarrow> PvrZerosMS_32 d = 32"
  "d \<noteq> 0 \<Longrightarrow> PvrZerosMS_32 d < 32 \<and> 2 ^ (31 - PvrZerosMS_32 d) \<le> unat d"
  using zeros_loop_spec [of 4 d 0] by (auto simp: PvrZerosMS_32_def)

lemma PvrZerosMS_32_unique:
  assumes "z < 32" "2 ^ (31 - z) \<le> unat d" "unat d < 2 ^ (32 - z)"
  shows "PvrZerosMS_32 d = z"
proof -
  let ?y = "PvrZerosMS_32 d"
  have "d \<noteq> 0" using assms by auto
  then have y: "?y < 32" "2 ^ (31 - ?y) \<le> unat d" "unat d < 2 ^ (32 - ?y)"
    using PvrZerosMS_32_bounds [of d] by auto
  have "(2::nat) ^ (31 - z) < 2 ^ (32 - ?y)" "(2::nat) ^ (31 - ?y) < 2 ^ (32 - z)"
    using assms y by linarith+
  then have "31 - z < 32 - ?y" "31 - ?y < 32 - z"
    by (simp_all only: power_strict_increasing_iff one_less_numeral_iff semiring_norm)
  then show ?thesis using assms y by linarith
qed

section \<open>The reader's invariant\<close>

text \<open>\<open>bs_ok mem base b\<close>: the two buffers hold the memory words around the read position, and
  the position is \<open>TotalPos\<close> bits behind the bit address \<open>base\<close>.\<close>

definition bs_pos :: "pvr_bs \<Rightarrow> nat" where
  "bs_pos b = 8 * (pTail b - 8) + nat (BufPos b)"

definition bs_ok :: "(nat \<Rightarrow> u8) \<Rightarrow> nat \<Rightarrow> pvr_bs \<Rightarrow> bool" where
  "bs_ok mem base b \<longleftrightarrow> 4 dvd pTail b \<and> 8 \<le> pTail b
     \<and> Bufa b = be_word mem (pTail b - 8) \<and> Bufb b = be_word mem (pTail b - 4)
     \<and> 0 \<le> BufPos b \<and> BufPos b < 32 \<and> 0 \<le> TotalPos b \<and> int (bs_pos b) = int base + TotalPos b"

lemma bs_okD:
  assumes "bs_ok mem base b"
  shows "4 dvd pTail b" "8 \<le> pTail b" "Bufa b = be_word mem (pTail b - 8)"
    "Bufb b = be_word mem (pTail b - 4)" "0 \<le> BufPos b" "BufPos b < 32" "0 \<le> TotalPos b"
    "int (bs_pos b) = int base + TotalPos b"
  using assms by (simp_all add: bs_ok_def)

lemma align_down:
  assumes "p < U32_RANGE"
  shows "p AND 0xfffffffc = 4 * (p div 4)"
proof -
  have m: "(0xfffffffc::nat) = push_bit 2 (mask 30)" by (simp add: mask_numeral)
  have "take_bit 32 p = p" using assms by (simp add: take_bit_eq_mod)
  then have b: "i < 32" if "bit p i" for i using that by (metis bit_take_bit_iff)
  have "p AND push_bit 2 (mask 30) = push_bit 2 (drop_bit 2 p)"
    by (intro bit_eqI, simp only: bit_and_iff bit_push_bit_iff bit_drop_bit_eq bit_mask_iff comp_apply)
      (auto dest: b simp del: add_2_eq_Suc add_2_eq_Suc')
  then have "p AND 0xfffffffc = push_bit 2 (drop_bit 2 p)" by (simp only: m)
  then show ?thesis by (simp add: push_bit_eq_mult drop_bit_eq_div mult.commute)
qed

lemma PvrBsInit_ok:
  assumes "pInput < U32_RANGE"
  shows "bs_ok mem (8 * pInput) (PvrBsInit mem pInput len)"
    and "bs_pos (PvrBsInit mem pInput len) = 8 * pInput"
proof -
  have "push_bit 3 (pInput AND 3) = 8 * (pInput mod 4)"
  proof -
    have "pInput AND 3 = take_bit 2 pInput"      using take_bit_eq_mask [of 2 pInput] by (simp add: mask_numeral numeral_3_eq_3)
    then show ?thesis by (simp add: push_bit_eq_mult take_bit_eq_mod)
  qed
  moreover have "8 * (4 * (pInput div 4)) + 8 * (pInput mod 4) = 8 * pInput"
    using mult_div_mod_eq [of 4 pInput] by linarith
  moreover have "pInput mod 4 < 4" by simp
  ultimately show "bs_ok mem (8 * pInput) (PvrBsInit mem pInput len)"
    "bs_pos (PvrBsInit mem pInput len) = 8 * pInput"
    using align_down [OF assms]
    by (simp_all add: PvrBsInit_def Let_def bs_ok_def bs_pos_def be_word_def add.commute)
qed

lemma PvrBsSkip_ok:
  assumes "bs_ok mem base b" "0 \<le> n" "n \<le> 32"
  shows "bs_ok mem base (PvrBsSkip mem b n)"
    and "bs_pos (PvrBsSkip mem b n) = bs_pos b + nat n"
    and "TotalPos (PvrBsSkip mem b n) = TotalPos b + n"
  using assms by (auto simp: PvrBsSkip_def Let_def bs_ok_def bs_pos_def be_word_def)

lemma PvrBsSkipWithoutCount_ok:
  assumes "bs_ok mem base b" "0 \<le> n" "n \<le> 32"
  shows "bs_ok mem (base + nat n) (PvrBsSkipWithoutCount mem b n)"
    and "bs_pos (PvrBsSkipWithoutCount mem b n) = bs_pos b + nat n"
  using assms by (auto simp: PvrBsSkipWithoutCount_def Let_def bs_ok_def bs_pos_def be_word_def)

lemma bit_drop_high:
  assumes "n \<le> 32" "n \<le> i"
  shows "\<not> bit (drop_bit (32 - n) (w :: u32)) i"
proof
  assume "bit (drop_bit (32 - n) w) i"
  then have "bit w (32 - n + i)" by (simp only: bit_drop_bit_eq comp_apply)
  then show False using assms by (auto dest: bit_imp_le_length)
qed

lemma show_across:
  assumes "1 \<le> n" "n \<le> 32" "bp < 32" "32 < n + bp"
  shows "unat (drop_bit (32 - n) (push_bit bp (be_word mem p) OR drop_bit (32 - bp) (be_word mem (p + 4))))
    = bits_at mem (8 * p + bp) n" (is "unat ?w = _")
proof (rule bit_eqI)
  fix i
  have "bit ?w i \<longleftrightarrow> i < n \<and> mem_bit mem (8 * p + bp + (n - 1 - i))"
  proof (cases "i < n")
    case True
    define j where "j = i + (32 - n)"
    have j: "j < 32" "n - 1 - i = 31 - j" using True assms by (simp_all add: j_def)
    have "bit ?w i \<longleftrightarrow> (bp \<le> j \<and> bit (be_word mem p) (j - bp)) \<or> bit (be_word mem (p + 4)) (j + (32 - bp))"
    proof -
      have "32 - n + i = j" "32 - bp + j = j + (32 - bp)" by (simp_all add: j_def)
      then show ?thesis
        using j by (simp only: bit_drop_bit_eq bit_or_iff bit_push_bit_iff comp_apply) (simp add: possible_bit_word)
    qed
    also have "\<dots> \<longleftrightarrow> mem_bit mem (8 * p + bp + (31 - j))"
    proof (cases "bp \<le> j")
      case True
      have "\<not> bit (be_word mem (p + 4)) (j + (32 - bp))"
        using True assms(3) by (auto dest!: bit_imp_le_length)
      then show ?thesis using True j assms by (simp add: bit_be_word algebra_simps)
    next
      case False
      then have "bit (be_word mem (p + 4)) (j + (32 - bp)) = mem_bit mem (8 * (p + 4) + (31 - (j + (32 - bp))))"
        using assms by (intro bit_be_word) simp
      moreover have "8 * (p + 4) + (31 - (j + (32 - bp))) = 8 * p + bp + (31 - j)"
        using False assms by simp
      ultimately show ?thesis using False by (simp only:) simp
    qed
    finally show ?thesis using True j by simp
  next
    case False
    then have "\<not> bit ?w i" using assms by (intro bit_drop_high) simp_all
    then show ?thesis using False by (simp only: simp_thms)
  qed
  then show "bit (unat ?w) i \<longleftrightarrow> bit (bits_at mem (8 * p + bp) n) i"
    by (simp add: bit_bits_at)
qed

lemma show_inside:
  assumes "1 \<le> n" "n + bp \<le> 32"
  shows "unat (drop_bit (32 - n) (push_bit bp (be_word mem p))) = bits_at mem (8 * p + bp) n"
    (is "unat ?w = _")
proof (rule bit_eqI)
  fix i
  have "bit ?w i \<longleftrightarrow> i < n \<and> mem_bit mem (8 * p + bp + (n - 1 - i))"
  proof (cases "i < n")
    case True
    then have "bit ?w i \<longleftrightarrow> bit (be_word mem p) (i + (32 - n) - bp)"
      using assms by (auto simp: bit_drop_bit_eq bit_push_bit_iff possible_bit_word add.commute)
    moreover have "8 * p + (31 - (i + (32 - n) - bp)) = 8 * p + bp + (n - 1 - i)"
      using True assms by simp
    ultimately show ?thesis using True assms by (simp add: bit_be_word)
  next
    case False
    then have "\<not> bit ?w i" using assms by (intro bit_drop_high) simp_all
    then show ?thesis using False by (simp only: simp_thms)
  qed
  then show "bit (unat ?w) i \<longleftrightarrow> bit (bits_at mem (8 * p + bp) n) i"
    by (simp add: bit_bits_at)
qed

lemma PvrBsShow_bits:
  assumes "bs_ok mem base b" "1 \<le> n" "n \<le> 32"
  shows "map_option unat (PvrBsShow b (int n)) = Some (bits_at mem (bs_pos b) n)"
proof -
  note ok = bs_okD [OF assms(1)]
  define p bp where "p = pTail b - 8" and "bp = nat (BufPos b)"
  have b: "Bufa b = be_word mem p" "Bufb b = be_word mem (p + 4)" "BufPos b = int bp" "bp < 32"
    "bs_pos b = 8 * p + bp" "pTail b - 4 = p + 4"
    using ok by (auto simp: p_def bp_def bs_pos_def)
  have sh: "nat (32 - int k) = 32 - k" for k by simp
  show ?thesis
  proof (cases "32 < n + bp")
    case True
    have s: "c_shl (Bufa b) (int bp) = Some (push_bit bp (be_word mem p))"
      "c_shr (Bufb b) (32 - int bp) = Some (drop_bit (32 - bp) (be_word mem (p + 4)))"
      "c_shr w (32 - int n) = Some (drop_bit (32 - n) w)" for w
      using True b assms by (auto simp only: c_shl_def c_shr_def sh nat_int split: if_split)
    have g: "int n + BufPos b > 32" using True b by simp
    have "PvrBsShow b (int n) = Some (drop_bit (32 - n) (push_bit bp (be_word mem p) OR drop_bit (32 - bp) (be_word mem (p + 4))))"
      using g b(3) s by (simp only: PvrBsShow_def Let_def if_True bind.bind_lunit)
    then show ?thesis
      using show_across [OF assms(2,3) b(4) True] b by (simp only: option.map)
  next
    case False
    have s: "c_shl (Bufa b) (int bp) = Some (push_bit bp (be_word mem p))"
      "c_shr w (32 - int n) = Some (drop_bit (32 - n) w)" for w
      using False b assms by (auto simp only: c_shl_def c_shr_def sh nat_int split: if_split)
    have g: "\<not> int n + BufPos b > 32" using False b by simp
    have "PvrBsShow b (int n) = Some (drop_bit (32 - n) (push_bit bp (be_word mem p)))"
      using g b(3) s by (simp only: PvrBsShow_def Let_def if_False bind.bind_lunit)
    moreover have "n + bp \<le> 32" using False by simp
    ultimately show ?thesis
      using show_inside [OF assms(2)] b by (simp only: option.map)
  qed
qed

interpretation bs: bit_reader mem "bs_ok mem base" bs_pos "\<lambda>b n. PvrBsShow b (int n)"
  "\<lambda>b n. PvrBsSkip mem b (int n)" for mem base
  by unfold_locales (auto simp: PvrBsShow_bits PvrBsSkip_ok)

section \<open>Moving the reader\<close>

text \<open>Two readers that agree on the invariant, the position and the constant fields are equal: the
  buffers are determined by the position.\<close>

lemma bs_ok_unique:
  assumes "bs_ok mem base b" "bs_ok mem base c" "TotalPos b = TotalPos c" "BsLen b = BsLen c" "pHead b = pHead c"
  shows "b = c"
proof -
  note B = bs_okD [OF assms(1)] and C = bs_okD [OF assms(2)]
  obtain k l where kl: "pTail b = 4 * k" "pTail c = 4 * l" using B(1) C(1) by (auto elim!: dvdE)
  have "bs_pos b = bs_pos c" using B(8) C(8) assms(3) by simp
  then have "32 * k + nat (BufPos b) = 32 * l + nat (BufPos c)"
    using B(2) C(2) kl by (simp add: bs_pos_def)
  moreover have "nat (BufPos b) < 32" "nat (BufPos c) < 32" using B C by auto
  moreover have "k = l \<and> x = y" if "32 * k + x = 32 * l + y" "x < 32" "y < (32::nat)" for x y
    using that by presburger
  ultimately have "k = l" "nat (BufPos b) = nat (BufPos c)" by blast+
  then have "pTail b = pTail c" "BufPos b = BufPos c" using B(5) C(5) kl by (simp_all add: eq_nat_nat_iff)
  then show ?thesis using B C assms by (cases b, cases c) simp
qed

lemma PvrBsBack_ok:
  assumes "bs_ok mem base b" "0 \<le> n" "n \<le> 32"
  shows "bs_ok mem base (snd (PvrBsBack mem b n))"
    and "TotalPos (snd (PvrBsBack mem b n)) = TotalPos b - min n (TotalPos b)"
proof -
  note B = bs_okD [OF assms(1)]
  define m where "m = (if n > TotalPos b then TotalPos b else n)"
  have m: "0 \<le> m" "m \<le> 32" "m \<le> TotalPos b" "m = min n (TotalPos b)"
    using assms B(7) by (auto simp: m_def)
  have tail: "12 \<le> pTail b" if "BufPos b < m"
  proof -
    obtain k where k: "pTail b = 4 * k" using B(1) by (elim dvdE)
    have "int (8 * (pTail b - 8)) + BufPos b = int base + TotalPos b"
      using B(5,8) by (simp add: bs_pos_def)
    then have "0 < pTail b - 8" using that m(3) by linarith
    then show ?thesis using k by simp
  qed
  show "TotalPos (snd (PvrBsBack mem b n)) = TotalPos b - min n (TotalPos b)"
    by (simp add: PvrBsBack_def Let_def m(4) [symmetric]) (simp add: m_def)
  show "bs_ok mem base (snd (PvrBsBack mem b n))"
  proof (cases "BufPos b < m")
    case True
    then have "snd (PvrBsBack mem b n) = b\<lparr>TotalPos := TotalPos b - m, pTail := pTail b - 4, Bufb := Bufa b,
        Bufa := be_word mem (pTail b - 4 - 8), BufPos := BufPos b - m + 32\<rparr>"
      by (simp add: PvrBsBack_def Let_def m_def [symmetric] be_word_def)
    then show ?thesis
      using True B tail [OF True] m by (auto simp: bs_ok_def bs_pos_def dvd_diff_nat)
  next
    case False
    then have "snd (PvrBsBack mem b n) = b\<lparr>TotalPos := TotalPos b - m, BufPos := BufPos b - m\<rparr>"
      by (simp add: PvrBsBack_def Let_def m_def [symmetric])
    then show ?thesis
      using False B m by (auto simp: bs_ok_def bs_pos_def)
  qed
qed

lemma PvrBsSkip_fields [simp]:
  "BsLen (PvrBsSkip mem b n) = BsLen b" "pHead (PvrBsSkip mem b n) = pHead b"
  by (simp_all add: PvrBsSkip_def Let_def)

lemma PvrBsBack_fields [simp]:
  "BsLen (snd (PvrBsBack mem b n)) = BsLen b" "pHead (snd (PvrBsBack mem b n)) = pHead b"
  by (simp_all add: PvrBsBack_def Let_def)

lemma skip_back:
  assumes "bs_ok mem base b" "0 \<le> n" "n \<le> 32"
  shows "snd (PvrBsBack mem (PvrBsSkip mem b n) n) = b"
proof (rule bs_ok_unique)
  note s = PvrBsSkip_ok [OF assms]
  show "bs_ok mem base (snd (PvrBsBack mem (PvrBsSkip mem b n) n))"
    using PvrBsBack_ok(1) [OF s(1) assms(2,3)] .
  show "TotalPos (snd (PvrBsBack mem (PvrBsSkip mem b n) n)) = TotalPos b"
    using PvrBsBack_ok(2) [OF s(1) assms(2,3)] s(3) bs_okD(7) [OF assms(1)] by simp
qed (use assms in simp_all)

lemma long_jump_ok:
  assumes "bs_ok mem base b" "64 < n"
  shows "bs_ok mem base (snd (long_jump mem b n))"
    and "TotalPos (snd (long_jump mem b n)) = TotalPos b + n"
proof -
  note B = bs_okD [OF assms(1)]
  define r w m t where "r = n - (32 - BufPos b)" and "w = r div 32" and "m = r AND 0x1f"
    and "t = nat (int (pTail b) + 4 * (w - 1))"
  have m: "m = r mod 32"
  proof -
    have "m = take_bit 5 r" by (simp add: take_bit_eq_mask mask_numeral m_def)
    then show ?thesis by (simp add: take_bit_eq_mod)
  qed
  have "32 < r" using B(5) assms(2) by (simp add: r_def)
  then have w: "1 \<le> w" "r = 32 * w + m" "0 \<le> m" "m < 32" by (simp_all add: w_def m)
  then obtain k where k: "w = 1 + int k" using zle_iff_zadd by blast
  then have t: "t = pTail b + 4 * k" by (simp add: t_def)
  define c where "c = b\<lparr>BufPos := 0, Bufa := be_word mem t, Bufb := be_word mem (t + 4), pTail := t + 8,
    TotalPos := TotalPos b + (32 - BufPos b) + w * 32\<rparr>"
  have c: "bs_ok mem base c"
    using B k t by (auto simp: bs_ok_def bs_pos_def c_def add.commute)
  have j: "snd (long_jump mem b n) = (if 0 < m then PvrBsSkip mem c m else c)"
    by (simp add: long_jump_def Let_def r_def [symmetric] w_def [symmetric] m_def [symmetric]
        t_def c_def be_word_def add.commute)
  show "bs_ok mem base (snd (long_jump mem b n))"
    using j c w PvrBsSkip_ok(1) [OF c] by simp
  have "TotalPos c + m = TotalPos b + n" using w(2) by (simp add: c_def r_def)
  then show "TotalPos (snd (long_jump mem b n)) = TotalPos b + n"
    using j w PvrBsSkip_ok(3) [OF c] by simp
qed

lemma PvrBsLongSkip_ok:
  assumes "bs_ok mem base b" "0 \<le> n"
  shows "bs_ok mem base (snd (PvrBsLongSkip mem b n))"
    and "TotalPos (snd (PvrBsLongSkip mem b n)) = TotalPos b + n"
proof -
  note s32 = PvrBsSkip_ok [OF assms(1), of 32]
  show "bs_ok mem base (snd (PvrBsLongSkip mem b n))"
    using assms s32 PvrBsSkip_ok(1) [OF assms(1), of n] PvrBsSkip_ok(1) [OF s32(1), of "n - 32"]
      long_jump_ok(1) [OF assms(1), of n]
    by (auto simp: PvrBsLongSkip_def)
  show "TotalPos (snd (PvrBsLongSkip mem b n)) = TotalPos b + n"
    using assms s32 PvrBsSkip_ok(3) [OF assms(1), of n] PvrBsSkip_ok(3) [OF s32(1), of "n - 32"]
      long_jump_ok(2) [OF assms(1), of n]
    by (auto simp: PvrBsLongSkip_def)
qed

lemma align_up:
  fixes t :: int
  assumes "0 \<le> t" "t + 7 < 2 ^ 32"
  shows "(t + 7) AND 0xfffffff8 = 8 * ((t + 7) div 8)"
proof -
  have m: "(0xfffffff8::int) = push_bit 3 (mask 29)" by (simp add: mask_numeral)
  have "take_bit 32 (t + 7) = t + 7" using assms by (simp add: take_bit_eq_mod)
  then have b: "i < 32" if "bit (t + 7) i" for i using that by (metis bit_take_bit_iff)
  have "(t + 7) AND push_bit 3 (mask 29) = push_bit 3 (drop_bit 3 (t + 7))"
    by (intro bit_eqI, simp only: bit_and_iff bit_push_bit_iff bit_drop_bit_eq bit_mask_iff comp_apply)
      (auto dest: b)
  then show ?thesis by (simp only: m push_bit_eq_mult drop_bit_eq_div) simp
qed

lemma and_7: "(t::int) AND 7 = t mod 8"
proof -
  have "t AND 7 = take_bit 3 t" by (simp add: take_bit_eq_mask mask_numeral)
  then show ?thesis by (simp add: take_bit_eq_mod)
qed

lemma align_up_bits:
  fixes t :: int
  assumes "0 \<le> t" "t + 7 < 2 ^ 32"
  shows "((t + 7) AND 0xfffffff8) - t = (- t) mod 8"
proof -
  have "8 * ((t + 7) div 8) - t = 7 - (t + 7) mod 8"
    using mult_div_mod_eq [of 8 "t + 7"] by linarith
  moreover have "7 - (t + 7) mod 8 = (- t) mod 8" by presburger
  ultimately show ?thesis by (simp only: align_up [OF assms])
qed

lemma PvrBsToNextByte_ok:
  assumes "bs_ok mem base b" "TotalPos b + 7 < 2 ^ 32"
  shows "bs_ok mem base (snd (PvrBsToNextByte mem b))"
    and "fst (PvrBsToNextByte mem b) = PvrBsBitsToNextByte b"
    and "TotalPos (snd (PvrBsToNextByte mem b)) = TotalPos b + PvrBsBitsToNextByte b"
    and "PvrBsIsByteAligned (snd (PvrBsToNextByte mem b))"
    and "0 \<le> PvrBsBitsToNextByte b \<and> PvrBsBitsToNextByte b < 8"
proof -
  let ?n = "PvrBsBitsToNextByte b"
  have n: "?n = (- TotalPos b) mod 8"
    using align_up_bits bs_okD(7) [OF assms(1)] assms(2) by (simp add: PvrBsBitsToNextByte_def)
  then show le: "0 \<le> ?n \<and> ?n < 8" by simp
  have e: "PvrBsToNextByte mem b = (?n, PvrBsSkip mem b ?n)"
    by (simp add: PvrBsToNextByte_def PvrBsBitsToNextByte_def Let_def)
  have s: "bs_ok mem base (PvrBsSkip mem b ?n)" "TotalPos (PvrBsSkip mem b ?n) = TotalPos b + ?n"
    using PvrBsSkip_ok [OF assms(1), of ?n] le by auto
  then show "bs_ok mem base (snd (PvrBsToNextByte mem b))" "fst (PvrBsToNextByte mem b) = ?n"
    "TotalPos (snd (PvrBsToNextByte mem b)) = TotalPos b + ?n"
    by (simp_all add: e)
  have "(TotalPos b + ?n) mod 8 = 0" unfolding n by presburger
  then show "PvrBsIsByteAligned (snd (PvrBsToNextByte mem b))"
    using s by (simp add: e PvrBsIsByteAligned_def and_7)
qed

lemma PvrBsGetNextBytePtr_ok:
  assumes "bs_ok mem base b"
  shows "PvrBsGetNextBytePtr b = (bs_pos b + 7) div 8"
proof -
  note B = bs_okD [OF assms]
  define p q where "p = pTail b - 8" and "q = nat (BufPos b)"
  have pq: "pTail b = p + 8" "BufPos b = int q" "q < 32"
    using B(2,5,6) by (simp_all add: p_def q_def)
  have "(32 - int q) div 8 = int ((32 - q) div 8)" using pq(3) by (simp add: of_nat_diff zdiv_int)
  then have "PvrBsGetNextBytePtr b = p + 8 - (4 + (32 - q) div 8)"
    by (simp add: PvrBsGetNextBytePtr_def Let_def pq)
  also have "(32 - q) div 8 = 4 - (q + 7) div 8"
  proof -
    have "\<forall>q\<in>set [0..<32]. (32 - q) div 8 = 4 - (q + 7) div (8::nat)" by code_simp
    then show ?thesis using pq(3) by simp
  qed
  also have "p + 8 - (4 + (4 - (q + 7) div 8)) = p + (q + 7) div 8" using pq(3) by simp
  also have "\<dots> = (8 * p + q + 7) div 8" by (simp add: add.assoc)
  finally show ?thesis by (simp add: bs_pos_def pq)
qed

lemma skips_ok:
  assumes "bs_ok mem base b" "\<forall>n\<in>set ns. 0 \<le> n \<and> n \<le> 32"
  shows "bs_ok mem base (foldl (PvrBsSkip mem) b ns) \<and> TotalPos (foldl (PvrBsSkip mem) b ns) = TotalPos b + sum_list ns
    \<and> BsLen (foldl (PvrBsSkip mem) b ns) = BsLen b \<and> pHead (foldl (PvrBsSkip mem) b ns) = pHead b"
  using assms by (induction ns arbitrary: b) (auto simp: PvrBsSkip_ok)

lemma PvrBsLongSkip_fields [simp]:
  "BsLen (snd (PvrBsLongSkip mem b n)) = BsLen b" "pHead (snd (PvrBsLongSkip mem b n)) = pHead b"
  by (simp_all add: PvrBsLongSkip_def long_jump_def Let_def)

text \<open>Successive \<open>PvrBsGet\<close> calls are the client loop of the interface.\<close>

fun get_all :: "(nat \<Rightarrow> u8) \<Rightarrow> pvr_bs \<Rightarrow> nat list \<Rightarrow> (nat list \<times> pvr_bs) option" where
  "get_all mem b [] = Some ([], b)"
| "get_all mem b (w # ws) =
     (case PvrBsGet mem b (int w) of None \<Rightarrow> None
      | Some (v, b') \<Rightarrow> map_option (\<lambda>(vs, b''). (unat v # vs, b'')) (get_all mem b' ws))"

lemma get_all_read_fields: "get_all mem b ws = bs.read_fields mem b ws"
  by (induction ws arbitrary: b) (auto simp: PvrBsGet_def split: option.split)

section \<open>Properties\<close>

text \<open>C24. A reader initialised at any 32-bit address, aligned or not, reads consecutive fields:
  for every list of field widths between 1 and 32 bits the values returned by successive
  \<open>PvrBsGet\<close> calls are the big-endian fields of the memory that follow the address, and the
  reader's position counts their bits. No shift is out of range on the way.\<close>

theorem pvr_bs_reads_fields:
  assumes "pInput < U32_RANGE" "\<forall>w\<in>set ws. 1 \<le> w \<and> w \<le> 32"
  shows "\<exists>b'. get_all mem (PvrBsInit mem pInput len) ws = Some (fields_at mem (8 * pInput) ws, b')
    \<and> PvrBsPos b' = int (sum_list ws)"
proof -
  note i = PvrBsInit_ok [OF assms(1), of mem len]
  obtain b' where b': "get_all mem (PvrBsInit mem pInput len) ws = Some (fields_at mem (8 * pInput) ws, b')"
    "bs_ok mem (8 * pInput) b'" "bs_pos b' = 8 * pInput + sum_list ws"
    using bs.read_fields_ok [OF i(1) assms(2)] i(2) by (auto simp: get_all_read_fields)
  then show ?thesis
    using bs_okD(8) [OF b'(2)] by (simp add: PvrBsPos_def)
qed

text \<open>Peeking at the next byte boundary: \<open>PvrBsNextBitsByteAligned\<close> returns the bits that follow
  the next byte boundary (the boundary after a whole byte when the reader is aligned), for every
  width up to 32, and leaves the reader exactly as it was: skipping and stepping back is the
  identity also when it crosses a buffer word.\<close>

theorem pvr_bs_peek_aligned:
  assumes "bs_ok mem base b" "1 \<le> n" "n \<le> 32"
  shows "\<exists>v. PvrBsNextBitsByteAligned mem b (int n) = Some (v, b)
    \<and> unat v = bits_at mem (base + 8 * (nat (TotalPos b) div 8 + 1)) n"
proof -
  define k where "k = 8 - (TotalPos b AND 7)"
  have t: "0 \<le> TotalPos b" using bs_okD(7) [OF assms(1)] .
  have k: "0 \<le> k" "k \<le> 32" by (simp_all add: k_def and_7)
  note s = PvrBsSkip_ok [OF assms(1) k]
  have "int (bs_pos (PvrBsSkip mem b k)) = int base + (TotalPos b + k)"
    using bs_okD(8) [OF s(1)] s(3) by simp
  also have "TotalPos b + k = 8 * (TotalPos b div 8 + 1)"
  proof -
    have "t + (8 - t mod 8) = 8 * (t div 8 + 1)" for t :: int by presburger
    then show ?thesis by (simp only: k_def and_7)
  qed
  finally have p: "int (bs_pos (PvrBsSkip mem b k)) = int base + 8 * (TotalPos b div 8 + 1)" .
  have "bs_pos (PvrBsSkip mem b k) = base + 8 * (nat (TotalPos b) div 8 + 1)"
  proof -
    obtain u where "TotalPos b = int u" using nonneg_int_cases [OF t] .
    then have "TotalPos b div 8 = int (u div 8)" "nat (TotalPos b) = u" by (simp_all add: zdiv_int)
    with p show ?thesis by simp
  qed
  with PvrBsShow_bits [OF s(1) assms(2,3)] obtain v where
    "PvrBsShow (PvrBsSkip mem b k) (int n) = Some v"
    "unat v = bits_at mem (base + 8 * (nat (TotalPos b) div 8 + 1)) n"
    by auto
  then show ?thesis
    using skip_back [OF assms(1) k] by (simp add: PvrBsNextBitsByteAligned_def k_def Let_def)
qed

text \<open>A long skip is the skips it replaces: \<open>PvrBsLongSkip\<close> of any distance leaves the reader,
  buffers included, in the state that skipping the same distance in steps of at most 32 bits
  gives.\<close>

theorem pvr_bs_long_skip:
  assumes "bs_ok mem base b" "\<forall>n\<in>set ns. 0 \<le> n \<and> n \<le> 32"
  shows "snd (PvrBsLongSkip mem b (sum_list ns)) = foldl (PvrBsSkip mem) b ns"
proof -
  have n: "0 \<le> sum_list ns" using assms(2) by (intro sum_list_nonneg) auto
  note f = skips_ok [OF assms]
  show ?thesis
    using f PvrBsLongSkip_ok [OF assms(1) n] by (intro bs_ok_unique [of mem base]) simp_all
qed

text \<open>\<open>PvrZerosMS_32\<close> is the number of leading zero bits of its argument: the table-driven loop
  stops with the position of the highest set bit, and with 32 for zero.\<close>

theorem pvr_zeros_leading:
  "PvrZerosMS_32 d = (if d = 0 then 32 else 31 - (GREATEST i. bit d i))"
proof (cases "d = 0")
  case True
  then show ?thesis using PvrZerosMS_32_bounds(2) [of d] by simp
next
  case False
  let ?z = "PvrZerosMS_32 d"
  have z: "?z < 32" "2 ^ (31 - ?z) \<le> unat d" "unat d < 2 ^ (32 - ?z)"
    using PvrZerosMS_32_bounds False by blast+
  have "(GREATEST i. bit d i) = 31 - ?z"
  proof (rule Greatest_equality)
    have "32 - ?z = Suc (31 - ?z)" using z(1) by simp
    then have "unat d < 2 * 2 ^ (31 - ?z)" using z(3) by simp
    then have "unat d div 2 ^ (31 - ?z) = 1" using z(2) by (intro div_nat_eqI) simp_all
    then have "bit (unat d) (31 - ?z)" by (simp only: bit_iff_odd) simp
    then show "bit d (31 - ?z)" by simp
  next
    fix i assume "bit d i"
    then have "bit (unat d) i" by simp
    then have "unat d div 2 ^ i \<noteq> 0" by (metis bit_iff_odd even_zero)
    then have "2 ^ i \<le> unat d" by (meson div_less leI)
    then have "(2::nat) ^ i < 2 ^ (32 - ?z)" using z(3) by linarith
    then have "i < 32 - ?z" by (simp only: power_strict_increasing_iff one_less_numeral_iff semiring_norm)
    then show "i \<le> 31 - ?z" by linarith
  qed
  then show ?thesis using False z(1) by simp
qed

section \<open>Witnesses\<close>

definition ex_mem :: "nat \<Rightarrow> u8" where
  "ex_mem a = word_of_nat (a * 37 + 5)"

theorem pvr_bs_reads_fields_witness:
  "\<exists>b'. get_all ex_mem (PvrBsInit ex_mem 6 16) [3, 32, 7] = Some (fields_at ex_mem 48 [3, 32, 7], b')
    \<and> PvrBsPos b' = 42"
  using pvr_bs_reads_fields [of 6 "[3, 32, 7]" ex_mem 16] by simp

lemma ex_bs_ok: "bs_ok ex_mem 48 (PvrBsInit ex_mem 6 16)"
  using PvrBsInit_ok(1) [of 6 ex_mem 16] by simp

theorem pvr_bs_peek_aligned_witness:
  "\<exists>v. PvrBsNextBitsByteAligned ex_mem (PvrBsInit ex_mem 6 16) 32 = Some (v, PvrBsInit ex_mem 6 16)
    \<and> unat v = bits_at ex_mem 56 32"
proof -
  have "TotalPos (PvrBsInit ex_mem 6 16) = 0" by (simp add: PvrBsInit_def Let_def)
  then show ?thesis
    using pvr_bs_peek_aligned [OF ex_bs_ok, of 32] by simp
qed

theorem pvr_bs_long_skip_witness:
  "snd (PvrBsLongSkip ex_mem (PvrBsInit ex_mem 6 16) 75)
    = foldl (PvrBsSkip ex_mem) (PvrBsInit ex_mem 6 16) [32, 32, 11]"
  using pvr_bs_long_skip [OF ex_bs_ok, of "[32, 32, 11]"] by simp

end
