(* ===== verification/FrameIndex.thy ===== *)
theory FrameIndex
  imports Bitstream
begin

text \<open>
  The frame index of the recorder, \<open>src/msp/drv/demux/drv_demux_index.c\<close>: a state machine that is
  fed the start codes of a video elementary stream and reports the position, size, type and
  presentation time of every frame. One context record per instance; \<open>ProcessSC_Mpeg2\<close>,
  \<open>ProcessSC_Avs\<close>, \<open>ProcessSC_Mpeg4\<close> and \<open>ProcessSC_H264\<close> are the four standards. A call returns the
  new context and the frames it hands to the output callback, each with the \<open>Param\<close> pointer of the
  instance; \<open>cb\<close> says whether a callback is registered. \<open>PUT_PTS_ON_I_FRAME_ONLY\<close> is not defined, as
  in the source. Context fields that no function reads or writes (the bookkeeping of the last two
  bytes, \<open>s32WaitFrameSize\<close>, \<open>s32SpsIdForPps\<close>) are left out. The invariants keep the indices in range, every
  kept position one that was fed (\<open>fidx_inv\<close>) and, for increasing positions, before the next code (\<open>fwd\<close>).
\<close>

section \<open>Data\<close>

datatype sc_type = SC_TYPE_UNKNOWN | SC_TYPE_SPS | SC_TYPE_PPS | SC_TYPE_PIC | SC_TYPE_SLICE | SC_TYPE_NONSLICE

record sc_info =
  eScType :: sc_type
  s32ScID :: nat
  s32SupScID :: nat
  s64GlobalOffset :: int
  s32OffsetInPacket :: int
  s32PacketCount :: int

datatype ctx_state = CTX_STATE_DISABLE | CTX_STATE_ENABLE

datatype vidstd = VIDSTD_MPEG2 | VIDSTD_MPEG4 | VIDSTD_AVS | VIDSTD_H264 | VIDSTD_VC1 | VIDSTD_H263
  | VIDSTD_DIVX3 | VIDSTD_AUDIO_PES

datatype strm_type = STRM_TYPE_ES | STRM_TYPE_PES

datatype frame_type = FIDX_FRAME_TYPE_UNKNOWN | FIDX_FRAME_TYPE_I | FIDX_FRAME_TYPE_P | FIDX_FRAME_TYPE_B
  | FIDX_FRAME_TYPE_PESH

datatype fidx_ret = FIDX_OK | FIDX_ERR

record frame_pos =
  eFrameType :: frame_type
  fp_PTS :: u32
  fp_GlobalOffset :: int
  fp_OffsetInPacket :: int
  fp_PacketCount :: int
  s32FrameSize :: int

record findex_scd =
  u8IndexType :: u8
  u8StartCode :: u8
  u32PtsMs :: u32
  scd_GlobalOffset :: int
  au8DataAfterSC :: "u8 list"

record fidx_ctx =
  eCtxState :: ctx_state
  eVideoStandard :: vidstd
  eStrmType :: strm_type
  u32PTS :: u32
  stSPS :: "sc_info list"
  u8SpsFresh :: "nat list"
  stPPS :: "sc_info list"
  u8Prev2Bytes :: "u8 list"
  s32ThisSCValid :: bool
  stThisSC :: sc_info
  u8ThisSCData :: "u8 list"
  s32ThisSCDataLen :: nat
  stSEIFollowSlice :: sc_info
  stNewFramePos :: frame_pos
  s32SpsID :: nat
  s32PpsID :: nat
  Param :: nat

type_synonym frame_out = "(nat \<times> frame_pos) list"

definition SC_SUPPORT_DATA_SIZE :: nat where "SC_SUPPORT_DATA_SIZE = 16"

definition INVALID_PTS :: u32 where "INVALID_PTS = 0xffffffff"

text \<open>The conversion of a 64-bit difference to \<open>mt_s32\<close>, and structures cleared by \<open>memset\<close>.\<close>

definition s32_cast :: "int \<Rightarrow> int" where
  "s32_cast x = (x + 2 ^ 31) mod 2 ^ 32 - 2 ^ 31"

definition sc_zero :: sc_info where
  "sc_zero = \<lparr>eScType = SC_TYPE_UNKNOWN, s32ScID = 0, s32SupScID = 0, s64GlobalOffset = 0,
     s32OffsetInPacket = 0, s32PacketCount = 0\<rparr>"

definition frame_zero :: frame_pos where
  "frame_zero = \<lparr>eFrameType = FIDX_FRAME_TYPE_UNKNOWN, fp_PTS = 0, fp_GlobalOffset = 0,
     fp_OffsetInPacket = 0, fp_PacketCount = 0, s32FrameSize = 0\<rparr>"

definition ctx_zero :: fidx_ctx where
  "ctx_zero = \<lparr>eCtxState = CTX_STATE_DISABLE, eVideoStandard = VIDSTD_MPEG2, eStrmType = STRM_TYPE_ES,
     u32PTS = 0, stSPS = replicate 32 sc_zero, u8SpsFresh = replicate 32 0, stPPS = replicate 256 sc_zero,
     u8Prev2Bytes = [0, 0], s32ThisSCValid = False, stThisSC = sc_zero,
     u8ThisSCData = replicate SC_SUPPORT_DATA_SIZE 0, s32ThisSCDataLen = 0, stSEIFollowSlice = sc_zero,
     stNewFramePos = frame_zero, s32SpsID = 0, s32PpsID = 0, Param = 0\<rparr>"

section \<open>Steps shared by the standards\<close>

definition OUTPUT_FRAME :: "bool \<Rightarrow> fidx_ctx \<Rightarrow> fidx_ctx \<times> frame_out" where
  "OUTPUT_FRAME cb c = (c\<lparr>stNewFramePos := frame_zero\<rparr>, if cb then [(Param c, stNewFramePos c)] else [])"

definition IS_SC_WRONG :: "fidx_ctx \<Rightarrow> bool" where
  "IS_SC_WRONG c \<longleftrightarrow> s32ThisSCDataLen c < 3 \<or>
     (u8ThisSCData c ! 0 = 0 \<and> u8ThisSCData c ! 1 = 0 \<and> u8ThisSCData c ! 2 = 1)"

definition IsPesSC :: "u8 \<Rightarrow> vidstd \<Rightarrow> bool" where
  "IsPesSC Code eVidStd =
     (if eVidStd \<noteq> VIDSTD_AUDIO_PES then 0xe0 \<le> Code \<and> Code \<le> 0xef
      else 0xc0 \<le> Code \<and> Code \<le> 0xdf)"

text \<open>The block that ends a pending frame in the MPEG-2, AVS and MPEG-4 functions: it runs when a frame
  is pending and the start code is one that ends it (\<open>ends\<close>).\<close>

definition end_frame :: "bool \<Rightarrow> bool \<Rightarrow> fidx_ctx \<Rightarrow> fidx_ctx \<times> frame_out" where
  "end_frame cb ends c =
     (if eFrameType (stNewFramePos c) \<noteq> FIDX_FRAME_TYPE_UNKNOWN \<and> ends
      then let sz = s32_cast (s64GlobalOffset (stThisSC c) - fp_GlobalOffset (stNewFramePos c));
               c = c\<lparr>stNewFramePos := (stNewFramePos c)\<lparr>s32FrameSize := sz\<rparr>\<rparr>
           in if sz < 0
              then (c\<lparr>stNewFramePos := (stNewFramePos c)\<lparr>eFrameType := FIDX_FRAME_TYPE_UNKNOWN\<rparr>\<rparr>, [])
              else OUTPUT_FRAME cb c
      else (c, []))"

definition record_sps :: "nat \<Rightarrow> fidx_ctx \<Rightarrow> fidx_ctx" where
  "record_sps i c =
     (let sc = (stThisSC c)\<lparr>s32ScID := unat (u8ThisSCData c ! 0), eScType := SC_TYPE_SPS\<rparr>
      in c\<lparr>stThisSC := sc, stSPS := (stSPS c)[i := sc]\<rparr>)"

definition start_frame :: "frame_type \<Rightarrow> sc_info \<Rightarrow> fidx_ctx \<Rightarrow> fidx_ctx" where
  "start_frame t sc c =
     c\<lparr>stNewFramePos := (stNewFramePos c)\<lparr>eFrameType := t, fp_GlobalOffset := s64GlobalOffset sc,
         fp_OffsetInPacket := s32OffsetInPacket sc, fp_PacketCount := s32PacketCount sc,
         fp_PTS := u32PTS c, s32FrameSize := 0\<rparr>,
       u32PTS := INVALID_PTS\<rparr>"

section \<open>MPEG-2, AVS and MPEG-4\<close>

definition ProcessSC_Mpeg2 :: "bool \<Rightarrow> fidx_ctx \<Rightarrow> fidx_ctx \<times> frame_out \<times> fidx_ret" where
  "ProcessSC_Mpeg2 cb c =
     (if \<not> s32ThisSCValid c then (c, [], FIDX_ERR)
      else if IS_SC_WRONG c then (c, [], FIDX_ERR)
      else let Code = u8ThisSCData c ! 0;
               (c, out) = end_frame cb (Code = 0xb3 \<or> Code = 0x00) c
           in if Code = 0xb3
              then ((record_sps 0 c)\<lparr>u8SpsFresh := (u8SpsFresh c)[0 := 1]\<rparr>, out, FIDX_ERR)
              else if Code = 0x00
              then (if eScType (stSPS c ! 0) \<noteq> SC_TYPE_SPS then (c, out, FIDX_ERR)
                    else let picture_coding_type = drop_bit 3 (u8ThisSCData c ! 2) AND 7
                         in if picture_coding_type < 1 \<or> picture_coding_type > 3 then (c, out, FIDX_ERR)
                            else if picture_coding_type = 1 \<and> u8SpsFresh c ! 0 = 1
                            then ((start_frame FIDX_FRAME_TYPE_I (stSPS c ! 0) c)
                                    \<lparr>u8SpsFresh := (u8SpsFresh c)[0 := 0]\<rparr>, out, FIDX_OK)
                            else (start_frame (if picture_coding_type = 3 then FIDX_FRAME_TYPE_B else FIDX_FRAME_TYPE_P)
                                    (stThisSC c) c, out, FIDX_OK))
              else (c, out, FIDX_ERR))"

definition ProcessSC_Avs :: "bool \<Rightarrow> fidx_ctx \<Rightarrow> fidx_ctx \<times> frame_out \<times> fidx_ret" where
  "ProcessSC_Avs cb c =
     (if \<not> s32ThisSCValid c then (c, [], FIDX_ERR)
      else if IS_SC_WRONG c then (c, [], FIDX_ERR)
      else let Code = u8ThisSCData c ! 0;
               (c, out) = end_frame cb (Code = 0xb0 \<or> Code = 0xb1 \<or> Code = 0xb3 \<or> Code = 0xb6) c
           in if Code = 0xb0
              then ((record_sps 0 c)\<lparr>u8SpsFresh := (u8SpsFresh c)[0 := 1]\<rparr>, out, FIDX_ERR)
              else if Code = 0xb3 \<or> Code = 0xb6
              then (if eScType (stSPS c ! 0) \<noteq> SC_TYPE_SPS then (c, out, FIDX_ERR)
                    else if Code = 0xb3 \<and> u8SpsFresh c ! 0 = 1
                    then (start_frame FIDX_FRAME_TYPE_I (stSPS c ! 0) c, out, FIDX_OK)
                    else let picture_coding_type = (if Code = 0xb6 then drop_bit 6 (u8ThisSCData c ! 3) AND 3 else 1)
                         in if Code = 0xb6 \<and> \<not> (picture_coding_type = 1 \<or> picture_coding_type = 2)
                            then (c, out, FIDX_ERR)
                            else (start_frame (if picture_coding_type = 1 then FIDX_FRAME_TYPE_P else FIDX_FRAME_TYPE_B)
                                    (stThisSC c) c, out, FIDX_OK))
              else (c, out, FIDX_ERR))"

definition SELECT_SPS :: "sc_info \<Rightarrow> sc_info \<Rightarrow> sc_info" where
  "SELECT_SPS sps sel =
     (if SC_TYPE_SPS = eScType sps \<and> s64GlobalOffset sps < s64GlobalOffset sel \<and>
         s64GlobalOffset sps + 64 \<ge> s64GlobalOffset sel
      then sps else sel)"

definition ProcessSC_Mpeg4 :: "bool \<Rightarrow> fidx_ctx \<Rightarrow> fidx_ctx \<times> frame_out \<times> fidx_ret" where
  "ProcessSC_Mpeg4 cb c =
     (if \<not> s32ThisSCValid c then (c, [], FIDX_ERR)
      else if IS_SC_WRONG c then (c, [], FIDX_ERR)
      else let Code = u8ThisSCData c ! 0;
               (c, out) = end_frame cb (Code \<noteq> 0xb2) c
           in if Code = 0xb0 then (record_sps 0 c, out, FIDX_ERR)
              else if Code = 0xb5 then (record_sps 1 c, out, FIDX_ERR)
              else if Code \<le> 0x1f then (record_sps 2 c, out, FIDX_ERR)
              else if 0x20 \<le> Code \<and> Code \<le> 0x2f
              then ((record_sps 3 c)\<lparr>u8SpsFresh := (u8SpsFresh c)[3 := 1]\<rparr>, out, FIDX_ERR)
              else if Code = 0xb6
              then (if eScType (stSPS c ! 3) \<noteq> SC_TYPE_SPS then (c, out, FIDX_ERR)
                    else let sel = SELECT_SPS (stSPS c ! 2) (stSPS c ! 3);
                             sel = SELECT_SPS (stSPS c ! 1) sel;
                             sel = SELECT_SPS (stSPS c ! 0) sel;
                             picture_coding_type = drop_bit 6 (u8ThisSCData c ! 1) AND 3
                         in if \<not> picture_coding_type \<le> 2 then (c, out, FIDX_ERR)
                            else if picture_coding_type = 0 \<and> u8SpsFresh c ! 3 = 1
                            then ((start_frame FIDX_FRAME_TYPE_I sel c)
                                    \<lparr>u8SpsFresh := (u8SpsFresh c)[3 := 0]\<rparr>, out, FIDX_OK)
                            else (start_frame (if picture_coding_type = 2 then FIDX_FRAME_TYPE_B else FIDX_FRAME_TYPE_P)
                                    (stThisSC c) c, out, FIDX_OK))
              else (c, out, FIDX_ERR))"

section \<open>H.264\<close>

definition simple_ue_v :: "u32 \<Rightarrow> u32 \<times> nat" where
  "simple_ue_v Code =
     (let zeros = PvrZerosMS_32 Code
      in if zeros < 16
         then let BitNum = 2 * zeros + 1 in (drop_bit (32 - BitNum) Code - 1, BitNum)
         else (0xffffffff, 0))"

text \<open>The support data of a start code as the memory of the bit reader. The array is aligned to four
  bytes inside the context (it follows a structure with 64-bit members), so it starts at address 0
  of that memory. \<open>show32\<close> is \<open>PvrBsShow\<close> of 32 bits, which is always defined
  (\<open>show32_defined\<close> below).\<close>

definition sc_mem :: "u8 list \<Rightarrow> nat \<Rightarrow> u8" where
  "sc_mem d a = (if a < length d then d ! a else 0)"

definition show32 :: "pvr_bs \<Rightarrow> u32" where
  "show32 b = (case PvrBsShow b 32 of Some v \<Rightarrow> v | None \<Rightarrow> 0)"

definition BITS_2_BYTES :: "int \<Rightarrow> int" where
  "BITS_2_BYTES bitn = (bitn + 7) div 8"

definition ParseSPS :: "u8 list \<Rightarrow> nat \<Rightarrow> nat option" where
  "ParseSPS d DataLen =
     (let Code = push_bit 24 (ucast (d ! 4)) OR push_bit 16 (ucast (d ! 5)) OR push_bit 8 (ucast (d ! 6)) OR ucast (d ! 7);
          (Val, BitNum) = simple_ue_v Code
      in if \<not> Val \<le> 31 then None
         else if \<not> (BitNum + 7) div 8 \<le> DataLen - 4 then None
         else Some (unat Val))"

definition ParsePPS :: "u8 list \<Rightarrow> nat \<Rightarrow> (nat \<times> nat) option" where
  "ParsePPS d DataLen =
     (let m = sc_mem d;
          Bs = PvrBsSkip m (PvrBsInit m 0 (int DataLen)) 8;
          (Val, BitNum) = simple_ue_v (show32 Bs)
      in if \<not> Val \<le> 255 then None
         else if \<not> BITS_2_BYTES (PvrBsPos Bs) \<le> int DataLen then None
         else let PPSID = unat Val;
                  Bs = PvrBsSkip m Bs (int BitNum);
                  (Val, BitNum) = simple_ue_v (show32 Bs)
              in if \<not> Val \<le> 31 then None
                 else if \<not> BITS_2_BYTES (PvrBsPos Bs) \<le> int DataLen then None
                 else Some (unat Val, PPSID))"

definition ParseSliceHeader :: "u8 list \<Rightarrow> nat \<Rightarrow> (nat \<times> nat \<times> nat) option" where
  "ParseSliceHeader d DataLen =
     (let m = sc_mem d;
          Bs = PvrBsSkip m (PvrBsInit m 0 (int DataLen)) 8;
          (Val, BitNum) = simple_ue_v (show32 Bs)
      in if \<not> Val \<le> 8192 then None
         else if \<not> BITS_2_BYTES (PvrBsPos Bs) \<le> int DataLen then None
         else let FirstMBInSlice = unat Val;
                  Bs = PvrBsSkip m Bs (int BitNum);
                  (Val, BitNum) = simple_ue_v (show32 Bs)
              in if \<not> (Val \<le> 2 \<or> (Val \<ge> 5 \<and> Val \<le> 7)) then None
                 else if \<not> BITS_2_BYTES (PvrBsPos Bs) \<le> int DataLen then None
                 else let SliceType = unat Val;
                          Bs = PvrBsSkip m Bs (int BitNum);
                          (Val, BitNum) = simple_ue_v (show32 Bs)
                      in if \<not> Val \<le> 255 then None
                         else if \<not> BITS_2_BYTES (PvrBsPos Bs) \<le> int DataLen then None
                         else Some (FirstMBInSlice, SliceType, unat Val))"

definition H264MakeFrame :: "fidx_ctx \<Rightarrow> fidx_ctx" where
  "H264MakeFrame c =
     (let sps = stSPS c ! s32SpsID c;
          fresh = u8SpsFresh c ! s32SpsID c;
          frm = stNewFramePos c;
          EndOff = (if SC_TYPE_NONSLICE \<noteq> eScType (stSEIFollowSlice c) then s64GlobalOffset (stThisSC c)
                    else s64GlobalOffset (stSEIFollowSlice c))
      in if eFrameType frm = FIDX_FRAME_TYPE_I \<and> fresh = 1
         then c\<lparr>stNewFramePos := frm\<lparr>fp_GlobalOffset := s64GlobalOffset sps, fp_OffsetInPacket := s32OffsetInPacket sps,
                    fp_PacketCount := s32PacketCount sps, s32FrameSize := s32_cast (EndOff - s64GlobalOffset sps)\<rparr>,
                u8SpsFresh := (u8SpsFresh c)[s32SpsID c := 0]\<rparr>
         else let frm = (if eFrameType frm = FIDX_FRAME_TYPE_I \<and> fresh \<noteq> 1
                         then frm\<lparr>eFrameType := FIDX_FRAME_TYPE_P\<rparr> else frm)
              in c\<lparr>stNewFramePos := frm\<lparr>s32FrameSize := s32_cast (EndOff - fp_GlobalOffset frm)\<rparr>\<rparr>)"

definition SlcType2FrmType :: "frame_type list" where
  "SlcType2FrmType = [FIDX_FRAME_TYPE_P, FIDX_FRAME_TYPE_B, FIDX_FRAME_TYPE_I, FIDX_FRAME_TYPE_UNKNOWN,
     FIDX_FRAME_TYPE_UNKNOWN, FIDX_FRAME_TYPE_P, FIDX_FRAME_TYPE_B, FIDX_FRAME_TYPE_I,
     FIDX_FRAME_TYPE_UNKNOWN, FIDX_FRAME_TYPE_UNKNOWN]"

primrec frame_type_num :: "frame_type \<Rightarrow> nat" where
  "frame_type_num FIDX_FRAME_TYPE_UNKNOWN = 0"
| "frame_type_num FIDX_FRAME_TYPE_I = 1"
| "frame_type_num FIDX_FRAME_TYPE_P = 2"
| "frame_type_num FIDX_FRAME_TYPE_B = 3"
| "frame_type_num FIDX_FRAME_TYPE_PESH = 4"

definition h264_border :: "bool \<Rightarrow> bool \<Rightarrow> fidx_ctx \<Rightarrow> fidx_ctx \<times> frame_out" where
  "h264_border cb border c =
     (if FIDX_FRAME_TYPE_UNKNOWN \<noteq> eFrameType (stNewFramePos c) \<and> border
      then OUTPUT_FRAME cb (H264MakeFrame c) else (c, []))"

definition h264_sps :: "bool \<Rightarrow> fidx_ctx \<Rightarrow> fidx_ctx \<times> frame_out \<times> fidx_ret" where
  "h264_sps cb c =
     (case ParseSPS (u8ThisSCData c) (s32ThisSCDataLen c) of None \<Rightarrow> (c, [], FIDX_ERR)
      | Some SpsID \<Rightarrow>
          let (c, out) = h264_border cb (s32SpsID c = SpsID) c;
              sc = (stThisSC c)\<lparr>eScType := SC_TYPE_SPS, s32ScID := SpsID\<rparr>
          in (c\<lparr>stThisSC := sc, stSPS := (stSPS c)[SpsID := sc], u8SpsFresh := (u8SpsFresh c)[SpsID := 1]\<rparr>,
              out, FIDX_OK))"

definition h264_pps :: "bool \<Rightarrow> fidx_ctx \<Rightarrow> fidx_ctx \<times> frame_out \<times> fidx_ret" where
  "h264_pps cb c =
     (case ParsePPS (u8ThisSCData c) (s32ThisSCDataLen c) of None \<Rightarrow> (c, [], FIDX_ERR)
      | Some (SpsID, PpsID) \<Rightarrow>
          if SC_TYPE_SPS = eScType (stSPS c ! SpsID)
          then let (c, out) = h264_border cb (s32PpsID c = PpsID) c;
                   sc = (stThisSC c)\<lparr>eScType := SC_TYPE_PPS, s32ScID := PpsID, s32SupScID := SpsID\<rparr>
               in (c\<lparr>stThisSC := sc, stPPS := (stPPS c)[PpsID := sc]\<rparr>, out, FIDX_OK)
          else (c, [], FIDX_ERR))"

definition slice_check :: "nat \<Rightarrow> fidx_ctx \<Rightarrow> fidx_ctx" where
  "slice_check PpsID c =
     (if SC_TYPE_PPS = eScType (stPPS c ! PpsID) \<and> SC_TYPE_SPS = eScType (stSPS c ! s32SupScID (stPPS c ! PpsID))
      then c\<lparr>stThisSC := (stThisSC c)\<lparr>eScType := SC_TYPE_SLICE\<rparr>\<rparr> else c)"

definition slice_border :: "bool \<Rightarrow> nat \<Rightarrow> nat \<Rightarrow> nat \<Rightarrow> fidx_ctx \<Rightarrow> fidx_ctx \<times> frame_out" where
  "slice_border cb FirstMb SliceType PpsID c =
     (if FIDX_FRAME_TYPE_UNKNOWN \<noteq> eFrameType (stNewFramePos c)
      then if FirstMb = 0 \<or> PpsID \<noteq> s32PpsID c
           then OUTPUT_FRAME cb (H264MakeFrame c)
           else let FrmType = SlcType2FrmType ! SliceType;
                    t = (if frame_type_num FrmType > frame_type_num (eFrameType (stNewFramePos c))
                         then FrmType else eFrameType (stNewFramePos c))
                in (c\<lparr>stNewFramePos := (stNewFramePos c)\<lparr>eFrameType := t\<rparr>,
                      stThisSC := (stThisSC c)\<lparr>eScType := SC_TYPE_UNKNOWN\<rparr>\<rparr>, [])
      else (c, []))"

definition slice_start :: "nat \<Rightarrow> nat \<Rightarrow> fidx_ctx \<Rightarrow> fidx_ctx" where
  "slice_start SliceType PpsID c =
     (if FIDX_FRAME_TYPE_UNKNOWN = eFrameType (stNewFramePos c) \<and> SC_TYPE_SLICE = eScType (stThisSC c)
      then let sc = (if SC_TYPE_NONSLICE \<noteq> eScType (stSEIFollowSlice c) then stThisSC c else stSEIFollowSlice c);
               c = start_frame (SlcType2FrmType ! SliceType) sc c
           in c\<lparr>s32PpsID := PpsID, s32SpsID := s32SupScID (stPPS c ! PpsID),
                stSEIFollowSlice := (stSEIFollowSlice c)\<lparr>eScType := SC_TYPE_UNKNOWN\<rparr>\<rparr>
      else c)"

definition h264_slice :: "bool \<Rightarrow> fidx_ctx \<Rightarrow> fidx_ctx \<times> frame_out \<times> fidx_ret" where
  "h264_slice cb c =
     (let (c, out, ret) =
        (case ParseSliceHeader (u8ThisSCData c) (s32ThisSCDataLen c) of None \<Rightarrow> (c, [], FIDX_ERR)
         | Some (FirstMb, SliceType, PpsID) \<Rightarrow>
             let (c, out) = slice_border cb FirstMb SliceType PpsID (slice_check PpsID c)
             in (slice_start SliceType PpsID c, out, FIDX_OK))
      in (c\<lparr>stSEIFollowSlice := (stSEIFollowSlice c)\<lparr>eScType := SC_TYPE_UNKNOWN\<rparr>\<rparr>, out, ret))"

definition ProcessSC_H264 :: "bool \<Rightarrow> fidx_ctx \<Rightarrow> fidx_ctx \<times> frame_out \<times> fidx_ret" where
  "ProcessSC_H264 cb c =
     (if \<not> s32ThisSCValid c then (c, [], FIDX_ERR)
      else if IS_SC_WRONG c then (c, [], FIDX_ERR)
      else if u8ThisSCData c ! 0 AND 0x80 \<noteq> 0 then (c, [], FIDX_ERR)
      else let NalUnitType = u8ThisSCData c ! 0 AND 31;
               c = (if NalUnitType \<noteq> 5 \<and> NalUnitType \<noteq> 1 \<and> eScType (stSEIFollowSlice c) = SC_TYPE_UNKNOWN
                    then c\<lparr>stSEIFollowSlice := (stThisSC c)\<lparr>eScType := SC_TYPE_NONSLICE\<rparr>\<rparr> else c)
           in if NalUnitType = 7 then h264_sps cb c
              else if NalUnitType = 8 then h264_pps cb c
              else if NalUnitType = 5 \<or> NalUnitType = 1 then h264_slice cb c
              else (c, [], FIDX_ERR))"

section \<open>Instances\<close>

definition ProcessThisSC :: "bool \<Rightarrow> fidx_ctx \<Rightarrow> fidx_ctx \<times> frame_out \<times> fidx_ret" where
  "ProcessThisSC cb c =
     (case eVideoStandard c of
        VIDSTD_MPEG2 \<Rightarrow> ProcessSC_Mpeg2 cb c
      | VIDSTD_H264 \<Rightarrow> ProcessSC_H264 cb c
      | VIDSTD_MPEG4 \<Rightarrow> ProcessSC_Mpeg4 cb c
      | VIDSTD_AVS \<Rightarrow> ProcessSC_Avs cb c
      | _ \<Rightarrow> (c, [], FIDX_ERR))"

definition ANANYSE_SC :: "bool \<Rightarrow> fidx_ctx \<Rightarrow> fidx_ctx \<times> frame_out" where
  "ANANYSE_SC cb c =
     (let (c, out, ret) = ProcessThisSC cb c in (c\<lparr>s32ThisSCValid := False, s32ThisSCDataLen := 0\<rparr>, out))"

definition load_sc :: "findex_scd \<Rightarrow> fidx_ctx \<Rightarrow> fidx_ctx" where
  "load_sc sc c =
     c\<lparr>stThisSC := (stThisSC c)\<lparr>s32ScID := unat (u8StartCode sc), s64GlobalOffset := scd_GlobalOffset sc,
         s32OffsetInPacket := 0, s32PacketCount := 0\<rparr>,
       u8ThisSCData := mem_write ((u8ThisSCData c)[0 := u8StartCode sc]) 1 (take 8 (au8DataAfterSC sc)),
       s32ThisSCDataLen := 9, s32ThisSCValid := True\<rparr>"

definition feed_ctx :: "bool \<Rightarrow> findex_scd \<Rightarrow> fidx_ctx \<Rightarrow> fidx_ctx \<times> frame_out" where
  "feed_ctx cb sc c =
     (let c = load_sc sc c
      in if IsPesSC (u8StartCode sc) (eVideoStandard c)
         then let PesFrame = frame_zero\<lparr>eFrameType := FIDX_FRAME_TYPE_PESH,
                    fp_GlobalOffset := s64GlobalOffset (stThisSC c), fp_OffsetInPacket := s32OffsetInPacket (stThisSC c),
                    fp_PacketCount := s32PacketCount (stThisSC c), fp_PTS := u32PtsMs sc\<rparr>
              in (c\<lparr>u32PTS := u32PtsMs sc, s32ThisSCValid := False, s32ThisSCDataLen := 0\<rparr>,
                  if cb then [(Param c, PesFrame)] else [])
         else ANANYSE_SC cb c)"

record fidx_sys =
  s_FidxIIS :: "fidx_ctx list"
  s_OutputFramePosition :: bool

definition FIDX_Init :: "nat \<Rightarrow> bool \<Rightarrow> fidx_sys" where
  "FIDX_Init FIDX_MAX_CTX_NUM cb =
     \<lparr>s_FidxIIS = replicate FIDX_MAX_CTX_NUM (ctx_zero\<lparr>eCtxState := CTX_STATE_DISABLE\<rparr>), s_OutputFramePosition = cb\<rparr>"

fun find_idle :: "fidx_ctx list \<Rightarrow> nat \<Rightarrow> nat option" where
  "find_idle [] i = None"
| "find_idle (c # cs) i = (if eCtxState c \<noteq> CTX_STATE_ENABLE then Some i else find_idle cs (Suc i))"

definition FIDX_OpenInstance :: "vidstd \<Rightarrow> strm_type \<Rightarrow> nat \<Rightarrow> fidx_sys \<Rightarrow> fidx_sys \<times> nat option" where
  "FIDX_OpenInstance VidStandard StrmType prm s =
     (case find_idle (s_FidxIIS s) 0 of None \<Rightarrow> (s, None)
      | Some i \<Rightarrow> (s\<lparr>s_FidxIIS := (s_FidxIIS s)[i := ctx_zero\<lparr>eCtxState := CTX_STATE_ENABLE,
            eVideoStandard := VidStandard, eStrmType := StrmType, u8Prev2Bytes := [0xff, 0xff], Param := prm\<rparr>]\<rparr>, Some i))"

definition FIDX_CloseInstance :: "nat \<Rightarrow> fidx_sys \<Rightarrow> fidx_sys \<times> fidx_ret" where
  "FIDX_CloseInstance InstIdx s =
     (if \<not> InstIdx < length (s_FidxIIS s) then (s, FIDX_ERR)
      else if eCtxState (s_FidxIIS s ! InstIdx) \<noteq> CTX_STATE_ENABLE then (s, FIDX_ERR)
      else (s\<lparr>s_FidxIIS := (s_FidxIIS s)[InstIdx := ctx_zero\<lparr>eCtxState := CTX_STATE_DISABLE\<rparr>]\<rparr>, FIDX_OK))"

definition FIDX_FeedStartCode :: "nat \<Rightarrow> findex_scd \<Rightarrow> fidx_sys \<Rightarrow> fidx_sys \<times> frame_out" where
  "FIDX_FeedStartCode InstIdx sc s =
     (let (c, out) = feed_ctx (s_OutputFramePosition s) sc (s_FidxIIS s ! InstIdx)
      in (s\<lparr>s_FidxIIS := (s_FidxIIS s)[InstIdx := c]\<rparr>, out))"

section \<open>The parsers\<close>

lemma ParseSPS_bound: "ParseSPS d n = Some i \<Longrightarrow> i < 32"
  by (auto simp: ParseSPS_def Let_def word_le_nat_alt split: prod.splits if_splits)

lemma ParsePPS_bound: "ParsePPS d n = Some (i, j) \<Longrightarrow> i < 32 \<and> j < 256"
  by (auto simp: ParsePPS_def Let_def word_le_nat_alt split: prod.splits if_splits)

lemma ParseSliceHeader_bound: "ParseSliceHeader d n = Some (a, b, j) \<Longrightarrow> b < 8 \<and> j < 256"
  by (auto simp: ParseSliceHeader_def Let_def word_le_nat_alt split: prod.splits if_splits)

lemma show32_defined:
  assumes "bs_ok mem base b"
  shows "PvrBsShow b 32 = Some (show32 b)" "unat (show32 b) = bits_at mem (bs_pos b) 32"
  using PvrBsShow_bits [OF assms, of 32] by (auto simp: show32_def)

text \<open>\<open>ue_at mem p v z\<close>: at bit \<open>p\<close> of the memory stands the Exp-Golomb code of \<open>v\<close> with \<open>z\<close> leading
  zeros, that is \<open>v + 1\<close> in \<open>2 * z + 1\<close> bits.\<close>

definition ue_at :: "(nat \<Rightarrow> u8) \<Rightarrow> nat \<Rightarrow> nat \<Rightarrow> nat \<Rightarrow> bool" where
  "ue_at mem p v z \<longleftrightarrow> z < 16 \<and> 2 ^ z \<le> v + 1 \<and> v + 1 < 2 ^ (z + 1) \<and> bits_at mem p (2 * z + 1) = v + 1"

lemma simple_ue_v_decodes:
  assumes "ue_at mem p v z" "unat Code = bits_at mem p 32"
  shows "simple_ue_v Code = (word_of_nat v, 2 * z + 1)"
proof -
  have z: "z < 16" and lo: "2 ^ z \<le> v + 1" and hi: "v + 1 < 2 ^ (z + 1)"
    and bits: "bits_at mem p (2 * z + 1) = v + 1"
    using assms(1) by (auto simp: ue_at_def)
  define k r where "k = 31 - 2 * z" and "r = bits_at mem (p + (2 * z + 1)) k"
  have k: "2 * z + 1 + k = 32" using z by (simp add: k_def)
  have r: "r < 2 ^ k" unfolding r_def by (rule bits_at_less)
  have code: "unat Code = (v + 1) * 2 ^ k + r"
    using bits_at_add [of mem p "2 * z + 1" k] unfolding k bits r_def assms(2) .
  have zk: "31 - z = z + k" "32 - z = z + 1 + k" using z by (simp_all add: k_def)
  have "(2::nat) ^ (31 - z) = 2 ^ z * 2 ^ k" "(2::nat) ^ (32 - z) = 2 ^ (z + 1) * 2 ^ k"
    unfolding zk by (simp_all only: power_add)
  moreover have "2 ^ z * 2 ^ k \<le> (v + 1) * 2 ^ k" using lo by (rule mult_le_mono1)
  moreover have "(v + 2) * 2 ^ k \<le> 2 ^ (z + 1) * 2 ^ k" using hi by (intro mult_le_mono1) simp
  moreover have "(v + 2) * 2 ^ k = (v + 1) * 2 ^ k + 2 ^ k" by (simp add: algebra_simps)
  ultimately have "PvrZerosMS_32 Code = z"
    using z r code by (intro PvrZerosMS_32_unique) linarith+
  moreover have "drop_bit k Code - 1 = word_of_nat v"
  proof -
    have "unat (drop_bit k Code) = v + 1"
      using r by (simp only: unat_drop_bit_eq) (simp only: drop_bit_eq_div code, intro div_nat_eqI; simp add: algebra_simps)
    moreover have "word_of_nat (unat (drop_bit k Code)) = drop_bit k Code" by simp
    ultimately have "drop_bit k Code = word_of_nat (v + 1)" by (simp only:)
    then show ?thesis by (simp only: of_nat_add) simp
  qed
  moreover have "32 - (2 * z + 1) = k" using k by simp
  ultimately show ?thesis using z by (simp add: simple_ue_v_def Let_def)
qed

lemma unat_word_of_nat_small: "v < 2 ^ 16 \<Longrightarrow> unat (word_of_nat v :: u32) = v"
  by (simp only: unsigned_of_nat) (simp add: take_bit_nat_eq_self)

lemma ue_at_less: "ue_at mem p v z \<Longrightarrow> v < 2 ^ 16 \<and> 2 * z + 1 \<le> 31"
proof -
  assume u: "ue_at mem p v z"
  have "(2::nat) ^ (z + 1) \<le> 2 ^ 16" using u by (intro power_increasing) (simp_all add: ue_at_def)
  then show ?thesis using u by (auto simp: ue_at_def)
qed

text \<open>The read of one code: the value, and the reader behind it.\<close>

lemma ue_read:
  assumes "bs_ok mem base b" "ue_at mem (bs_pos b) v z"
  shows "simple_ue_v (show32 b) = (word_of_nat v, 2 * z + 1)"
    and "bs_ok mem base (PvrBsSkip mem b (int (2 * z + 1)))"
    and "bs_pos (PvrBsSkip mem b (int (2 * z + 1))) = bs_pos b + (2 * z + 1)"
    and "TotalPos (PvrBsSkip mem b (int (2 * z + 1))) = TotalPos b + int (2 * z + 1)"
proof -
  have "int (2 * z + 1) \<le> 32" using ue_at_less [OF assms(2)] by linarith
  note s = PvrBsSkip_ok [OF assms(1) _ this]
  show "simple_ue_v (show32 b) = (word_of_nat v, 2 * z + 1)"
    using simple_ue_v_decodes [OF assms(2)] show32_defined [OF assms(1)] by simp
  show "bs_ok mem base (PvrBsSkip mem b (int (2 * z + 1)))"
    "bs_pos (PvrBsSkip mem b (int (2 * z + 1))) = bs_pos b + (2 * z + 1)"
    "TotalPos (PvrBsSkip mem b (int (2 * z + 1))) = TotalPos b + int (2 * z + 1)"
    using s by simp_all
qed

lemma sc_reader:
  fixes m n
  defines "b \<equiv> PvrBsSkip m (PvrBsInit m 0 n) 8"
  shows "bs_ok m 0 b" "bs_pos b = 8" "TotalPos b = 8"
  using PvrBsInit_ok [of 0 m n] PvrBsSkip_ok [of m 0 "PvrBsInit m 0 n" 8]
  by (simp_all add: b_def) (simp add: PvrBsInit_def Let_def)

lemma ue_size:
  assumes "ue_at mem p v z" "v + 1 < 2 ^ n"
  shows "z < n"
proof -
  have "2 ^ z \<le> v + 1" using assms(1) unfolding ue_at_def by (elim conjE)
  then have "(2::nat) ^ z < 2 ^ n" using assms(2) by linarith
  then show ?thesis by (simp only: power_strict_increasing_iff one_less_numeral_iff semiring_norm)
qed

lemma ParseSliceHeader_spec:
  assumes mb: "ue_at (sc_mem d) 8 mb z1" "mb \<le> 8192"
    and st: "ue_at (sc_mem d) (9 + 2 * z1) st z2" "st \<le> 2 \<or> 5 \<le> st \<and> st \<le> 7"
    and pps: "ue_at (sc_mem d) (10 + 2 * z1 + 2 * z2) pps z3" "pps \<le> 255"
  shows "ParseSliceHeader d 9 = Some (mb, st, pps)"
proof -
  let ?m = "sc_mem d"
  define b0 where "b0 = PvrBsSkip ?m (PvrBsInit ?m 0 (int 9)) 8"
  note B0 = sc_reader [of ?m "int 9", folded b0_def]
  define b1 where "b1 = PvrBsSkip ?m b0 (int (2 * z1 + 1))"
  note r1 = ue_read [OF B0(1), of mb z1, folded b1_def]
  have m1: "ue_at ?m (bs_pos b0) mb z1" using mb B0 by simp
  note r1 = r1 [OF m1]
  define b2 where "b2 = PvrBsSkip ?m b1 (int (2 * z2 + 1))"
  have m2: "ue_at ?m (bs_pos b1) st z2" using st r1(3) B0(2) by simp
  note r2 = ue_read [OF r1(2) m2, folded b2_def]
  have m3: "ue_at ?m (bs_pos b2) pps z3" using pps r1(3) r2(3) B0(2) by (simp add: algebra_simps)
  note r3 = ue_read [OF r2(2) m3]
  have z: "z1 < 14" "z2 < 4"
    using ue_size [OF mb(1), of 14] ue_size [OF st(1), of 4] mb(2) st(2) by auto
  have v: "unat (word_of_nat mb :: u32) = mb" "unat (word_of_nat st :: u32) = st" "unat (word_of_nat pps :: u32) = pps"
    using mb(2) st(2) pps(2) by (auto intro!: unat_word_of_nat_small)
  have p: "BITS_2_BYTES (PvrBsPos b0) \<le> 9" "BITS_2_BYTES (PvrBsPos b1) \<le> 9" "BITS_2_BYTES (PvrBsPos b2) \<le> 9"
    using z r1(4) r2(4) B0(3) by (simp_all add: BITS_2_BYTES_def PvrBsPos_def)
  show ?thesis
    unfolding ParseSliceHeader_def Let_def b0_def [symmetric] r1(1) prod.case b1_def [symmetric] r2(1)
      b2_def [symmetric] r3(1)
    using v p mb(2) st(2) pps(2) by (simp add: word_le_nat_alt)
qed

lemma ParsePPS_spec:
  assumes pps: "ue_at (sc_mem d) 8 pps z1" "pps \<le> 255"
    and sps: "ue_at (sc_mem d) (9 + 2 * z1) sps z2" "sps \<le> 31"
  shows "ParsePPS d 9 = Some (sps, pps)"
proof -
  let ?m = "sc_mem d"
  define b0 where "b0 = PvrBsSkip ?m (PvrBsInit ?m 0 (int 9)) 8"
  note B0 = sc_reader [of ?m "int 9", folded b0_def]
  define b1 where "b1 = PvrBsSkip ?m b0 (int (2 * z1 + 1))"
  have m1: "ue_at ?m (bs_pos b0) pps z1" using pps B0 by simp
  note r1 = ue_read [OF B0(1) m1, folded b1_def]
  have m2: "ue_at ?m (bs_pos b1) sps z2" using sps r1(3) B0(2) by simp
  note r2 = ue_read [OF r1(2) m2]
  have z: "z1 < 9" using ue_size [OF pps(1), of 9] pps(2) by simp
  have v: "unat (word_of_nat pps :: u32) = pps" "unat (word_of_nat sps :: u32) = sps"
    using pps(2) sps(2) by (auto intro!: unat_word_of_nat_small)
  have p: "BITS_2_BYTES (PvrBsPos b0) \<le> 9" "BITS_2_BYTES (PvrBsPos b1) \<le> 9"
    using z r1(4) B0(3) by (simp_all add: BITS_2_BYTES_def PvrBsPos_def)
  show ?thesis
    unfolding ParsePPS_def Let_def b0_def [symmetric] r1(1) prod.case b1_def [symmetric] r2(1)
    using v p pps(2) sps(2) by (simp add: word_le_nat_alt)
qed
section \<open>The invariant of a context\<close>

text \<open>\<open>fidx_inv K c\<close>: the array indices kept in the context are in range, and every stream position it
  keeps (of the parameter sets, the pending frame and the first code behind the last slice) is the
  position of a start code that was fed, one of \<open>K\<close>.\<close>

definition fidx_inv :: "int set \<Rightarrow> fidx_ctx \<Rightarrow> bool" where
  "fidx_inv K c \<longleftrightarrow>
     (length (stSPS c) = 32 \<and> length (u8SpsFresh c) = 32 \<and> length (stPPS c) = 256 \<and> length (u8ThisSCData c) = 16
       \<and> s32SpsID c < 32 \<and> s32PpsID c < 256 \<and> (\<forall>sc\<in>set (stPPS c). s32SupScID sc < 32))
     \<and> (\<forall>i<32. (u8SpsFresh c ! i = 1 \<or> eScType (stSPS c ! i) = SC_TYPE_SPS) \<longrightarrow> s64GlobalOffset (stSPS c ! i) \<in> K)
     \<and> (eFrameType (stNewFramePos c) \<noteq> FIDX_FRAME_TYPE_UNKNOWN \<longrightarrow> fp_GlobalOffset (stNewFramePos c) \<in> K)
     \<and> (eScType (stSEIFollowSlice c) = SC_TYPE_NONSLICE \<longrightarrow> s64GlobalOffset (stSEIFollowSlice c) \<in> K)"

definition this_ok :: "int set \<Rightarrow> fidx_ctx \<Rightarrow> bool" where
  "this_ok K c \<longleftrightarrow> s64GlobalOffset (stThisSC c) \<in> K"

text \<open>A frame report spans two start codes.\<close>

definition span_ok :: "int set \<Rightarrow> frame_pos \<Rightarrow> bool" where
  "span_ok K f \<longleftrightarrow> fp_GlobalOffset f \<in> K \<and> fp_GlobalOffset f + s32FrameSize f \<in> K"

definition step_ok :: "int set \<Rightarrow> fidx_ctx \<times> frame_out \<Rightarrow> bool" where
  "step_ok K r \<longleftrightarrow> fidx_inv K (fst r) \<and> this_ok K (fst r) \<and> (\<forall>f\<in>snd ` set (snd r). span_ok K f)"

named_theorems fidx_step \<open>steps of a context that keep the invariant\<close>

text \<open>The size of a frame is a difference of positions cast to 32 bits, which is exact for positions in
  the first 2 GB. With \<open>UNIV\<close> for the positions only the index bounds of the invariant remain.\<close>

definition small_offsets :: "int set \<Rightarrow> bool" where
  "small_offsets K \<longleftrightarrow> K \<subseteq> {0..<2 ^ 31} \<or> K = UNIV"

lemma s32_cast_span:
  assumes "small_offsets K" "a \<in> K" "b \<in> K"
  shows "b + s32_cast (a - b) \<in> K"
proof (cases "K = UNIV")
  case False
  then have "0 \<le> a" "a < 2 ^ 31" "0 \<le> b" "b < 2 ^ 31" using assms by (auto simp: small_offsets_def)
  then have "(a - b + 2 ^ 31) mod 2 ^ 32 = a - b + 2 ^ 31"
    by (intro mod_pos_pos_trivial) simp_all
  then show ?thesis using assms by (simp only: s32_cast_def) simp
qed simp

lemma step_okI [intro?]:
  "fidx_inv K c \<Longrightarrow> this_ok K c \<Longrightarrow> \<forall>f\<in>snd ` set out. span_ok K f \<Longrightarrow> step_ok K (c, out)"
  by (simp add: step_ok_def)

lemma step_ok_nil [simp]: "step_ok K (c, []) \<longleftrightarrow> fidx_inv K c \<and> this_ok K c"
  by (simp add: step_ok_def)

lemma OUTPUT_FRAME_step [fidx_step]:
  assumes "fidx_inv K c" "this_ok K c" "span_ok K (stNewFramePos c)"
  shows "step_ok K (OUTPUT_FRAME cb c)"
  using assms by (auto simp: OUTPUT_FRAME_def step_ok_def fidx_inv_def this_ok_def frame_zero_def)

lemma end_frame_step [fidx_step]:
  assumes "small_offsets K" "fidx_inv K c" "this_ok K c"
  shows "step_ok K (end_frame cb ends c)"
proof (cases "eFrameType (stNewFramePos c) \<noteq> FIDX_FRAME_TYPE_UNKNOWN \<and> ends")
  case True
  define sz where "sz = s32_cast (s64GlobalOffset (stThisSC c) - fp_GlobalOffset (stNewFramePos c))"
  define d where "d = c\<lparr>stNewFramePos := (stNewFramePos c)\<lparr>s32FrameSize := sz\<rparr>\<rparr>"
  have o: "fp_GlobalOffset (stNewFramePos c) \<in> K" "s64GlobalOffset (stThisSC c) \<in> K"
    using True assms by (auto simp: fidx_inv_def this_ok_def)
  have d: "fidx_inv K d" "this_ok K d" "span_ok K (stNewFramePos d)"
    using assms o s32_cast_span [OF assms(1) o(2,1)] by (auto simp: d_def fidx_inv_def this_ok_def span_ok_def sz_def)
  have e: "end_frame cb ends c = (if sz < 0
      then (d\<lparr>stNewFramePos := (stNewFramePos d)\<lparr>eFrameType := FIDX_FRAME_TYPE_UNKNOWN\<rparr>\<rparr>, []) else OUTPUT_FRAME cb d)"
    using True by (simp add: end_frame_def Let_def d_def sz_def)
  have "fidx_inv K (d\<lparr>stNewFramePos := (stNewFramePos d)\<lparr>eFrameType := FIDX_FRAME_TYPE_UNKNOWN\<rparr>\<rparr>)"
    "this_ok K (d\<lparr>stNewFramePos := (stNewFramePos d)\<lparr>eFrameType := FIDX_FRAME_TYPE_UNKNOWN\<rparr>\<rparr>)"
    using d(1,2) by (auto simp: fidx_inv_def this_ok_def)
  then show ?thesis
    unfolding e using OUTPUT_FRAME_step [OF d] by simp
next
  case False
  then show ?thesis using assms by (auto simp: end_frame_def)
qed

lemma record_sps_inv [fidx_step]:
  assumes "fidx_inv K c" "this_ok K c" "i < 32"
  shows "fidx_inv K (record_sps i c)" "this_ok K (record_sps i c)"
  using assms by (auto simp: record_sps_def Let_def fidx_inv_def this_ok_def nth_list_update)

lemma record_fresh_inv [fidx_step]:
  assumes "fidx_inv K c" "this_ok K c" "i < 32"
  shows "fidx_inv K ((record_sps i c)\<lparr>u8SpsFresh := (u8SpsFresh c)[i := n]\<rparr>)"
    "this_ok K ((record_sps i c)\<lparr>u8SpsFresh := (u8SpsFresh c)[i := n]\<rparr>)"
  using assms by (auto simp: record_sps_def Let_def fidx_inv_def this_ok_def nth_list_update)

lemma clear_fresh_inv [fidx_step]:
  assumes "fidx_inv K c" "i < 32"
  shows "fidx_inv K (c\<lparr>u8SpsFresh := (u8SpsFresh c)[i := 0]\<rparr>)"
  using assms by (auto simp: fidx_inv_def nth_list_update)

lemma start_frame_inv [fidx_step]:
  assumes "fidx_inv K c" "this_ok K c" "s64GlobalOffset sc \<in> K"
  shows "fidx_inv K (start_frame t sc c)" "this_ok K (start_frame t sc c)"
  using assms by (auto simp: start_frame_def fidx_inv_def this_ok_def)

lemma start_frame_clear_inv [fidx_step]:
  assumes "fidx_inv K c" "this_ok K c" "s64GlobalOffset sc \<in> K" "i < 32"
  shows "fidx_inv K ((start_frame t sc c)\<lparr>u8SpsFresh := (u8SpsFresh c)[i := 0]\<rparr>)"
    "this_ok K ((start_frame t sc c)\<lparr>u8SpsFresh := (u8SpsFresh c)[i := 0]\<rparr>)"
  using assms by (auto simp: start_frame_def fidx_inv_def this_ok_def nth_list_update)

lemma fidx_inv_sps:
  "fidx_inv K c \<Longrightarrow> eScType (stSPS c ! i) = SC_TYPE_SPS \<Longrightarrow> i < 32 \<Longrightarrow> s64GlobalOffset (stSPS c ! i) \<in> K"
  by (simp add: fidx_inv_def)

lemma SELECT_SPS_off:
  assumes "eScType sps = SC_TYPE_SPS \<longrightarrow> s64GlobalOffset sps \<in> K" "s64GlobalOffset sel \<in> K"
  shows "s64GlobalOffset (SELECT_SPS sps sel) \<in> K"
  using assms by (auto simp: SELECT_SPS_def)

text \<open>A result with the return code.\<close>

definition drop_ret :: "fidx_ctx \<times> frame_out \<times> fidx_ret \<Rightarrow> fidx_ctx \<times> frame_out" where
  "drop_ret r = (fst r, fst (snd r))"

lemma drop_ret_simp [simp]: "drop_ret (c, out, ret) = (c, out)"
  by (simp add: drop_ret_def)

text \<open>After the pending frame was ended, the rest of a function changes the context only.\<close>

lemma step_ok_then:
  assumes "step_ok K (c, out)" "fidx_inv K d" "this_ok K d"
  shows "step_ok K (d, out)"
  using assms by (simp add: step_ok_def)

lemma Mpeg2_step [fidx_step]:
  assumes "small_offsets K" "fidx_inv K c" "this_ok K c"
  shows "step_ok K (drop_ret (ProcessSC_Mpeg2 cb c))"
proof -
  obtain d out where e: "end_frame cb (u8ThisSCData c ! 0 = 0xb3 \<or> u8ThisSCData c ! 0 = 0x00) c = (d, out)"
    by (cases "end_frame cb (u8ThisSCData c ! 0 = 0xb3 \<or> u8ThisSCData c ! 0 = 0x00) c")
  then have s: "step_ok K (d, out)" using end_frame_step [OF assms] by metis
  then have d: "fidx_inv K d" "this_ok K d" by (simp_all add: step_ok_def)
  have t: "s64GlobalOffset (stThisSC d) \<in> K" using d(2) by (simp add: this_ok_def)
  note rules = step_ok_then [OF s] record_fresh_inv [OF d] start_frame_inv [OF d] start_frame_clear_inv [OF d]
  show ?thesis
    using s assms d t fidx_inv_sps [OF d(1), of 0]
    by (simp add: ProcessSC_Mpeg2_def Let_def e rules split del: if_split split: if_split)
qed
lemma Avs_step [fidx_step]:
  assumes "small_offsets K" "fidx_inv K c" "this_ok K c"
  shows "step_ok K (drop_ret (ProcessSC_Avs cb c))"
proof -
  define ends where "ends = (u8ThisSCData c ! 0 = 0xb0 \<or> u8ThisSCData c ! 0 = 0xb1 \<or> u8ThisSCData c ! 0 = 0xb3 \<or> u8ThisSCData c ! 0 = 0xb6)"
  obtain d out where e: "end_frame cb ends c = (d, out)" by (cases "end_frame cb ends c")
  then have s: "step_ok K (d, out)" using end_frame_step [OF assms] by metis
  then have d: "fidx_inv K d" "this_ok K d" by (simp_all add: step_ok_def)
  have t: "s64GlobalOffset (stThisSC d) \<in> K" using d(2) by (simp add: this_ok_def)
  note rules = step_ok_then [OF s] record_fresh_inv [OF d] start_frame_inv [OF d]
  show ?thesis
    using s assms d t fidx_inv_sps [OF d(1), of 0]
    by (simp add: ProcessSC_Avs_def Let_def ends_def [symmetric] e rules)
qed

lemma Mpeg4_step [fidx_step]:
  assumes "small_offsets K" "fidx_inv K c" "this_ok K c"
  shows "step_ok K (drop_ret (ProcessSC_Mpeg4 cb c))"
proof -
  define ends where "ends = (u8ThisSCData c ! 0 \<noteq> 0xb2)"
  obtain d out where e: "end_frame cb ends c = (d, out)" by (cases "end_frame cb ends c")
  then have s: "step_ok K (d, out)" using end_frame_step [OF assms] by metis
  then have d: "fidx_inv K d" "this_ok K d" by (simp_all add: step_ok_def)
  have t: "s64GlobalOffset (stThisSC d) \<in> K" using d(2) by (simp add: this_ok_def)
  note sps = fidx_inv_sps [OF d(1)]
  have sel: "s64GlobalOffset (SELECT_SPS (stSPS d ! 0) (SELECT_SPS (stSPS d ! 1) (SELECT_SPS (stSPS d ! 2) (stSPS d ! 3)))) \<in> K"
    if "eScType (stSPS d ! 3) = SC_TYPE_SPS"
    using that sps by (intro SELECT_SPS_off) simp_all
  note rules = step_ok_then [OF s] record_sps_inv [OF d] record_fresh_inv [OF d] start_frame_inv [OF d] start_frame_clear_inv [OF d]
  show ?thesis
    using s assms d t sel
    by (simp add: ProcessSC_Mpeg4_def Let_def ends_def [symmetric] e rules)
qed

section \<open>The invariant for H.264\<close>

lemma H264MakeFrame_inv:
  assumes "small_offsets K" "fidx_inv K c" "this_ok K c" "eFrameType (stNewFramePos c) \<noteq> FIDX_FRAME_TYPE_UNKNOWN"
  shows "fidx_inv K (H264MakeFrame c)" "this_ok K (H264MakeFrame c)" "span_ok K (stNewFramePos (H264MakeFrame c))"
proof -
  define e where "e = (if SC_TYPE_NONSLICE \<noteq> eScType (stSEIFollowSlice c) then s64GlobalOffset (stThisSC c)
                    else s64GlobalOffset (stSEIFollowSlice c))"
  have e: "e \<in> K" using assms by (auto simp: e_def fidx_inv_def this_ok_def)
  have f: "fp_GlobalOffset (stNewFramePos c) \<in> K" using assms by (simp add: fidx_inv_def)
  have i: "s32SpsID c < 32" using assms by (simp add: fidx_inv_def)
  have s: "s64GlobalOffset (stSPS c ! s32SpsID c) \<in> K" if "u8SpsFresh c ! s32SpsID c = 1"
    using that assms(2) i by (simp add: fidx_inv_def)
  note cast = s32_cast_span [OF assms(1) e]
  note unf = H264MakeFrame_def Let_def e_def [symmetric]
  show "fidx_inv K (H264MakeFrame c)"
    using assms(2) i s f unfolding unf by (auto simp: fidx_inv_def nth_list_update)
  show "this_ok K (H264MakeFrame c)"
    using assms(3) unfolding unf by (simp add: this_ok_def)
  show "span_ok K (stNewFramePos (H264MakeFrame c))"
    using e f s cast unfolding unf by (simp add: span_ok_def)
qed

lemma make_output_step [fidx_step]:
  assumes "small_offsets K" "fidx_inv K c" "this_ok K c" "eFrameType (stNewFramePos c) \<noteq> FIDX_FRAME_TYPE_UNKNOWN"
  shows "step_ok K (OUTPUT_FRAME cb (H264MakeFrame c))"
  using OUTPUT_FRAME_step H264MakeFrame_inv [OF assms] by blast

lemma h264_border_step [fidx_step]:
  assumes "small_offsets K" "fidx_inv K c" "this_ok K c"
  shows "step_ok K (h264_border cb border c)"
  using assms make_output_step [OF assms] by (auto simp: h264_border_def)

lemma store_sps_inv:
  assumes "fidx_inv K c" "this_ok K c" "i < 32"
    and "sc = (stThisSC c)\<lparr>eScType := SC_TYPE_SPS, s32ScID := i\<rparr>"
  shows "fidx_inv K (c\<lparr>stThisSC := sc, stSPS := (stSPS c)[i := sc], u8SpsFresh := (u8SpsFresh c)[i := 1]\<rparr>)"
    "this_ok K (c\<lparr>stThisSC := sc, stSPS := (stSPS c)[i := sc], u8SpsFresh := (u8SpsFresh c)[i := 1]\<rparr>)"
  using assms by (auto simp: fidx_inv_def this_ok_def nth_list_update)

lemma h264_sps_step [fidx_step]:
  assumes "small_offsets K" "fidx_inv K c" "this_ok K c"
  shows "step_ok K (drop_ret (h264_sps cb c))"
proof (cases "ParseSPS (u8ThisSCData c) (s32ThisSCDataLen c)")
  case None
  then show ?thesis using assms by (simp add: h264_sps_def)
next
  case (Some i)
  obtain d out where e: "h264_border cb (s32SpsID c = i) c = (d, out)"
    by (cases "h264_border cb (s32SpsID c = i) c")
  then have s: "step_ok K (d, out)" using h264_border_step [OF assms] by metis
  then have d: "fidx_inv K d" "this_ok K d" by (simp_all add: step_ok_def)
  show ?thesis
    unfolding h264_sps_def Some option.case e Let_def prod.case drop_ret_simp
    using step_ok_then [OF s] store_sps_inv [OF d ParseSPS_bound [OF Some] refl] by blast
qed

lemma store_pps_inv:
  assumes "fidx_inv K c" "this_ok K c" "i < 32"
    and "sc = (stThisSC c)\<lparr>eScType := SC_TYPE_PPS, s32ScID := j, s32SupScID := i\<rparr>"
  shows "fidx_inv K (c\<lparr>stThisSC := sc, stPPS := (stPPS c)[j := sc]\<rparr>)"
    "this_ok K (c\<lparr>stThisSC := sc, stPPS := (stPPS c)[j := sc]\<rparr>)"
  using assms by (auto simp: fidx_inv_def this_ok_def dest!: subsetD [OF set_update_subset_insert])

lemma h264_pps_step [fidx_step]:
  assumes "small_offsets K" "fidx_inv K c" "this_ok K c"
  shows "step_ok K (drop_ret (h264_pps cb c))"
proof (cases "ParsePPS (u8ThisSCData c) (s32ThisSCDataLen c)")
  case None
  then show ?thesis using assms by (simp add: h264_pps_def)
next
  case (Some ij)
  obtain i j where ij: "ij = (i, j)" by (cases ij)
  then have i: "i < 32" using Some ParsePPS_bound by blast
  obtain d out where e: "h264_border cb (s32PpsID c = j) c = (d, out)"
    by (cases "h264_border cb (s32PpsID c = j) c")
  then have s: "step_ok K (d, out)" using h264_border_step [OF assms] by metis
  then have d: "fidx_inv K d" "this_ok K d" by (simp_all add: step_ok_def)
  show ?thesis
  proof (cases "SC_TYPE_SPS = eScType (stSPS c ! i)")
    case True
    have "drop_ret (h264_pps cb c) = (let sc = (stThisSC d)\<lparr>eScType := SC_TYPE_PPS, s32ScID := j, s32SupScID := i\<rparr>
        in (d\<lparr>stThisSC := sc, stPPS := (stPPS d)[j := sc]\<rparr>, out))"
      using True by (simp add: h264_pps_def Some ij e Let_def)
    then show ?thesis
      using step_ok_then [OF s] store_pps_inv [OF d i refl] unfolding Let_def by metis
  next
    case False
    then show ?thesis using assms by (simp add: h264_pps_def Some ij)
  qed
qed

lemma slice_check_inv:
  assumes "fidx_inv K c" "this_ok K c"
  shows "fidx_inv K (slice_check j c)" "this_ok K (slice_check j c)"
  using assms by (auto simp: slice_check_def fidx_inv_def this_ok_def)

lemma slice_border_step [fidx_step]:
  assumes "small_offsets K" "fidx_inv K c" "this_ok K c"
  shows "step_ok K (slice_border cb mb st j c)"
proof -
  have "fidx_inv K (c\<lparr>stNewFramePos := (stNewFramePos c)\<lparr>eFrameType := t\<rparr>,
      stThisSC := (stThisSC c)\<lparr>eScType := SC_TYPE_UNKNOWN\<rparr>\<rparr>)"
    "this_ok K (c\<lparr>stNewFramePos := (stNewFramePos c)\<lparr>eFrameType := t\<rparr>,
      stThisSC := (stThisSC c)\<lparr>eScType := SC_TYPE_UNKNOWN\<rparr>\<rparr>)"
    if "eFrameType (stNewFramePos c) \<noteq> FIDX_FRAME_TYPE_UNKNOWN" for t
    using that assms(2,3) by (auto simp: fidx_inv_def this_ok_def)
  then show ?thesis
    using assms make_output_step [OF assms] by (simp add: slice_border_def Let_def)
qed

lemma slice_start_inv:
  assumes "fidx_inv K c" "this_ok K c" "j < 256"
  shows "fidx_inv K (slice_start st j c)" "this_ok K (slice_start st j c)"
proof -
  have "s32SupScID (stPPS c ! j) < 32" using assms by (auto simp: fidx_inv_def)
  then show "fidx_inv K (slice_start st j c)" "this_ok K (slice_start st j c)"
    using assms by (auto simp: slice_start_def start_frame_def Let_def fidx_inv_def this_ok_def)
qed

lemma clear_end_inv:
  assumes "fidx_inv K c" "this_ok K c"
  shows "fidx_inv K (c\<lparr>stSEIFollowSlice := (stSEIFollowSlice c)\<lparr>eScType := SC_TYPE_UNKNOWN\<rparr>\<rparr>)"
    "this_ok K (c\<lparr>stSEIFollowSlice := (stSEIFollowSlice c)\<lparr>eScType := SC_TYPE_UNKNOWN\<rparr>\<rparr>)"
  using assms by (auto simp: fidx_inv_def this_ok_def)

lemma h264_slice_step [fidx_step]:
  assumes "small_offsets K" "fidx_inv K c" "this_ok K c"
  shows "step_ok K (drop_ret (h264_slice cb c))"
proof (cases "ParseSliceHeader (u8ThisSCData c) (s32ThisSCDataLen c)")
  case None
  then show ?thesis using clear_end_inv [OF assms(2,3)] by (simp add: h264_slice_def)
next
  case (Some h)
  obtain mb st j where h: "h = (mb, st, j)" by (cases h)
  then have j: "j < 256" using Some ParseSliceHeader_bound by blast
  obtain d out where e: "slice_border cb mb st j (slice_check j c) = (d, out)"
    by (cases "slice_border cb mb st j (slice_check j c)")
  then have s: "step_ok K (d, out)"
    using slice_border_step [OF assms(1) slice_check_inv [OF assms(2,3)]] by metis
  then have d: "fidx_inv K d" "this_ok K d" by (simp_all add: step_ok_def)
  show ?thesis
    using step_ok_then [OF s] clear_end_inv [OF slice_start_inv [OF d j]]
    by (simp add: h264_slice_def Some h e)
qed

lemma H264_step [fidx_step]:
  assumes "small_offsets K" "fidx_inv K c" "this_ok K c"
  shows "step_ok K (drop_ret (ProcessSC_H264 cb c))"
proof -
  define d where "d = (if u8ThisSCData c ! 0 AND 31 \<noteq> 5 \<and> u8ThisSCData c ! 0 AND 31 \<noteq> 1 \<and> eScType (stSEIFollowSlice c) = SC_TYPE_UNKNOWN
                    then c\<lparr>stSEIFollowSlice := (stThisSC c)\<lparr>eScType := SC_TYPE_NONSLICE\<rparr>\<rparr> else c)"
  have d: "fidx_inv K d" "this_ok K d" using assms by (auto simp: d_def fidx_inv_def this_ok_def)
  show ?thesis
    using assms d h264_sps_step [OF assms(1) d] h264_pps_step [OF assms(1) d] h264_slice_step [OF assms(1) d]
    unfolding ProcessSC_H264_def Let_def d_def [symmetric] by simp
qed

lemma ANANYSE_SC_step:
  assumes "small_offsets K" "fidx_inv K c" "this_ok K c"
  shows "step_ok K (ANANYSE_SC cb c)"
proof -
  have "step_ok K (drop_ret (ProcessThisSC cb c))"
    using Mpeg2_step [OF assms] Avs_step [OF assms] Mpeg4_step [OF assms] H264_step [OF assms] assms
    by (auto simp: ProcessThisSC_def split: vidstd.split)
  then show ?thesis
    by (cases "ProcessThisSC cb c") (auto simp: ANANYSE_SC_def step_ok_def fidx_inv_def this_ok_def)
qed

lemma load_sc_inv:
  assumes "fidx_inv K c" "scd_GlobalOffset sc \<in> K"
  shows "fidx_inv K (load_sc sc c)" "this_ok K (load_sc sc c)"
  using assms by (auto simp: load_sc_def fidx_inv_def this_ok_def length_mem_write)

lemma feed_ctx_step:
  assumes "small_offsets K" "fidx_inv K c" "scd_GlobalOffset sc \<in> K"
  shows "step_ok K (feed_ctx cb sc c)"
proof -
  note l = load_sc_inv [OF assms(2,3)]
  have "fidx_inv K ((load_sc sc c)\<lparr>u32PTS := p, s32ThisSCValid := False, s32ThisSCDataLen := 0\<rparr>)"
    "this_ok K ((load_sc sc c)\<lparr>u32PTS := p, s32ThisSCValid := False, s32ThisSCDataLen := 0\<rparr>)" for p
    using l by (auto simp: fidx_inv_def this_ok_def)
  then show ?thesis
    using ANANYSE_SC_step [OF assms(1) l] l(2)
    by (simp add: feed_ctx_def Let_def step_ok_def span_ok_def frame_zero_def this_ok_def)
qed
section \<open>Runs of an instance\<close>

fun feed_all :: "bool \<Rightarrow> findex_scd list \<Rightarrow> fidx_ctx \<Rightarrow> fidx_ctx \<times> frame_out" where
  "feed_all cb [] c = (c, [])"
| "feed_all cb (sc # scs) c =
     (let (c, out) = feed_ctx cb sc c; (c, outs) = feed_all cb scs c in (c, out @ outs))"

definition open_ctx :: "vidstd \<Rightarrow> strm_type \<Rightarrow> nat \<Rightarrow> fidx_ctx" where
  "open_ctx v t prm = ctx_zero\<lparr>eCtxState := CTX_STATE_ENABLE, eVideoStandard := v, eStrmType := t,
     u8Prev2Bytes := [0xff, 0xff], Param := prm\<rparr>"

lemma open_ctx_inv: "fidx_inv {} (open_ctx v t prm)"
  by (simp add: open_ctx_def ctx_zero_def fidx_inv_def sc_zero_def frame_zero_def SC_SUPPORT_DATA_SIZE_def)

lemma fidx_inv_mono: "fidx_inv K c \<Longrightarrow> K \<subseteq> L \<Longrightarrow> fidx_inv L c"
  by (auto simp: fidx_inv_def)

lemma feed_all_inv:
  assumes "small_offsets K" "fidx_inv K c" "scd_GlobalOffset ` set scs \<subseteq> K"
  shows "fidx_inv K (fst (feed_all cb scs c)) \<and> (\<forall>f\<in>snd ` set (snd (feed_all cb scs c)). span_ok K f)"
  using assms(2,3)
proof (induction scs arbitrary: c)
  case Nil
  then show ?case by simp
next
  case (Cons sc scs)
  obtain d out where d: "feed_ctx cb sc c = (d, out)" by (cases "feed_ctx cb sc c")
  have "step_ok K (d, out)"
    using feed_ctx_step [OF assms(1) Cons.prems(1), of sc cb] Cons.prems(2) d by simp
  then have "fidx_inv K d" "\<forall>f\<in>snd ` set out. span_ok K f" by (simp_all add: step_ok_def)
  moreover obtain e outs where e: "feed_all cb scs d = (e, outs)" by (cases "feed_all cb scs d")
  ultimately show ?case
    using Cons.IH [of d] Cons.prems(2) by (auto simp: d e)
qed
section \<open>Presentation times are used once\<close>

abbreviation pending :: "fidx_ctx \<Rightarrow> bool" where
  "pending c \<equiv> eFrameType (stNewFramePos c) \<noteq> FIDX_FRAME_TYPE_UNKNOWN"

definition pts_live :: "fidx_ctx \<Rightarrow> nat" where
  "pts_live c = of_bool (u32PTS c \<noteq> INVALID_PTS) + of_bool (pending c \<and> fp_PTS (stNewFramePos c) \<noteq> INVALID_PTS)"

definition timed_frames :: "frame_out \<Rightarrow> nat" where
  "timed_frames out = length (filter (\<lambda>(p, f). eFrameType f \<noteq> FIDX_FRAME_TYPE_PESH \<and> fp_PTS f \<noteq> INVALID_PTS) out)"

definition pts_step :: "fidx_ctx \<Rightarrow> fidx_ctx \<times> frame_out \<Rightarrow> bool" where
  "pts_step c r \<longleftrightarrow> timed_frames (snd r) + pts_live (fst r) \<le> pts_live c"

lemma timed_frames_simps [simp]: "timed_frames [] = 0" "timed_frames (xs @ ys) = timed_frames xs + timed_frames ys"
  by (simp_all add: timed_frames_def)

lemma pts_step_nil [simp]: "pts_step c (d, []) \<longleftrightarrow> pts_live d \<le> pts_live c"
  by (simp add: pts_step_def)

lemma pts_step_then: "pts_step c (d, out) \<Longrightarrow> pts_live e \<le> pts_live d \<Longrightarrow> pts_step c (e, out)"
  by (simp add: pts_step_def)

lemma OUTPUT_FRAME_pts: "pending c \<Longrightarrow> pts_step c (OUTPUT_FRAME cb c)"
  by (auto simp: pts_step_def OUTPUT_FRAME_def pts_live_def timed_frames_def frame_zero_def)

lemma OUTPUT_FRAME_done: "\<not> pending (fst (OUTPUT_FRAME cb c))"
  by (simp add: OUTPUT_FRAME_def frame_zero_def)

lemma end_frame_pts: "pts_step c (end_frame cb ends c)"
proof (cases "pending c \<and> ends")
  case True
  define d where "d = c\<lparr>stNewFramePos := (stNewFramePos c)\<lparr>s32FrameSize :=
    s32_cast (s64GlobalOffset (stThisSC c) - fp_GlobalOffset (stNewFramePos c))\<rparr>\<rparr>"
  have "pts_live d = pts_live c" "pending d" using True by (simp_all add: d_def pts_live_def)
  then have "pts_step c (OUTPUT_FRAME cb d)" using OUTPUT_FRAME_pts [of d cb] by (simp add: pts_step_def)
  then show ?thesis
    using True by (auto simp: end_frame_def Let_def d_def pts_live_def)
next
  case False
  then show ?thesis by (auto simp: end_frame_def)
qed

lemma end_frame_done: "ends \<Longrightarrow> \<not> pending (fst (end_frame cb ends c))"
  using OUTPUT_FRAME_done by (simp add: end_frame_def Let_def)

lemma start_frame_pts: "\<not> pending c \<Longrightarrow> pts_live (start_frame t sc c) \<le> pts_live c"
  by (simp add: pts_live_def start_frame_def)

lemma pts_live_updates [simp]:
  "pts_live (record_sps i c) = pts_live c"
  "pts_live (c\<lparr>u8SpsFresh := x\<rparr>) = pts_live c"
  "pts_live (c\<lparr>stThisSC := y\<rparr>) = pts_live c"
  "pts_live (c\<lparr>stSPS := z\<rparr>) = pts_live c"
  "pts_live (c\<lparr>stPPS := z\<rparr>) = pts_live c"
  "pts_live (c\<lparr>stSEIFollowSlice := y\<rparr>) = pts_live c"
  "pts_live (c\<lparr>s32PpsID := n\<rparr>) = pts_live c"
  "pts_live (c\<lparr>s32SpsID := n\<rparr>) = pts_live c"
  "pts_live (c\<lparr>s32ThisSCValid := v\<rparr>) = pts_live c"
  "pts_live (c\<lparr>s32ThisSCDataLen := n\<rparr>) = pts_live c"
  "pts_live (load_sc sc c) = pts_live c"
  by (simp_all add: pts_live_def record_sps_def load_sc_def Let_def)

lemma Mpeg2_pts: "pts_step c (drop_ret (ProcessSC_Mpeg2 cb c))"
proof -
  define ends where "ends = (u8ThisSCData c ! 0 = 0xb3 \<or> u8ThisSCData c ! 0 = 0x00)"
  obtain d out where e: "end_frame cb ends c = (d, out)" by (cases "end_frame cb ends c")
  then have s: "pts_step c (d, out)" using end_frame_pts [of c cb ends] by simp
  have fin: "\<not> pending d" if "ends" using end_frame_done [OF that, of cb c] e by simp
  show ?thesis
    using s fin by (auto simp: ProcessSC_Mpeg2_def Let_def ends_def [symmetric] e)
      (auto simp: ends_def intro!: pts_step_then [OF s] start_frame_pts)
qed
lemma Avs_pts: "pts_step c (drop_ret (ProcessSC_Avs cb c))"
proof -
  define ends where "ends = (u8ThisSCData c ! 0 = 0xb0 \<or> u8ThisSCData c ! 0 = 0xb1 \<or> u8ThisSCData c ! 0 = 0xb3 \<or> u8ThisSCData c ! 0 = 0xb6)"
  obtain d out where e: "end_frame cb ends c = (d, out)" by (cases "end_frame cb ends c")
  then have s: "pts_step c (d, out)" using end_frame_pts [of c cb ends] by simp
  have fin: "\<not> pending d" if "ends" using end_frame_done [OF that, of cb c] e by simp
  show ?thesis
    using s fin by (auto simp: ProcessSC_Avs_def Let_def ends_def [symmetric] e)
      (auto simp: ends_def intro!: pts_step_then [OF s] start_frame_pts)
qed

lemma Mpeg4_pts: "pts_step c (drop_ret (ProcessSC_Mpeg4 cb c))"
proof -
  define ends where "ends = (u8ThisSCData c ! 0 \<noteq> 0xb2)"
  obtain d out where e: "end_frame cb ends c = (d, out)" by (cases "end_frame cb ends c")
  then have s: "pts_step c (d, out)" using end_frame_pts [of c cb ends] by simp
  have fin: "pts_live (start_frame t sc d) \<le> pts_live d" if "u8ThisSCData c ! 0 = 0xb6" for t sc
    using end_frame_done [of ends cb c] e that by (simp add: ends_def start_frame_pts)
  show ?thesis
    using s fin pts_step_then [OF s] by (simp add: ProcessSC_Mpeg4_def Let_def ends_def [symmetric] e)
qed

lemma make_output_pts: "pending c \<Longrightarrow> pts_step c (OUTPUT_FRAME cb (H264MakeFrame c))"
proof -
  assume p: "pending c"
  have "pending (H264MakeFrame c)" "pts_live (H264MakeFrame c) = pts_live c"
    using p by (simp_all add: H264MakeFrame_def Let_def pts_live_def)
  then show ?thesis using OUTPUT_FRAME_pts [of "H264MakeFrame c" cb] by (simp add: pts_step_def)
qed

lemma h264_border_pts: "pts_step c (h264_border cb border c)"
  using make_output_pts [of c cb] by (auto simp: h264_border_def)

lemma h264_sps_pts: "pts_step c (drop_ret (h264_sps cb c))"
proof (cases "ParseSPS (u8ThisSCData c) (s32ThisSCDataLen c)")
  case (Some i)
  obtain d out where e: "h264_border cb (s32SpsID c = i) c = (d, out)"
    by (cases "h264_border cb (s32SpsID c = i) c")
  then have "pts_step c (d, out)" using h264_border_pts by metis
  then show ?thesis by (simp add: h264_sps_def Some e Let_def pts_step_def)
qed (simp add: h264_sps_def)

lemma h264_pps_pts: "pts_step c (drop_ret (h264_pps cb c))"
proof (cases "ParsePPS (u8ThisSCData c) (s32ThisSCDataLen c)")
  case (Some ij)
  obtain i j where ij: "ij = (i, j)" by (cases ij)
  obtain d out where e: "h264_border cb (s32PpsID c = j) c = (d, out)"
    by (cases "h264_border cb (s32PpsID c = j) c")
  then have "pts_step c (d, out)" using h264_border_pts by metis
  then show ?thesis by (simp add: h264_pps_def Some ij e Let_def pts_step_def)
qed (simp add: h264_pps_def)

lemma slice_check_live: "pts_live (slice_check j c) = pts_live c"
  by (simp add: slice_check_def)

lemma slice_border_pts: "pts_step c (slice_border cb mb st j c)"
  using make_output_pts [of c cb] by (auto simp: slice_border_def Let_def) (simp_all add: pts_live_def)

lemma slice_start_live: "pts_live (slice_start st j c) \<le> pts_live c"
  using start_frame_pts [of c] by (auto simp: slice_start_def Let_def)

lemma h264_slice_pts: "pts_step c (drop_ret (h264_slice cb c))"
proof (cases "ParseSliceHeader (u8ThisSCData c) (s32ThisSCDataLen c)")
  case (Some h)
  obtain mb st j where h: "h = (mb, st, j)" by (cases h)
  obtain d out where e: "slice_border cb mb st j (slice_check j c) = (d, out)"
    by (cases "slice_border cb mb st j (slice_check j c)")
  then have "pts_step (slice_check j c) (d, out)" using slice_border_pts by metis
  then have "pts_step c (d, out)" by (simp add: pts_step_def slice_check_live)
  then show ?thesis
    using slice_start_live [of st j d] by (simp add: h264_slice_def Some h e pts_step_def)
qed (simp add: h264_slice_def)

lemma H264_pts: "pts_step c (drop_ret (ProcessSC_H264 cb c))"
proof -
  define d where "d = (if u8ThisSCData c ! 0 AND 31 \<noteq> 5 \<and> u8ThisSCData c ! 0 AND 31 \<noteq> 1 \<and> eScType (stSEIFollowSlice c) = SC_TYPE_UNKNOWN
                    then c\<lparr>stSEIFollowSlice := (stThisSC c)\<lparr>eScType := SC_TYPE_NONSLICE\<rparr>\<rparr> else c)"
  have d: "pts_live d = pts_live c" by (simp add: d_def)
  have "pts_step d r = pts_step c r" for r by (simp add: pts_step_def d)
  then show ?thesis
    using h264_sps_pts [of d cb] h264_pps_pts [of d cb] h264_slice_pts [of d cb] d
    unfolding ProcessSC_H264_def Let_def d_def [symmetric] by simp
qed

lemma feed_ctx_pts:
  "timed_frames (snd (feed_ctx cb sc c)) + pts_live (fst (feed_ctx cb sc c))
     \<le> pts_live c + of_bool (IsPesSC (u8StartCode sc) (eVideoStandard c))"
proof (cases "IsPesSC (u8StartCode sc) (eVideoStandard c)")
  case True
  moreover have "eVideoStandard (load_sc sc c) = eVideoStandard c" by (simp add: load_sc_def)
  ultimately show ?thesis
    by (simp add: feed_ctx_def Let_def timed_frames_def pts_live_def load_sc_def)
next
  case False
  let ?d = "load_sc sc c"
  have "eVideoStandard ?d = eVideoStandard c" by (simp add: load_sc_def)
  then have f: "feed_ctx cb sc c = ANANYSE_SC cb ?d" using False by (simp add: feed_ctx_def)
  have "pts_step ?d (drop_ret (ProcessThisSC cb ?d))"
    using Mpeg2_pts Avs_pts Mpeg4_pts H264_pts by (simp add: ProcessThisSC_def split: vidstd.split)
  then show ?thesis
    by (cases "ProcessThisSC cb ?d") (simp add: f ANANYSE_SC_def pts_step_def)
qed
section \<open>Instances do not interfere\<close>

text \<open>What a step never changes: the video standard and the parameter of the callback; every report
  carries that parameter.\<close>

definition same_id :: "fidx_ctx \<Rightarrow> fidx_ctx \<times> frame_out \<Rightarrow> bool" where
  "same_id c r \<longleftrightarrow> eVideoStandard (fst r) = eVideoStandard c \<and> Param (fst r) = Param c \<and> fst ` set (snd r) \<subseteq> {Param c}"

lemma same_id_simps [simp]:
  "same_id c (OUTPUT_FRAME cb c)" "same_id c (end_frame cb ends c)" "same_id c (OUTPUT_FRAME cb (H264MakeFrame c))"
  "same_id c (h264_border cb border c)" "same_id c (slice_border cb mb st j c)"
  by (auto simp: same_id_def OUTPUT_FRAME_def end_frame_def h264_border_def slice_border_def H264MakeFrame_def Let_def)

lemma same_id_nil [simp]: "same_id c (d, []) \<longleftrightarrow> eVideoStandard d = eVideoStandard c \<and> Param d = Param c"
  by (simp add: same_id_def)

lemma id_updates [simp]:
  "eVideoStandard (record_sps i c) = eVideoStandard c" "Param (record_sps i c) = Param c"
  "eVideoStandard (start_frame t sc c) = eVideoStandard c" "Param (start_frame t sc c) = Param c"
  "eVideoStandard (slice_check j c) = eVideoStandard c" "Param (slice_check j c) = Param c"
  "eVideoStandard (slice_start st j c) = eVideoStandard c" "Param (slice_start st j c) = Param c"
  "eVideoStandard (load_sc s c) = eVideoStandard c" "Param (load_sc s c) = Param c"
  by (simp_all add: record_sps_def start_frame_def slice_check_def slice_start_def load_sc_def Let_def)

lemma same_id_then:
  "same_id c (d, out) \<Longrightarrow> eVideoStandard e = eVideoStandard d \<Longrightarrow> Param e = Param d \<Longrightarrow> same_id c (e, out)"
  by (simp add: same_id_def)

lemma same_idD: "same_id c r \<Longrightarrow> r = (d, out) \<Longrightarrow> same_id c (d, out)"
  by simp

lemma Mpeg2_id: "same_id c (drop_ret (ProcessSC_Mpeg2 cb c))"
proof -
  obtain d out where e: "end_frame cb (u8ThisSCData c ! 0 = 0xb3 \<or> u8ThisSCData c ! 0 = 0x00) c = (d, out)"
    by (cases "end_frame cb (u8ThisSCData c ! 0 = 0xb3 \<or> u8ThisSCData c ! 0 = 0x00) c")
  note s = same_idD [OF same_id_simps(2) e]
  show ?thesis using s same_id_then [OF s] by (simp add: ProcessSC_Mpeg2_def Let_def e)
qed

lemma Avs_id: "same_id c (drop_ret (ProcessSC_Avs cb c))"
proof -
  define ends where "ends = (u8ThisSCData c ! 0 = 0xb0 \<or> u8ThisSCData c ! 0 = 0xb1 \<or> u8ThisSCData c ! 0 = 0xb3 \<or> u8ThisSCData c ! 0 = 0xb6)"
  obtain d out where e: "end_frame cb ends c = (d, out)" by (cases "end_frame cb ends c")
  note s = same_idD [OF same_id_simps(2) e]
  show ?thesis using s same_id_then [OF s] by (simp add: ProcessSC_Avs_def Let_def ends_def [symmetric] e)
qed

lemma Mpeg4_id: "same_id c (drop_ret (ProcessSC_Mpeg4 cb c))"
proof -
  define ends where "ends = (u8ThisSCData c ! 0 \<noteq> 0xb2)"
  obtain d out where e: "end_frame cb ends c = (d, out)" by (cases "end_frame cb ends c")
  note s = same_idD [OF same_id_simps(2) e]
  show ?thesis using s same_id_then [OF s] by (simp add: ProcessSC_Mpeg4_def Let_def ends_def [symmetric] e)
qed

lemma H264_id: "same_id c (drop_ret (ProcessSC_H264 cb c))"
proof -
  define d where "d = (if u8ThisSCData c ! 0 AND 31 \<noteq> 5 \<and> u8ThisSCData c ! 0 AND 31 \<noteq> 1 \<and> eScType (stSEIFollowSlice c) = SC_TYPE_UNKNOWN
                    then c\<lparr>stSEIFollowSlice := (stThisSC c)\<lparr>eScType := SC_TYPE_NONSLICE\<rparr>\<rparr> else c)"
  have d: "eVideoStandard d = eVideoStandard c" "Param d = Param c" by (simp_all add: d_def)
  have s: "same_id c (e, out)" if "h264_border cb b d = (e, out)" for b e out
    using same_idD [OF same_id_simps(4) that] d by (simp add: same_id_def)
  have b: "same_id c (e, out)" if "slice_border cb mb st j (slice_check j d) = (e, out)" for mb st j e out
    using same_idD [OF same_id_simps(5) that] d by (simp add: same_id_def)
  have "same_id c (drop_ret (h264_sps cb d))" "same_id c (drop_ret (h264_pps cb d))" "same_id c (drop_ret (h264_slice cb d))"
    using d by (auto simp: h264_sps_def h264_pps_def h264_slice_def Let_def split: option.split prod.split
        intro: same_id_then [OF s] same_id_then [OF b])
  then show ?thesis
    using d unfolding ProcessSC_H264_def Let_def d_def [symmetric] by simp
qed

lemma feed_ctx_id: "same_id c (feed_ctx cb sc c)"
proof -
  have "same_id d (drop_ret (ProcessThisSC cb d))" for d
    using Mpeg2_id Avs_id Mpeg4_id H264_id by (simp add: ProcessThisSC_def split: vidstd.split)
  then have "same_id d (ANANYSE_SC cb d)" for d
    by (cases "ProcessThisSC cb d") (simp add: ANANYSE_SC_def same_id_def drop_ret_def, metis fst_conv snd_conv)
  from this [of "load_sc sc c"] show ?thesis
    by (auto simp: feed_ctx_def Let_def same_id_def)
qed

lemma feed_all_id: "same_id c (feed_all cb scs c)"
proof (induction scs arbitrary: c)
  case (Cons sc scs)
  obtain d out where d: "feed_ctx cb sc c = (d, out)" by (cases "feed_ctx cb sc c")
  obtain e outs where e: "feed_all cb scs d = (e, outs)" by (cases "feed_all cb scs d")
  show ?case
    using feed_ctx_id [of c cb sc] Cons.IH [of d] by (auto simp: d e same_id_def)
qed simp

lemma feed_all_pts:
  "timed_frames (snd (feed_all cb scs c)) + pts_live (fst (feed_all cb scs c))
     \<le> pts_live c + length (filter (\<lambda>sc. IsPesSC (u8StartCode sc) (eVideoStandard c)) scs)"
proof (induction scs arbitrary: c)
  case (Cons sc scs)
  obtain d out where d: "feed_ctx cb sc c = (d, out)" by (cases "feed_ctx cb sc c")
  obtain e outs where e: "feed_all cb scs d = (e, outs)" by (cases "feed_all cb scs d")
  have "eVideoStandard d = eVideoStandard c" using feed_ctx_id [of c cb sc] by (simp add: d same_id_def)
  then show ?case
    using feed_ctx_pts [of cb sc c] Cons.IH [of d]
    by (cases "IsPesSC (u8StartCode sc) (eVideoStandard c)") (simp_all add: d e)
qed simp

section \<open>Frames end behind their start\<close>

text \<open>\<open>fwd t c\<close>: the parameter sets and the pending frame lie before position \<open>t\<close>, the first
code behind the last slice at most there, and that code behind the pending frame and behind the
parameter set the frame may be moved to.\<close>

definition fwd :: "int \<Rightarrow> fidx_ctx \<Rightarrow> bool" where
  "fwd t c \<longleftrightarrow>
     (\<forall>i<32. (u8SpsFresh c ! i = 1 \<or> eScType (stSPS c ! i) = SC_TYPE_SPS) \<longrightarrow> s64GlobalOffset (stSPS c ! i) \<in> {0..<t})
     \<and> (pending c \<longrightarrow> fp_GlobalOffset (stNewFramePos c) \<in> {0..<t} \<and> eFrameType (stNewFramePos c) \<noteq> FIDX_FRAME_TYPE_PESH)
     \<and> (eScType (stSEIFollowSlice c) = SC_TYPE_NONSLICE \<longrightarrow>
          eVideoStandard c = VIDSTD_H264 \<and> s64GlobalOffset (stSEIFollowSlice c) \<in> {0..t}
          \<and> (pending c \<longrightarrow> fp_GlobalOffset (stNewFramePos c) < s64GlobalOffset (stSEIFollowSlice c)
               \<and> (u8SpsFresh c ! s32SpsID c = 1 \<longrightarrow>
                    s64GlobalOffset (stSPS c ! s32SpsID c) < s64GlobalOffset (stSEIFollowSlice c))))"

definition code_at :: "int \<Rightarrow> fidx_ctx \<Rightarrow> bool" where
  "code_at t c \<longleftrightarrow> s64GlobalOffset (stThisSC c) = t \<and> 0 \<le> t \<and> t < 2 ^ 31 \<and> fidx_inv UNIV c"

definition picture :: "frame_pos \<Rightarrow> bool" where
  "picture f \<longleftrightarrow> eFrameType f \<noteq> FIDX_FRAME_TYPE_UNKNOWN \<and> eFrameType f \<noteq> FIDX_FRAME_TYPE_PESH \<and> 0 < s32FrameSize f"

definition pictures :: "frame_out \<Rightarrow> bool" where
  "pictures out \<longleftrightarrow> (\<forall>f\<in>snd ` set out. picture f)"

text \<open>In the middle of a step, and at its end.\<close>

definition fwd_mid :: "int \<Rightarrow> fidx_ctx \<times> frame_out \<Rightarrow> bool" where
  "fwd_mid t r \<longleftrightarrow> fwd t (fst r) \<and> code_at t (fst r) \<and> pictures (snd r)"

definition fwd_end :: "int \<Rightarrow> fidx_ctx \<times> frame_out \<Rightarrow> bool" where
  "fwd_end t r \<longleftrightarrow> fwd (t + 1) (fst r) \<and> pictures (snd r)"

lemma pictures_Nil [simp]: "pictures []"
  by (simp add: pictures_def)

lemma fwd_mono: "fwd t c \<Longrightarrow> t \<le> u \<Longrightarrow> fwd u c"
  unfolding fwd_def by auto

lemma fwd_mid_end: "fwd_mid t r \<Longrightarrow> fwd_end t r"
  using fwd_mono [of t "fst r" "t + 1"] by (simp add: fwd_mid_def fwd_end_def)

lemma fwd_end_then: "fwd_mid t (d, out) \<Longrightarrow> fwd (t + 1) e \<Longrightarrow> fwd_end t (e, out)"
  by (simp add: fwd_mid_def fwd_end_def)

lemma s32_cast_diff: "0 \<le> a \<Longrightarrow> a < 2 ^ 31 \<Longrightarrow> 0 \<le> b \<Longrightarrow> b < 2 ^ 31 \<Longrightarrow> s32_cast (b - a) = b - a"
  unfolding s32_cast_def by (subst mod_pos_pos_trivial) simp_all

lemma this_univ [simp]: "this_ok UNIV c"
  by (simp add: this_ok_def)

lemma small_univ [simp]: "small_offsets UNIV"
  by (simp add: small_offsets_def)

text \<open>The output of a frame whose fields are set.\<close>

lemma OUTPUT_FRAME_fwd:
  assumes "fwd t c" "code_at t c" "picture (stNewFramePos c)"
  shows "fwd_mid t (OUTPUT_FRAME cb c)"
  using assms by (auto simp: fwd_mid_def OUTPUT_FRAME_def pictures_def fwd_def code_at_def fidx_inv_def frame_zero_def)

lemma end_frame_fwd:
  assumes "fwd t c" "code_at t c"
  shows "fwd_mid t (end_frame cb ends c)"
proof (cases "pending c \<and> ends")
  case True
  let ?o = "fp_GlobalOffset (stNewFramePos c)"
  define d where "d = c\<lparr>stNewFramePos := (stNewFramePos c)\<lparr>s32FrameSize := t - ?o\<rparr>\<rparr>"
  have o: "?o \<in> {0..<t}" "eFrameType (stNewFramePos c) \<noteq> FIDX_FRAME_TYPE_PESH" using assms(1) True by (auto simp: fwd_def)
  have "s32_cast (s64GlobalOffset (stThisSC c) - ?o) = t - ?o"
    using o(1) assms(2) s32_cast_diff [of ?o t] by (simp add: code_at_def)
  then have e: "end_frame cb ends c = OUTPUT_FRAME cb d"
    using True o(1) by (simp add: end_frame_def Let_def d_def)
  have "fwd t d" "code_at t d" "picture (stNewFramePos d)"
    using assms o True by (auto simp: d_def fwd_def code_at_def fidx_inv_def picture_def)
  then show ?thesis unfolding e by (rule OUTPUT_FRAME_fwd)
next
  case False
  then show ?thesis using assms by (auto simp: end_frame_def fwd_mid_def)
qed

lemma record_fwd:
  assumes "fwd t c" "code_at t c" "i < 32" "eVideoStandard c \<noteq> VIDSTD_H264"
  shows "fwd (t + 1) ((record_sps i c)\<lparr>u8SpsFresh := (u8SpsFresh c)[i := n]\<rparr>)"
  using assms by (auto simp: record_sps_def Let_def fwd_def code_at_def fidx_inv_def nth_list_update)

lemma record_sps_fwd:
  assumes "fwd t c" "code_at t c" "i < 32" "eVideoStandard c \<noteq> VIDSTD_H264"
  shows "fwd (t + 1) (record_sps i c)"
  using assms by (auto simp: record_sps_def Let_def fwd_def code_at_def fidx_inv_def nth_list_update)

lemma start_frame_fwd:
  assumes "fwd t c" "code_at t c" "eVideoStandard c \<noteq> VIDSTD_H264" "t' \<noteq> FIDX_FRAME_TYPE_PESH"
    and "s64GlobalOffset sc \<in> {0..t}"
  shows "fwd (t + 1) (start_frame t' sc c)"
  using assms by (auto simp: start_frame_def fwd_def)

lemma start_clear_fwd:
  assumes "fwd t c" "code_at t c" "eVideoStandard c \<noteq> VIDSTD_H264" "t' \<noteq> FIDX_FRAME_TYPE_PESH"
    and "s64GlobalOffset sc \<in> {0..t}" "i < 32"
  shows "fwd (t + 1) ((start_frame t' sc c)\<lparr>u8SpsFresh := (u8SpsFresh c)[i := 0]\<rparr>)"
  using assms by (auto simp: start_frame_def fwd_def code_at_def fidx_inv_def nth_list_update)

lemma fwd_sps:
  "fwd t c \<Longrightarrow> eScType (stSPS c ! i) = SC_TYPE_SPS \<Longrightarrow> i < 32 \<Longrightarrow> s64GlobalOffset (stSPS c ! i) \<in> {0..t}"
  by (auto simp: fwd_def)

text \<open>The start of a step that first ends the pending frame.\<close>

lemma end_frame_start:
  assumes "fwd t c" "code_at t c" "eVideoStandard c \<noteq> VIDSTD_H264" "end_frame cb ends c = (d, out)"
  shows "fwd_end t (d, out)" "fwd t d" "code_at t d" "eVideoStandard d \<noteq> VIDSTD_H264"
    "s64GlobalOffset (stThisSC d) \<in> {0..t}" "fwd (t + 1) e \<Longrightarrow> fwd_end t (e, out)"
proof -
  have m: "fwd_mid t (d, out)" using end_frame_fwd [OF assms(1,2), of cb ends] assms(4) by simp
  then show "fwd_end t (d, out)" "fwd t d" "code_at t d" "s64GlobalOffset (stThisSC d) \<in> {0..t}"
    "fwd (t + 1) e \<Longrightarrow> fwd_end t (e, out)"
    using fwd_mid_end [OF m] fwd_end_then [OF m] by (auto simp: fwd_mid_def code_at_def)
  show "eVideoStandard d \<noteq> VIDSTD_H264"
    using same_id_simps(2) [of c cb ends] assms(3,4) by (simp add: same_id_def)
qed

lemma Mpeg2_fwd:
  assumes "fwd t c" "code_at t c" "eVideoStandard c \<noteq> VIDSTD_H264"
  shows "fwd_end t (drop_ret (ProcessSC_Mpeg2 cb c))"
proof -
  define ends where "ends = (u8ThisSCData c ! 0 = 0xb3 \<or> u8ThisSCData c ! 0 = 0x00)"
  obtain d out where e: "end_frame cb ends c = (d, out)" by (cases "end_frame cb ends c")
  note s = end_frame_start [OF assms e]
  show ?thesis
    using s(1,5) fwd_mono [OF assms(1)] fwd_sps [OF s(2), of 0]
    by (simp add: ProcessSC_Mpeg2_def Let_def ends_def [symmetric] e s(6) record_fwd [OF s(2,3) _ s(4)]
        start_frame_fwd [OF s(2,3,4)] start_clear_fwd [OF s(2,3,4)] fwd_end_def)
qed

lemma Avs_fwd:
  assumes "fwd t c" "code_at t c" "eVideoStandard c \<noteq> VIDSTD_H264"
  shows "fwd_end t (drop_ret (ProcessSC_Avs cb c))"
proof -
  define ends where "ends = (u8ThisSCData c ! 0 = 0xb0 \<or> u8ThisSCData c ! 0 = 0xb1 \<or> u8ThisSCData c ! 0 = 0xb3 \<or> u8ThisSCData c ! 0 = 0xb6)"
  obtain d out where e: "end_frame cb ends c = (d, out)" by (cases "end_frame cb ends c")
  note s = end_frame_start [OF assms e]
  show ?thesis
    using s(1,5) fwd_mono [OF assms(1)] fwd_sps [OF s(2), of 0]
    by (simp add: ProcessSC_Avs_def Let_def ends_def [symmetric] e s(6) record_fwd [OF s(2,3) _ s(4)]
        start_frame_fwd [OF s(2,3,4)] fwd_end_def)
qed

lemma Mpeg4_fwd:
  assumes "fwd t c" "code_at t c" "eVideoStandard c \<noteq> VIDSTD_H264"
  shows "fwd_end t (drop_ret (ProcessSC_Mpeg4 cb c))"
proof -
  define ends where "ends = (u8ThisSCData c ! 0 \<noteq> 0xb2)"
  obtain d out where e: "end_frame cb ends c = (d, out)" by (cases "end_frame cb ends c")
  note s = end_frame_start [OF assms e]
  have sel: "s64GlobalOffset (SELECT_SPS (stSPS d ! 0) (SELECT_SPS (stSPS d ! 1) (SELECT_SPS (stSPS d ! 2) (stSPS d ! 3)))) \<in> {0..t}"
    if "eScType (stSPS d ! 3) = SC_TYPE_SPS"
    using that fwd_sps [OF s(2)] by (intro SELECT_SPS_off) auto
  show ?thesis
    using s(1,5) fwd_mono [OF assms(1)] sel
    by (simp add: ProcessSC_Mpeg4_def Let_def ends_def [symmetric] e s(6) record_fwd [OF s(2,3) _ s(4)]
        record_sps_fwd [OF s(2,3) _ s(4)] start_frame_fwd [OF s(2,3,4)] start_clear_fwd [OF s(2,3,4)] fwd_end_def)
qed

text \<open>H.264.\<close>

lemma H264MakeFrame_fwd:
  assumes "fwd t c" "code_at t c" "pending c"
  shows "fwd t (H264MakeFrame c)" "code_at t (H264MakeFrame c)" "picture (stNewFramePos (H264MakeFrame c))"
proof -
  define e where "e = (if SC_TYPE_NONSLICE \<noteq> eScType (stSEIFollowSlice c) then s64GlobalOffset (stThisSC c)
                    else s64GlobalOffset (stSEIFollowSlice c))"
  have i: "s32SpsID c < 32" "length (u8SpsFresh c) = 32" using assms(2) by (auto simp: code_at_def fidx_inv_def)
  have e: "0 \<le> e" "e \<le> t" "e < 2 ^ 31" "fp_GlobalOffset (stNewFramePos c) \<in> {0..<e}"
    and s: "u8SpsFresh c ! s32SpsID c = 1 \<Longrightarrow> s64GlobalOffset (stSPS c ! s32SpsID c) \<in> {0..<e}"
    using assms i(1) by (auto simp: e_def fwd_def code_at_def)
  have cast: "s32_cast (e - x) = e - x" if "x \<in> {0..<e}" for x
    using that e(1-3) s32_cast_diff [of x e] by auto
  have ty: "eFrameType (stNewFramePos c) \<noteq> FIDX_FRAME_TYPE_PESH" using assms(1,3) by (simp add: fwd_def)
  note unf = H264MakeFrame_def Let_def e_def [symmetric]
  show "fwd t (H264MakeFrame c)"
    using assms(1,3) i s e unfolding unf by (auto simp: fwd_def nth_list_update split: if_splits)
  show "code_at t (H264MakeFrame c)"
    using assms(2) H264MakeFrame_inv(1) [of UNIV c] assms(3)
    by (simp add: code_at_def) (simp add: H264MakeFrame_def Let_def)
  show "picture (stNewFramePos (H264MakeFrame c))"
    using assms(3) e(4) s cast ty unfolding unf by (auto simp: picture_def)
qed

lemma border_fwd:
  assumes "fwd t c" "code_at t c"
  shows "fwd_mid t (h264_border cb border c)" "border \<Longrightarrow> \<not> pending (fst (h264_border cb border c))"
  using assms H264MakeFrame_fwd [OF assms] OUTPUT_FRAME_fwd [of t "H264MakeFrame c" cb] OUTPUT_FRAME_done
  by (auto simp: h264_border_def fwd_mid_def)

lemma border_spsid: "s32SpsID (fst (h264_border cb border c)) = s32SpsID c"
  by (simp add: h264_border_def OUTPUT_FRAME_def H264MakeFrame_def Let_def)

lemma h264_sps_fwd:
  assumes "fwd t c" "code_at t c"
  shows "fwd_end t (drop_ret (h264_sps cb c))"
proof (cases "ParseSPS (u8ThisSCData c) (s32ThisSCDataLen c)")
  case None
  then show ?thesis using fwd_mono [OF assms(1)] by (simp add: h264_sps_def fwd_end_def)
next
  case (Some i)
  obtain d out where e: "h264_border cb (s32SpsID c = i) c = (d, out)"
    by (cases "h264_border cb (s32SpsID c = i) c")
  have m: "fwd_mid t (d, out)" "s32SpsID d = i \<Longrightarrow> \<not> pending d"
    using border_fwd [OF assms, where cb = cb and border = "s32SpsID c = i"] border_spsid [of cb "s32SpsID c = i" c]
    unfolding e by simp_all
  let ?sc = "(stThisSC d)\<lparr>eScType := SC_TYPE_SPS, s32ScID := i\<rparr>"
  have "fwd (t + 1) (d\<lparr>stThisSC := ?sc, stSPS := (stSPS d)[i := ?sc], u8SpsFresh := (u8SpsFresh d)[i := 1]\<rparr>)"
    using m ParseSPS_bound [OF Some]
    by (auto simp: fwd_mid_def fwd_def code_at_def fidx_inv_def nth_list_update)
  from fwd_end_then [OF m(1) this] show ?thesis
    by (simp add: h264_sps_def Some e Let_def)
qed

lemma h264_pps_fwd:
  assumes "fwd t c" "code_at t c"
  shows "fwd_end t (drop_ret (h264_pps cb c))"
proof (cases "ParsePPS (u8ThisSCData c) (s32ThisSCDataLen c)")
  case None
  then show ?thesis using fwd_mono [OF assms(1)] by (simp add: h264_pps_def fwd_end_def)
next
  case (Some ij)
  obtain i j where ij: "ij = (i, j)" by (cases ij)
  obtain d out where e: "h264_border cb (s32PpsID c = j) c = (d, out)"
    by (cases "h264_border cb (s32PpsID c = j) c")
  have m: "fwd_mid t (d, out)" using border_fwd(1) [OF assms, of cb "s32PpsID c = j"] e by simp
  have "fwd (t + 1) (d\<lparr>stThisSC := sc, stPPS := ps\<rparr>)" for sc ps
    using m by (auto simp: fwd_mid_def fwd_def)
  then show ?thesis
    using m fwd_mono [OF assms(1)] by (simp add: h264_pps_def Some ij e Let_def fwd_end_def fwd_mid_def)
qed

lemma slice_type: "st < 8 \<Longrightarrow> SlcType2FrmType ! st \<noteq> FIDX_FRAME_TYPE_PESH"
  by (simp add: SlcType2FrmType_def nth_Cons' split: if_splits)

lemma slice_check_fwd:
  assumes "fwd t c" "code_at t c"
  shows "fwd t (slice_check j c)" "code_at t (slice_check j c)"
  using assms slice_check_inv(1) [of UNIV c j]
  by (auto simp: code_at_def) (auto simp: slice_check_def fwd_def)

lemma slice_border_fwd:
  assumes "fwd t c" "code_at t c" "st < 8"
  shows "fwd_mid t (slice_border cb mb st j c)"
proof -
  let ?t = "if frame_type_num (SlcType2FrmType ! st) > frame_type_num (eFrameType (stNewFramePos c))
    then SlcType2FrmType ! st else eFrameType (stNewFramePos c)"
  let ?d = "c\<lparr>stNewFramePos := (stNewFramePos c)\<lparr>eFrameType := ?t\<rparr>, stThisSC := (stThisSC c)\<lparr>eScType := SC_TYPE_UNKNOWN\<rparr>\<rparr>"
  have "fwd_mid t (?d, [])" if "pending c"
    using assms that slice_type [OF assms(3)] by (auto simp: fwd_mid_def fwd_def code_at_def fidx_inv_def)
  then show ?thesis
    using assms H264MakeFrame_fwd [OF assms(1,2)] OUTPUT_FRAME_fwd [of t "H264MakeFrame c" cb]
    by (auto simp: slice_border_def Let_def fwd_mid_def)
qed

lemma slice_start_fwd:
  assumes "fwd t c" "code_at t c" "st < 8"
  shows "fwd (t + 1) ((slice_start st j c)\<lparr>stSEIFollowSlice := (stSEIFollowSlice (slice_start st j c))\<lparr>eScType := SC_TYPE_UNKNOWN\<rparr>\<rparr>)"
  using assms slice_type [OF assms(3)]
  by (auto simp: slice_start_def start_frame_def Let_def fwd_def code_at_def)

lemma h264_slice_fwd:
  assumes "fwd t c" "code_at t c"
  shows "fwd_end t (drop_ret (h264_slice cb c))"
proof (cases "ParseSliceHeader (u8ThisSCData c) (s32ThisSCDataLen c)")
  case None
  have "fwd (t + 1) (c\<lparr>stSEIFollowSlice := (stSEIFollowSlice c)\<lparr>eScType := SC_TYPE_UNKNOWN\<rparr>\<rparr>)"
    using assms(1) by (auto simp: fwd_def)
  then show ?thesis using None by (simp add: h264_slice_def fwd_end_def)
next
  case (Some h)
  obtain mb st j where h: "h = (mb, st, j)" by (cases h)
  then have st: "st < 8" using Some ParseSliceHeader_bound by blast
  obtain d out where e: "slice_border cb mb st j (slice_check j c) = (d, out)"
    by (cases "slice_border cb mb st j (slice_check j c)")
  have m: "fwd_mid t (d, out)"
    using slice_border_fwd [OF slice_check_fwd(1,2) [OF assms, of j] st, of cb mb j] e by simp
  then have "fwd t d" "code_at t d" by (simp_all add: fwd_mid_def)
  from fwd_end_then [OF m slice_start_fwd [OF this st]] show ?thesis
    by (simp add: h264_slice_def Some h e)
qed

lemma H264_fwd:
  assumes "fwd t c" "code_at t c" "eVideoStandard c = VIDSTD_H264"
  shows "fwd_end t (drop_ret (ProcessSC_H264 cb c))"
proof -
  define d where "d = (if u8ThisSCData c ! 0 AND 31 \<noteq> 5 \<and> u8ThisSCData c ! 0 AND 31 \<noteq> 1 \<and> eScType (stSEIFollowSlice c) = SC_TYPE_UNKNOWN
                    then c\<lparr>stSEIFollowSlice := (stThisSC c)\<lparr>eScType := SC_TYPE_NONSLICE\<rparr>\<rparr> else c)"
  have d: "fwd t d" "code_at t d"
    using assms by (auto simp: d_def fwd_def code_at_def fidx_inv_def)
  show ?thesis
    using h264_sps_fwd [OF d, of cb] h264_pps_fwd [OF d, of cb] h264_slice_fwd [OF d, of cb] fwd_mono [OF assms(1)]
      fwd_mono [OF d(1)]
    unfolding ProcessSC_H264_def Let_def d_def [symmetric] by (simp add: fwd_end_def)
qed

lemma ANANYSE_SC_fwd:
  assumes "fwd t c" "code_at t c"
  shows "fwd_end t (ANANYSE_SC cb c)"
proof -
  have "fwd_end t (drop_ret (ProcessThisSC cb c))"
    using Mpeg2_fwd [OF assms, of cb] Avs_fwd [OF assms, of cb] Mpeg4_fwd [OF assms, of cb] H264_fwd [OF assms, of cb]
      fwd_mono [OF assms(1), of "t + 1"]
    by (auto simp: ProcessThisSC_def fwd_end_def split: vidstd.split)
  then show ?thesis
    by (cases "ProcessThisSC cb c") (auto simp: ANANYSE_SC_def fwd_end_def fwd_def)
qed

lemma load_sc_fwd:
  assumes "fwd t c" "fidx_inv UNIV c" "t \<le> scd_GlobalOffset sc" "0 \<le> scd_GlobalOffset sc" "scd_GlobalOffset sc < 2 ^ 31"
  shows "fwd (scd_GlobalOffset sc) (load_sc sc c)" "code_at (scd_GlobalOffset sc) (load_sc sc c)"
  using fwd_mono [OF assms(1,3)] load_sc_inv(1) [OF assms(2), of sc] assms(4,5)
  by (auto simp: code_at_def) (auto simp: load_sc_def fwd_def)

text \<open>What a report says: a packet header as it was fed, or a picture from one start code to a later one.\<close>

definition header_of :: "vidstd \<Rightarrow> findex_scd set \<Rightarrow> frame_pos \<Rightarrow> bool" where
  "header_of v S f \<longleftrightarrow> s32FrameSize f = 0 \<and>
     (\<exists>sc\<in>S. IsPesSC (u8StartCode sc) v \<and> fp_GlobalOffset f = scd_GlobalOffset sc \<and> fp_PTS f = u32PtsMs sc)"

definition report_ok :: "vidstd \<Rightarrow> findex_scd set \<Rightarrow> frame_pos \<Rightarrow> bool" where
  "report_ok v S f \<longleftrightarrow> (if eFrameType f = FIDX_FRAME_TYPE_PESH then header_of v S f else picture f)"

lemma feed_ctx_fwd:
  assumes "fwd t c" "fidx_inv UNIV c" "t \<le> scd_GlobalOffset sc" "0 \<le> scd_GlobalOffset sc" "scd_GlobalOffset sc < 2 ^ 31"
  shows "fwd (scd_GlobalOffset sc + 1) (fst (feed_ctx cb sc c)) \<and>
    (\<forall>f\<in>snd ` set (snd (feed_ctx cb sc c)). report_ok (eVideoStandard c) {sc} f)"
proof -
  note l = load_sc_fwd [OF assms]
  have "fwd (scd_GlobalOffset sc + 1) ((load_sc sc c)\<lparr>u32PTS := p, s32ThisSCValid := False, s32ThisSCDataLen := 0\<rparr>)" for p
    using fwd_mono [OF l(1), of "scd_GlobalOffset sc + 1"] by (auto simp: fwd_def)
  moreover have "s64GlobalOffset (stThisSC (load_sc sc c)) = scd_GlobalOffset sc" by (simp add: load_sc_def)
  moreover have "report_ok (eVideoStandard c) {sc} f" if "picture f" for f
    using that by (simp add: report_ok_def picture_def)
  ultimately show ?thesis
    using ANANYSE_SC_fwd [OF l, of cb]
    by (auto simp: feed_ctx_def Let_def fwd_end_def pictures_def)
      (simp add: report_ok_def header_of_def frame_zero_def)
qed

lemma report_ok_mono: "report_ok v S f \<Longrightarrow> S \<subseteq> S' \<Longrightarrow> report_ok v S' f"
  unfolding report_ok_def header_of_def by (auto split: if_splits)

lemma feed_all_fwd:
  assumes "fwd t c" "fidx_inv UNIV c" "\<forall>sc\<in>set scs. t \<le> scd_GlobalOffset sc \<and> 0 \<le> scd_GlobalOffset sc \<and> scd_GlobalOffset sc < 2 ^ 31"
    and "sorted_wrt (<) (map scd_GlobalOffset scs)"
  shows "\<forall>f\<in>snd ` set (snd (feed_all cb scs c)). report_ok (eVideoStandard c) (set scs) f"
  using assms
proof (induction scs arbitrary: c t)
  case (Cons sc scs)
  obtain d out where d: "feed_ctx cb sc c = (d, out)" by (cases "feed_ctx cb sc c")
  obtain e outs where e: "feed_all cb scs d = (e, outs)" by (cases "feed_all cb scs d")
  have f: "fwd (scd_GlobalOffset sc + 1) d" "\<forall>f\<in>snd ` set out. report_ok (eVideoStandard c) {sc} f"
    using feed_ctx_fwd [OF Cons.prems(1,2), of sc cb] Cons.prems(3) d by auto
  have i: "fidx_inv UNIV d" "eVideoStandard d = eVideoStandard c"
    using feed_ctx_step [of UNIV c sc cb] feed_ctx_id [of c cb sc] Cons.prems(2) d by (auto simp: step_ok_def same_id_def)
  have "\<forall>f\<in>snd ` set outs. report_ok (eVideoStandard d) (set scs) f"
    using Cons.IH [OF f(1) i(1)] Cons.prems(3,4) e by fastforce
  then have "\<forall>f\<in>snd ` set (out @ outs). report_ok (eVideoStandard c) (set (sc # scs)) f"
    using f(2) i(2) by (auto intro: report_ok_mono [where S = "{sc}"] report_ok_mono [where S = "set scs"])
  then show ?case by (simp add: d e)
qed simp

text \<open>In any order, no frame of the three standards that check it has a negative size.\<close>

definition no_negative :: "frame_out \<Rightarrow> bool" where
  "no_negative out \<longleftrightarrow> (\<forall>f\<in>snd ` set out. 0 \<le> s32FrameSize f)"

lemma end_frame_nonneg: "no_negative (snd (end_frame cb ends c))"
  by (auto simp: no_negative_def end_frame_def OUTPUT_FRAME_def Let_def)

lemma feed_ctx_nonneg:
  assumes "eVideoStandard c \<noteq> VIDSTD_H264"
  shows "no_negative (snd (feed_ctx cb sc c))"
proof -
  have out: "no_negative out" if "end_frame cb ends d = (e, out)" for ends d e out
    using end_frame_nonneg [of cb ends d] that by simp
  have n: "no_negative []" by (simp add: no_negative_def)
  have "no_negative (snd (drop_ret (ProcessSC_Mpeg2 cb d)))" "no_negative (snd (drop_ret (ProcessSC_Avs cb d)))"
    "no_negative (snd (drop_ret (ProcessSC_Mpeg4 cb d)))" for d
    using out n by (auto simp: ProcessSC_Mpeg2_def ProcessSC_Avs_def ProcessSC_Mpeg4_def Let_def split: prod.split)
  then have "no_negative (snd (drop_ret (ProcessThisSC cb (load_sc sc c))))"
    using assms n by (auto simp: ProcessThisSC_def split: vidstd.split)
  then have "no_negative (snd (ANANYSE_SC cb (load_sc sc c)))"
    by (cases "ProcessThisSC cb (load_sc sc c)") (simp add: ANANYSE_SC_def)
  then show ?thesis
    by (auto simp: feed_ctx_def Let_def no_negative_def frame_zero_def)
qed

lemma feed_all_nonneg: "eVideoStandard c \<noteq> VIDSTD_H264 \<Longrightarrow> no_negative (snd (feed_all cb scs c))"
proof (induction scs arbitrary: c)
  case (Cons sc scs)
  obtain d out where d: "feed_ctx cb sc c = (d, out)" by (cases "feed_ctx cb sc c")
  obtain e outs where e: "feed_all cb scs d = (e, outs)" by (cases "feed_all cb scs d")
  have "eVideoStandard d \<noteq> VIDSTD_H264" using feed_ctx_id [of c cb sc] Cons.prems d by (simp add: same_id_def)
  then show ?case
    using feed_ctx_nonneg [OF Cons.prems, of cb sc] Cons.IH [of d] d e by (auto simp: no_negative_def)
qed (simp add: no_negative_def)

text \<open>Start codes of several recordings arrive interleaved: a list of instance numbers and codes. The
  result keeps the reports of each call with the instance.\<close>

fun fidx_run :: "(nat \<times> findex_scd) list \<Rightarrow> fidx_sys \<Rightarrow> fidx_sys \<times> (nat \<times> frame_out) list" where
  "fidx_run [] s = (s, [])"
| "fidx_run ((i, sc) # ops) s =
     (let (s, out) = FIDX_FeedStartCode i sc s; (s, outs) = fidx_run ops s in (s, (i, out) # outs))"

definition codes_of :: "nat \<Rightarrow> (nat \<times> findex_scd) list \<Rightarrow> findex_scd list" where
  "codes_of k ops = map snd (filter (\<lambda>op. fst op = k) ops)"

definition reports_of :: "nat \<Rightarrow> (nat \<times> frame_out) list \<Rightarrow> frame_out" where
  "reports_of k outs = concat (map snd (filter (\<lambda>r. fst r = k) outs))"

lemma fidx_run_local:
  assumes "k < length (s_FidxIIS s)"
  shows "s_FidxIIS (fst (fidx_run ops s)) ! k = fst (feed_all (s_OutputFramePosition s) (codes_of k ops) (s_FidxIIS s ! k))
    \<and> reports_of k (snd (fidx_run ops s)) = snd (feed_all (s_OutputFramePosition s) (codes_of k ops) (s_FidxIIS s ! k))"
  using assms
proof (induction ops arbitrary: s)
  case Nil
  then show ?case by (simp add: codes_of_def reports_of_def)
next
  case (Cons op ops)
  obtain i sc where op: "op = (i, sc)" by (cases op)
  obtain c out where c: "feed_ctx (s_OutputFramePosition s) sc (s_FidxIIS s ! i) = (c, out)"
    by (cases "feed_ctx (s_OutputFramePosition s) sc (s_FidxIIS s ! i)")
  define s1 where "s1 = s\<lparr>s_FidxIIS := (s_FidxIIS s)[i := c]\<rparr>"
  have s1: "FIDX_FeedStartCode i sc s = (s1, out)" by (simp add: FIDX_FeedStartCode_def c s1_def)
  obtain s2 outs where s2: "fidx_run ops s1 = (s2, outs)" by (cases "fidx_run ops s1")
  have "k < length (s_FidxIIS s1)" using Cons.prems by (simp add: s1_def)
  note IH = Cons.IH [OF this]
  have cb: "s_OutputFramePosition s1 = s_OutputFramePosition s" by (simp add: s1_def)
  show ?case
  proof (cases "i = k")
    case True
    have "s_FidxIIS s1 ! k = c" using True Cons.prems by (simp add: s1_def)
    moreover obtain e es where "feed_all (s_OutputFramePosition s) (map snd (filter (\<lambda>op. fst op = k) ops)) c = (e, es)"
      by (cases "feed_all (s_OutputFramePosition s) (map snd (filter (\<lambda>op. fst op = k) ops)) c")
    ultimately show ?thesis
      using IH True c s1 by (simp add: op s2 codes_of_def reports_of_def cb)
  next
    case False
    then have "s_FidxIIS s1 ! k = s_FidxIIS s ! k" by (simp add: s1_def)
    then show ?thesis
      using IH False by (simp add: op s1 s2 codes_of_def reports_of_def cb)
  qed
qed

lemma find_idle_Some:
  "find_idle cs k = Some i \<Longrightarrow> k \<le> i \<and> i - k < length cs \<and> eCtxState (cs ! (i - k)) \<noteq> CTX_STATE_ENABLE"
proof (induction cs k rule: find_idle.induct)
  case (2 c cs k)
  show ?case
  proof (cases "eCtxState c = CTX_STATE_ENABLE")
    case True
    with 2 have "Suc k \<le> i" "i - Suc k < length cs" "eCtxState (cs ! (i - Suc k)) \<noteq> CTX_STATE_ENABLE" by auto
    moreover from this have "i - k = Suc (i - Suc k)" by simp
    ultimately show ?thesis by simp
  next
    case False
    with 2 show ?thesis by auto
  qed
qed simp

lemma OpenInstance_Some:
  assumes "FIDX_OpenInstance v t prm s = (s1, Some i)"
  shows "i < length (s_FidxIIS s)" "eCtxState (s_FidxIIS s ! i) \<noteq> CTX_STATE_ENABLE"
    "s1 = s\<lparr>s_FidxIIS := (s_FidxIIS s)[i := open_ctx v t prm]\<rparr>"
  using assms find_idle_Some [of "s_FidxIIS s" 0 i]
  by (auto simp: FIDX_OpenInstance_def open_ctx_def split: option.splits)

lemma run_of_opened:
  assumes "FIDX_OpenInstance v t prm s = (s1, Some i)"
  shows "s_FidxIIS (fst (fidx_run ops s1)) ! i = fst (feed_all (s_OutputFramePosition s) (codes_of i ops) (open_ctx v t prm))"
    "reports_of i (snd (fidx_run ops s1)) = snd (feed_all (s_OutputFramePosition s) (codes_of i ops) (open_ctx v t prm))"
  using fidx_run_local [of i s1 ops] OpenInstance_Some [OF assms] by simp_all

section \<open>Properties\<close>

text \<open>Recordings do not interfere: whatever the interleaving of start codes fed to the instances, the
  context of an instance and the frames reported for it are those of feeding it alone its own
  codes.\<close>

theorem fidx_instances_independent:
  assumes "k < length (s_FidxIIS s)"
  shows "s_FidxIIS (fst (fidx_run ops s)) ! k
      = fst (feed_all (s_OutputFramePosition s) (codes_of k ops) (s_FidxIIS s ! k))
    \<and> reports_of k (snd (fidx_run ops s))
      = snd (feed_all (s_OutputFramePosition s) (codes_of k ops) (s_FidxIIS s ! k))"
  using fidx_run_local [OF assms] .

text \<open>C29. Every array index kept in a context stays in range: for any video standard and any sequence of
  start codes with any payload, from the moment an instance is opened, the parameter set numbers
  used to index the 32 sequence and 256 picture parameter sets are below those bounds.\<close>

theorem fidx_indices_in_range:
  assumes "FIDX_OpenInstance v t prm s = (s1, Some i)"
  shows "let c = s_FidxIIS (fst (fidx_run ops s1)) ! i
    in length (stSPS c) = 32 \<and> length (u8SpsFresh c) = 32 \<and> length (stPPS c) = 256 \<and> length (u8ThisSCData c) = 16
      \<and> s32SpsID c < 32 \<and> s32PpsID c < 256 \<and> (\<forall>sc\<in>set (stPPS c). s32SupScID sc < 32)"
proof -
  have "fidx_inv UNIV (open_ctx v t prm)" using fidx_inv_mono [OF open_ctx_inv] by simp
  then have "fidx_inv UNIV (fst (feed_all (s_OutputFramePosition s) (codes_of i ops) (open_ctx v t prm)))"
    using feed_all_inv [of UNIV] by (simp add: small_offsets_def)
  then show ?thesis
    unfolding run_of_opened(1) [OF assms(1)] Let_def fidx_inv_def by (elim conjE) (intro conjI)
qed

text \<open>C30. The reported frames are pieces of the stream, for positions in the first 2 GB: in whatever
order the start codes come, each frame reported for an opened instance starts at a start code fed to
it, its size leads to another or the same one, it is handed to the callback with the instance's own
parameter, and outside H.264, which does not check it, its size is not negative. Where the positions
increase, as in a stream, each report is either that of a packet header, of size 0, with the position
and the time stamp of that header, or a picture of a known type that ends at a later start code than
it starts.\<close>

theorem fidx_frames_span_codes:
  assumes "FIDX_OpenInstance v t prm s = (s1, Some i)"
    and "\<forall>sc\<in>set (codes_of i ops). 0 \<le> scd_GlobalOffset sc \<and> scd_GlobalOffset sc < 2 ^ 31"
  shows "(\<forall>(p, f)\<in>set (reports_of i (snd (fidx_run ops s1))).
      p = prm \<and> fp_GlobalOffset f \<in> scd_GlobalOffset ` set (codes_of i ops)
      \<and> fp_GlobalOffset f + s32FrameSize f \<in> scd_GlobalOffset ` set (codes_of i ops)
      \<and> (v \<noteq> VIDSTD_H264 \<longrightarrow> 0 \<le> s32FrameSize f))
    \<and> (sorted_wrt (<) (map scd_GlobalOffset (codes_of i ops)) \<longrightarrow>
        (\<forall>(p, f)\<in>set (reports_of i (snd (fidx_run ops s1))).
          if eFrameType f = FIDX_FRAME_TYPE_PESH
          then s32FrameSize f = 0 \<and> (\<exists>sc\<in>set (codes_of i ops). IsPesSC (u8StartCode sc) v
                 \<and> fp_GlobalOffset f = scd_GlobalOffset sc \<and> fp_PTS f = u32PtsMs sc)
          else eFrameType f \<noteq> FIDX_FRAME_TYPE_UNKNOWN \<and> 0 < s32FrameSize f))"
proof -
  let ?c = "open_ctx v t prm"
  define K where "K = scd_GlobalOffset ` set (codes_of i ops)"
  have K: "small_offsets K" using assms(2) by (auto simp: K_def small_offsets_def)
  have "fidx_inv K ?c" using fidx_inv_mono [OF open_ctx_inv] by simp
  note spans = feed_all_inv [OF K this, of "codes_of i ops" "s_OutputFramePosition s"]
  have c: "Param ?c = prm" "eVideoStandard ?c = v" "fwd 0 ?c" "fidx_inv UNIV ?c"
    using fidx_inv_mono [OF open_ctx_inv, of UNIV v t prm]
    by (simp_all add: open_ctx_def ctx_zero_def fwd_def sc_zero_def frame_zero_def)
  have "\<forall>f\<in>snd ` set (snd (feed_all (s_OutputFramePosition s) (codes_of i ops) ?c)). report_ok v (set (codes_of i ops)) f"
    if "sorted_wrt (<) (map scd_GlobalOffset (codes_of i ops))"
    using feed_all_fwd [OF c(3,4) _ that, of "s_OutputFramePosition s"] assms(2) c(2) by simp
  moreover have "v \<noteq> VIDSTD_H264 \<Longrightarrow> no_negative (snd (feed_all (s_OutputFramePosition s) (codes_of i ops) ?c))"
    using feed_all_nonneg [of ?c] c(2) by simp
  ultimately show ?thesis
    using spans feed_all_id [of ?c "s_OutputFramePosition s" "codes_of i ops"] c(1)
    unfolding run_of_opened(2) [OF assms(1)] report_ok_def header_of_def picture_def no_negative_def
    by (fastforce simp: K_def span_ok_def same_id_def)
qed

text \<open>A presentation time is given to one frame only: the number of frames reported with a valid time
  is at most the number of packet headers fed, plus one for the time 0 a new instance starts
  with.\<close>

theorem fidx_pts_used_once:
  assumes "FIDX_OpenInstance v t prm s = (s1, Some i)"
  shows "timed_frames (reports_of i (snd (fidx_run ops s1)))
    \<le> 1 + length (filter (\<lambda>sc. IsPesSC (u8StartCode sc) v) (codes_of i ops))"
proof -
  have "pts_live (open_ctx v t prm) \<le> 1" "eVideoStandard (open_ctx v t prm) = v"
    by (simp_all add: pts_live_def open_ctx_def ctx_zero_def frame_zero_def)
  then show ?thesis
    using feed_all_pts [of "s_OutputFramePosition s" "codes_of i ops" "open_ctx v t prm"]
    unfolding run_of_opened(2) [OF assms(1)] by simp
qed

text \<open>C32. The H.264 slice header parser decodes what the standard encodes: when the bytes behind the start
  code hold the Exp-Golomb codes of \<open>first_mb_in_slice\<close>, \<open>slice_type\<close> and
  \<open>pic_parameter_set_id\<close> in the ranges the parser accepts, it returns these three values.\<close>

theorem h264_slice_header_parsed:
  assumes "ue_at (sc_mem d) 8 mb z1" "mb \<le> 8192"
    and "ue_at (sc_mem d) (9 + 2 * z1) st z2" "st \<le> 2 \<or> 5 \<le> st \<and> st \<le> 7"
    and "ue_at (sc_mem d) (10 + 2 * z1 + 2 * z2) pps z3" "pps \<le> 255"
  shows "ParseSliceHeader d 9 = Some (mb, st, pps)"
  using ParseSliceHeader_spec [OF assms] .

section \<open>Two behaviours against the comments\<close>

definition mk_sc :: "u8 \<Rightarrow> int \<Rightarrow> u8 list \<Rightarrow> findex_scd" where
  "mk_sc code off bytes = \<lparr>u8IndexType = 4, u8StartCode = code, u32PtsMs = INVALID_PTS, scd_GlobalOffset = off,
     au8DataAfterSC = bytes @ replicate (8 - length bytes) 0\<rparr>"

definition report :: "nat \<times> frame_pos \<Rightarrow> frame_type \<times> int \<times> int" where
  "report r = (eFrameType (snd r), fp_GlobalOffset (snd r), s32FrameSize (snd r))"

text \<open>AVS: the sequence header is not used up by the first I frame. After one sequence header at 0 the
  I pictures at 100 and 200 are both reported as I frames that start at 0, and the second covers
  the first; the context documents that one sequence header serves one I frame only.\<close>

theorem avs_sps_used_twice:
  "map report (snd (feed_all True [mk_sc 0xb0 0 [], mk_sc 0xb3 100 [], mk_sc 0xb3 200 [], mk_sc 0xb3 300 []]
      (open_ctx VIDSTD_AVS STRM_TYPE_ES 7)))
   = [(FIDX_FRAME_TYPE_I, 0, 200), (FIDX_FRAME_TYPE_I, 0, 300)]"
  by code_simp


abbreviation sc_bytes :: "u8 list \<Rightarrow> u8 list" where
  "sc_bytes bytes \<equiv> bytes @ replicate (16 - length bytes) 0"

lemma example_sps: "ParseSPS (sc_bytes [0x67, 0x64, 0, 0x1f, 0x80]) 9 = Some 0"
  by code_simp

lemma example_pps: "ParsePPS (sc_bytes [0x68, 0xc0]) 9 = Some (0, 0)"
  by (rule ParsePPS_spec [of _ _ 0 _ 0]; code_simp)

lemma example_idr: "ParseSliceHeader (sc_bytes [0x65, 0x88, 0x80]) 9 = Some (0, 7, 0)"
  by (rule ParseSliceHeader_spec [of _ _ 0 _ 3 _ 0]; code_simp)

lemma example_slice: "ParseSliceHeader (sc_bytes [0x41, 0xc4, 0]) 9 = Some (0, 0, 7)"
  by (rule ParseSliceHeader_spec [of _ _ 0 _ 0 _ 3]; code_simp)

lemma load_example:
  assumes "length (u8ThisSCData c) = 16" "drop 9 (u8ThisSCData c) = replicate 7 0" "length bs \<le> 8"
  shows "load_sc (mk_sc code off bs) c = c\<lparr>stThisSC := (stThisSC c)\<lparr>s32ScID := unat code, s64GlobalOffset := off,
         s32OffsetInPacket := 0, s32PacketCount := 0\<rparr>,
       u8ThisSCData := sc_bytes (code # bs), s32ThisSCDataLen := 9, s32ThisSCValid := True\<rparr>"
proof -
  have "mem_write ((u8ThisSCData c)[0 := code]) 1 (bs @ replicate (8 - length bs) 0) = sc_bytes (code # bs)"
  proof -
    obtain x xs where "u8ThisSCData c = x # xs" using assms(1) by (cases "u8ThisSCData c") auto
    then show ?thesis using assms
      by (simp add: mem_write_def replicate_add [symmetric])
  qed
  then show ?thesis using assms(3) by (simp add: load_sc_def mk_sc_def)
qed

lemma mk_sc_code [simp]: "u8StartCode (mk_sc code off bs) = code"
  by (simp add: mk_sc_def)

lemmas h264_run = feed_ctx_def IsPesSC_def load_example ANANYSE_SC_def ProcessThisSC_def ProcessSC_H264_def IS_SC_WRONG_def
  h264_sps_def h264_pps_def h264_slice_def h264_border_def slice_check_def slice_border_def slice_start_def
  start_frame_def OUTPUT_FRAME_def H264MakeFrame_def s32_cast_def SlcType2FrmType_def frame_zero_def sc_zero_def Let_def

text \<open>The cleared arrays of a new context, kept folded while a run is evaluated.\<close>

definition no_sps :: "sc_info list" where "no_sps = replicate 32 sc_zero"
definition no_fresh :: "nat list" where "no_fresh = replicate 32 0"
definition no_pps :: "sc_info list" where "no_pps = replicate 256 sc_zero"

lemma no_sets:
  "length no_sps = 32" "length no_fresh = 32" "length no_pps = 256" "no_pps ! 7 = sc_zero"
  by (simp_all add: no_sps_def no_fresh_def no_pps_def)

lemma open_ctx_folded:
  "open_ctx v t prm = \<lparr>eCtxState = CTX_STATE_ENABLE, eVideoStandard = v, eStrmType = t,
     u32PTS = 0, stSPS = no_sps, u8SpsFresh = no_fresh, stPPS = no_pps,
     u8Prev2Bytes = [0xff, 0xff], s32ThisSCValid = False, stThisSC = sc_zero,
     u8ThisSCData = sc_bytes [], s32ThisSCDataLen = 0, stSEIFollowSlice = sc_zero,
     stNewFramePos = frame_zero, s32SpsID = 0, s32PpsID = 0, Param = prm\<rparr>"
  by (simp add: open_ctx_def ctx_zero_def no_sps_def no_fresh_def no_pps_def SC_SUPPORT_DATA_SIZE_def)

text \<open>H.264: the check that the parameter sets of a slice are known is void after the first slice. The
  type left in the start code record by the previous slice is not cleared, so a slice whose picture
  parameter set 7 was never received still opens a frame, and it is reported.\<close>

theorem h264_unknown_pps_accepted:
  "let r = feed_all True [mk_sc 0x67 0 [0x64, 0, 0x1f, 0x80], mk_sc 0x68 40 [0xc0], mk_sc 0x65 60 [0x88, 0x80],
        mk_sc 0x41 100 [0xc4, 0], mk_sc 0x41 200 [0xc4, 0]] (open_ctx VIDSTD_H264 STRM_TYPE_ES 7)
   in eScType (stPPS (fst r) ! 7) = SC_TYPE_UNKNOWN \<and> s32PpsID (fst r) = 7
     \<and> map report (snd r) = [(FIDX_FRAME_TYPE_I, 0, 100), (FIDX_FRAME_TYPE_P, 100, 100)]"
  using example_sps example_pps example_idr example_slice unfolding open_ctx_folded
  by (simp add: h264_run no_sets report_def nth_list_update)

section \<open>Witnesses\<close>

abbreviation ex_ops :: "(nat \<times> findex_scd) list" where
  "ex_ops \<equiv> [(0, mk_sc 0xb3 0 []), (1, mk_sc 0xb3 10 []), (0, mk_sc 0x00 100 [0, 8]), (0, mk_sc 0x00 200 [0, 16])]"

abbreviation ex_sys :: fidx_sys where
  "ex_sys \<equiv> fst (FIDX_OpenInstance VIDSTD_MPEG2 STRM_TYPE_ES 5 (FIDX_Init 2 True))"

lemma ex_open: "FIDX_OpenInstance VIDSTD_MPEG2 STRM_TYPE_ES 5 (FIDX_Init 2 True) = (ex_sys, Some 0)"
  by (simp add: FIDX_OpenInstance_def FIDX_Init_def ctx_zero_def numeral_2_eq_2)

lemma ex_codes: "codes_of 0 ex_ops = [mk_sc 0xb3 0 [], mk_sc 0x00 100 [0, 8], mk_sc 0x00 200 [0, 16]]"
  by (simp add: codes_of_def)

theorem fidx_instances_independent_witness:
  "s_FidxIIS (fst (fidx_run ex_ops (FIDX_Init 2 True))) ! 0
      = fst (feed_all True [mk_sc 0xb3 0 [], mk_sc 0x00 100 [0, 8], mk_sc 0x00 200 [0, 16]] (s_FidxIIS (FIDX_Init 2 True) ! 0))
    \<and> reports_of 0 (snd (fidx_run ex_ops (FIDX_Init 2 True)))
      = snd (feed_all True [mk_sc 0xb3 0 [], mk_sc 0x00 100 [0, 8], mk_sc 0x00 200 [0, 16]] (s_FidxIIS (FIDX_Init 2 True) ! 0))"
proof -
  have "0 < length (s_FidxIIS (FIDX_Init 2 True))" "s_OutputFramePosition (FIDX_Init 2 True)"
    by (simp_all add: FIDX_Init_def)
  then show ?thesis
    using fidx_instances_independent [of 0 "FIDX_Init 2 True" ex_ops] unfolding ex_codes by simp
qed

theorem fidx_indices_in_range_witness:
  "let c = s_FidxIIS (fst (fidx_run ex_ops ex_sys)) ! 0
    in length (stSPS c) = 32 \<and> length (u8SpsFresh c) = 32 \<and> length (stPPS c) = 256 \<and> length (u8ThisSCData c) = 16
      \<and> s32SpsID c < 32 \<and> s32PpsID c < 256 \<and> s32SupScID ` set (stPPS c) \<subseteq> {..<32}"
  using fidx_indices_in_range [OF ex_open, of ex_ops] unfolding Let_def by (elim conjE) (intro conjI; auto)

theorem fidx_frames_span_codes_witness:
  "(\<lambda>(p, f). (p, fp_GlobalOffset f, fp_GlobalOffset f + s32FrameSize f, 0 < s32FrameSize f))
      ` set (reports_of 0 (snd (fidx_run ex_ops ex_sys)))
    \<subseteq> {5} \<times> {0, 100, 200} \<times> {0, 100, 200} \<times> {True}"
proof -
  have K: "scd_GlobalOffset ` set (codes_of 0 ex_ops) = {0, 100, 200}" unfolding ex_codes by (simp add: mk_sc_def)
  have h: "\<forall>sc\<in>set (codes_of 0 ex_ops). 0 \<le> scd_GlobalOffset sc \<and> scd_GlobalOffset sc < 2 ^ 31"
    "sorted_wrt (<) (map scd_GlobalOffset (codes_of 0 ex_ops))"
    "\<forall>sc\<in>set (codes_of 0 ex_ops). \<not> IsPesSC (u8StartCode sc) VIDSTD_MPEG2"
    unfolding ex_codes by (simp_all add: mk_sc_def IsPesSC_def)
  note all = fidx_frames_span_codes [OF ex_open h(1), unfolded K]
  have "\<forall>(p, f)\<in>set (reports_of 0 (snd (fidx_run ex_ops ex_sys))).
     p = 5 \<and> fp_GlobalOffset f \<in> {0, 100, 200} \<and> fp_GlobalOffset f + s32FrameSize f \<in> {0, 100, 200} \<and> 0 < s32FrameSize f"
    using all h(2,3) by (fastforce split: if_splits)
  then show ?thesis by (fastforce simp only: image_subset_iff mem_Times_iff split_beta fst_conv snd_conv singleton_iff simp_thms)
qed

theorem fidx_pts_used_once_witness: "timed_frames (reports_of 0 (snd (fidx_run ex_ops ex_sys))) \<le> 1"
  using fidx_pts_used_once [OF ex_open, of ex_ops] unfolding ex_codes by (simp add: IsPesSC_def)

theorem h264_slice_header_parsed_witness:
  "ParseSliceHeader (sc_bytes [0x65, 0x88, 0x80]) 9 = Some (0, 7, 0)"
  by (rule h264_slice_header_parsed [of _ _ 0 _ 3 _ 0]; code_simp)

end
