(* ===== verification/Scd.thy ===== *)
theory Scd
  imports FrameIndex
begin

text \<open>
  The start code descriptors of the recorder, \<open>src/msp/drv/demux/drv_demux_scd.c\<close>: the hardware delivers
  seven 32-bit words per start code (\<open>DMX_IDX_DATA_S\<close> in \<open>src/msp/inc/mt_mpi_demux.h\<close>), which are unpacked
  into the input of the frame index (video) or directly into an index record (audio). Offsets are
  64-bit words, so a packet count below the number of packets to step back wraps as in C.
  \<open>MT_FAILURE\<close> is \<open>None\<close>.
\<close>

section \<open>Data and operations\<close>

record dmx_idx_data =
  u32Chn_Ovflag_IdxType_Flags :: u32
  u32ScType_Byte12AfterSc_OffsetInTs :: u32
  u32TsCntLo32 :: u32
  u32TsCntHi8_Byte345AfterSc :: u32
  u32ScCode_Byte678AfterSc :: u32
  u32SrcClk :: u32
  u32BackPacetNum :: u32

record pvr_index_scd =
  px_IndexType :: u8
  px_StartCode :: u8
  u16OffsetInTs :: u16
  u32OffsetInDavBuf :: u32
  au8ByteAfterSC :: "u8 list"
  u64TSCnt :: u64
  px_PtsMs :: u32
  u16OverFlow :: u16

datatype unf_frame_type = MT_UNF_FRAME_TYPE_UNKNOWN | MT_UNF_FRAME_TYPE_I | MT_UNF_FRAME_TYPE_P | MT_UNF_FRAME_TYPE_B

record rec_index =
  enFrameType :: unf_frame_type
  ri_PtsMs :: u32
  u64GlobalOffset :: u64
  u32FrameSize :: u32
  u32DataTimeMs :: u32

abbreviation DMX_INDEX_SC_TYPE_PTS :: "'a::len word" where "DMX_INDEX_SC_TYPE_PTS \<equiv> 2"
abbreviation DMX_INDEX_SC_TYPE_PIC :: "'a::len word" where "DMX_INDEX_SC_TYPE_PIC \<equiv> 4"
abbreviation DMX_INDEX_SC_TYPE_PIC_SHORT :: "'a::len word" where "DMX_INDEX_SC_TYPE_PIC_SHORT \<equiv> 5"

definition PVR_INDEX_INVALID_PTSMS :: u32 where "PVR_INDEX_INVALID_PTSMS = - 1"

definition scd_pts :: "dmx_idx_data \<Rightarrow> u32" where
  "scd_pts d =
     (let Pts33 = u32TsCntHi8_Byte345AfterSc d AND 0x1;
          Pts32 = u32ScCode_Byte678AfterSc d;
          Pts = (if Pts33 \<noteq> 0 then 0x100000000 else 0 :: u64);
          Pts = Pts + ucast Pts32;
          Pts = drop_bit 1 Pts
      in ucast Pts div 45)"

definition PVR_SCDDmxIdxToPvrIdx :: "dmx_idx_data \<Rightarrow> pvr_index_scd" where
  "PVR_SCDDmxIdxToPvrIdx d =
     (let t = ucast (drop_bit 24 (u32Chn_Ovflag_IdxType_Flags d) AND 0xf) :: u8;
          sc = u32ScType_Byte12AfterSc_OffsetInTs d; b3 = u32TsCntHi8_Byte345AfterSc d; b6 = u32ScCode_Byte678AfterSc d
      in \<lparr>px_IndexType = t,
          px_StartCode = ucast (drop_bit 24 sc AND 0xff),
          u16OffsetInTs = ucast (sc AND 0x00ff),
          u32OffsetInDavBuf = u32BackPacetNum d AND 0x0001fffff,
          au8ByteAfterSC = [ucast (drop_bit 16 sc AND 0xff), ucast (drop_bit 8 sc AND 0xff),
            ucast (drop_bit 16 b3 AND 0xff), ucast (drop_bit 8 b3 AND 0xff), ucast (b3 AND 0xff),
            ucast (drop_bit 16 b6 AND 0xff), ucast (drop_bit 8 b6 AND 0xff), ucast (b6 AND 0xff)],
          u64TSCnt = push_bit 8 (ucast (b3 AND 0xff000000)) OR ucast (u32TsCntLo32 d),
          px_PtsMs = (if t = DMX_INDEX_SC_TYPE_PTS
             then if b3 AND 0x2 = 0 then PVR_INDEX_INVALID_PTSMS else scd_pts d
             else PVR_INDEX_INVALID_PTSMS),
          u16OverFlow = (if drop_bit 28 (u32Chn_Ovflag_IdxType_Flags d) AND 0x1 = 0 then 1 else 0)\<rparr>)"

definition PVR_SCDIndexCalcGlobalOffset :: "bool \<Rightarrow> pvr_index_scd \<Rightarrow> u64" where
  "PVR_SCDIndexCalcGlobalOffset bUseTimeStamp p =
     (if bUseTimeStamp
      then (u64TSCnt p - ucast (u32OffsetInDavBuf p) - 1) * 192 + ucast (u16OffsetInTs p)
      else (u64TSCnt p - ucast (u32OffsetInDavBuf p) - 1) * 188 + ucast (u16OffsetInTs p))"

definition DmxScdToVideoIndex :: "bool \<Rightarrow> dmx_idx_data \<Rightarrow> findex_scd option" where
  "DmxScdToVideoIndex bUseTimeStamp d =
     (let p = PVR_SCDDmxIdxToPvrIdx d
      in if px_IndexType p \<noteq> DMX_INDEX_SC_TYPE_PTS \<and> px_IndexType p \<noteq> DMX_INDEX_SC_TYPE_PIC
            \<and> px_IndexType p \<noteq> DMX_INDEX_SC_TYPE_PIC_SHORT
         then None
         else if px_IndexType p = DMX_INDEX_SC_TYPE_PTS \<and> px_PtsMs p = PVR_INDEX_INVALID_PTSMS then None
         else let off = (if px_IndexType p \<noteq> DMX_INDEX_SC_TYPE_PTS
                         then PVR_SCDIndexCalcGlobalOffset bUseTimeStamp p else 0)
              in Some \<lparr>u8IndexType = px_IndexType p, u8StartCode = px_StartCode p, u32PtsMs = px_PtsMs p,
                       scd_GlobalOffset = sint off, au8DataAfterSC = au8ByteAfterSC p\<rparr>)"

definition DmxScdToAudioIndex :: "rec_index \<Rightarrow> dmx_idx_data \<Rightarrow> rec_index option" where
  "DmxScdToAudioIndex CurrFrame d =
     (let IndexType = drop_bit 24 (u32Chn_Ovflag_IdxType_Flags d) AND 0xf;
          PtsValid = drop_bit 1 (u32TsCntHi8_Byte345AfterSc d) AND 0x1
      in if IndexType \<noteq> DMX_INDEX_SC_TYPE_PTS \<or> PtsValid = 0 then None
         else let OffsetInTs = u32ScType_Byte12AfterSc_OffsetInTs d AND 0xff;
                  TsCount = push_bit 8 (ucast (u32TsCntHi8_Byte345AfterSc d AND 0xff000000) :: u64) OR ucast (u32TsCntLo32 d);
                  BackTsCount = u32BackPacetNum d AND 0x0001fffff
              in Some (CurrFrame\<lparr>enFrameType := MT_UNF_FRAME_TYPE_I, ri_PtsMs := scd_pts d,
                   u64GlobalOffset := (TsCount - ucast BackTsCount - 1) * 188 + ucast OffsetInTs,
                   u32DataTimeMs := u32SrcClk d div 90\<rparr>))"

definition DmxRecUpdateFrameInfo :: "rec_index \<Rightarrow> frame_pos \<Rightarrow> rec_index" where
  "DmxRecUpdateFrameInfo FrameInfo f =
     (let store = (\<lambda>t. FrameInfo\<lparr>enFrameType := t, ri_PtsMs := fp_PTS f,
        u64GlobalOffset := word_of_int (fp_GlobalOffset f), u32FrameSize := word_of_int (s32FrameSize f)\<rparr>)
      in case eFrameType f of
           FIDX_FRAME_TYPE_I \<Rightarrow> store MT_UNF_FRAME_TYPE_I
         | FIDX_FRAME_TYPE_P \<Rightarrow> store MT_UNF_FRAME_TYPE_P
         | FIDX_FRAME_TYPE_B \<Rightarrow> store MT_UNF_FRAME_TYPE_B
         | _ \<Rightarrow> FrameInfo)"

section \<open>The layout of a descriptor\<close>

text \<open>\<open>w4 a b c d\<close> packs four bytes into a word, first byte on top; \<open>scd_encode\<close> is the descriptor that
  the field names of \<open>DMX_IDX_DATA_S\<close> describe.\<close>

definition w4 :: "u8 \<Rightarrow> u8 \<Rightarrow> u8 \<Rightarrow> u8 \<Rightarrow> u32" where
  "w4 a b c d = push_bit 24 (ucast a) OR push_bit 16 (ucast b) OR push_bit 8 (ucast c) OR ucast d"

definition scd_encode :: "u8 \<Rightarrow> u8 \<Rightarrow> u8 list \<Rightarrow> u8 \<Rightarrow> u8 \<Rightarrow> u32 \<Rightarrow> u8 \<Rightarrow> u32 \<Rightarrow> u32 \<Rightarrow> dmx_idx_data" where
  "scd_encode typ code bs off hi lo sccode clk back =
     \<lparr>u32Chn_Ovflag_IdxType_Flags = w4 typ 0 0 0,
      u32ScType_Byte12AfterSc_OffsetInTs = w4 code (bs ! 0) (bs ! 1) off,
      u32TsCntLo32 = lo,
      u32TsCntHi8_Byte345AfterSc = w4 hi (bs ! 2) (bs ! 3) (bs ! 4),
      u32ScCode_Byte678AfterSc = w4 sccode (bs ! 5) (bs ! 6) (bs ! 7),
      u32SrcClk = clk, u32BackPacetNum = back\<rparr>"

lemma bit_w4:
  "bit (w4 a b c d) n \<longleftrightarrow> (if n < 8 then bit d n else if n < 16 then bit c (n - 8)
     else if n < 24 then bit b (n - 16) else bit a (n - 24))"
  unfolding w4_def by (simp only: bit_or_iff bit_push_bit_iff bit_unsigned_iff possible_bit_word)
    (auto dest: bit_imp_le_length)

lemma byte_mask: "(0xff::u32) = mask 8"
  by (simp add: mask_numeral)

lemma w4_bytes:
  "ucast (drop_bit 24 (w4 a b c d) AND 0xff :: u32) = a"
  "ucast (drop_bit 16 (w4 a b c d) AND 0xff :: u32) = b"
  "ucast (drop_bit 8 (w4 a b c d) AND 0xff :: u32) = c"
  "ucast (w4 a b c d AND 0xff :: u32) = d"
  unfolding byte_mask
  by (rule bit_word_eqI, simp only: bit_unsigned_iff bit_and_iff bit_drop_bit_eq bit_mask_iff bit_w4
      possible_bit_word comp_apply, auto dest: bit_imp_le_length)+

lemma w4_nibble:
  assumes "a AND 0xf0 = 0"
  shows "drop_bit 24 (w4 a b c d) AND 0xf = ucast a"
proof -
  have m: "(0xf::u32) = mask 4" "(0xf0::u8) = push_bit 4 (mask 4)" by (simp_all add: mask_numeral)
  have z: "\<not> bit a n" if "4 \<le> n" for n
  proof
    assume "bit a n"
    moreover from this have "n < 8" by (auto dest: bit_imp_le_length)
    ultimately have "bit (a AND push_bit 4 (mask 4)) n"
      using that by (simp only: bit_and_iff bit_push_bit_iff bit_mask_iff possible_bit_word) auto
    then show False using assms by (simp only: m) simp
  qed
  show ?thesis
    unfolding m by (rule bit_word_eqI, simp only: bit_unsigned_iff bit_and_iff bit_drop_bit_eq bit_mask_iff bit_w4
      possible_bit_word comp_apply) (auto dest: z bit_imp_le_length, metis not_le z)
qed

lemma byte_roundtrip: "ucast (ucast b :: u32) = (b :: u8)"
  by (rule bit_word_eqI) (auto simp: bit_unsigned_iff)

lemma w4_low_byte: "w4 a b c d AND 0xff = ucast d"
  unfolding byte_mask
  by (rule bit_word_eqI, simp only: bit_unsigned_iff bit_and_iff bit_mask_iff bit_w4 possible_bit_word)
    (auto dest: bit_imp_le_length)

lemma ts_count:
  "push_bit 8 (ucast (w4 hi b c d AND 0xff000000) :: u64) OR ucast lo = push_bit 32 (ucast hi) OR ucast lo"
proof -
  have m: "(0xff000000::u32) = push_bit 24 (mask 8)" by (simp add: mask_numeral)
  have "push_bit 8 (ucast (w4 hi b c d AND push_bit 24 (mask 8)) :: u64) = push_bit 32 (ucast hi)"
    by (rule bit_word_eqI, simp only: bit_unsigned_iff bit_and_iff bit_mask_iff bit_push_bit_iff bit_w4 possible_bit_word)
      (auto dest: bit_imp_le_length)
  then show ?thesis by (simp only: m)
qed

lemma ts_count_nat:
  "push_bit 32 (ucast hi :: u64) OR ucast lo = word_of_nat (unat (hi :: u8) * 2 ^ 32 + unat (lo :: u32))"
proof -
  have "push_bit 32 (ucast hi :: u64) OR ucast lo = push_bit 32 (ucast hi) + ucast lo"
    by (rule disjunctive_add [symmetric]) (auto simp: bit_push_bit_iff bit_unsigned_iff dest: bit_imp_le_length)
  also have "\<dots> = word_of_nat (unat hi) * 2 ^ 32 + word_of_nat (unat lo)"
    by (simp add: push_bit_eq_mult)
  finally show ?thesis by (simp only: of_nat_add of_nat_mult of_nat_power of_nat_numeral)
qed

lemma back_mask:
  assumes "unat back < 2 ^ 21"
  shows "(back :: u32) AND 0x1fffff = back"
proof -
  have m: "(0x1fffff::u32) = mask 21" by (simp add: mask_numeral)
  have "unat (take_bit 21 back) = unat back"
    using assms by (simp only: unsigned_take_bit_eq) (simp add: take_bit_nat_eq_self)
  then have "take_bit 21 back = back" by (simp only: word_unat_eq_iff)
  then show ?thesis by (simp only: m take_bit_eq_mask)
qed

lemma packet_offset:
  assumes "b < t" "t < 2 ^ 40" "k < 2 ^ 8" "r < 2 ^ 8"
  shows "sint ((word_of_nat t - word_of_nat b - 1) * word_of_nat k + word_of_nat r :: u64) = int ((t - b - 1) * k + r)"
proof -
  have "(word_of_nat t :: u64) - word_of_nat b - 1 = word_of_nat (t - b - 1)"
    using assms(1) by (simp add: of_nat_diff)
  then have e: "(word_of_nat t - word_of_nat b - 1) * word_of_nat k + word_of_nat r = (word_of_nat ((t - b - 1) * k + r) :: u64)"
    by (simp only: of_nat_add of_nat_mult)
  have "(t - b - 1) * k \<le> 2 ^ 40 * 2 ^ 8" using assms by (intro mult_le_mono) simp_all
  then have "(t - b - 1) * k + r < 2 ^ 63" using assms(4) by simp
  then have "int ((t - b - 1) * k + r) < 2 ^ 63" by (simp only: of_nat_less_numeral_power_cancel_iff)
  then have "signed_take_bit 63 (int ((t - b - 1) * k + r)) = int ((t - b - 1) * k + r)"
    by (intro signed_take_bit_int_eq_self order_trans [OF _ of_nat_0_le_iff]) simp_all
  moreover have "LENGTH(64) - Suc 0 = 63" by simp
  ultimately show ?thesis
    unfolding e by (simp only: signed_of_nat of_int_eq_id id_apply)
qed

lemma scd_pts_nat:
  "unat (scd_pts d) = (of_bool (bit (u32TsCntHi8_Byte345AfterSc d) 0) * 2 ^ 32 + unat (u32ScCode_Byte678AfterSc d)) div 90"
proof -
  define h l where "h = (of_bool (bit (u32TsCntHi8_Byte345AfterSc d) 0) :: nat)" and "l = unat (u32ScCode_Byte678AfterSc d)"
  have h: "h \<le> 1" by (simp add: h_def)
  have l: "l < 2 ^ 32" using unat_u32_less [of "u32ScCode_Byte678AfterSc d"] by (simp add: l_def)
  have b: "(u32TsCntHi8_Byte345AfterSc d AND 1 \<noteq> 0) = bit (u32TsCntHi8_Byte345AfterSc d) 0"
    by (simp add: and_one_eq odd_iff_mod_2_eq_one bit_0)
  define P where "P = (if u32TsCntHi8_Byte345AfterSc d AND 1 \<noteq> 0 then 0x100000000 else 0 :: u64) + ucast (u32ScCode_Byte678AfterSc d)"
  have "P = word_of_nat (h * 2 ^ 32 + l)"
    unfolding P_def b h_def l_def by simp
  moreover have "h * 2 ^ 32 + l < 2 ^ 33" using h l by (cases h) auto
  ultimately have P: "unat P = h * 2 ^ 32 + l"
    by (simp only: unsigned_of_nat) (simp add: take_bit_nat_eq_self)
  then have "unat (drop_bit 1 P) = (h * 2 ^ 32 + l) div 2"
    by (simp only: unat_drop_bit_eq) (simp add: drop_bit_eq_div)
  moreover have "(h * 2 ^ 32 + l) div 2 < 2 ^ 32" using h l by (cases h) auto
  ultimately have "unat (ucast (drop_bit 1 P) :: u32) = (h * 2 ^ 32 + l) div 2"
    by (simp only: unsigned_ucast_eq) (simp add: take_bit_nat_eq_self)
  then have "unat (ucast (drop_bit 1 P) div (45::u32)) = (h * 2 ^ 32 + l) div 2 div 45"
    by (simp only: unat_div_distrib) simp
  then show ?thesis
    unfolding scd_pts_def Let_def P_def [symmetric] h_def l_def by (simp add: div_mult2_eq [symmetric])
qed

section \<open>Properties\<close>

text \<open>C35. A picture descriptor is unpacked completely: the start code, the eight bytes behind it and the
  position in the recording come out as packed. The position is exact: the 40-bit packet number,
  less the packets to step back and one, times the packet size (192 bytes with time stamps, 188
  without), plus the offset in the packet.\<close>

theorem scd_video_unpacked:
  assumes "length bs = 8" "typ = DMX_INDEX_SC_TYPE_PIC \<or> typ = DMX_INDEX_SC_TYPE_PIC_SHORT"
    and "unat back < 2 ^ 21" "unat back < unat hi * 2 ^ 32 + unat lo"
  shows "DmxScdToVideoIndex stamps (scd_encode typ code bs off hi lo sccode clk back)
    = Some \<lparr>u8IndexType = typ, u8StartCode = code, u32PtsMs = PVR_INDEX_INVALID_PTSMS,
        scd_GlobalOffset = int ((unat hi * 2 ^ 32 + unat lo - unat back - 1) * (if stamps then 192 else 188) + unat off),
        au8DataAfterSC = bs\<rparr>"
proof -
  define d where "d = scd_encode typ code bs off hi lo sccode clk back"
  define t where "t = unat hi * 2 ^ 32 + unat lo"
  have nib: "ucast (drop_bit 24 (w4 typ 0 0 0) AND 0xf :: u32) = typ"
  proof -
    have "typ AND 0xf0 = 0" using assms(2) by auto
    then have "drop_bit 24 (w4 typ 0 0 0) AND 0xf = ucast typ" by (rule w4_nibble)
    then show ?thesis by (simp only: byte_roundtrip)
  qed
  have bs: "bs = [bs ! 0, bs ! 1, bs ! 2, bs ! 3, bs ! 4, bs ! 5, bs ! 6, bs ! 7]"
    using assms(1) by (auto simp: numeral_eq_Suc length_Suc_conv)
  have p: "PVR_SCDDmxIdxToPvrIdx d = \<lparr>px_IndexType = typ, px_StartCode = code, u16OffsetInTs = ucast (ucast off :: u32),
      u32OffsetInDavBuf = back, au8ByteAfterSC = bs, u64TSCnt = word_of_nat t, px_PtsMs = PVR_INDEX_INVALID_PTSMS,
      u16OverFlow = (if drop_bit 28 (w4 typ 0 0 0) AND 0x1 = 0 then 1 else 0)\<rparr>"
    using assms(2) unfolding PVR_SCDDmxIdxToPvrIdx_def d_def scd_encode_def Let_def dmx_idx_data.select_convs
      w4_bytes nib w4_low_byte byte_roundtrip back_mask [OF assms(3)] ts_count ts_count_nat t_def [symmetric] bs [symmetric]
    by auto
  have "unat hi * 2 ^ 32 + unat lo < 2 ^ 40"
    using unat_byte_less [of hi] unat_u32_less [of lo] by simp
  then have t: "t < 2 ^ 40" "unat back < t" using assms(4) by (simp_all add: t_def)
  have conv: "(ucast back :: u64) = word_of_nat (unat back)"
    "(ucast (ucast (ucast off :: u32) :: u16) :: u64) = word_of_nat (unat off)"
  proof -
    have "(ucast (ucast (ucast off :: u32) :: u16) :: u64) = ucast off"
      by (rule bit_word_eqI) (auto simp: bit_unsigned_iff dest: bit_imp_le_length)
    then show "(ucast (ucast (ucast off :: u32) :: u16) :: u64) = word_of_nat (unat off)" by simp
  qed simp
  have o: "sint (PVR_SCDIndexCalcGlobalOffset stamps (PVR_SCDDmxIdxToPvrIdx d))
      = int ((t - unat back - 1) * (if stamps then 192 else 188) + unat off)"
    using packet_offset [OF t(2,1), of 192 "unat off"] packet_offset [OF t(2,1), of 188 "unat off"] unat_byte_less [of off]
    unfolding p PVR_SCDIndexCalcGlobalOffset_def pvr_index_scd.select_convs conv by auto
  have q: "px_IndexType (PVR_SCDDmxIdxToPvrIdx d) = typ" "px_StartCode (PVR_SCDDmxIdxToPvrIdx d) = code"
    "px_PtsMs (PVR_SCDDmxIdxToPvrIdx d) = PVR_INDEX_INVALID_PTSMS" "au8ByteAfterSC (PVR_SCDDmxIdxToPvrIdx d) = bs"
    by (simp_all only: p pvr_index_scd.select_convs)
  show ?thesis
    unfolding DmxScdToVideoIndex_def Let_def d_def [symmetric] q t_def [symmetric]
    using assms(2) o by auto
qed

text \<open>The presentation time of a packet header descriptor is its 33-bit time stamp in milliseconds, and
  the video and the audio function agree: both refuse the descriptor exactly when its valid bit is
  clear, and otherwise return the 90 kHz stamp divided by 90, rounded down, without overflow.\<close>

theorem scd_pts_milliseconds:
  assumes "drop_bit 24 (u32Chn_Ovflag_IdxType_Flags d) AND 0xf = DMX_INDEX_SC_TYPE_PTS"
  shows "(if bit (u32TsCntHi8_Byte345AfterSc d) 1
     then map_option (\<lambda>f. unat (u32PtsMs f)) (DmxScdToVideoIndex stamps d)
          = Some ((of_bool (bit (u32TsCntHi8_Byte345AfterSc d) 0) * 2 ^ 32 + unat (u32ScCode_Byte678AfterSc d)) div 90)
        \<and> map_option (\<lambda>r. unat (ri_PtsMs r)) (DmxScdToAudioIndex cur d)
          = Some ((of_bool (bit (u32TsCntHi8_Byte345AfterSc d) 0) * 2 ^ 32 + unat (u32ScCode_Byte678AfterSc d)) div 90)
     else DmxScdToVideoIndex stamps d = None \<and> DmxScdToAudioIndex cur d = None)"
proof -
  let ?b = "u32TsCntHi8_Byte345AfterSc d"
  have v1: "(?b AND 0x2 = 0) = (\<not> bit ?b 1)"
  proof -
    have "(0x2::u32) = push_bit 1 1" by simp
    then show ?thesis by (metis bit_iff_and_push_bit_not_eq_0)
  qed
  have v2: "(drop_bit 1 ?b AND 0x1 = 0) = (\<not> bit ?b 1)"
    by (simp only: and_one_eq odd_iff_mod_2_eq_one [symmetric] bit_iff_odd_drop_bit) (simp add: mod2_eq_if)
  have n: "scd_pts d \<noteq> PVR_INDEX_INVALID_PTSMS"
  proof
    assume "scd_pts d = PVR_INDEX_INVALID_PTSMS"
    then have "unat (scd_pts d) = 2 ^ 32 - 1" by (simp add: PVR_INDEX_INVALID_PTSMS_def unsigned_minus_1_eq_mask mask_eq_exp_minus_1)
    moreover have "unat (scd_pts d) \<le> 2 ^ 33 div 90"
      unfolding scd_pts_nat using unat_u32_less [of "u32ScCode_Byte678AfterSc d"] by (intro div_le_mono) simp
    ultimately show False by simp
  qed
  have t: "px_IndexType (PVR_SCDDmxIdxToPvrIdx d) = DMX_INDEX_SC_TYPE_PTS"
    "px_PtsMs (PVR_SCDDmxIdxToPvrIdx d) = (if bit ?b 1 then scd_pts d else PVR_INDEX_INVALID_PTSMS)"
    unfolding PVR_SCDDmxIdxToPvrIdx_def Let_def pvr_index_scd.select_convs assms v1 by simp_all
  have "DmxScdToVideoIndex stamps d = None" if "\<not> bit ?b 1"
    using that unfolding DmxScdToVideoIndex_def Let_def t by simp
  moreover have "map_option (\<lambda>f. unat (u32PtsMs f)) (DmxScdToVideoIndex stamps d) = Some (unat (scd_pts d))" if "bit ?b 1"
    using that n unfolding DmxScdToVideoIndex_def Let_def t by simp
  moreover have "DmxScdToAudioIndex cur d = None" if "\<not> bit ?b 1"
    using that unfolding DmxScdToAudioIndex_def Let_def assms v2 by simp
  moreover have "map_option (\<lambda>r. unat (ri_PtsMs r)) (DmxScdToAudioIndex cur d) = Some (unat (scd_pts d))" if "bit ?b 1"
    using that unfolding DmxScdToAudioIndex_def Let_def assms v2 by simp
  ultimately show ?thesis
    unfolding scd_pts_nat by presburger
qed

text \<open>The callback stores what the frame index reports: for an I, P or B frame with a position and a
  size that are not negative the index record holds exactly that type, time, position and size, and
  the other reports leave the record alone.\<close>

theorem rec_update_stores_frame:
  assumes "0 \<le> fp_GlobalOffset f" "fp_GlobalOffset f < 2 ^ 63" "0 \<le> s32FrameSize f" "s32FrameSize f < 2 ^ 31"
  shows "(if eFrameType f = FIDX_FRAME_TYPE_I \<or> eFrameType f = FIDX_FRAME_TYPE_P \<or> eFrameType f = FIDX_FRAME_TYPE_B
     then let r = DmxRecUpdateFrameInfo r0 f
       in (enFrameType r = MT_UNF_FRAME_TYPE_I \<longleftrightarrow> eFrameType f = FIDX_FRAME_TYPE_I)
        \<and> (enFrameType r = MT_UNF_FRAME_TYPE_P \<longleftrightarrow> eFrameType f = FIDX_FRAME_TYPE_P)
        \<and> (enFrameType r = MT_UNF_FRAME_TYPE_B \<longleftrightarrow> eFrameType f = FIDX_FRAME_TYPE_B)
        \<and> ri_PtsMs r = fp_PTS f \<and> uint (u64GlobalOffset r) = fp_GlobalOffset f \<and> uint (u32FrameSize r) = s32FrameSize f
        \<and> u32DataTimeMs r = u32DataTimeMs r0
     else DmxRecUpdateFrameInfo r0 f = r0)"
proof -
  have "take_bit 64 (fp_GlobalOffset f) = fp_GlobalOffset f" "take_bit 32 (s32FrameSize f) = s32FrameSize f"
    using assms by (simp_all add: take_bit_int_eq_self)
  then have "uint (word_of_int (fp_GlobalOffset f) :: u64) = fp_GlobalOffset f"
    "uint (word_of_int (s32FrameSize f) :: u32) = s32FrameSize f"
    by (simp_all add: uint_word_of_int_eq)
  then show ?thesis
    by (cases "eFrameType f") (simp_all add: DmxRecUpdateFrameInfo_def Let_def)
qed

section \<open>Witnesses\<close>

theorem scd_video_unpacked_witness:
  "DmxScdToVideoIndex True (scd_encode 4 0xb3 [1, 2, 3, 4, 5, 6, 7, 8] 20 1 7 0 0 3)
    = Some \<lparr>u8IndexType = 4, u8StartCode = 0xb3, u32PtsMs = PVR_INDEX_INVALID_PTSMS,
        scd_GlobalOffset = (2 ^ 32 + 3) * 192 + 20, au8DataAfterSC = [1, 2, 3, 4, 5, 6, 7, 8]\<rparr>"
  using scd_video_unpacked [of "[1, 2, 3, 4, 5, 6, 7, 8]" 4 3 1 7 True "0xb3" 20 0 0] by simp

definition ex_pts_scd :: dmx_idx_data where
  "ex_pts_scd = \<lparr>u32Chn_Ovflag_IdxType_Flags = 0x02000000, u32ScType_Byte12AfterSc_OffsetInTs = 0xe0000010,
     u32TsCntLo32 = 9, u32TsCntHi8_Byte345AfterSc = 0x3, u32ScCode_Byte678AfterSc = 900, u32SrcClk = 0, u32BackPacetNum = 1\<rparr>"

definition ex_rec :: rec_index where
  "ex_rec = \<lparr>enFrameType = MT_UNF_FRAME_TYPE_UNKNOWN, ri_PtsMs = 0, u64GlobalOffset = 0, u32FrameSize = 0, u32DataTimeMs = 0\<rparr>"

theorem scd_pts_milliseconds_witness:
  "map_option (\<lambda>f. unat (u32PtsMs f)) (DmxScdToVideoIndex True ex_pts_scd) = Some ((2 ^ 32 + 900) div 90)
    \<and> map_option (\<lambda>r. unat (ri_PtsMs r)) (DmxScdToAudioIndex ex_rec ex_pts_scd) = Some ((2 ^ 32 + 900) div 90)"
proof -
  have "drop_bit 24 (u32Chn_Ovflag_IdxType_Flags ex_pts_scd) AND 0xf = DMX_INDEX_SC_TYPE_PTS"
    by (simp add: ex_pts_scd_def)
  from scd_pts_milliseconds [OF this, of True ex_rec] show ?thesis
    by (simp add: ex_pts_scd_def bit_numeral_rec)
qed

theorem rec_update_stores_frame_witness:
  "uint (u64GlobalOffset (DmxRecUpdateFrameInfo ex_rec (frame_zero\<lparr>eFrameType := FIDX_FRAME_TYPE_I, fp_GlobalOffset := 77, s32FrameSize := 5\<rparr>))) = 77"
  using rec_update_stores_frame [of "frame_zero\<lparr>eFrameType := FIDX_FRAME_TYPE_I, fp_GlobalOffset := 77, s32FrameSize := 5\<rparr>" ex_rec]
  by (simp add: Let_def)

end
