(* ===== verification/Xds.thy ===== *)
theory Xds
  imports MT_Base
begin

text \<open>
  Extended data services of line 21 captions, \<open>src/kware/cc/src/708/cc608/src/cc608_xds.c\<close>, and the function
  \<open>CC608_DEC_CheckXDS\<close> of \<open>cc608_dec.c\<close> that separates their byte pairs from captions. A packet that is
  interrupted by another one is kept in a backup buffer. One \<open>xds_object\<close> per module, two of them;
  enumeration values of the packet class are numbers, and the packets handed to
  \<open>CCDISP_OutputXDSData\<close> are part of the results. The mutex only guards the update flags.
\<close>

section \<open>Data and operations\<close>

definition MAX_XDS_PACKET_LEN :: nat where "MAX_XDS_PACKET_LEN = 0x21"
definition MAX_XDS_OBJECT_NUM :: nat where "MAX_XDS_OBJECT_NUM = 0x02"
definition MT_UNF_CC_XDS_CLASS_BUTT :: nat where "MT_UNF_CC_XDS_CLASS_BUTT = 7"
definition CC608_XDS_MAX_TYPE :: nat where "CC608_XDS_MAX_TYPE = 0x44"

abbreviation CLASS_CURRENT_START :: u8 where "CLASS_CURRENT_START \<equiv> 0x01"
abbreviation CLASS_PRIVATE_CONTINUE :: u8 where "CLASS_PRIVATE_CONTINUE \<equiv> 0x0e"
abbreviation CLASS_PACKET_END :: u8 where "CLASS_PACKET_END \<equiv> 0x0f"

record xds_object =
  u8IsPacketStarted :: bool
  enCurXDSClass :: nat
  u8CurXDSType :: u8
  au8PacketData :: "u8 list"
  u8PacketLen :: nat
  u8IsBackupStarted :: bool
  enBackupXDSClass :: nat
  u8BackupXDSType :: u8
  au8BackupPacketData :: "u8 list"
  u8BackupPacketLen :: nat
  bUpdated :: "nat \<Rightarrow> nat \<Rightarrow> bool"

text \<open>A packet: class, type and bytes.\<close>

type_synonym xds_packet = "nat \<times> u8 \<times> u8 list"

definition xds_object_zero :: xds_object where
  "xds_object_zero = \<lparr>u8IsPacketStarted = False, enCurXDSClass = 0, u8CurXDSType = 0,
     au8PacketData = replicate MAX_XDS_PACKET_LEN 0, u8PacketLen = 0, u8IsBackupStarted = False,
     enBackupXDSClass = 0, u8BackupXDSType = 0, au8BackupPacketData = replicate MAX_XDS_PACKET_LEN 0,
     u8BackupPacketLen = 0, bUpdated = (\<lambda>i j. False)\<rparr>"

definition CC608_XDS_GetObject :: "xds_object list \<Rightarrow> nat \<Rightarrow> xds_object option" where
  "CC608_XDS_GetObject objs mid = (if mid \<ge> MAX_XDS_OBJECT_NUM then None else Some (objs ! mid))"

definition CC608_XDS_EndXDSPacket :: "xds_object \<Rightarrow> xds_object \<times> xds_packet list" where
  "CC608_XDS_EndXDSPacket o1 =
     (let c = enCurXDSClass o1; t = u8CurXDSType o1
      in if c \<ge> MT_UNF_CC_XDS_CLASS_BUTT \<or> unat t \<ge> CC608_XDS_MAX_TYPE then (o1, [])
         else if u8PacketLen o1 > 0 \<and> u8IsPacketStarted o1
         then (o1\<lparr>bUpdated := (\<lambda>i j. if i = c \<and> j = unat t then True else bUpdated o1 i j)\<rparr>,
               [(c, t, take (u8PacketLen o1) (au8PacketData o1))])
         else (o1, []))"

definition CC608_XDS_Create :: "xds_object list \<Rightarrow> nat \<Rightarrow> xds_object list \<times> mt_ret" where
  "CC608_XDS_Create objs mid =
     (case CC608_XDS_GetObject objs mid of None \<Rightarrow> (objs, MT_FAILURE)
      | Some o1 \<Rightarrow> (objs[mid := o1\<lparr>bUpdated := (\<lambda>i j.
          if i < MT_UNF_CC_XDS_CLASS_BUTT \<and> j < CC608_XDS_MAX_TYPE then False else bUpdated o1 i j)\<rparr>], MT_SUCCESS))"

definition CC608_XDS_Destroy :: "xds_object list \<Rightarrow> nat \<Rightarrow> xds_object list \<times> mt_ret" where
  "CC608_XDS_Destroy objs mid = (objs, MT_SUCCESS)"

definition CC608_XDS_Reset :: "xds_object list \<Rightarrow> nat \<Rightarrow> xds_object list" where
  "CC608_XDS_Reset objs mid =
     (case CC608_XDS_GetObject objs mid of None \<Rightarrow> objs
      | Some o1 \<Rightarrow> objs[mid := o1\<lparr>bUpdated := (\<lambda>i j.
          if i < MT_UNF_CC_XDS_CLASS_BUTT \<and> j < CC608_XDS_MAX_TYPE then False else bUpdated o1 i j)\<rparr>])"

definition eXDSClassTable :: "nat list" where
  "eXDSClassTable = [0, 1, 2, 3, 4, 5, 6]"

definition xds_restore :: "xds_object \<Rightarrow> xds_object" where
  "xds_restore o1 =
     (if u8IsBackupStarted o1
      then let o2 = (if u8BackupPacketLen o1 \<le> MAX_XDS_PACKET_LEN
                     then o1\<lparr>au8PacketData := mem_write (au8PacketData o1) 0 (take (u8BackupPacketLen o1) (au8BackupPacketData o1)),
                             u8PacketLen := u8BackupPacketLen o1\<rparr> else o1)
           in o2\<lparr>enCurXDSClass := enBackupXDSClass o2, u8CurXDSType := u8BackupXDSType o2,
                 au8BackupPacketData := replicate MAX_XDS_PACKET_LEN 0, u8BackupPacketLen := 0,
                 u8IsBackupStarted := False, u8IsPacketStarted := True\<rparr>
      else o1)"

definition xds_save :: "xds_object \<Rightarrow> xds_object" where
  "xds_save o1 =
     (if u8IsPacketStarted o1
      then let o2 = (if u8PacketLen o1 \<le> MAX_XDS_PACKET_LEN
                     then o1\<lparr>au8BackupPacketData := mem_write (au8BackupPacketData o1) 0 (take (u8PacketLen o1) (au8PacketData o1)),
                             u8BackupPacketLen := u8PacketLen o1\<rparr> else o1)
           in o2\<lparr>enBackupXDSClass := enCurXDSClass o2, u8BackupXDSType := u8CurXDSType o2, u8IsBackupStarted := True\<rparr>
      else o1)"

definition xds_decode :: "xds_object \<Rightarrow> u8 \<Rightarrow> u8 \<Rightarrow> xds_object \<times> xds_packet list \<times> mt_ret" where
  "xds_decode o1 b1 b2 =
     (if b1 = CLASS_PACKET_END
      then let (o2, out) = CC608_XDS_EndXDSPacket o1;
               o3 = o2\<lparr>u8IsPacketStarted := False, u8CurXDSType := 0, u8PacketLen := 0,
                       au8PacketData := replicate MAX_XDS_PACKET_LEN 0\<rparr>
           in (xds_restore o3, out, MT_SUCCESS)
      else if CLASS_CURRENT_START \<le> b1 \<and> b1 \<le> CLASS_PRIVATE_CONTINUE
      then let o2 = (if b1 AND 1 \<noteq> 0
                     then (xds_save o1)\<lparr>u8PacketLen := 0, au8PacketData := replicate MAX_XDS_PACKET_LEN 0\<rparr> else o1)
           in (o2\<lparr>u8IsPacketStarted := True, enCurXDSClass := eXDSClassTable ! unat (drop_bit 1 (b1 - 1)),
                  u8CurXDSType := b2\<rparr>, [], MT_SUCCESS)
      else if u8IsPacketStarted o1
      then if (b1 > 0 \<and> b1 \<le> 0x1f) \<or> (b2 > 0 \<and> b2 \<le> 0x1f) then (o1, [], MT_FAILURE)
           else if u8PacketLen o1 < MAX_XDS_PACKET_LEN - 2
           then (o1\<lparr>au8PacketData := (au8PacketData o1)[u8PacketLen o1 := b1, u8PacketLen o1 + 1 := b2],
                    u8PacketLen := u8PacketLen o1 + 2\<rparr>, [], MT_SUCCESS)
           else if u8PacketLen o1 \<ge> MAX_XDS_PACKET_LEN
           then (o1\<lparr>u8PacketLen := 0, au8PacketData := replicate MAX_XDS_PACKET_LEN 0, u8IsPacketStarted := False\<rparr>,
                 [], MT_SUCCESS)
           else (o1, [], MT_SUCCESS)
      else (o1, [], MT_SUCCESS))"

definition CC608_XDS_XDSDecode :: "xds_object list \<Rightarrow> nat \<Rightarrow> u8 \<Rightarrow> u8 \<Rightarrow> xds_object list \<times> xds_packet list \<times> mt_ret" where
  "CC608_XDS_XDSDecode objs mid b1 b2 =
     (case CC608_XDS_GetObject objs mid of None \<Rightarrow> (objs, [], MT_FAILURE)
      | Some o1 \<Rightarrow> (let (o2, out, ret) = xds_decode o1 b1 b2 in (objs[mid := o2], out, ret)))"

text \<open>The state that \<open>CC608_DEC_CheckXDS\<close> uses: its flag in the caption object and the XDS objects. \<open>None\<close> as
  the caption object is an unknown module, \<open>None\<close> as the word a NULL pointer. Field 2 has the number 0.\<close>

record xds_front =
  u8IsXDSStarted :: bool
  xds_objs :: "xds_object list"

definition CC608_DEC_CheckXDS ::
  "bool \<Rightarrow> xds_front \<Rightarrow> nat \<Rightarrow> u16 option \<Rightarrow> nat \<Rightarrow> xds_front \<times> xds_packet list \<times> int" where
  "CC608_DEC_CheckXDS known f mid pu16CCData u8FieldNum =
     (if \<not> known then (f, [], -2)
      else case pu16CCData of None \<Rightarrow> (f, [], -1)
      | Some w \<Rightarrow>
        if u8FieldNum = 0
        then let b1 = ucast (w AND 0xff); b2 = ucast (drop_bit 8 w AND 0xff)
             in if 0x01 \<le> b1 \<and> b1 \<le> 0x0e
                then let (objs, out, _) = CC608_XDS_XDSDecode (xds_objs f) mid b1 b2
                     in (f\<lparr>u8IsXDSStarted := True, xds_objs := objs\<rparr>, out, 2)
                else if 0x10 \<le> b1 \<and> b1 \<le> 0x1f then (f\<lparr>u8IsXDSStarted := False\<rparr>, [], 0)
                else if u8IsXDSStarted f
                then let (objs, out, _) = CC608_XDS_XDSDecode (xds_objs f) mid b1 b2
                     in (f\<lparr>xds_objs := objs, u8IsXDSStarted := (if b1 = 0x0f then False else u8IsXDSStarted f)\<rparr>, out, 2)
                else (f, [], 0)
        else (f, [], 0))"

section \<open>The abstract machine\<close>

text \<open>A current packet and an interrupted one. The bytes of a packet are legal when they are 0 or printable;
  at most 32 are kept.\<close>

definition xds_legal :: "u8 \<times> u8 \<Rightarrow> bool" where
  "xds_legal b \<longleftrightarrow> (fst b = 0 \<or> fst b \<ge> 0x20) \<and> (snd b = 0 \<or> snd b \<ge> 0x20)"

definition xds_spec ::
  "xds_packet option \<times> xds_packet option \<Rightarrow> u8 \<times> u8 \<Rightarrow> (xds_packet option \<times> xds_packet option) \<times> xds_packet list" where
  "xds_spec s b =
     (let (cur, bak) = s; (b1, b2) = b
      in if b1 = CLASS_PACKET_END
         then ((bak, None), case cur of None \<Rightarrow> []
                 | Some (c, t, ds) \<Rightarrow> if ds \<noteq> [] \<and> unat t < CC608_XDS_MAX_TYPE then [(c, t, ds)] else [])
         else if CLASS_CURRENT_START \<le> b1 \<and> b1 \<le> CLASS_PRIVATE_CONTINUE
         then if odd (unat b1)
              then ((Some ((unat b1 - 1) div 2, b2, []), if cur = None then bak else cur), [])
              else ((Some ((unat b1 - 1) div 2, b2, case cur of None \<Rightarrow> [] | Some (c, t, ds) \<Rightarrow> ds), bak), [])
         else ((case cur of None \<Rightarrow> None
                | Some (c, t, ds) \<Rightarrow> Some (c, t, if xds_legal b \<and> length ds \<le> 30 then ds @ [b1, b2] else ds), bak), []))"

definition xds_abs :: "xds_object \<Rightarrow> xds_packet option \<times> xds_packet option" where
  "xds_abs o1 =
     (if u8IsPacketStarted o1 then Some (enCurXDSClass o1, u8CurXDSType o1, take (u8PacketLen o1) (au8PacketData o1)) else None,
      if u8IsBackupStarted o1 then Some (enBackupXDSClass o1, u8BackupXDSType o1, take (u8BackupPacketLen o1) (au8BackupPacketData o1)) else None)"

definition xds_inv :: "xds_object \<Rightarrow> bool" where
  "xds_inv o1 \<longleftrightarrow> length (au8PacketData o1) = MAX_XDS_PACKET_LEN \<and> length (au8BackupPacketData o1) = MAX_XDS_PACKET_LEN
     \<and> even (u8PacketLen o1) \<and> u8PacketLen o1 \<le> 32 \<and> even (u8BackupPacketLen o1) \<and> u8BackupPacketLen o1 \<le> 32
     \<and> enCurXDSClass o1 < 7 \<and> enBackupXDSClass o1 < 7 \<and> (\<not> u8IsPacketStarted o1 \<longrightarrow> u8PacketLen o1 = 0)"

section \<open>Refinement\<close>

lemma class_index:
  assumes "CLASS_CURRENT_START \<le> b" "b \<le> CLASS_PRIVATE_CONTINUE"
  shows "eXDSClassTable ! unat (drop_bit 1 (b - 1)) = (unat b - 1) div 2" "(unat b - 1) div 2 < 7"
proof -
  have u: "1 \<le> unat b" "unat b \<le> 14" using assms by (simp_all add: word_le_nat_alt)
  have "unat (b - 1) = unat b - 1" using assms(1) by (simp add: unat_sub)
  then have "unat (drop_bit 1 (b - 1)) = (unat b - 1) div 2"
    by (simp only: unat_drop_bit_eq) (simp add: drop_bit_eq_div)
  moreover show lt: "(unat b - 1) div 2 < 7" using u by simp
  moreover have "eXDSClassTable ! k = k" if "k < 7" for k
    using that by (auto simp: eXDSClassTable_def less_Suc_eq numeral_eq_Suc)
  ultimately show "eXDSClassTable ! unat (drop_bit 1 (b - 1)) = (unat b - 1) div 2" by simp
qed

text \<open>One lemma per branch: the invariant, the abstract state and the packets handed out.\<close>

definition xds_sim :: "xds_object \<Rightarrow> u8 \<times> u8 \<Rightarrow> bool" where
  "xds_sim o1 b \<longleftrightarrow> (case xds_decode o1 (fst b) (snd b) of (o2, out, _) \<Rightarrow> xds_inv o2 \<and> (xds_abs o2, out) = xds_spec (xds_abs o1) b)"

lemma take_mem_write_prefix:
  "n \<le> length src \<Longrightarrow> n \<le> length m \<Longrightarrow> take n (mem_write m 0 (take n src)) = take n src"
  by (simp add: mem_write_def)

lemma xds_sim_end:
  assumes "xds_inv o1"
  shows "xds_sim o1 (CLASS_PACKET_END, b2)"
  using assms
  by (auto simp: xds_sim_def xds_decode_def xds_spec_def xds_abs_def xds_inv_def CC608_XDS_EndXDSPacket_def xds_restore_def
      Let_def MAX_XDS_PACKET_LEN_def MT_UNF_CC_XDS_CLASS_BUTT_def take_mem_write_prefix length_mem_write)

lemma odd_byte: "(b AND 1 \<noteq> 0) = odd (unat (b :: u8))"
proof -
  have "odd (unat b) = bit b 0" by (simp only: bit_0 [symmetric] bit_unsigned_iff) (simp add: bit_imp_le_length)
  then show ?thesis by (simp only: and_one_eq bit_0) (simp add: mod2_eq_if)
qed

lemma xds_sim_class:
  assumes "xds_inv o1" "CLASS_CURRENT_START \<le> b1" "b1 \<le> CLASS_PRIVATE_CONTINUE"
  shows "xds_sim o1 (b1, b2)"
proof -
  have n: "b1 \<noteq> CLASS_PACKET_END" using assms(3) by auto
  note c = class_index [OF assms(2,3)]
  show ?thesis
    using assms n c
    by (auto simp: xds_sim_def xds_decode_def xds_spec_def xds_abs_def xds_inv_def xds_save_def odd_byte
        Let_def MAX_XDS_PACKET_LEN_def take_mem_write_prefix length_mem_write)
qed

lemma xds_sim_data:
  assumes "xds_inv o1" "b1 \<noteq> CLASS_PACKET_END" "\<not> (CLASS_CURRENT_START \<le> b1 \<and> b1 \<le> CLASS_PRIVATE_CONTINUE)"
  shows "xds_sim o1 (b1, b2)"
proof -
  have l: "((b1 > 0 \<and> b1 \<le> 0x1f) \<or> (b2 > 0 \<and> b2 \<le> 0x1f)) = (\<not> xds_legal (b1, b2))"
    by (auto simp: xds_legal_def word_less_nat_alt word_le_nat_alt unat_eq_0 [symmetric])
  show ?thesis
    using assms unfolding xds_sim_def xds_decode_def fst_conv snd_conv l
    by (auto simp: xds_spec_def xds_abs_def xds_inv_def MAX_XDS_PACKET_LEN_def take_Suc_conv_app_nth)
qed

lemma xds_refines:
  assumes "xds_inv o1" "xds_decode o1 (fst b) (snd b) = (o2, out, ret)"
  shows "xds_inv o2" "xds_spec (xds_abs o1) b = (xds_abs o2, out)"
proof -
  have "xds_sim o1 b"
    using xds_sim_end xds_sim_class xds_sim_data assms(1) by (cases b) metis
  then show "xds_inv o2" "xds_spec (xds_abs o1) b = (xds_abs o2, out)"
    using assms(2) by (simp_all add: xds_sim_def)
qed

section \<open>Runs\<close>

fun dec_run :: "(u8 \<times> u8) list \<Rightarrow> xds_object \<Rightarrow> xds_object \<times> xds_packet list" where
  "dec_run [] o1 = (o1, [])"
| "dec_run (b # bs) o1 =
     (let (o2, out, _) = xds_decode o1 (fst b) (snd b); (o3, outs) = dec_run bs o2 in (o3, out @ outs))"

fun spec_run :: "(u8 \<times> u8) list \<Rightarrow> xds_packet option \<times> xds_packet option
    \<Rightarrow> (xds_packet option \<times> xds_packet option) \<times> xds_packet list" where
  "spec_run [] s = (s, [])"
| "spec_run (b # bs) s = (let (s, out) = xds_spec s b; (s, outs) = spec_run bs s in (s, out @ outs))"

lemma spec_run_append:
  "spec_run (xs @ ys) s = (let (s, out) = spec_run xs s; (s, outs) = spec_run ys s in (s, out @ outs))"
  by (induction xs arbitrary: s) (auto split: prod.split)

lemma dec_run_refines:
  assumes "xds_inv o1" "dec_run bs o1 = (o2, out)"
  shows "xds_inv o2 \<and> spec_run bs (xds_abs o1) = (xds_abs o2, out)"
  using assms
proof (induction bs arbitrary: o1 out)
  case (Cons b bs)
  obtain p ps ret where p: "xds_decode o1 (fst b) (snd b) = (p, ps, ret)"
    by (cases "xds_decode o1 (fst b) (snd b)")
  obtain q qs where q: "dec_run bs p = (q, qs)" by (cases "dec_run bs p")
  note r = xds_refines [OF Cons.prems(1) p]
  have "q = o2" "out = ps @ qs" using Cons.prems(2) by (simp_all add: p q)
  then show ?case
    using Cons.IH [OF r(1), of qs] r(2) q by simp
qed simp

definition bytes_of :: "(u8 \<times> u8) list \<Rightarrow> u8 list" where
  "bytes_of bs = concat (map (\<lambda>b. [fst b, snd b]) bs)"

lemma bytes_of_simps [simp]:
  "bytes_of [] = []" "bytes_of (b # bs) = fst b # snd b # bytes_of bs" "bytes_of (xs @ ys) = bytes_of xs @ bytes_of ys"
  "length (bytes_of bs) = 2 * length bs"
  by (simp_all add: bytes_of_def) (induction bs; simp)

lemma bytes_of_Nil [simp]: "bytes_of bs = [] \<longleftrightarrow> bs = []"
  by (cases bs) simp_all

definition start_code :: "nat \<Rightarrow> u8" where "start_code k = word_of_nat (2 * k + 1)"
definition continue_code :: "nat \<Rightarrow> u8" where "continue_code k = word_of_nat (2 * k + 2)"

lemma unat_codes:
  assumes "k < 7"
  shows "unat (start_code k) = 2 * k + 1" "unat (continue_code k) = 2 * k + 2"
  using assms by (simp_all only: start_code_def continue_code_def unsigned_of_nat) (simp_all add: take_bit_nat_eq_self)

lemma spec_start:
  assumes "k < 7"
  shows "xds_spec (cur, bak) (start_code k, t) = ((Some (k, t, []), if cur = None then bak else cur), [])"
proof -
  have "start_code k \<noteq> CLASS_PACKET_END" using unat_codes(1) [OF assms] assms by auto
  then show ?thesis using unat_codes [OF assms] assms by (simp add: xds_spec_def word_le_nat_alt)
qed

lemma spec_continue:
  assumes "k < 7"
  shows "xds_spec (Some (c, t0, ds), bak) (continue_code k, t) = ((Some (k, t, ds), bak), [])"
  using unat_codes [OF assms] assms by (auto simp: xds_spec_def word_le_nat_alt)

lemma spec_data:
  assumes "list_all xds_legal ps" "length ds + 2 * length ps \<le> 32"
  shows "spec_run ps (Some (c, t, ds), bak) = ((Some (c, t, ds @ bytes_of ps), bak), [])"
  using assms
proof (induction ps arbitrary: ds)
  case (Cons p ps)
  obtain b1 b2 where p: "p = (b1, b2)" by (cases p)
  have "xds_legal (b1, b2)" using Cons.prems p by simp
  moreover from this have "b1 \<noteq> CLASS_PACKET_END" "\<not> (CLASS_CURRENT_START \<le> b1 \<and> b1 \<le> CLASS_PRIVATE_CONTINUE)"
    by (auto simp: xds_legal_def word_le_nat_alt)
  ultimately have "xds_spec (Some (c, t, ds), bak) (b1, b2) = ((Some (c, t, ds @ [b1, b2]), bak), [])"
    using Cons.prems(2) by (simp add: xds_spec_def)
  then show ?case using Cons.IH [of "ds @ [b1, b2]"] Cons.prems by (simp add: p)
qed simp

lemma spec_end:
  "xds_spec (Some (c, t, ds), bak) (CLASS_PACKET_END, b)
     = ((bak, None), if ds \<noteq> [] \<and> unat t < CC608_XDS_MAX_TYPE then [(c, t, ds)] else [])"
  by (simp add: xds_spec_def)

section \<open>Routing\<close>

definition cc_word :: "u8 \<times> u8 \<Rightarrow> u16" where
  "cc_word b = ucast (fst b) OR push_bit 8 (ucast (snd b))"

lemma cc_word_bytes: "ucast (cc_word b AND 0xff) = fst b" "ucast (drop_bit 8 (cc_word b) AND 0xff) = snd b"
proof -
  have m: "(0xff::u16) = mask 8" by (simp add: mask_numeral)
  show "ucast (cc_word b AND 0xff) = fst b" "ucast (drop_bit 8 (cc_word b) AND 0xff) = snd b"
    unfolding m cc_word_def
    by (rule bit_word_eqI, simp only: bit_unsigned_iff bit_and_iff bit_or_iff bit_push_bit_iff bit_drop_bit_eq bit_mask_iff
        possible_bit_word comp_apply, auto dest: bit_imp_le_length)+
qed

fun front_run :: "nat \<Rightarrow> (u8 \<times> u8) list \<Rightarrow> xds_front \<Rightarrow> xds_front \<times> xds_packet list \<times> int list" where
  "front_run mid [] f = (f, [], [])"
| "front_run mid (b # bs) f =
     (let (f, out, r) = CC608_DEC_CheckXDS True f mid (Some (cc_word b)) 0; (f, outs, rs) = front_run mid bs f
      in (f, out @ outs, r # rs))"

definition class_pair :: "u8 \<times> u8 \<Rightarrow> bool" where
  "class_pair b \<longleftrightarrow> 0x01 \<le> fst b \<and> fst b \<le> 0x0e"

definition caption_pair :: "u8 \<times> u8 \<Rightarrow> bool" where
  "caption_pair b \<longleftrightarrow> 0x10 \<le> fst b \<and> fst b \<le> 0x1f"

text \<open>Which pairs reach the packet decoder, and the flag behind each of them.\<close>

definition routed :: "bool \<Rightarrow> u8 \<times> u8 \<Rightarrow> bool" where
  "routed flag b \<longleftrightarrow> class_pair b \<or> (flag \<and> \<not> caption_pair b)"

lemma check_routed:
  assumes "routed (u8IsXDSStarted f) b" "mid < MAX_XDS_OBJECT_NUM"
    and "xds_decode (xds_objs f ! mid) (fst b) (snd b) = (o2, out, ret)"
  shows "CC608_DEC_CheckXDS True f mid (Some (cc_word b)) 0
    = (f\<lparr>u8IsXDSStarted := fst b \<noteq> 0x0f, xds_objs := (xds_objs f)[mid := o2]\<rparr>, out, 2)"
proof (cases "class_pair b")
  case True
  then have "fst b \<noteq> 0x0f" by (auto simp: class_pair_def)
  then show ?thesis
    using True assms by (simp add: CC608_DEC_CheckXDS_def cc_word_bytes CC608_XDS_XDSDecode_def CC608_XDS_GetObject_def
        class_pair_def Let_def)
next
  case False
  then show ?thesis
    using assms by (auto simp: CC608_DEC_CheckXDS_def cc_word_bytes CC608_XDS_XDSDecode_def CC608_XDS_GetObject_def
        routed_def class_pair_def caption_pair_def Let_def)
qed

lemma check_caption:
  assumes "\<not> class_pair b" "\<not> u8IsXDSStarted f"
  shows "CC608_DEC_CheckXDS True f mid (Some (cc_word b)) 0 = (f, [], 0)"
  using assms by (cases f) (auto simp: CC608_DEC_CheckXDS_def cc_word_bytes class_pair_def Let_def)

lemma front_captions:
  assumes "list_all (\<lambda>b. \<not> class_pair b) bs" "\<not> u8IsXDSStarted f"
  shows "front_run mid bs f = (f, [], replicate (length bs) 0)"
  using assms by (induction bs) (simp_all add: check_caption)

fun all_routed :: "bool \<Rightarrow> (u8 \<times> u8) list \<Rightarrow> bool" where
  "all_routed flag [] = True"
| "all_routed flag (b # bs) \<longleftrightarrow> routed flag b \<and> all_routed (fst b \<noteq> 0x0f) bs"

lemma front_routed:
  assumes "all_routed (u8IsXDSStarted f) bs" "mid < MAX_XDS_OBJECT_NUM" "mid < length (xds_objs f)"
    and "dec_run bs (xds_objs f ! mid) = (o2, out)" "bs \<noteq> []"
  shows "front_run mid bs f = (f\<lparr>u8IsXDSStarted := fst (last bs) \<noteq> 0x0f, xds_objs := (xds_objs f)[mid := o2]\<rparr>,
    out, replicate (length bs) 2)"
  using assms
proof (induction bs arbitrary: f out)
  case (Cons b bs)
  obtain p ps ret where p: "xds_decode (xds_objs f ! mid) (fst b) (snd b) = (p, ps, ret)"
    by (cases "xds_decode (xds_objs f ! mid) (fst b) (snd b)")
  define g where "g = f\<lparr>u8IsXDSStarted := fst b \<noteq> 0x0f, xds_objs := (xds_objs f)[mid := p]\<rparr>"
  have c: "CC608_DEC_CheckXDS True f mid (Some (cc_word b)) 0 = (g, ps, 2)"
    using check_routed [OF _ Cons.prems(2) p] Cons.prems(1) by (simp add: g_def)
  obtain q qs where q: "dec_run bs p = (q, qs)" by (cases "dec_run bs p")
  have o: "o2 = q" "out = ps @ qs" using Cons.prems(4) by (simp_all add: p q)
  show ?case
  proof (cases "bs = []")
    case True
    then show ?thesis using q o c by (simp add: g_def)
  next
    case False
    have "front_run mid bs g = (g\<lparr>u8IsXDSStarted := fst (last bs) \<noteq> 0x0f, xds_objs := (xds_objs g)[mid := q]\<rparr>,
      qs, replicate (length bs) 2)"
      using Cons.IH [of g qs] Cons.prems False q o by (simp add: g_def)
    then show ?thesis using False c o by (simp add: g_def)
  qed
qed simp

lemma front_run_append:
  "front_run mid (xs @ ys) f =
     (let (f, out, rs) = front_run mid xs f; (f, outs, rss) = front_run mid ys f in (f, out @ outs, rs @ rss))"
  by (induction xs arbitrary: f) (auto split: prod.split)

lemma legal_routed: "xds_legal b \<Longrightarrow> routed True b \<and> fst b \<noteq> 0x0f"
  by (auto simp: xds_legal_def routed_def caption_pair_def word_le_nat_alt)

lemma all_routed_legal:
  "list_all xds_legal ps \<Longrightarrow> all_routed True (ps @ bs) \<longleftrightarrow> all_routed True bs"
  by (induction ps) (auto simp: legal_routed)

lemma class_codes:
  assumes "k < 7"
  shows "class_pair (start_code k, t)" "class_pair (continue_code k, t)"
    "start_code k \<noteq> 0x0f" "continue_code k \<noteq> 0x0f"
  using unat_codes [OF assms] assms by (auto simp: class_pair_def word_le_nat_alt)

lemma end_routed: "routed True (0x0f, c)"
  by (simp add: routed_def caption_pair_def word_le_nat_alt)

section \<open>Properties\<close>

text \<open>C38. The packet decoder implements the abstract machine of one current and one interrupted packet: for
  any two bytes it gives the machine's next state and packets, and its counters and buffers stay in
  range (at most 32 of the 33 bytes are used, so the overflow branch is never taken).\<close>

theorem xds_decode_refines:
  assumes "xds_inv o1"
  shows "xds_inv (fst (xds_decode o1 b1 b2))
    \<and> xds_spec (xds_abs o1) (b1, b2) = (xds_abs (fst (xds_decode o1 b1 b2)), fst (snd (xds_decode o1 b1 b2)))
    \<and> u8PacketLen (fst (xds_decode o1 b1 b2)) < MAX_XDS_PACKET_LEN"
proof -
  obtain o2 out ret where d: "xds_decode o1 b1 b2 = (o2, out, ret)" by (cases "xds_decode o1 b1 b2")
  show ?thesis
    using xds_refines [OF assms, of "(b1, b2)"] d by (simp add: xds_inv_def MAX_XDS_PACKET_LEN_def)
qed

text \<open>Interrupted packets arrive whole: a packet that is interrupted by another one and, behind it, by
  caption data, and then continued, is delivered complete after the inner packet; the caption pairs
  are passed on (result 0), all others are consumed (result 2), and the decoder is idle again.\<close>

theorem xds_interrupted_packet:
  assumes "mid < MAX_XDS_OBJECT_NUM" "length (xds_objs f) = MAX_XDS_OBJECT_NUM"
    and "xds_inv (xds_objs f ! mid)" "xds_abs (xds_objs f ! mid) = (None, None)"
    and "k1 < 7" "k2 < 7" "unat t1 < CC608_XDS_MAX_TYPE" "unat t2 < CC608_XDS_MAX_TYPE"
    and "list_all xds_legal (ps1 @ ps2)" "list_all xds_legal qs" "ps1 @ ps2 \<noteq> []" "qs \<noteq> []"
    and "length (ps1 @ ps2) \<le> 16" "length qs \<le> 16" "list_all (\<lambda>b. \<not> class_pair b) caps"
  shows "\<exists>f'. front_run mid ((start_code k1, t1) # ps1 @ (start_code k2, t2) # qs @ (0x0f, c2) # caps
      @ (continue_code k1, t1) # ps2 @ [(0x0f, c1)]) f
    = (f', [(k2, t2, bytes_of qs), (k1, t1, bytes_of (ps1 @ ps2))],
        replicate (3 + length ps1 + length qs) 2 @ replicate (length caps) 0 @ replicate (2 + length ps2) 2)
    \<and> xds_abs (xds_objs f' ! mid) = (None, None)"
proof -
  let ?A = "(start_code k1, t1) # ps1 @ (start_code k2, t2) # qs @ [(0x0f, c2)]"
  let ?B = "(continue_code k1, t1) # ps2 @ [(0x0f, c1)]"
  note cls = class_codes [OF assms(5)] class_codes [OF assms(6)]
  obtain o1 out1 where d1: "dec_run ?A (xds_objs f ! mid) = (o1, out1)" by (cases "dec_run ?A (xds_objs f ! mid)")
  have "spec_run ?A (None, None) = ((Some (k1, t1, bytes_of ps1), None), [(k2, t2, bytes_of qs)])"
    using assms(8-14) spec_data [of ps1 "[]"] spec_data [of qs "[]"]
    by (simp add: spec_run_append spec_start [OF assms(5)] spec_start [OF assms(6)] spec_end)
  then have o1: "xds_inv o1" "xds_abs o1 = (Some (k1, t1, bytes_of ps1), None)" "out1 = [(k2, t2, bytes_of qs)]"
    using dec_run_refines [OF assms(3) d1] assms(4) by auto
  define g where "g = f\<lparr>u8IsXDSStarted := False, xds_objs := (xds_objs f)[mid := o1]\<rparr>"
  have "all_routed flag ?A" for flag
    using assms(9,10) cls by (simp add: all_routed_legal routed_def end_routed del: append_assoc)
      (simp add: all_routed_legal end_routed routed_def caption_pair_def word_le_nat_alt)
  then have A: "front_run mid ?A f = (g, [(k2, t2, bytes_of qs)], replicate (3 + length ps1 + length qs) 2)"
    using front_routed [OF _ assms(1) _ d1] assms(1,2) o1(3) by (simp add: g_def numeral_3_eq_3)
  have C: "front_run mid caps g = (g, [], replicate (length caps) 0)"
    using front_captions [OF assms(15)] by (simp add: g_def)
  have go: "xds_objs g ! mid = o1" using assms(1,2) by (simp add: g_def)
  obtain o2 out2 where d2: "dec_run ?B o1 = (o2, out2)" by (cases "dec_run ?B o1")
  have "spec_run ?B (Some (k1, t1, bytes_of ps1), None) = ((None, None), [(k1, t1, bytes_of (ps1 @ ps2))])"
    using assms(7,9,11,13) spec_data [of ps2 "bytes_of ps1"]
    by (auto simp: spec_run_append spec_continue [OF assms(5)] spec_end)
  then have o2: "xds_abs o2 = (None, None)" "out2 = [(k1, t1, bytes_of (ps1 @ ps2))]"
    using dec_run_refines [OF o1(1) d2] o1(2) by auto
  define h where "h = g\<lparr>u8IsXDSStarted := False, xds_objs := (xds_objs g)[mid := o2]\<rparr>"
  have "all_routed flag ?B" for flag
    using assms(9) cls by (simp add: all_routed_legal routed_def caption_pair_def word_le_nat_alt)
  then have B: "front_run mid ?B g = (h, [(k1, t1, bytes_of (ps1 @ ps2))], replicate (2 + length ps2) 2)"
    using front_routed [of g ?B mid o2 out2] d2 go assms(1,2) o2(2) by (simp add: h_def g_def numeral_2_eq_2)
  have "front_run mid (?A @ caps @ ?B) f = (h, [(k2, t2, bytes_of qs), (k1, t1, bytes_of (ps1 @ ps2))],
        replicate (3 + length ps1 + length qs) 2 @ replicate (length caps) 0 @ replicate (2 + length ps2) 2)"
    by (simp only: front_run_append A B C Let_def split) simp
  moreover have "xds_abs (xds_objs h ! mid) = (None, None)" using o2(1) assms(1,2) by (simp add: h_def g_def)
  ultimately show ?thesis by (intro exI [of _ h]) simp
qed

section \<open>Witnesses\<close>

definition xds_front_zero :: xds_front where
  "xds_front_zero = \<lparr>u8IsXDSStarted = False, xds_objs = [xds_object_zero, xds_object_zero]\<rparr>"

lemma xds_zero: "xds_inv xds_object_zero" "xds_abs xds_object_zero = (None, None)"
  by (simp_all add: xds_inv_def xds_abs_def xds_object_zero_def)

theorem xds_decode_refines_witness:
  "xds_inv xds_object_zero \<and> xds_inv (fst (xds_decode xds_object_zero 0x05 0x01))
   \<and> xds_spec (None, None) (0x05, 0x01) = (xds_abs (fst (xds_decode xds_object_zero 0x05 0x01)), [])
   \<and> xds_abs (fst (xds_decode xds_object_zero 0x05 0x01)) = (Some (2, 0x01, []), None)"
proof -
  have s: "xds_spec (None, None) (0x05, 0x01) = ((Some (2, 0x01, []), None), [])" by (simp add: xds_spec_def)
  show ?thesis using xds_decode_refines [OF xds_zero(1), of "0x05" "0x01"] s xds_zero by auto
qed

text \<open>A channel packet "AB" interrupts the current packet "CDEF" behind its first pair, with a caption pair
  before the continuation.\<close>

theorem xds_interrupted_packet_witness:
  "\<exists>f'. front_run 1 [(0x01, 0x03), (0x43, 0x44), (0x05, 0x01), (0x41, 0x42), (0x0f, 0x10), (0x14, 0x2c),
      (0x02, 0x03), (0x45, 0x46), (0x0f, 0x20)] xds_front_zero
    = (f', [(2, 0x01, [0x41, 0x42]), (0, 0x03, [0x43, 0x44, 0x45, 0x46])], [2, 2, 2, 2, 2, 0, 2, 2, 2])
    \<and> xds_abs (xds_objs f' ! 1) = (None, None)"
proof -
  have n: "unat (0x03 :: u8) < CC608_XDS_MAX_TYPE" "unat (0x01 :: u8) < CC608_XDS_MAX_TYPE"
    by (simp_all add: CC608_XDS_MAX_TYPE_def)
  have r: "replicate (3 + length [(0x43 :: u8, 0x44 :: u8)] + length [(0x41 :: u8, 0x42 :: u8)]) 2
      @ replicate (length [(0x14 :: u8, 0x2c :: u8)]) 0 @ replicate (2 + length [(0x45 :: u8, 0x46 :: u8)]) 2
    = [2 :: int, 2, 2, 2, 2, 0, 2, 2, 2]"
    by (simp add: numeral_eq_Suc)
  show ?thesis
    using xds_interrupted_packet [of 1 xds_front_zero 0 2 "0x03" "0x01" "[(0x43, 0x44)]" "[(0x45, 0x46)]" "[(0x41, 0x42)]"
      "[(0x14, 0x2c)]" "0x10" "0x20", unfolded r] xds_zero n
    by (simp add: xds_front_zero_def MAX_XDS_OBJECT_NUM_def xds_legal_def class_pair_def
        start_code_def continue_code_def del: front_run.simps)
qed
end
