(* ===== verification/CcTimer.thy ===== *)
theory CcTimer
  imports MT_Base
begin

text \<open>
  The timers of the closed caption decoders, \<open>src/kware/cc/src/708/common/src/cc_timer.c\<close>: one thread ticks
  every millisecond and drives five hooks. The block behind \<open>s_pstCCTimer\<close> is the record \<open>cctimer_attr\<close>,
  a NULL pointer is \<open>None\<close>. A hook is named by a number; its calls with their arguments are the output
  of a tick (the hooks the decoders install never call the timer functions). The loop body of the
  thread is \<open>cctimer_tick\<close>; threads and the mutex are not part of the state.
\<close>

section \<open>Data and operations\<close>

definition MAX_CC_TIMER :: nat where "MAX_CC_TIMER = 5"

datatype cctimer_mode = TIMER_MODE_AUTO_RESTART | TIMER_MODE_ONE_SHOOT | TIMER_MODE_BUTT

record cctimer_hook =
  bStart :: bool
  pfnHook :: "nat option"
  u32Args :: u32
  u32Interval :: u32
  u32Escape :: u32
  enMode :: cctimer_mode

record cctimer_attr =
  bRun :: bool
  astHook :: "cctimer_hook list"

definition cctimer_hook_zero :: cctimer_hook where
  "cctimer_hook_zero = \<lparr>bStart = False, pfnHook = None, u32Args = 0, u32Interval = 0, u32Escape = 0,
     enMode = TIMER_MODE_AUTO_RESTART\<rparr>"

definition cctimer_trigger :: "cctimer_hook \<Rightarrow> u32 \<Rightarrow> cctimer_hook \<times> (nat \<times> u32) list" where
  "cctimer_trigger h escape =
     (if bStart h
      then let h = h\<lparr>u32Escape := u32Escape h + escape\<rparr>
           in if u32Escape h \<ge> u32Interval h
              then let calls = (case pfnHook h of None \<Rightarrow> [] | Some f \<Rightarrow> [(f, u32Args h)]);
                       h = (if enMode h = TIMER_MODE_ONE_SHOOT then h\<lparr>bStart := False\<rparr> else h)
                   in (h\<lparr>u32Escape := 0\<rparr>, calls)
              else (h, [])
      else (h, []))"

text \<open>The loop over the hooks; a call is tagged with the index of its timer.\<close>

fun trigger_from :: "nat \<Rightarrow> cctimer_hook list \<Rightarrow> cctimer_hook list \<times> (nat \<times> nat \<times> u32) list" where
  "trigger_from i [] = ([], [])"
| "trigger_from i (h # hs) =
     (let (h, calls) = cctimer_trigger h 1; (hs, rest) = trigger_from (Suc i) hs
      in (h # hs, map (Pair i) calls @ rest))"

definition cctimer_tick :: "cctimer_attr option \<Rightarrow> cctimer_attr option \<times> (nat \<times> nat \<times> u32) list" where
  "cctimer_tick s =
     (case s of None \<Rightarrow> (None, [])
      | Some t \<Rightarrow> if bRun t then let (hs, calls) = trigger_from 0 (astHook t) in (Some (t\<lparr>astHook := hs\<rparr>), calls)
                  else (Some t, []))"

definition CCTimer_Init :: "bool \<Rightarrow> cctimer_attr option \<Rightarrow> cctimer_attr option \<times> mt_ret" where
  "CCTimer_Init alloc_ok s =
     (case s of None \<Rightarrow> if \<not> alloc_ok then (None, MT_FAILURE)
                        else (Some \<lparr>bRun = True, astHook = replicate MAX_CC_TIMER cctimer_hook_zero\<rparr>, MT_SUCCESS)
      | Some t \<Rightarrow> (Some t, MT_SUCCESS))"

definition CCTimer_DeInit :: "cctimer_attr option \<Rightarrow> cctimer_attr option \<times> mt_ret" where
  "CCTimer_DeInit s = (None, MT_SUCCESS)"

definition CCTimer_Open :: "cctimer_attr option \<Rightarrow> nat \<Rightarrow> nat option \<Rightarrow> u32 \<Rightarrow> cctimer_attr option \<times> mt_ret" where
  "CCTimer_Open s i f args =
     (if i \<ge> MAX_CC_TIMER then (s, MT_FAILURE)
      else case s of None \<Rightarrow> (s, MT_FAILURE)
      | Some t \<Rightarrow> (Some (t\<lparr>astHook := (astHook t)[i := (astHook t ! i)\<lparr>pfnHook := f, u32Args := args, bStart := False\<rparr>]\<rparr>),
                   MT_SUCCESS))"

definition CCTimer_Stop :: "cctimer_attr option \<Rightarrow> nat \<Rightarrow> cctimer_attr option \<times> mt_ret" where
  "CCTimer_Stop s i =
     (if i \<ge> MAX_CC_TIMER then (s, MT_FAILURE)
      else case s of None \<Rightarrow> (s, MT_FAILURE)
      | Some t \<Rightarrow> (Some (t\<lparr>astHook := (astHook t)[i := (astHook t ! i)\<lparr>bStart := False\<rparr>]\<rparr>), MT_SUCCESS))"

definition CCTimer_Close :: "cctimer_attr option \<Rightarrow> nat \<Rightarrow> cctimer_attr option \<times> mt_ret" where
  "CCTimer_Close s i = CCTimer_Stop s i"

definition CCTimer_Start :: "cctimer_attr option \<Rightarrow> nat \<Rightarrow> u32 \<Rightarrow> cctimer_mode \<Rightarrow> cctimer_attr option \<times> mt_ret" where
  "CCTimer_Start s i u32Msec mode =
     (if i \<ge> MAX_CC_TIMER then (s, MT_FAILURE)
      else case s of None \<Rightarrow> (s, MT_FAILURE)
      | Some t \<Rightarrow> (Some (t\<lparr>astHook := (astHook t)[i := (astHook t ! i)\<lparr>bStart := True, u32Interval := u32Msec,
                     u32Escape := 0, enMode := mode\<rparr>]\<rparr>), MT_SUCCESS))"

section \<open>Interleavings\<close>

text \<open>The timer thread and the callers interleave; one event is a tick or one call.\<close>

datatype cctimer_event =
    Tick | Init bool | DeInit | Open nat "nat option" u32 | Close nat | Start nat u32 cctimer_mode | Stop nat

fun cctimer_step :: "cctimer_event \<Rightarrow> cctimer_attr option \<Rightarrow> cctimer_attr option \<times> (nat \<times> nat \<times> u32) list" where
  "cctimer_step Tick s = cctimer_tick s"
| "cctimer_step (Init ok) s = (fst (CCTimer_Init ok s), [])"
| "cctimer_step DeInit s = (fst (CCTimer_DeInit s), [])"
| "cctimer_step (Open i f a) s = (fst (CCTimer_Open s i f a), [])"
| "cctimer_step (Close i) s = (fst (CCTimer_Close s i), [])"
| "cctimer_step (Start i n mode) s = (fst (CCTimer_Start s i n mode), [])"
| "cctimer_step (Stop i) s = (fst (CCTimer_Stop s i), [])"

fun cctimer_run :: "cctimer_event list \<Rightarrow> cctimer_attr option \<Rightarrow> cctimer_attr option \<times> (nat \<times> nat \<times> u32) list" where
  "cctimer_run [] s = (s, [])"
| "cctimer_run (e # es) s = (let (s, calls) = cctimer_step e s; (s, rest) = cctimer_run es s in (s, calls @ rest))"

fun leaves_alone :: "nat \<Rightarrow> cctimer_event \<Rightarrow> bool" where
  "leaves_alone i DeInit = False"
| "leaves_alone i (Open j f a) \<longleftrightarrow> i \<noteq> j"
| "leaves_alone i (Close j) \<longleftrightarrow> i \<noteq> j"
| "leaves_alone i (Start j n mode) \<longleftrightarrow> i \<noteq> j"
| "leaves_alone i (Stop j) \<longleftrightarrow> i \<noteq> j"
| "leaves_alone i e = True"

definition timer_live :: "cctimer_attr option \<Rightarrow> bool" where
  "timer_live s \<longleftrightarrow> (case s of None \<Rightarrow> False | Some t \<Rightarrow> bRun t \<and> length (astHook t) = MAX_CC_TIMER)"

definition hook_of :: "cctimer_attr option \<Rightarrow> nat \<Rightarrow> cctimer_hook" where
  "hook_of s i = astHook (the s) ! i"

definition calls_of :: "nat \<Rightarrow> (nat \<times> nat \<times> u32) list \<Rightarrow> (nat \<times> u32) list" where
  "calls_of i cs = map snd (filter (\<lambda>c. fst c = i) cs)"

lemma calls_of_append [simp]: "calls_of i (xs @ ys) = calls_of i xs @ calls_of i ys"
  by (simp add: calls_of_def)

lemma calls_of_Nil [simp]: "calls_of i [] = []"
  by (simp add: calls_of_def)

lemma calls_of_tagged: "calls_of i (map (Pair j) xs) = (if i = j then xs else [])"
  by (induction xs) (auto simp: calls_of_def)

text \<open>One pass of the loop runs \<open>cctimer_trigger\<close> once on each hook.\<close>

lemma trigger_from_nth:
  assumes "trigger_from i hs = (hs', calls)"
  shows "length hs' = length hs \<and> (\<forall>k < length hs. hs' ! k = fst (cctimer_trigger (hs ! k) 1)
    \<and> calls_of (i + k) calls = snd (cctimer_trigger (hs ! k) 1)) \<and> (\<forall>j < i. calls_of j calls = [])"
  using assms
proof (induction hs arbitrary: i hs' calls)
  case (Cons h hs)
  obtain g cs where g: "cctimer_trigger h 1 = (g, cs)" by (cases "cctimer_trigger h 1")
  obtain gs rest where r: "trigger_from (Suc i) hs = (gs, rest)" by (cases "trigger_from (Suc i) hs")
  have o: "hs' = g # gs" "calls = map (Pair i) cs @ rest" using Cons.prems by (simp_all add: g r)
  note IH = Cons.IH [OF r]
  have "(g # gs) ! k = fst (cctimer_trigger ((h # hs) ! k) 1)
    \<and> calls_of (i + k) calls = snd (cctimer_trigger ((h # hs) ! k) 1)" if "k < Suc (length hs)" for k
    using that IH g o by (cases k) (simp_all add: calls_of_tagged)
  moreover have "\<forall>j < i. calls_of j calls = []" using IH o by (simp add: calls_of_tagged)
  ultimately show ?case using IH o by simp
qed simp

lemma tick_hook:
  assumes "timer_live s" "i < MAX_CC_TIMER" "cctimer_tick s = (s', calls)"
  shows "timer_live s'" "hook_of s' i = fst (cctimer_trigger (hook_of s i) 1)"
    "calls_of i calls = snd (cctimer_trigger (hook_of s i) 1)"
proof -
  obtain t where t: "s = Some t" "bRun t" "length (astHook t) = MAX_CC_TIMER"
    using assms(1) by (auto simp: timer_live_def split: option.splits)
  obtain hs cs where h: "trigger_from 0 (astHook t) = (hs, cs)" by (cases "trigger_from 0 (astHook t)")
  have s': "s' = Some (t\<lparr>astHook := hs\<rparr>)" "calls = cs" using assms(3) by (simp_all add: cctimer_tick_def t h)
  show "timer_live s'" "hook_of s' i = fst (cctimer_trigger (hook_of s i) 1)"
    "calls_of i calls = snd (cctimer_trigger (hook_of s i) 1)"
    using trigger_from_nth [OF h] s' t assms(2) by (auto simp: timer_live_def hook_of_def)
qed

lemmas timer_ops = CCTimer_Init_def CCTimer_Open_def CCTimer_Close_def CCTimer_Start_def CCTimer_Stop_def

lemma call_hook:
  assumes "timer_live s" "leaves_alone i e" "e \<noteq> Tick" "cctimer_step e s = (s', calls)"
  shows "timer_live s' \<and> hook_of s' i = hook_of s i \<and> calls = []"
  using assms by (cases e) (auto simp: timer_ops timer_live_def hook_of_def split: option.splits if_splits)

definition ticks :: "cctimer_event list \<Rightarrow> nat" where
  "ticks es = length (filter (\<lambda>e. e = Tick) es)"

text \<open>A timer that no call addresses sees the ticks only.\<close>

fun hook_ticks :: "nat \<Rightarrow> cctimer_hook \<Rightarrow> cctimer_hook \<times> (nat \<times> u32) list" where
  "hook_ticks 0 h = (h, [])"
| "hook_ticks (Suc k) h = (let (h, calls) = cctimer_trigger h 1; (h, rest) = hook_ticks k h in (h, calls @ rest))"

lemma run_hook:
  assumes "timer_live s" "i < MAX_CC_TIMER" "list_all (leaves_alone i) es" "cctimer_run es s = (s', calls)"
  shows "timer_live s' \<and> (hook_of s' i, calls_of i calls) = hook_ticks (ticks es) (hook_of s i)"
  using assms
proof (induction es arbitrary: s calls)
  case (Cons e es)
  obtain s1 c1 where e: "cctimer_step e s = (s1, c1)" by (cases "cctimer_step e s")
  obtain c2 where r: "cctimer_run es s1 = (s', c2)" "calls = c1 @ c2"
    using Cons.prems(4) by (auto simp: e split: prod.splits)
  show ?case
  proof (cases "e = Tick")
    case True
    note t = tick_hook [OF Cons.prems(1,2) e [unfolded True cctimer_step.simps]]
    show ?thesis
      using Cons.IH [OF t(1) Cons.prems(2) _ r(1)] Cons.prems(3) t(2,3) r(2) True
      by (cases "cctimer_trigger (hook_of s i) 1"; cases "hook_ticks (ticks es) (hook_of s1 i)") (simp add: ticks_def)
  next
    case False
    then show ?thesis
      using call_hook [OF Cons.prems(1) _ _ e, of i] Cons.IH [OF _ Cons.prems(2) _ r(1)] Cons.prems(3) r(2)
      by (simp add: ticks_def)
  qed
qed (simp add: ticks_def)

section \<open>Firing times\<close>

text \<open>The period in ticks: an interval of 0 fires at every tick.\<close>

definition period :: "cctimer_hook \<Rightarrow> nat" where
  "period h = max 1 (unat (u32Interval h))"

text \<open>A tick of a started timer with \<open>e\<close> ticks behind it: the counter never wraps.\<close>

lemma trigger_cases:
  assumes "bStart h" "pfnHook h = Some f" "unat (u32Escape h) < period h"
  shows "Suc (unat (u32Escape h)) < period h \<Longrightarrow>
      cctimer_trigger h 1 = (h\<lparr>u32Escape := u32Escape h + 1\<rparr>, []) \<and> unat (u32Escape h + 1) = Suc (unat (u32Escape h))"
    and "\<not> Suc (unat (u32Escape h)) < period h \<Longrightarrow>
      cctimer_trigger h 1 = (h\<lparr>u32Escape := 0, bStart := enMode h \<noteq> TIMER_MODE_ONE_SHOOT\<rparr>, [(f, u32Args h)])"
proof -
  have "unat (u32Interval h) < 2 ^ 32" using unsigned_less [of "u32Interval h"] by simp
  then have "Suc (unat (u32Escape h)) < 2 ^ 32 \<or> unat (u32Interval h) = 0"
    using assms(3) by (auto simp: period_def)
  moreover have "unat (u32Escape h) = 0" if "unat (u32Interval h) = 0" using assms(3) that by (simp add: period_def)
  ultimately have u: "unat (u32Escape h + 1) = Suc (unat (u32Escape h))"
    by (auto simp: unat_word_ariths(1) unat_eq_0)
  have le: "(u32Interval h \<le> u32Escape h + 1) = (\<not> Suc (unat (u32Escape h)) < period h)"
    using u by (auto simp: word_le_nat_alt period_def)
  show "cctimer_trigger h 1 = (h\<lparr>u32Escape := u32Escape h + 1\<rparr>, []) \<and> unat (u32Escape h + 1) = Suc (unat (u32Escape h))"
    if "Suc (unat (u32Escape h)) < period h"
    using that assms(1) u le by (simp add: cctimer_trigger_def Let_def)
  show "cctimer_trigger h 1 = (h\<lparr>u32Escape := 0, bStart := enMode h \<noteq> TIMER_MODE_ONE_SHOOT\<rparr>, [(f, u32Args h)])"
    if "\<not> Suc (unat (u32Escape h)) < period h"
    using that assms(1,2) le by (cases h) (auto simp: cctimer_trigger_def Let_def)
qed

lemma stopped_hook: "\<not> bStart h \<Longrightarrow> hook_ticks k h = (h, [])"
  by (induction k) (simp_all add: cctimer_trigger_def)

lemma hook_fires_once:
  assumes "bStart h" "pfnHook h = Some f" "unat (u32Escape h) < period h" "enMode h = TIMER_MODE_ONE_SHOOT"
  shows "snd (hook_ticks k h) = (if unat (u32Escape h) + k < period h then [] else [(f, u32Args h)])"
  using assms
proof (induction k arbitrary: h)
  case (Suc k)
  note t = trigger_cases [OF Suc.prems(1-3)]
  show ?case
  proof (cases "Suc (unat (u32Escape h)) < period h")
    case True
    then show ?thesis
      using t(1) Suc.IH [of "h\<lparr>u32Escape := u32Escape h + 1\<rparr>"] Suc.prems
      by (simp add: period_def split: prod.splits)
  next
    case False
    then show ?thesis using t(2) Suc.prems by (simp add: stopped_hook)
  qed
qed simp

lemma hook_fires_again:
  assumes "bStart h" "pfnHook h = Some f" "unat (u32Escape h) < period h" "enMode h \<noteq> TIMER_MODE_ONE_SHOOT"
  shows "snd (hook_ticks k h) = replicate ((unat (u32Escape h) + k) div period h) (f, u32Args h)"
  using assms
proof (induction k arbitrary: h)
  case (Suc k)
  note t = trigger_cases [OF Suc.prems(1-3)]
  show ?case
  proof (cases "Suc (unat (u32Escape h)) < period h")
    case True
    then show ?thesis
      using t(1) Suc.IH [of "h\<lparr>u32Escape := u32Escape h + 1\<rparr>"] Suc.prems
      by (simp add: period_def split: prod.splits)
  next
    case False
    then have p: "unat (u32Escape h) + Suc k = k + period h" using Suc.prems(3) by simp
    have "0 < period h" by (simp add: period_def)
    then have d: "(unat (u32Escape h) + Suc k) div period h = Suc (k div period h)" by (simp only: p) (simp add: div_add_self2)
    have q: "period (h\<lparr>u32Escape := 0, bStart := True\<rparr>) = period h" by (simp add: period_def)
    show ?thesis
      unfolding d
      using t(2) [OF False] Suc.IH [of "h\<lparr>u32Escape := 0, bStart := True\<rparr>"] Suc.prems q \<open>0 < period h\<close>
      by (cases "hook_ticks k (h\<lparr>u32Escape := 0, bStart := True\<rparr>)") simp
  qed
qed simp

section \<open>Properties\<close>

text \<open>C40. A started timer fires: whatever calls on other timers interleave with the ticks, a timer started with
  an interval of \<open>n\<close> milliseconds has called its hook, with its own argument, exactly once after
  \<open>max 1 n\<close> ticks when it is a one-shot timer, and once per \<open>max 1 n\<close> ticks otherwise; the start
  itself calls nothing and succeeds.\<close>

theorem cctimer_fires:
  assumes "timer_live s" "i < MAX_CC_TIMER" "pfnHook (hook_of s i) = Some f" "list_all (leaves_alone i) es"
    and "CCTimer_Start s i n mode = (s1, ret)"
  shows "ret = MT_SUCCESS \<and> calls_of i (snd (cctimer_run es s1))
    = replicate (if mode = TIMER_MODE_ONE_SHOOT then min 1 (ticks es div max 1 (unat n)) else ticks es div max 1 (unat n))
        (f, u32Args (hook_of s i))"
proof -
  have live: "timer_live s1" and ret: "ret = MT_SUCCESS" and h: "hook_of s1 i = (hook_of s i)\<lparr>bStart := True,
      u32Interval := n, u32Escape := 0, enMode := mode\<rparr>"
    using assms by (auto simp: CCTimer_Start_def timer_live_def hook_of_def split: option.splits)
  let ?h = "hook_of s1 i"
  have p: "period ?h = max 1 (unat n)" by (simp add: h period_def)
  have z: "(ticks es < max 1 (unat n)) = (ticks es div max 1 (unat n) = 0)" by (simp add: div_eq_0_iff)
  have "snd (hook_ticks (ticks es) ?h) = replicate (if mode = TIMER_MODE_ONE_SHOOT
      then min 1 (ticks es div max 1 (unat n)) else ticks es div max 1 (unat n)) (f, u32Args (hook_of s i))"
    using hook_fires_once [of ?h f "ticks es", unfolded p] hook_fires_again [of ?h f "ticks es", unfolded p] assms(3) z
    by (auto simp: h min_def)
  then show ?thesis
    using run_hook [OF live assms(2,4)] ret by (metis prod.collapse snd_conv)
qed

theorem cctimer_fires_witness:
  "\<exists>s s1. timer_live s \<and> CCTimer_Start s 1 3 TIMER_MODE_ONE_SHOOT = (s1, MT_SUCCESS)
    \<and> calls_of 1 (snd (cctimer_run [Tick, Start 3 7 TIMER_MODE_AUTO_RESTART, Tick, Stop 3, Tick, Tick] s1)) = [(8, 2)]"
proof -
  define s where "s = Some \<lparr>bRun = True, astHook = (replicate MAX_CC_TIMER cctimer_hook_zero)
    [1 := cctimer_hook_zero\<lparr>pfnHook := Some 8, u32Args := 2\<rparr>]\<rparr>"
  have s: "timer_live s" "pfnHook (hook_of s 1) = Some 8" "u32Args (hook_of s 1) = 2"
    by (simp_all add: s_def timer_live_def hook_of_def MAX_CC_TIMER_def)
  show ?thesis
    using cctimer_fires [OF s(1) _ s(2), of "[Tick, Start 3 7 TIMER_MODE_AUTO_RESTART, Tick, Stop 3, Tick, Tick]" 3
        TIMER_MODE_ONE_SHOOT] s
    by (cases "CCTimer_Start s 1 3 TIMER_MODE_ONE_SHOOT")
      (auto simp: MAX_CC_TIMER_def ticks_def intro: exI [of _ s] simp del: cctimer_run.simps)
qed

end
