(* ===== verification/SlotQueue.thy ===== *)
theory SlotQueue
  imports CcQueue
begin

text \<open>
  The way the DTV caption decoder uses a caption element queue: the payload of an element lies in a
  row of a fixed array (\<open>au8ServiceData\<close>, \<open>au8UserData\<close> of \<open>CC708_OBJECT_S\<close>), the element carries a
  pointer to that row and a description of the payload. The producer writes into the row at the head
  position before it knows whether the insertion succeeds. A row pointer is the row number. The
  locale \<open>slot_queue\<close> says what an encoding of elements must satisfy; it is interpreted for the two
  element types of the decoder.
\<close>

type_synonym slot_state = "tri_queue \<times> u8 list list"

definition slot_put :: "(nat \<Rightarrow> 'm \<Rightarrow> u8 list) \<Rightarrow> slot_state \<Rightarrow> 'm \<Rightarrow> u8 list \<Rightarrow> slot_state \<times> bool" where
  "slot_put enc s m data =
     (let (q, rows) = s; n = CCQueue_GetHeadPos q;
          rows = rows[n := mem_write (rows ! n) 0 data];
          (q, ok) = CCQueue_Insert q (enc n m)
      in ((q, rows), ok))"

text \<open>What the consumer sees: the description and the row behind the pointer of the first element.\<close>

definition slot_get :: "(u8 list \<Rightarrow> nat \<times> 'm) \<Rightarrow> slot_state \<Rightarrow> ('m \<times> u8 list) option" where
  "slot_get dec s =
     (case CCQueue_Get (fst s) of (True, Some e) \<Rightarrow> (case dec e of (n, m) \<Rightarrow> Some (m, snd s ! n)) | _ \<Rightarrow> None)"

definition slot_drop :: "slot_state \<Rightarrow> slot_state" where
  "slot_drop s = (fst (CCQueue_Remove (fst s)), snd s)"

definition slot_flush :: "slot_state \<Rightarrow> slot_state" where
  "slot_flush s = (CCQueue_Flush (fst s), snd s)"

definition slot_items :: "(u8 list \<Rightarrow> nat \<times> 'm) \<Rightarrow> ('m \<Rightarrow> nat) \<Rightarrow> slot_state \<Rightarrow> ('m \<times> u8 list) list" where
  "slot_items dec mlen s = map (\<lambda>e. (snd (dec e), take (mlen (snd (dec e))) (snd s ! fst (dec e)))) (queue_contents (fst s))"

definition slot_inv :: "(u8 list \<Rightarrow> nat \<times> 'm) \<Rightarrow> ('m \<Rightarrow> bool) \<Rightarrow> nat \<Rightarrow> nat \<Rightarrow> slot_state \<Rightarrow> bool" where
  "slot_inv dec okm es rs s \<longleftrightarrow> queue_inv (fst s) \<and> Element_size (fst s) = es \<and> length (snd s) = Size (fst s)
     \<and> list_all (\<lambda>r. length r = rs) (snd s)
     \<and> map (fst \<circ> dec) (queue_contents (fst s)) = map (\<lambda>k. (Tail (fst s) + k) mod Size (fst s)) [0..<queue_items (fst s)]
     \<and> list_all (\<lambda>e. okm (snd (dec e))) (queue_contents (fst s))"

lemma pending_not_head:
  assumes "queue_inv q" "k < queue_items q"
  shows "(Tail q + k) mod Size q < Size q" "(Tail q + k) mod Size q \<noteq> Head q"
proof -
  have b: "Head q < Size q" "Tail q < Size q" using assms(1) by (auto simp: queue_inv_def)
  then show "(Tail q + k) mod Size q < Size q" by simp
  show "(Tail q + k) mod Size q \<noteq> Head q"
    using assms(2) b queue_items_less [OF assms(1)] by (auto simp: queue_items_if mod_below_double split: if_splits)
qed

locale slot_queue =
  fixes enc :: "nat \<Rightarrow> 'm \<Rightarrow> u8 list"
    and dec :: "u8 list \<Rightarrow> nat \<times> 'm"
    and mlen :: "'m \<Rightarrow> nat"
    and okm :: "'m \<Rightarrow> bool"
    and es :: nat
    and rs :: nat
  assumes dec_enc: "n < U32_RANGE \<Longrightarrow> okm m \<Longrightarrow> dec (enc n m) = (n, m)"
    and length_enc: "length (enc n m) = es"
    and okm_len: "okm m \<Longrightarrow> mlen m \<le> rs"
begin

lemma inv_index:
  assumes "slot_inv dec okm es rs (q, rows)" "e \<in> set (queue_contents q)"
  shows "fst (dec e) < Size q" "fst (dec e) \<noteq> Head q"
proof -
  have q: "queue_inv q" using assms(1) by (simp add: slot_inv_def)
  have "fst (dec e) \<in> set (map (fst \<circ> dec) (queue_contents q))" using assms(2) by simp
  also have "\<dots> = set (map (\<lambda>k. (Tail q + k) mod Size q) [0..<queue_items q])" using assms(1) by (simp add: slot_inv_def del: set_map)
  finally obtain k where "k < queue_items q" "fst (dec e) = (Tail q + k) mod Size q" by auto
  then show "fst (dec e) < Size q" "fst (dec e) \<noteq> Head q" using pending_not_head [OF q] by auto
qed

lemma items_other_row:
  assumes "slot_inv dec okm es rs (q, rows)"
  shows "slot_items dec mlen (q, rows[Head q := r]) = slot_items dec mlen (q, rows)"
proof -
  have "Head q \<noteq> fst (dec e)" if "e \<in> set (queue_contents q)" for e using inv_index(2) [OF assms that] by simp
  then show ?thesis by (auto simp: slot_items_def)
qed

lemma put_full:
  assumes "slot_inv dec okm es rs s" "CCQueue_IsFull (fst s)" "slot_put enc s m data = (s', ok)" "length data \<le> rs"
  shows "\<not> ok \<and> slot_inv dec okm es rs s' \<and> slot_items dec mlen s' = slot_items dec mlen s"
proof -
  obtain q rows where s: "s = (q, rows)" by (cases s)
  have "CCQueue_Insert q x = (q, False)" for x
    using assms(2) by (simp add: s CCQueue_Insert_def CCQueue_IsFull_def)
  then have s': "s' = (q, rows[Head q := mem_write (rows ! Head q) 0 data])" "\<not> ok"
    using assms(3) by (auto simp: slot_put_def s CCQueue_GetHeadPos_def Let_def)
  have "Head q < length rows" "list_all (\<lambda>r. length r = rs) rows"
    using assms(1) by (auto simp: slot_inv_def s queue_inv_def)
  then have "list_all (\<lambda>r. length r = rs) (snd s')"
    using assms(4) by (auto simp: s' list_all_length nth_list_update length_mem_write)
  then show ?thesis
    using assms(1) s' items_other_row [of q rows] by (simp add: slot_inv_def s)
qed

lemma put_accepted:
  assumes "slot_inv dec okm es rs s" "\<not> CCQueue_IsFull (fst s)" "slot_put enc s m data = (s', ok)"
    and "okm m" "mlen m = length data"
  shows "ok \<and> slot_inv dec okm es rs s' \<and> slot_items dec mlen s' = slot_items dec mlen s @ [(m, data)]"
proof -
  obtain q rows where s: "s = (q, rows)" by (cases s)
  let ?x = "enc (Head q) m" and ?rows = "rows[Head q := mem_write (rows ! Head q) 0 data]"
  have q: "queue_inv q" and f: "\<not> CCQueue_IsFull q" and es: "Element_size q = es" "length rows = Size q"
    and rl: "list_all (\<lambda>r. length r = rs) rows"
    and ix: "map (fst \<circ> dec) (queue_contents q) = map (\<lambda>k. (Tail q + k) mod Size q) [0..<queue_items q]"
    using assms(1,2) by (auto simp: slot_inv_def s)
  have b: "Head q < Size q" "Tail q < Size q" "Size q < U32_RANGE" using q by (auto simp: queue_inv_def)
  have fit: "queue_fits q ?x" using length_enc es by (simp add: queue_fits_def)
  obtain mm where mm: "Element q = Some mm" using q by (rule queue_inv_cases)
  note ins = insert_eq [OF q fit f mm] insert_inv [OF q fit f] insert_contents [OF q fit f]
  define q1 where "q1 = fst (CCQueue_Insert q ?x)"
  have s': "s' = (q1, ?rows)" "ok" using assms(3) ins(1) by (auto simp: slot_put_def s CCQueue_GetHeadPos_def q1_def Let_def)
  have q1: "Tail q1 = Tail q" "Size q1 = Size q" "Element_size q1 = es" "queue_items q1 = Suc (queue_items q)"
    using ins(1) items_insert [OF q f] es by (simp_all add: q1_def queue_items_def)
  have dx: "dec ?x = (Head q, m)" using dec_enc b assms(4) by simp
  have row: "length (rows ! Head q) = rs" "length data \<le> rs"
    using rl b es okm_len [OF assms(4)] assms(5) by (auto simp: list_all_length)
  have "list_all (\<lambda>r. length r = rs) ?rows"
    using rl row b(1) es(2) length_mem_write [of 0 data "rows ! Head q"] by (auto simp: list_all_length nth_list_update)
  then have "slot_inv dec okm es rs s'"
    using assms(1) ins(2,3) q1 dx ix b es head_of_items [OF b(1,2)] assms(4)
    by (auto simp: slot_inv_def s' s q1_def [symmetric])
  moreover have "slot_items dec mlen s' = slot_items dec mlen s @ [(m, data)]"
    using items_other_row [of q rows "mem_write (rows ! Head q) 0 data"] assms(1,5) ins(3) dx b es row
    by (simp add: slot_items_def s' s q1_def [symmetric] mem_write_def)
  ultimately show ?thesis using s'(2) by simp
qed

lemma get_first:
  assumes "slot_inv dec okm es rs s" "slot_items dec mlen s = (m, data) # items"
  shows "\<exists>row. slot_get dec s = Some (m, row) \<and> length row = rs \<and> take (mlen m) row = data \<and> okm m
    \<and> slot_inv dec okm es rs (slot_drop s) \<and> slot_items dec mlen (slot_drop s) = items \<and> mlen m = length data"
proof -
  obtain q rows where s: "s = (q, rows)" by (cases s)
  have q: "queue_inv q" and es: "length rows = Size q" and rl: "list_all (\<lambda>r. length r = rs) rows"
    and ix: "map (fst \<circ> dec) (queue_contents q) = map (\<lambda>k. (Tail q + k) mod Size q) [0..<queue_items q]"
    using assms(1) by (auto simp: slot_inv_def s)
  obtain e ees where c: "queue_contents q = e # ees" using assms(2) by (auto simp: slot_items_def s)
  have ne: "Tail q \<noteq> Head q" using contents_empty_iff [OF q] c by auto
  obtain mm where mm: "Element q = Some mm" using q by (rule queue_inv_cases)
  have i: "fst (dec e) < Size q" using inv_index(1) [of q rows e] assms(1) c s by simp
  have ge: "CCQueue_Get q = (True, Some e)"
    using q ne mm c contents_cons [OF q ne mm]
    by (elim queue_inv_cases) (simp add: CCQueue_Get_def slot_address)
  have d: "dec e = (fst (dec e), m)" "data = take (mlen m) (rows ! fst (dec e))"
    using assms(2) c by (auto simp: slot_items_def s)
  have ok: "okm m" using assms(1) c d(1) by (cases "dec e") (auto simp: slot_inv_def s)
  have lr: "length (rows ! fst (dec e)) = rs" using rl i es by (auto simp: list_all_length)
  have g: "slot_get dec s = Some (m, rows ! fst (dec e))" using ge d(1) by (cases "dec e") (simp add: slot_get_def s)
  define q1 where "q1 = fst (CCQueue_Remove q)"
  have q1: "Tail q1 = Suc (Tail q) mod Size q" "Size q1 = Size q" "Element_size q1 = Element_size q"
    using remove_eq [OF q ne mm] by (simp_all add: q1_def)
  have c1: "queue_contents q1 = ees" using remove_contents [OF q ne] c by (simp add: q1_def)
  have n1: "queue_items q = Suc (queue_items q1)"
    using length_queue_contents [OF q] length_queue_contents [OF remove_inv [OF q]] c c1 by (simp add: q1_def)
  have "map (fst \<circ> dec) ees = map (\<lambda>k. (Tail q1 + k) mod Size q) [0..<queue_items q1]"
  proof -
    have "map (fst \<circ> dec) ees = tl (map (\<lambda>k. (Tail q + k) mod Size q) [0..<queue_items q])"
      using ix c by (metis list.sel(3) list.simps(9))
    also have "\<dots> = map (\<lambda>k. (Tail q + Suc k) mod Size q) [0..<queue_items q1]"
      by (simp add: n1 map_tl [symmetric] map_Suc_upt [symmetric] comp_def del: upt_Suc)
    finally show ?thesis by (simp add: q1 mod_simps)
  qed
  then have "slot_inv dec okm es rs (slot_drop s)"
    using assms(1) remove_inv [OF q] q1 c c1 by (auto simp: slot_inv_def slot_drop_def s q1_def [symmetric])
  moreover have "slot_items dec mlen (slot_drop s) = items"
    using assms(2) c c1 by (simp add: slot_items_def slot_drop_def s q1_def [symmetric])
  ultimately show ?thesis using g lr d ok okm_len [OF ok] by auto
qed

lemma flush_empty:
  assumes "slot_inv dec okm es rs s"
  shows "slot_inv dec okm es rs (slot_flush s)" "slot_items dec mlen (slot_flush s) = []"
proof -
  obtain q rows where s: "s = (q, rows)" by (cases s)
  have f: "queue_inv (CCQueue_Flush q)"
    using assms by (auto simp: slot_inv_def s queue_inv_def CCQueue_Flush_def split: option.splits)
  then have "queue_contents (CCQueue_Flush q) = []" using contents_empty_iff [OF f] by (simp add: CCQueue_Flush_def)
  moreover have "queue_items (CCQueue_Flush q) = 0" by (simp add: queue_items_def CCQueue_Flush_def)
  ultimately show "slot_inv dec okm es rs (slot_flush s)" "slot_items dec mlen (slot_flush s) = []"
    using assms f by (simp_all add: slot_inv_def slot_items_def slot_flush_def s) (simp_all add: CCQueue_Flush_def)
qed

end

end
