(* ===== verification/Dtvcc.thy ===== *)
theory Dtvcc
  imports SlotQueue CcTimer
begin

text \<open>
  The packet and service layers of the DTV caption decoder, \<open>src/kware/cc/src/708/cc708/src/cc708_dec.c\<close>: caption
  constructs (a flag and two bytes) are collected into channel packets, packets are split into service
  blocks, and the blocks of the selected service are put into the service queue. The state is the part
  of \<open>CC708_OBJECT_S\<close> (module 0) that these layers use, with the timers behind \<open>CCTimer_Stop\<close>; a call of
  the drawing layer is recorded in \<open>osd\<close>. Reading behind the end of a buffer is \<open>None\<close>. Counters of type
  \<open>MT_U8\<close> are naturals with \<open>mod 256\<close> where they can wrap. The traces are left out. The parser is shown to
  return, with its buffers in bounds, while no packet of 128 bytes is announced, and to deliver whole packets.
\<close>

section \<open>Data\<close>

definition MAX_DTVCC_PACKET_LEN :: nat where "MAX_DTVCC_PACKET_LEN = 128"
definition SERVICE_QUEUE_SIZE :: nat where "SERVICE_QUEUE_SIZE = 128"
definition INVALID_SERVICE_NUM :: int where "INVALID_SERVICE_NUM = -1"
definition CCTIMER_ID_708DELAY :: nat where "CCTIMER_ID_708DELAY = 3"

abbreviation PACKET_START_FLAG :: u8 where "PACKET_START_FLAG \<equiv> 0xFF"
abbreviation PACKET_DATA_FLAG :: u8 where "PACKET_DATA_FLAG \<equiv> 0xFE"
abbreviation PACKET_END_FLAG1 :: u8 where "PACKET_END_FLAG1 \<equiv> 0xFA"
abbreviation PACKET_END_FLAG2 :: u8 where "PACKET_END_FLAG2 \<equiv> 0xFB"
abbreviation C0_NUL :: u8 where "C0_NUL \<equiv> 0x00"
abbreviation C0_EXT1 :: u8 where "C0_EXT1 \<equiv> 0x10"
abbreviation C1_DLC :: u8 where "C1_DLC \<equiv> 0x8E"
abbreviation C1_RST :: u8 where "C1_RST \<equiv> 0x8F"

record dtvcc_packet =
  pk_SeqenceNo :: nat
  pk_TotalSize :: nat
  pk_CurSize :: nat
  pk_Data :: "u8 list"
  pk_Start :: bool

record dtvcc_service_block =
  sb_ServiceNo :: nat
  sb_ServiceSize :: nat
  sb_CurSize :: nat
  sb_Data :: "u8 list"

record dtvcc_cmd_buffer =
  cm_CMD :: "u8 list"
  cm_TotalSize :: nat
  cm_CurSize :: nat

text \<open>Calls of the drawing layer.\<close>

datatype osd_call =
    OSD_Reset | OSD_Draw "u16 list" | OSD_ETX | OSD_BSText | OSD_FFText | OSD_CRText | OSD_HCRText
  | OSD_SetCurrentWindow nat | OSD_ClearWindows u8 | OSD_DisplayWindows u8 | OSD_HideWindows u8
  | OSD_ToggleWindows u8 | OSD_DeleteWindows u8 | OSD_SetPenAttributes "nat list" | OSD_SetPenColor "u32 list" "nat list"
  | OSD_SetPenLocation nat nat | OSD_SetWindowAttributes "nat list" "u32 list" | OSD_DefineWindow "nat list"

record cc708_object =
  u8IsStart :: bool
  u8IsDelay :: bool
  stServiceBlock :: dtvcc_service_block
  s32LastSeqenceNo :: int
  bServiceBlockEnded :: bool
  stPacket :: dtvcc_packet
  stCMDBuffer :: dtvcc_cmd_buffer
  u32ServiceType :: nat
  service :: slot_state
  cctimer :: "cctimer_attr option"
  osd :: "osd_call list"

definition packet_zero :: dtvcc_packet where
  "packet_zero = \<lparr>pk_SeqenceNo = 0, pk_TotalSize = 0, pk_CurSize = 0, pk_Data = replicate 128 0, pk_Start = False\<rparr>"

definition service_block_zero :: dtvcc_service_block where
  "service_block_zero = \<lparr>sb_ServiceNo = 0, sb_ServiceSize = 0, sb_CurSize = 0, sb_Data = replicate 32 0\<rparr>"

definition cmd_buffer_zero :: dtvcc_cmd_buffer where
  "cmd_buffer_zero = \<lparr>cm_CMD = replicate 8 0, cm_TotalSize = 0, cm_CurSize = 0\<rparr>"

text \<open>\<open>DTVCC_ServiceElement_S\<close>: the row pointer and the length, padded to 8 bytes.\<close>

definition service_element :: "nat \<Rightarrow> nat \<Rightarrow> u8 list" where
  "service_element n len = le32_bytes (word_of_nat n) @ [word_of_nat len, 0, 0, 0]"

definition service_element_fields :: "u8 list \<Rightarrow> nat \<times> nat" where
  "service_element_fields e = (unat (le32 e), unat (e ! 4))"

section \<open>Lengths of commands\<close>

text \<open>The lengths of \<open>DTVCCCmdMap\<close>.\<close>

definition cmd_lengths :: "nat list" where
  "cmd_lengths = replicate 16 1 @ replicate 8 2 @ replicate 8 3 @ replicate 8 1 @ replicate 6 2 @ [1, 1]
     @ [3, 4, 3, 1, 1, 1, 1, 5] @ replicate 8 7"

definition cmd_index :: "u8 \<Rightarrow> nat" where
  "cmd_index b = unat (drop_bit 2 (b AND 0x80) OR (b AND 0x1f))"

definition is_cmd :: "u8 \<Rightarrow> bool" where
  "is_cmd b \<longleftrightarrow> b < 0x20 \<or> (0x7f < b \<and> b < 0xa0)"

text \<open>The extension code at position \<open>i\<close> of a buffer, with \<open>avail\<close> bytes left.\<close>

definition DtvCC_GetEXT1CmdLen :: "u8 list \<Rightarrow> nat \<Rightarrow> nat \<Rightarrow> nat" where
  "DtvCC_GetEXT1CmdLen buf i avail =
     (let b = buf ! (i + 1)
      in if b \<le> 0x07 then 2 else if b \<le> 0x0f then 3 else if b \<le> 0x17 then 4 else if b \<le> 0x1F then 5
         else if 0x80 \<le> b \<and> b \<le> 0x87 then 6 else if 0x88 \<le> b \<and> b \<le> 0x8f then 7
         else if b AND 0xf0 = 0x90 then (if avail \<ge> 3 then unat (buf ! (i + 2) AND 0x3f) + 3 else avail + 1)
         else 2)"

definition cmd_len :: "u8 list \<Rightarrow> nat \<Rightarrow> nat \<Rightarrow> nat" where
  "cmd_len buf i len =
     (if buf ! i = C0_EXT1 then DtvCC_GetEXT1CmdLen buf i (len - i) else cmd_lengths ! cmd_index (buf ! i))"

lemma cmd_index_table: "list_all (\<lambda>n. cmd_index (word_of_nat n) < 64) [0..<256]"
  by code_simp

lemma cmd_index_less: "cmd_index b < 64"
proof -
  have "\<forall>n < 256. cmd_index (word_of_nat n) < 64" using cmd_index_table by (simp add: list_all_length)
  then show ?thesis using unsigned_less [of b] by (auto dest: spec [of _ "unat b"])
qed

lemma cmd_lengths_pos: "i < 64 \<Longrightarrow> 0 < cmd_lengths ! i"
proof -
  have "list_all (\<lambda>n. 0 < n) cmd_lengths" "length cmd_lengths = 64"
    by (simp_all add: cmd_lengths_def list_all_iff)
  then show "i < 64 \<Longrightarrow> 0 < cmd_lengths ! i" by (simp add: list_all_length)
qed

lemma cmd_len_pos [simp]: "0 < cmd_len buf i len"
  using cmd_lengths_pos [OF cmd_index_less] by (simp add: cmd_len_def DtvCC_GetEXT1CmdLen_def Let_def)

section \<open>Service layer\<close>

text \<open>The loop of \<open>_DtvCC_DetectRstDcCmd\<close>: the position of the first complete reset or delay-cancel command
  and that command; the end and \<open>C0_NUL\<close> when there is none.\<close>

function detect_loop :: "u8 list \<Rightarrow> nat \<Rightarrow> nat \<Rightarrow> nat \<times> u8" where
  "detect_loop buf len i =
     (if i < len
      then let b = buf ! i
           in if is_cmd b
              then let l = cmd_len buf i len
                   in if l > len - i then (i, C0_NUL)
                      else if b = C1_DLC then (i, C1_DLC)
                      else if b = C1_RST then (i, C1_RST)
                      else detect_loop buf len (i + l)
              else detect_loop buf len (i + 1)
      else (i, C0_NUL))"
  by pat_completeness auto
termination by (relation "measure (\<lambda>(buf, len, i). len - i)") (auto intro: diff_less_mono2)

declare detect_loop.simps [simp del]

definition DtvCC_DetectRstDcCmd :: "u8 list \<Rightarrow> nat \<Rightarrow> nat \<times> u8" where
  "DtvCC_DetectRstDcCmd buf len = (if len = 0 then (0, C0_NUL) else detect_loop buf len 0)"

definition DtvCC_DelayTimerStop :: "cc708_object \<Rightarrow> cc708_object" where
  "DtvCC_DelayTimerStop s = s\<lparr>cctimer := fst (CCTimer_Stop (cctimer s) CCTIMER_ID_708DELAY)\<rparr>"

definition CC708_OSD_Reset :: "cc708_object \<Rightarrow> cc708_object" where
  "CC708_OSD_Reset s = s\<lparr>osd := osd s @ [OSD_Reset], service := slot_flush (service s)\<rparr>"

definition CC708_DEC_Reset :: "cc708_object \<Rightarrow> cc708_object" where
  "CC708_DEC_Reset s = s\<lparr>stCMDBuffer := cmd_buffer_zero, stPacket := packet_zero, stServiceBlock := service_block_zero,
     u8IsDelay := False\<rparr>"

text \<open>The buffer of the call is always the data of the service block; a reset command moves it.\<close>

definition put_detect :: "cc708_object \<Rightarrow> nat \<Rightarrow> cc708_object \<times> nat" where
  "put_detect s len =
     (let buf = sb_Data (stServiceBlock s);
          (pos, cmd) = DtvCC_DetectRstDcCmd buf len
      in if cmd = C1_RST
         then let s = DtvCC_DelayTimerStop (s\<lparr>u8IsDelay := False\<rparr>);
                  len = len - (pos + 1);
                  s = (if len > 0
                       then s\<lparr>stServiceBlock := (stServiceBlock s)\<lparr>sb_Data := mem_write buf 0 (mem_read buf (pos + 1) len)\<rparr>\<rparr>
                       else s)
              in (CC708_OSD_Reset s, len)
         else if cmd = C1_DLC then (DtvCC_DelayTimerStop (s\<lparr>u8IsDelay := False\<rparr>), len)
         else (s, len))"

definition put_queue :: "cc708_object \<Rightarrow> nat \<Rightarrow> cc708_object" where
  "put_queue s len =
     (if len > 0
      then let (sv, ok) = slot_put service_element (service s) len (take len (sb_Data (stServiceBlock s)));
               s = s\<lparr>service := sv\<rparr>
           in if ok then s else DtvCC_DelayTimerStop (s\<lparr>u8IsDelay := False\<rparr>)
      else s)"

definition DtvCC_PutServiceDataToFIFO :: "cc708_object \<Rightarrow> nat \<Rightarrow> cc708_object" where
  "DtvCC_PutServiceDataToFIFO s len = (let (s, len) = put_detect s len in put_queue s len)"

text \<open>The length of the longest prefix that ends with a whole command or character.\<close>

function integrality_loop :: "u8 list \<Rightarrow> nat \<Rightarrow> nat \<Rightarrow> nat" where
  "integrality_loop buf len i =
     (if i < len
      then if is_cmd (buf ! i)
           then let l = cmd_len buf i len in if l > len - i then i else integrality_loop buf len (i + l)
           else integrality_loop buf len (i + 1)
      else i)"
  by pat_completeness auto
termination by (relation "measure (\<lambda>(buf, len, i). len - i)") (auto intro: diff_less_mono2)

declare integrality_loop.simps [simp del]

definition DtvCC_CheckSvcBlockDataIntegrality :: "u8 list \<Rightarrow> nat \<Rightarrow> nat" where
  "DtvCC_CheckSvcBlockDataIntegrality buf len = integrality_loop buf len 0"

section \<open>Packet layer\<close>

text \<open>Reading into a service block: the branch for the selected service and the branch that skips.\<close>

definition block_zero_keep :: "dtvcc_service_block \<Rightarrow> dtvcc_service_block" where
  "block_zero_keep b = b\<lparr>sb_CurSize := 0, sb_ServiceSize := 0, sb_ServiceNo := 0\<rparr>"

definition take_part :: "cc708_object \<Rightarrow> u8 list \<Rightarrow> cc708_object" where
  "take_part s part =
     (let b = stServiceBlock s;
          b = b\<lparr>sb_Data := mem_write (sb_Data b) (sb_CurSize b) part, sb_CurSize := sb_CurSize b + length part\<rparr>;
          s = s\<lparr>stServiceBlock := b\<rparr>
      in if DtvCC_CheckSvcBlockDataIntegrality (sb_Data b) (sb_CurSize b) \<noteq> sb_CurSize b then s
         else let s = DtvCC_PutServiceDataToFIFO s (sb_CurSize b); b = stServiceBlock s
              in s\<lparr>stServiceBlock := b\<lparr>sb_ServiceSize := sb_ServiceSize b - sb_CurSize b, sb_CurSize := 0\<rparr>\<rparr>)"

definition take_rest :: "cc708_object \<Rightarrow> u8 list \<Rightarrow> cc708_object" where
  "take_rest s part =
     (let b = stServiceBlock s;
          b = b\<lparr>sb_Data := mem_write (sb_Data b) (sb_CurSize b) part\<rparr>;
          s = DtvCC_PutServiceDataToFIFO (s\<lparr>stServiceBlock := b\<rparr>) (sb_ServiceSize b)
      in s\<lparr>stServiceBlock := block_zero_keep (stServiceBlock s), bServiceBlockEnded := True\<rparr>)"

text \<open>\<open>buf\<close> is \<open>au8PacketData\<close>; the packet data starts at index 1. The header of a service block: the second
  byte of an extended header is read without looking at the length. \<open>Inl\<close> leaves the loop.\<close>

definition block_header :: "cc708_object \<Rightarrow> u8 list \<Rightarrow> nat \<Rightarrow> (cc708_object + cc708_object \<times> nat) option" where
  "block_header s buf i =
     (let size = unat (buf ! (i + 1) AND 0x1f);
          no = unat (drop_bit 5 (buf ! (i + 1)) AND 0x07);
          ext = (no = 7 \<and> size \<noteq> 0)
      in if ext \<and> length buf \<le> i + 2 then None
         else let no = (if ext then unat (buf ! (i + 2) AND 0x3f) else no); hdr = (if ext then 2 else 1)
              in if no = 0 \<or> size = 0 then Some (Inr (s, i + hdr))
                 else if sb_CurSize (stServiceBlock s) + hdr + size > pk_TotalSize (stPacket s)
                 then Some (Inl (CC708_DEC_Reset s))
                 else Some (Inr (s\<lparr>stServiceBlock := (stServiceBlock s)\<lparr>sb_ServiceSize := size, sb_ServiceNo := no,
                        sb_CurSize := 0\<rparr>, bServiceBlockEnded := False\<rparr>, i + hdr)))"

text \<open>The data of a service block.\<close>

definition block_data :: "cc708_object \<Rightarrow> u8 list \<Rightarrow> nat \<Rightarrow> nat \<Rightarrow> cc708_object \<times> nat" where
  "block_data s buf len i =
     (let b = stServiceBlock s; need = sb_ServiceSize b - sb_CurSize b
      in if sb_ServiceNo b = u32ServiceType s \<and> u8IsStart s
         then if need > len - i then (take_part s (mem_read buf (i + 1) (len - i)), i + len)
              else (take_rest s (mem_read buf (i + 1) need), i + need)
         else if need > len - i then (s\<lparr>stServiceBlock := b\<lparr>sb_CurSize := sb_CurSize b + (len - i)\<rparr>\<rparr>, len)
              else (s\<lparr>stServiceBlock := block_zero_keep b, bServiceBlockEnded := True\<rparr>, i + need))"

definition packet_step :: "cc708_object \<Rightarrow> u8 list \<Rightarrow> nat \<Rightarrow> nat \<Rightarrow> (cc708_object + cc708_object \<times> nat) option" where
  "packet_step s buf len i = (if bServiceBlockEnded s then block_header s buf i else Some (Inr (block_data s buf len i)))"

text \<open>Every round moves forward, or ends a block.\<close>

lemma block_data_progress:
  "i < len \<Longrightarrow> block_data s buf len i = (s', j) \<Longrightarrow> i < j \<or> (j = i \<and> bServiceBlockEnded s')"
  by (auto simp: block_data_def take_rest_def Let_def split: if_splits)

lemma packet_step_progress:
  assumes "i < len" "packet_step s buf len i = Some (Inr (s', j))"
  shows "len - j < len - i \<or> (j = i \<and> \<not> bServiceBlockEnded s \<and> bServiceBlockEnded s')"
proof (cases "bServiceBlockEnded s")
  case True
  then have "i < j" using assms(2) by (auto simp: packet_step_def block_header_def Let_def split: if_splits)
  then show ?thesis using assms(1) by (simp add: diff_less_mono2)
next
  case False
  then show ?thesis using assms block_data_progress [of i len s buf s' j] by (auto simp: packet_step_def intro: diff_less_mono2)
qed

function packet_loop :: "cc708_object \<Rightarrow> u8 list \<Rightarrow> nat \<Rightarrow> nat \<Rightarrow> cc708_object option" where
  "packet_loop s buf len i =
     (if i < len
      then case packet_step s buf len i of None \<Rightarrow> None
           | Some (Inl s) \<Rightarrow> Some s
           | Some (Inr (s, i)) \<Rightarrow> packet_loop s buf len i
      else Some s)"
  by pat_completeness auto
termination
  by (relation "measures [\<lambda>(s, buf, len, i). len - i, \<lambda>(s, buf, len, i). if bServiceBlockEnded s then 0 else 1]")
    (auto, (drule (1) packet_step_progress, auto)+)

declare packet_loop.simps [simp del]

definition DtvCC_ParsePacketData :: "cc708_object \<Rightarrow> u8 list \<Rightarrow> nat \<Rightarrow> cc708_object option" where
  "DtvCC_ParsePacketData s buf len = (if len = 0 then Some s else packet_loop s buf len 0)"

definition DtvCC_ParsePacket :: "cc708_object \<Rightarrow> u8 list \<Rightarrow> nat \<Rightarrow> cc708_object option" where
  "DtvCC_ParsePacket s buf len = (if len = 0 then Some s else DtvCC_ParsePacketData s buf (len - 1))"

definition DtvCC_EndPacket :: "cc708_object \<Rightarrow> cc708_object option" where
  "DtvCC_EndPacket s =
     (case DtvCC_ParsePacket s (pk_Data (stPacket s)) (pk_CurSize (stPacket s)) of None \<Rightarrow> None
      | Some s \<Rightarrow> let p = stPacket s
                  in Some (if pk_CurSize p = pk_TotalSize p
                           then s\<lparr>stPacket := packet_zero, stServiceBlock := service_block_zero\<rparr>
                           else s\<lparr>stPacket := p\<lparr>pk_TotalSize := (pk_TotalSize p + 256 - pk_CurSize p) mod 256, pk_CurSize := 0\<rparr>\<rparr>))"

definition DtvCC_CheckPacketSequenceNo :: "cc708_object \<Rightarrow> cc708_object" where
  "DtvCC_CheckPacketSequenceNo s =
     (let n = int (pk_SeqenceNo (stPacket s))
      in if s32LastSeqenceNo s = INVALID_SERVICE_NUM then s\<lparr>s32LastSeqenceNo := n\<rparr>
         else if n \<noteq> (s32LastSeqenceNo s + 1) mod 256 mod 4
         then let s = s\<lparr>s32LastSeqenceNo := INVALID_SERVICE_NUM\<rparr> in if u8IsStart s then CC708_OSD_Reset s else s
         else s\<lparr>s32LastSeqenceNo := n\<rparr>)"

section \<open>Caption constructs\<close>

definition rd :: "u8 list \<Rightarrow> nat \<Rightarrow> u8 option" where
  "rd buf i = (if i < length buf then Some (buf ! i) else None)"

definition u8_inc :: "nat \<Rightarrow> nat \<Rightarrow> nat" where
  "u8_inc a b = (a + b) mod 256"

definition packet_push :: "u8 \<Rightarrow> cc708_object \<Rightarrow> cc708_object" where
  "packet_push b s =
     (let p = stPacket s
      in s\<lparr>stPacket := p\<lparr>pk_Data := (pk_Data p)[pk_CurSize p := b], pk_CurSize := pk_CurSize p + 1\<rparr>\<rparr>)"

definition end_if_full :: "cc708_object \<Rightarrow> cc708_object option" where
  "end_if_full s =
     (let p = stPacket s in if pk_CurSize p > 0 \<and> pk_CurSize p = pk_TotalSize p then DtvCC_EndPacket s else Some s)"

text \<open>The header byte of a packet.\<close>

definition packet_open :: "u8 \<Rightarrow> cc708_object \<Rightarrow> cc708_object" where
  "packet_open b0 s =
     (let s = s\<lparr>stPacket := (stPacket s)\<lparr>pk_SeqenceNo := unat (drop_bit 6 (b0 AND 0xC0))\<rparr>\<rparr>;
          n = unat (b0 AND 0x3f);
          s = DtvCC_CheckPacketSequenceNo s
      in s\<lparr>stPacket := (stPacket s)\<lparr>pk_TotalSize := (if n = 0 then 128 else n * 2)\<rparr>\<rparr>)"

definition packet_begin :: "cc708_object \<Rightarrow> cc708_object" where
  "packet_begin s = s\<lparr>stPacket := (stPacket s)\<lparr>pk_Start := True\<rparr>\<rparr>"

text \<open>The branch of the start flag at position \<open>i\<close> (behind the flag); \<open>Inl\<close> is the return with \<open>MT_FAILURE\<close>.\<close>

definition packet_start :: "cc708_object \<Rightarrow> u8 list \<Rightarrow> nat \<Rightarrow> nat \<Rightarrow> (cc708_object + cc708_object \<times> nat) option" where
  "packet_start s buf len i =
     (case (if pk_CurSize (stPacket s) > 0 then DtvCC_EndPacket s else Some s) of None \<Rightarrow> None
      | Some s \<Rightarrow>
        (case rd buf i of None \<Rightarrow> None
         | Some b0 \<Rightarrow>
           let s = packet_open b0 s
           in if pk_CurSize (stPacket s) + 2 > MAX_DTVCC_PACKET_LEN \<or> i + 1 \<ge> len then Some (Inl s)
              else (case rd buf (i + 1) of None \<Rightarrow> None
                    | Some b1 \<Rightarrow>
                      (case end_if_full (packet_begin (packet_push b1 (packet_push b0 s))) of None \<Rightarrow> None
                       | Some s \<Rightarrow> Some (Inr (s, u8_inc i 2))))))"

text \<open>The inner loop of the data flag.\<close>

fun packet_data :: "nat \<Rightarrow> cc708_object \<Rightarrow> u8 list \<Rightarrow> nat \<Rightarrow> (cc708_object \<times> nat) option" where
  "packet_data 0 s buf i = Some (s, i)"
| "packet_data (Suc k) s buf i =
     (if pk_CurSize (stPacket s) < pk_TotalSize (stPacket s)
      then case rd buf i of None \<Rightarrow> None
           | Some b \<Rightarrow>
             let s = packet_push b s; p = stPacket s
             in if pk_CurSize p > 0 \<and> pk_CurSize p = pk_TotalSize p
                then (case DtvCC_EndPacket s of None \<Rightarrow> None | Some s \<Rightarrow> Some (s, u8_inc i 1))
                else packet_data k s buf (u8_inc i 1)
      else Some (s, i))"

definition pic_step :: "cc708_object \<Rightarrow> u8 list \<Rightarrow> nat \<Rightarrow> nat \<Rightarrow> (cc708_object + cc708_object \<times> nat) option" where
  "pic_step s buf len i =
     (case rd buf i of None \<Rightarrow> None
      | Some flag \<Rightarrow>
        let i = u8_inc i 1
        in if flag = PACKET_START_FLAG then packet_start s buf len i
           else if flag = PACKET_DATA_FLAG
           then if pk_Start (stPacket s) then map_option Inr (packet_data 2 s buf i) else Some (Inr (s, i))
           else if flag = PACKET_END_FLAG1 \<or> flag = PACKET_END_FLAG2
           then let p = stPacket s
                in if pk_CurSize p > 0 \<and> pk_CurSize p \<ge> pk_TotalSize p
                   then map_option (\<lambda>s. Inr (s, i)) (DtvCC_EndPacket s) else Some (Inr (s, i))
           else Some (Inr (s, u8_inc i 2)))"

text \<open>The loop over the constructs, which need not end for 254 bytes or more because the offset wraps. The
  line 21 bytes of the constructs are skipped (the code that collects them is disabled by the
  preprocessor, so \<open>u8NtscCounter\<close> is 0 and \<open>_DtvCC_ParsePicUsrData_608\<close> does nothing).\<close>

partial_function (option) pic_loop :: "cc708_object \<Rightarrow> u8 list \<Rightarrow> nat \<Rightarrow> nat \<Rightarrow> (cc708_object \<times> mt_ret) option" where
  "pic_loop s buf len i =
     (if i < len
      then Option.bind (pic_step s buf len i)
             (\<lambda>r. case r of Inl s \<Rightarrow> Some (s, MT_FAILURE) | Inr (s, i) \<Rightarrow> pic_loop s buf len i)
      else Some (s, MT_SUCCESS))"

definition DtvCC_ParsePicUsrData :: "cc708_object \<Rightarrow> u8 list \<Rightarrow> nat \<Rightarrow> (cc708_object \<times> mt_ret) option" where
  "DtvCC_ParsePicUsrData s buf len = (if len = 0 then Some (s, MT_FAILURE) else pic_loop s buf len 0)"


section \<open>Invariant\<close>

lemma service_element_roundtrip:
  assumes "n < U32_RANGE" "len \<le> 32"
  shows "service_element_fields (service_element n len) = (n, len)"
proof -
  have l: "le32 (service_element n len) = le32 (le32_bytes (word_of_nat n))"
    by (simp add: le32_def service_element_def nth_append le32_bytes_def Let_def)
  have "unat (word_of_nat n :: u32) = n" "unat (word_of_nat len :: u8) = len"
    using assms by (simp_all only: unsigned_of_nat) (simp_all add: take_bit_nat_eq_self)
  then show ?thesis unfolding service_element_fields_def l
    by (simp add: service_element_def nth_append)
qed

interpretation svc: slot_queue service_element service_element_fields "\<lambda>n. n" "\<lambda>n. n \<le> 32" 8 32
  by unfold_locales (simp_all add: service_element_roundtrip, simp add: service_element_def)

abbreviation svc_inv :: "slot_state \<Rightarrow> bool" where
  "svc_inv \<equiv> slot_inv service_element_fields (\<lambda>n. n \<le> 32) 8 32"

definition svc_items :: "slot_state \<Rightarrow> u8 list list" where
  "svc_items s = map snd (slot_items service_element_fields (\<lambda>n. n) s)"

text \<open>The sizes stay inside the arrays: 128 bytes of packet data, 32 bytes of block data, 32 bytes per row.\<close>

definition packet_ok :: "dtvcc_packet \<Rightarrow> bool" where
  "packet_ok p \<longleftrightarrow> length (pk_Data p) = 128 \<and> pk_CurSize p \<le> pk_TotalSize p \<and> pk_TotalSize p \<le> 128"

definition block_ok :: "dtvcc_service_block \<Rightarrow> bool" where
  "block_ok b \<longleftrightarrow> length (sb_Data b) = 32 \<and> sb_CurSize b \<le> sb_ServiceSize b \<and> sb_ServiceSize b \<le> 31"

definition dtv_inv :: "cc708_object \<Rightarrow> bool" where
  "dtv_inv s \<longleftrightarrow> packet_ok (stPacket s) \<and> block_ok (stServiceBlock s) \<and> svc_inv (service s)"

lemma zero_ok [simp]: "packet_ok packet_zero" "block_ok service_block_zero"
  by (simp_all add: packet_ok_def packet_zero_def block_ok_def service_block_zero_def)

lemma detect_pos:
  assumes "detect_loop buf len i = (p, cmd)" "cmd \<noteq> C0_NUL"
  shows "p < len"
  using assms
proof (induction buf len i rule: detect_loop.induct)
  case (1 buf len i)
  note step = 1(3) [unfolded detect_loop.simps [of buf len i] Let_def]
  consider (out) "\<not> i < len" | (chr) "i < len" "\<not> is_cmd (buf ! i)"
    | (stop) "i < len" "is_cmd (buf ! i)" "cmd_len buf i len > len - i \<or> buf ! i = C1_DLC \<or> buf ! i = C1_RST"
    | (more) "i < len" "is_cmd (buf ! i)" "\<not> cmd_len buf i len > len - i" "buf ! i \<noteq> C1_DLC" "buf ! i \<noteq> C1_RST"
    by blast
  then show ?case
  proof cases
    case out then show ?thesis using step 1(4) by simp
  next
    case chr then show ?thesis using step 1(2) [OF _ refl] 1(4) by simp
  next
    case stop then show ?thesis using step 1(4) by (auto split: if_splits)
  next
    case more then show ?thesis using step 1(1) [OF _ refl _ refl] 1(4) by simp
  qed
qed

lemma slot_put_inv:
  assumes "svc_inv sv" "len \<le> 32" "length data = len" "slot_put service_element sv len data = (sv', ok)"
  shows "svc_inv sv'"
proof (cases "CCQueue_IsFull (fst sv)")
  case True
  then show ?thesis using svc.put_full [OF assms(1) True assms(4)] assms(2,3) by blast
next
  case False
  then show ?thesis using svc.put_accepted [OF assms(1) False assms(4) assms(2) assms(3) [symmetric]] by blast
qed

text \<open>What putting service data leaves alone.\<close>

definition same_frame :: "cc708_object \<Rightarrow> cc708_object \<Rightarrow> bool" where
  "same_frame s s' \<longleftrightarrow> stPacket s' = stPacket s \<and> bServiceBlockEnded s' = bServiceBlockEnded s
     \<and> u32ServiceType s' = u32ServiceType s \<and> u8IsStart s' = u8IsStart s \<and> s32LastSeqenceNo s' = s32LastSeqenceNo s
     \<and> stCMDBuffer s' = stCMDBuffer s \<and> sb_ServiceNo (stServiceBlock s') = sb_ServiceNo (stServiceBlock s)
     \<and> sb_ServiceSize (stServiceBlock s') = sb_ServiceSize (stServiceBlock s)
     \<and> sb_CurSize (stServiceBlock s') = sb_CurSize (stServiceBlock s)"

lemma same_frame_trans: "same_frame s t \<Longrightarrow> same_frame t u \<Longrightarrow> same_frame s u"
  by (simp add: same_frame_def)

lemma put_detect_frame: "same_frame s (fst (put_detect s len))"
  by (simp add: same_frame_def put_detect_def CC708_OSD_Reset_def DtvCC_DelayTimerStop_def Let_def split: prod.split)

lemma put_queue_frame: "same_frame s (put_queue s len)"
  by (simp add: same_frame_def put_queue_def DtvCC_DelayTimerStop_def Let_def split: prod.split)

lemma put_service_frame: "same_frame s (DtvCC_PutServiceDataToFIFO s len)"
  using same_frame_trans [OF put_detect_frame [of s len] put_queue_frame]
  by (simp add: DtvCC_PutServiceDataToFIFO_def split: prod.split) (metis fst_conv)

lemma put_detect_inv:
  assumes "dtv_inv s" "len \<le> 31" "put_detect s len = (s', len')"
  shows "dtv_inv s' \<and> len' \<le> 31"
proof -
  define buf where "buf = sb_Data (stServiceBlock s)"
  obtain pos cmd where d: "DtvCC_DetectRstDcCmd buf len = (pos, cmd)" by (cases "DtvCC_DetectRstDcCmd buf len")
  have b: "length buf = 32" "svc_inv (slot_flush (service s))"
    using assms(1) svc.flush_empty(1) by (simp_all add: dtv_inv_def block_ok_def buf_def)
  have pos: "pos < len" if "cmd = C1_RST"
    using d that detect_pos [of buf len 0 pos cmd] by (auto simp: DtvCC_DetectRstDcCmd_def split: if_splits)
  have mv: "length (mem_write buf 0 (mem_read buf (pos + 1) (len - (pos + 1)))) = 32" if "cmd = C1_RST"
    using pos [OF that] assms(2) b(1) by (simp add: length_mem_write length_mem_read)
  show ?thesis
  proof (cases "cmd = C1_RST")
    case True
    then show ?thesis
      using d b mv assms
      by (auto simp: put_detect_def buf_def [symmetric] dtv_inv_def block_ok_def CC708_OSD_Reset_def DtvCC_DelayTimerStop_def Let_def)
  next
    case False
    then show ?thesis
      using d assms by (auto simp: put_detect_def buf_def [symmetric] dtv_inv_def DtvCC_DelayTimerStop_def Let_def split: if_splits)
  qed
qed

lemma put_queue_inv:
  assumes "dtv_inv s" "len \<le> 31"
  shows "dtv_inv (put_queue s len)"
proof -
  obtain sv ok where p: "slot_put service_element (service s) len (take len (sb_Data (stServiceBlock s))) = (sv, ok)"
    by (cases "slot_put service_element (service s) len (take len (sb_Data (stServiceBlock s)))")
  have "svc_inv sv" using slot_put_inv [OF _ _ _ p] assms by (simp add: dtv_inv_def block_ok_def)
  then show ?thesis using assms(1) p by (simp add: put_queue_def dtv_inv_def DtvCC_DelayTimerStop_def Let_def)
qed

lemma put_service_inv:
  assumes "dtv_inv s" "len \<le> 31"
  shows "dtv_inv (DtvCC_PutServiceDataToFIFO s len)"
  using put_detect_inv [OF assms] put_queue_inv
  by (simp add: DtvCC_PutServiceDataToFIFO_def split: prod.split)

text \<open>Every step of the packet layer keeps the sizes in range, for any bytes.\<close>

lemma take_part_inv:
  assumes "dtv_inv s" "length part < sb_ServiceSize (stServiceBlock s) - sb_CurSize (stServiceBlock s)"
  shows "dtv_inv (take_part s part)"
proof -
  define b where "b = (stServiceBlock s)\<lparr>sb_Data := mem_write (sb_Data (stServiceBlock s)) (sb_CurSize (stServiceBlock s)) part,
    sb_CurSize := sb_CurSize (stServiceBlock s) + length part\<rparr>"
  have b: "block_ok b" "sb_CurSize b \<le> 31"
    using assms by (auto simp: b_def dtv_inv_def block_ok_def length_mem_write)
  then have i: "dtv_inv (s\<lparr>stServiceBlock := b\<rparr>)" using assms(1) by (simp add: dtv_inv_def)
  define t where "t = DtvCC_PutServiceDataToFIFO (s\<lparr>stServiceBlock := b\<rparr>) (sb_CurSize b)"
  have t: "dtv_inv t" "same_frame (s\<lparr>stServiceBlock := b\<rparr>) t"
    using put_service_inv [OF i b(2)] put_service_frame unfolding t_def by blast+
  have "take_part s part = (if DtvCC_CheckSvcBlockDataIntegrality (sb_Data b) (sb_CurSize b) \<noteq> sb_CurSize b then s\<lparr>stServiceBlock := b\<rparr>
    else t\<lparr>stServiceBlock := (stServiceBlock t)\<lparr>sb_ServiceSize := sb_ServiceSize (stServiceBlock t) - sb_CurSize (stServiceBlock t),
      sb_CurSize := 0\<rparr>\<rparr>)"
    unfolding take_part_def b_def [symmetric] Let_def t_def ..
  then show ?thesis using i t by (auto simp: dtv_inv_def block_ok_def)
qed

lemma take_rest_inv:
  assumes "dtv_inv s" "length part = sb_ServiceSize (stServiceBlock s) - sb_CurSize (stServiceBlock s)"
  shows "dtv_inv (take_rest s part)"
proof -
  define b where "b = (stServiceBlock s)\<lparr>sb_Data := mem_write (sb_Data (stServiceBlock s)) (sb_CurSize (stServiceBlock s)) part\<rparr>"
  have b: "block_ok b" "sb_ServiceSize b \<le> 31"
    using assms by (auto simp: b_def dtv_inv_def block_ok_def length_mem_write)
  then have "dtv_inv (s\<lparr>stServiceBlock := b\<rparr>)" using assms(1) by (simp add: dtv_inv_def)
  then have "dtv_inv (DtvCC_PutServiceDataToFIFO (s\<lparr>stServiceBlock := b\<rparr>) (sb_ServiceSize b))"
    using b(2) by (rule put_service_inv)
  then show ?thesis
    unfolding take_rest_def b_def [symmetric] Let_def by (simp add: dtv_inv_def block_ok_def block_zero_keep_def)
qed

lemma reset_inv: "dtv_inv s \<Longrightarrow> dtv_inv (CC708_DEC_Reset s)"
  by (simp add: dtv_inv_def CC708_DEC_Reset_def)

lemma size_bound: "unat ((b :: u8) AND 0x1f) \<le> 31" "unat ((b :: u8) AND 0x3f) \<le> 63"
  using word_and_le1 [of b "0x1f"] word_and_le1 [of b "0x3f"] by (simp_all add: word_le_nat_alt)

lemma take_rest_packet [simp]: "stPacket (take_rest s part) = stPacket s"
  using put_service_frame unfolding take_rest_def Let_def by (simp add: same_frame_def)

lemma take_part_packet [simp]: "stPacket (take_part s part) = stPacket s"
  using put_service_frame unfolding take_part_def Let_def by (simp add: same_frame_def)

text \<open>The packet is left as it is, or cleared together with everything else.\<close>

lemma block_header_inv:
  assumes "dtv_inv s" "block_header s buf i = Some r"
  shows "case r of Inl s' \<Rightarrow> dtv_inv s' \<and> stPacket s' = packet_zero | Inr (s', j) \<Rightarrow> dtv_inv s' \<and> stPacket s' = stPacket s"
  using assms size_bound(1) [of "buf ! (i + 1)"]
  by (auto simp: block_header_def Let_def dtv_inv_def block_ok_def CC708_DEC_Reset_def service_block_zero_def
      split: if_splits)

lemma block_data_inv:
  assumes "dtv_inv s" "length buf = 128" "len \<le> 127" "i < len" "block_data s buf len i = (s', j)"
  shows "dtv_inv s' \<and> stPacket s' = stPacket s"
proof -
  let ?b = "stServiceBlock s"
  let ?need = "sb_ServiceSize ?b - sb_CurSize ?b"
  consider (part) "sb_ServiceNo ?b = u32ServiceType s \<and> u8IsStart s" "?need > len - i"
    | (rest) "sb_ServiceNo ?b = u32ServiceType s \<and> u8IsStart s" "\<not> ?need > len - i"
    | (skip) "\<not> (sb_ServiceNo ?b = u32ServiceType s \<and> u8IsStart s)" by blast
  then show ?thesis
  proof cases
    case part
    then have "s' = take_part s (mem_read buf (i + 1) (len - i))" using assms(5) by (auto simp: block_data_def Let_def)
    then show ?thesis using take_part_inv [OF assms(1)] part(2) assms(2-4) by (simp add: length_mem_read)
  next
    case rest
    then have "s' = take_rest s (mem_read buf (i + 1) ?need)" using assms(5) by (auto simp: block_data_def Let_def)
    then show ?thesis using take_rest_inv [OF assms(1)] rest(2) assms(2-4) by (simp add: length_mem_read)
  next
    case skip
    then show ?thesis
      using assms by (auto simp: block_data_def Let_def dtv_inv_def block_ok_def block_zero_keep_def split: if_splits)
  qed
qed

lemma packet_loop_inv:
  assumes "dtv_inv s" "length buf = 128" "len \<le> 127" "packet_loop s buf len i = Some s'"
  shows "dtv_inv s' \<and> (stPacket s' = stPacket s \<or> stPacket s' = packet_zero)"
  using assms
proof (induction s buf len i rule: packet_loop.induct)
  case (1 s buf len i)
  note step = 1(5) [unfolded packet_loop.simps [of s buf len i]]
  show ?case
  proof (cases "i < len")
    case True
    then obtain r where r: "packet_step s buf len i = Some r" using step by (auto split: option.splits)
    have "case r of Inl s' \<Rightarrow> dtv_inv s' \<and> stPacket s' = packet_zero | Inr (s', j) \<Rightarrow> dtv_inv s' \<and> stPacket s' = stPacket s"
      using r block_header_inv [OF 1(2), of buf i r] block_data_inv [OF 1(2-4) True]
      by (cases "bServiceBlockEnded s"; cases "block_data s buf len i") (auto simp: packet_step_def)
    then show ?thesis
      using step True r 1(1) [OF True r] 1(3,4) by (auto split: sum.splits)
  next
    case False
    then show ?thesis using step 1(2) by simp
  qed
qed

lemma u8_sub_small: "c \<le> t \<Longrightarrow> t \<le> 128 \<Longrightarrow> (t + 256 - c) mod 256 = t - (c :: nat)"
proof -
  assume a: "c \<le> t" "t \<le> 128"
  then have "t + 256 - c = (t - c) + 256" by simp
  then show ?thesis using a by (simp only: mod_add_self2) simp
qed

lemma end_packet_inv:
  assumes "dtv_inv s" "DtvCC_EndPacket s = Some s'"
  shows "dtv_inv s' \<and> pk_CurSize (stPacket s') = 0"
proof -
  let ?p = "stPacket s"
  obtain t where t: "DtvCC_ParsePacket s (pk_Data ?p) (pk_CurSize ?p) = Some t"
    using assms(2) by (auto simp: DtvCC_EndPacket_def split: option.splits)
  have p: "length (pk_Data ?p) = 128" "pk_CurSize ?p - 1 \<le> 127" using assms(1) by (auto simp: dtv_inv_def packet_ok_def)
  have "dtv_inv t" using t packet_loop_inv [OF assms(1) p] assms(1)
    by (auto simp: DtvCC_ParsePacket_def DtvCC_ParsePacketData_def split: if_splits)
  then show ?thesis
    using assms(2) t by (auto simp: DtvCC_EndPacket_def dtv_inv_def packet_ok_def packet_zero_def u8_sub_small Let_def)
qed

lemma push_inv:
  assumes "dtv_inv s" "pk_CurSize (stPacket s) < pk_TotalSize (stPacket s)"
  shows "dtv_inv (packet_push b s)"
  using assms by (simp add: dtv_inv_def packet_ok_def packet_push_def Let_def)

lemma sequence_inv: "dtv_inv s \<Longrightarrow> dtv_inv (DtvCC_CheckPacketSequenceNo s) \<and> stPacket (DtvCC_CheckPacketSequenceNo s) = stPacket s"
  using svc.flush_empty(1) by (auto simp: DtvCC_CheckPacketSequenceNo_def CC708_OSD_Reset_def dtv_inv_def Let_def)

lemma packet_data_inv:
  "dtv_inv s \<Longrightarrow> packet_data k s buf i = Some (s', j) \<Longrightarrow> dtv_inv s'"
proof (induction k arbitrary: s i)
  case (Suc k)
  show ?case
  proof (cases "pk_CurSize (stPacket s) < pk_TotalSize (stPacket s)")
    case True
    then obtain b where b: "rd buf i = Some b" using Suc.prems(2) by (auto split: option.splits)
    have "dtv_inv (packet_push b s)" using push_inv [OF Suc.prems(1) True] .
    then show ?thesis
      using Suc.prems(2) True b Suc.IH end_packet_inv
      by (auto simp: Let_def split: if_splits option.splits)
  next
    case False
    then show ?thesis using Suc.prems by simp
  qed
qed simp

lemma end_if_full_inv: "dtv_inv s \<Longrightarrow> end_if_full s = Some s' \<Longrightarrow> dtv_inv s'"
  using end_packet_inv by (auto simp: end_if_full_def Let_def split: if_splits)

lemma packet_open_inv:
  assumes "dtv_inv s" "pk_CurSize (stPacket s) = 0"
  shows "dtv_inv (packet_open b0 s)" "pk_CurSize (stPacket (packet_open b0 s)) = 0" "2 \<le> pk_TotalSize (stPacket (packet_open b0 s))"
proof -
  define t where "t = s\<lparr>stPacket := (stPacket s)\<lparr>pk_SeqenceNo := unat (drop_bit 6 (b0 AND 0xC0))\<rparr>\<rparr>"
  have "dtv_inv t" "pk_CurSize (stPacket t) = 0" using assms by (simp_all add: t_def dtv_inv_def packet_ok_def)
  then have "dtv_inv (DtvCC_CheckPacketSequenceNo t)" "pk_CurSize (stPacket (DtvCC_CheckPacketSequenceNo t)) = 0"
    using sequence_inv [of t] by simp_all
  then show "dtv_inv (packet_open b0 s)" "pk_CurSize (stPacket (packet_open b0 s)) = 0" "2 \<le> pk_TotalSize (stPacket (packet_open b0 s))"
    unfolding packet_open_def t_def [symmetric] Let_def
    using size_bound(2) [of b0] by (auto simp: dtv_inv_def packet_ok_def)
qed

lemma begin_inv: "dtv_inv s \<Longrightarrow> dtv_inv (packet_begin s)"
  by (simp add: packet_begin_def dtv_inv_def packet_ok_def)

lemma push_sizes [simp]:
  "pk_CurSize (stPacket (packet_push b s)) = pk_CurSize (stPacket s) + 1"
  "pk_TotalSize (stPacket (packet_push b s)) = pk_TotalSize (stPacket s)"
  by (simp_all add: packet_push_def Let_def)

lemma packet_start_inv:
  assumes "dtv_inv s" "packet_start s buf len i = Some r"
  shows "case r of Inl s' \<Rightarrow> dtv_inv s' | Inr (s', j) \<Rightarrow> dtv_inv s'"
proof -
  obtain t where t: "(if pk_CurSize (stPacket s) > 0 then DtvCC_EndPacket s else Some s) = Some t"
    using assms(2) unfolding packet_start_def by (auto split: option.splits)
  obtain b0 where b0: "rd buf i = Some b0" using assms(2) t unfolding packet_start_def by (auto split: option.splits)
  have ti: "dtv_inv t" "pk_CurSize (stPacket t) = 0" using t assms(1) end_packet_inv by (auto split: if_splits)
  note v = packet_open_inv [OF ti, of b0]
  have "dtv_inv (packet_begin (packet_push b1 (packet_push b0 (packet_open b0 t))))" for b1
    using begin_inv push_inv [of "packet_push b0 (packet_open b0 t)" b1] push_inv [OF v(1), of b0] v(2,3) by simp
  then have "dtv_inv x" if "end_if_full (packet_begin (packet_push b1 (packet_push b0 (packet_open b0 t)))) = Some x" for b1 x
    using end_if_full_inv that by blast
  then show ?thesis
    using assms(2) t b0 v(1)
    by (auto simp: packet_start_def Let_def split: option.splits if_splits)
qed

lemma pic_step_inv:
  assumes "dtv_inv s" "pic_step s buf len i = Some r"
  shows "case r of Inl s' \<Rightarrow> dtv_inv s' | Inr (s', j) \<Rightarrow> dtv_inv s'"
  using assms packet_start_inv [OF assms(1)] packet_data_inv [OF assms(1)] end_packet_inv [OF assms(1)]
  by (auto simp: pic_step_def Let_def split: option.splits if_splits)

lemma pic_loop_inv:
  assumes "pic_loop s buf len i = Some r"
  shows "dtv_inv s \<longrightarrow> dtv_inv (fst r)"
proof (rule pic_loop.raw_induct [where P = "\<lambda>s buf len i r. dtv_inv s \<longrightarrow> dtv_inv (fst r)", OF _ assms], goal_cases)
  case (1 loop s buf len i r)
  show ?case
  proof (cases "i < len")
    case True
    then obtain x where x: "pic_step s buf len i = Some x" using 1(2) by (auto split: bind_splits)
    then show ?thesis using pic_step_inv [of s buf len i x] 1 True by (auto split: sum.splits prod.splits)
  next
    case False
    then show ?thesis using 1(2) by auto
  qed
qed

section \<open>The parser returns\<close>















section \<open>Delivery of a packet\<close>

text \<open>Between packets: nothing collected, no service block open.\<close>

definition dtv_idle :: "cc708_object \<Rightarrow> bool" where
  "dtv_idle s \<longleftrightarrow> dtv_inv s \<and> pk_CurSize (stPacket s) = 0 \<and> bServiceBlockEnded s
     \<and> sb_ServiceNo (stServiceBlock s) = 0 \<and> sb_ServiceSize (stServiceBlock s) = 0 \<and> sb_CurSize (stServiceBlock s) = 0"

text \<open>The state after some service data went into the queue and nothing else happened.\<close>

definition queued :: "u8 list list \<Rightarrow> cc708_object \<Rightarrow> cc708_object \<Rightarrow> bool" where
  "queued dss s s' \<longleftrightarrow> same_frame s s' \<and> dtv_inv s' \<and> osd s' = osd s \<and> cctimer s' = cctimer s \<and> u8IsDelay s' = u8IsDelay s
     \<and> svc_items (service s') = svc_items (service s) @ dss \<and> Size (fst (service s')) = Size (fst (service s))"

lemma queued_refl: "dtv_inv s \<Longrightarrow> queued [] s s"
  by (simp add: queued_def same_frame_def)

lemma queued_trans: "queued xs s t \<Longrightarrow> queued ys t u \<Longrightarrow> queued (xs @ ys) s u"
  by (simp add: queued_def same_frame_def)

lemma queued_step: "queued [x] s t \<Longrightarrow> queued ys t u \<Longrightarrow> queued (x # ys) s u"
  using queued_trans [of "[x]" s t ys u] by simp

definition plain :: "u8 list \<Rightarrow> bool" where
  "plain ds \<longleftrightarrow> C1_RST \<notin> set ds \<and> C1_DLC \<notin> set ds"

lemma detect_plain:
  assumes "len \<le> length buf" "plain (take len buf)"
  shows "snd (detect_loop buf len i) = C0_NUL"
  using assms
proof (induction buf len i rule: detect_loop.induct)
  case (1 buf len i)
  have n: "buf ! i \<noteq> C1_DLC" "buf ! i \<noteq> C1_RST" if "i < len"
    using 1(3,4) that by (auto simp: plain_def in_set_conv_nth)
  show ?case
    using 1(1) [OF _ refl _ refl] 1(2) [OF _ refl] 1(3,4) n
    by (subst detect_loop.simps) (simp add: Let_def)
qed

lemma length_svc_items: "svc_inv sv \<Longrightarrow> length (svc_items sv) = queue_items (fst sv)"
  by (simp add: svc_items_def slot_items_def slot_inv_def length_queue_contents)

lemma svc_put:
  assumes "svc_inv sv" "Suc (length (svc_items sv)) < Size (fst sv)" "length data \<le> 32"
    and "slot_put service_element sv (length data) data = (sv', ok)"
  shows "ok \<and> svc_items sv' = svc_items sv @ [data] \<and> Size (fst sv') = Size (fst sv)"
proof -
  have "queue_inv (fst sv)" using assms(1) by (simp add: slot_inv_def)
  then have "\<not> CCQueue_IsFull (fst sv)"
    using full_iff_items [of "fst sv"] assms(2) length_svc_items [OF assms(1)] by simp
  note p = svc.put_accepted [OF assms(1) this assms(4) assms(3) refl]
  have "Size (fst sv') = Size (fst sv)"
    using assms(4) by (auto simp: slot_put_def CCQueue_Insert_def Let_def split: prod.splits option.splits if_splits)
  then show ?thesis using p by (simp add: svc_items_def)
qed

text \<open>A complete block of the selected service.\<close>

lemma put_plain:
  assumes "dtv_inv s" "plain (take len (sb_Data (stServiceBlock s)))" "0 < len" "len \<le> 31"
    and "Suc (length (svc_items (service s))) < Size (fst (service s))"
  shows "queued [take len (sb_Data (stServiceBlock s))] s (DtvCC_PutServiceDataToFIFO s len)"
proof -
  let ?buf = "sb_Data (stServiceBlock s)"
  have l: "length (take len ?buf) = len" "len \<le> length ?buf" using assms(1,4) by (auto simp: dtv_inv_def block_ok_def)
  have "snd (DtvCC_DetectRstDcCmd ?buf len) = C0_NUL"
    using detect_plain [OF l(2) assms(2)] assms(3) by (simp add: DtvCC_DetectRstDcCmd_def)
  then have d: "put_detect s len = (s, len)" 
    by (cases "DtvCC_DetectRstDcCmd ?buf len") (simp add: put_detect_def Let_def)
  obtain sv ok where p: "slot_put service_element (service s) len (take len ?buf) = (sv, ok)"
    by (cases "slot_put service_element (service s) len (take len ?buf)")
  have sv: "ok" "svc_items sv = svc_items (service s) @ [take len ?buf]" "Size (fst sv) = Size (fst (service s))"
    using svc_put [of "service s" "take len ?buf" sv ok] p l assms(1,4,5) by (auto simp: dtv_inv_def)
  have e: "DtvCC_PutServiceDataToFIFO s len = s\<lparr>service := sv\<rparr>"
    using p sv(1) assms(3) by (simp add: DtvCC_PutServiceDataToFIFO_def d put_queue_def Let_def)
  show ?thesis
    using sv put_service_inv [OF assms(1,4)] put_service_frame [of s len] unfolding e by (simp add: queued_def)
qed

lemma take_rest_plain:
  assumes "dtv_inv s" "sb_CurSize (stServiceBlock s) = 0" "sb_ServiceSize (stServiceBlock s) = length ds" "ds \<noteq> []" "plain ds"
    and "Suc (length (svc_items (service s))) < Size (fst (service s))"
  shows "queued [ds] (s\<lparr>stServiceBlock := block_zero_keep (stServiceBlock s), bServiceBlockEnded := True\<rparr>) (take_rest s ds)"
proof -
  define b where "b = (stServiceBlock s)\<lparr>sb_Data := mem_write (sb_Data (stServiceBlock s)) 0 ds\<rparr>"
  define t where "t = s\<lparr>stServiceBlock := b\<rparr>"
  have len: "length ds \<le> 31" "length (sb_Data (stServiceBlock s)) = 32" using assms(1,3) by (auto simp: dtv_inv_def block_ok_def)
  have tk: "take (length ds) (sb_Data b) = ds" by (simp add: b_def mem_write_def)
  have ti: "dtv_inv t" using assms(1) len by (simp add: t_def b_def dtv_inv_def block_ok_def length_mem_write)
  have q: "queued [ds] t (DtvCC_PutServiceDataToFIFO t (length ds))"
    using put_plain [OF ti, of "length ds"] assms(4-6) len tk by (simp add: t_def)
  have e: "take_rest s ds = (DtvCC_PutServiceDataToFIFO t (length ds))\<lparr>stServiceBlock :=
      block_zero_keep (stServiceBlock (DtvCC_PutServiceDataToFIFO t (length ds))), bServiceBlockEnded := True\<rparr>"
    using assms(2,3) by (simp add: take_rest_def Let_def t_def b_def)
  show ?thesis
    using q unfolding e by (auto simp: queued_def same_frame_def dtv_inv_def block_ok_def block_zero_keep_def t_def b_def)
qed

text \<open>Packets as CEA-708 defines them: service blocks with a one or two byte header, filled up with null
  blocks. \<open>k\<close> is half the packet length.\<close>

fun block_bytes :: "nat \<times> u8 list \<Rightarrow> u8 list" where
  "block_bytes (no, ds) =
     (if no < 7 then [word_of_nat (32 * no + length ds)] else [word_of_nat (224 + length ds), word_of_nat no]) @ ds"

fun good_block :: "nat \<times> u8 list \<Rightarrow> bool" where
  "good_block (no, ds) \<longleftrightarrow> 0 < no \<and> no < 64 \<and> ds \<noteq> [] \<and> length ds \<le> 31"

definition selected :: "nat \<Rightarrow> (nat \<times> u8 list) list \<Rightarrow> u8 list list" where
  "selected n blocks = map snd (filter (\<lambda>b. fst b = n) blocks)"

lemma byte_fields:
  assumes "n < 256"
  shows "unat ((word_of_nat n :: u8) AND 0x1f) = n mod 32" "unat (drop_bit 5 (word_of_nat n :: u8) AND 0x07) = n div 32"
    "unat ((word_of_nat n :: u8) AND 0x3f) = n mod 64" "unat (drop_bit 6 ((word_of_nat n :: u8) AND 0xC0)) = n div 64"
proof -
  have u: "unat (word_of_nat n :: u8) = n" using assms by (simp only: unsigned_of_nat) (simp add: take_bit_nat_eq_self)
  have m: "(0x1f :: u8) = mask 5" "(0x07 :: u8) = mask 3" "(0x3f :: u8) = mask 6" by (simp_all add: mask_numeral)
  show "unat ((word_of_nat n :: u8) AND 0x1f) = n mod 32" "unat ((word_of_nat n :: u8) AND 0x3f) = n mod 64"
    by (simp_all only: m take_bit_eq_mask [symmetric] unsigned_take_bit_eq u) (simp_all add: take_bit_eq_mod)
  have "n div 32 mod 8 = n div 32" "n div 64 mod 4 = n div 64" using assms by auto
  then show "unat (drop_bit 5 (word_of_nat n :: u8) AND 0x07) = n div 32"
    by (simp only: m take_bit_eq_mask [symmetric] unsigned_take_bit_eq unat_drop_bit_eq u) (simp add: take_bit_eq_mod drop_bit_eq_div)
  have "drop_bit 6 ((word_of_nat n :: u8) AND 0xC0) = take_bit 2 (drop_bit 6 (word_of_nat n :: u8))"
    by (simp add: take_bit_eq_mask mask_numeral)
  then show "unat (drop_bit 6 ((word_of_nat n :: u8) AND 0xC0)) = n div 64"
    using \<open>n div 64 mod 4 = n div 64\<close>
    by (simp only: unsigned_take_bit_eq unat_drop_bit_eq u) (simp add: take_bit_eq_mod drop_bit_eq_div)
qed

text \<open>The packet data from position \<open>i\<close> on.\<close>

definition rest_from :: "u8 list \<Rightarrow> nat \<Rightarrow> nat \<Rightarrow> u8 list" where
  "rest_from buf len i = drop (Suc i) (take (Suc len) buf)"

lemma rest_from_append:
  assumes "rest_from buf len i = xs @ ys" "len < length buf" "i \<le> len"
  shows "i + length xs \<le> len" "mem_read buf (i + 1) (length xs) = xs" "rest_from buf len (i + length xs) = ys"
proof -
  have l: "length (rest_from buf len i) = len - i" using assms(2) by (simp add: rest_from_def)
  then show le: "i + length xs \<le> len" using assms(1,3) by simp
  have "take (length xs) (rest_from buf len i) = xs" using assms(1) by simp
  then show "mem_read buf (i + 1) (length xs) = xs"
    using le by (simp add: rest_from_def mem_read_def take_drop min_def)
  have "drop (length xs) (rest_from buf len i) = ys" using assms(1) by simp
  then show "rest_from buf len (i + length xs) = ys" by (simp add: rest_from_def add.commute)
qed

lemma rest_from_Cons:
  assumes "rest_from buf len i = x # ys" "len < length buf" "i \<le> len"
  shows "i < len" "buf ! (i + 1) = x" "rest_from buf len (Suc i) = ys"
proof -
  note a = rest_from_append [of buf len i "[x]" ys, simplified, OF assms]
  then show "i < len" "rest_from buf len (Suc i) = ys" by simp_all
  then show "buf ! (i + 1) = x" using a(2) assms(2) by (auto simp: mem_read_def take_Suc hd_drop_conv_nth)
qed

lemma packet_loop_nulls:
  assumes "rest_from buf len i = replicate z 0" "len < length buf" "i \<le> len" "bServiceBlockEnded s"
  shows "packet_loop s buf len i = Some s"
  using assms
proof (induction z arbitrary: i)
  case 0
  then have "\<not> i < len" by (simp add: rest_from_def)
  then show ?case by (simp add: packet_loop.simps)
next
  case (Suc z)
  note r = rest_from_Cons [OF Suc.prems(1) [simplified] Suc.prems(2,3)]
  have "packet_step s buf len i = Some (Inr (s, Suc i))"
    using r(2) Suc.prems(4) by (simp add: packet_step_def block_header_def Let_def)
  then show ?case using Suc.IH [OF r(3) Suc.prems(2)] r(1) Suc.prems(4) by (simp add: packet_loop.simps [of s buf len i])
qed

definition open_block :: "nat \<Rightarrow> nat \<Rightarrow> cc708_object \<Rightarrow> cc708_object" where
  "open_block no n s = s\<lparr>stServiceBlock := (stServiceBlock s)\<lparr>sb_ServiceSize := n, sb_ServiceNo := no, sb_CurSize := 0\<rparr>,
     bServiceBlockEnded := False\<rparr>"

lemma header_step:
  assumes "rest_from buf len i = block_bytes (no, ds) @ ys" "len < length buf" "i \<le> len" "good_block (no, ds)"
    and "bServiceBlockEnded s" "sb_CurSize (stServiceBlock s) = 0" "len < pk_TotalSize (stPacket s)"
  shows "\<exists>j. packet_step s buf len i = Some (Inr (open_block no (length ds) s, j)) \<and> i < len \<and> j \<le> len
    \<and> rest_from buf len j = ds @ ys"
proof (cases "no < 7")
  case True
  have r: "rest_from buf len i = word_of_nat (32 * no + length ds) # ds @ ys" using assms(1) True by simp
  note c = rest_from_Cons [OF r assms(2,3)]
  have n: "32 * no + length ds < 256" using True assms(4) by simp
  have f: "(32 * no + length ds) mod 32 = length ds" "(32 * no + length ds) div 32 = no" using assms(4) by simp_all
  have le: "Suc i + length ds \<le> len" using rest_from_append(1) [OF c(3) assms(2)] c(1) by simp
  have "packet_step s buf len i = Some (Inr (open_block no (length ds) s, Suc i))"
    using c(2) byte_fields(1,2) [OF n] f True assms(4-7) le
    by (simp add: packet_step_def block_header_def open_block_def Let_def)
  then show ?thesis using c le by auto
next
  case False
  have r: "rest_from buf len i = word_of_nat (224 + length ds) # word_of_nat no # ds @ ys" using assms(1) False by simp
  note c = rest_from_Cons [OF r assms(2,3)]
  have "Suc i \<le> len" using c(1) by simp
  note c2 = rest_from_Cons [OF c(3) assms(2) this]
  have n: "224 + length ds < 256" "no < 256" using assms(4) by simp_all
  have f: "(224 + length ds) mod 32 = length ds" "(224 + length ds) div 32 = 7"
    using assms(4) by (simp_all add: div_nat_eqI mod_add_eq [symmetric])
  have le: "Suc (Suc i) + length ds \<le> len" using rest_from_append(1) [OF c2(3) assms(2)] c2(1) by simp
  have "packet_step s buf len i = Some (Inr (open_block no (length ds) s, Suc (Suc i)))"
    using c(2) c2(2) byte_fields(1,2) [OF n(1)] byte_fields(3) [OF n(2)] f assms(2,4-7) le
    by (simp add: packet_step_def block_header_def open_block_def Let_def)
  then show ?thesis using c(1) c2 le by auto
qed

definition block_idle :: "cc708_object \<Rightarrow> bool" where
  "block_idle s \<longleftrightarrow> bServiceBlockEnded s \<and> sb_ServiceNo (stServiceBlock s) = 0 \<and> sb_ServiceSize (stServiceBlock s) = 0
     \<and> sb_CurSize (stServiceBlock s) = 0"

lemma queued_idle: "queued xs s t \<Longrightarrow> block_idle s \<Longrightarrow> block_idle t"
  by (simp add: queued_def same_frame_def block_idle_def)

lemma zero_keep_open: "block_idle s \<Longrightarrow>
  (open_block no n s)\<lparr>stServiceBlock := block_zero_keep (stServiceBlock (open_block no n s)), bServiceBlockEnded := True\<rparr> = s"
  by (cases s) (simp add: block_idle_def open_block_def block_zero_keep_def)

text \<open>One block: skipped when it belongs to another service, put into the queue otherwise.\<close>

lemma data_step:
  assumes "rest_from buf len j = ds @ ys" "len < length buf" "j < len" "good_block (no, ds)"
    and "block_idle s" "dtv_inv s" "u8IsStart s"
    and "no = u32ServiceType s \<longrightarrow> plain ds \<and> Suc (length (svc_items (service s))) < Size (fst (service s))"
  shows "\<exists>t. packet_step (open_block no (length ds) s) buf len j = Some (Inr (t, j + length ds))
    \<and> queued (if no = u32ServiceType s then [ds] else []) s t"
proof -
  let ?s = "open_block no (length ds) s"
  have jl: "j \<le> len" using assms(3) by simp
  note r = rest_from_append [OF assms(1,2) jl]
  have f: "sb_CurSize (stServiceBlock ?s) = 0" "sb_ServiceSize (stServiceBlock ?s) = length ds"
    "sb_ServiceNo (stServiceBlock ?s) = no" "service ?s = service s" "u32ServiceType ?s = u32ServiceType s"
    "u8IsStart ?s = u8IsStart s" "\<not> bServiceBlockEnded ?s"
    by (simp_all add: open_block_def)
  have i: "dtv_inv ?s" using assms(4,6) by (simp add: open_block_def dtv_inv_def block_ok_def)
  show ?thesis
  proof (cases "no = u32ServiceType s")
    case True
    have "packet_step ?s buf len j = Some (Inr (take_rest ?s ds, j + length ds))"
      using True f r(1,2) assms(7) by (auto simp: packet_step_def block_data_def Let_def)
    moreover have "queued [ds] s (take_rest ?s ds)"
      using take_rest_plain [OF i f(1,2)] True assms(4,8) f(4) zero_keep_open [OF assms(5), of no "length ds"] by simp
    ultimately show ?thesis using True by auto
  next
    case False
    have "packet_step ?s buf len j = Some (Inr (s, j + length ds))"
      using False f r(1) zero_keep_open [OF assms(5), of no "length ds"]
      by (auto simp: packet_step_def block_data_def Let_def)
    then show ?thesis using False queued_refl [OF assms(6)] by auto
  qed
qed

lemma packet_loop_blocks:
  assumes "rest_from buf len i = concat (map block_bytes blocks) @ replicate z 0" "len < length buf" "i \<le> len"
    and "list_all good_block blocks" "list_all plain (selected (u32ServiceType s) blocks)"
    and "block_idle s" "dtv_inv s" "u8IsStart s" "len < pk_TotalSize (stPacket s)"
    and "length (svc_items (service s)) + length (selected (u32ServiceType s) blocks) < Size (fst (service s))"
  shows "\<exists>s'. packet_loop s buf len i = Some s' \<and> queued (selected (u32ServiceType s) blocks) s s'"
  using assms
proof (induction blocks arbitrary: s i)
  case Nil
  then have "packet_loop s buf len i = Some s" by (intro packet_loop_nulls) (simp_all add: block_idle_def)
  then show ?case using queued_refl [OF Nil.prems(7)] by (simp add: selected_def)
next
  case (Cons b blocks)
  obtain no ds where b: "b = (no, ds)" by (cases b)
  let ?ys = "concat (map block_bytes blocks) @ replicate z 0"
  let ?t = "u32ServiceType s"
  have g: "good_block (no, ds)" and r0: "rest_from buf len i = block_bytes (no, ds) @ ?ys"
    using Cons.prems(1,4) b by simp_all
  obtain j where j: "packet_step s buf len i = Some (Inr (open_block no (length ds) s, j))" "i < len" "j \<le> len"
      "rest_from buf len j = ds @ ?ys"
    using header_step [OF r0 Cons.prems(2,3) g] Cons.prems(6,9) by (auto simp: block_idle_def)
  note r = rest_from_append [OF j(4) Cons.prems(2) j(3)]
  have jl: "j < len" using r(1) g by (cases ds) simp_all
  have sel: "selected ?t (b # blocks) = (if no = ?t then [ds] else []) @ selected ?t blocks" by (simp add: selected_def b)
  obtain t where t: "packet_step (open_block no (length ds) s) buf len j = Some (Inr (t, j + length ds))"
      "queued (if no = ?t then [ds] else []) s t"
    using data_step [OF j(4) Cons.prems(2) jl g Cons.prems(6-8)] Cons.prems(5,10) unfolding sel by (auto split: if_splits)
  have ti: "block_idle t" "dtv_inv t" "u8IsStart t" "u32ServiceType t = ?t" "len < pk_TotalSize (stPacket t)"
      "length (svc_items (service t)) + length (selected ?t blocks) < Size (fst (service t))"
    using t(2) queued_idle [OF t(2) Cons.prems(6)] Cons.prems(8-10) unfolding sel
    by (auto simp: queued_def same_frame_def)
  obtain s' where s': "packet_loop t buf len (j + length ds) = Some s'" "queued (selected ?t blocks) t s'"
    using Cons.IH [OF r(3) Cons.prems(2) r(1), of t] Cons.prems(4,5) ti unfolding sel by (auto split: if_splits)
  have "packet_loop s buf len i = Some s'"
    using j(1,2) t(1) jl s'(1) by (simp add: packet_loop.simps [of s] packet_loop.simps [of "open_block no (length ds) s"])
  then show ?case using queued_trans [OF t(2) s'(2)] sel by auto
qed

section \<open>Runs over caption constructs\<close>

type_synonym cc_construct = "u8 \<times> u8 \<times> u8"

definition flat :: "cc_construct list \<Rightarrow> u8 list" where
  "flat cs = concat (map (\<lambda>(f, a, b). [f, a, b]) cs)"

lemma flat_simps [simp]: "flat [] = []" "flat ((f, a, b) # cs) = f # a # b # flat cs" "flat (xs @ ys) = flat xs @ flat ys"
  by (simp_all add: flat_def)

lemma length_flat [simp]: "length (flat cs) = 3 * length cs"
  by (induction cs) auto

text \<open>What a construct does when the parser is at its flag and a start flag finds nothing collected.\<close>

fun cstep :: "cc708_object \<Rightarrow> cc_construct \<Rightarrow> cc708_object option" where
  "cstep s (f, a, b) =
     (if f = PACKET_START_FLAG then end_if_full (packet_begin (packet_push b (packet_push a (packet_open a s))))
      else if f = PACKET_DATA_FLAG then end_if_full (packet_push b (packet_push a s))
      else Some s)"

fun aligned :: "cc708_object \<Rightarrow> cc_construct \<Rightarrow> bool" where
  "aligned s (f, a, b) \<longleftrightarrow> f \<noteq> PACKET_END_FLAG1 \<and> f \<noteq> PACKET_END_FLAG2
     \<and> (f = PACKET_START_FLAG \<longrightarrow> pk_CurSize (stPacket s) = 0)
     \<and> (f = PACKET_DATA_FLAG \<longrightarrow> pk_Start (stPacket s) \<and> pk_CurSize (stPacket s) + 2 \<le> pk_TotalSize (stPacket s))"

fun csteps :: "cc_construct list \<Rightarrow> cc708_object \<Rightarrow> cc708_object option" where
  "csteps [] s = Some s"
| "csteps (c # cs) s = (if aligned s c then Option.bind (cstep s c) (csteps cs) else None)"

lemma csteps_append: "csteps (xs @ ys) s = Option.bind (csteps xs s) (csteps ys)"
proof (induction xs arbitrary: s)
  case (Cons c xs)
  show ?case by (cases "cstep s c") (simp_all add: Cons.IH)
qed simp

lemma open_cur [simp]: "pk_CurSize (stPacket (packet_open a s)) = pk_CurSize (stPacket s)"
  by (simp add: packet_open_def DtvCC_CheckPacketSequenceNo_def CC708_OSD_Reset_def Let_def)

lemma pic_step_construct:
  assumes "aligned s (f, a, b)" "i + 3 \<le> len" "len \<le> 252" "rd buf i = Some f" "rd buf (i + 1) = Some a" "rd buf (i + 2) = Some b"
  shows "pic_step s buf len i = map_option (\<lambda>s. Inr (s, i + 3)) (cstep s (f, a, b))"
proof -
  have u: "u8_inc i 1 = i + 1" "u8_inc (i + 1) 1 = i + 2" "u8_inc (i + 2) 1 = i + 3" "u8_inc (i + 1) 2 = i + 3"
    using assms(2,3) by (simp_all add: u8_inc_def)
  consider (start) "f = PACKET_START_FLAG" | (data) "f = PACKET_DATA_FLAG" | (other) "f \<noteq> PACKET_START_FLAG" "f \<noteq> PACKET_DATA_FLAG"
    by blast
  then show ?thesis
  proof cases
    case start
    then show ?thesis
      using assms u by (simp add: pic_step_def packet_start_def Let_def MAX_DTVCC_PACKET_LEN_def split: option.split)
  next
    case data
    then have p: "packet_data 2 s buf (i + 1) = map_option (\<lambda>s. (s, i + 3)) (end_if_full (packet_push b (packet_push a s)))"
      using assms u by (auto simp: numeral_2_eq_2 end_if_full_def Let_def split: option.split)
    show ?thesis
      using data assms u p [simplified] by (simp add: pic_step_def option.map_comp comp_def)
  next
    case other
    then show ?thesis using assms u by (simp add: pic_step_def Let_def)
  qed
qed

lemma pic_loop_constructs:
  assumes "csteps cs s = Some s'" "buf = flat (pre @ cs)" "len = length buf" "len \<le> 252"
  shows "pic_loop s buf len (3 * length pre) = Some (s', MT_SUCCESS)"
  using assms(1,2)
proof (induction cs arbitrary: s pre)
  case Nil
  then show ?case using assms(3) by (simp add: pic_loop.simps)
next
  case (Cons c cs)
  obtain f a b where c: "c = (f, a, b)" by (cases c)
  let ?i = "3 * length pre"
  have d: "drop ?i buf = f # a # b # flat cs" using Cons.prems(2) c by simp
  then have r: "rd buf ?i = Some f" "rd buf (?i + 1) = Some a" "rd buf (?i + 2) = Some b"
    using Cons.prems(2) c by (auto simp: rd_def nth_append)
  have al: "aligned s (f, a, b)" using Cons.prems(1) c by (auto split: if_splits)
  obtain t where t: "cstep s (f, a, b) = Some t" "csteps cs t = Some s'"
    using Cons.prems(1) al unfolding c csteps.simps by (auto simp del: cstep.simps split: bind_splits)
  have i3: "?i + 3 \<le> len" using assms(3) Cons.prems(2) by simp
  have "pic_step s buf len ?i = Some (Inr (t, ?i + 3))"
    using pic_step_construct [OF al i3 assms(4) r] t(1) by simp
  moreover have "pic_loop t buf len (?i + 3) = Some (s', MT_SUCCESS)"
    using Cons.IH [OF t(2), of "pre @ [c]"] Cons.prems(2) by (simp add: add.commute)
  ultimately show ?case using i3 by (subst pic_loop.simps) simp
qed

text \<open>A sequence of calls, one per user data unit.\<close>

fun feed_calls :: "cc_construct list list \<Rightarrow> cc708_object \<Rightarrow> cc708_object option" where
  "feed_calls [] s = Some s"
| "feed_calls (cs # css) s =
     (case DtvCC_ParsePicUsrData s (flat cs) (length (flat cs)) of None \<Rightarrow> None | Some (s, _) \<Rightarrow> feed_calls css s)"

lemma feed_calls_csteps:
  assumes "csteps (concat css) s = Some s'" "list_all (\<lambda>cs. length cs \<le> 84) css"
  shows "feed_calls css s = Some s'"
  using assms
proof (induction css arbitrary: s)
  case (Cons cs css)
  obtain t where t: "csteps cs s = Some t" "csteps (concat css) t = Some s'"
    using Cons.prems(1) by (auto simp: csteps_append split: bind_splits)
  have "DtvCC_ParsePicUsrData s (flat cs) (length (flat cs)) = Some (t, if cs = [] then MT_FAILURE else MT_SUCCESS)"
    using pic_loop_constructs [OF t(1), of "flat cs" "[]" "length (flat cs)"] t(1) Cons.prems(2)
    by (auto simp: DtvCC_ParsePicUsrData_def)
  then show ?case using Cons.IH [OF t(2)] Cons.prems(2) by simp
qed simp

definition packet_bytes :: "nat \<Rightarrow> nat \<Rightarrow> (nat \<times> u8 list) list \<Rightarrow> u8 list" where
  "packet_bytes seq k blocks =
     (let body = concat (map block_bytes blocks)
      in word_of_nat (64 * seq + k mod 64) # body @ replicate (2 * k - 1 - length body) 0)"

definition good_packet :: "nat \<Rightarrow> nat \<Rightarrow> (nat \<times> u8 list) list \<Rightarrow> bool" where
  "good_packet seq k blocks \<longleftrightarrow> seq < 4 \<and> 1 \<le> k \<and> k \<le> 64 \<and> list_all good_block blocks
     \<and> length (concat (map block_bytes blocks)) < 2 * k"

fun pairs :: "u8 list \<Rightarrow> cc_construct list" where
  "pairs (a # b # bs) = (PACKET_DATA_FLAG, a, b) # pairs bs"
| "pairs bs = []"

fun packet_constructs :: "u8 list \<Rightarrow> cc_construct list" where
  "packet_constructs (a # b # bs) = (PACKET_START_FLAG, a, b) # pairs bs"
| "packet_constructs bs = []"

text \<open>The constructs of the channel packets among others, such as line 21 bytes.\<close>

definition channel :: "cc_construct \<Rightarrow> bool" where
  "channel c \<longleftrightarrow> fst c = PACKET_START_FLAG \<or> fst c = PACKET_DATA_FLAG"

definition no_end_flag :: "cc_construct \<Rightarrow> bool" where
  "no_end_flag c \<longleftrightarrow> fst c \<noteq> PACKET_END_FLAG1 \<and> fst c \<noteq> PACKET_END_FLAG2"

text \<open>The first \<open>n\<close> bytes of the packet \<open>p\<close> are collected.\<close>

definition collecting :: "u8 list \<Rightarrow> nat \<Rightarrow> cc708_object \<Rightarrow> cc708_object \<Rightarrow> bool" where
  "collecting p n s0 s \<longleftrightarrow> (\<exists>pk. s = s0\<lparr>stPacket := pk\<rparr> \<and> length (pk_Data pk) = 128 \<and> pk_CurSize pk = n
     \<and> pk_TotalSize pk = length p \<and> take n (pk_Data pk) = take n p \<and> pk_Start pk)"

lemma others_step: "\<not> channel c \<Longrightarrow> no_end_flag c \<Longrightarrow> aligned s c \<and> cstep s c = Some s"
  by (cases c) (simp add: channel_def no_end_flag_def)

lemma others_steps: "filter channel cs = [] \<Longrightarrow> list_all no_end_flag cs \<Longrightarrow> csteps cs s = Some s"
  by (induction cs) (auto simp: others_step simp del: aligned.simps cstep.simps split: if_splits)

lemma collecting_push:
  assumes "collecting p n s0 s" "n < length p" "length p \<le> 128"
  shows "collecting p (Suc n) s0 (packet_push (p ! n) s)"
proof -
  obtain pk where pk: "s = s0\<lparr>stPacket := pk\<rparr>" "length (pk_Data pk) = 128" "pk_CurSize pk = n"
      "pk_TotalSize pk = length p" "take n (pk_Data pk) = take n p" "pk_Start pk"
    using assms(1) by (auto simp: collecting_def)
  have "take (Suc n) ((pk_Data pk)[n := p ! n]) = take (Suc n) p"
    using pk(2,5) assms(2,3) by (simp add: take_Suc_conv_app_nth)
  then show ?thesis
    unfolding collecting_def
    by (intro exI [of _ "pk\<lparr>pk_Data := (pk_Data pk)[n := p ! n], pk_CurSize := Suc n\<rparr>"])
      (use pk in \<open>simp add: packet_push_def Let_def\<close>)
qed

lemma end_if_full_collecting:
  assumes "collecting p n s0 s"
  shows "end_if_full s = (if 0 < n \<and> n = length p then DtvCC_EndPacket s else Some s)"
  using assms by (auto simp: collecting_def end_if_full_def Let_def)

text \<open>From any point inside the packet, the remaining constructs complete it.\<close>

lemma csteps_collect:
  assumes "collecting p n s0 s" "even n" "n < length p" "even (length p)" "length p \<le> 128"
    and "filter channel cs = pairs (drop n p)" "list_all no_end_flag cs"
    and "\<And>t. collecting p (length p) s0 t \<Longrightarrow> DtvCC_EndPacket t = Some (res t)"
  shows "\<exists>t. collecting p (length p) s0 t \<and> csteps cs s = Some (res t)"
  using assms(1-3,6,7)
proof (induction cs arbitrary: n s)
  case Nil
  have n: "Suc n < length p" using Nil.prems(2,3) assms(4) by presburger
  then have "drop n p = p ! n # p ! Suc n # drop (Suc (Suc n)) p" by (simp add: Cons_nth_drop_Suc)
  then show ?case using Nil.prems(4) by simp
next
  case (Cons c cs)
  have n: "Suc n < length p" using Cons.prems(2,3) assms(4) by presburger
  have d: "drop n p = p ! n # p ! Suc n # drop (Suc (Suc n)) p" using n by (simp add: Cons_nth_drop_Suc)
  show ?case
  proof (cases "channel c")
    case False
    then show ?thesis
      using Cons.IH [OF Cons.prems(1-3)] Cons.prems(4,5) others_step [OF False, of s]
      by (auto simp del: aligned.simps cstep.simps)
  next
    case True
    then have c: "c = (PACKET_DATA_FLAG, p ! n, p ! Suc n)" and f: "filter channel cs = pairs (drop (Suc (Suc n)) p)"
      using Cons.prems(4) d by simp_all
    let ?t = "packet_push (p ! Suc n) (packet_push (p ! n) s)"
    have t: "collecting p (Suc (Suc n)) s0 ?t"
      using collecting_push [OF collecting_push [OF Cons.prems(1,3) assms(5)] n assms(5)] .
    have al: "aligned s c" using Cons.prems(1) n c by (auto simp: collecting_def)
    have cs: "csteps (c # cs) s = Option.bind (end_if_full ?t) (csteps cs)"
      using al c by simp
    show ?thesis
    proof (cases "Suc (Suc n) = length p")
      case True
      then have "end_if_full ?t = Some (res ?t)" using end_if_full_collecting [OF t] assms(8) [of ?t] t n by auto
      moreover have "csteps cs (res ?t) = Some (res ?t)" using others_steps f True Cons.prems(5) by simp
      ultimately show ?thesis using cs t True by auto
    next
      case False
      then have "end_if_full ?t = Some ?t" using end_if_full_collecting [OF t] by simp
      then show ?thesis using Cons.IH [OF t _ _ f] Cons.prems(2,5) cs False n by auto
    qed
  qed
qed

lemma length_packet_bytes: "good_packet seq k blocks \<Longrightarrow> length (packet_bytes seq k blocks) = 2 * k"
  by (auto simp: packet_bytes_def good_packet_def Let_def)

text \<open>The end of a complete packet.\<close>

lemma end_collected:
  assumes "good_packet seq k blocks" "collecting (packet_bytes seq k blocks) (2 * k) s0 t"
    and "dtv_inv s0" "block_idle s0" "u8IsStart s0" "list_all plain (selected (u32ServiceType s0) blocks)"
    and "length (svc_items (service s0)) + length (selected (u32ServiceType s0) blocks) < Size (fst (service s0))"
  shows "\<exists>u. DtvCC_EndPacket t = Some u \<and> dtv_idle u \<and> osd u = osd s0 \<and> cctimer u = cctimer s0 \<and> u8IsDelay u = u8IsDelay s0 \<and> stCMDBuffer u = stCMDBuffer s0
    \<and> svc_items (service u) = svc_items (service s0) @ selected (u32ServiceType s0) blocks
    \<and> s32LastSeqenceNo u = s32LastSeqenceNo s0 \<and> u8IsStart u \<and> u32ServiceType u = u32ServiceType s0"
proof -
  let ?p = "packet_bytes seq k blocks"
  let ?body = "concat (map block_bytes blocks)"
  obtain pk where pk: "t = s0\<lparr>stPacket := pk\<rparr>" "length (pk_Data pk) = 128" "pk_CurSize pk = 2 * k"
      "pk_TotalSize pk = 2 * k" "take (2 * k) (pk_Data pk) = ?p"
    using assms(2) length_packet_bytes [OF assms(1)] by (auto simp: collecting_def)
  have k: "1 \<le> k" "k \<le> 64" "list_all good_block blocks" using assms(1) by (simp_all add: good_packet_def)
  have sk: "Suc (2 * k - 1) = 2 * k" using k(1) by simp
  have r: "rest_from (pk_Data pk) (2 * k - 1) 0 = ?body @ replicate (2 * k - 1 - length ?body) 0"
    by (simp only: rest_from_def sk pk(5)) (simp add: packet_bytes_def Let_def)
  have ti: "dtv_inv t" "block_idle t" "u8IsStart t" "u32ServiceType t = u32ServiceType s0" "service t = service s0"
    using assms(3-5) pk k by (simp_all add: dtv_inv_def packet_ok_def block_idle_def)
  have lt: "2 * k - 1 < length (pk_Data pk)" using pk(2) k by simp
  obtain u where u: "packet_loop t (pk_Data pk) (2 * k - 1) 0 = Some u" "queued (selected (u32ServiceType s0) blocks) t u"
    using packet_loop_blocks [OF r lt _ k(3), of t] ti assms(6,7) pk k by auto
  have "DtvCC_ParsePacket t (pk_Data pk) (2 * k) = Some u"
    using u(1) k(1) by (simp add: DtvCC_ParsePacket_def DtvCC_ParsePacketData_def)
  moreover have "stPacket u = pk" using u(2) pk(1) by (simp add: queued_def same_frame_def)
  ultimately have "DtvCC_EndPacket t = Some (u\<lparr>stPacket := packet_zero, stServiceBlock := service_block_zero\<rparr>)"
    using pk by (simp add: DtvCC_EndPacket_def Let_def)
  then show ?thesis
    using u(2) ti pk(1) queued_idle [OF u(2) ti(2)]
    by (auto simp: queued_def same_frame_def dtv_idle_def dtv_inv_def block_idle_def packet_zero_def service_block_zero_def
        packet_ok_def block_ok_def)
qed

definition seq_ok :: "cc708_object \<Rightarrow> nat \<Rightarrow> bool" where
  "seq_ok s n \<longleftrightarrow> s32LastSeqenceNo s = INVALID_SERVICE_NUM \<or> int n = (s32LastSeqenceNo s + 1) mod 256 mod 4"

lemma start_collecting:
  assumes "dtv_idle s" "seq_ok s seq" "good_packet seq k blocks" "packet_bytes seq k blocks = a # b # bs"
  shows "collecting (a # b # bs) 2 (s\<lparr>s32LastSeqenceNo := int seq\<rparr>) (packet_begin (packet_push b (packet_push a (packet_open a s))))"
proof -
  have g: "seq < 4" "1 \<le> k" "k \<le> 64" "length (a # b # bs) = 2 * k"
    using assms(3) length_packet_bytes [OF assms(3)] assms(4) by (simp_all add: good_packet_def)
  have a: "a = word_of_nat (64 * seq + k mod 64)" using assms(4) by (simp add: packet_bytes_def Let_def)
  have n: "64 * seq + k mod 64 < 256" "(64 * seq + k mod 64) div 64 = seq" "(64 * seq + k mod 64) mod 64 = k mod 64"
    using g(1) mod_less_divisor [of 64 k] by (simp_all del: mod_less_divisor)
  have tot: "(if k mod 64 = 0 then 128 else k mod 64 * 2) = 2 * k" using g(2,3) by (cases "k = 64") auto
  have d: "length (pk_Data (stPacket s)) = 128" "pk_CurSize (stPacket s) = 0"
    using assms(1) by (simp_all add: dtv_idle_def dtv_inv_def packet_ok_def)
  define pk where "pk = (stPacket s)\<lparr>pk_SeqenceNo := seq, pk_TotalSize := 2 * k\<rparr>"
  have o: "packet_open a s = s\<lparr>s32LastSeqenceNo := int seq, stPacket := pk\<rparr>"
    using assms(2) byte_fields(3,4) [OF n(1)] n(2,3) tot
    by (auto simp: packet_open_def a DtvCC_CheckPacketSequenceNo_def Let_def seq_ok_def pk_def)
  have "\<exists>x xs. pk_Data (stPacket s) = x # xs \<and> length xs = 127" using d(1) by (cases "pk_Data (stPacket s)") auto
  then obtain x y xs where "pk_Data (stPacket s) = x # y # xs" by (metis length_Suc_conv numeral_eq_Suc)
  then show ?thesis
    unfolding collecting_def o
    by (intro exI [of _ "pk\<lparr>pk_Data := a # b # xs, pk_CurSize := 2, pk_Start := True\<rparr>"])
      (use d g(4) in \<open>simp add: packet_begin_def packet_push_def Let_def pk_def numeral_2_eq_2\<close>)
qed

lemma packet_csteps:
  assumes "dtv_idle s" "u8IsStart s" "seq_ok s seq" "good_packet seq k blocks"
    and "list_all plain (selected (u32ServiceType s) blocks)"
    and "length (svc_items (service s)) + length (selected (u32ServiceType s) blocks) < Size (fst (service s))"
    and "filter channel cs = packet_constructs (packet_bytes seq k blocks)" "list_all no_end_flag cs"
  shows "\<exists>u. csteps cs s = Some u \<and> dtv_idle u \<and> osd u = osd s \<and> cctimer u = cctimer s \<and> u8IsDelay u = u8IsDelay s \<and> stCMDBuffer u = stCMDBuffer s
    \<and> svc_items (service u) = svc_items (service s) @ selected (u32ServiceType s) blocks
    \<and> s32LastSeqenceNo u = int seq \<and> u8IsStart u \<and> u32ServiceType u = u32ServiceType s"
proof -
  let ?p = "packet_bytes seq k blocks" and ?s0 = "s\<lparr>s32LastSeqenceNo := int seq\<rparr>"
  let ?Q = "\<lambda>u. dtv_idle u \<and> osd u = osd s \<and> cctimer u = cctimer s \<and> u8IsDelay u = u8IsDelay s \<and> stCMDBuffer u = stCMDBuffer s
    \<and> svc_items (service u) = svc_items (service s) @ selected (u32ServiceType s) blocks
    \<and> s32LastSeqenceNo u = int seq \<and> u8IsStart u \<and> u32ServiceType u = u32ServiceType s"
  have lp: "length ?p = 2 * k" "1 \<le> k" "k \<le> 64" using length_packet_bytes assms(4) by (auto simp: good_packet_def)
  have i0: "dtv_inv ?s0" "block_idle ?s0" using assms(1) by (simp_all add: dtv_idle_def dtv_inv_def block_idle_def)
  have "\<exists>u. DtvCC_EndPacket t = Some u \<and> ?Q u" if "collecting ?p (length ?p) ?s0 t" for t
    using end_collected [OF assms(4) that [unfolded lp] i0] assms(2,5,6) by simp
  then obtain res where res: "DtvCC_EndPacket t = Some (res t) \<and> ?Q (res t)" if "collecting ?p (length ?p) ?s0 t" for t by metis
  obtain a b bs where p: "?p = a # b # bs" using lp by (cases ?p; cases "tl ?p") auto
  have ev: "length bs = 2 * (k - 1)" using lp(1) p by simp
  obtain pre c post where cs: "cs = pre @ c # post" "filter channel pre = []" "channel c"
    using assms(7) p by (metis (no_types, lifting) filter_eq_Cons_iff filter_empty_conv packet_constructs.simps(1))
  have c: "c = (PACKET_START_FLAG, a, b)" "filter channel post = pairs bs" using assms(7) p cs by simp_all
  let ?t = "packet_begin (packet_push b (packet_push a (packet_open a s)))"
  have t: "collecting ?p 2 ?s0 ?t" using start_collecting [OF assms(1,3,4) p] p by simp
  have al: "aligned s c" using c(1) assms(1) by (simp add: dtv_idle_def)
  have "csteps cs s = Option.bind (end_if_full ?t) (csteps post)"
    using cs(1,2) c(1) al assms(8) others_steps [of pre s] by (simp add: csteps_append)
  moreover have "\<exists>v. Option.bind (end_if_full ?t) (csteps post) = Some v \<and> ?Q v"
  proof (cases "2 = length ?p")
    case True
    then have "end_if_full ?t = Some (res ?t) \<and> ?Q (res ?t)" using end_if_full_collecting [OF t] res [of ?t] t by auto
    moreover have "bs = []" using True p by simp
    ultimately show ?thesis using others_steps [of post] c(2) assms(8) cs(1) by auto
  next
    case False
    then have "end_if_full ?t = Some ?t" using end_if_full_collecting [OF t] by simp
    moreover have "\<exists>v. collecting ?p (length ?p) ?s0 v \<and> csteps post ?t = Some (res v)"
      using csteps_collect [OF t, of post res] False lp p c(2) assms(8) cs(1) res ev by auto
    ultimately show ?thesis using res by auto
  qed
  ultimately show ?thesis by simp
qed

lemma packet_fed:
  assumes "dtv_idle s" "u8IsStart s" "seq_ok s seq" "good_packet seq k blocks"
    and "list_all plain (selected (u32ServiceType s) blocks)"
    and "length (svc_items (service s)) + length (selected (u32ServiceType s) blocks) < Size (fst (service s))"
    and "filter channel (concat calls) = packet_constructs (packet_bytes seq k blocks)"
    and "list_all no_end_flag (concat calls)" "list_all (\<lambda>cs. length cs \<le> 31) calls"
  shows "\<exists>u. feed_calls calls s = Some u \<and> dtv_idle u \<and> osd u = osd s \<and> cctimer u = cctimer s \<and> u8IsDelay u = u8IsDelay s
    \<and> stCMDBuffer u = stCMDBuffer s \<and> svc_items (service u) = svc_items (service s) @ selected (u32ServiceType s) blocks
    \<and> s32LastSeqenceNo u = int seq \<and> u8IsStart u \<and> u32ServiceType u = u32ServiceType s"
proof -
  have "list_all (\<lambda>cs. length cs \<le> 84) calls" using assms(9) by (rule list.pred_mono_strong) simp
  then show ?thesis using packet_csteps [OF assms(1-8)] feed_calls_csteps by fastforce
qed

section \<open>Properties\<close>

text \<open>C37. Whole packets are delivered: a channel packet of the standard, cut into caption constructs at will over
  any number of user data units and mixed with other constructs (line 21 bytes), is reassembled, and
  exactly the blocks of the selected service reach the service queue, byte for byte and in order;
  nothing else changes, and the decoder is ready for the next packet.\<close>

theorem dtvcc_packet_delivered:
  assumes "dtv_idle s" "u8IsStart s" "seq_ok s seq" "good_packet seq k blocks"
    and "list_all plain (selected (u32ServiceType s) blocks)"
    and "length (svc_items (service s)) + length (selected (u32ServiceType s) blocks) < Size (fst (service s))"
    and "filter channel (concat calls) = packet_constructs (packet_bytes seq k blocks)"
    and "list_all no_end_flag (concat calls)" "list_all (\<lambda>cs. length cs \<le> 31) calls"
  shows "\<exists>s'. feed_calls calls s = Some s' \<and> dtv_idle s'
    \<and> svc_items (service s') = svc_items (service s) @ selected (u32ServiceType s) blocks
    \<and> s32LastSeqenceNo s' = int seq \<and> osd s' = osd s \<and> cctimer s' = cctimer s \<and> u8IsDelay s' = u8IsDelay s
    \<and> u8IsStart s' \<and> u32ServiceType s' = u32ServiceType s"
  using packet_fed [OF assms] by blast


text \<open>With 128 bytes it need not return: an extended header in the last byte of the packet is read on
behind the array.\<close>

theorem dtvcc_full_packet_overruns:
  assumes "bServiceBlockEnded s" "pk_CurSize (stPacket s) = 128"
    and "pk_Data (stPacket s) = b # replicate 126 0 @ [e]" "drop_bit 5 e AND 0x07 = 7" "e AND 0x1f \<noteq> 0"
  shows "DtvCC_EndPacket s = None"
proof -
  let ?buf = "pk_Data (stPacket s)"
  have "packet_loop s ?buf 127 i = packet_loop s ?buf 127 126" if "i \<le> 126" for i
    using that
  proof (induction "126 - i" arbitrary: i)
    case (Suc k)
    have "i < 126" using Suc.hyps(2) by simp
    then have "?buf ! (i + 1) = 0" unfolding assms(3) by (simp add: nth_append)
    then have "packet_loop s ?buf 127 i = packet_loop s ?buf 127 (i + 1)"
      using assms(1) \<open>i < 126\<close> by (subst packet_loop.simps) (simp add: packet_step_def block_header_def Let_def)
    then show ?case using Suc.hyps(1) [of "i + 1"] Suc.hyps(2) by simp
  qed simp
  moreover have "packet_loop s ?buf 127 126 = None"
  proof -
    have "?buf ! 127 = e" "length ?buf = 128" unfolding assms(3) by (simp_all add: nth_append)
    then show ?thesis
      using assms(1,4,5)
      by (subst packet_loop.simps) (simp add: packet_step_def block_header_def Let_def unat_eq_0)
  qed
  ultimately show ?thesis
    using assms(2) by (simp add: DtvCC_EndPacket_def DtvCC_ParsePacket_def DtvCC_ParsePacketData_def)
qed

text \<open>Padding loses packets: behind a padding construct (flag 0xFA) the parser does not skip the two padding
  bytes, so the packet start that follows in the same user data is never seen and the state does not
  change, for every packet header below 0xFA and every first byte.\<close>

theorem dtvcc_padding_hides_packet:
  assumes "pk_CurSize (stPacket s) = 0" "a < 0xFA"
  shows "DtvCC_ParsePicUsrData s (flat [(PACKET_END_FLAG1, 0, 0), (PACKET_START_FLAG, a, b)]) 6 = Some (s, MT_SUCCESS)"
proof -
  have "a \<noteq> 0xFF" "a \<noteq> 0xFE" "a \<noteq> 0xFA" "a \<noteq> 0xFB" using assms(2) by auto
  then show ?thesis
    using assms by (simp add: DtvCC_ParsePicUsrData_def pic_loop.simps pic_step_def rd_def u8_inc_def Let_def)
qed

section \<open>Witnesses\<close>

definition dtv_ready :: cc708_object where
  "dtv_ready = \<lparr>u8IsStart = True, u8IsDelay = False, stServiceBlock = service_block_zero, s32LastSeqenceNo = -1,
     bServiceBlockEnded = True, stPacket = packet_zero, stCMDBuffer = cmd_buffer_zero, u32ServiceType = 1,
     service = (CCQueue_Init (Some (replicate (SERVICE_QUEUE_SIZE * 8) 0)) SERVICE_QUEUE_SIZE 8, replicate SERVICE_QUEUE_SIZE (replicate 32 0)),
     cctimer = None, osd = []\<rparr>"

lemma ready_service: "svc_inv (service dtv_ready)" "svc_items (service dtv_ready) = []" "Size (fst (service dtv_ready)) = 128"
proof -
  let ?q = "CCQueue_Init (Some (replicate (SERVICE_QUEUE_SIZE * 8) 0)) SERVICE_QUEUE_SIZE 8"
  have q: "queue_inv ?q" "queue_items ?q = 0" "Size ?q = 128" "Element_size ?q = 8"
    by (simp_all add: queue_inv_def queue_items_def CCQueue_Init_def SERVICE_QUEUE_SIZE_def)
  have c: "queue_contents ?q = []" using contents_empty_iff [OF q(1)] by (simp add: CCQueue_Init_def)
  show "svc_inv (service dtv_ready)" "svc_items (service dtv_ready) = []" "Size (fst (service dtv_ready)) = 128"
    using q c by (simp_all add: dtv_ready_def slot_inv_def svc_items_def slot_items_def list_all_iff)
      (simp_all add: SERVICE_QUEUE_SIZE_def)
qed

lemma ready_idle: "dtv_idle dtv_ready" "dtv_inv dtv_ready"
proof -
  have "stPacket dtv_ready = packet_zero" "stServiceBlock dtv_ready = service_block_zero" "bServiceBlockEnded dtv_ready"
    by (simp_all add: dtv_ready_def)
  then show "dtv_idle dtv_ready" "dtv_inv dtv_ready"
    using ready_service zero_ok by (simp_all add: dtv_idle_def dtv_inv_def) (simp_all add: packet_zero_def service_block_zero_def)
qed

text \<open>A packet of 8 bytes with a block "Hi" of service 1 and a block of service 2, in two user data units, with
  a line 21 construct before the first.\<close>

theorem dtvcc_packet_delivered_witness:
  "\<exists>s'. feed_calls [[(0xFC, 0x80, 0x80), (0xFF, 0x04, 0x22), (0xFE, 0x48, 0x69)], [(0xFE, 0x41, 0x55), (0xFE, 0, 0)]] dtv_ready = Some s'
    \<and> svc_items (service s') = [[0x48, 0x69]]"
proof -
  have p: "packet_bytes 0 4 [(1, [0x48, 0x69]), (2, [0x55])] = [0x04, 0x22, 0x48, 0x69, 0x41, 0x55, 0, 0]"
    by (simp add: packet_bytes_def Let_def numeral_2_eq_2)
  have t: "u32ServiceType dtv_ready = 1" "u8IsStart dtv_ready" "s32LastSeqenceNo dtv_ready = -1" by (simp_all add: dtv_ready_def)
  show ?thesis
    using dtvcc_packet_delivered [of dtv_ready 0 4 "[(1, [0x48, 0x69]), (2, [0x55])]"
        "[[(0xFC, 0x80, 0x80), (0xFF, 0x04, 0x22), (0xFE, 0x48, 0x69)], [(0xFE, 0x41, 0x55), (0xFE, 0, 0)]]"]
      ready_idle(1) ready_service p t
    by (auto simp: seq_ok_def INVALID_SERVICE_NUM_def good_packet_def selected_def plain_def channel_def no_end_flag_def
        simp del: feed_calls.simps)
qed



theorem dtvcc_padding_hides_packet_witness:
  "DtvCC_ParsePicUsrData dtv_ready [0xFA, 0, 0, 0xFF, 0x04, 0x22] 6 = Some (dtv_ready, MT_SUCCESS)"
  using dtvcc_padding_hides_packet [of dtv_ready "0x04" "0x22"] by (simp add: dtv_ready_def packet_zero_def)

end
