(* ===== verification/DtvCode.thy ===== *)
theory DtvCode
  imports Dtvcc KscTables
begin

text \<open>
  The coding layer of the DTV caption decoder, \<open>src/kware/cc/src/708/cc708/src/cc708_dec.c\<close>: service data is split
  into characters, which are collected in the static \<open>stCaptionBuf\<close>, and commands, which are unpacked and
  passed to the drawing layer (recorded in \<open>osd\<close>). Writing behind the end of \<open>u16Buf\<close> (64 characters) or of
  \<open>au8CMD\<close> (8 bytes) is \<open>None\<close>. Enumeration values are numbers; \<open>u16MaxColumnNum\<close> and \<open>u16MaxHorizonalCells\<close> are fields of the state.
\<close>

section \<open>Data\<close>

definition CAPTION_BUF_SIZE :: nat where "CAPTION_BUF_SIZE = 64"
definition CMD_BUF_SIZE :: nat where "CMD_BUF_SIZE = 8"

record dtv_code =
  obj :: cc708_object
  cap_Buf :: "u16 list"
  cap_Len :: nat
  u16MaxColumnNum :: nat
  u16MaxHorizonalCells :: nat

definition osd_call :: "osd_call \<Rightarrow> dtv_code \<Rightarrow> dtv_code" where
  "osd_call c s = s\<lparr>obj := (obj s)\<lparr>osd := osd (obj s) @ [c]\<rparr>\<rparr>"

definition push_caption :: "u16 \<Rightarrow> dtv_code \<Rightarrow> dtv_code option" where
  "push_caption c s =
     (if cap_Len s < CAPTION_BUF_SIZE then Some (s\<lparr>cap_Buf := (cap_Buf s)[cap_Len s := c], cap_Len := cap_Len s + 1\<rparr>) else None)"

text \<open>\<open>GETn(p, o, b)\<close>.\<close>

definition get_bits :: "nat \<Rightarrow> u8 list \<Rightarrow> nat \<Rightarrow> nat \<Rightarrow> nat" where
  "get_bits n p i b = unat (take_bit n (drop_bit b (p ! i)))"

definition upper_check :: "nat \<Rightarrow> nat \<Rightarrow> nat \<Rightarrow> nat" where
  "upper_check v maxval default_val = (if v \<ge> maxval then default_val else v)"

section \<open>Commands\<close>

text \<open>Every handler gets the bytes from the command code on.\<close>

definition au8RGBMap :: "u32 list list" where
  "au8RGBMap = [[0xff000000, 0x005f0000, 0x00af0000, 0x00ff0000], [0xff000000, 0x00005f00, 0x0000af00, 0x0000ff00],
     [0xff000000, 0x0000005f, 0x000000af, 0x000000ff]]"

definition DtvCC_Translate2Color :: "nat \<Rightarrow> u32" where
  "DtvCC_Translate2Color c =
     (au8RGBMap ! 0 ! (c div 16 mod 4)) OR (au8RGBMap ! 1 ! (c div 4 mod 4)) OR (au8RGBMap ! 2 ! (c mod 4))"

definition DTVCCG2Code2UnicodeMap :: "u16 list" where
  "DTVCCG2Code2UnicodeMap =
     [0x1020, 0x1021, 0x005f, 0x005f, 0x005f, 0x2026, 0x005f, 0x005f, 0x005f, 0x005f, 0x0160, 0x005f, 0x0152, 0x005f, 0x005f, 0x005f,
      0x2588, 0x2018, 0x2019, 0x201c, 0x201d, 0x2022, 0x005f, 0x005f, 0x005f, 0x2122, 0x0161, 0x005f, 0x0153, 0x2120, 0x005f, 0x0178]
     @ replicate 54 0x005f
     @ [0x215b, 0x215c, 0x215d, 0x215e, 0x2502, 0x2510, 0x2514, 0x2500, 0x2518, 0x250c]"

definition DTVCCG3Code2UnicodeMap :: "u16 list" where
  "DTVCCG3Code2UnicodeMap = 0xf101 # replicate 95 0x005f"

definition DtvCC_EXT1Cmd :: "u8 list \<Rightarrow> dtv_code \<Rightarrow> dtv_code option" where
  "DtvCC_EXT1Cmd cmd s =
     (let b = cmd ! 1
      in if b < 0x20 \<or> (0x80 \<le> b \<and> b < 0x90) then Some s
         else if b AND 0xf0 = 0x90 then Some s
         else if b < 0x80
         then let c = DTVCCG2Code2UnicodeMap ! (unat b - 0x20)
              in push_caption (if c = 0x1020 \<or> c = 0x1021 then 0x1020 else c) s
         else push_caption (if 0xA0 \<le> b then DTVCCG3Code2UnicodeMap ! (unat b - 0xA0) else 0) s)"

definition ksc_unicode :: "u16 \<Rightarrow> nat \<Rightarrow> u16" where
  "ksc_unicode u i =
     (if i < 1410 then (if i < 1115 then ksc5601_2uni_page21 ! i else u)
      else if i < 3854 then (if i < 3760 then ksc5601_2uni_page30 ! (i - 1410) else u)
      else (if i < 8742 then ksc5601_2uni_page4a ! (i - 3854) else u))"

definition DtvCC_P16Cmd :: "u8 list \<Rightarrow> dtv_code \<Rightarrow> dtv_code option" where
  "DtvCC_P16Cmd cmd s =
     (let u = push_bit 8 (ucast (cmd ! 1)) OR ucast (cmd ! 2);
          c1 = cmd ! 1 - 0x80; c2 = cmd ! 2 - 0x80;
          u = (if cmd ! 1 \<ge> 0xa1 \<and> (0x21 \<le> c1 \<and> c1 \<le> 0x2c \<or> 0x30 \<le> c1 \<and> c1 \<le> 0x48 \<or> 0x4a \<le> c1 \<and> c1 \<le> 0x7d)
                 \<and> 0x21 \<le> c2 \<and> c2 < 0x7f
               then ksc_unicode u (94 * (unat c1 - 0x21) + (unat c2 - 0x21)) else u)
      in if u \<noteq> 0xfffd then push_caption u s else Some s)"

text \<open>Every accepted code finds an entry.\<close>

lemma ksc_in_tables:
  assumes "c1 \<le> 0x7d" "c2 < (0x7f :: u8)"
  shows "94 * (unat (c1 :: u8) - 0x21) + (unat c2 - 0x21) < 3854 + length ksc5601_2uni_page4a"
    "i < 1115 \<Longrightarrow> i < length ksc5601_2uni_page21" "i < 3760 \<Longrightarrow> 1410 \<le> i \<Longrightarrow> i - 1410 < length ksc5601_2uni_page30"
  using assms by (auto simp: word_le_nat_alt word_less_nat_alt)

definition DtvCC_DelayTimerStart :: "cc708_object \<Rightarrow> nat \<Rightarrow> cc708_object" where
  "DtvCC_DelayTimerStart s tenth =
     s\<lparr>cctimer := fst (CCTimer_Start (cctimer s) CCTIMER_ID_708DELAY (word_of_nat (tenth * 100)) TIMER_MODE_ONE_SHOOT)\<rparr>"

definition DtvCC_DelayTimerCallback :: "cc708_object \<Rightarrow> cc708_object" where
  "DtvCC_DelayTimerCallback s = (if u8IsDelay s then s\<lparr>u8IsDelay := False\<rparr> else s)"

definition DtvCC_DelayCmd :: "u8 list \<Rightarrow> dtv_code \<Rightarrow> dtv_code" where
  "DtvCC_DelayCmd cmd s = s\<lparr>obj := DtvCC_DelayTimerStart ((obj s)\<lparr>u8IsDelay := True\<rparr>) (unat (cmd ! 1))\<rparr>"

definition DtvCC_ResetCmd :: "dtv_code \<Rightarrow> dtv_code" where
  "DtvCC_ResetCmd s = s\<lparr>obj := CC708_OSD_Reset (obj s)\<rparr>"

definition DtvCC_SetPenAttributesCmd :: "u8 list \<Rightarrow> dtv_code \<Rightarrow> dtv_code" where
  "DtvCC_SetPenAttributesCmd cmd s =
     (let size = upper_check (get_bits 2 cmd 1 0 + 1) 4 2;
          offset = upper_check (get_bits 2 cmd 1 2) 3 1;
          tag = get_bits 4 cmd 1 4;
          font = get_bits 3 cmd 2 0;
          edge = upper_check (get_bits 3 cmd 2 3 + 1) 7 1;
          underline = get_bits 1 cmd 2 6; italics = get_bits 1 cmd 2 7
      in osd_call (OSD_SetPenAttributes [size, font, tag, offset, italics, underline, edge]) s)"

definition DtvCC_SetPenColorCmd :: "u8 list \<Rightarrow> dtv_code \<Rightarrow> dtv_code" where
  "DtvCC_SetPenColorCmd cmd s =
     (let fg = DtvCC_Translate2Color (get_bits 6 cmd 1 0); fgo = get_bits 2 cmd 1 6 + 1;
          bg = DtvCC_Translate2Color (get_bits 6 cmd 2 0); bgo = get_bits 2 cmd 2 6 + 1;
          edge = DtvCC_Translate2Color (get_bits 6 cmd 3 0)
      in osd_call (OSD_SetPenColor [fg, bg, edge] [fgo, bgo]) s)"

definition DtvCC_SetPenLocationCmd :: "u8 list \<Rightarrow> dtv_code \<Rightarrow> dtv_code" where
  "DtvCC_SetPenLocationCmd cmd s =
     (let row = upper_check (get_bits 4 cmd 1 0) 15 14;
          col = upper_check (get_bits 6 cmd 2 0) (u16MaxColumnNum s) (u16MaxColumnNum s - 1)
      in osd_call (OSD_SetPenLocation row col) s)"

definition DtvCC_SetWindowAttributesCmd :: "u8 list \<Rightarrow> dtv_code \<Rightarrow> dtv_code" where
  "DtvCC_SetWindowAttributesCmd cmd s =
     (let fill = DtvCC_Translate2Color (get_bits 6 cmd 1 0); fillo = get_bits 2 cmd 1 6 + 1;
          border = DtvCC_Translate2Color (get_bits 6 cmd 2 0);
          justify = get_bits 2 cmd 3 0; scroll = get_bits 2 cmd 3 2; print = get_bits 2 cmd 3 4; wrap = get_bits 1 cmd 3 6;
          btype = get_bits 1 cmd 3 7 * 4 + get_bits 2 cmd 2 6 + 1;
          effect = upper_check (get_bits 2 cmd 4 0) 3 0; dir = get_bits 2 cmd 4 2; speed = get_bits 4 cmd 4 4
      in osd_call (OSD_SetWindowAttributes [justify, print, scroll, wrap, effect, dir, speed, fillo, btype] [fill, border]) s)"

definition DtvCC_DefineWindowCmd :: "u8 list \<Rightarrow> dtv_code \<Rightarrow> dtv_code" where
  "DtvCC_DefineWindowCmd cmd s =
     (let wid = get_bits 3 cmd 0 0; priority = get_bits 3 cmd 1 0; collock = get_bits 1 cmd 1 3; rowlock = get_bits 1 cmd 1 4;
          visible = get_bits 1 cmd 1 5; relative = get_bits 1 cmd 2 7;
          vert = (if relative = 0 then upper_check (get_bits 7 cmd 2 0) 75 74 else upper_check (get_bits 7 cmd 2 0) 100 99);
          horz = (if relative = 0 then upper_check (unat (cmd ! 3)) (u16MaxHorizonalCells s) (u16MaxHorizonalCells s - 1)
                  else upper_check (unat (cmd ! 3)) 100 99);
          rows = upper_check (get_bits 4 cmd 4 0) 15 14; point = upper_check (get_bits 4 cmd 4 4) 9 8;
          columns = upper_check (get_bits 6 cmd 5 0) 42 41;
          pen = upper_check (get_bits 3 cmd 6 0) 8 7; style = upper_check (get_bits 3 cmd 6 3) 8 7
      in osd_call (OSD_DefineWindow [wid, priority, point, relative, vert, horz, rows, columns, rowlock, collock, visible, style, pen]) s)"

text \<open>Commands that only call the drawing layer.\<close>

definition DtvCC_ETXCmd :: "dtv_code \<Rightarrow> dtv_code" where
  "DtvCC_ETXCmd s = osd_call OSD_ETX s"

definition DtvCC_BSCmd :: "dtv_code \<Rightarrow> dtv_code" where
  "DtvCC_BSCmd s = osd_call OSD_BSText s"

definition DtvCC_FFCmd :: "dtv_code \<Rightarrow> dtv_code" where
  "DtvCC_FFCmd s = osd_call OSD_FFText s"

definition DtvCC_CRCmd :: "dtv_code \<Rightarrow> dtv_code" where
  "DtvCC_CRCmd s = osd_call OSD_CRText s"

definition DtvCC_HCRCmd :: "dtv_code \<Rightarrow> dtv_code" where
  "DtvCC_HCRCmd s = osd_call OSD_HCRText s"

definition DtvCC_SetCurrentWindowCmd :: "u8 list \<Rightarrow> dtv_code \<Rightarrow> dtv_code" where
  "DtvCC_SetCurrentWindowCmd cmd s = osd_call (OSD_SetCurrentWindow (get_bits 3 cmd 0 0)) s"

definition DtvCC_ClearWindowsCmd :: "u8 list \<Rightarrow> dtv_code \<Rightarrow> dtv_code" where
  "DtvCC_ClearWindowsCmd cmd s = osd_call (OSD_ClearWindows (cmd ! 1)) s"

definition DtvCC_DisplayWindowsCmd :: "u8 list \<Rightarrow> dtv_code \<Rightarrow> dtv_code" where
  "DtvCC_DisplayWindowsCmd cmd s = osd_call (OSD_DisplayWindows (cmd ! 1)) s"

definition DtvCC_HideWindowsCmd :: "u8 list \<Rightarrow> dtv_code \<Rightarrow> dtv_code" where
  "DtvCC_HideWindowsCmd cmd s = osd_call (OSD_HideWindows (cmd ! 1)) s"

definition DtvCC_ToggleWindowsCmd :: "u8 list \<Rightarrow> dtv_code \<Rightarrow> dtv_code" where
  "DtvCC_ToggleWindowsCmd cmd s = osd_call (OSD_ToggleWindows (cmd ! 1)) s"

definition DtvCC_DeleteWindowsCmd :: "u8 list \<Rightarrow> dtv_code \<Rightarrow> dtv_code" where
  "DtvCC_DeleteWindowsCmd cmd s = osd_call (OSD_DeleteWindows (cmd ! 1)) s"

lemmas simple_cmds = DtvCC_ETXCmd_def DtvCC_BSCmd_def DtvCC_FFCmd_def DtvCC_CRCmd_def DtvCC_HCRCmd_def
  DtvCC_SetCurrentWindowCmd_def DtvCC_ClearWindowsCmd_def DtvCC_DisplayWindowsCmd_def DtvCC_HideWindowsCmd_def DtvCC_ToggleWindowsCmd_def DtvCC_DeleteWindowsCmd_def

text \<open>The handlers of \<open>DTVCCCmdMap\<close> by the index of the code; \<open>Some\<close> unchanged where the entry is NULL.\<close>

definition run_command :: "nat \<Rightarrow> u8 list \<Rightarrow> dtv_code \<Rightarrow> dtv_code option" where
  "run_command k cmd s =
     (if k = 0x03 then Some (DtvCC_ETXCmd s)
      else if k = 0x08 then Some (DtvCC_BSCmd s)
      else if k = 0x0C then Some (DtvCC_FFCmd s)
      else if k = 0x0D then Some (DtvCC_CRCmd s)
      else if k = 0x0E then Some (DtvCC_HCRCmd s)
      else if k = 0x10 then DtvCC_EXT1Cmd cmd s
      else if k = 0x18 then DtvCC_P16Cmd cmd s
      else if 32 \<le> k \<and> k < 40 then Some (DtvCC_SetCurrentWindowCmd cmd s)
      else if k = 40 then Some (DtvCC_ClearWindowsCmd cmd s)
      else if k = 41 then Some (DtvCC_DisplayWindowsCmd cmd s)
      else if k = 42 then Some (DtvCC_HideWindowsCmd cmd s)
      else if k = 43 then Some (DtvCC_ToggleWindowsCmd cmd s)
      else if k = 44 then Some (DtvCC_DeleteWindowsCmd cmd s)
      else if k = 45 then Some (DtvCC_DelayCmd cmd s)
      else if k = 47 then Some (DtvCC_ResetCmd s)
      else if k = 48 then Some (DtvCC_SetPenAttributesCmd cmd s)
      else if k = 49 then Some (DtvCC_SetPenColorCmd cmd s)
      else if k = 50 then Some (DtvCC_SetPenLocationCmd cmd s)
      else if k = 55 then Some (DtvCC_SetWindowAttributesCmd cmd s)
      else if 56 \<le> k \<and> k < 64 then Some (DtvCC_DefineWindowCmd cmd s)
      else Some s)"

lemmas run_command_unfold = run_command_def [unfolded simple_cmds]

section \<open>Service blocks\<close>

definition set_cmd :: "dtvcc_cmd_buffer \<Rightarrow> dtv_code \<Rightarrow> dtv_code" where
  "set_cmd c s = s\<lparr>obj := (obj s)\<lparr>stCMDBuffer := c\<rparr>\<rparr>"

text \<open>\<open>memcpy\<close> into \<open>au8CMD\<close>.\<close>

definition cmd_copy :: "dtvcc_cmd_buffer \<Rightarrow> nat \<Rightarrow> u8 list \<Rightarrow> dtvcc_cmd_buffer option" where
  "cmd_copy c i part =
     (if i + length part \<le> CMD_BUF_SIZE then Some (c\<lparr>cm_CMD := mem_write (cm_CMD c) i part\<rparr>) else None)"

text \<open>A command that began in an earlier service block: \<open>Inl\<close> returns at once, \<open>Inr\<close> goes on at an offset.\<close>

definition split_command :: "u8 list \<Rightarrow> nat \<Rightarrow> dtv_code \<Rightarrow> (dtv_code + dtv_code \<times> nat) option" where
  "split_command buf len s =
     (let c = stCMDBuffer (obj s); need = cm_TotalSize c - cm_CurSize c
      in if cm_CurSize c < cm_TotalSize c
         then if len \<ge> need
              then (case cmd_copy c (cm_CurSize c) (take need buf) of None \<Rightarrow> None
                    | Some c \<Rightarrow> let k = cmd_index (buf ! 0)
                                in map_option (\<lambda>s. Inr (set_cmd cmd_buffer_zero s, cmd_lengths ! k))
                                     (run_command k (cm_CMD c) (set_cmd c s)))
              else map_option (\<lambda>c. Inl (set_cmd (c\<lparr>cm_CurSize := cm_CurSize c + len\<rparr>) s))
                     (cmd_copy c (cm_CurSize c) (take len buf))
         else Some (Inr (set_cmd (c\<lparr>cm_CMD := replicate CMD_BUF_SIZE 0, cm_CurSize := 0\<rparr>) s, 0)))"

definition draws_caption :: "u8 \<Rightarrow> bool" where
  "draws_caption b \<longleftrightarrow> (0x7f < b \<and> b < 0xa0) \<or> b = 0x03 \<or> b = 0x0D \<or> b = 0x0E \<or> b = 0x0C"

definition draw_caption :: "dtv_code \<Rightarrow> dtv_code" where
  "draw_caption s =
     (if 0 < cap_Len s \<and> cap_Len s \<le> CAPTION_BUF_SIZE
      then osd_call (OSD_Draw (take (cap_Len s) (cap_Buf s)))
             (s\<lparr>cap_Buf := mem_write (cap_Buf s) 0 (replicate (cap_Len s) 0), cap_Len := 0\<rparr>)
      else s)"

definition caption_char :: "u8 \<Rightarrow> u16" where
  "caption_char b = (if b = 0x7f then 0x266a else ucast b)"

text \<open>One round of the loop; \<open>Inl\<close> is the \<open>break\<close> at an incomplete command.\<close>

definition parse_step :: "u8 list \<Rightarrow> nat \<Rightarrow> nat \<Rightarrow> dtv_code \<Rightarrow> (dtv_code + dtv_code \<times> nat) option" where
  "parse_step buf len i s =
     (let b = buf ! i
      in if is_cmd b
         then let s = (if draws_caption b then draw_caption s else s); l = cmd_len buf i len
              in if l > len - i
                 then map_option (\<lambda>c. Inl (set_cmd (c\<lparr>cm_TotalSize := l, cm_CurSize := len - i\<rparr>) s))
                        (cmd_copy (stCMDBuffer (obj s)) 0 (mem_read buf i (len - i)))
                 else map_option (\<lambda>s. Inr (s, i + l)) (run_command (cmd_index b) (drop i buf) s)
         else map_option (\<lambda>s. Inr (s, i + 1)) (push_caption (caption_char b) s))"

lemma parse_step_progress:
  "parse_step buf len i s = Some (Inr (s', j)) \<Longrightarrow> i < j"
  by (auto simp: parse_step_def Let_def split: if_splits)

function parse_loop :: "u8 list \<Rightarrow> nat \<Rightarrow> nat \<Rightarrow> dtv_code \<Rightarrow> dtv_code option" where
  "parse_loop buf len i s =
     (if i < len
      then case parse_step buf len i s of None \<Rightarrow> None
           | Some (Inl s) \<Rightarrow> Some s
           | Some (Inr (s, j)) \<Rightarrow> parse_loop buf len j s
      else Some s)"
  by pat_completeness auto
termination
  by (relation "measure (\<lambda>(buf, len, i, s). len - i)") (auto dest: parse_step_progress intro: diff_less_mono2)

declare parse_loop.simps [simp del]

definition DtvCC_ParseServiceBlock :: "u8 list \<Rightarrow> nat \<Rightarrow> dtv_code \<Rightarrow> (dtv_code \<times> mt_ret) option" where
  "DtvCC_ParseServiceBlock buf len s =
     (if len = 0 then Some (s, MT_FAILURE)
      else case split_command buf len s of None \<Rightarrow> None
           | Some (Inl s) \<Rightarrow> Some (s, MT_SUCCESS)
           | Some (Inr (s, i)) \<Rightarrow> map_option (\<lambda>s. (s, MT_SUCCESS)) (parse_loop buf len i s))"

definition svc_set :: "slot_state \<Rightarrow> dtv_code \<Rightarrow> dtv_code" where
  "svc_set sv s = s\<lparr>obj := (obj s)\<lparr>service := sv\<rparr>\<rparr>"

text \<open>The loop runs until the queue is empty or a delay command was decoded; when \<open>CCQueue_Get\<close> fails on a queue
  that is not empty it would not end.\<close>

partial_function (option) service_loop :: "dtv_code \<Rightarrow> mt_ret \<Rightarrow> (dtv_code \<times> mt_ret) option" where
  "service_loop s r =
     (if \<not> CCQueue_IsEmpty (fst (service (obj s))) \<and> \<not> u8IsDelay (obj s)
      then case slot_get service_element_fields (service (obj s)) of
             None \<Rightarrow> service_loop s r
           | Some (len, row) \<Rightarrow>
               Option.bind (DtvCC_ParseServiceBlock row len s)
                 (\<lambda>sr. service_loop (svc_set (slot_drop (service (obj (fst sr)))) (fst sr)) (snd sr))
      else Some (s, r))"

definition CC708_DEC_ProcessServicefifo :: "dtv_code \<Rightarrow> (dtv_code \<times> mt_ret) option" where
  "CC708_DEC_ProcessServicefifo s = service_loop s MT_SUCCESS"

section \<open>Start and stop\<close>

definition DtvCC_DelayTimerInit :: "dtv_code \<Rightarrow> nat \<Rightarrow> u32 \<Rightarrow> dtv_code" where
  "DtvCC_DelayTimerInit s callback module =
     s\<lparr>obj := (obj s)\<lparr>cctimer := fst (CCTimer_Open (cctimer (obj s)) CCTIMER_ID_708DELAY (Some callback) module)\<rparr>\<rparr>"

definition CC708_DEC_Start :: "dtv_code \<Rightarrow> nat \<Rightarrow> u32 \<Rightarrow> dtv_code \<times> mt_ret" where
  "CC708_DEC_Start s callback module = (DtvCC_DelayTimerInit (s\<lparr>cap_Len := 0\<rparr>) callback module, MT_SUCCESS)"

definition CC708_DEC_Stop :: "dtv_code \<Rightarrow> dtv_code \<times> mt_ret" where
  "CC708_DEC_Stop s =
     (if u8IsDelay (obj s) then s\<lparr>obj := DtvCC_DelayTimerStop ((obj s)\<lparr>u8IsDelay := False\<rparr>)\<rparr> else s, MT_SUCCESS)"

section \<open>Commands and the service queue\<close>

text \<open>The handlers leave the command buffer alone, and the service queue except for a reset.\<close>

lemmas handler_defs = osd_call_def push_caption_def DtvCC_EXT1Cmd_def DtvCC_P16Cmd_def DtvCC_DelayCmd_def DtvCC_ResetCmd_def
  DtvCC_SetPenAttributesCmd_def DtvCC_SetPenColorCmd_def DtvCC_SetPenLocationCmd_def DtvCC_SetWindowAttributesCmd_def
  DtvCC_DefineWindowCmd_def DtvCC_DelayTimerStart_def CC708_OSD_Reset_def

lemma svc_set_fields [simp]:
  "cap_Len (svc_set v s) = cap_Len s" "cap_Buf (svc_set v s) = cap_Buf s" "u16MaxColumnNum (svc_set v s) = u16MaxColumnNum s"
  "u16MaxHorizonalCells (svc_set v s) = u16MaxHorizonalCells s" "osd (obj (svc_set v s)) = osd (obj s)"
  "cctimer (obj (svc_set v s)) = cctimer (obj s)" "u8IsDelay (obj (svc_set v s)) = u8IsDelay (obj s)"
  "stCMDBuffer (obj (svc_set v s)) = stCMDBuffer (obj s)" "service (obj (svc_set v s)) = v"
  "svc_set w (svc_set v s) = svc_set w s" "svc_set (service (obj s)) s = s"
  by (simp_all add: svc_set_def)

lemma osd_call_svc: "osd_call c (svc_set v s) = svc_set v (osd_call c s)"
  by (simp add: osd_call_def svc_set_def)

lemma push_caption_svc: "push_caption c (svc_set v s) = map_option (svc_set v) (push_caption c s)"
  by (simp add: push_caption_def svc_set_def)

lemma delay_cmd_svc: "DtvCC_DelayCmd cmd (svc_set v s) = svc_set v (DtvCC_DelayCmd cmd s)"
  by (simp add: DtvCC_DelayCmd_def DtvCC_DelayTimerStart_def svc_set_def)

lemma reset_cmd_svc: "DtvCC_ResetCmd (svc_set v s) = svc_set (slot_flush v) (DtvCC_ResetCmd s)"
  by (simp add: DtvCC_ResetCmd_def CC708_OSD_Reset_def svc_set_def)

lemma attribute_cmds_svc:
  "DtvCC_SetPenAttributesCmd cmd (svc_set v s) = svc_set v (DtvCC_SetPenAttributesCmd cmd s)"
  "DtvCC_SetPenColorCmd cmd (svc_set v s) = svc_set v (DtvCC_SetPenColorCmd cmd s)"
  "DtvCC_SetPenLocationCmd cmd (svc_set v s) = svc_set v (DtvCC_SetPenLocationCmd cmd s)"
  "DtvCC_SetWindowAttributesCmd cmd (svc_set v s) = svc_set v (DtvCC_SetWindowAttributesCmd cmd s)"
  "DtvCC_DefineWindowCmd cmd (svc_set v s) = svc_set v (DtvCC_DefineWindowCmd cmd s)"
  by (simp_all add: DtvCC_SetPenAttributesCmd_def DtvCC_SetPenColorCmd_def DtvCC_SetPenLocationCmd_def
      DtvCC_SetWindowAttributesCmd_def DtvCC_DefineWindowCmd_def Let_def osd_call_svc)

lemma run_command_svc:
  "run_command k cmd (svc_set v s) = map_option (svc_set (if k = 47 then slot_flush v else v)) (run_command k cmd s)"
  by (simp add: run_command_unfold DtvCC_EXT1Cmd_def DtvCC_P16Cmd_def osd_call_svc push_caption_svc delay_cmd_svc reset_cmd_svc
      attribute_cmds_svc Let_def)

lemma run_command_cmd:
  assumes "run_command k cmd s = Some t"
  shows "stCMDBuffer (obj t) = stCMDBuffer (obj s)"
  using assms by (auto simp: run_command_unfold handler_defs Let_def split: if_splits)

text \<open>A handler looks at the bytes of its command only.\<close>

lemma cmd_lengths_values:
  "cmd_lengths ! 16 = 2" "cmd_lengths ! 24 = 3" "cmd_lengths ! 40 = 2" "cmd_lengths ! 41 = 2" "cmd_lengths ! 42 = 2"
  "cmd_lengths ! 43 = 2" "cmd_lengths ! 44 = 2" "cmd_lengths ! 45 = 2" "cmd_lengths ! 48 = 3" "cmd_lengths ! 49 = 4"
  "cmd_lengths ! 50 = 3" "cmd_lengths ! 55 = 5" "56 \<le> k \<Longrightarrow> k < 64 \<Longrightarrow> cmd_lengths ! k = 7"
  by (simp_all add: cmd_lengths_def nth_append) (intro conjI impI; linarith)

lemma run_command_bytes:
  assumes "k < 64" "\<And>j. j < cmd_lengths ! k \<Longrightarrow> c ! j = d ! j"
  shows "run_command k c s = run_command k d s"
proof -
  have 0: "c ! 0 = d ! 0" using assms(2) [of 0] cmd_lengths_pos [OF assms(1)] by simp
  have two: "c ! 1 = d ! 1" if "2 \<le> cmd_lengths ! k" using assms(2) [of 1] that by simp
  have three: "c ! 2 = d ! 2" if "3 \<le> cmd_lengths ! k" using assms(2) [of 2] that by simp
  have four: "c ! 3 = d ! 3" if "4 \<le> cmd_lengths ! k" using assms(2) [of 3] that by simp
  have five: "c ! 4 = d ! 4" if "5 \<le> cmd_lengths ! k" using assms(2) [of 4] that by simp
  have seven: "c ! 5 = d ! 5" "c ! 6 = d ! 6" if "7 \<le> cmd_lengths ! k" using assms(2) [of 5] assms(2) [of 6] that by simp_all
  consider "k = 16" | "k = 24" | "k \<in> {40, 41, 42, 43, 44, 45}" | "k = 48" | "k = 49" | "k = 50" | "k = 55" | "56 \<le> k"
    | "k \<notin> {16, 24, 40, 41, 42, 43, 44, 45, 48, 49, 50, 55}" "k < 56" by fastforce
  then show ?thesis
  proof cases
    case 1 then show ?thesis using two by (simp add: run_command_unfold DtvCC_EXT1Cmd_def cmd_lengths_values)
  next
    case 2 then show ?thesis using two three by (simp add: run_command_unfold DtvCC_P16Cmd_def cmd_lengths_values)
  next
    case 3 then show ?thesis using two by (auto simp: run_command_unfold DtvCC_DelayCmd_def cmd_lengths_values)
  next
    case 4 then show ?thesis using two three by (simp add: run_command_unfold DtvCC_SetPenAttributesCmd_def get_bits_def cmd_lengths_values)
  next
    case 5 then show ?thesis using two three four by (simp add: run_command_unfold DtvCC_SetPenColorCmd_def get_bits_def cmd_lengths_values)
  next
    case 6 then show ?thesis using two three by (simp add: run_command_unfold DtvCC_SetPenLocationCmd_def get_bits_def cmd_lengths_values)
  next
    case 7 then show ?thesis
      using two three four five by (simp add: run_command_unfold DtvCC_SetWindowAttributesCmd_def get_bits_def cmd_lengths_values)
  next
    case 8
    then have k: "cmd_lengths ! k = 7" using assms(1) by (simp add: cmd_lengths_values)
    show ?thesis
      using 0 two three four five seven k 8 assms(1) by (simp add: run_command_unfold DtvCC_DefineWindowCmd_def get_bits_def Let_def)
  next
    case 9 then show ?thesis using 0 by (simp add: run_command_unfold get_bits_def)
  qed
qed

text \<open>Complete commands and characters, and what each does.\<close>

definition good_token :: "u8 list \<Rightarrow> bool" where
  "good_token t \<longleftrightarrow> t \<noteq> [] \<and> length t = (if is_cmd (t ! 0) then cmd_len t 0 (length t) else 1)"

definition run_token :: "u8 list \<Rightarrow> dtv_code \<Rightarrow> dtv_code option" where
  "run_token t s =
     (if is_cmd (t ! 0)
      then run_command (cmd_index (t ! 0)) t (if draws_caption (t ! 0) then draw_caption s else s)
      else push_caption (caption_char (t ! 0)) s)"

fun run_tokens :: "u8 list list \<Rightarrow> dtv_code \<Rightarrow> dtv_code option" where
  "run_tokens [] s = Some s"
| "run_tokens (t # ts) s = Option.bind (run_token t s) (run_tokens ts)"

lemma run_tokens_append: "run_tokens (ts @ us) s = Option.bind (run_tokens ts s) (run_tokens us)"
  by (induction ts arbitrary: s) (simp_all add: bind_eq_None_conv split: bind_split)

definition resets :: "u8 list \<Rightarrow> bool" where
  "resets t \<longleftrightarrow> is_cmd (t ! 0) \<and> cmd_index (t ! 0) = 47"

lemma draw_caption_svc: "draw_caption (svc_set v s) = svc_set v (draw_caption s)"
  by (simp add: draw_caption_def osd_call_def svc_set_def)

lemma run_token_svc:
  "run_token t (svc_set v s) = map_option (svc_set (if resets t then slot_flush v else v)) (run_token t s)"
  by (simp add: run_token_def resets_def run_command_svc push_caption_svc draw_caption_svc)

lemma run_token_cmd: "run_token t s = Some s' \<Longrightarrow> stCMDBuffer (obj s') = stCMDBuffer (obj s)"
  by (auto simp: run_token_def push_caption_def draw_caption_def osd_call_def dest!: run_command_cmd split: if_splits)

lemma flush_flush [simp]: "slot_flush (slot_flush v) = slot_flush v"
  by (simp add: slot_flush_def CCQueue_Flush_def)

lemma run_tokens_svc:
  "run_tokens ts (svc_set v s) = map_option (svc_set (if list_ex resets ts then slot_flush v else v)) (run_tokens ts s)"
proof (induction ts arbitrary: s v)
  case (Cons t ts)
  then show ?case by (cases "run_token t s") (simp_all add: run_token_svc)
qed simp

lemma run_tokens_cmd: "run_tokens ts s = Some s' \<Longrightarrow> stCMDBuffer (obj s') = stCMDBuffer (obj s)"
proof (induction ts arbitrary: s)
  case (Cons t ts)
  then show ?case by (cases "run_token t s") (auto dest: run_token_cmd)
qed simp

lemma run_tokens_service:
  assumes "run_tokens ts s = Some s'"
  shows "service (obj s') = (if list_ex resets ts then slot_flush (service (obj s)) else service (obj s))"
proof -
  have "Some s' = Some (svc_set (if list_ex resets ts then slot_flush (service (obj s)) else service (obj s)) s')"
    using run_tokens_svc [of ts "service (obj s)" s] assms by simp
  then have "service (obj s') = service (obj (svc_set (if list_ex resets ts then slot_flush (service (obj s)) else service (obj s)) s'))"
    by simp
  then show ?thesis by (simp only: svc_set_fields)
qed

text \<open>The loop decodes the tokens one by one.\<close>

lemma token_at:
  assumes "mem_read buf i (len - i) = t @ rest" "good_token t" "i < len" "len \<le> length buf"
  shows "buf ! i = t ! 0" "length t \<le> len - i" "is_cmd (t ! 0) \<Longrightarrow> cmd_len buf i len = length t"
    "\<And>j. j < length t \<Longrightarrow> buf ! (i + j) = t ! j"
proof -
  have l: "length (t @ rest) = len - i" using assms(1,3,4) by (metis assms(1) length_mem_read le_add_diff_inverse less_imp_le_nat)
  then show lt: "length t \<le> len - i" by simp
  show at: "buf ! (i + j) = t ! j" if "j < length t" for j
  proof -
    have "mem_read buf i (len - i) ! j = buf ! (i + j)" using that lt assms(3,4) by (simp add: mem_read_def)
    then show ?thesis using that by (simp add: assms(1) nth_append)
  qed
  have ne: "0 < length t" using assms(2) by (simp add: good_token_def)
  then show b: "buf ! i = t ! 0" using at [of 0] by simp
  show "cmd_len buf i len = length t" if c: "is_cmd (t ! 0)"
  proof (cases "t ! 0 = C0_EXT1")
    case False then show ?thesis using assms(2) b c by (simp add: good_token_def cmd_len_def)
  next
    case True
    then have g: "length t = DtvCC_GetEXT1CmdLen t 0 (length t)" using assms(2) c by (simp add: good_token_def cmd_len_def)
    also have "DtvCC_GetEXT1CmdLen t 0 (length t) \<ge> 2" using ne by (simp add: DtvCC_GetEXT1CmdLen_def Let_def Suc_le_eq)
    finally have two: "2 \<le> length t" .
    then have "buf ! (i + 1) = t ! 1" using at [of 1] by simp
    then have b1: "buf ! Suc i = t ! Suc 0" by simp
    have "DtvCC_GetEXT1CmdLen buf i (len - i) = length t"
    proof (cases "3 \<le> length t")
      case three: True
      then have "buf ! (i + 2) = t ! 2" "3 \<le> len - i" using at [of 2] lt by simp_all
      then have "DtvCC_GetEXT1CmdLen buf i (len - i) = DtvCC_GetEXT1CmdLen t 0 (length t)"
        using b1 three by (simp add: DtvCC_GetEXT1CmdLen_def Let_def numeral_2_eq_2)
      then show ?thesis using g by simp
    next
      case False
      then have l: "length t = 2" using two by simp
      have "2 = DtvCC_GetEXT1CmdLen t 0 2" using g unfolding l .
      then show ?thesis using b1 l by (auto simp: DtvCC_GetEXT1CmdLen_def Let_def split: if_splits)
    qed
    then show ?thesis using True b by (simp add: cmd_len_def)
  qed
qed

lemma step_token:
  assumes "mem_read buf i (len - i) = t @ rest" "good_token t" "i < len" "len \<le> length buf"
  shows "parse_step buf len i s = map_option (\<lambda>s. Inr (s, i + length t)) (run_token t s)"
    and "mem_read buf (i + length t) (len - (i + length t)) = rest"
proof -
  note a = token_at [OF assms]
  have k: "run_command (cmd_index (t ! 0)) (drop i buf) = run_command (cmd_index (t ! 0)) t" if c: "is_cmd (t ! 0)"
  proof
    fix s
    have n: "cmd_lengths ! cmd_index (t ! 0) \<le> length t"
    proof (cases "t ! 0 = C0_EXT1")
      case True
      have "cmd_len t 0 (length t) = length t" "0 < length t" using assms(2) c by (simp_all add: good_token_def)
      moreover have "cmd_lengths ! cmd_index C0_EXT1 = 2" by (simp add: cmd_index_def cmd_lengths_values)
      ultimately show ?thesis
        using True by (simp add: cmd_len_def DtvCC_GetEXT1CmdLen_def Let_def Suc_le_eq split: if_splits)
    next
      case False then show ?thesis using assms(2) c by (simp add: good_token_def cmd_len_def)
    qed
    show "run_command (cmd_index (t ! 0)) (drop i buf) s = run_command (cmd_index (t ! 0)) t s"
      by (rule run_command_bytes [OF cmd_index_less]) (use n a(2,4) assms(3,4) in simp)
  qed
  have "\<not> is_cmd (t ! 0) \<Longrightarrow> length t = 1" using assms(2) by (simp add: good_token_def)
  then show "parse_step buf len i s = map_option (\<lambda>s. Inr (s, i + length t)) (run_token t s)"
    using a(1,2,3) k by (simp add: parse_step_def run_token_def Let_def)
  have "mem_read buf (i + length t) (len - (i + length t)) = drop (length t) (mem_read buf i (len - i))"
    by (simp add: mem_read_def drop_take add.commute)
  then show "mem_read buf (i + length t) (len - (i + length t)) = rest" by (simp add: assms(1))
qed

lemma parse_loop_tokens:
  assumes "mem_read buf i (len - i) = concat ts" "list_all good_token ts" "i \<le> len" "len \<le> length buf"
  shows "parse_loop buf len i s = run_tokens ts s"
  using assms(1,2,3)
proof (induction ts arbitrary: i s)
  case Nil
  have "len - i = 0" using Nil(1,3) assms(4) length_mem_read [of i "len - i" buf] by simp
  then show ?case by (simp add: parse_loop.simps [of buf len i])
next
  case (Cons t ts)
  have g: "good_token t" "list_all good_token ts" using Cons.prems(2) by simp_all
  have "length (mem_read buf i (len - i)) = len - i" using Cons.prems(3) assms(4) length_mem_read [of i "len - i" buf] by simp
  then have i: "i < len" using Cons.prems(1) g(1) by (cases t) (auto simp: good_token_def)
  have m: "mem_read buf i (len - i) = t @ concat ts" using Cons.prems(1) by simp
  note st = step_token [OF m g(1) i assms(4)]
  have le: "i + length t \<le> len" using token_at(2) [OF m g(1) i assms(4)] i by simp
  show ?case
    using st(1) [of s] Cons.IH [OF st(2) g(2) le] i
    by (cases "run_token t s") (simp_all add: parse_loop.simps [of buf len i])
qed

lemma parse_block_tokens:
  assumes "take len row = concat ts" "ts \<noteq> []" "list_all good_token ts" "len \<le> length row" "stCMDBuffer (obj s) = cmd_buffer_zero"
  shows "DtvCC_ParseServiceBlock row len s = map_option (\<lambda>s. (s, MT_SUCCESS)) (run_tokens ts s)"
proof -
  have "concat ts \<noteq> []" using assms(2,3) by (cases ts) (auto simp: good_token_def)
  then have "len \<noteq> 0" using assms(1) [symmetric] by (intro notI) (simp only: take0 simp_thms)
  moreover have "set_cmd cmd_buffer_zero s = s" using assms(5) by (simp add: set_cmd_def)
  then have "split_command row len s = Some (Inr (s, 0))"
    using assms(5) by (simp add: split_command_def cmd_buffer_zero_def CMD_BUF_SIZE_def)
  moreover have "parse_loop row len 0 s = run_tokens ts s"
    using parse_loop_tokens [of row 0 len ts s] assms(1,3,4) by (simp add: mem_read_def)
  ultimately show ?thesis by (simp add: DtvCC_ParseServiceBlock_def)
qed

section \<open>The service queue\<close>

text \<open>What processing the queue amounts to: the blocks are decoded in order until one of them starts a delay; a
  reset drops the blocks behind it.\<close>

fun fifo_spec :: "u8 list list list \<Rightarrow> dtv_code \<Rightarrow> (dtv_code \<times> u8 list list list) option" where
  "fifo_spec [] s = Some (s, [])"
| "fifo_spec (ts # blocks) s =
     (if u8IsDelay (obj s) then Some (s, ts # blocks)
      else case run_tokens ts s of None \<Rightarrow> None
      | Some s \<Rightarrow> if list_ex resets ts then Some (s, []) else fifo_spec blocks s)"

definition good_blocks :: "u8 list list list \<Rightarrow> bool" where
  "good_blocks blocks \<longleftrightarrow> list_all (\<lambda>ts. ts \<noteq> [] \<and> list_all good_token ts) blocks"

lemma svc_empty_iff: "svc_inv sv \<Longrightarrow> CCQueue_IsEmpty (fst sv) \<longleftrightarrow> svc_items sv = []"
  by (auto simp: slot_inv_def svc_items_def slot_items_def CCQueue_IsEmpty_def contents_empty_iff)

lemma drop_flushed: "slot_drop (slot_flush sv) = slot_flush sv"
  by (simp add: slot_drop_def slot_flush_def CCQueue_Remove_def CCQueue_Flush_def)

lemma fifo_spec_svc: "fifo_spec blocks (svc_set v s) =
    map_option (\<lambda>(t, rest). (svc_set (service (obj t)) t, rest)) (fifo_spec blocks (svc_set v s))"
  by (cases "fifo_spec blocks (svc_set v s)") auto

lemma service_loop_refines:
  assumes "svc_inv (service (obj s))" "svc_items (service (obj s)) = map concat blocks" "good_blocks blocks"
    and "stCMDBuffer (obj s) = cmd_buffer_zero"
  shows "map_option (\<lambda>(t, r). (svc_set sv t, svc_items (service (obj t)), r)) (service_loop s MT_SUCCESS)
    = map_option (\<lambda>(t, rest). (svc_set sv t, map concat rest, MT_SUCCESS)) (fifo_spec blocks (svc_set sv s))"
  using assms
proof (induction blocks arbitrary: s)
  case Nil
  then show ?case using svc_empty_iff [OF Nil(1)] by (subst service_loop.simps) simp
next
  case (Cons ts blocks)
  let ?q = "service (obj s)"
  show ?case
  proof (cases "u8IsDelay (obj s)")
    case True then show ?thesis using Cons.prems(2) by (subst service_loop.simps) simp
  next
    case False
    obtain len where items: "slot_items service_element_fields (\<lambda>n. n) ?q = (len, concat ts) # tl (slot_items service_element_fields (\<lambda>n. n) ?q)"
      using Cons.prems(2) by (cases "slot_items service_element_fields (\<lambda>n. n) ?q") (auto simp: svc_items_def)
    obtain row where row: "slot_get service_element_fields ?q = Some (len, row)" "length row = 32" "take len row = concat ts"
        "len \<le> 32" "svc_inv (slot_drop ?q)"
        "slot_items service_element_fields (\<lambda>n. n) (slot_drop ?q) = tl (slot_items service_element_fields (\<lambda>n. n) ?q)"
      using svc.get_first [OF Cons.prems(1) items] by auto
    have rest: "svc_items (slot_drop ?q) = map concat blocks" using row(6) Cons.prems(2) by (simp add: svc_items_def map_tl)
    have g: "ts \<noteq> []" "list_all good_token ts" "good_blocks blocks" using Cons.prems(3) by (simp_all add: good_blocks_def)
    note pb = parse_block_tokens [OF row(3) g(1,2) _ Cons.prems(4), of]
    have nonempty: "\<not> CCQueue_IsEmpty (fst ?q)" using svc_empty_iff [OF Cons.prems(1)] Cons.prems(2) by simp
    show ?thesis
    proof (cases "run_tokens ts s")
      case None
      then show ?thesis
        using pb row nonempty False by (subst service_loop.simps) (simp add: run_tokens_svc)
    next
      case (Some t)
      let ?t = "svc_set (slot_drop (service (obj t))) t"
      have step: "service_loop s MT_SUCCESS = service_loop ?t MT_SUCCESS"
        using pb row nonempty False Some by (subst service_loop.simps) simp
      have cmd: "stCMDBuffer (obj ?t) = cmd_buffer_zero" using run_tokens_cmd [OF Some] Cons.prems(4) by simp
      note sv = run_tokens_service [OF Some]
      show ?thesis
      proof (cases "list_ex resets ts")
        case True
        have e: "svc_inv (service (obj ?t))" "svc_items (service (obj ?t)) = []"
          using sv True svc.flush_empty [OF Cons.prems(1)] by (simp_all add: drop_flushed svc_items_def)
        have "service_loop ?t MT_SUCCESS = Some (?t, MT_SUCCESS)"
          using svc_empty_iff [OF e(1)] e(2) by (subst service_loop.simps) simp
        then show ?thesis using step True False Some e by (simp add: run_tokens_svc)
      next
        case noreset: False
        have "svc_inv (service (obj ?t))" "svc_items (service (obj ?t)) = map concat blocks"
          using sv noreset row(5) rest by simp_all
        note IH = Cons.IH [OF this g(3) cmd]
        show ?thesis using IH step noreset False Some by (simp add: run_tokens_svc)
      qed
    qed
  qed
qed

section \<open>Text\<close>

definition is_text :: "u8 list \<Rightarrow> bool" where
  "is_text d \<longleftrightarrow> list_all (\<lambda>b. \<not> is_cmd b) d"

definition chars :: "u8 list \<Rightarrow> u8 list list" where
  "chars d = map (\<lambda>b. [b]) d"

definition add_text :: "u8 list \<Rightarrow> dtv_code \<Rightarrow> dtv_code" where
  "add_text d s = s\<lparr>cap_Buf := mem_write (cap_Buf s) (cap_Len s) (map caption_char d), cap_Len := cap_Len s + length d\<rparr>"

definition cap_text :: "dtv_code \<Rightarrow> u16 list" where
  "cap_text s = take (cap_Len s) (cap_Buf s)"

definition cap_ok :: "dtv_code \<Rightarrow> bool" where
  "cap_ok s \<longleftrightarrow> length (cap_Buf s) = CAPTION_BUF_SIZE \<and> cap_Len s \<le> CAPTION_BUF_SIZE"

lemma concat_chars [simp]: "concat (chars d) = d"
  by (simp add: chars_def)

lemma chars_append [simp]: "chars (d @ e) = chars d @ chars e" "chars [] = []" "chars (b # d) = [b] # chars d"
  by (simp_all add: chars_def)

lemma chars_empty [simp]: "chars d = [] \<longleftrightarrow> d = []"
  by (simp add: chars_def)

lemma good_chars: "is_text d \<Longrightarrow> list_all good_token (chars d)"
  by (induction d) (simp_all add: is_text_def good_token_def)

lemma chars_keep: "is_text d \<Longrightarrow> \<not> list_ex resets (chars d)"
  by (induction d) (simp_all add: is_text_def resets_def)

lemma mem_write_Cons:
  "n < length m \<Longrightarrow> mem_write (m[n := x]) (Suc n) xs = mem_write m n (x # xs)"
  by (simp add: mem_write_def take_Suc_conv_app_nth)

lemma mem_write_twice:
  assumes "p + length xs + length ys \<le> length m"
  shows "mem_write (mem_write m p xs) (p + length xs) ys = mem_write m p (xs @ ys)"
proof -
  have "length (take p m) = p" using assms by simp
  then show ?thesis by (simp add: mem_write_def ac_simps)
qed

lemma add_text_fields [simp]:
  "obj (add_text d s) = obj s" "cap_Len (add_text d s) = cap_Len s + length d"
  "svc_set v (add_text d s) = add_text d (svc_set v s)"
  by (simp_all add: add_text_def svc_set_def)

lemma add_text_text:
  assumes "cap_ok s" "cap_Len s + length d \<le> CAPTION_BUF_SIZE"
  shows "cap_ok (add_text d s)" "cap_text (add_text d s) = cap_text s @ map caption_char d"
  using assms by (simp_all add: add_text_def cap_ok_def cap_text_def length_mem_write) (simp add: mem_write_def)

lemma run_chars:
  assumes "is_text d" "cap_ok s"
  shows "run_tokens (chars d) s = (if cap_Len s + length d \<le> CAPTION_BUF_SIZE then Some (add_text d s) else None)"
  using assms
proof (induction d arbitrary: s)
  case Nil
  then show ?case by (simp add: add_text_def mem_write_def cap_ok_def)
next
  case (Cons b d)
  have c: "\<not> is_cmd b" "is_text d" using Cons.prems(1) by (simp_all add: is_text_def)
  show ?case
  proof (cases "cap_Len s < CAPTION_BUF_SIZE")
    case False
    then show ?thesis using c by (simp add: run_token_def push_caption_def)
  next
    case True
    let ?s = "s\<lparr>cap_Buf := (cap_Buf s)[cap_Len s := caption_char b], cap_Len := Suc (cap_Len s)\<rparr>"
    have ok: "cap_ok ?s" using True Cons.prems(2) by (simp add: cap_ok_def)
    have "add_text d ?s = add_text (b # d) s"
      using True Cons.prems(2) by (simp add: add_text_def mem_write_Cons cap_ok_def)
    then show ?thesis using Cons.IH [OF c(2) ok] c(1) True by (simp add: run_token_def push_caption_def)
  qed
qed

lemma fifo_spec_text:
  assumes "list_all is_text datas" "cap_ok s" "\<not> u8IsDelay (obj s)"
  shows "fifo_spec (map chars datas) s =
    (if cap_Len s + length (concat datas) \<le> CAPTION_BUF_SIZE then Some (add_text (concat datas) s, []) else None)"
  using assms
proof (induction datas arbitrary: s)
  case Nil
  then show ?case by (simp add: add_text_def mem_write_def cap_ok_def)
next
  case (Cons d datas)
  have d: "is_text d" "list_all is_text datas" using Cons.prems(1) by simp_all
  show ?case
  proof (cases "cap_Len s + length d \<le> CAPTION_BUF_SIZE")
    case False
    then show ?thesis using run_chars [OF d(1) Cons.prems(2)] Cons.prems(3) by simp
  next
    case True
    note t = add_text_text(1) [OF Cons.prems(2) True]
    have "add_text (concat datas) (add_text d s) = add_text (d @ concat datas) s"
      if "cap_Len s + length d + length (concat datas) \<le> CAPTION_BUF_SIZE"
      using that Cons.prems(2) mem_write_twice [of "cap_Len s" "map caption_char d" "map caption_char (concat datas)" "cap_Buf s"]
      by (simp add: add_text_def cap_ok_def add.assoc)
    then show ?thesis
      using run_chars [OF d(1) Cons.prems(2)] Cons.IH [OF d(2) t] Cons.prems(3) True d(1) by (simp add: chars_keep)
  qed
qed

text \<open>A delay that is running, with its timer: the events of the timer thread and the callbacks they cause.\<close>

definition delay_run :: "cctimer_event list \<Rightarrow> cc708_object \<Rightarrow> cc708_object" where
  "delay_run es s =
     (let (t, calls) = cctimer_run es (cctimer s)
      in foldl (\<lambda>s c. DtvCC_DelayTimerCallback s) (s\<lparr>cctimer := t\<rparr>) (calls_of CCTIMER_ID_708DELAY calls))"

lemma callbacks_delay:
  "u8IsDelay (foldl (\<lambda>s c. DtvCC_DelayTimerCallback s) s calls) = (calls = [] \<and> u8IsDelay s)"
  by (induction calls arbitrary: s) (auto simp: DtvCC_DelayTimerCallback_def)

lemma delay_interval: "unat (word_of_nat (unat (n :: u8) * 100) :: u32) = unat n * 100"
proof -
  have "unat n < 256" using unsigned_less [of n] by simp
  then show ?thesis by (simp only: unsigned_of_nat) (simp add: take_bit_nat_eq_self)
qed

lemma delay_timer:
  fixes s :: dtv_code and cmd :: "u8 list"
  assumes "timer_live (cctimer (obj s))" "pfnHook (hook_of (cctimer (obj s)) CCTIMER_ID_708DELAY) = Some f"
  defines "u \<equiv> obj (DtvCC_DelayCmd cmd s)"
  shows "timer_live (cctimer u)" "u8IsDelay u" "bStart (hook_of (cctimer u) CCTIMER_ID_708DELAY)"
    "pfnHook (hook_of (cctimer u) CCTIMER_ID_708DELAY) = Some f"
    "u32Escape (hook_of (cctimer u) CCTIMER_ID_708DELAY) = 0"
    "enMode (hook_of (cctimer u) CCTIMER_ID_708DELAY) = TIMER_MODE_ONE_SHOOT"
    "period (hook_of (cctimer u) CCTIMER_ID_708DELAY) = max 1 (unat (cmd ! 1) * 100)"
proof -
  obtain t where t: "cctimer (obj s) = Some t" "bRun t" "length (astHook t) = MAX_CC_TIMER"
    using assms(1) by (auto simp: timer_live_def split: option.splits)
  note d = u_def DtvCC_DelayCmd_def DtvCC_DelayTimerStart_def CCTimer_Start_def t CCTIMER_ID_708DELAY_def MAX_CC_TIMER_def
  show "timer_live (cctimer u)" "u8IsDelay u" "bStart (hook_of (cctimer u) CCTIMER_ID_708DELAY)"
    "pfnHook (hook_of (cctimer u) CCTIMER_ID_708DELAY) = Some f"
    "u32Escape (hook_of (cctimer u) CCTIMER_ID_708DELAY) = 0"
    "enMode (hook_of (cctimer u) CCTIMER_ID_708DELAY) = TIMER_MODE_ONE_SHOOT"
    using assms(2) by (simp_all add: d timer_live_def hook_of_def)
  have "u32Interval (hook_of (cctimer u) CCTIMER_ID_708DELAY) = word_of_nat (unat (cmd ! 1) * 100)"
    by (simp add: d hook_of_def)
  then show "period (hook_of (cctimer u) CCTIMER_ID_708DELAY) = max 1 (unat (cmd ! 1) * 100)"
    unfolding period_def by (simp only: delay_interval)
qed

section \<open>Properties\<close>

text \<open>C6. The service queue is processed in order: decoding the queued service blocks byte by byte amounts to running
  the complete commands and characters they hold one after the other, block by block, until a block
  starts a delay (the blocks behind it stay queued) or resets the decoder (they are dropped). The state
  outside the queue and the blocks that remain are those of the specification, and the decoder writes
  out of bounds exactly when the specification does.\<close>

theorem dtvcc_service_queue_refines:
  assumes "svc_inv (service (obj s))" "svc_items (service (obj s)) = map concat blocks" "good_blocks blocks"
    and "stCMDBuffer (obj s) = cmd_buffer_zero"
  shows "map_option (\<lambda>(t, ret). (svc_set sv t, svc_items (service (obj t)), ret)) (CC708_DEC_ProcessServicefifo s)
    = map_option (\<lambda>(t, rest). (svc_set sv t, map concat rest, MT_SUCCESS)) (fifo_spec blocks (svc_set sv s))"
  using service_loop_refines [OF assms] by (simp add: CC708_DEC_ProcessServicefifo_def)

lemma text_blocks:
  "list_all (\<lambda>d. d \<noteq> [] \<and> is_text d) datas \<Longrightarrow> good_blocks (map chars datas)"
  by (induction datas) (auto simp: good_blocks_def good_chars)

text \<open>C33. Text collects in a buffer of 64 characters: processing queued text adds the characters of all blocks behind
  those already there, draws nothing and empties the queue, as long as they fit; when they do not (three
  full service blocks suffice) the decoder writes behind the end of the buffer.\<close>

theorem dtvcc_text_buffer:
  assumes "svc_inv (service (obj s))" "svc_items (service (obj s)) = datas" "list_all (\<lambda>d. d \<noteq> [] \<and> is_text d) datas"
    and "stCMDBuffer (obj s) = cmd_buffer_zero" "\<not> u8IsDelay (obj s)" "cap_ok s"
  shows "case CC708_DEC_ProcessServicefifo s of
      None \<Rightarrow> CAPTION_BUF_SIZE < cap_Len s + length (concat datas)
    | Some (t, ret) \<Rightarrow> cap_Len s + length (concat datas) \<le> CAPTION_BUF_SIZE \<and> ret = MT_SUCCESS \<and> cap_ok t
        \<and> cap_text t = cap_text s @ map caption_char (concat datas)
        \<and> osd (obj t) = osd (obj s) \<and> svc_items (service (obj t)) = []"
proof -
  let ?v = "service (obj s)"
  have "map concat (map chars datas) = datas" by (simp add: comp_def)
  then have it: "svc_items ?v = map concat (map chars datas)" using assms(2) by simp
  have t: "list_all is_text datas" using assms(3) by (simp add: list_all_iff)
  note sp = fifo_spec_text [OF t assms(6,5), of]
  note lp = service_loop_refines [OF assms(1) it text_blocks [OF assms(3)] assms(4), of ?v]
  show ?thesis
  proof (cases "cap_Len s + length (concat datas) \<le> CAPTION_BUF_SIZE")
    case False
    then have "CC708_DEC_ProcessServicefifo s = None"
      using lp sp by (simp add: CC708_DEC_ProcessServicefifo_def)
    then show ?thesis using False by simp
  next
    case True
    then have "map_option (\<lambda>(t, r). (svc_set ?v t, svc_items (service (obj t)), r)) (service_loop s MT_SUCCESS)
      = Some (add_text (concat datas) s, [], MT_SUCCESS)" using lp sp by simp
    then obtain u ret where u: "service_loop s MT_SUCCESS = Some (u, ret)" "svc_set ?v u = add_text (concat datas) s"
        "svc_items (service (obj u)) = []" "ret = MT_SUCCESS" by auto
    have same: "cap_ok u = cap_ok (svc_set ?v u)" "cap_text u = cap_text (svc_set ?v u)" "osd (obj u) = osd (obj (svc_set ?v u))"
      by (simp_all add: cap_ok_def cap_text_def)
    show ?thesis
      using add_text_text [OF assms(6) True] True u by (simp add: CC708_DEC_ProcessServicefifo_def same)
  qed
qed

text \<open>C25. A caption is drawn: when a channel packet carries, in its one block of the selected service, a text that is
  ended by the ETX command, and the packet arrives cut into caption constructs over any number of user
  data units, then parsing the user data and processing the service queue draws exactly this text, once,
  and then executes ETX; nothing remains in the queue, in the text buffer or in the packet buffer.\<close>

theorem dtvcc_caption_drawn:
  assumes "dtv_idle (obj s)" "u8IsStart (obj s)" "seq_ok (obj s) seq" "good_packet seq k blocks"
    and "selected (u32ServiceType (obj s)) blocks = [text @ [0x03]]" "is_text text" "text \<noteq> []" "plain text"
    and "svc_items (service (obj s)) = []" "1 < Size (fst (service (obj s)))" "stCMDBuffer (obj s) = cmd_buffer_zero"
    and "\<not> u8IsDelay (obj s)" "length (cap_Buf s) = CAPTION_BUF_SIZE" "cap_Len s = 0" "length text \<le> CAPTION_BUF_SIZE"
    and "filter channel (concat calls) = packet_constructs (packet_bytes seq k blocks)"
    and "list_all no_end_flag (concat calls)" "list_all (\<lambda>cs. length cs \<le> 31) calls"
  shows "\<exists>u t. feed_calls calls (obj s) = Some u \<and> CC708_DEC_ProcessServicefifo (s\<lparr>obj := u\<rparr>) = Some (t, MT_SUCCESS)
    \<and> osd (obj t) = osd (obj s) @ [OSD_Draw (map caption_char text), OSD_ETX] \<and> svc_items (service (obj t)) = []
    \<and> cap_Len t = 0 \<and> pk_CurSize (stPacket u) = 0"
proof -
  have p: "list_all plain (selected (u32ServiceType (obj s)) blocks)" using assms(5,8) by (simp add: plain_def)
  have room: "length (svc_items (service (obj s))) + length (selected (u32ServiceType (obj s)) blocks) < Size (fst (service (obj s)))"
    using assms(5,9,10) by simp
  obtain u where u: "feed_calls calls (obj s) = Some u" "dtv_idle u" "osd u = osd (obj s)" "u8IsDelay u = u8IsDelay (obj s)"
      "stCMDBuffer u = stCMDBuffer (obj s)" "svc_items (service u) = [text @ [0x03]]"
    using packet_fed [OF assms(1-4) p room assms(16-18)] assms(5,9) by auto
  let ?s = "s\<lparr>obj := u\<rparr>" and ?ts = "chars text @ [[0x03]]"
  have ok: "cap_ok ?s" "cap_Len ?s + length text \<le> CAPTION_BUF_SIZE" using assms(13-15) by (simp_all add: cap_ok_def)
  have sv: "svc_inv (service (obj ?s))" "svc_items (service (obj ?s)) = map concat [?ts]" "stCMDBuffer (obj ?s) = cmd_buffer_zero"
    using u assms(11) by (simp_all add: dtv_idle_def dtv_inv_def)
  have etx: "good_token [0x03]" "\<not> resets [0x03]" "is_cmd 0x03" "draws_caption 0x03" "cmd_index 0x03 = 3"
    by (simp_all add: good_token_def is_cmd_def cmd_len_def cmd_index_def cmd_lengths_def nth_append resets_def draws_caption_def)
  have gb: "good_blocks [?ts]" using good_chars [OF assms(6)] etx(1) by (simp add: good_blocks_def)
  let ?w = "add_text text ?s"
  have l: "cap_Len ?w = length text" "length text > 0" using assms(7,14) by simp_all
  have "take (cap_Len ?w) (cap_Buf ?w) = map caption_char text"
    using add_text_text(2) [OF ok] assms(14) by (simp add: cap_text_def)
  then have d: "osd (obj (draw_caption ?w)) = osd u @ [OSD_Draw (map caption_char text)]" "cap_Len (draw_caption ?w) = 0"
    using l assms(15) by (simp_all add: draw_caption_def osd_call_def)
  have rt: "run_tokens ?ts ?s = Some (osd_call OSD_ETX (draw_caption ?w))"
    using run_chars [OF assms(6) ok(1), of] ok(2) etx
    by (simp add: run_tokens_append run_token_def run_command_unfold)
  have "fifo_spec [?ts] ?s = Some (osd_call OSD_ETX (draw_caption ?w), [])"
    using rt u(4) assms(12) chars_keep [OF assms(6)] etx(2) by simp
  then have "map_option (\<lambda>(t, r). (svc_set (service u) t, svc_items (service (obj t)), r)) (service_loop ?s MT_SUCCESS)
      = Some (svc_set (service u) (osd_call OSD_ETX (draw_caption ?w)), [], MT_SUCCESS)"
    using service_loop_refines [OF sv(1,2) gb sv(3), of "service u"] by (simp add: svc_set_def)
  then obtain t where t: "service_loop ?s MT_SUCCESS = Some (t, MT_SUCCESS)" "svc_items (service (obj t)) = []"
      "svc_set (service u) t = svc_set (service u) (osd_call OSD_ETX (draw_caption ?w))" by auto
  have "osd (obj t) = osd (obj (svc_set (service u) t))" "cap_Len t = cap_Len (svc_set (service u) t)" by simp_all
  then have "osd (obj t) = osd u @ [OSD_Draw (map caption_char text), OSD_ETX]" "cap_Len t = 0"
    using t(3) d by (simp_all add: osd_call_def)
  then show ?thesis using u t by (auto simp: CC708_DEC_ProcessServicefifo_def dtv_idle_def)
qed

text \<open>C9. A delay ends on time: after the delay command with \<open>n\<close> tenths of a second the decoder waits for exactly
  \<open>max 1 (100 n)\<close> ticks of the timer thread, whatever other timers are used for meanwhile; until then
  processing the service queue changes nothing.\<close>

theorem dtvcc_delay_ends:
  assumes "timer_live (cctimer (obj s))" "pfnHook (hook_of (cctimer (obj s)) CCTIMER_ID_708DELAY) = Some f"
    and "list_all (leaves_alone CCTIMER_ID_708DELAY) es" "s' = DtvCC_DelayCmd cmd s"
  shows "if ticks es < max 1 (unat (cmd ! 1) * 100)
    then u8IsDelay (delay_run es (obj s'))
      \<and> CC708_DEC_ProcessServicefifo (s'\<lparr>obj := delay_run es (obj s')\<rparr>) = Some (s'\<lparr>obj := delay_run es (obj s')\<rparr>, MT_SUCCESS)
    else \<not> u8IsDelay (delay_run es (obj s'))"
proof -
  let ?u = "obj s'"
  note d = delay_timer [OF assms(1,2), of cmd, folded assms(4)]
  obtain t calls where r: "cctimer_run es (cctimer ?u) = (t, calls)" by (cases "cctimer_run es (cctimer ?u)")
  have "calls_of CCTIMER_ID_708DELAY calls = snd (hook_ticks (ticks es) (hook_of (cctimer ?u) CCTIMER_ID_708DELAY))"
    using run_hook [OF d(1) _ assms(3) r] by (simp add: CCTIMER_ID_708DELAY_def MAX_CC_TIMER_def) (metis snd_conv)
  also have "\<dots> = (if ticks es < max 1 (unat (cmd ! 1) * 100) then []
      else [(f, u32Args (hook_of (cctimer ?u) CCTIMER_ID_708DELAY))])"
    using hook_fires_once [OF d(3,4) _ d(6), of "ticks es"] d(5,7) by simp
  finally have "u8IsDelay (delay_run es ?u) = (ticks es < max 1 (unat (cmd ! 1) * 100))"
    using d(2) by (simp add: delay_run_def r callbacks_delay)
  then show ?thesis by (auto simp: CC708_DEC_ProcessServicefifo_def service_loop.simps)
qed

lemma c0_index: "n < 16 \<Longrightarrow> cmd_index (word_of_nat n) = n"
proof -
  have "list_all (\<lambda>n. cmd_index (word_of_nat n) = n) [0..<16]" by code_simp
  then show "n < 16 \<Longrightarrow> cmd_index (word_of_nat n) = n" by (simp add: list_all_length)
qed

text \<open>A command that is split over two service blocks is lost: the parser looks up the handler of the continued
  command in the byte that continues it, not in the first byte of the command. A pen location command
  cut behind its code moves no pen, and its second parameter ends up as a character of the caption;
  in one block the same bytes move the pen.\<close>

theorem dtvcc_split_command_lost:
  assumes "r < 0x10" "r \<notin> {0x03, 0x08, 0x0C, 0x0D, 0x0E}" "0x20 \<le> c" "c < 0x40"
    and "stCMDBuffer (obj s) = cmd_buffer_zero" "cap_ok s" "cap_Len s = 0"
  shows "DtvCC_ParseServiceBlock [0x92, r, c] 3 s = Some (DtvCC_SetPenLocationCmd [0x92, r, c] s, MT_SUCCESS)
    \<and> (\<exists>t. DtvCC_ParseServiceBlock [0x92] 1 s = Some (t, MT_SUCCESS)
      \<and> DtvCC_ParseServiceBlock [r, c] 2 t = Some (add_text [c] s, MT_SUCCESS))"
proof -
  have s0: "set_cmd cmd_buffer_zero s = s" "set_cmd x (set_cmd y s) = set_cmd x s" for x y
    using assms(5) by (simp_all add: set_cmd_def)
  have spl: "is_cmd 0x92" "cmd_index 0x92 = 50" "draws_caption 0x92" "draw_caption s = s"
    using assms(7) by (simp_all add: is_cmd_def cmd_index_def draws_caption_def draw_caption_def)
  have "good_token [0x92, r, c]" by (simp add: good_token_def spl cmd_len_def cmd_lengths_values)
  then have whole: "DtvCC_ParseServiceBlock [0x92, r, c] 3 s = Some (DtvCC_SetPenLocationCmd [0x92, r, c] s, MT_SUCCESS)"
    using parse_block_tokens [of 3 "[0x92, r, c]" "[[0x92, r, c]]" s] assms(5)
    by (simp add: run_token_def spl run_command_unfold)
  define t where "t = set_cmd \<lparr>cm_CMD = [0x92, 0, 0, 0, 0, 0, 0, 0], cm_TotalSize = 3, cm_CurSize = 1\<rparr> s"
  have t0: "stCMDBuffer (obj t) = \<lparr>cm_CMD = [0x92, 0, 0, 0, 0, 0, 0, 0], cm_TotalSize = 3, cm_CurSize = 1\<rparr>"
    by (simp add: t_def set_cmd_def)
  have r8: "replicate 8 (0 :: u8) = [0, 0, 0, 0, 0, 0, 0, 0]" by (simp add: numeral_eq_Suc)
  have "split_command [0x92] 1 s = Some (Inr (s, 0))"
    using assms(5) s0(1) by (simp add: split_command_def cmd_buffer_zero_def CMD_BUF_SIZE_def)
  moreover have "parse_step [0x92] 1 0 s = Some (Inl t)"
    using assms(5) r8 by (simp add: parse_step_def spl cmd_len_def cmd_lengths_values cmd_copy_def CMD_BUF_SIZE_def mem_read_def
        mem_write_def cmd_buffer_zero_def t_def Let_def)
  ultimately have first: "DtvCC_ParseServiceBlock [0x92] 1 s = Some (t, MT_SUCCESS)"
    by (simp add: DtvCC_ParseServiceBlock_def parse_loop.simps)
  have n: "unat r < 16" "unat r \<notin> {3, 8, 12, 13, 14}"
    using assms(1,2) by (auto simp: word_less_nat_alt word_unat_eq_iff)
  then have "cmd_index r = unat r" using c0_index [of "unat r"] by simp
  then have r: "cmd_lengths ! cmd_index r = 1" "run_command (cmd_index r) cmd v = Some v" for cmd v
    using n by (simp_all add: cmd_lengths_def nth_append run_command_unfold)
  have "split_command [r, c] 2 t = Some (Inr (s, 1))"
    using r s0 by (simp add: split_command_def t0 cmd_copy_def CMD_BUF_SIZE_def mem_write_def) (simp add: t_def s0)
  moreover have c: "\<not> is_cmd c" using assms(3,4) by (auto simp: is_cmd_def word_less_nat_alt word_le_nat_alt)
  then have "push_caption (caption_char c) s = Some (add_text [c] s)"
    using run_chars [of "[c]" s] assms(6,7)
    by (cases "push_caption (caption_char c) s") (simp_all add: is_text_def run_token_def CAPTION_BUF_SIZE_def)
  then have "parse_step [r, c] 2 1 s = Some (Inr (add_text [c] s, 2))"
    using c by (simp add: parse_step_def)
  ultimately have "DtvCC_ParseServiceBlock [r, c] 2 t = Some (add_text [c] s, MT_SUCCESS)"
    by (simp add: DtvCC_ParseServiceBlock_def parse_loop.simps)
  then show ?thesis using whole first by blast
qed

section \<open>Witnesses\<close>

definition dtv_coder :: "cc708_object \<Rightarrow> dtv_code" where
  "dtv_coder u = \<lparr>obj = u, cap_Buf = replicate CAPTION_BUF_SIZE 0, cap_Len = 0, u16MaxColumnNum = 42, u16MaxHorizonalCells = 210\<rparr>"

lemma coder_fields [simp]:
  "obj (dtv_coder u) = u" "length (cap_Buf (dtv_coder u)) = CAPTION_BUF_SIZE" "cap_Len (dtv_coder u) = 0" "cap_ok (dtv_coder u)"
  by (simp_all add: dtv_coder_def cap_ok_def)

text \<open>The decoder with some blocks in its queue.\<close>

definition dtv_queue :: "u8 list list \<Rightarrow> cc708_object" where
  "dtv_queue datas = dtv_ready\<lparr>service := foldl (\<lambda>sv d. fst (slot_put service_element sv (length d) d)) (service dtv_ready) datas\<rparr>"

lemma queue_blocks:
  assumes "svc_inv sv" "list_all (\<lambda>d. length d \<le> 32) datas" "length (svc_items sv) + length datas < Size (fst sv)"
  shows "svc_inv (foldl (\<lambda>sv d. fst (slot_put service_element sv (length d) d)) sv datas)
    \<and> svc_items (foldl (\<lambda>sv d. fst (slot_put service_element sv (length d) d)) sv datas) = svc_items sv @ datas"
  using assms
proof (induction datas arbitrary: sv)
  case (Cons d datas)
  obtain sv' ok where p: "slot_put service_element sv (length d) d = (sv', ok)" by (cases "slot_put service_element sv (length d) d")
  have d: "length d \<le> 32" "list_all (\<lambda>d. length d \<le> 32) datas" using Cons.prems(2) by simp_all
  have f: "Suc (length (svc_items sv)) < Size (fst sv)" using Cons.prems(3) by simp
  show ?case
    using Cons.IH [of sv'] slot_put_inv [OF Cons.prems(1) d(1) refl p] svc_put [OF Cons.prems(1) f d(1) p] d(2) Cons.prems(3) p
    by simp
qed simp

lemma queue_ready:
  assumes "list_all (\<lambda>d. length d \<le> 32) datas" "length datas < 128"
  shows "svc_inv (service (dtv_queue datas))" "svc_items (service (dtv_queue datas)) = datas"
    "stCMDBuffer (dtv_queue datas) = cmd_buffer_zero" "\<not> u8IsDelay (dtv_queue datas)" "osd (dtv_queue datas) = []"
  using queue_blocks [OF ready_service(1) assms(1)] assms(2) ready_service
  by (simp_all add: dtv_queue_def) (simp_all add: dtv_ready_def)

text \<open>Two blocks, the second with a delay, and a third behind it: the third stays in the queue.\<close>

theorem dtvcc_service_queue_refines_witness:
  "\<exists>t. CC708_DEC_ProcessServicefifo (dtv_coder (dtv_queue [[0x48, 0x03], [0x8D, 5], [0x69]])) = Some (t, MT_SUCCESS)
    \<and> osd (obj t) = [OSD_Draw [0x48], OSD_ETX] \<and> svc_items (service (obj t)) = [[0x69]]"
proof -
  let ?blocks = "[[[0x48], [0x03]], [[0x8D, 5]], [[0x69]]] :: u8 list list list"
  let ?s = "dtv_coder (dtv_queue (map concat ?blocks))" and ?sv = "service dtv_ready"
  note q = queue_ready [of "map concat ?blocks"]
  have cmds: "is_cmd 0x03" "is_cmd 0x8D" "\<not> is_cmd 0x48" "\<not> is_cmd 0x69" "cmd_index 0x03 = 3" "cmd_index 0x8D = 45"
    by (simp_all add: is_cmd_def cmd_index_def)
  have len: "cmd_lengths ! 3 = 1" by (simp add: cmd_lengths_def nth_append)
  have g: "good_blocks ?blocks" by (simp add: good_blocks_def good_token_def cmds cmd_len_def cmd_lengths_values len)
  define u where "u = svc_set ?sv ?s"
  define u1 where "u1 = osd_call OSD_ETX (draw_caption (add_text [0x48] u))"
  have u: "cap_ok u" "cap_Len u = 0" "\<not> u8IsDelay (obj u)" "osd (obj u) = []" "cap_text u = []"
    using q by (simp_all add: u_def cap_ok_def cap_text_def)
  have a: "cap_text (add_text [0x48] u) = [0x48]" "cap_ok (add_text [0x48] u)"
    using add_text_text [OF u(1), of "[0x48]"] u(2,5) by (simp_all add: CAPTION_BUF_SIZE_def caption_char_def)
  then have u1: "cap_Len u1 = 0" "osd (obj u1) = [OSD_Draw [0x48], OSD_ETX]" "u8IsDelay (obj u1) = u8IsDelay (obj u)"
    using u by (simp_all add: u1_def draw_caption_def osd_call_def cap_text_def CAPTION_BUF_SIZE_def)
  then have d: "draw_caption u1 = u1" by (simp add: draw_caption_def)
  have p: "push_caption (caption_char 0x48) u = Some (add_text [0x48] u)"
    using run_chars [of "[0x48]" u] u cmds
    by (cases "push_caption (caption_char 0x48) u") (simp_all add: is_text_def run_token_def CAPTION_BUF_SIZE_def)
  have "fifo_spec ?blocks u = Some (DtvCC_DelayCmd [0x8D, 5] u1, [[[0x69]]])"
    using u(3) u1(3) d p by (simp add: run_token_def cmds resets_def draws_caption_def run_command_unfold u1_def [symmetric])
      (simp add: DtvCC_DelayCmd_def DtvCC_DelayTimerStart_def)
  moreover have "osd (obj (DtvCC_DelayCmd [0x8D, 5] u1)) = [OSD_Draw [0x48], OSD_ETX]"
    using u1(2) by (simp add: DtvCC_DelayCmd_def DtvCC_DelayTimerStart_def)
  ultimately show ?thesis
    using dtvcc_service_queue_refines [of ?s ?blocks ?sv] q g
    by (auto simp: u_def dest!: arg_cong [where f = "\<lambda>s. osd (obj s)"])
qed

theorem dtvcc_text_buffer_witness:
  "CC708_DEC_ProcessServicefifo (dtv_coder (dtv_queue [replicate 31 0x41, replicate 31 0x42, [0x43, 0x44, 0x45]])) = None"
proof -
  let ?datas = "[replicate 31 0x41, replicate 31 0x42, [0x43, 0x44, 0x45]] :: u8 list list"
  have t: "list_all (\<lambda>d. d \<noteq> [] \<and> is_text d) ?datas" by (simp add: is_text_def is_cmd_def list_all_iff)
  show ?thesis
    using dtvcc_text_buffer [of "dtv_coder (dtv_queue ?datas)" ?datas] t queue_ready [of ?datas]
    by (simp add: CAPTION_BUF_SIZE_def split: option.splits)
qed

theorem dtvcc_split_command_lost_witness:
  "\<exists>t. DtvCC_ParseServiceBlock [0x92] 1 (dtv_coder dtv_ready) = Some (t, MT_SUCCESS)
    \<and> DtvCC_ParseServiceBlock [0x02, 0x21] 2 t = Some (add_text [0x21] (dtv_coder dtv_ready), MT_SUCCESS)"
proof -
  have "stCMDBuffer dtv_ready = cmd_buffer_zero" by (simp add: dtv_ready_def)
  then show ?thesis using dtvcc_split_command_lost [of "0x02" "0x21" "dtv_coder dtv_ready"] by auto
qed

theorem dtvcc_delay_ends_witness:
  "\<exists>s. \<not> u8IsDelay (delay_run (replicate 200 Tick) (obj (DtvCC_DelayCmd [0x8D, 2] s)))"
proof -
  define s where "s = dtv_coder (dtv_ready\<lparr>cctimer := Some \<lparr>bRun = True, astHook = (replicate MAX_CC_TIMER cctimer_hook_zero)
    [3 := cctimer_hook_zero\<lparr>pfnHook := Some 8\<rparr>]\<rparr>\<rparr>)"
  have h: "timer_live (cctimer (obj s))" "pfnHook (hook_of (cctimer (obj s)) CCTIMER_ID_708DELAY) = Some 8"
    by (simp_all add: s_def timer_live_def hook_of_def MAX_CC_TIMER_def CCTIMER_ID_708DELAY_def)
  have t: "ticks (replicate 200 Tick) = 200" "list_all (leaves_alone CCTIMER_ID_708DELAY) (replicate 200 Tick)"
    by (simp_all add: ticks_def list_all_length)
  show ?thesis using dtvcc_delay_ends [OF h t(2) refl, of "[0x8D, 2]"] t(1) by auto
qed

text \<open>"Hi" and ETX in one packet of 8 bytes, in two user data units.\<close>

theorem dtvcc_caption_drawn_witness:
  "\<exists>u t. feed_calls [[(0xFC, 0x80, 0x80), (0xFF, 0x04, 0x23), (0xFE, 0x48, 0x69)], [(0xFE, 0x03, 0x41), (0xFE, 0x55, 0)]] dtv_ready = Some u
    \<and> CC708_DEC_ProcessServicefifo ((dtv_coder dtv_ready)\<lparr>obj := u\<rparr>) = Some (t, MT_SUCCESS)
    \<and> osd (obj t) = [OSD_Draw [0x48, 0x69], OSD_ETX]"
proof -
  have p: "packet_bytes 0 4 [(1, [0x48, 0x69, 0x03]), (2, [0x55])] = [0x04, 0x23, 0x48, 0x69, 0x03, 0x41, 0x55, 0]"
    by (simp add: packet_bytes_def Let_def numeral_2_eq_2)
  have t: "u32ServiceType dtv_ready = 1" "u8IsStart dtv_ready" "s32LastSeqenceNo dtv_ready = -1" "osd dtv_ready = []"
    "stCMDBuffer dtv_ready = cmd_buffer_zero" "\<not> u8IsDelay dtv_ready" by (simp_all add: dtv_ready_def)
  have c: "is_text [0x48, 0x69]" "map caption_char [0x48, 0x69] = [0x48, 0x69]"
    by (simp_all add: is_text_def is_cmd_def caption_char_def)
  show ?thesis
    using dtvcc_caption_drawn [of "dtv_coder dtv_ready" 0 4 "[(1, [0x48, 0x69, 0x03]), (2, [0x55])]" "[0x48, 0x69]"
        "[[(0xFC, 0x80, 0x80), (0xFF, 0x04, 0x23), (0xFE, 0x48, 0x69)], [(0xFE, 0x03, 0x41), (0xFE, 0x55, 0)]]"]
      ready_idle(1) ready_service p t c
    by (auto simp: seq_ok_def INVALID_SERVICE_NUM_def good_packet_def selected_def plain_def channel_def no_end_flag_def
        CAPTION_BUF_SIZE_def simp del: feed_calls.simps)
qed

end
