(* ===== verification/Eia608.thy ===== *)
theory Eia608
  imports MT_Base
begin

text \<open>
  The line 21 caption decoder of the caption task, \<open>src/kware/cc/src/mt_cc_parse.c\<close>: byte pairs are characters and
  commands that write into two screens of 15 rows of 32 characters, one shown and one hidden. The
  state is the part of \<open>CLOSEDCP_PARAM_S\<close> that the decoder uses, with the globals \<open>new_channel\<close> and \<open>g_cc_paint\<close>,
  the static \<open>top_field_first\<close> and \<open>show_quantity\<close> of the context; \<open>ctx\<close> is always \<open>ccContext->ccParam\<close>. The calls
  of \<open>pfnCCDisplay\<close> are recorded, the constant fields of their parameters left out. \<open>SYS_GetMS\<close> is an argument. Writing outside a row
  of a screen is \<open>None\<close>. \<open>cc_old_display_param\<close> holds the last text with its own copy of the characters.
\<close>

section \<open>Data\<close>

definition EIA608_SCREEN_ROWS :: nat where "EIA608_SCREEN_ROWS = 15"
definition EIA608_SCREEN_COLUMNS :: nat where "EIA608_SCREEN_COLUMNS = 32"
definition SHOW_TB_OFFSET :: u32 where "SHOW_TB_OFFSET = 20"
definition SHOW_LR_OFFSET :: u32 where "SHOW_LR_OFFSET = 50"
definition SHOW_LINE_HEIGHT :: u32 where "SHOW_LINE_HEIGHT = 50"

datatype eia608_mode = EIA608_MODE_POPON | EIA608_MODE_ROLLUP_2 | EIA608_MODE_ROLLUP_3 | EIA608_MODE_ROLLUP_4
  | EIA608_MODE_PAINTON | EIA608_MODE_TEXT

datatype cc_color = CC_COLOR_TRANSPARENT | CC_COLOR_BLUE | CC_COLOR_GREEN | CC_COLOR_RED | CC_COLOR_WHITE
  | CC_COLOR_YELLOW | CC_COLOR_BLACK | CC_COLOR_CYAN | CC_COLOR_MAGENTA

datatype cc_font = CC_FONT_REGULAR | CC_FONT_ITALICS | CC_FONT_UNDERLINED | CC_FONT_UNDERLINED_ITALICS

datatype cc_charset = CCSET_BASIC_AMERICAN | CCSET_SPECIAL_AMERICAN | CCSET_EXTENDED_SPANISH_FRENCH_MISC
  | CCSET_EXTENDED_PORTUGUESE_GERMAN_DANISH

record eia608_screen =
  characters :: "u8 list list"
  charsets :: "cc_charset list list"
  colors :: "cc_color list list"
  fonts :: "cc_font list list"
  row_used :: u16

text \<open>The parameters of a call of \<open>pfnCCDisplay\<close>: rectangle, text, foreground and background.\<close>

type_synonym cc_argb = "u8 \<times> u8 \<times> u8 \<times> u8"

datatype cc_display = CC_FILLRECT u16 u16 u16 u16 | CC_DRAWTEXT u16 u16 u16 u16 "u16 list" cc_argb cc_argb

record closedcp_param =
  real_time :: bool
  screen :: "eia608_screen list"
  active_screen :: nat
  cursor_row :: nat
  cursor_column :: nat
  cursor_color :: cc_color
  cursor_font :: cc_font
  cursor_charset :: cc_charset
  mode :: eia608_mode
  prev_cmd :: "u8 \<times> u8"
  rollup :: nat
  screen_touched :: bool
  start_time :: u32
  end_time :: u32
  paint_num :: int
  cc_old_display_param :: "cc_display option"
  color :: u32
  bgColor :: u32
  u32DisplayWidth :: u32
  u32DisplayHeight :: u32
  show_quantity :: int
  new_channel :: nat
  g_cc_paint :: bool
  top_field_first :: bool
  calls :: "cc_display list"

definition SET_FLAG :: "u16 \<Rightarrow> nat \<Rightarrow> u16" where "SET_FLAG v i = v OR push_bit i 1"
definition UNSET_FLAG :: "u16 \<Rightarrow> nat \<Rightarrow> u16" where "UNSET_FLAG v i = v AND NOT (push_bit i 1)"
definition CHECK_FLAG :: "u16 \<Rightarrow> nat \<Rightarrow> bool" where "CHECK_FLAG v i \<longleftrightarrow> v AND push_bit i 1 \<noteq> 0"

definition getCcColor :: "u32 \<Rightarrow> cc_argb" where
  "getCcColor c =
     (if c = 0x00000000 then (0, 0, 0, 0)
      else if c = 0xff0000ff then (0xff, 0, 0, 0xff)
      else if c = 0xff00ff00 then (0xff, 0, 0xff, 0)
      else if c = 0xffff0000 then (0xff, 0xff, 0, 0)
      else if c = 0xffffffff then (0xff, 0xff, 0xff, 0xff)
      else if c = 0xffffff00 then (0xff, 0xff, 0xff, 0)
      else if c = 0xff000000 then (0xff, 0, 0, 0)
      else if c = 0xff00ffff then (0xff, 0, 0xff, 0xff)
      else if c = 0xffff00ff then (0xff, 0xff, 0, 0xff)
      else (0, 0, 0, 0))"

text \<open>The non-zero entries of \<open>charset_overrides\<close>.\<close>

fun charset_overrides :: "cc_charset \<Rightarrow> (u8 \<times> u16) list" where
  "charset_overrides CCSET_BASIC_AMERICAN =
     [(0x27, 0x2019), (0x2a, 0x00e1), (0x5c, 0x00e9), (0x5e, 0x00ed), (0x5f, 0x00f3), (0x60, 0x00fa), (0x7b, 0x00e7),
      (0x7c, 0x00f7), (0x7d, 0x00d1), (0x7e, 0x00f1), (0x7f, 0x2588)]"
| "charset_overrides CCSET_SPECIAL_AMERICAN =
     [(0x30, 0x00ae), (0x31, 0x00b0), (0x32, 0x00bd), (0x33, 0x00bf), (0x34, 0x2122), (0x35, 0x00a2), (0x36, 0x00a3),
      (0x37, 0x266a), (0x38, 0x00e0), (0x39, 0x00A0), (0x3a, 0x00e8), (0x3b, 0x00e2), (0x3c, 0x00ea), (0x3d, 0x00ee),
      (0x3e, 0x00f4), (0x3f, 0x00fb)]"
| "charset_overrides CCSET_EXTENDED_SPANISH_FRENCH_MISC =
     [(0x20, 0x00c1), (0x21, 0x00c9), (0x22, 0x00d3), (0x23, 0x00da), (0x24, 0x00dc), (0x25, 0x00fc), (0x26, 0x00b4),
      (0x27, 0x00a1), (0x28, 0xff0a), (0x29, 0x2018), (0x2a, 0x2013), (0x2b, 0x00a9), (0x2c, 0x2120), (0x2d, 0x00b7),
      (0x2e, 0x201c), (0x2f, 0x201d), (0x30, 0x00c0), (0x31, 0x00c2), (0x32, 0x00c7), (0x33, 0x00c8), (0x34, 0x00ca),
      (0x35, 0x00cb), (0x36, 0x00eb), (0x37, 0x00ce), (0x38, 0x00cf), (0x39, 0x00ef), (0x3a, 0x00d4), (0x3b, 0x00d9),
      (0x3c, 0x00f9), (0x3d, 0x00db), (0x3e, 0x00ab), (0x3f, 0x00bb)]"
| "charset_overrides CCSET_EXTENDED_PORTUGUESE_GERMAN_DANISH =
     [(0x20, 0x00c3), (0x21, 0x00e3), (0x22, 0x00cd), (0x23, 0x00cc), (0x24, 0x00ec), (0x25, 0x00d2), (0x26, 0x00f2),
      (0x27, 0x00d5), (0x28, 0x00f5), (0x29, 0x007b), (0x2a, 0x007d), (0x2b, 0x005c), (0x2c, 0x005e), (0x2d, 0x005f),
      (0x2e, 0xff5c), (0x2f, 0xff5e), (0x30, 0x00c4), (0x31, 0x00e4), (0x32, 0x00d6), (0x33, 0x00f6), (0x34, 0x00df),
      (0x35, 0x00a5), (0x36, 0x00a4), (0x37, 0x00a6), (0x38, 0x00c5), (0x39, 0x00e5), (0x3a, 0x00d8), (0x3b, 0x00f8),
      (0x3c, 0x250c), (0x3d, 0x2510), (0x3e, 0x2514), (0x3f, 0x2518)]"

definition unicode_of :: "cc_charset \<Rightarrow> u8 \<Rightarrow> u16" where
  "unicode_of cs ch = (case map_of (charset_overrides cs) ch of None \<Rightarrow> ucast ch | Some u \<Rightarrow> u)"

text \<open>Colour, font and indent by the low five bits of an address code.\<close>

definition pac2_attribs :: "(cc_color \<times> cc_font \<times> nat) list" where
  "pac2_attribs =
     [(CC_COLOR_WHITE, CC_FONT_REGULAR, 0), (CC_COLOR_WHITE, CC_FONT_UNDERLINED, 0),
      (CC_COLOR_GREEN, CC_FONT_REGULAR, 0), (CC_COLOR_GREEN, CC_FONT_UNDERLINED, 0),
      (CC_COLOR_BLUE, CC_FONT_REGULAR, 0), (CC_COLOR_BLUE, CC_FONT_UNDERLINED, 0),
      (CC_COLOR_CYAN, CC_FONT_REGULAR, 0), (CC_COLOR_CYAN, CC_FONT_UNDERLINED, 0),
      (CC_COLOR_RED, CC_FONT_REGULAR, 0), (CC_COLOR_RED, CC_FONT_UNDERLINED, 0),
      (CC_COLOR_YELLOW, CC_FONT_REGULAR, 0), (CC_COLOR_YELLOW, CC_FONT_UNDERLINED, 0),
      (CC_COLOR_MAGENTA, CC_FONT_REGULAR, 0), (CC_COLOR_MAGENTA, CC_FONT_UNDERLINED, 0),
      (CC_COLOR_WHITE, CC_FONT_ITALICS, 0), (CC_COLOR_WHITE, CC_FONT_UNDERLINED_ITALICS, 0),
      (CC_COLOR_WHITE, CC_FONT_REGULAR, 0), (CC_COLOR_WHITE, CC_FONT_UNDERLINED, 0),
      (CC_COLOR_WHITE, CC_FONT_REGULAR, 4), (CC_COLOR_WHITE, CC_FONT_UNDERLINED, 4),
      (CC_COLOR_WHITE, CC_FONT_REGULAR, 8), (CC_COLOR_WHITE, CC_FONT_UNDERLINED, 8),
      (CC_COLOR_WHITE, CC_FONT_REGULAR, 12), (CC_COLOR_WHITE, CC_FONT_UNDERLINED, 12),
      (CC_COLOR_WHITE, CC_FONT_REGULAR, 16), (CC_COLOR_WHITE, CC_FONT_UNDERLINED, 16),
      (CC_COLOR_WHITE, CC_FONT_REGULAR, 20), (CC_COLOR_WHITE, CC_FONT_UNDERLINED, 20),
      (CC_COLOR_WHITE, CC_FONT_REGULAR, 24), (CC_COLOR_WHITE, CC_FONT_UNDERLINED, 24),
      (CC_COLOR_WHITE, CC_FONT_REGULAR, 28), (CC_COLOR_WHITE, CC_FONT_UNDERLINED, 28)]"

section \<open>Drawing\<close>

definition show_text :: "cc_display \<Rightarrow> closedcp_param \<Rightarrow> closedcp_param" where
  "show_text d s = s\<lparr>calls := calls s @ [d]\<rparr>"

definition CcClearScreen :: "closedcp_param \<Rightarrow> closedcp_param" where
  "CcClearScreen s = show_text (CC_FILLRECT 0 0 (ucast (u32DisplayWidth s - 1)) (ucast (u32DisplayHeight s - 1))) s"

text \<open>\<open>strlen\<close> of a row, the index of its first non-blank, and the characters from there to the end.\<close>

definition row_strlen :: "u8 list \<Rightarrow> nat" where
  "row_strlen row = length (takeWhile (\<lambda>c. c \<noteq> 0) row)"

definition row_lead :: "u8 list \<Rightarrow> nat" where
  "row_lead row = length (takeWhile (\<lambda>c. c = 0x20) row)"

definition row_unicode :: "cc_charset list \<Rightarrow> u8 list \<Rightarrow> u16 list" where
  "row_unicode cs row = map (\<lambda>j. unicode_of (cs ! j) (row ! j)) [row_lead row..<row_strlen row]"

text \<open>The display parameters of row \<open>i\<close> of a screen.\<close>

definition row_display :: "closedcp_param \<Rightarrow> eia608_screen \<Rightarrow> nat \<Rightarrow> cc_display" where
  "row_display s scr i =
     (let j = row_lead (characters scr ! i);
          h = (u32DisplayHeight s - 2 * SHOW_TB_OFFSET) div word_of_nat EIA608_SCREEN_ROWS;
          x = ucast (word_of_nat j * (u32DisplayWidth s div word_of_nat EIA608_SCREEN_COLUMNS) + SHOW_LR_OFFSET) :: u16
      in CC_DRAWTEXT x (ucast (SHOW_TB_OFFSET + word_of_nat i * h)) (ucast (u32DisplayWidth s - ucast x))
           (ucast (if h > SHOW_LINE_HEIGHT then SHOW_LINE_HEIGHT else h))
           (row_unicode (charsets scr ! i) (characters scr ! i)) (getCcColor (color s)) (getCcColor (bgColor s)))"

definition set_screen :: "nat \<Rightarrow> eia608_screen \<Rightarrow> closedcp_param \<Rightarrow> closedcp_param" where
  "set_screen k scr s = s\<lparr>screen := (screen s)[k := scr]\<rparr>"

text \<open>The index of the screen that \<open>get_writing_screen\<close> returns.\<close>

definition other_screen :: "nat \<Rightarrow> nat" where
  "other_screen a = (if a = 0 then 1 else 0)"

definition get_writing_screen :: "closedcp_param \<Rightarrow> nat" where
  "get_writing_screen s = (if mode s = EIA608_MODE_POPON then other_screen (active_screen s) else active_screen s)"

text \<open>Writing one character at the cursor: the row is ended behind it.\<close>

definition put_cell :: "closedcp_param \<Rightarrow> u8 \<Rightarrow> eia608_screen \<Rightarrow> eia608_screen" where
  "put_cell s ch scr =
     (let r = cursor_row s; c = cursor_column s
      in scr\<lparr>characters := (characters scr)[r := (characters scr ! r)[c := ch, c + 1 := 0]],
             fonts := (fonts scr)[r := (fonts scr ! r)[c := cursor_font s]],
             charsets := (charsets scr)[r := (charsets scr ! r)[c := cursor_charset s]]\<rparr>)"

text \<open>The row under the cursor is shown outside pop-on mode.\<close>

definition paint_row :: "u32 \<Rightarrow> eia608_screen \<Rightarrow> closedcp_param \<Rightarrow> closedcp_param" where
  "paint_row now scr s =
     (let row = characters scr ! cursor_row s
      in if row_strlen row - row_lead row \<noteq> 0
         then let d = row_display s scr (cursor_row s);
                  s = s\<lparr>paint_num := paint_num s + 1, end_time := now\<rparr>;
                  s = (if paint_num s \<ge> show_quantity s then show_text d (s\<lparr>paint_num := 0\<rparr>) else s)
              in s\<lparr>cc_old_display_param := Some d, g_cc_paint := True\<rparr>
         else s)"

definition write_char :: "u32 \<Rightarrow> nat \<Rightarrow> u8 \<Rightarrow> closedcp_param \<Rightarrow> closedcp_param option" where
  "write_char now k ch s =
     (if mode s = EIA608_MODE_TEXT then Some s
      else if cursor_column s \<ge> EIA608_SCREEN_COLUMNS \<or> cursor_row s \<ge> EIA608_SCREEN_ROWS then None
      else let scr = put_cell s ch (screen s ! k);
               s = (set_screen k scr s)\<lparr>cursor_charset := CCSET_BASIC_AMERICAN\<rparr>
           in Some (if ch \<noteq> 0
                    then let col = cursor_column s;
                             s' = (if col < EIA608_SCREEN_COLUMNS - 1 then s\<lparr>cursor_column := col + 1\<rparr> else s)
                         in if mode s' \<noteq> EIA608_MODE_POPON then paint_row now scr s' else s'
                    else s))"

definition timeout_write_char :: "cc_display \<Rightarrow> closedcp_param \<Rightarrow> closedcp_param" where
  "timeout_write_char d s = show_text d s"

text \<open>All used rows of the active screen are drawn.\<close>

definition capture_row :: "eia608_screen \<Rightarrow> nat \<Rightarrow> closedcp_param \<Rightarrow> closedcp_param" where
  "capture_row scr i s =
     (let row = characters scr ! i
      in if CHECK_FLAG (row_used scr) i \<and> row_strlen row - row_lead row \<noteq> 0
         then show_text (row_display s scr i) (s\<lparr>paint_num := 0\<rparr>) else s)"

definition capture_screen :: "closedcp_param \<Rightarrow> closedcp_param" where
  "capture_screen s =
     (let scr = screen s ! active_screen s
      in if row_used scr = 0 then CcClearScreen s else fold (capture_row scr) [0..<EIA608_SCREEN_ROWS] s)"

section \<open>Commands\<close>

definition roll_row :: "nat \<Rightarrow> nat \<Rightarrow> nat \<Rightarrow> eia608_screen \<Rightarrow> eia608_screen" where
  "roll_row r keep i scr =
     (if row_used scr = 0 then scr
      else let d = (r + 1 - keep + i + EIA608_SCREEN_ROWS) mod EIA608_SCREEN_ROWS;
               e = (r + 1 - keep + i + EIA608_SCREEN_ROWS + 1) mod EIA608_SCREEN_ROWS;
               n = EIA608_SCREEN_COLUMNS
           in scr\<lparr>characters := (characters scr)[d := mem_write (characters scr ! d) 0 (take n (characters scr ! e))],
                  colors := (colors scr)[d := mem_write (colors scr ! d) 0 (take n (colors scr ! e))],
                  fonts := (fonts scr)[d := mem_write (fonts scr ! d) 0 (take n (fonts scr ! e))],
                  charsets := (charsets scr)[d := mem_write (charsets scr ! d) 0 (take n (charsets scr ! e))],
                  row_used := (if CHECK_FLAG (row_used scr) e then SET_FLAG (row_used scr) d else row_used scr)\<rparr>)"

definition unset_outside :: "nat \<Rightarrow> nat \<Rightarrow> nat \<Rightarrow> u16 \<Rightarrow> u16" where
  "unset_outside r keep i v = (if int i > int r - int keep \<and> i \<le> r then v else UNSET_FLAG v i)"

definition roll_up :: "closedcp_param \<Rightarrow> closedcp_param" where
  "roll_up s =
     (if mode s = EIA608_MODE_TEXT then s
      else let k = get_writing_screen s; scr = screen s ! k; r = cursor_row s; keep = min (r + 1) (rollup s);
               scr = scr\<lparr>row_used := fold (unset_outside r keep) [0..<EIA608_SCREEN_ROWS] (row_used scr)\<rparr>;
               scr = fold (roll_row r keep) [0..<keep] scr;
               scr = scr\<lparr>row_used := UNSET_FLAG (row_used scr) r\<rparr>
           in (set_screen k scr s)\<lparr>screen_touched := True\<rparr>)"

definition use_row :: "nat \<Rightarrow> closedcp_param \<Rightarrow> closedcp_param" where
  "use_row k s = set_screen k ((screen s ! k)\<lparr>row_used := SET_FLAG (row_used (screen s ! k)) (cursor_row s)\<rparr>) s"

definition handle_textattr :: "u32 \<Rightarrow> u8 \<Rightarrow> closedcp_param \<Rightarrow> closedcp_param option" where
  "handle_textattr now lo s =
     (let i = unat lo - 0x20; k = get_writing_screen s
      in if i \<ge> 32 then Some s
         else let (c, f, n) = pac2_attribs ! i
              in write_char now k 0x20 (use_row k (s\<lparr>cursor_color := c, cursor_font := f\<rparr>)))"

definition row_map :: "int list" where
  "row_map = [11, -1, 1, 2, 3, 4, 12, 13, 14, 15, 5, 6, 7, 8, 9, 10]"

fun write_spaces :: "u32 \<Rightarrow> nat \<Rightarrow> nat \<Rightarrow> closedcp_param \<Rightarrow> closedcp_param option" where
  "write_spaces now k 0 s = Some s"
| "write_spaces now k (Suc n) s = Option.bind (write_char now k 0x20 s) (write_spaces now k n)"

definition pac_index :: "u8 \<Rightarrow> u8 \<Rightarrow> nat" where
  "pac_index hi lo = unat ((push_bit 1 hi AND 0x0e) OR (drop_bit 5 lo AND 0x01))"

definition handle_pac :: "u32 \<Rightarrow> u8 \<Rightarrow> u8 \<Rightarrow> closedcp_param \<Rightarrow> closedcp_param option" where
  "handle_pac now hi lo s =
     (let row = row_map ! pac_index hi lo; k = get_writing_screen s
      in if row \<le> 0 then Some s
         else let (c, f, indent) = pac2_attribs ! unat (lo AND 0x1f)
              in write_spaces now k indent (s\<lparr>cursor_row := nat (row - 1), cursor_color := c, cursor_font := f,
                   cursor_charset := CCSET_BASIC_AMERICAN, cursor_column := 0\<rparr>))"

definition blank_screen :: eia608_screen where
  "blank_screen =
     \<lparr>characters = replicate EIA608_SCREEN_ROWS (replicate EIA608_SCREEN_COLUMNS 0x20 @ [0]),
      charsets = replicate EIA608_SCREEN_ROWS (replicate (EIA608_SCREEN_COLUMNS + 1) CCSET_BASIC_AMERICAN),
      colors = replicate EIA608_SCREEN_ROWS (replicate (EIA608_SCREEN_COLUMNS + 1) CC_COLOR_TRANSPARENT),
      fonts = replicate EIA608_SCREEN_ROWS (replicate (EIA608_SCREEN_COLUMNS + 1) CC_FONT_REGULAR),
      row_used = 0\<rparr>"

definition handle_edm :: "closedcp_param \<Rightarrow> closedcp_param" where
  "handle_edm s = capture_screen (set_screen (active_screen s) blank_screen s)"

definition handle_eoc :: "closedcp_param \<Rightarrow> closedcp_param" where
  "handle_eoc s =
     (let s = handle_edm s
      in capture_screen (s\<lparr>active_screen := other_screen (active_screen s), cursor_column := 0\<rparr>))"

definition handle_delete_end_of_row :: "u32 \<Rightarrow> closedcp_param \<Rightarrow> closedcp_param option" where
  "handle_delete_end_of_row now s = write_char now (get_writing_screen s) 0 s"

definition back_one :: "closedcp_param \<Rightarrow> closedcp_param" where
  "back_one s = (if cursor_column s > 0 then s\<lparr>cursor_column := cursor_column s - 1\<rparr> else s)"

definition handle_char :: "u32 \<Rightarrow> u8 \<Rightarrow> u8 \<Rightarrow> closedcp_param \<Rightarrow> closedcp_param option" where
  "handle_char now hi lo s =
     (let k = get_writing_screen s; s = use_row k s;
          r = (if hi = 0x11 then Some (s\<lparr>cursor_charset := CCSET_SPECIAL_AMERICAN\<rparr>)
               else if hi = 0x12 then Some ((back_one s)\<lparr>cursor_charset := CCSET_EXTENDED_SPANISH_FRENCH_MISC\<rparr>)
               else if hi = 0x13 then Some ((back_one s)\<lparr>cursor_charset := CCSET_EXTENDED_PORTUGUESE_GERMAN_DANISH\<rparr>)
               else write_char now k hi (s\<lparr>cursor_charset := CCSET_BASIC_AMERICAN\<rparr>))
      in if lo < 0x20 then r else Option.bind r (write_char now k lo))"

text \<open>\<open>i_column\<close> is unsigned: at column 0 it is 255 and the test for a negative column is never true.\<close>

definition handle_erase :: "closedcp_param \<Rightarrow> closedcp_param option" where
  "handle_erase s =
     (let k = get_writing_screen s; scr = screen s ! k; r = cursor_row s; c = (cursor_column s + 255) mod 256
      in if mode s = EIA608_MODE_TEXT then Some s
         else if c > EIA608_SCREEN_COLUMNS \<or> r \<ge> EIA608_SCREEN_ROWS then None
         else Some ((set_screen k (scr\<lparr>characters := (characters scr)[r := (characters scr ! r)[c := 0x20]]\<rparr>) s)
                \<lparr>cursor_column := c\<rparr>))"

definition set_mode :: "eia608_mode \<Rightarrow> closedcp_param \<Rightarrow> closedcp_param" where
  "set_mode m s = s\<lparr>mode := m\<rparr>"

definition set_rollup :: "eia608_mode \<Rightarrow> u8 \<Rightarrow> closedcp_param \<Rightarrow> closedcp_param" where
  "set_rollup m lo s = s\<lparr>mode := m, rollup := unat lo - 0x23\<rparr>"

text \<open>The copy of the characters of the last text is cleared.\<close>

definition clear_old_unicode :: "closedcp_param \<Rightarrow> closedcp_param" where
  "clear_old_unicode s = s\<lparr>cc_old_display_param := map_option (\<lambda>d. case d of CC_DRAWTEXT x y w h t fg bg
     \<Rightarrow> CC_DRAWTEXT x y w h (replicate (length t) 0) fg bg | _ \<Rightarrow> d) (cc_old_display_param s)\<rparr>"

definition carriage_return :: "closedcp_param \<Rightarrow> closedcp_param" where
  "carriage_return s =
     (let s = (if \<not> real_time s then roll_up s else s)
      in clear_old_unicode (capture_screen (CcClearScreen (s\<lparr>cursor_column := 0\<rparr>))))"

definition erase_buffered :: "closedcp_param \<Rightarrow> closedcp_param" where
  "erase_buffered s =
     (let k = other_screen (active_screen s) in set_screen k ((screen s ! k)\<lparr>row_used := 0\<rparr>) s)"

text \<open>The miscellaneous commands of channel 1.\<close>

definition misc_command :: "u32 \<Rightarrow> u8 \<Rightarrow> closedcp_param \<Rightarrow> closedcp_param option" where
  "misc_command now lo s =
     (if lo = 0x20 then Some (set_mode EIA608_MODE_POPON s)
      else if lo = 0x21 then handle_erase s
      else if lo = 0x24 then handle_delete_end_of_row now s
      else if lo = 0x25 then Some (set_rollup EIA608_MODE_ROLLUP_2 lo s)
      else if lo = 0x26 then Some (set_rollup EIA608_MODE_ROLLUP_3 lo s)
      else if lo = 0x27 then Some (set_rollup EIA608_MODE_ROLLUP_4 lo s)
      else if lo = 0x29 then Some (set_mode EIA608_MODE_PAINTON s)
      else if lo = 0x2b then Some (set_mode EIA608_MODE_TEXT s)
      else if lo = 0x2c then Some (handle_edm s)
      else if lo = 0x2d then Some (carriage_return s)
      else if lo = 0x2e then Some (erase_buffered s)
      else if lo = 0x2f then Some (handle_eoc s)
      else Some s)"

fun tab_offset :: "u32 \<Rightarrow> nat \<Rightarrow> closedcp_param \<Rightarrow> closedcp_param option" where
  "tab_offset now 0 s = Some s"
| "tab_offset now (Suc n) s = Option.bind (handle_char now 0x20 0 s) (tab_offset now n)"

definition is_pac :: "u8 \<Rightarrow> u8 \<Rightarrow> bool" where
  "is_pac hi lo \<longleftrightarrow> (hi = 0x10 \<and> 0x40 \<le> lo \<and> lo \<le> 0x5f) \<or> (0x11 \<le> hi \<and> hi \<le> 0x17 \<and> 0x40 \<le> lo \<and> lo \<le> 0x7f)"

definition is_textattr :: "u8 \<Rightarrow> u8 \<Rightarrow> bool" where
  "is_textattr hi lo \<longleftrightarrow> (hi = 0x11 \<and> 0x20 \<le> lo \<and> lo \<le> 0x2f) \<or> (hi = 0x17 \<and> 0x2e \<le> lo \<and> lo \<le> 0x2f)"

definition run_pair :: "u32 \<Rightarrow> u8 \<Rightarrow> u8 \<Rightarrow> closedcp_param \<Rightarrow> closedcp_param option" where
  "run_pair now hi lo s =
     (if is_pac hi lo then handle_pac now hi lo s
      else if is_textattr hi lo then handle_textattr now lo s
      else if hi = 0x14 \<or> hi = 0x15 \<or> hi = 0x1c
      then (if new_channel s \<noteq> 1 then Some s else misc_command now lo s)
      else if 0x11 \<le> hi \<and> hi \<le> 0x13 then handle_char now hi lo s
      else if 0x20 \<le> hi
      then (if new_channel s \<noteq> 1 then Some s else map_option (\<lambda>s. s\<lparr>prev_cmd := (0, 0)\<rparr>) (handle_char now hi lo s))
      else if hi = 0x17 \<and> 0x21 \<le> lo \<and> lo \<le> 0x23 then tab_offset now (unat lo - 0x20) s
      else Some s)"

definition process_cc608 :: "u32 \<Rightarrow> u8 \<Rightarrow> u8 \<Rightarrow> closedcp_param \<Rightarrow> closedcp_param option" where
  "process_cc608 now hi lo s =
     (if hi = 0 \<and> lo = 0 then Some s
      else if prev_cmd s = (hi, lo) then Some s
      else run_pair now hi lo (s\<lparr>prev_cmd := (hi, lo)\<rparr>))"

section \<open>Start\<close>

datatype cc_disp_format = MT_UNF_CC_DF_720X480 | MT_UNF_CC_DF_720X576 | MT_UNF_CC_DF_960X540 | MT_UNF_CC_DF_1280X720
  | MT_UNF_CC_DF_1920X1080 | MT_UNF_CC_DF_BUTT

definition zero_screen :: eia608_screen where
  "zero_screen =
     \<lparr>characters = replicate 15 (replicate 33 0), charsets = replicate 15 (replicate 33 CCSET_BASIC_AMERICAN),
      colors = replicate 15 (replicate 33 CC_COLOR_TRANSPARENT), fonts = replicate 15 (replicate 33 CC_FONT_REGULAR), row_used = 0\<rparr>"

text \<open>\<open>cfg\<close> holds the colours and the format of the 608 or 708 configuration, \<open>None\<close> for another data type. Statics and
  globals other than \<open>new_channel\<close> keep their values.\<close>

definition cc_init_vsb :: "(u32 \<times> u32 \<times> cc_disp_format) option \<Rightarrow> closedcp_param \<Rightarrow> closedcp_param" where
  "cc_init_vsb cfg s =
     (let (c, b, w, h) =
        (case cfg of None \<Rightarrow> (0, 0, 1280, 720)
         | Some (c, b, f) \<Rightarrow> (case f of MT_UNF_CC_DF_720X480 \<Rightarrow> (c, b, 720, 480) | MT_UNF_CC_DF_720X576 \<Rightarrow> (c, b, 720, 576)
             | MT_UNF_CC_DF_960X540 \<Rightarrow> (c, b, 960, 540) | MT_UNF_CC_DF_1280X720 \<Rightarrow> (c, b, 1280, 720)
             | MT_UNF_CC_DF_1920X1080 \<Rightarrow> (c, b, 1920, 1080) | MT_UNF_CC_DF_BUTT \<Rightarrow> (c, b, 1280, 720)))
      in \<lparr>real_time = False, screen = [zero_screen, zero_screen], active_screen = 0, cursor_row = 0, cursor_column = 0,
          cursor_color = CC_COLOR_TRANSPARENT, cursor_font = CC_FONT_REGULAR, cursor_charset = CCSET_BASIC_AMERICAN,
          mode = EIA608_MODE_POPON, prev_cmd = (0, 0), rollup = 0, screen_touched = False, start_time = 0, end_time = 0,
          paint_num = 0, cc_old_display_param = None, color = c, bgColor = b, u32DisplayWidth = w, u32DisplayHeight = h,
          show_quantity = 0, new_channel = 1, g_cc_paint = g_cc_paint s, top_field_first = top_field_first s, calls = calls s\<rparr>)"

definition cc_set_show_mode :: "int \<Rightarrow> closedcp_param \<Rightarrow> closedcp_param" where
  "cc_set_show_mode n s = s\<lparr>show_quantity := n\<rparr>"

section \<open>User data\<close>

fun reverse8_loop :: "nat \<Rightarrow> nat \<Rightarrow> u8 \<Rightarrow> u8 \<Rightarrow> u8" where
  "reverse8_loop 0 k data res = res"
| "reverse8_loop (Suc n) k data res = reverse8_loop n (k + 1) data (push_bit 1 res OR (if data AND push_bit k 1 \<noteq> 0 then 1 else 0))"

definition reverse8 :: "u8 \<Rightarrow> u8" where
  "reverse8 data = reverse8_loop 8 0 data 0"

definition switch_channel :: "u8 \<Rightarrow> closedcp_param \<Rightarrow> closedcp_param" where
  "switch_channel hi s =
     (if 0x10 \<le> hi \<and> hi \<le> 0x17 then s\<lparr>new_channel := 1\<rparr>
      else if 0x18 \<le> hi \<and> hi \<le> 0x1e then s\<lparr>new_channel := 2\<rparr> else s)"

text \<open>One triple: a caption construct of field 1, or a triple of SCTE 20 user data.\<close>

definition cc_triple :: "u32 \<Rightarrow> u8 \<Rightarrow> u8 \<Rightarrow> u8 \<Rightarrow> closedcp_param \<Rightarrow> closedcp_param option" where
  "cc_triple now t b1 b2 s =
     (if t = 0xfc
      then let hi = b1 AND 0x7f; lo = b2 AND 0x7f in process_cc608 now hi lo (switch_channel hi s)
      else if t AND 0xf0 = 0x80 \<or> t AND 0xf0 = 0x40 \<or> t AND 0xf0 = 0x00
      then let s = (if t AND 0xc0 = 0x40 then s\<lparr>top_field_first := True\<rparr>
                    else if t AND 0xc0 = 0x80 then s\<lparr>top_field_first := False\<rparr> else s);
               field = ((t AND 0x3) - 1) AND 0x01;
               field = (if \<not> top_field_first s then field XOR 0x01 else field)
           in if field = 0 then process_cc608 now (reverse8 b1 AND 0x7f) (reverse8 b2 AND 0x7f) s else Some s
      else Some s)"

text \<open>\<open>CcProcess\<close> takes the length in bytes; it returns FALSE always. Every pair has its own reading of the clock.\<close>

fun CcProcess :: "u32 list \<Rightarrow> u8 list \<Rightarrow> closedcp_param \<Rightarrow> closedcp_param option" where
  "CcProcess (now # nows) (t # b1 # b2 # data) s = Option.bind (cc_triple now t b1 b2 s) (CcProcess nows data)"
| "CcProcess nows data s = Some s"

section \<open>Invariant\<close>

text \<open>Rows have 32 cells and a final null character; the cursor is inside the screen.\<close>

definition row_ok :: "u8 list \<Rightarrow> bool" where
  "row_ok row \<longleftrightarrow> length row = 33 \<and> row ! 32 = 0 \<and> list_all (\<lambda>c. c < 0x80) row"

definition screen_ok :: "eia608_screen \<Rightarrow> bool" where
  "screen_ok scr \<longleftrightarrow> length (characters scr) = 15 \<and> list_all row_ok (characters scr)
     \<and> length (charsets scr) = 15 \<and> list_all (\<lambda>r. length r = 33) (charsets scr)
     \<and> length (colors scr) = 15 \<and> list_all (\<lambda>r. length r = 33) (colors scr)
     \<and> length (fonts scr) = 15 \<and> list_all (\<lambda>r. length r = 33) (fonts scr)"

definition eia_inv :: "closedcp_param \<Rightarrow> bool" where
  "eia_inv s \<longleftrightarrow> length (screen s) = 2 \<and> list_all screen_ok (screen s) \<and> active_screen s < 2
     \<and> cursor_row s < 15 \<and> cursor_column s < 32 \<and> rollup s \<le> 4"

text \<open>What only the transport of the pairs changes.\<close>

abbreviation chan :: "closedcp_param \<Rightarrow> nat \<times> bool" where
  "chan s \<equiv> (new_channel s, top_field_first s)"

lemmas eia_sizes = EIA608_SCREEN_ROWS_def EIA608_SCREEN_COLUMNS_def

lemma list_all_update: "list_all P xs \<Longrightarrow> P x \<Longrightarrow> list_all P (xs[i := x])"
  by (auto simp: list_all_iff dest!: set_update_subset_insert [THEN subsetD])

lemma list_all_nth: "list_all P xs \<Longrightarrow> i < length xs \<Longrightarrow> P (xs ! i)"
  by (simp add: list_all_length)

lemma row_ok_put: "row_ok row \<Longrightarrow> c < 32 \<Longrightarrow> ch < 0x80 \<Longrightarrow> row_ok (row[c := ch, c + 1 := 0])"
  by (auto simp: row_ok_def nth_list_update intro!: list_all_update)

lemma row_ok_blank: "row_ok row \<Longrightarrow> c < 32 \<Longrightarrow> row_ok (row[c := 0x20])"
  by (auto simp: row_ok_def nth_list_update intro!: list_all_update)

lemma put_cell_ok:
  assumes "screen_ok scr" "cursor_row s < 15" "cursor_column s < 32" "ch < 0x80"
  shows "screen_ok (put_cell s ch scr)"
proof -
  have "row_ok (characters scr ! cursor_row s)" "length (fonts scr ! cursor_row s) = 33" "length (charsets scr ! cursor_row s) = 33"
    using assms(1,2) by (auto simp: screen_ok_def list_all_length)
  then show ?thesis
    using assms row_ok_put by (auto simp: put_cell_def screen_ok_def Let_def intro!: list_all_update)
qed

lemma set_screen_inv: "eia_inv s \<Longrightarrow> screen_ok scr \<Longrightarrow> eia_inv (set_screen k scr s)"
  by (auto simp: eia_inv_def set_screen_def intro: list_all_update)

lemma inv_screen: "eia_inv s \<Longrightarrow> k < 2 \<Longrightarrow> screen_ok (screen s ! k)"
  by (simp add: eia_inv_def list_all_length)

lemma inv_active: "eia_inv s \<Longrightarrow> active_screen s < 2"
  by (simp add: eia_inv_def)

lemma other_less [simp]: "other_screen a < 2"
  by (simp add: other_screen_def)

lemma writing_less: "eia_inv s \<Longrightarrow> get_writing_screen s < 2"
  by (simp add: get_writing_screen_def inv_active)

text \<open>What drawing leaves alone.\<close>

lemma show_text_fields [simp]:
  "screen (show_text d s) = screen s" "active_screen (show_text d s) = active_screen s" "cursor_row (show_text d s) = cursor_row s"
  "cursor_column (show_text d s) = cursor_column s" "rollup (show_text d s) = rollup s" "mode (show_text d s) = mode s"
  "prev_cmd (show_text d s) = prev_cmd s" "new_channel (show_text d s) = new_channel s" "top_field_first (show_text d s) = top_field_first s" "calls (show_text d s) = calls s @ [d]"
  "cursor_charset (show_text d s) = cursor_charset s"
  by (simp_all add: show_text_def)

lemma paint_row_fields [simp]:
  "screen (paint_row now scr s) = screen s" "active_screen (paint_row now scr s) = active_screen s"
  "cursor_row (paint_row now scr s) = cursor_row s" "cursor_column (paint_row now scr s) = cursor_column s"
  "rollup (paint_row now scr s) = rollup s" "mode (paint_row now scr s) = mode s"
  "prev_cmd (paint_row now scr s) = prev_cmd s" "new_channel (paint_row now scr s) = new_channel s" "top_field_first (paint_row now scr s) = top_field_first s"
  "cursor_charset (paint_row now scr s) = cursor_charset s"
  by (simp_all add: paint_row_def Let_def)

lemma capture_row_fields [simp]:
  "screen (capture_row scr i s) = screen s" "active_screen (capture_row scr i s) = active_screen s"
  "cursor_row (capture_row scr i s) = cursor_row s" "cursor_column (capture_row scr i s) = cursor_column s"
  "rollup (capture_row scr i s) = rollup s" "mode (capture_row scr i s) = mode s"
  "prev_cmd (capture_row scr i s) = prev_cmd s" "new_channel (capture_row scr i s) = new_channel s" "top_field_first (capture_row scr i s) = top_field_first s"
  by (simp_all add: capture_row_def Let_def)

lemma fold_capture_fields [simp]:
  "screen (fold (capture_row scr) is s) = screen s" "active_screen (fold (capture_row scr) is s) = active_screen s"
  "cursor_row (fold (capture_row scr) is s) = cursor_row s" "cursor_column (fold (capture_row scr) is s) = cursor_column s"
  "rollup (fold (capture_row scr) is s) = rollup s" "mode (fold (capture_row scr) is s) = mode s"
  "prev_cmd (fold (capture_row scr) is s) = prev_cmd s" "new_channel (fold (capture_row scr) is s) = new_channel s" "top_field_first (fold (capture_row scr) is s) = top_field_first s"
  by (induction "is" arbitrary: s) simp_all

lemma capture_screen_fields [simp]:
  "screen (capture_screen s) = screen s" "active_screen (capture_screen s) = active_screen s"
  "cursor_row (capture_screen s) = cursor_row s" "cursor_column (capture_screen s) = cursor_column s"
  "rollup (capture_screen s) = rollup s" "mode (capture_screen s) = mode s"
  "prev_cmd (capture_screen s) = prev_cmd s" "new_channel (capture_screen s) = new_channel s" "top_field_first (capture_screen s) = top_field_first s"
  by (simp_all add: capture_screen_def CcClearScreen_def Let_def)

lemma capture_inv: "eia_inv (capture_screen s) = eia_inv s"
  by (simp add: eia_inv_def)

text \<open>Writing a character.\<close>

lemma write_char_eq:
  assumes "eia_inv s" "mode s \<noteq> EIA608_MODE_TEXT"
  shows "write_char now k ch s =
    (let scr = put_cell s ch (screen s ! k); s1 = (set_screen k scr s)\<lparr>cursor_charset := CCSET_BASIC_AMERICAN\<rparr>;
         s2 = s1\<lparr>cursor_column := min 31 (cursor_column s + 1)\<rparr>
     in Some (if ch = 0 then s1 else if mode s \<noteq> EIA608_MODE_POPON then paint_row now scr s2 else s2))"
proof -
  have c: "cursor_column s < 32" "cursor_row s < 15" using assms(1) by (simp_all add: eia_inv_def)
  show ?thesis
  proof (cases "cursor_column s < 31")
    case True
    then have m: "min 31 (cursor_column s + 1) = cursor_column s + 1" by simp
    show ?thesis unfolding m using assms(2) c True by (simp add: write_char_def eia_sizes Let_def set_screen_def)
  next
    case False
    then have eq: "s\<lparr>screen := x, cursor_charset := y, cursor_column := 31\<rparr> = s\<lparr>screen := x, cursor_charset := y\<rparr>" for x y
      using c by (cases s) simp
    have m: "min 31 (cursor_column s + 1) = 31" using False by simp
    show ?thesis unfolding m using assms(2) c False by (simp add: write_char_def eia_sizes Let_def set_screen_def eq)
  qed
qed

lemma write_char_inv:
  assumes "eia_inv s" "k < 2" "ch < 0x80"
  shows "\<exists>s'. write_char now k ch s = Some s' \<and> eia_inv s' \<and> chan s' = chan s"
proof (cases "mode s = EIA608_MODE_TEXT")
  case True
  then show ?thesis using assms(1) by (simp add: write_char_def)
next
  case False
  have "screen_ok (put_cell s ch (screen s ! k))"
    using put_cell_ok inv_screen [OF assms(1,2)] assms by (simp add: eia_inv_def)
  note i = set_screen_inv [OF assms(1) this, of k]
  show ?thesis
    using i assms(1) unfolding write_char_eq [OF assms(1) False] by (cases "ch = 0") (auto simp: Let_def eia_inv_def set_screen_def)
qed

lemma use_row_inv: "eia_inv s \<Longrightarrow> k < 2 \<Longrightarrow> eia_inv (use_row k s)"
  unfolding use_row_def by (rule set_screen_inv) (auto dest: inv_screen simp: screen_ok_def)

lemma use_row_fields [simp]:
  "mode (use_row k s) = mode s" "new_channel (use_row k s) = new_channel s" "top_field_first (use_row k s) = top_field_first s" "cursor_row (use_row k s) = cursor_row s"
  "cursor_column (use_row k s) = cursor_column s" "active_screen (use_row k s) = active_screen s" "prev_cmd (use_row k s) = prev_cmd s"
  "calls (use_row k s) = calls s"
  by (simp_all add: use_row_def set_screen_def)

lemma write_spaces_inv:
  "eia_inv s \<Longrightarrow> k < 2 \<Longrightarrow> \<exists>s'. write_spaces now k n s = Some s' \<and> eia_inv s' \<and> chan s' = chan s"
proof (induction n arbitrary: s)
  case (Suc n)
  obtain t where t: "write_char now k 0x20 s = Some t" "eia_inv t" "chan t = chan s"
    using write_char_inv [OF Suc.prems, of "0x20"] by auto
  then show ?case using Suc.IH [OF t(2) Suc.prems(2)] by simp
qed simp

lemma cursor_updates [simp]:
  "eia_inv s \<Longrightarrow> eia_inv (s\<lparr>cursor_charset := cs\<rparr>)" "eia_inv s \<Longrightarrow> eia_inv (s\<lparr>cursor_color := c, cursor_font := f\<rparr>)"
  "eia_inv s \<Longrightarrow> eia_inv (s\<lparr>mode := m\<rparr>)" "eia_inv s \<Longrightarrow> eia_inv (s\<lparr>prev_cmd := p\<rparr>)" "eia_inv s \<Longrightarrow> eia_inv (s\<lparr>screen_touched := b\<rparr>)"
  "eia_inv s \<Longrightarrow> eia_inv (s\<lparr>cursor_column := 0\<rparr>)" "eia_inv s \<Longrightarrow> eia_inv (show_text d s)" "eia_inv s \<Longrightarrow> eia_inv (s\<lparr>new_channel := n\<rparr>)"
  by (simp_all add: eia_inv_def)

lemma back_one_inv: "eia_inv s \<Longrightarrow> eia_inv (back_one s)"
  by (auto simp: back_one_def eia_inv_def)

lemma textattr_inv: "eia_inv s \<Longrightarrow> \<exists>s'. handle_textattr now lo s = Some s' \<and> eia_inv s' \<and> chan s' = chan s"
proof -
  assume i: "eia_inv s"
  have "eia_inv (use_row (get_writing_screen s) (s\<lparr>cursor_color := c, cursor_font := f\<rparr>))" for c f
    using use_row_inv [OF _ writing_less [OF i]] i by simp
  then show ?thesis
    using write_char_inv [OF _ writing_less [OF i], of _ "0x20"] i
    by (fastforce simp: handle_textattr_def Let_def split: prod.splits)
qed

lemma row_map_bound: "n < 16 \<Longrightarrow> row_map ! n \<le> 15"
proof -
  have "list_all (\<lambda>x. x \<le> 15) row_map" by (simp add: row_map_def)
  then show "n < 16 \<Longrightarrow> row_map ! n \<le> 15" by (auto simp: list_all_length row_map_def)
qed

lemma pac_index_less: "pac_index hi lo < 16"
proof -
  let ?x = "(push_bit 1 hi AND 0x0e) OR (drop_bit 5 lo AND 0x01)"
  have "?x AND 0x0f = ?x" by (simp add: bit.conj_disj_distrib2 and.assoc)
  then have "?x \<le> 0x0f" by (metis word_and_le1)
  then show ?thesis by (simp add: pac_index_def word_le_nat_alt)
qed

lemma pac_inv: "eia_inv s \<Longrightarrow> \<exists>s'. handle_pac now hi lo s = Some s' \<and> eia_inv s' \<and> chan s' = chan s"
proof -
  assume i: "eia_inv s"
  let ?row = "row_map ! pac_index hi lo"
  have r: "?row \<le> 15" using row_map_bound [OF pac_index_less] .
  show ?thesis
  proof (cases "?row \<le> 0")
    case True then show ?thesis using i by (simp add: handle_pac_def)
  next
    case False
    have "eia_inv (s\<lparr>cursor_row := nat (?row - 1), cursor_color := c, cursor_font := f,
        cursor_charset := CCSET_BASIC_AMERICAN, cursor_column := 0\<rparr>)" for c f
      using i r False by (simp add: eia_inv_def nat_less_iff)
    then show ?thesis
      using write_spaces_inv [OF _ writing_less [OF i]] False
      by (fastforce simp: handle_pac_def Let_def split: prod.splits)
  qed
qed

lemma blank_ok: "screen_ok blank_screen"
proof -
  have "row_ok (replicate 32 0x20 @ [0])" by (simp add: row_ok_def nth_append list_all_iff)
  then show ?thesis by (simp add: screen_ok_def blank_screen_def eia_sizes list_all_iff)
qed

lemma edm_inv: "eia_inv s \<Longrightarrow> eia_inv (handle_edm s)"
  by (simp add: handle_edm_def capture_inv set_screen_inv blank_ok)

lemma edm_fields [simp]:
  "active_screen (handle_edm s) = active_screen s" "cursor_row (handle_edm s) = cursor_row s" "mode (handle_edm s) = mode s"
  "cursor_column (handle_edm s) = cursor_column s" "new_channel (handle_edm s) = new_channel s" "top_field_first (handle_edm s) = top_field_first s" "rollup (handle_edm s) = rollup s"
  "prev_cmd (handle_edm s) = prev_cmd s" "screen (handle_edm s) = (screen s)[active_screen s := blank_screen]"
  by (simp_all add: handle_edm_def set_screen_def)

lemma eoc_inv: "eia_inv s \<Longrightarrow> eia_inv (handle_eoc s)"
  using edm_inv [of s] by (simp add: handle_eoc_def Let_def capture_inv) (simp add: eia_inv_def)

lemma eoc_fields [simp]: "new_channel (handle_eoc s) = new_channel s" "top_field_first (handle_eoc s) = top_field_first s" "mode (handle_eoc s) = mode s"
  by (simp_all add: handle_eoc_def Let_def)

lemma mem_write_row: "length xs = 33 \<Longrightarrow> length ys = 33 \<Longrightarrow> mem_write xs 0 (take 32 ys) = take 32 ys @ [xs ! 32]"
  by (simp add: mem_write_def Cons_nth_drop_Suc [symmetric])

lemma row_ok_shift: "row_ok xs \<Longrightarrow> row_ok ys \<Longrightarrow> mem_write xs 0 (take 32 ys) = ys"
  by (simp add: row_ok_def mem_write_row) (metis Suc_numeral append_Nil2 id_take_nth_drop drop_all le_refl lessI numeral_plus_one semiring_norm(5) take_Suc_conv_app_nth take_all)

lemma roll_row_ok:
  assumes "screen_ok scr"
  shows "screen_ok (roll_row r keep i scr)"
proof -
  define d where "d = (r + 1 - keep + i + 15) mod 15"
  define e where "e = (r + 1 - keep + i + 15 + 1) mod 15"
  have l: "d < 15" "e < 15" by (simp_all add: d_def e_def)
  have w: "mem_write (characters scr ! d) 0 (take 32 (characters scr ! e)) = characters scr ! e" "row_ok (characters scr ! e)"
    using assms l row_ok_shift by (simp_all add: screen_ok_def list_all_length)
  have n: "length (mem_write (charsets scr ! d) 0 (take 32 (charsets scr ! e))) = 33"
    "length (mem_write (colors scr ! d) 0 (take 32 (colors scr ! e))) = 33"
    "length (mem_write (fonts scr ! d) 0 (take 32 (fonts scr ! e))) = 33"
    using assms l by (simp_all add: screen_ok_def list_all_length length_mem_write)
  show ?thesis
    unfolding roll_row_def eia_sizes Let_def d_def [symmetric] e_def [symmetric]
    using assms w n by (simp add: screen_ok_def list_all_update)
qed

lemma roll_up_inv: "eia_inv s \<Longrightarrow> eia_inv (roll_up s)"
proof -
  assume i: "eia_inv s"
  have f: "screen_ok (fold (roll_row r keep) is scr)" if "screen_ok scr" for r keep "is" scr
    using that by (induction "is" arbitrary: scr) (simp_all add: roll_row_ok)
  have u: "screen_ok (scr\<lparr>row_used := v\<rparr>) = screen_ok scr" for scr v by (simp add: screen_ok_def)
  show ?thesis
    using i inv_screen [OF i writing_less [OF i]] by (simp add: roll_up_def Let_def set_screen_inv f u)
qed

lemma roll_up_fields [simp]: "new_channel (roll_up s) = new_channel s" "top_field_first (roll_up s) = top_field_first s" "mode (roll_up s) = mode s" "active_screen (roll_up s) = active_screen s"
  "cursor_row (roll_up s) = cursor_row s" "rollup (roll_up s) = rollup s" "prev_cmd (roll_up s) = prev_cmd s" "calls (roll_up s) = calls s"
  by (simp_all add: roll_up_def Let_def set_screen_def)

lemma handle_char_inv:
  assumes "eia_inv s" "hi < 0x80" "lo < 0x80"
  shows "\<exists>s'. handle_char now hi lo s = Some s' \<and> eia_inv s' \<and> chan s' = chan s"
proof -
  let ?k = "get_writing_screen s" let ?u = "use_row ?k s"
  have k: "?k < 2" using writing_less [OF assms(1)] .
  have u: "eia_inv ?u" "eia_inv (back_one ?u)" using use_row_inv [OF assms(1) k] back_one_inv by simp_all
  define r where "r = (if hi = 0x11 then Some (?u\<lparr>cursor_charset := CCSET_SPECIAL_AMERICAN\<rparr>)
    else if hi = 0x12 then Some ((back_one ?u)\<lparr>cursor_charset := CCSET_EXTENDED_SPANISH_FRENCH_MISC\<rparr>)
    else if hi = 0x13 then Some ((back_one ?u)\<lparr>cursor_charset := CCSET_EXTENDED_PORTUGUESE_GERMAN_DANISH\<rparr>)
    else write_char now ?k hi (?u\<lparr>cursor_charset := CCSET_BASIC_AMERICAN\<rparr>))"
  have b: "chan (back_one ?u) = chan s" by (simp add: back_one_def)
  obtain w where w: "write_char now ?k hi (?u\<lparr>cursor_charset := CCSET_BASIC_AMERICAN\<rparr>) = Some w" "eia_inv w" "chan w = chan s"
    using write_char_inv [OF cursor_updates(1) [OF u(1)] k assms(2)] by fastforce
  then have "\<exists>t. r = Some t \<and> eia_inv t \<and> chan t = chan s"
    using u b by (cases "hi = 0x11"; cases "hi = 0x12"; cases "hi = 0x13") (simp_all add: r_def)
  then obtain t where t: "r = Some t" "eia_inv t" "chan t = chan s" by blast
  have e: "handle_char now hi lo s = (if lo < 0x20 then r else Option.bind r (write_char now ?k lo))"
    by (simp add: handle_char_def Let_def r_def)
  show ?thesis using t write_char_inv [OF t(2) k assms(3)] unfolding e by simp
qed

lemma erase_cases:
  assumes "eia_inv s"
  shows "handle_erase s = None \<longleftrightarrow> mode s \<noteq> EIA608_MODE_TEXT \<and> cursor_column s = 0"
    and "handle_erase s = Some s' \<Longrightarrow> eia_inv s' \<and> chan s' = chan s"
proof -
  have c: "cursor_column s < 32" "cursor_row s < 15" using assms by (simp_all add: eia_inv_def)
  have w: "(cursor_column s + 255) mod 256 = (if cursor_column s = 0 then 255 else cursor_column s - 1)"
  proof (cases "cursor_column s")
    case (Suc n)
    then show ?thesis using c by simp
  qed simp
  show "handle_erase s = None \<longleftrightarrow> mode s \<noteq> EIA608_MODE_TEXT \<and> cursor_column s = 0"
    using c by (auto simp: handle_erase_def Let_def eia_sizes w)
  assume e: "handle_erase s = Some s'"
  let ?k = "get_writing_screen s" and ?r = "cursor_row s" and ?c = "cursor_column s - 1"
  show "eia_inv s' \<and> chan s' = chan s"
  proof (cases "mode s = EIA608_MODE_TEXT")
    case True then show ?thesis using e assms by (simp add: handle_erase_def Let_def)
  next
    case False
    let ?scr = "screen s ! ?k"
    have ok: "screen_ok ?scr" using inv_screen [OF assms writing_less [OF assms]] .
    then have "row_ok ((characters ?scr ! ?r)[?c := 0x20])"
      using c by (intro row_ok_blank) (auto simp: screen_ok_def list_all_length)
    then have "screen_ok (?scr\<lparr>characters := (characters ?scr)[?r := (characters ?scr ! ?r)[?c := 0x20]]\<rparr>)"
      using ok by (simp add: screen_ok_def list_all_update)
    note i = set_screen_inv [OF assms this, of ?k]
    show ?thesis using e False c i by (auto simp: handle_erase_def Let_def eia_sizes w eia_inv_def set_screen_def split: if_splits)
  qed
qed

lemma clear_old_fields [simp]:
  "screen (clear_old_unicode s) = screen s" "active_screen (clear_old_unicode s) = active_screen s"
  "cursor_row (clear_old_unicode s) = cursor_row s" "cursor_column (clear_old_unicode s) = cursor_column s"
  "mode (clear_old_unicode s) = mode s" "new_channel (clear_old_unicode s) = new_channel s" "rollup (clear_old_unicode s) = rollup s"
  "top_field_first (clear_old_unicode s) = top_field_first s" "calls (clear_old_unicode s) = calls s" "prev_cmd (clear_old_unicode s) = prev_cmd s"
  "eia_inv (clear_old_unicode s) = eia_inv s"
  by (simp_all add: clear_old_unicode_def eia_inv_def)

lemma carriage_return_inv: "eia_inv s \<Longrightarrow> eia_inv (carriage_return s)"
  by (simp add: carriage_return_def Let_def capture_inv CcClearScreen_def roll_up_inv)

lemma erase_buffered_inv: "eia_inv s \<Longrightarrow> eia_inv (erase_buffered s)"
  unfolding erase_buffered_def Let_def
  by (rule set_screen_inv) (auto dest: inv_screen [of s "other_screen (active_screen s)"] simp: screen_ok_def)

lemma misc_inv:
  assumes "eia_inv s"
  shows "misc_command now lo s = None \<longleftrightarrow> lo = 0x21 \<and> mode s \<noteq> EIA608_MODE_TEXT \<and> cursor_column s = 0"
    and "misc_command now lo s = Some s' \<Longrightarrow> eia_inv s' \<and> chan s' = chan s"
proof -
  obtain d where d: "handle_delete_end_of_row now s = Some d" "eia_inv d" "chan d = chan s"
    using write_char_inv [OF assms writing_less [OF assms], of 0] by (auto simp: handle_delete_end_of_row_def)
  have r: "eia_inv (set_rollup m b s)" if "b = 0x25 \<or> b = 0x26 \<or> b = 0x27" for m b
    using assms that by (auto simp: set_rollup_def eia_inv_def)
  have n: "chan (set_rollup m b s) = chan s" "chan (set_mode m s) = chan s" "eia_inv (set_mode m s)"
    "chan (carriage_return s) = chan s" "chan (erase_buffered s) = chan s" for m b
    using assms by (simp_all add: set_rollup_def set_mode_def carriage_return_def erase_buffered_def Let_def CcClearScreen_def set_screen_def)
  show "misc_command now lo s = None \<longleftrightarrow> lo = 0x21 \<and> mode s \<noteq> EIA608_MODE_TEXT \<and> cursor_column s = 0"
    using erase_cases(1) [OF assms] d(1) by (simp add: misc_command_def)
  show "misc_command now lo s = Some s' \<Longrightarrow> eia_inv s' \<and> chan s' = chan s"
    using erase_cases(2) [OF assms, of s'] d r n assms edm_inv [OF assms] eoc_inv [OF assms] carriage_return_inv [OF assms]
      erase_buffered_inv [OF assms]
    by (auto simp: misc_command_def split: if_splits)
qed

lemma tab_inv: "eia_inv s \<Longrightarrow> \<exists>s'. tab_offset now n s = Some s' \<and> eia_inv s' \<and> chan s' = chan s"
proof (induction n arbitrary: s)
  case (Suc n)
  obtain t where t: "handle_char now 0x20 0 s = Some t" "eia_inv t" "chan t = chan s"
    using handle_char_inv [OF Suc.prems, of "0x20" 0] by auto
  then show ?case using Suc.IH [OF t(2)] by simp
qed simp

text \<open>The only way to leave the screen: a backspace of channel 1 at the first column.\<close>

definition bad_backspace :: "u8 \<Rightarrow> u8 \<Rightarrow> closedcp_param \<Rightarrow> bool" where
  "bad_backspace hi lo s \<longleftrightarrow> (hi = 0x14 \<or> hi = 0x15 \<or> hi = 0x1c) \<and> lo = 0x21 \<and> new_channel s = 1
     \<and> mode s \<noteq> EIA608_MODE_TEXT \<and> cursor_column s = 0"

lemma run_pair_inv:
  assumes "eia_inv s" "hi < 0x80" "lo < 0x80"
  shows "run_pair now hi lo s = None \<longleftrightarrow> bad_backspace hi lo s"
    and "run_pair now hi lo s = Some s' \<Longrightarrow> eia_inv s' \<and> chan s' = chan s"
proof -
  obtain a b c d where p: "handle_pac now hi lo s = Some a" "eia_inv a" "chan a = chan s"
      "handle_textattr now lo s = Some b" "eia_inv b" "chan b = chan s"
      "handle_char now hi lo s = Some c" "eia_inv c" "chan c = chan s"
      "tab_offset now (unat lo - 0x20) s = Some d" "eia_inv d" "chan d = chan s"
    using pac_inv [OF assms(1)] textattr_inv [OF assms(1)] handle_char_inv [OF assms] tab_inv [OF assms(1)] by metis
  have np: "\<not> is_pac hi lo" "\<not> is_textattr hi lo" if "lo = 0x21" "hi = 0x14 \<or> hi = 0x15 \<or> hi = 0x1c"
    using that by (auto simp: is_pac_def is_textattr_def)
  show "run_pair now hi lo s = None \<longleftrightarrow> bad_backspace hi lo s"
  proof
    assume "run_pair now hi lo s = None"
    then show "bad_backspace hi lo s"
      using p misc_inv(1) [OF assms(1), of now lo] by (simp add: run_pair_def bad_backspace_def split: if_splits)
  next
    assume "bad_backspace hi lo s"
    then show "run_pair now hi lo s = None"
      using np misc_inv(1) [OF assms(1), of now lo] by (simp add: run_pair_def bad_backspace_def)
  qed
  show "run_pair now hi lo s = Some s' \<Longrightarrow> eia_inv s' \<and> chan s' = chan s"
    using p misc_inv(2) [OF assms(1), of now lo s'] assms(1)
    by (auto simp: run_pair_def split: if_splits) 
qed

lemma process_inv:
  assumes "eia_inv s" "hi < 0x80" "lo < 0x80"
  shows "process_cc608 now hi lo s = None \<longleftrightarrow> bad_backspace hi lo s \<and> prev_cmd s \<noteq> (hi, lo)"
    and "process_cc608 now hi lo s = Some s' \<Longrightarrow> eia_inv s' \<and> chan s' = chan s"
proof -
  have b: "bad_backspace hi lo (s\<lparr>prev_cmd := p\<rparr>) = bad_backspace hi lo s" for p by (simp add: bad_backspace_def)
  have z: "\<not> bad_backspace 0 0 s" by (simp add: bad_backspace_def)
  note r = run_pair_inv [OF cursor_updates(4) [OF assms(1), of "(hi, lo)"] assms(2,3), of now]
  show "process_cc608 now hi lo s = None \<longleftrightarrow> bad_backspace hi lo s \<and> prev_cmd s \<noteq> (hi, lo)"
    using r(1) b z by (auto simp: process_cc608_def)
  show "process_cc608 now hi lo s = Some s' \<Longrightarrow> eia_inv s' \<and> chan s' = chan s"
    using r(2) assms(1) by (auto simp: process_cc608_def split: if_splits)
qed

lemma init_inv: "eia_inv (cc_init_vsb cfg s)"
proof -
  have "screen_ok zero_screen" by (simp add: screen_ok_def zero_screen_def row_ok_def list_all_iff)
  then show ?thesis by (simp add: cc_init_vsb_def Let_def eia_inv_def split: option.splits prod.splits)
qed

end
