(* ===== verification/EiaCaption.thy ===== *)
theory EiaCaption
  imports Eia608
begin

text \<open>
  What the line 21 decoder of \<open>Eia608\<close> does with whole captions: rows as texts, the loading of a pop-on caption and its
  display by the end-of-caption code, the scrolling of a roll-up window, the two transports of the pairs and the selection of
  the channel. \<open>line21_packet\<close> and \<open>scte20_packet\<close> are the encoders on the other side.
\<close>

section \<open>Rows of text\<close>

lemma flag_bits:
  "i < 16 \<Longrightarrow> CHECK_FLAG v i \<longleftrightarrow> bit v i"
  "i < 16 \<Longrightarrow> j < 16 \<Longrightarrow> bit (SET_FLAG v i) j \<longleftrightarrow> j = i \<or> bit v j"
  "j < 16 \<Longrightarrow> bit (UNSET_FLAG v i) j \<longleftrightarrow> j \<noteq> i \<and> bit v j"
proof -
  have p: "bit (2 ^ k :: u16) j \<longleftrightarrow> j = k \<and> j < 16" for k j by (auto simp: bit_exp_iff)
  have "bit (v AND push_bit i 1) j \<longleftrightarrow> j = i \<and> bit v i" if "i < 16" for j
    using that p by (auto simp: bit_and_iff)
  then show "i < 16 \<Longrightarrow> CHECK_FLAG v i \<longleftrightarrow> bit v i"
    unfolding CHECK_FLAG_def by (metis bit_0_eq bot_apply bot_bool_def bit_eq_iff)
  show "i < 16 \<Longrightarrow> j < 16 \<Longrightarrow> bit (SET_FLAG v i) j \<longleftrightarrow> j = i \<or> bit v j"
    using p by (auto simp: SET_FLAG_def bit_or_iff)
  show "j < 16 \<Longrightarrow> bit (UNSET_FLAG v i) j \<longleftrightarrow> j \<noteq> i \<and> bit v j"
    using p by (auto simp: UNSET_FLAG_def bit_and_iff bit_not_iff)
qed

text \<open>Row \<open>r\<close> shows the text \<open>t\<close> in the basic character set.\<close>

definition row_holds :: "eia608_screen \<Rightarrow> nat \<Rightarrow> u8 list \<Rightarrow> bool" where
  "row_holds scr r t \<longleftrightarrow> take (length t) (characters scr ! r) = t \<and> (t \<noteq> [] \<longrightarrow> characters scr ! r ! length t = 0)
     \<and> take (length t) (charsets scr ! r) = replicate (length t) CCSET_BASIC_AMERICAN"

definition text_ok :: "u8 list \<Rightarrow> bool" where
  "text_ok t \<longleftrightarrow> list_all (\<lambda>c. 0x20 \<le> c \<and> c < 0x80) t"

text \<open>What is drawn for such a row: the text behind the leading blanks, at the column of its first character.\<close>

definition text_display :: "closedcp_param \<Rightarrow> nat \<Rightarrow> u8 list \<Rightarrow> cc_display" where
  "text_display s r t =
     (let j = length (takeWhile (\<lambda>c. c = 0x20) t); h = (u32DisplayHeight s - 2 * SHOW_TB_OFFSET) div 15;
          x = ucast (word_of_nat j * (u32DisplayWidth s div 32) + SHOW_LR_OFFSET) :: u16
      in CC_DRAWTEXT x (ucast (SHOW_TB_OFFSET + word_of_nat r * h)) (ucast (u32DisplayWidth s - ucast x))
           (ucast (if h > SHOW_LINE_HEIGHT then SHOW_LINE_HEIGHT else h))
           (map (unicode_of CCSET_BASIC_AMERICAN) (dropWhile (\<lambda>c. c = 0x20) t)) (getCcColor (color s)) (getCcColor (bgColor s)))"

definition visible :: "u8 list \<Rightarrow> bool" where
  "visible t \<longleftrightarrow> list_ex (\<lambda>c. c \<noteq> 0x20) t"

lemma row_holds_split:
  assumes "row_holds scr r t" "length t \<le> 32" "row_ok (characters scr ! r)" "visible t" "text_ok t" "length (charsets scr ! r) = 33"
  shows "row_strlen (characters scr ! r) = length t" "row_lead (characters scr ! r) = length (takeWhile (\<lambda>c. c = 0x20) t)"
    "row_unicode (charsets scr ! r) (characters scr ! r) = map (unicode_of CCSET_BASIC_AMERICAN) (dropWhile (\<lambda>c. c = 0x20) t)"
    "length (takeWhile (\<lambda>c. c = 0x20) t) < length t"
proof -
  let ?row = "characters scr ! r" and ?cs = "charsets scr ! r" and ?n = "length t"
  have ne: "t \<noteq> []" using assms(4) by (auto simp: visible_def)
  have l: "?n < length ?row" using assms(2,3) by (simp add: row_ok_def)
  have row: "?row = t @ 0 # drop (Suc ?n) ?row"
    using assms(1) ne l by (metis append_take_drop_id Cons_nth_drop_Suc row_holds_def)
  have tz: "\<forall>c \<in> set t. c \<noteq> 0" using assms(5) by (auto simp: text_ok_def list_all_iff)
  then have "takeWhile (\<lambda>c. c \<noteq> 0) ?row = t" by (subst row) (simp add: takeWhile_append)
  then show s: "row_strlen ?row = ?n" by (simp add: row_strlen_def)
  obtain x where x: "x \<in> set t" "x \<noteq> 0x20" using assms(4) by (auto simp: visible_def list_ex_iff)
  have "takeWhile (\<lambda>c. c = 0x20) ?row = takeWhile (\<lambda>c. c = 0x20) t" using x by (subst row) (auto simp: takeWhile_append1)
  then show j: "row_lead ?row = length (takeWhile (\<lambda>c. c = 0x20) t)" by (simp add: row_lead_def)
  show "length (takeWhile (\<lambda>c. c = 0x20) t) < ?n"
  proof (rule ccontr)
    assume "\<not> length (takeWhile (\<lambda>c. c = 0x20) t) < ?n"
    then have "takeWhile (\<lambda>c. c = 0x20) t = t" by (metis length_takeWhile_le le_neq_implies_less takeWhile_eq_take take_all)
    then show False using x by (metis set_takeWhileD)
  qed
  have at: "?row ! i = t ! i" "?cs ! i = CCSET_BASIC_AMERICAN" if "i < ?n" for i
  proof -
    show "?row ! i = t ! i" using that by (subst row) (simp add: nth_append)
    have "take ?n ?cs ! i = CCSET_BASIC_AMERICAN" using assms(1) that by (simp add: row_holds_def)
    then show "?cs ! i = CCSET_BASIC_AMERICAN" using that by simp
  qed
  have d: "dropWhile (\<lambda>c. c = 0x20) t = map ((!) t) [row_lead ?row..<?n]"
    unfolding j dropWhile_eq_drop by (rule nth_equalityI) simp_all
  show "row_unicode ?cs ?row = map (unicode_of CCSET_BASIC_AMERICAN) (dropWhile (\<lambda>c. c = 0x20) t)"
    unfolding row_unicode_def s d by (simp add: at)
qed

lemma row_display_text:
  assumes "row_holds scr r t" "length t \<le> 32" "row_ok (characters scr ! r)" "visible t" "text_ok t" "length (charsets scr ! r) = 33"
  shows "row_display s scr r = text_display s r t" "row_strlen (characters scr ! r) - row_lead (characters scr ! r) \<noteq> 0"
  using row_holds_split [OF assms] by (simp_all add: row_display_def text_display_def eia_sizes Let_def)

section \<open>Loading a caption\<close>

lemma put_holds:
  assumes "screen_ok scr" "cursor_row s = r" "r < 15" "cursor_column s = length t" "length t < 32"
    and "cursor_charset s = CCSET_BASIC_AMERICAN" "row_holds scr r t"
  shows "row_holds (put_cell s ch scr) r (t @ [ch])"
proof -
  let ?n = "length t"
  have l: "length (characters scr ! r) = 33" "length (charsets scr ! r) = 33" "length (characters scr) = 15" "length (charsets scr) = 15"
    using assms(1,3) by (simp_all add: screen_ok_def list_all_length row_ok_def)
  have "take (Suc ?n) ((characters scr ! r)[?n := ch, Suc ?n := 0]) = t @ [ch]"
    using l assms(5,7) by (simp add: take_update_swap take_Suc_conv_app_nth row_holds_def list_update_append)
  moreover have "take (Suc ?n) ((charsets scr ! r)[?n := CCSET_BASIC_AMERICAN]) = replicate (Suc ?n) CCSET_BASIC_AMERICAN"
    using l assms(5,7) by (simp add: take_update_swap take_Suc_conv_app_nth row_holds_def list_update_append replicate_append_same)
  ultimately show ?thesis
    using l assms(2-6) by (simp add: row_holds_def put_cell_def Let_def)
qed

lemma put_other: "r \<noteq> cursor_row s \<Longrightarrow> row_holds (put_cell s ch scr) r u = row_holds scr r u"
  by (simp add: row_holds_def put_cell_def Let_def)

lemma put_used [simp]: "row_used (put_cell s ch scr) = row_used scr"
  by (simp add: put_cell_def Let_def)

definition same_view :: "closedcp_param \<Rightarrow> closedcp_param \<Rightarrow> bool" where
  "same_view s s' \<longleftrightarrow> active_screen s' = active_screen s \<and> mode s' = mode s \<and> calls s' = calls s
     \<and> paint_num s' = paint_num s
     \<and> color s' = color s \<and> bgColor s' = bgColor s
     \<and> u32DisplayWidth s' = u32DisplayWidth s \<and> u32DisplayHeight s' = u32DisplayHeight s"

text \<open>Pop-on mode: screen \<open>k\<close> is hidden and holds some lines; the rows \<open>R\<close> are in use; nothing was drawn.\<close>

definition loading :: "nat \<Rightarrow> (nat \<times> u8 list) list \<Rightarrow> nat set \<Rightarrow> closedcp_param \<Rightarrow> closedcp_param \<Rightarrow> bool" where
  "loading k lines R s0 s \<longleftrightarrow> eia_inv s \<and> same_view s0 s \<and> mode s0 = EIA608_MODE_POPON \<and> k = other_screen (active_screen s0)
     \<and> new_channel s = 1 \<and> (\<forall>(r, t) \<in> set lines. row_holds (screen s ! k) r t) \<and> (\<forall>i < 15. bit (row_used (screen s ! k)) i \<longleftrightarrow> i \<in> R)"

definition typing :: "nat \<Rightarrow> nat \<Rightarrow> u8 list \<Rightarrow> closedcp_param \<Rightarrow> bool" where
  "typing k r t s \<longleftrightarrow> cursor_row s = r \<and> cursor_column s = min 31 (length t) \<and> cursor_charset s = CCSET_BASIC_AMERICAN
     \<and> row_holds (screen s ! k) r t"

lemma write_char_loads:
  assumes "loading k lines R s0 s" "typing k r t s" "r \<notin> fst ` set lines" "length t < 32" "ch \<noteq> 0" "ch < 0x80"
  shows "\<exists>s'. write_char now k ch s = Some s' \<and> loading k lines R s0 s' \<and> typing k r (t @ [ch]) s' \<and> prev_cmd s' = prev_cmd s"
proof -
  have i: "eia_inv s" and m: "mode s = EIA608_MODE_POPON" and k: "k < 2" "k < length (screen s)"
    using assms(1) by (auto simp: loading_def same_view_def eia_inv_def)
  let ?scr = "put_cell s ch (screen s ! k)"
  let ?s = "(set_screen k ?scr s)\<lparr>cursor_charset := CCSET_BASIC_AMERICAN, cursor_column := min 31 (cursor_column s + 1)\<rparr>"
  have w: "write_char now k ch s = Some ?s"
    using write_char_eq [OF i, of now k ch] m assms(5) by (simp add: Let_def)
  have i': "eia_inv ?s" using write_char_inv [OF i k(1) assms(6), of now] w by simp
  have "min 31 (length t) = length t" using assms(4) by simp
  then have "row_holds ?scr r (t @ [ch])"
    using put_holds [OF inv_screen [OF i k(1)], of s r t ch] assms(2,4) i by (simp add: typing_def eia_inv_def)
  then have ty: "typing k r (t @ [ch]) ?s" using assms(2,4) k(2) by (simp add: typing_def set_screen_def)
  have "row_holds ?scr r' u" if "(r', u) \<in> set lines" for r' u
  proof -
    have "r' \<noteq> cursor_row s" using that assms(2,3) by (force simp: typing_def)
    then show ?thesis using that assms(1) put_other [of r' s ch "screen s ! k" u] by (auto simp: loading_def)
  qed
  then have "loading k lines R s0 ?s"
    using assms(1) i' k(2) by (auto simp: loading_def same_view_def set_screen_def)
  then show ?thesis using w ty by (auto simp: set_screen_def)
qed

lemma write_spaces_loads:
  assumes "loading k lines R s0 s" "typing k r t s" "r \<notin> fst ` set lines" "length t + n \<le> 32"
  shows "\<exists>s'. write_spaces now k n s = Some s' \<and> loading k lines R s0 s' \<and> typing k r (t @ replicate n 0x20) s' \<and> prev_cmd s' = prev_cmd s"
  using assms
proof (induction n arbitrary: s t)
  case (Suc n)
  obtain u where u: "write_char now k 0x20 s = Some u" "loading k lines R s0 u" "typing k r (t @ [0x20]) u" "prev_cmd u = prev_cmd s"
    using write_char_loads [OF Suc.prems(1,2,3), of "0x20" now] Suc.prems(4) by auto
  then show ?case using Suc.IH [OF u(2,3) Suc.prems(3)] Suc.prems(4) by simp
qed simp

definition pac_row :: "u8 \<Rightarrow> u8 \<Rightarrow> nat" where
  "pac_row hi lo = nat (row_map ! pac_index hi lo - 1)"

definition pac_indent :: "u8 \<Rightarrow> nat" where
  "pac_indent lo = snd (snd (pac2_attribs ! unat (lo AND 0x1f)))"

lemma pac_indent_le: "pac_indent lo \<le> 28"
proof -
  have "list_all (\<lambda>x. snd (snd x) \<le> 28) pac2_attribs" "length pac2_attribs = 32" by (simp_all add: pac2_attribs_def)
  moreover have "lo AND 0x1f \<le> 0x1f" by (rule word_and_le1)
  then have "unat (lo AND 0x1f) < 32" by (simp add: word_le_nat_alt)
  ultimately show ?thesis by (simp add: pac_indent_def list_all_length)
qed

lemma pac_loads:
  assumes "loading k lines R s0 s" "0 < row_map ! pac_index hi lo" "pac_row hi lo \<notin> fst ` set lines"
  shows "\<exists>s'. handle_pac now hi lo s = Some s' \<and> loading k lines R s0 s' \<and> typing k (pac_row hi lo) (replicate (pac_indent lo) 0x20) s'
    \<and> prev_cmd s' = prev_cmd s"
proof -
  obtain c f n where a: "pac2_attribs ! unat (lo AND 0x1f) = (c, f, n)" by (cases "pac2_attribs ! unat (lo AND 0x1f)")
  have n: "n = pac_indent lo" "n \<le> 32" using a pac_indent_le [of lo] by (simp_all add: pac_indent_def)
  let ?s = "s\<lparr>cursor_row := pac_row hi lo, cursor_color := c, cursor_font := f, cursor_charset := CCSET_BASIC_AMERICAN, cursor_column := 0\<rparr>"
  have r: "pac_row hi lo < 15" using assms(2) row_map_bound [OF pac_index_less, of hi lo] by (simp add: pac_row_def nat_less_iff)
  have l: "loading k lines R s0 ?s" using assms(1) r by (auto simp: loading_def same_view_def eia_inv_def)
  have t: "typing k (pac_row hi lo) [] ?s" by (simp add: typing_def row_holds_def)
  have "get_writing_screen s = k" using assms(1) by (simp add: loading_def same_view_def get_writing_screen_def)
  then have "handle_pac now hi lo s = write_spaces now k n ?s"
    using a assms(2) by (simp add: handle_pac_def Let_def pac_row_def)
  then show ?thesis using write_spaces_loads [OF l t assms(3), of n now] n by simp
qed

lemma use_row_loads:
  assumes "loading k lines R s0 s" "typing k r t s"
  shows "loading k lines (insert r R) s0 (use_row k s)" "typing k r t (use_row k s)"
proof -
  have i: "eia_inv s" and k: "k < 2" "k < length (screen s)" using assms(1) by (auto simp: loading_def eia_inv_def)
  have r: "cursor_row s = r" "r < 15" using assms(2) i by (auto simp: typing_def eia_inv_def)
  have h: "row_holds (scr\<lparr>row_used := v\<rparr>) a b = row_holds scr a b" for scr v a b by (simp add: row_holds_def)
  show "loading k lines (insert r R) s0 (use_row k s)"
    using assms(1) use_row_inv [OF i k(1)] k r
    by (auto simp: loading_def same_view_def use_row_def set_screen_def h flag_bits)
  show "typing k r t (use_row k s)" using assms(2) k by (simp add: typing_def use_row_def set_screen_def h)
qed

lemma char_loads:
  assumes "loading k lines R s0 s" "typing k r t s" "r \<notin> fst ` set lines" "0x20 \<le> a" "a < 0x80" "b < 0x80"
    and "b = 0 \<or> 0x20 \<le> b" "length t + (if b = 0 then 1 else 2) \<le> 32"
  shows "\<exists>s'. handle_char now a b s = Some s' \<and> loading k lines (insert r R) s0 s'
    \<and> typing k r (t @ (if b = 0 then [a] else [a, b])) s'"
proof -
  have k: "get_writing_screen s = k" using assms(1) by (simp add: loading_def same_view_def get_writing_screen_def)
  note u = use_row_loads [OF assms(1,2)]
  have "(use_row k s)\<lparr>cursor_charset := CCSET_BASIC_AMERICAN\<rparr> = use_row k s" using u(2) by (simp add: typing_def)
  moreover have na: "a \<noteq> 0" "a \<noteq> 0x11" "a \<noteq> 0x12" "a \<noteq> 0x13" using assms(4) by auto
  moreover obtain v where v: "write_char now k a (use_row k s) = Some v" "loading k lines (insert r R) s0 v" "typing k r (t @ [a]) v"
    using write_char_loads [OF u assms(3) _ na(1) assms(5), of now] assms(8) by (auto split: if_splits)
  ultimately have e: "handle_char now a b s = (if b < 0x20 then Some v else write_char now k b v)"
    using k by (simp add: handle_char_def Let_def)
  show ?thesis
  proof (cases "b = 0")
    case True
    then show ?thesis using e v by simp
  next
    case False
    then have "\<not> b < 0x20" using assms(7) by auto
    then show ?thesis
      using e write_char_loads [OF v(2,3) assms(3) _ False assms(6), of now] assms(8) False by auto
  qed
qed

section \<open>Captions\<close>

text \<open>Line 21 pairs with odd parity, in triples of field 1. Control codes are sent twice.\<close>

definition odd_parity :: "u8 \<Rightarrow> u8" where
  "odd_parity b = (if odd (length (filter (bit b) [0..<7])) then b AND 0x7f else b OR 0x80)"

definition line21_packet :: "(u8 \<times> u8) list \<Rightarrow> u8 list" where
  "line21_packet ps = concat (map (\<lambda>(a, b). [0xfc, odd_parity a, odd_parity b]) ps)"

fun char_pairs :: "u8 list \<Rightarrow> (u8 \<times> u8) list" where
  "char_pairs [] = []"
| "char_pairs [a] = [(a, 0)]"
| "char_pairs (a # b # t) = (a, b) # char_pairs t"

definition line_pairs :: "u8 \<times> u8 \<times> u8 list \<Rightarrow> (u8 \<times> u8) list" where
  "line_pairs l = (case l of (hi, lo, t) \<Rightarrow> [(hi, lo), (hi, lo)] @ char_pairs t)"

definition caption_pairs :: "(u8 \<times> u8 \<times> u8 list) list \<Rightarrow> (u8 \<times> u8) list" where
  "caption_pairs ls = [(0x14, 0x20), (0x14, 0x20)] @ concat (map line_pairs ls)"

text \<open>A line starts with the address code of a row and fits behind its indent.\<close>

definition line_ok :: "u8 \<times> u8 \<times> u8 list \<Rightarrow> bool" where
  "line_ok l = (case l of (hi, lo, t) \<Rightarrow> is_pac hi lo \<and> 0 < row_map ! pac_index hi lo \<and> text_ok t \<and> visible t
     \<and> pac_indent lo + length t \<le> 32)"

definition line_row :: "u8 \<times> u8 \<times> u8 list \<Rightarrow> nat \<times> u8 list" where
  "line_row l = (case l of (hi, lo, t) \<Rightarrow> (pac_row hi lo, replicate (pac_indent lo) 0x20 @ t))"

definition drawn_rows :: "closedcp_param \<Rightarrow> (nat \<times> u8 list) list \<Rightarrow> cc_display list" where
  "drawn_rows s rows = concat (map (\<lambda>i. case map_of rows i of None \<Rightarrow> [] | Some t \<Rightarrow> [text_display s i t]) [0..<15])"

lemma odd_parity_mask: "odd_parity b AND 0x7f = b AND 0x7f"
  by (simp add: odd_parity_def and.assoc bit.conj_disj_distrib2)

lemma mask7: "b < 0x80 \<Longrightarrow> b AND 0x7f = (b :: u8)"
proof -
  assume "b < 0x80"
  then have "take_bit 7 b = b" by (simp add: word_unat_eq_iff word_less_nat_alt unsigned_take_bit_eq take_bit_nat_eq_self_iff)
  then show ?thesis by (simp add: take_bit_eq_mask mask_eq_exp_minus_1)
qed

lemma packet_Nil: "CcProcess nows (line21_packet []) s = Some s"
  by (cases nows) (simp_all add: line21_packet_def)

lemma packet_Cons:
  "hi < 0x80 \<Longrightarrow> lo < 0x80 \<Longrightarrow> CcProcess (now # nows) (line21_packet ((hi, lo) # ps)) s
     = Option.bind (process_cc608 now hi lo (switch_channel hi s)) (CcProcess nows (line21_packet ps))"
  by (simp add: line21_packet_def cc_triple_def odd_parity_mask mask7)

lemma packet_append:
  "length nows = length ps \<Longrightarrow> CcProcess (nows @ nows') (line21_packet (ps @ ps')) s
     = Option.bind (CcProcess nows (line21_packet ps) s) (CcProcess nows' (line21_packet ps'))"
proof (induction nows ps arbitrary: s rule: list_induct2)
  case Nil
  then show ?case by (simp add: packet_Nil)
next
  case (Cons n ns p ps)
  have "CcProcess (ns @ nows') (line21_packet (ps @ ps')) = (\<lambda>s. Option.bind (CcProcess ns (line21_packet ps) s) (CcProcess nows' (line21_packet ps')))"
    by (rule ext) (rule Cons.IH)
  then show ?case by (cases p) (simp add: line21_packet_def)
qed

lemma loading_prev [simp]: "loading k L R s0 (s\<lparr>prev_cmd := p\<rparr>) = loading k L R s0 s"
  by (simp add: loading_def same_view_def eia_inv_def)

lemma typing_prev [simp]: "typing k r t (s\<lparr>prev_cmd := p\<rparr>) = typing k r t s"
  by (simp add: typing_def)

text \<open>A text behind its address code.\<close>

lemma pair_loads:
  assumes "loading k L R s0 s" "typing k r t s" "r \<notin> fst ` set L" "0x20 \<le> a" "a < 0x80" "b < 0x80"
    and "b = 0 \<or> 0x20 \<le> b" "length t + (if b = 0 then 1 else 2) \<le> 32" "fst (prev_cmd s) < 0x20"
  shows "\<exists>s'. process_cc608 now a b (switch_channel a s) = Some s' \<and> loading k L (insert r R) s0 s'
    \<and> typing k r (t @ (if b = 0 then [a] else [a, b])) s' \<and> prev_cmd s' = (0, 0)"
proof -
  have n: "\<not> a \<le> 0x1e" "\<not> a \<le> 0x17" "\<not> a \<le> 0x13" "\<not> a \<le> 0x12" using assms(4) by unat_arith+
  then have a: "\<not> is_pac a b" "\<not> is_textattr a b" "a \<noteq> 0" "a \<noteq> 0x14" "a \<noteq> 0x15" "a \<noteq> 0x1c" "\<not> a \<le> 0x13" "\<not> a \<le> 0x17" "a \<noteq> 0x17"
    using n assms(4) by (auto simp: is_pac_def is_textattr_def)
  have p: "prev_cmd s \<noteq> (a, b)" using assms(4,9) by auto
  have c: "new_channel s = 1" using assms(1) by (simp add: loading_def)
  have "process_cc608 now a b (switch_channel a s) = map_option (\<lambda>s. s\<lparr>prev_cmd := (0, 0)\<rparr>) (handle_char now a b (s\<lparr>prev_cmd := (a, b)\<rparr>))"
    using a n p c assms(4) by (simp add: process_cc608_def switch_channel_def run_pair_def)
  moreover obtain u where "handle_char now a b (s\<lparr>prev_cmd := (a, b)\<rparr>) = Some u" "loading k L (insert r R) s0 u"
      "typing k r (t @ (if b = 0 then [a] else [a, b])) u"
    using char_loads [of k L R s0 "s\<lparr>prev_cmd := (a, b)\<rparr>" r t a b now] assms(1-8) by auto
  ultimately show ?thesis by simp
qed

lemma text_loads:
  assumes "loading k L R s0 s" "typing k r t s" "r \<notin> fst ` set L" "text_ok u" "length t + length u \<le> 32"
    and "length nows = length (char_pairs u)" "fst (prev_cmd s) < 0x20"
  shows "\<exists>s'. CcProcess nows (line21_packet (char_pairs u)) s = Some s' \<and> loading k L (if u = [] then R else insert r R) s0 s'
    \<and> typing k r (t @ u) s' \<and> prev_cmd s' = (if u = [] then prev_cmd s else (0, 0))"
  using assms
proof (induction u arbitrary: t R s nows rule: char_pairs.induct)
  case 1
  then show ?case by (simp add: packet_Nil)
next
  case (2 a)
  have "0x20 \<le> a" "a < 0x80" using 2(4) by (simp_all add: text_ok_def)
  then obtain s' where "process_cc608 (hd nows) a 0 (switch_channel a s) = Some s'" "loading k L (insert r R) s0 s'"
      "typing k r (t @ [a]) s'" "prev_cmd s' = (0, 0)"
    using pair_loads [OF 2(1-3), of a 0 "hd nows"] 2(5,7) by auto
  moreover have "nows = [hd nows]" using 2(6) by (cases nows) simp_all
  ultimately show ?case using packet_Cons [of a 0 "hd nows" "[]" "[]" s] \<open>a < 0x80\<close> by (simp add: packet_Nil)
next
  case (3 a b u)
  have ab: "0x20 \<le> a" "a < 0x80" "0x20 \<le> b" "b < 0x80" "text_ok u" using 3(5) by (simp_all add: text_ok_def)
  then have b: "b \<noteq> 0" by auto
  obtain n ns where n: "nows = n # ns" "length ns = length (char_pairs u)" using 3(7) by (cases nows) simp_all
  obtain v where v: "process_cc608 n a b (switch_channel a s) = Some v" "loading k L (insert r R) s0 v"
      "typing k r (t @ [a, b]) v" "prev_cmd v = (0, 0)"
    using pair_loads [OF 3(2-4) ab(1,2,4), of n] ab(3) b 3(6,8) by auto
  show ?case
    using 3(1) [OF v(2,3) 3(4) ab(5) _ n(2)] v 3(6) packet_Cons [OF ab(2,4), of n ns "char_pairs u" s] n(1)
    by (cases "u = []") simp_all
qed

text \<open>Address codes, whole lines and all lines of a caption.\<close>

lemma pac_bounds: "is_pac hi lo \<Longrightarrow> 0x10 \<le> hi \<and> hi \<le> 0x17 \<and> hi < 0x20 \<and> hi < 0x80 \<and> lo < 0x80 \<and> hi \<noteq> 0"
  unfolding is_pac_def by unat_arith

lemma channel_loading: "loading k L R s0 s \<Longrightarrow> 0x10 \<le> hi \<Longrightarrow> hi \<le> 0x17 \<Longrightarrow> switch_channel hi s = s"
  by (simp add: switch_channel_def loading_def)

lemma repeated: "process_cc608 now hi lo s = Some s" if "prev_cmd s = (hi, lo)"
  using that by (simp add: process_cc608_def)

lemma pac_pair_loads:
  assumes "loading k L R s0 s" "is_pac hi lo" "0 < row_map ! pac_index hi lo" "pac_row hi lo \<notin> fst ` set L" "prev_cmd s \<noteq> (hi, lo)"
  shows "\<exists>s'. CcProcess [n1, n2] (line21_packet [(hi, lo), (hi, lo)]) s = Some s' \<and> loading k L R s0 s'
    \<and> typing k (pac_row hi lo) (replicate (pac_indent lo) 0x20) s' \<and> prev_cmd s' = (hi, lo)"
proof -
  note b = pac_bounds [OF assms(2)]
  obtain u where u: "handle_pac n1 hi lo (s\<lparr>prev_cmd := (hi, lo)\<rparr>) = Some u" "loading k L R s0 u"
      "typing k (pac_row hi lo) (replicate (pac_indent lo) 0x20) u" "prev_cmd u = (hi, lo)"
    using pac_loads [of k L R s0 "s\<lparr>prev_cmd := (hi, lo)\<rparr>" hi lo n1] assms by auto
  have "process_cc608 n1 hi lo (switch_channel hi s) = Some u"
    using u(1) b assms(2,5) channel_loading [OF assms(1)] by (simp add: process_cc608_def run_pair_def)
  moreover have "process_cc608 n2 hi lo (switch_channel hi u) = Some u"
    using channel_loading [OF u(2)] b u(4) by (simp add: process_cc608_def)
  ultimately show ?thesis using u b by (simp add: packet_Cons packet_Nil)
qed

lemma split_clock: "length nows = m + n \<Longrightarrow> \<exists>a b. nows = a @ b \<and> length a = m \<and> length b = n"
  by (rule exI [of _ "take m nows"], rule exI [of _ "drop m nows"]) simp

lemma line_loads:
  assumes "loading k L (fst ` set L) s0 s" "line_ok l" "fst (line_row l) \<notin> fst ` set L" "length nows = length (line_pairs l)"
    and "prev_cmd s \<noteq> (fst l, fst (snd l))"
  shows "\<exists>s'. CcProcess nows (line21_packet (line_pairs l)) s = Some s'
    \<and> loading k (line_row l # L) (fst ` set (line_row l # L)) s0 s'
    \<and> prev_cmd s' = (0, 0)"
proof -
  obtain hi lo t where l: "l = (hi, lo, t)" by (cases l)
  have ok: "is_pac hi lo" "0 < row_map ! pac_index hi lo" "text_ok t" "visible t" "pac_indent lo + length t \<le> 32"
    using assms(2) by (simp_all add: l line_ok_def)
  have r: "pac_row hi lo \<notin> fst ` set L" using assms(3) by (simp add: l line_row_def)
  have "length nows = 2 + length (char_pairs t)" using assms(4) by (simp add: l line_pairs_def)
  then obtain n1 n2 ns where n: "nows = [n1, n2] @ ns" "length ns = length (char_pairs t)"
    by (auto simp: length_Suc_conv numeral_2_eq_2)
  obtain u where u: "CcProcess [n1, n2] (line21_packet [(hi, lo), (hi, lo)]) s = Some u" "loading k L (fst ` set L) s0 u"
      "typing k (pac_row hi lo) (replicate (pac_indent lo) 0x20) u" "prev_cmd u = (hi, lo)"
    using pac_pair_loads [OF assms(1) ok(1,2) r, of n1 n2] assms(5) by (auto simp: l)
  have "t \<noteq> []" using ok(4) by (auto simp: visible_def)
  then obtain v where v: "CcProcess ns (line21_packet (char_pairs t)) u = Some v" "loading k L (insert (pac_row hi lo) (fst ` set L)) s0 v"
      "typing k (pac_row hi lo) (replicate (pac_indent lo) 0x20 @ t) v" "prev_cmd v = (0, 0)"
    using text_loads [OF u(2,3) r ok(3) _ n(2)] ok(5) pac_bounds [OF ok(1)] u(4) by auto
  have "loading k (line_row l # L) (fst ` set (line_row l # L)) s0 v"
    using v(2,3) by (auto simp: loading_def typing_def l line_row_def)
  then show ?thesis
    using packet_append [of "[n1, n2]" "[(hi, lo), (hi, lo)]" ns "char_pairs t" s] u(1) v(1,4)
    by (simp add: l line_pairs_def n(1))
qed

lemma lines_load:
  assumes "loading k L (fst ` set L) s0 s" "list_all line_ok ls" "distinct (map fst (map line_row ls @ L))"
    and "length nows = length (concat (map line_pairs ls))" "snd (prev_cmd s) < 0x40"
  shows "\<exists>s'. CcProcess nows (line21_packet (concat (map line_pairs ls))) s = Some s'
    \<and> loading k (rev (map line_row ls) @ L) (fst ` set (rev (map line_row ls) @ L)) s0 s'
    \<and> (ls \<noteq> [] \<longrightarrow> prev_cmd s' = (0, 0))"
  using assms
proof (induction ls arbitrary: L s nows)
  case Nil
  then show ?case by (simp add: packet_Nil)
next
  case (Cons l ls)
  have l: "line_ok l" "fst (line_row l) \<notin> fst ` set L" "list_all line_ok ls" using Cons.prems(2,3) by auto
  have "length nows = length (line_pairs l) + length (concat (map line_pairs ls))" using Cons.prems(4) by simp
  then obtain a b where n: "nows = a @ b" "length a = length (line_pairs l)" "length b = length (concat (map line_pairs ls))"
    using split_clock by blast
  have "is_pac (fst l) (fst (snd l))" using l(1) by (auto simp: line_ok_def split: prod.splits)
  then have "0x40 \<le> fst (snd l)" by (auto simp: is_pac_def)
  then have "prev_cmd s \<noteq> (fst l, fst (snd l))" using Cons.prems(5) by auto
  then obtain u where u: "CcProcess a (line21_packet (line_pairs l)) s = Some u"
      "loading k (line_row l # L) (fst ` set (line_row l # L)) s0 u" "prev_cmd u = (0, 0)"
    using line_loads [OF Cons.prems(1) l(1,2) n(2)] by blast
  have "distinct (map fst (map line_row ls @ line_row l # L))" using Cons.prems(3) by auto
  then obtain v where "CcProcess b (line21_packet (concat (map line_pairs ls))) u = Some v"
      "loading k (rev (map line_row ls) @ line_row l # L) (fst ` set (rev (map line_row ls) @ line_row l # L)) s0 v"
      "ls \<noteq> [] \<longrightarrow> prev_cmd v = (0, 0)"
    using Cons.IH [OF u(2) l(3) _ n(3)] u(3) by auto
  moreover have "ls = [] \<longrightarrow> v = u" using calculation(1) by (auto simp: packet_Nil)
  ultimately show ?case using u packet_append [OF n(2), of b "concat (map line_pairs ls)" s] by (auto simp: n(1))
qed

lemma start_loading:
  assumes "eia_inv s" "prev_cmd s \<noteq> (0x14, 0x20)" "row_used (screen s ! other_screen (active_screen s)) = 0"
  shows "\<exists>u. CcProcess [n1, n2] (line21_packet [(0x14, 0x20), (0x14, 0x20)]) s = Some u
    \<and> loading (other_screen (active_screen s)) [] {} (set_mode EIA608_MODE_POPON s) u \<and> prev_cmd u = (0x14, 0x20)"
proof -
  let ?u = "s\<lparr>new_channel := 1, prev_cmd := (0x14, 0x20), mode := EIA608_MODE_POPON\<rparr>"
  have np: "\<not> is_pac 0x14 0x20" "\<not> is_textattr 0x14 0x20" by (simp_all add: is_pac_def is_textattr_def)
  have "process_cc608 n1 0x14 0x20 (switch_channel 0x14 s) = Some ?u"
    using assms(2) np by (simp add: process_cc608_def switch_channel_def run_pair_def misc_command_def set_mode_def)
  moreover have "process_cc608 n2 0x14 0x20 (switch_channel 0x14 ?u) = Some ?u"
    by (simp add: process_cc608_def switch_channel_def)
  ultimately have "CcProcess [n1, n2] (line21_packet [(0x14, 0x20), (0x14, 0x20)]) s = Some ?u"
    by (simp add: packet_Cons packet_Nil)
  moreover have "loading (other_screen (active_screen s)) [] {} (set_mode EIA608_MODE_POPON s) ?u"
    using assms(1,3) by (simp add: loading_def same_view_def set_mode_def eia_inv_def)
  ultimately show ?thesis by auto
qed

text \<open>Showing the loaded screen.\<close>

lemma row_display_cong:
  "u32DisplayWidth s' = u32DisplayWidth s \<Longrightarrow> u32DisplayHeight s' = u32DisplayHeight s \<Longrightarrow> color s' = color s \<Longrightarrow> bgColor s' = bgColor s
    \<Longrightarrow> row_display s' = row_display s"
  by (simp add: row_display_def Let_def fun_eq_iff)

lemma text_display_cong:
  "u32DisplayWidth s' = u32DisplayWidth s \<Longrightarrow> u32DisplayHeight s' = u32DisplayHeight s \<Longrightarrow> color s' = color s \<Longrightarrow> bgColor s' = bgColor s
    \<Longrightarrow> text_display s' = text_display s"
  by (simp add: text_display_def Let_def fun_eq_iff)

definition captured :: "closedcp_param \<Rightarrow> eia608_screen \<Rightarrow> nat list \<Rightarrow> cc_display list" where
  "captured s scr is = concat (map (\<lambda>i. if CHECK_FLAG (row_used scr) i
     \<and> row_strlen (characters scr ! i) - row_lead (characters scr ! i) \<noteq> 0 then [row_display s scr i] else []) is)"

lemma capture_fold: "calls (fold (capture_row scr) is s) = calls s @ captured s scr is"
proof (induction "is" arbitrary: s)
  case (Cons i "is")
  have d: "row_display (capture_row scr i s) = row_display s"
    by (rule row_display_cong) (simp_all add: capture_row_def show_text_def Let_def)
  have c: "calls (capture_row scr i s) = calls s @ captured s scr [i]"
    by (simp add: captured_def capture_row_def Let_def)
  have "captured (capture_row scr i s) scr is = captured s scr is" by (simp only: captured_def d)
  then show ?case using Cons.IH [of "capture_row scr i s"] c by (simp add: captured_def)
qed (simp add: captured_def)

lemma capture_calls:
  "calls (capture_screen s) = calls s @ (let scr = screen s ! active_screen s in if row_used scr = 0
     then [CC_FILLRECT 0 0 (ucast (u32DisplayWidth s - 1)) (ucast (u32DisplayHeight s - 1))] else captured s scr [0..<15])"
  by (simp add: capture_screen_def Let_def CcClearScreen_def capture_fold EIA608_SCREEN_ROWS_def)

definition clear_call :: "closedcp_param \<Rightarrow> cc_display" where
  "clear_call s = CC_FILLRECT 0 0 (ucast (u32DisplayWidth s - 1)) (ucast (u32DisplayHeight s - 1))"

lemma capture_view [simp]:
  "u32DisplayWidth (capture_screen s) = u32DisplayWidth s" "u32DisplayHeight (capture_screen s) = u32DisplayHeight s"
  "color (capture_screen s) = color s" "bgColor (capture_screen s) = bgColor s"
proof -
  have r: "u32DisplayWidth (capture_row scr i s) = u32DisplayWidth s" "u32DisplayHeight (capture_row scr i s) = u32DisplayHeight s"
    "color (capture_row scr i s) = color s" "bgColor (capture_row scr i s) = bgColor s" for scr i s
    by (simp_all add: capture_row_def show_text_def Let_def)
  have f: "u32DisplayWidth (fold (capture_row scr) is s) = u32DisplayWidth s" "u32DisplayHeight (fold (capture_row scr) is s) = u32DisplayHeight s"
    "color (fold (capture_row scr) is s) = color s" "bgColor (fold (capture_row scr) is s) = bgColor s" for scr "is" s
    by (induction "is" arbitrary: s) (simp_all add: r)
  show "u32DisplayWidth (capture_screen s) = u32DisplayWidth s" "u32DisplayHeight (capture_screen s) = u32DisplayHeight s"
    "color (capture_screen s) = color s" "bgColor (capture_screen s) = bgColor s"
    by (simp_all add: capture_screen_def CcClearScreen_def show_text_def f Let_def)
qed

lemma captured_text:
  assumes "screen_ok scr" "\<forall>(r, t) \<in> set L. row_holds scr r t \<and> r < 15 \<and> length t \<le> 32 \<and> visible t \<and> text_ok t"
    and "\<forall>i < 15. bit (row_used scr) i \<longleftrightarrow> i \<in> fst ` set L"
  shows "captured s scr [0..<15] = drawn_rows s L"
proof -
  have "(if CHECK_FLAG (row_used scr) i \<and> row_strlen (characters scr ! i) - row_lead (characters scr ! i) \<noteq> 0
           then [row_display s scr i] else []) = (case map_of L i of None \<Rightarrow> [] | Some t \<Rightarrow> [text_display s i t])" if "i < 15" for i
  proof (cases "map_of L i")
    case None
    then have "i \<notin> fst ` set L" by (simp add: map_of_eq_None_iff)
    then show ?thesis using assms(3) None that by (simp add: flag_bits)
  next
    case (Some t)
    note m = map_of_SomeD [OF Some]
    have h: "row_holds scr i t" "length t \<le> 32" "visible t" "text_ok t" using m assms(2) by auto
    have "row_ok (characters scr ! i)" "length (charsets scr ! i) = 33"
      using assms(1) that by (simp_all add: screen_ok_def list_all_length)
    moreover have "i \<in> fst ` set L" using m by force
    ultimately show ?thesis
      using row_display_text [OF h(1,2) _ h(3,4)] Some that assms(3) by (simp add: flag_bits)
  qed
  then show ?thesis unfolding captured_def drawn_rows_def by (intro arg_cong [where f = concat] map_cong) simp_all
qed

lemma eoc_draws:
  assumes "loading k L (fst ` set L) s0 s" "L \<noteq> []"
    and "\<forall>(r, t) \<in> set L. r < 15 \<and> length t \<le> 32 \<and> visible t \<and> text_ok t"
  shows "calls (handle_eoc s) = calls s0 @ clear_call s0 # drawn_rows s0 L"
proof -
  let ?a = "active_screen s0" and ?scr = "screen s ! k"
  have f: "eia_inv s" "active_screen s = ?a" "k = other_screen ?a" "calls s = calls s0" "k < 2" "?a < 2" "length (screen s) = 2" "k \<noteq> ?a"
    using assms(1) by (auto simp: loading_def same_view_def eia_inv_def other_screen_def)
  have v: "u32DisplayWidth s = u32DisplayWidth s0" "u32DisplayHeight s = u32DisplayHeight s0" "color s = color s0" "bgColor s = bgColor s0"
    using assms(1) by (simp_all add: loading_def same_view_def)
  have d: "row_display s = row_display s0" using v row_display_cong by blast
  obtain r t where rt: "(r, t) \<in> set L" using assms(2) by (cases L) auto
  then have "bit (row_used ?scr) r" using assms(1,3) by (force simp: loading_def)
  then have u: "row_used ?scr \<noteq> 0" by auto
  have c: "captured s0 ?scr [0..<15] = drawn_rows s0 L"
  proof (rule captured_text [OF inv_screen [OF f(1,5)]])
    have "\<forall>(r, t) \<in> set L. row_holds ?scr r t" using assms(1) unfolding loading_def by blast
    then show "\<forall>(r, t) \<in> set L. row_holds ?scr r t \<and> r < 15 \<and> length t \<le> 32 \<and> visible t \<and> text_ok t"
      using assms(3) by blast
    show "\<forall>i < 15. bit (row_used ?scr) i \<longleftrightarrow> i \<in> fst ` set L" using assms(1) unfolding loading_def by blast
  qed
  define e where "e = set_screen ?a blank_screen s"
  have e: "screen e = (screen s)[?a := blank_screen]" "active_screen e = ?a" "calls e = calls s" by (simp_all add: e_def set_screen_def f(2))
  have ve: "u32DisplayWidth e = u32DisplayWidth s0" "u32DisplayHeight e = u32DisplayHeight s0" "color e = color s0" "bgColor e = bgColor s0"
    using v by (simp_all add: e_def set_screen_def)
  have h: "handle_edm s = capture_screen e" by (simp add: handle_edm_def e_def f(2))
  have ch: "calls (handle_edm s) = calls s @ [clear_call s0]"
    using e ve f unfolding h by (simp add: capture_calls Let_def clear_call_def blank_screen_def)
  let ?g = "(handle_edm s)\<lparr>active_screen := k, cursor_column := 0\<rparr>"
  have g: "handle_eoc s = capture_screen ?g" by (simp add: handle_eoc_def Let_def f(2,3))
  have dg: "row_display ?g = row_display s0" by (rule row_display_cong) (simp_all add: h ve)
  have "captured ?g ?scr [0..<15] = captured s0 ?scr [0..<15]" by (simp only: captured_def dg)
  note this [unfolded c]
  moreover have "screen ?g ! k = ?scr" using f by simp
  ultimately show ?thesis unfolding g using u ch f(4) by (simp add: capture_calls Let_def)
qed

lemma drawn_rows_rev: "distinct (map fst L) \<Longrightarrow> drawn_rows s (rev L) = drawn_rows s L"
proof -
  assume "distinct (map fst L)"
  then have "map_of (rev L) = map_of L" by (subst map_of_inject_set) (simp_all add: rev_map [symmetric])
  then show ?thesis by (simp add: drawn_rows_def)
qed

lemma lines_text:
  assumes "list_all line_ok ls"
  shows "\<forall>(r, t) \<in> set (rev (map line_row ls)). r < 15 \<and> length t \<le> 32 \<and> visible t \<and> text_ok t"
proof -
  have at: "r < 15 \<and> length t \<le> 32 \<and> visible t \<and> text_ok t" if "l \<in> set ls" "line_row l = (r, t)" for l r t
  proof -
    obtain hi lo x where l: "l = (hi, lo, x)" by (cases l)
    have ok: "line_ok (hi, lo, x)" using that(1) assms by (auto simp: list_all_iff l)
    have "row_map ! pac_index hi lo \<le> 15" using row_map_bound [OF pac_index_less] .
    then show ?thesis using ok that(2)
      by (auto simp: l line_ok_def line_row_def pac_row_def text_ok_def visible_def nat_less_iff list_all_iff)
  qed
  show ?thesis
  proof
    fix x assume "x \<in> set (rev (map line_row ls))"
    then obtain l where l: "l \<in> set ls" "line_row l = (fst x, snd x)" by auto
    show "case x of (r, t) \<Rightarrow> r < 15 \<and> length t \<le> 32 \<and> visible t \<and> text_ok t" using at [OF l] by (simp add: case_prod_beta)
  qed
qed

text \<open>A whole caption is loaded without drawing, and shown by the end-of-caption code.\<close>

lemma caption_loads:
  assumes "eia_inv s" "prev_cmd s \<noteq> (0x14, 0x20)" "row_used (screen s ! other_screen (active_screen s)) = 0"
    and "ls \<noteq> []" "list_all line_ok ls" "distinct (map (\<lambda>l. fst (line_row l)) ls)" "length nows = length (caption_pairs ls)"
  defines "L \<equiv> rev (map line_row ls)"
  shows "\<exists>u. CcProcess nows (line21_packet (caption_pairs ls)) s = Some u
    \<and> loading (other_screen (active_screen s)) L (fst ` set L) (set_mode EIA608_MODE_POPON s) u \<and> prev_cmd u = (0, 0)"
proof -
  let ?k = "other_screen (active_screen s)" and ?s0 = "set_mode EIA608_MODE_POPON s"
  have "length nows = 2 + length (concat (map line_pairs ls))" using assms(7) by (simp add: caption_pairs_def)
  then obtain m1 m2 ns where n: "nows = [m1, m2] @ ns" "length ns = length (concat (map line_pairs ls))"
    by (auto simp: length_Suc_conv numeral_2_eq_2)
  obtain t where t: "CcProcess [m1, m2] (line21_packet [(0x14, 0x20), (0x14, 0x20)]) s = Some t" "loading ?k [] {} ?s0 t"
      "prev_cmd t = (0x14, 0x20)"
    using start_loading [OF assms(1-3)] by blast
  have d: "distinct (map fst (map line_row ls))" using assms(6) by (simp add: comp_def)
  obtain u where u: "CcProcess ns (line21_packet (concat (map line_pairs ls))) t = Some u" "loading ?k L (fst ` set L) ?s0 u"
      "prev_cmd u = (0, 0)"
    using lines_load [of ?k "[]" ?s0 t ls ns] t(2,3) assms(4,5) d n(2) by (auto simp: L_def)
  then show ?thesis
    using packet_append [of "[m1, m2]" "[(0x14, 0x20), (0x14, 0x20)]" ns "concat (map line_pairs ls)" s] t(1)
    by (simp add: caption_pairs_def n(1))
qed

lemma capture_paint: "paint_num s \<le> 0 \<Longrightarrow> paint_num (capture_screen s) \<le> 0"
proof -
  have "paint_num x \<le> 0 \<Longrightarrow> paint_num (fold (capture_row scr) is x) \<le> 0" for scr "is" x
    by (induction "is" arbitrary: x) (simp_all add: capture_row_def Let_def show_text_def)
  then show "paint_num s \<le> 0 \<Longrightarrow> paint_num (capture_screen s) \<le> 0"
    by (simp add: capture_screen_def CcClearScreen_def show_text_def Let_def)
qed

lemma caption_shown:
  assumes "loading (other_screen (active_screen s)) L (fst ` set L) (set_mode EIA608_MODE_POPON s) u" "prev_cmd u = (0, 0)" "L \<noteq> []"
    and "\<forall>(r, t) \<in> set L. r < 15 \<and> length t \<le> 32 \<and> visible t \<and> text_ok t"
  shows "\<exists>v. CcProcess [n1, n2] (line21_packet [(0x14, 0x2f), (0x14, 0x2f)]) u = Some v
    \<and> calls v = calls s @ clear_call s # drawn_rows s L \<and> eia_inv v \<and> active_screen v = other_screen (active_screen s)
    \<and> prev_cmd v = (0x14, 0x2f) \<and> row_used (screen v ! other_screen (active_screen v)) = 0 \<and> (paint_num s \<le> 0 \<longrightarrow> paint_num v \<le> 0)"
proof -
  let ?k = "other_screen (active_screen s)" and ?s0 = "set_mode EIA608_MODE_POPON s"
  let ?u = "u\<lparr>prev_cmd := (0x14, 0x2f)\<rparr>" let ?v = "handle_eoc ?u"
  have iu: "eia_inv ?u" "active_screen u = active_screen s" "length (screen u) = 2" "active_screen u < 2" "new_channel u = 1"
      "paint_num u = paint_num s"
    using assms(1) by (auto simp: loading_def same_view_def set_mode_def eia_inv_def)
  have np: "\<not> is_pac 0x14 0x2f" "\<not> is_textattr 0x14 0x2f" by (simp_all add: is_pac_def is_textattr_def)
  have "switch_channel 0x14 u = u" using channel_loading [OF assms(1)] by simp
  then have p: "process_cc608 n1 0x14 0x2f (switch_channel 0x14 u) = Some ?v"
    using np assms(2) iu(5) by (simp add: process_cc608_def run_pair_def misc_command_def)
  have pv: "prev_cmd ?v = (0x14, 0x2f)" "new_channel ?v = 1" using iu(5) by (simp_all add: handle_eoc_def Let_def)
  then have "process_cc608 n2 0x14 0x2f (switch_channel 0x14 ?v) = Some ?v"
    by (simp add: process_cc608_def switch_channel_def)
  then have cv: "CcProcess [n1, n2] (line21_packet [(0x14, 0x2f), (0x14, 0x2f)]) u = Some ?v"
    using p by (simp add: packet_Cons packet_Nil)
  have e: "calls ?v = calls ?s0 @ clear_call ?s0 # drawn_rows ?s0 L"
    using eoc_draws [of ?k L ?s0 ?u] assms by simp
  have "text_display ?s0 = text_display s" by (rule text_display_cong) (simp_all add: set_mode_def)
  then have "drawn_rows ?s0 L = drawn_rows s L" by (simp only: drawn_rows_def)
  then have cc: "calls ?v = calls s @ clear_call s # drawn_rows s L" using e by (simp add: set_mode_def clear_call_def)
  have "active_screen ?v = ?k" "other_screen (active_screen ?v) = active_screen s" "screen ?v = (screen u)[active_screen s := blank_screen]"
    using iu(2,4) by (auto simp: handle_eoc_def Let_def other_screen_def)
  moreover have "paint_num s \<le> 0 \<longrightarrow> paint_num ?v \<le> 0"
    using capture_paint iu(6) by (simp add: handle_eoc_def handle_edm_def Let_def set_screen_def)
  ultimately show ?thesis
    using cv cc pv(1) eoc_inv [OF iu(1)] iu(2-4) by (intro exI [of _ ?v]) (simp add: blank_screen_def)
qed

section \<open>Roll-up\<close>

lemma roll_row_used: "row_used scr \<noteq> 0 \<Longrightarrow> row_used (roll_row r keep i scr) \<noteq> 0"
proof -
  have "SET_FLAG v d = 0 \<Longrightarrow> v = 0" for v d
    unfolding SET_FLAG_def by (metis bit_0_eq bit_eq_iff bit_or_iff bot_apply bot_bool_def)
  then show "row_used scr \<noteq> 0 \<Longrightarrow> row_used (roll_row r keep i scr) \<noteq> 0" by (auto simp: roll_row_def Let_def)
qed

lemma roll_rows:
  assumes "screen_ok scr" "row_used scr \<noteq> 0" "keep \<le> r + 1" "r < 15" "keep \<le> 4" "n \<le> keep"
  defines "b \<equiv> r + 1 - keep" and "x \<equiv> fold (roll_row r keep) [0..<n] scr"
  shows "screen_ok x \<and> row_used x \<noteq> 0 \<and> (\<forall>i < 15.
    characters x ! i = characters scr ! (if b \<le> i \<and> i < b + n then (i + 1) mod 15 else i)
    \<and> take 32 (charsets x ! i) = take 32 (charsets scr ! (if b \<le> i \<and> i < b + n then (i + 1) mod 15 else i))
    \<and> (bit (row_used x) i \<longleftrightarrow> bit (row_used scr) i \<or> b \<le> i \<and> i < b + n \<and> bit (row_used scr) ((i + 1) mod 15)))"
  using assms(6) unfolding x_def
proof (induction n)
  case 0
  then show ?case using assms(1,2) by auto
next
  case (Suc n)
  define y where "y = fold (roll_row r keep) [0..<n] scr"
  define d where "d = b + n"
  define e where "e = (d + 1) mod 15"
  have y: "screen_ok y" "row_used y \<noteq> 0" "\<And>i. i < 15 \<Longrightarrow>
      characters y ! i = characters scr ! (if b \<le> i \<and> i < d then (i + 1) mod 15 else i)
      \<and> take 32 (charsets y ! i) = take 32 (charsets scr ! (if b \<le> i \<and> i < d then (i + 1) mod 15 else i))
      \<and> (bit (row_used y) i \<longleftrightarrow> bit (row_used scr) i \<or> b \<le> i \<and> i < d \<and> bit (row_used scr) ((i + 1) mod 15))"
    using Suc by (auto simp: y_def d_def)
  have d: "d < 15" "b \<le> d" "(r + 1 - keep + n + 15) mod 15 = d" "(r + 1 - keep + n + 15 + 1) mod 15 = e"
    using assms(3,4) Suc.prems by (auto simp: d_def b_def e_def mod_if)
  have e: "e < 15" "\<not> (b \<le> e \<and> e < d)" "e \<noteq> d"
    using assms(3-5) Suc.prems by (auto simp: d_def b_def e_def mod_if)
  have l: "length (characters y) = 15" "length (charsets y) = 15" "row_ok (characters y ! d)" "row_ok (characters y ! e)"
    "length (charsets y ! d) = 33" "length (charsets y ! e) = 33"
    using y(1) d(1) e(1) by (simp_all add: screen_ok_def list_all_length)
  let ?z = "roll_row r keep n y"
  have z: "characters ?z = (characters y)[d := characters y ! e]"
    "charsets ?z = (charsets y)[d := take 32 (charsets y ! e) @ [charsets y ! d ! 32]]"
    "row_used ?z = (if bit (row_used y) e then SET_FLAG (row_used y) d else row_used y)"
    unfolding roll_row_def eia_sizes Let_def d(3,4) using y(2) l e(1) row_ok_shift by (simp_all add: mem_write_row flag_bits)
  have zy: "characters ?z ! i = characters y ! (if i = d then e else i)"
    "take 32 (charsets ?z ! i) = take 32 (charsets y ! (if i = d then e else i))"
    "bit (row_used ?z) i \<longleftrightarrow> bit (row_used y) i \<or> i = d \<and> bit (row_used y) e" if "i < 15" for i
    using that l d(1) by (auto simp: z flag_bits nth_list_update)
  have step: "characters ?z ! i = characters scr ! (if b \<le> i \<and> i < b + Suc n then (i + 1) mod 15 else i)" (is "_ = _ ! ?m i")
    "take 32 (charsets ?z ! i) = take 32 (charsets scr ! (if b \<le> i \<and> i < b + Suc n then (i + 1) mod 15 else i))"
    "bit (row_used ?z) i \<longleftrightarrow> bit (row_used scr) i \<or> b \<le> i \<and> i < b + Suc n \<and> bit (row_used scr) ((i + 1) mod 15)" if "i < 15" for i
  proof -
    have w: "(if b \<le> e \<and> e < d then (e + 1) mod 15 else e) = e" using e(2) by argo
    have ye: "characters y ! e = characters scr ! e" "take 32 (charsets y ! e) = take 32 (charsets scr ! e)"
      "bit (row_used y) e \<longleftrightarrow> bit (row_used scr) e" using y(3) [OF e(1)] e(2) unfolding w by blast+
    have m: "?m i = (if i = d then e else if b \<le> i \<and> i < d then (i + 1) mod 15 else i)"
      using d(2) by (auto simp: d_def e_def)
    have yi: "characters y ! i = characters scr ! ?m i" "take 32 (charsets y ! i) = take 32 (charsets scr ! ?m i)" if "i \<noteq> d"
      using y(3) [OF \<open>i < 15\<close>] that unfolding m by simp_all
    show "characters ?z ! i = characters scr ! ?m i"
      using zy(1) [OF that] ye(1) yi(1) m by (cases "i = d") (simp_all only: if_True if_False refl not_False_eq_True simp_thms)
    show "take 32 (charsets ?z ! i) = take 32 (charsets scr ! ?m i)"
      using zy(2) [OF that] ye(2) yi(2) m by (cases "i = d") (simp_all only: if_True if_False refl not_False_eq_True simp_thms)
    have "b \<le> i \<and> i < b + Suc n \<longleftrightarrow> i = d \<or> b \<le> i \<and> i < d" using d(2) by (auto simp: d_def)
    moreover have "bit (row_used y) i \<longleftrightarrow> bit (row_used scr) i \<or> b \<le> i \<and> i < d \<and> bit (row_used scr) ((i + 1) mod 15)"
      using y(3) [OF that] by blast
    ultimately show "bit (row_used ?z) i \<longleftrightarrow> bit (row_used scr) i \<or> b \<le> i \<and> i < b + Suc n \<and> bit (row_used scr) ((i + 1) mod 15)"
      using zy(3) [OF that] ye(3) e_def by blast
  qed
  have "fold (roll_row r keep) [0..<Suc n] scr = ?z" by (simp add: y_def)
  then show ?case using step roll_row_ok [OF y(1)] roll_row_used [OF y(2)] by simp
qed

lemma outside_bits:
  "j < 16 \<Longrightarrow> bit (fold (unset_outside r keep) is v) j \<longleftrightarrow> bit v j \<and> (j \<in> set is \<longrightarrow> int j > int r - int keep \<and> j \<le> r)"
  by (induction "is" arbitrary: v) (auto simp: unset_outside_def flag_bits)

text \<open>The rows \<open>a\<close> to \<open>r\<close> are used and hold the lines \<open>ts\<close>.\<close>

definition holds_rows :: "eia608_screen \<Rightarrow> nat \<Rightarrow> u8 list list \<Rightarrow> bool" where
  "holds_rows scr a ts \<longleftrightarrow> (\<forall>i < 15. bit (row_used scr) i \<longleftrightarrow> a \<le> i \<and> i < a + length ts)
     \<and> (\<forall>j < length ts. row_holds scr (a + j) (ts ! j))"

lemma row_holds_cong:
  "length t \<le> 32 \<Longrightarrow> characters x ! i = characters y ! j \<Longrightarrow> take 32 (charsets x ! i) = take 32 (charsets y ! j)
    \<Longrightarrow> row_holds x i t = row_holds y j t"
proof -
  assume a: "length t \<le> 32" "characters x ! i = characters y ! j" "take 32 (charsets x ! i) = take 32 (charsets y ! j)"
  then have "take (length t) (take 32 (charsets x ! i)) = take (length t) (take 32 (charsets y ! j))" by simp
  then have "take (length t) (charsets x ! i) = take (length t) (charsets y ! j)" using a(1) by (simp add: min_def)
  then show ?thesis using a(2) by (simp add: row_holds_def)
qed

lemma roll_up_shift:
  assumes "eia_inv s" "mode s \<noteq> EIA608_MODE_TEXT" "k = get_writing_screen s" "cursor_row s = r" "a + length ts = r + 1"
    and "holds_rows (screen s ! k) a ts" "\<forall>t \<in> set ts. length t \<le> 32" "ts \<noteq> []" "1 \<le> r" "2 \<le> rollup s"
  defines "a' \<equiv> max (r + 1 - rollup s) (a - 1)"
  shows "holds_rows (screen (roll_up s) ! k) a' (drop (length ts - (r - a')) ts)"
proof -
  define keep where "keep = min (r + 1) (rollup s)"
  let ?scr = "screen s ! k" and ?b = "r + 1 - keep"
  have r: "r < 15" "rollup s \<le> 4" "k < 2" "length (screen s) = 2"
    using assms(1,3,4) writing_less [OF assms(1)] by (auto simp: eia_inv_def)
  have kp: "keep \<le> r + 1" "keep \<le> 4" "2 \<le> keep" "1 \<le> keep" using r assms(9,10) by (auto simp: keep_def)
  define u where "u = ?scr\<lparr>row_used := fold (unset_outside r keep) [0..<15] (row_used ?scr)\<rparr>"
  define x where "x = fold (roll_row r keep) [0..<keep] u"
  have scr: "screen (roll_up s) ! k = x\<lparr>row_used := UNSET_FLAG (row_used x) r\<rparr>"
    using assms(2,3,4) r by (simp add: roll_up_def Let_def set_screen_def eia_sizes keep_def u_def x_def)
  have ub: "bit (row_used u) i \<longleftrightarrow> a \<le> i \<and> ?b \<le> i \<and> i \<le> r" if "i < 15" for i
  proof -
    have "(int i > int r - int keep) = (?b \<le> i)" using kp(1) by linarith
    then show ?thesis using that assms(5,6) outside_bits [of i r keep "[0..<15]" "row_used ?scr"]
      by (auto simp: u_def holds_rows_def)
  qed
  have "a \<le> r" using assms(5,8) by (cases ts) auto
  then have "bit (row_used u) r" using ub [of r] r kp by auto
  then have un: "row_used u \<noteq> 0" by auto
  have uo: "screen_ok u" using inv_screen [OF assms(1) r(3)] by (simp add: u_def screen_ok_def)
  note x = roll_rows [OF uo un kp(1) r(1) kp(2) order_refl, folded x_def]
  have a': "a' = max ?b (a - 1)" "a' < r" "length ts - (r - a') \<le> length ts" using kp assms(5,9,10) \<open>a \<le> r\<close> by (auto simp: a'_def keep_def)
  have ln: "length (drop (length ts - (r - a')) ts) = r - a'"
  proof -
    have "a - 1 \<le> a'" using a'(1) by simp
    then show ?thesis using assms(5) a'(2) \<open>a \<le> r\<close> by simp
  qed
  show ?thesis unfolding holds_rows_def ln scr
  proof (intro conjI allI impI)
    fix i :: nat assume i: "i < 15"
    have m: "i < r \<Longrightarrow> (i + 1) mod 15 = i + 1" using r by simp
    have "bit (row_used x) i \<longleftrightarrow> bit (row_used u) i \<or> ?b \<le> i \<and> i < ?b + keep \<and> bit (row_used u) ((i + 1) mod 15)"
      using x i by blast
    then have "bit (UNSET_FLAG (row_used x) r) i \<longleftrightarrow> i \<noteq> r \<and> (bit (row_used u) i \<or> ?b \<le> i \<and> i \<le> r \<and> bit (row_used u) ((i + 1) mod 15))"
      using i kp(1,4) by (auto simp: flag_bits)
    also have "\<dots> \<longleftrightarrow> a' \<le> i \<and> i < r"
      using ub [OF i] ub [of "i + 1"] m r kp unfolding a'(1) by (cases "i < r") auto
    also have "\<dots> \<longleftrightarrow> a' \<le> i \<and> i < a' + (r - a')" using a'(2) by auto
    finally show "bit (row_used (x\<lparr>row_used := UNSET_FLAG (row_used x) r\<rparr>)) i \<longleftrightarrow> a' \<le> i \<and> i < a' + (r - a')" by simp
  next
    fix j assume j: "j < r - a'"
    let ?i = "a' + j" and ?j = "length ts - (r - a') + j"
    have "?b \<le> a'" using a'(1) by simp
    then have i: "?i < 15" "?b \<le> ?i" "?i < ?b + keep" "(?i + 1) mod 15 = ?i + 1" using j r(1) kp(1) by simp_all
    have c: "characters x ! ?i = characters u ! (?i + 1)" "take 32 (charsets x ! ?i) = take 32 (charsets u ! (?i + 1))"
      using x i by auto
    have "a - 1 \<le> a'" using a'(1) by simp
    then have jj: "?j < length ts" "a + ?j = ?i + 1" using j a'(2) assms(5,8) \<open>a \<le> r\<close> by simp_all
    then have "row_holds ?scr (?i + 1) (ts ! ?j)" using assms(6) jj unfolding holds_rows_def by metis
    moreover have "length (ts ! ?j) \<le> 32" using assms(7) jj(1) by auto
    ultimately show "row_holds (x\<lparr>row_used := UNSET_FLAG (row_used x) r\<rparr>) ?i (drop (length ts - (r - a')) ts ! j)"
      using row_holds_cong [of "ts ! ?j" x ?i u "?i + 1"] c jj(1) j a'(3)
      by (simp add: row_holds_def u_def)
  qed
qed

lemma holds_captured:
  assumes "screen_ok scr" "holds_rows scr a ts" "a + length ts \<le> 15" "list_all (\<lambda>t. length t \<le> 32 \<and> visible t \<and> text_ok t) ts"
  shows "captured s scr [0..<15] = drawn_rows s (zip [a..<a + length ts] ts)"
proof (rule captured_text [OF assms(1)])
  show "\<forall>(r, t) \<in> set (zip [a..<a + length ts] ts). row_holds scr r t \<and> r < 15 \<and> length t \<le> 32 \<and> visible t \<and> text_ok t"
    using assms(2-4) by (auto simp: set_zip holds_rows_def list_all_length)
  have "fst ` set (zip [a..<a + length ts] ts) = {a..<a + length ts}" by (simp add: set_map [symmetric] del: set_map)
  then show "\<forall>i < 15. bit (row_used scr) i \<longleftrightarrow> i \<in> fst ` set (zip [a..<a + length ts] ts)"
    using assms(2) by (simp add: holds_rows_def)
qed

lemma roll_up_view [simp]:
  "u32DisplayWidth (roll_up s) = u32DisplayWidth s" "u32DisplayHeight (roll_up s) = u32DisplayHeight s"
  "color (roll_up s) = color s" "bgColor (roll_up s) = bgColor s"
  by (simp_all add: roll_up_def Let_def set_screen_def)

text \<open>
  C5. A carriage return in roll-up or paint-on mode scrolls the window: when the used rows end at the cursor row and
  hold some lines, the last lines that fit above the cursor row move up one row with their texts, no other row is used,
  the picture is cleared and exactly the moved lines are drawn again at their new rows, and the next text starts in an empty row.
\<close>

theorem rollup_carriage_return:
  assumes "eia_inv s" "mode s \<noteq> EIA608_MODE_POPON" "mode s \<noteq> EIA608_MODE_TEXT" "\<not> real_time s" "new_channel s = 1"
    and "prev_cmd s \<noteq> (0x14, 0x2d)" "1 \<le> cursor_row s" "2 \<le> rollup s" "ts \<noteq> []" "a + length ts = cursor_row s + 1"
    and "holds_rows (screen s ! active_screen s) a ts" "list_all (\<lambda>t. length t \<le> 32 \<and> visible t \<and> text_ok t) ts"
  shows "let r = cursor_row s; a' = max (r + 1 - rollup s) (a - 1); ts' = drop (length ts - (r - a')) ts in
    \<exists>s'. process_cc608 now 0x14 0x2d s = Some s' \<and> holds_rows (screen s' ! active_screen s') a' ts' \<and> a' + length ts' = r
      \<and> calls s' = calls s @ clear_call s # drawn_rows s (zip [a'..<r] ts')
      \<and> cursor_row s' = r \<and> cursor_column s' = 0 \<and> eia_inv s'"
proof -
  define r where "r = cursor_row s"
  define a' where "a' = max (r + 1 - rollup s) (a - 1)"
  define ts' where "ts' = drop (length ts - (r - a')) ts"
  let ?k = "active_screen s" and ?s = "s\<lparr>prev_cmd := (0x14, 0x2d)\<rparr>"
  let ?u = "(roll_up ?s)\<lparr>cursor_column := 0\<rparr>" let ?c = "CcClearScreen ?u"
  have main: ?thesis if *: "\<exists>s'. process_cc608 now 0x14 0x2d s = Some s' \<and> holds_rows (screen s' ! active_screen s') a' ts' \<and> a' + length ts' = r
      \<and> calls s' = calls s @ clear_call s # drawn_rows s (zip [a'..<r] ts')
      \<and> cursor_row s' = r \<and> cursor_column s' = 0 \<and> eia_inv s'"
    using * by (simp only: Let_def r_def [symmetric] a'_def [symmetric] ts'_def [symmetric])
  have ia: "eia_inv ?s" using assms(1) by simp
  have ar: "a \<le> r" using assms(9,10) by (cases ts) (auto simp: r_def)
  have lt: "\<forall>t \<in> set ts. length t \<le> 32" using assms(12) by (simp add: list_all_iff)
  have h: "holds_rows (screen (roll_up ?s) ! ?k) a' ts'"
    using roll_up_shift [OF ia _ _ _ _ _ lt assms(9), of ?k r a] assms
    by (simp add: get_writing_screen_def r_def a'_def ts'_def)
  have "a - 1 \<le> a'" "a' < r" using assms(7,8) ar by (auto simp: a'_def r_def)
  then have n: "a' + length ts' = r" "ts' \<noteq> []" using assms(9,10) ar by (simp_all add: ts'_def r_def)
  have k: "?k < 2" "r < 15" using assms(1) by (auto simp: eia_inv_def r_def)
  have io: "eia_inv ?c" using roll_up_inv [OF ia] by (simp add: CcClearScreen_def)
  have np: "\<not> is_pac 0x14 0x2d" "\<not> is_textattr 0x14 0x2d" by (simp_all add: is_pac_def is_textattr_def)
  have cr: "process_cc608 now 0x14 0x2d s = Some (carriage_return ?s)"
    using assms(5,6) np by (simp add: process_cc608_def run_pair_def misc_command_def)
  have e: "carriage_return ?s = clear_old_unicode (capture_screen ?c)" using assms(4) by (simp add: carriage_return_def Let_def)
  have sc: "screen ?c = screen (roll_up ?s)" "active_screen ?c = ?k" "calls ?c = calls s @ [clear_call s]"
    by (simp_all add: CcClearScreen_def clear_call_def)
  let ?x = "screen (roll_up ?s) ! ?k"
  have ok: "screen_ok ?x" using inv_screen [OF roll_up_inv [OF ia] k(1)] .
  have "bit (row_used ?x) a'" using h n k by (auto simp: holds_rows_def)
  then have u: "row_used ?x \<noteq> 0" by auto
  have "list_all (\<lambda>t. length t \<le> 32 \<and> visible t \<and> text_ok t) ts'"
    using assms(12) by (auto simp: ts'_def list_all_iff dest: in_set_dropD)
  note all' = this
  have "a' + length ts' \<le> 15" using n(1) k(2) by simp
  note cp = holds_captured [OF ok h this all', unfolded n(1)]
  have rd: "row_display ?c = row_display s" by (rule row_display_cong) (simp_all add: CcClearScreen_def show_text_def)
  have "captured ?c ?x [0..<15] = captured s ?x [0..<15]" by (simp only: captured_def rd)
  then have calls: "calls (carriage_return ?s) = calls s @ clear_call s # drawn_rows s (zip [a'..<r] ts')"
    using u cp by (simp add: e capture_calls Let_def sc)
  have f: "screen (carriage_return ?s) ! active_screen (carriage_return ?s) = ?x" "cursor_row (carriage_return ?s) = r"
    "cursor_column (carriage_return ?s) = 0" by (simp_all add: e sc) (simp_all add: CcClearScreen_def r_def)
  have fin: "\<exists>s'. process_cc608 now 0x14 0x2d s = Some s' \<and> holds_rows (screen s' ! active_screen s') a' ts' \<and> a' + length ts' = r
      \<and> calls s' = calls s @ clear_call s # drawn_rows s (zip [a'..<r] ts')
      \<and> cursor_row s' = r \<and> cursor_column s' = 0 \<and> eia_inv s'"
    using cr h n(1) calls f carriage_return_inv [OF ia] by (intro exI [of _ "carriage_return ?s"]) simp
  show ?thesis by (rule main [OF fin])
qed

section \<open>Transport\<close>

text \<open>
  C12. The decoder leaves its screens in exactly one way: a backspace of channel 1, not a repeated one, at the first column outside text mode.
  Any other pair of bytes is processed without writing outside a row, and screens of 15 rows of 32 terminated characters
  below 0x80, a valid active screen, a cursor inside the screen and a window of at most four rows are kept by every pair and every packet.
\<close>

theorem eia608_stays_in_screen:
  assumes "eia_inv s"
  shows "(process_cc608 now (hi AND 0x7f) (lo AND 0x7f) s = None
      \<longleftrightarrow> bad_backspace (hi AND 0x7f) (lo AND 0x7f) s \<and> prev_cmd s \<noteq> (hi AND 0x7f, lo AND 0x7f))
    \<and> pred_option eia_inv (process_cc608 now (hi AND 0x7f) (lo AND 0x7f) s)
    \<and> pred_option eia_inv (CcProcess nows data s)"
proof -
  have m: "b AND 0x7f < 0x80" for b :: u8 by (rule le_less_trans [OF word_and_le1]) simp
  have p: "pred_option eia_inv (process_cc608 now (a AND 0x7f) (b AND 0x7f) x)" if "eia_inv x" for now a b x
    using process_inv(2) [OF that m m] by (cases "process_cc608 now (a AND 0x7f) (b AND 0x7f) x") auto
  have c: "eia_inv (switch_channel a x)" "eia_inv (x\<lparr>top_field_first := v\<rparr>)" if "eia_inv x" for a v x
    using that by (simp_all add: switch_channel_def eia_inv_def)
  have t: "pred_option eia_inv (cc_triple now t a b x)" if "eia_inv x" for now t a b x
    using that p c by (simp add: cc_triple_def Let_def)
  have "pred_option eia_inv (CcProcess nows data x)" if "eia_inv x" for x
    using that
  proof (induction nows data x rule: CcProcess.induct)
    case (1 now nows t b1 b2 data x)
    then show ?case using t [of x now t b1 b2] by (cases "cc_triple now t b1 b2 x") simp_all
  qed simp_all
  then show ?thesis using process_inv(1) [OF assms m m] p [OF assms] assms by simp
qed

lemma bit_reverse8_loop: "k + n \<le> 8 \<Longrightarrow> i < 8 \<Longrightarrow>
  bit (reverse8_loop n k data res) i \<longleftrightarrow> (if i < n then bit data (k + n - 1 - i) else bit res (i - n))"
proof (induction n arbitrary: k res)
  case (Suc n)
  let ?r = "push_bit 1 res OR (if data AND push_bit k 1 \<noteq> 0 then 1 else 0)"
  have b: "bit ?r j \<longleftrightarrow> (if j = 0 then bit data k else bit res (j - 1))" if "j < 8" for j
  proof -
    have "bit (push_bit 1 res) j \<longleftrightarrow> 1 \<le> j \<and> bit res (j - 1)" using that by (simp only: bit_push_bit_iff) (simp add: bit_imp_le_length)
    then show ?thesis unfolding bit_or_iff by (auto simp: bit_1_iff and_exp_eq_0_iff_not_bit)
  qed
  have "i - n < 8" using Suc.prems by simp
  then show ?case using Suc.IH [of "k + 1" ?r] Suc.prems b [of "i - n"] by (auto simp: less_Suc_eq)
qed simp

lemma bit_reverse8: "i < 8 \<Longrightarrow> bit (reverse8 b) i \<longleftrightarrow> bit b (7 - i)"
  using bit_reverse8_loop [of 0 8 i b 0] by (simp add: reverse8_def)

lemma reverse8_involution: "reverse8 (reverse8 b) = b"
  by (rule bit_word_eqI) (simp add: bit_reverse8)

text \<open>The same pairs as SCTE 20 user data of a picture with the top field first: fields 1 and 3, the bits of a byte in reverse order.\<close>

definition scte20_packet :: "u8 \<Rightarrow> (u8 \<times> u8) list \<Rightarrow> u8 list" where
  "scte20_packet t ps = concat (map (\<lambda>(a, b). [t, reverse8 (odd_parity a), reverse8 (odd_parity b)]) ps)"

lemma scte20_triple:
  "t = 0x41 \<or> t = 0x43 \<Longrightarrow> cc_triple now t (reverse8 a) (reverse8 b) s
     = process_cc608 now (a AND 0x7f) (b AND 0x7f) (s\<lparr>top_field_first := True\<rparr>)"
  by (auto simp: cc_triple_def Let_def reverse8_involution)

lemma scte20_Cons:
  assumes "t = 0x41 \<or> t = 0x43" "a < 0x80" "b < 0x80"
  shows "CcProcess (now # nows) (scte20_packet t ((a, b) # ps)) s
     = Option.bind (process_cc608 now a b (s\<lparr>top_field_first := True\<rparr>)) (CcProcess nows (scte20_packet t ps))"
proof -
  have "cc_triple now t (reverse8 (odd_parity a)) (reverse8 (odd_parity b)) s = process_cc608 now a b (s\<lparr>top_field_first := True\<rparr>)"
    unfolding scte20_triple [OF assms(1)] odd_parity_mask using assms(2,3) by (simp add: mask7)
  then show ?thesis by (simp add: scte20_packet_def)
qed

lemma scte20_steps:
  assumes "t = 0x41 \<or> t = 0x43" "eia_inv s" "new_channel s = 1" "top_field_first s"
    and "list_all (\<lambda>(a, b). a < 0x80 \<and> b < 0x80 \<and> \<not> (0x18 \<le> a \<and> a \<le> 0x1e)) ps"
  shows "CcProcess nows (scte20_packet t ps) s = CcProcess nows (line21_packet ps) s"
  using assms(2-)
proof (induction ps arbitrary: s nows)
  case (Cons p ps)
  obtain a b where p: "p = (a, b)" by (cases p)
  have ab: "a < 0x80" "b < 0x80" "\<not> (0x18 \<le> a \<and> a \<le> 0x1e)" using Cons.prems(4) by (simp_all add: p)
  have c: "switch_channel a s = s" using ab(3) Cons.prems(2) by (auto simp: switch_channel_def)
  have t: "s\<lparr>top_field_first := True\<rparr> = s" using Cons.prems(3) by (cases s) simp
  show ?case
  proof (cases nows)
    case (Cons now ns)
    have "CcProcess ns (scte20_packet t ps) u = CcProcess ns (line21_packet ps) u" if "process_cc608 now a b s = Some u" for u
      using process_inv(2) [OF Cons.prems(1) ab(1,2) that] Cons.IH [of u ns] Cons.prems by simp
    then show ?thesis
      unfolding p Cons scte20_Cons [OF assms(1) ab(1,2)] packet_Cons [OF ab(1,2)] c t
      by (cases "process_cc608 now a b s") simp_all
  qed simp
qed (simp add: scte20_packet_def line21_packet_def)

text \<open>
  C26. The two transports agree: captions of channel 1 sent as SCTE 20 user data, with the bits of every byte reversed, have
  exactly the effect of the same pairs sent as closed caption constructs, except that they leave the mark of a picture with the top field first.
\<close>

theorem scte20_same_captions:
  assumes "t = 0x41 \<or> t = 0x43" "eia_inv s" "new_channel s = 1" "ps \<noteq> []" "nows \<noteq> []"
    and "list_all (\<lambda>(a, b). a < 0x80 \<and> b < 0x80 \<and> \<not> (0x18 \<le> a \<and> a \<le> 0x1e)) ps"
  shows "CcProcess nows (scte20_packet t ps) s = CcProcess nows (line21_packet ps) (s\<lparr>top_field_first := True\<rparr>)"
proof -
  obtain a b qs where ps: "ps = (a, b) # qs" using assms(4) by (cases ps) auto
  obtain now ns where n: "nows = now # ns" using assms(5) by (cases nows) auto
  have ab: "a < 0x80" "b < 0x80" using assms(6) by (simp_all add: ps)
  have "CcProcess nows (scte20_packet t ps) s = CcProcess nows (scte20_packet t ps) (s\<lparr>top_field_first := True\<rparr>)"
    unfolding ps n scte20_Cons [OF assms(1) ab] by simp
  also have "\<dots> = CcProcess nows (line21_packet ps) (s\<lparr>top_field_first := True\<rparr>)"
    using assms by (intro scte20_steps) (simp_all add: eia_inv_def)
  finally show ?thesis .
qed

lemma channel_2_pair:
  assumes "new_channel s = 2" "a < 0x80" "\<not> (0x10 \<le> a \<and> a \<le> 0x17)"
  shows "\<exists>q. process_cc608 now a b (switch_channel a s) = Some (s\<lparr>prev_cmd := q\<rparr>)"
proof -
  have "switch_channel a s = s" using assms by (cases s) (auto simp: switch_channel_def)
  moreover have "\<not> is_pac a b" "\<not> is_textattr a b" "\<not> (0x11 \<le> a \<and> a \<le> 0x13)" "a \<noteq> 0x17"
    using assms(3) unfolding is_pac_def is_textattr_def by unat_arith+
  ultimately have "process_cc608 now a b (switch_channel a s)
      = Some (if a = 0 \<and> b = 0 \<or> prev_cmd s = (a, b) then s\<lparr>prev_cmd := prev_cmd s\<rparr> else s\<lparr>prev_cmd := (a, b)\<rparr>)"
    using assms(1) by (auto simp: process_cc608_def run_pair_def)
  then show ?thesis
    by (intro exI [of _ "if a = 0 \<and> b = 0 \<or> prev_cmd s = (a, b) then prev_cmd s else (a, b)"]) simp
qed

lemma channel_2_pairs:
  assumes "new_channel s = 2" "list_all (\<lambda>(a, b). a < 0x80 \<and> b < 0x80 \<and> \<not> (0x10 \<le> a \<and> a \<le> 0x17)) ps"
  shows "\<exists>q. CcProcess nows (line21_packet ps) s = Some (s\<lparr>prev_cmd := q\<rparr>)"
  using assms
proof (induction ps arbitrary: s nows)
  case Nil
  have "s = s\<lparr>prev_cmd := prev_cmd s\<rparr>" by simp
  then show ?case by (metis packet_Nil)
next
  case (Cons p ps)
  obtain a b where p: "p = (a, b)" by (cases p)
  show ?case
  proof (cases nows)
    case Nil
    have "s = s\<lparr>prev_cmd := prev_cmd s\<rparr>" by simp
    then show ?thesis using Nil by (metis CcProcess.simps(2))
  next
    case (Cons now ns)
    obtain q where "process_cc608 now a b (switch_channel a s) = Some (s\<lparr>prev_cmd := q\<rparr>)"
      using channel_2_pair [of s a now b] Cons.prems by (auto simp: p)
    then show ?thesis
      using Cons.IH [of "s\<lparr>prev_cmd := q\<rparr>" ns] Cons.prems packet_Cons [of a b now ns ps s] by (simp add: p Cons)
  qed
qed

text \<open>
  Captions of channel 2 do not disturb channel 1: from its first control code until a control code of channel 1, whatever
  pairs are received, nothing is drawn and no screen, cursor, mode, window or timer changes; only the channel and the last command are recorded.
\<close>

theorem channel_2_ignored:
  assumes "0x18 \<le> a" "a \<le> 0x1e" "b < 0x80" "length nows = Suc (length ps)"
    and "list_all (\<lambda>(a, b). a < 0x80 \<and> b < 0x80 \<and> \<not> (0x10 \<le> a \<and> a \<le> 0x17)) ps"
  shows "\<exists>q. CcProcess nows (line21_packet ((a, b) # ps)) s = Some (s\<lparr>new_channel := 2, prev_cmd := q\<rparr>)"
proof -
  obtain now ns where n: "nows = now # ns" using assms(4) by (cases nows) auto
  have a: "a < 0x80" "\<not> a \<le> 0x17" using assms(1,2) by unat_arith+
  have "switch_channel a s = s\<lparr>new_channel := 2\<rparr>" "switch_channel a (s\<lparr>new_channel := 2\<rparr>) = s\<lparr>new_channel := 2\<rparr>"
    using a(2) assms(1,2) by (simp_all add: switch_channel_def)
  then have "CcProcess nows (line21_packet ((a, b) # ps)) s = CcProcess nows (line21_packet ((a, b) # ps)) (s\<lparr>new_channel := 2\<rparr>)"
    using packet_Cons [OF a(1) assms(3)] by (simp add: n)
  then show ?thesis using channel_2_pairs [of "s\<lparr>new_channel := 2\<rparr>" "(a, b) # ps" nows] assms(3,5) a by simp
qed

section \<open>Concrete inputs\<close>

text \<open>The decoder after the start with white text on black, 1280 by 720.\<close>

definition cc_boot :: closedcp_param where
  "cc_boot = cc_init_vsb (Some (0xffffffff, 0xff000000, MT_UNF_CC_DF_1280X720))
     \<lparr>real_time = False, screen = [], active_screen = 0, cursor_row = 0, cursor_column = 0, cursor_color = CC_COLOR_TRANSPARENT,
      cursor_font = CC_FONT_REGULAR, cursor_charset = CCSET_BASIC_AMERICAN, mode = EIA608_MODE_POPON, prev_cmd = (0, 0), rollup = 0,
      screen_touched = False, start_time = 0, end_time = 0, paint_num = 0, cc_old_display_param = None, color = 0, bgColor = 0,
      u32DisplayWidth = 0, u32DisplayHeight = 0, show_quantity = 0, new_channel = 1, g_cc_paint = False, top_field_first = False, calls = []\<rparr>"

lemma boot_inv [simp]: "eia_inv cc_boot"
  by (simp add: cc_boot_def init_inv)

lemmas boot_eval = cc_boot_def cc_init_vsb_def Let_def

lemma eia608_stays_in_screen_witness:
  "process_cc608 0 (0x94 AND 0x7f) (0xa1 AND 0x7f) cc_boot = None \<and> pred_option eia_inv (CcProcess [0] [0xfc, 0x94, 0x20] cc_boot)"
  using eia608_stays_in_screen [OF boot_inv, of 0 "0x94" "0xa1" "[0]" "[0xfc, 0x94, 0x20]"]
  by (simp add: bad_backspace_def boot_eval)

lemma channel_2_ignored_witness:
  "\<exists>q. CcProcess [0, 0] (line21_packet [(0x1c, 0x20), (0x48, 0x49)]) cc_boot = Some (cc_boot\<lparr>new_channel := 2, prev_cmd := q\<rparr>)"
  by (rule channel_2_ignored) simp_all

lemma scte20_same_captions_witness:
  "CcProcess [0, 0] (scte20_packet 0x41 [(0x14, 0x25), (0x48, 0x49)]) cc_boot
     = CcProcess [0, 0] (line21_packet [(0x14, 0x25), (0x48, 0x49)]) (cc_boot\<lparr>top_field_first := True\<rparr>)"
proof (rule scte20_same_captions)
  show "new_channel cc_boot = 1" by (simp add: boot_eval)
qed simp_all

text \<open>Two rows are used, with the texts ''A'' and ''B''.\<close>

definition rolling :: closedcp_param where
  "rolling = cc_boot\<lparr>mode := EIA608_MODE_ROLLUP_2, rollup := 2, cursor_row := 14, cursor_column := 1,
     screen := [zero_screen\<lparr>characters := (characters zero_screen)[13 := 0x41 # replicate 32 0, 14 := 0x42 # replicate 32 0],
       row_used := SET_FLAG (SET_FLAG 0 13) 14\<rparr>, zero_screen]\<rparr>"

lemma rollup_carriage_return_witness:
  "\<exists>s'. process_cc608 0 0x14 0x2d rolling = Some s' \<and> holds_rows (screen s' ! active_screen s') 13 [[0x42]]
      \<and> calls s' = [clear_call rolling, text_display rolling 13 [0x42]] \<and> cursor_row s' = 14 \<and> cursor_column s' = 0"
proof -
  have z: "screen_ok zero_screen" by (simp add: screen_ok_def zero_screen_def row_ok_def list_all_iff)
  have ra: "row_ok (c # replicate 32 0)" if "c < 0x80" for c using that by (simp add: row_ok_def list_all_iff nth_Cons')
  have "screen_ok (zero_screen\<lparr>characters := (characters zero_screen)[13 := 0x41 # replicate 32 0, 14 := 0x42 # replicate 32 0],
       row_used := v\<rparr>)" for v
    using z ra [of "0x41"] ra [of "0x42"] by (simp add: screen_ok_def list_all_update)
  then have i: "eia_inv rolling" using z by (simp add: rolling_def boot_eval eia_inv_def)
  have h: "holds_rows (screen rolling ! active_screen rolling) 13 [[0x41], [0x42]]"
    by (auto simp: holds_rows_def rolling_def boot_eval flag_bits row_holds_def zero_screen_def less_Suc_eq)
  have v: "calls rolling = []" "cursor_row rolling = 14" "rollup rolling = 2" "mode rolling = EIA608_MODE_ROLLUP_2" "\<not> real_time rolling"
    "new_channel rolling = 1" "prev_cmd rolling = (0, 0)" by (simp_all add: rolling_def boot_eval)
  have d: "drawn_rows rolling (zip [13..<14] [[0x42]]) = [text_display rolling 13 [0x42]]"
    by (simp add: drawn_rows_def upt_rec eval_nat_numeral)
  show ?thesis
    using rollup_carriage_return [OF i, of "[[0x41], [0x42]]" 13 0] h v d
    by (simp add: Let_def text_ok_def visible_def) blast
qed

end
