(* ===== verification/CcTask.thy ===== *)
theory CcTask
  imports EiaCaption CcFifo
begin

text \<open>
  One round of the caption task, \<open>cc_task_vsb\<close> in \<open>mt_cc_parse.c\<close>, under the protocol \<open>EIA_608_708\<close>: it takes what the user
  data FIFO holds and feeds the line 21 decoder; without data it clears a picture painted more than 16 seconds ago; texts
  held back by \<open>show_quantity\<close> are shown. The readings of the clock are arguments, as are the task and display
  switches; the task sleeps only when a round had no data.
\<close>

section \<open>The task\<close>

definition paint_timeout :: "u32 \<Rightarrow> closedcp_param \<Rightarrow> closedcp_param" where
  "paint_timeout now s =
     (if g_cc_paint s \<and> now - end_time s > 16 * 1000 then CcClearScreen (s\<lparr>g_cc_paint := False\<rparr>) else s)"

definition show_pending :: "closedcp_param \<Rightarrow> closedcp_param" where
  "show_pending s =
     (if paint_num s < show_quantity s \<and> 0 < paint_num s \<and> end_time s \<noteq> 0 \<and> end_time s - start_time s > 200 \<and> g_cc_paint s
      then case cc_old_display_param s of None \<Rightarrow> s | Some d \<Rightarrow> (timeout_write_char d s)\<lparr>paint_num := 0\<rparr> else s)"

definition cc_task_round ::
  "bool \<Rightarrow> bool \<Rightarrow> u32 \<Rightarrow> u32 list \<Rightarrow> u32 \<Rightarrow> cc_fifo option \<times> closedcp_param \<Rightarrow> (cc_fifo option \<times> closedcp_param) option" where
  "cc_task_round running displayOn now nows now' gs =
     (case gs of (g, s) \<Rightarrow>
        if \<not> running \<or> \<not> displayOn then Some (g, s)
        else let s = s\<lparr>start_time := now\<rparr>; (g, d, _) = cc_fifo_get True g; data = (case d of None \<Rightarrow> [] | Some d \<Rightarrow> d);
                 r = (if data \<noteq> [] then CcProcess nows data s else Some (paint_timeout now' s))
             in map_option (\<lambda>s. (g, show_pending s)) r)"

text \<open>The switches of the display, with \<open>ccProtocol\<close> being \<open>EIA_608_708\<close>.\<close>

definition setCcDisplayOnOff ::
  "bool \<Rightarrow> bool \<times> cc_fifo option \<times> closedcp_param \<Rightarrow> bool \<times> cc_fifo option \<times> closedcp_param" where
  "setCcDisplayOnOff onoff c =
     (case c of (on, g, s) \<Rightarrow> if on = onoff then c
        else (onoff, fst (cc_fifo_clear g), if \<not> onoff then CcClearScreen s else s))"

definition setCcReset :: "cc_fifo option \<Rightarrow> cc_fifo option" where
  "setCcReset g = fst (cc_fifo_clear g)"

section \<open>Rounds\<close>

lemma round_data:
  assumes "fifo_inv f" "6 \<le> length (fifo_pending f)"
  shows "cc_task_round True True now nows now' (Some f, s)
     = map_option (\<lambda>s. (Some (f\<lparr>fifo_read_p := fifo_write_p f\<rparr>), show_pending s)) (CcProcess nows (fifo_pending f) (s\<lparr>start_time := now\<rparr>))"
proof -
  have "\<not> fifo_count f < 6" "fifo_pending f \<noteq> []" using assms(2) by (auto simp: count_pending)
  then show ?thesis by (simp add: cc_task_round_def get_eq [OF assms(1)] Let_def)
qed

lemma round_waits:
  assumes "fifo_inv f" "length (fifo_pending f) < 6"
  shows "cc_task_round True True now nows now' (Some f, s) = Some (Some f, show_pending (paint_timeout now' (s\<lparr>start_time := now\<rparr>)))"
  using assms by (simp add: cc_task_round_def get_eq Let_def count_pending)

lemma fifo_drained: "fifo_inv f \<Longrightarrow> fifo_inv (f\<lparr>fifo_read_p := fifo_write_p f\<rparr>) \<and> fifo_pending (f\<lparr>fifo_read_p := fifo_write_p f\<rparr>) = []"
  by (simp add: fifo_inv_def fifo_pending_def fifo_count_def)

lemma drained_put:
  assumes "fifo_inv f" "fifo_pending f = []" "0 < length bs" "length bs < 4096"
  shows "fifo_inv (fifo_put f bs)" "fifo_pending (fifo_put f bs) = bs"
proof -
  have c: "fifo_count f = 0" using assms(2) count_pending [of f] by simp
  then have r: "fifo_room f bs" using assms(3,4) by (simp add: fifo_room_def)
  show "fifo_inv (fifo_put f bs)" using put_fifo_inv [OF assms(1,3)] assms(4) by simp
  show "fifo_pending (fifo_put f bs) = bs" using put_pending [OF assms(1) r] assms(2) by simp
qed

lemma no_pending: "paint_num s \<le> 0 \<Longrightarrow> show_pending s = s"
  by (simp add: show_pending_def)

lemma packet_length: "length (line21_packet ps) = 3 * length ps"
  by (induction ps) (auto simp: line21_packet_def)

lemma start_time_loading: "loading k L R s0 (s\<lparr>start_time := t\<rparr>) = loading k L R s0 s"
  by (simp add: loading_def same_view_def eia_inv_def)

section \<open>Properties\<close>

text \<open>
  C2. A pop-on caption on its way from the injected user data to the screen: its lines, sent as address codes and
  characters with parity and every control code twice, are put into the empty FIFO; the next round of the task takes them and loads
  the hidden screen without drawing anything. The end-of-caption code, put and taken by another round, clears the
  picture and draws exactly the rows of the caption from the top, every text behind its leading blanks at the column of
  its first character. Then the FIFO is empty, the other screen is shown and the hidden one is unused, ready for the next caption.
\<close>

theorem popon_caption_shown:
  assumes "fifo_inv f" "fifo_pending f = []" "eia_inv s" "prev_cmd s \<noteq> (0x14, 0x20)" "paint_num s \<le> 0"
    and "row_used (screen s ! other_screen (active_screen s)) = 0"
    and "ls \<noteq> []" "list_all line_ok ls" "distinct (map (\<lambda>l. fst (line_row l)) ls)"
    and "length nows = length (caption_pairs ls)" "3 * length nows < 4096"
  shows "\<exists>f1 u f2 v.
    cc_task_round True True t1 nows t2 (Some (fifo_put f (line21_packet (caption_pairs ls))), s) = Some (Some f1, u) \<and> calls u = calls s
    \<and> cc_task_round True True t3 [n1, n2] t4 (Some (fifo_put f1 (line21_packet [(0x14, 0x2f), (0x14, 0x2f)])), u) = Some (Some f2, v)
    \<and> calls v = calls s @ clear_call s # drawn_rows s (map line_row ls)
    \<and> fifo_inv f2 \<and> fifo_pending f2 = [] \<and> eia_inv v \<and> active_screen v = other_screen (active_screen s)
    \<and> prev_cmd v = (0x14, 0x2f) \<and> paint_num v \<le> 0 \<and> row_used (screen v ! other_screen (active_screen v)) = 0"
proof -
  let ?p = "line21_packet (caption_pairs ls)" and ?e = "line21_packet [(0x14, 0x2f), (0x14, 0x2f)]" and ?L = "rev (map line_row ls)"
  let ?s = "s\<lparr>start_time := t1\<rparr>"
  have l: "6 \<le> length ?p" "length ?p < 4096" "length ?e = 6" "0 < length ?p" using assms(10,11) by (auto simp: packet_length caption_pairs_def)
  note f1 = drained_put [OF assms(1,2) l(4,2)]
  obtain u where u: "CcProcess nows ?p ?s = Some u"
      "loading (other_screen (active_screen ?s)) ?L (fst ` set ?L) (set_mode EIA608_MODE_POPON ?s) u" "prev_cmd u = (0, 0)"
    using caption_loads [of ?s ls nows] assms by (auto simp: eia_inv_def)
  have pu: "paint_num u = paint_num s" "calls u = calls s" using u(2) by (simp_all add: loading_def same_view_def set_mode_def)
  let ?f1 = "(fifo_put f ?p)\<lparr>fifo_read_p := fifo_write_p (fifo_put f ?p)\<rparr>"
  have r1: "cc_task_round True True t1 nows t2 (Some (fifo_put f ?p), s) = Some (Some ?f1, u)"
    using round_data [OF f1(1)] f1(2) l(1) u(1) no_pending [of u] pu(1) assms(5) by simp
  note d1 = fifo_drained [OF f1(1)]
  have f2: "fifo_inv (fifo_put ?f1 ?e)" "fifo_pending (fifo_put ?f1 ?e) = ?e" using drained_put [of ?f1 ?e] d1 l(3) by auto
  have "loading (other_screen (active_screen ?s)) ?L (fst ` set ?L) (set_mode EIA608_MODE_POPON ?s) (u\<lparr>start_time := t3\<rparr>)"
    using u(2) by (simp only: start_time_loading)
  then obtain v where v: "CcProcess [n1, n2] ?e (u\<lparr>start_time := t3\<rparr>) = Some v" "calls v = calls ?s @ clear_call ?s # drawn_rows ?s ?L"
      "eia_inv v" "active_screen v = other_screen (active_screen ?s)" "prev_cmd v = (0x14, 0x2f)"
      "row_used (screen v ! other_screen (active_screen v)) = 0" "paint_num ?s \<le> 0 \<longrightarrow> paint_num v \<le> 0"
    using caption_shown [of ?s ?L "u\<lparr>start_time := t3\<rparr>" n1 n2] u(3) assms(7) lines_text [OF assms(8)] by auto
  let ?f2 = "(fifo_put ?f1 ?e)\<lparr>fifo_read_p := fifo_write_p (fifo_put ?f1 ?e)\<rparr>"
  have pv: "paint_num v \<le> 0" using v(7) assms(5) by simp
  have r2: "cc_task_round True True t3 [n1, n2] t4 (Some (fifo_put ?f1 ?e), u) = Some (Some ?f2, v)"
    using round_data [OF f2(1)] f2(2) l(3) v(1) no_pending [OF pv] by simp
  have "distinct (map fst (map line_row ls))" using assms(9) by (simp add: comp_def)
  then have "drawn_rows ?s ?L = drawn_rows ?s (map line_row ls)" by (rule drawn_rows_rev)
  moreover have "text_display ?s = text_display s" by (rule text_display_cong) simp_all
  ultimately have dr: "drawn_rows ?s ?L = drawn_rows s (map line_row ls)" by (simp only: drawn_rows_def)
  have cv: "calls v = calls s @ clear_call s # drawn_rows s (map line_row ls)" using v(2) unfolding dr by (simp add: clear_call_def)
  show ?thesis
    using fifo_drained [OF f2(1)] v(4,6)
    by (intro exI conjI) (rule r1, rule pu(2), rule r2, rule cv, blast, blast, rule v(3), simp, rule v(5), rule pv, simp)
qed

lemma popon_caption_shown_witness:
  "\<exists>f1 u f2 v.
    cc_task_round True True 10 (replicate 9 11) 12 (Some (fifo_put fifo_fresh (line21_packet (caption_pairs
        [(0x14, 0x52, [0x48, 0x49]), (0x14, 0x70, [0x41, 0x42, 0x43])]))), cc_boot) = Some (Some f1, u) \<and> calls u = []
    \<and> cc_task_round True True 13 [14, 15] 16 (Some (fifo_put f1 (line21_packet [(0x14, 0x2f), (0x14, 0x2f)])), u) = Some (Some f2, v)
    \<and> calls v = [CC_FILLRECT 0 0 1279 719,
        CC_DRAWTEXT 210 605 1070 45 [0x48, 0x49] (0xff, 0xff, 0xff, 0xff) (0xff, 0, 0, 0),
        CC_DRAWTEXT 50 650 1230 45 [0x41, 0x42, 0x43] (0xff, 0xff, 0xff, 0xff) (0xff, 0, 0, 0)]
    \<and> fifo_pending f2 = [] \<and> eia_inv v"
proof -
  let ?ls = "[(0x14, 0x52, [0x48, 0x49]), (0x14, 0x70, [0x41, 0x42, 0x43])] :: (u8 \<times> u8 \<times> u8 list) list"
  have f: "fifo_inv fifo_fresh" "fifo_pending fifo_fresh = []"
    by (simp_all add: fifo_inv_def fifo_fresh_def fifo_pending_def fifo_count_def)
  have b: "prev_cmd cc_boot \<noteq> (0x14, 0x20)" "paint_num cc_boot \<le> 0" "row_used (screen cc_boot ! other_screen (active_screen cc_boot)) = 0"
    "calls cc_boot = []" by (simp_all add: boot_eval zero_screen_def other_screen_def)
  have pac: "pac_row 0x14 0x52 = 13" "pac_indent 0x52 = 4" "pac_row 0x14 0x70 = 14" "pac_indent 0x70 = 0"
    by (simp_all add: pac_row_def pac_index_def row_map_def pac_indent_def pac2_attribs_def)
  have r: "map line_row ?ls = [(13, [0x20, 0x20, 0x20, 0x20, 0x48, 0x49]), (14, [0x41, 0x42, 0x43])]"
    by (simp add: line_row_def pac numeral_eq_Suc)
  have o: "list_all line_ok ?ls"
    by (simp add: line_ok_def is_pac_def pac pac_index_def row_map_def text_ok_def visible_def)
  have d: "distinct (map (\<lambda>l. fst (line_row l)) ?ls)" using r by simp
  have n: "length (replicate 9 (11 :: u32)) = length (caption_pairs ?ls)" by (simp add: caption_pairs_def line_pairs_def)
  have c: "clear_call cc_boot = CC_FILLRECT 0 0 1279 719" by (simp add: clear_call_def boot_eval)
  have t: "text_display cc_boot 13 [0x20, 0x20, 0x20, 0x20, 0x48, 0x49]
      = CC_DRAWTEXT 210 605 1070 45 [0x48, 0x49] (0xff, 0xff, 0xff, 0xff) (0xff, 0, 0, 0)"
    "text_display cc_boot 14 [0x41, 0x42, 0x43] = CC_DRAWTEXT 50 650 1230 45 [0x41, 0x42, 0x43] (0xff, 0xff, 0xff, 0xff) (0xff, 0, 0, 0)"
    by (simp_all add: text_display_def boot_eval SHOW_TB_OFFSET_def SHOW_LR_OFFSET_def SHOW_LINE_HEIGHT_def getCcColor_def unicode_of_def)
  have w: "drawn_rows cc_boot [(13, a), (14, b)] = [text_display cc_boot 13 a, text_display cc_boot 14 b]" for a b
    by (simp add: drawn_rows_def upt_rec eval_nat_numeral)
  show ?thesis
    using popon_caption_shown [OF f boot_inv b(1,2,3) _ o d n, of 10 12 13 14 15 16] unfolding r w c t b(4) by simp blast
qed

end
