(* ===== verification/AvFifo.thy ===== *)
theory AvFifo
  imports Stream_Interface
begin

text \<open>
  The FIFO of audio presentation times of the synchronisation driver, \<open>pts_fifo_t\<close> in \<open>msp/drv/sync/drv_sync.c\<close>: the
  audio path pushes a node for every decoded frame, the interrupt of the audio output pops one for every frame that is played.
  It interprets \<open>byte_stream\<close> as long as a push leaves one slot free; the code does not see that the FIFO is full.
\<close>

record pts_node =
  nd_pts :: u32
  nd_id :: u32
  nd_step :: u32

record pts_fifo =
  fifo_init :: bool
  fifo_len :: nat
  fifo_wr :: nat
  fifo_rd :: nat
  fifo_buf :: "pts_node list"

definition MAX_PTS_FIFO_NODE_COUNT :: nat where "MAX_PTS_FIFO_NODE_COUNT = 512"

definition pts_node_zero :: pts_node where
  "pts_node_zero = \<lparr>nd_pts = 0, nd_id = 0, nd_step = 0\<rparr>"

definition avsync_audio_pts_fifo_init :: pts_fifo where
  "avsync_audio_pts_fifo_init =
     \<lparr>fifo_init = True, fifo_len = MAX_PTS_FIFO_NODE_COUNT, fifo_wr = 0, fifo_rd = 0,
      fifo_buf = replicate MAX_PTS_FIFO_NODE_COUNT pts_node_zero\<rparr>"

text \<open>The number of nodes that push and pop compute.\<close>

definition pts_cnt :: "pts_fifo \<Rightarrow> nat" where
  "pts_cnt f = (if fifo_wr f \<ge> fifo_rd f then fifo_wr f - fifo_rd f else fifo_len f + fifo_wr f - fifo_rd f)"

definition avsync_audio_push_pts_fifo :: "pts_fifo \<Rightarrow> pts_node \<Rightarrow> pts_fifo \<times> mt_ret" where
  "avsync_audio_push_pts_fifo f x =
     (if \<not> fifo_init f then (f, MT_FAILURE)
      else if pts_cnt f \<ge> fifo_len f then (f, MT_FAILURE)
      else (f\<lparr>fifo_buf := (fifo_buf f)[fifo_wr f := x], fifo_wr := (fifo_wr f + 1) mod fifo_len f\<rparr>, MT_SUCCESS))"

definition avsync_audio_pop_pts_fifo :: "pts_fifo \<Rightarrow> pts_fifo \<times> pts_node option \<times> mt_ret" where
  "avsync_audio_pop_pts_fifo f =
     (if \<not> fifo_init f then (f, None, MT_FAILURE)
      else if pts_cnt f \<le> 0 then (f, None, MT_FAILURE)
      else (f\<lparr>fifo_rd := (fifo_rd f + 1) mod fifo_len f\<rparr>, Some (fifo_buf f ! fifo_rd f), MT_SUCCESS))"

definition avsync_audio_calc_pts_fifo :: "pts_fifo \<Rightarrow> nat" where
  "avsync_audio_calc_pts_fifo f =
     (if \<not> fifo_init f then 0
      else if fifo_wr f \<ge> fifo_rd f then fifo_wr f - fifo_rd f else fifo_len f - fifo_wr f + fifo_rd f)"

section \<open>Abstraction and invariant\<close>

definition pts_inv :: "pts_fifo \<Rightarrow> bool" where
  "pts_inv f \<longleftrightarrow> fifo_init f \<and> fifo_len f = 512 \<and> fifo_wr f < 512 \<and> fifo_rd f < 512 \<and> length (fifo_buf f) = 512"

definition pts_pending :: "pts_fifo \<Rightarrow> pts_node list" where
  "pts_pending f = ring_view (fifo_buf f) 512 (fifo_rd f) (pts_cnt f)"

definition pts_room :: "pts_fifo \<Rightarrow> pts_node \<Rightarrow> bool" where
  "pts_room f x \<longleftrightarrow> length (pts_pending f) < 511"

definition pts_put :: "pts_fifo \<Rightarrow> pts_node \<Rightarrow> pts_fifo" where
  "pts_put f x = fst (avsync_audio_push_pts_fifo f x)"

definition pts_get :: "pts_fifo \<Rightarrow> unit \<Rightarrow> pts_fifo \<times> pts_node list" where
  "pts_get f u = (case avsync_audio_pop_pts_fifo f of (f', r, _) \<Rightarrow> (f', case r of None \<Rightarrow> [] | Some x \<Rightarrow> [x]))"

lemma pts_init_inv: "pts_inv avsync_audio_pts_fifo_init" "pts_pending avsync_audio_pts_fifo_init = []"
  by (simp_all add: pts_inv_def avsync_audio_pts_fifo_init_def MAX_PTS_FIFO_NODE_COUNT_def pts_pending_def pts_cnt_def)

lemma pts_cnt_less: "pts_inv f \<Longrightarrow> pts_cnt f < 512"
  by (auto simp: pts_inv_def pts_cnt_def)

lemma pts_pending_length: "length (pts_pending f) = pts_cnt f"
  by (simp add: pts_pending_def)

lemma pts_wr: "pts_inv f \<Longrightarrow> fifo_wr f = (fifo_rd f + pts_cnt f) mod 512"
  by (auto simp: pts_inv_def pts_cnt_def)

lemma ring_write_one: "p < s \<Longrightarrow> s \<le> length m \<Longrightarrow> ring_write m s p [x] = m[p := x]"
  by (simp add: ring_write_def mem_write_def upd_conv_take_nth_drop)

text \<open>A push always succeeds: the count is below the length even when the next write reaches the read position.\<close>

lemma pts_push_eq:
  assumes "pts_inv f"
  shows "avsync_audio_push_pts_fifo f x
    = (f\<lparr>fifo_buf := ring_write (fifo_buf f) 512 (fifo_wr f) [x], fifo_wr := (fifo_wr f + 1) mod 512\<rparr>, MT_SUCCESS)"
  using assms pts_cnt_less [OF assms] by (simp add: avsync_audio_push_pts_fifo_def pts_inv_def ring_write_one)

lemma pts_push_inv: "pts_inv f \<Longrightarrow> pts_inv (pts_put f x)"
  by (simp add: pts_put_def pts_push_eq) (simp add: pts_inv_def ring_write_one)

lemma pts_push_cnt:
  assumes "pts_inv f"
  shows "pts_cnt (pts_put f x) = (if pts_cnt f = 511 then 0 else pts_cnt f + 1)"
proof -
  have b: "fifo_wr f < 512" "fifo_rd f < 512" "fifo_len f = 512" using assms by (simp_all add: pts_inv_def)
  have w: "fifo_wr (pts_put f x) = (if fifo_wr f = 511 then 0 else fifo_wr f + 1)" "fifo_rd (pts_put f x) = fifo_rd f"
    "fifo_len (pts_put f x) = 512"
    using b assms by (auto simp: pts_put_def pts_push_eq)
  show ?thesis unfolding pts_cnt_def w using b by (auto split: if_splits)
qed

lemma pts_push_pending:
  assumes "pts_inv f" "pts_cnt f < 511"
  shows "pts_pending (pts_put f x) = pts_pending f @ [x]"
proof -
  have "ring_view (ring_write (fifo_buf f) 512 ((fifo_rd f + pts_cnt f) mod 512) [x]) 512 (fifo_rd f) (pts_cnt f + length [x])
      = ring_view (fifo_buf f) 512 (fifo_rd f) (pts_cnt f) @ [x]"
    using assms by (intro ring_view_write_behind) (auto simp: pts_inv_def)
  then show ?thesis
    using assms pts_push_cnt [OF assms(1), of x] pts_wr [OF assms(1)]
    by (simp add: pts_pending_def) (simp add: pts_put_def pts_push_eq)
qed

lemma pts_pop_eq:
  assumes "pts_inv f"
  shows "avsync_audio_pop_pts_fifo f = (case pts_pending f of [] \<Rightarrow> (f, None, MT_FAILURE)
    | x # xs \<Rightarrow> (f\<lparr>fifo_rd := (fifo_rd f + 1) mod 512\<rparr>, Some x, MT_SUCCESS))"
proof (cases "pts_cnt f")
  case 0
  then show ?thesis using assms by (simp add: avsync_audio_pop_pts_fifo_def pts_inv_def pts_pending_def)
next
  case (Suc n)
  then show ?thesis using assms
    by (simp add: avsync_audio_pop_pts_fifo_def pts_inv_def pts_pending_def ring_view_Suc)
qed

lemma pts_pop_pending:
  assumes "pts_inv f" "pts_pending f = x # xs"
  shows "pts_inv (f\<lparr>fifo_rd := (fifo_rd f + 1) mod 512\<rparr>) \<and> pts_pending (f\<lparr>fifo_rd := (fifo_rd f + 1) mod 512\<rparr>) = xs"
proof -
  let ?f = "f\<lparr>fifo_rd := (fifo_rd f + 1) mod 512\<rparr>"
  have "length (pts_pending f) \<noteq> 0" using assms(2) by simp
  then have b: "fifo_wr f < 512" "fifo_rd f < 512" "fifo_len f = 512" "0 < pts_cnt f"
    using assms(1) by (simp_all add: pts_inv_def pts_pending_length)
  then have w: "fifo_rd ?f = (if fifo_rd f = 511 then 0 else fifo_rd f + 1)" "fifo_wr ?f = fifo_wr f" "fifo_len ?f = 512" by auto
  have "pts_cnt ?f = pts_cnt f - 1" using b(4) unfolding pts_cnt_def w using b(1-3) by (auto split: if_splits)
  moreover obtain n where n: "pts_cnt f = Suc n" using b(4) by (cases "pts_cnt f") auto
  ultimately have "pts_pending ?f = xs"
    using assms(2) ring_view_mod [of "fifo_buf f" 512 "fifo_rd f + 1" n] by (simp add: pts_pending_def ring_view_Suc)
  then show ?thesis using assms(1) by (simp add: pts_inv_def)
qed

interpretation apts: byte_stream pts_inv pts_pending "\<lambda>x. [x]" pts_room pts_put pts_get
proof (unfold_locales, goal_cases)
  case (1 s w) then show ?case by (simp add: pts_push_inv)
next
  case (2 s w) then show ?case by (simp add: pts_push_pending pts_room_def pts_pending_length)
next
  case (3 s k) then show ?case
    using pts_pop_pending [of s] by (cases "pts_pending s") (auto simp: pts_get_def pts_pop_eq)
next
  case (4 s k) then show ?case
    using pts_pop_pending [of s] by (cases "pts_pending s") (auto simp: pts_get_def pts_pop_eq)
qed

section \<open>Properties\<close>

text \<open>While at most 511 nodes wait, whatever the interleaving of pushes and pops, every node is delivered once and in order.\<close>

theorem pts_fifo_run_stream:
  assumes "pts_inv f" "stream_run (\<lambda>x. [x]) pts_room pts_put pts_get f ops = (f', acc, out)"
  shows "pts_inv f' \<and> pts_pending f @ acc = out @ pts_pending f'"
  using assms by (rule apts.run_stream)

text \<open>C36. The push that would be refused is accepted: with 511 nodes waiting, one more makes the FIFO empty, so all 512 are lost.\<close>

theorem pts_fifo_overflow_empties:
  assumes "pts_inv f" "length (pts_pending f) = 511"
  shows "snd (avsync_audio_push_pts_fifo f x) = MT_SUCCESS \<and> pts_pending (fst (avsync_audio_push_pts_fifo f x)) = []
    \<and> avsync_audio_pop_pts_fifo (fst (avsync_audio_push_pts_fifo f x)) = (fst (avsync_audio_push_pts_fifo f x), None, MT_FAILURE)"
proof -
  have "pts_cnt (pts_put f x) = 0" using pts_push_cnt [OF assms(1), of x] assms(2) by (simp add: pts_pending_length)
  then have p: "pts_pending (pts_put f x) = []" by (simp add: pts_pending_def)
  then show ?thesis using pts_pop_eq [OF pts_push_inv [OF assms(1)]] assms(1) by (simp add: pts_put_def pts_push_eq)
qed

lemma pts_fill:
  "n \<le> 511 \<Longrightarrow> pts_inv (foldl pts_put avsync_audio_pts_fifo_init (replicate n x))
     \<and> pts_pending (foldl pts_put avsync_audio_pts_fifo_init (replicate n x)) = replicate n x"
proof (induction n)
  case 0
  then show ?case by (simp add: pts_init_inv)
next
  case (Suc n)
  let ?f = "foldl pts_put avsync_audio_pts_fifo_init (replicate n x)"
  have f: "pts_inv ?f" "pts_pending ?f = replicate n x" using Suc by simp_all
  then have "pts_cnt ?f < 511" using pts_pending_length [of ?f] Suc.prems by simp
  moreover have "replicate (Suc n) x = replicate n x @ [x]" by (simp add: replicate_append_same)
  ultimately show ?case using f pts_push_inv [OF f(1)] pts_push_pending [OF f(1)] by simp
qed

lemma pts_fifo_overflow_empties_witness:
  "let f = foldl pts_put avsync_audio_pts_fifo_init (replicate 511 \<lparr>nd_pts = 45000, nd_id = 1, nd_step = 1080\<rparr>);
       g = fst (avsync_audio_push_pts_fifo f \<lparr>nd_pts = 46080, nd_id = 2, nd_step = 1080\<rparr>)
   in length (pts_pending f) = 511 \<and> pts_pending g = []"
proof -
  define x where "x = \<lparr>nd_pts = 45000 :: u32, nd_id = 1 :: u32, nd_step = 1080 :: u32\<rparr>"
  have f: "pts_inv (foldl pts_put avsync_audio_pts_fifo_init (replicate 511 x))"
    "length (pts_pending (foldl pts_put avsync_audio_pts_fifo_init (replicate 511 x))) = 511"
    using pts_fill [of 511 x] by simp_all
  show ?thesis using pts_fifo_overflow_empties [OF f, of "\<lparr>nd_pts = 46080, nd_id = 2, nd_step = 1080\<rparr>"] f(2)
    unfolding Let_def x_def [symmetric] by blast
qed

text \<open>The count that is reported is wrong exactly when the write position has wrapped and the read position has not.\<close>

theorem pts_fifo_count_wrapped:
  assumes "pts_inv f"
  shows "avsync_audio_calc_pts_fifo f = length (pts_pending f) \<longleftrightarrow> fifo_rd f \<le> fifo_wr f"
  using assms by (auto simp: avsync_audio_calc_pts_fifo_def pts_pending_length pts_cnt_def pts_inv_def)

end
