(* ===== verification/AvClock.thy ===== *)
theory AvClock
  imports AvFifo
begin

text \<open>
  The clock of the synchronisation driver, \<open>msp/drv/sync/drv_sync.c\<close>: the program clock reference (PCR) of the stream or the
  presentation times that are played set the system time counter (STC), against which frames are judged. The state is the
  part of \<open>avsync_priv_t\<close> that the clock and the judgement use, with the statics of \<open>avsync_pcr_process_isr\<close>; counters
  for the log are left out. The STC, the parsed presentation times and the free-running counters are hardware: their
  readings are arguments, and the values written to the STC are listed in \<open>stc_sets\<close>. Times count 45 units in a millisecond.
\<close>

section \<open>State\<close>

datatype avsync_sync_mode_e = AVSYNC_REF_NONE_MODE | AVSYNC_REF_AUDIO_MODE | AVSYNC_REF_VIDEO_MODE
  | AVSYNC_REF_PCR_MODE | AVSYNC_REF_AV_MODE

datatype compare_result = ALMOST_EQUAL | LITTLE_LESS_THAN | LITTLE_MORE_THAN | LESS_THAN | MORE_THAN
  | MUCH_LESS_THAN | MUCH_MORE_THAN

datatype stc_reference = TM_PCR | TM_APTS | TM_VPTS

datatype avsync_event = SYNC_AVSYNC_EVENT_APTS_JUMP | SYNC_AVSYNC_EVENT_VPTS_JUMP | SYNC_AVSYNC_EVENT_STA_CHANGE
  | SYNC_AVSYNC_EVENT_EOS | SYNC_AVSYNC_EVENT_AUD_ROLLBACK | SYNC_AVSYNC_EVENT_VID_ROLLBACK

datatype avsync_screen_open_e = AVSYNC_UNBLANK_USER | AVSYNC_UNBLANK_SYNC | AVSYNC_UNBLANK_STABLE | AVSYNC_UNBLANK_FAST

record pcr_info =
  latest_tick :: u64
  latest_pcr :: u32
  last_reliable_tick :: u64
  last_reliable_pcr :: u32
  pcr_probe_start_tick :: u32
  seg_last_pcr :: u32
  pcr_reliable :: bool
  pcr_got :: bool
  bpcr_loop :: bool
  check_pts_pcr_cnt :: u8

text \<open>What the paths of the two streams keep beside: the last reading of the display and the counters of decisions.\<close>

record vid_path =
  vi_vpts :: u32
  vi_vpts_id :: u32
  vi_vpts_step :: u32
  vloop_cnt :: u32
  vid_push_cnt :: u32
  vid_play_cnt :: u32
  vid_skip_cnt :: u32
  vid_pause_cnt :: u32
  vid_free_cnt :: u32

record aud_path =
  aud_push_cnt :: u32
  aud_play_cnt :: u32
  aud_skip_cnt :: u32
  aud_pause_cnt :: u32
  aud_free_cnt :: u32

record avsync_priv =
  cfg_sync_mode :: avsync_sync_mode_e
  avsync_sync_mode :: avsync_sync_mode_e
  pcr :: pcr_info
  last_pcr :: u32
  init_stc :: bool
  stream_total_time :: u32
  pcr_bad_cnt :: u32
  reliable_pcr :: u32
  calc_pcr_time_start :: u32
  pcr_reduce_cnt :: u32
  stc_reference :: "stc_reference option"
  stc_offset :: u32
  cur_stc :: u32
  cur_pcr :: u32
  apts_bad_cnt :: u32
  apts_total_cnt :: u32
  apts_total_cnt_before_sw_sync_mode :: u32
  switch_audio_reason :: nat
  hold_video_num_before_audio_output :: u32
  latest_parsed_apts :: u32
  first_parsed_tick :: u64
  latest_parsed_tick :: u64
  latest_parsed_vpts :: u32
  need_change_mode_cnt :: u8
  nextpcr_err_cnt :: u8
  nextpcr_succuess_cnt :: u8
  stc_sets :: "u32 list"
  cur_apts :: u32
  cur_apts_id :: u32
  apts_step :: u32
  last_apts :: u32
  last_apts_id :: u32
  first_apts :: u32
  cur_vpts :: u32
  cur_vpts_id :: u32
  vpts_step :: u32
  last_vpts :: u32
  last_vpts_id :: u32
  first_vpts :: u32
  apts_fifo :: pts_fifo
  isr_pop :: pts_node
  cur_play_apts :: u32
  apts_fifo_push_cnt :: u32
  apts_fifo_push_pts :: u32
  apts_fifo_pop_cnt :: u32
  audio_bypass :: bool
  audio_bypass_last_apts :: u32
  audio_bypass_apts_adjust :: u32
  do_ddp_verf :: bool
  ddp_atmos :: bool
  aud_frame_sample_num :: u32
  a_type_ac4 :: bool
  avsync_do_aud_track :: bool
  avsync_do_trick_seek :: bool
  avsync_aud_rollback :: bool
  av_play_flag :: bool
  audio_track_set_av_mode_flag :: bool
  p_avsync_psync :: bool
  events :: "avsync_event list"
  aud_dev_init :: bool
  vid_dev_init :: bool
  avsync_pause_threhold :: u32
  avsync_skip_threhold :: u32
  astabled_flag :: bool
  astabled_cnt :: u32
  vstabled_flag :: bool
  vstabled_cnt :: u32
  a_synced_flag :: bool
  a_unsynced_cnt :: u32
  v_synced_flag :: bool
  v_unsynced_cnt :: u32
  av_synced_flag :: bool
  dolby_sync_done :: bool
  normal_sync_done :: bool
  aud_pause_on :: bool
  aud_skip_on :: bool
  vid_pause_on :: bool
  vid_skip_on :: bool
  disp_flag :: bool
  slow_sync_en :: bool
  slow_sync_cnt :: u32
  screen_mode :: "avsync_screen_open_e option"
  vsync_diff :: u32
  end_of_stream_flag :: bool
  vid_dolby_ply_cnt :: u32
  atoms_looped :: bool
  vid :: vid_path
  aud :: aud_path

definition STC_CNT_PER_MS :: u32 where "STC_CNT_PER_MS = 45"
definition ALMOST_EQUAL_THRESHOLD :: u32 where "ALMOST_EQUAL_THRESHOLD = STC_CNT_PER_MS * 80"
definition LITTLE_DIFFERENT_THRESHOLD :: u32 where "LITTLE_DIFFERENT_THRESHOLD = push_bit 1 ALMOST_EQUAL_THRESHOLD"
definition DIFFERENT_THRESHOLD :: u32 where "DIFFERENT_THRESHOLD = push_bit 1 LITTLE_DIFFERENT_THRESHOLD"
definition AVSYNC_PCR_SET_STC_DELAY :: u32 where "AVSYNC_PCR_SET_STC_DELAY = 200 * STC_CNT_PER_MS"
definition APTS_STC_DIFF_THRD_MAX :: u32 where "APTS_STC_DIFF_THRD_MAX = 100 * STC_CNT_PER_MS"
definition AVSYNC_C0COUNTER_SLOPE :: u32 where "AVSYNC_C0COUNTER_SLOPE = 22"
definition AVSYNC_SLOPE_THRESHOLD :: u32 where "AVSYNC_SLOPE_THRESHOLD = 3"
definition PCR_BAD_THRESHOLD :: u32 where "PCR_BAD_THRESHOLD = 15"
definition APTS_BAD_THRESHOLD :: u32 where "APTS_BAD_THRESHOLD = 2"
definition AVSYNC_PCR_DIFF_TOO_SMALL :: u32 where "AVSYNC_PCR_DIFF_TOO_SMALL = 10"

lemmas clock_consts = STC_CNT_PER_MS_def ALMOST_EQUAL_THRESHOLD_def LITTLE_DIFFERENT_THRESHOLD_def DIFFERENT_THRESHOLD_def
  AVSYNC_PCR_SET_STC_DELAY_def APTS_STC_DIFF_THRD_MAX_def AVSYNC_C0COUNTER_SLOPE_def AVSYNC_SLOPE_THRESHOLD_def
  PCR_BAD_THRESHOLD_def APTS_BAD_THRESHOLD_def AVSYNC_PCR_DIFF_TOO_SMALL_def

section \<open>Modes\<close>

definition avsync_private_reset :: "avsync_priv \<Rightarrow> avsync_priv" where
  "avsync_private_reset p = p\<lparr>
     pcr := \<lparr>latest_tick = (-1), latest_pcr = 0, last_reliable_tick = 0, last_reliable_pcr = 0, pcr_probe_start_tick = 0xffffffff,
       seg_last_pcr = 0, pcr_reliable = False, pcr_got = False, bpcr_loop = False, check_pts_pcr_cnt = 0\<rparr>,
     init_stc := False, avsync_sync_mode := cfg_sync_mode p, cur_apts := 0xffffffff, cur_vpts := 0xffffffff,
     cur_stc := 0xffffffff, cur_pcr := 0xffffffff, pcr_bad_cnt := 0, reliable_pcr := 0, latest_parsed_apts := 0xffffffff,
     latest_parsed_tick := (-1), first_parsed_tick := (-1), latest_parsed_vpts := 0xffffffff, apts_bad_cnt := 0,
     stc_offset := AVSYNC_PCR_SET_STC_DELAY, apts_total_cnt := 0, apts_total_cnt_before_sw_sync_mode := 0, first_apts := 0xffffffff,
     last_apts := 0xffffffff, last_apts_id := 0, first_vpts := 0xffffffff, last_vpts := 0xffffffff, last_vpts_id := 0,
     switch_audio_reason := 0, audio_bypass := False, screen_mode := Some AVSYNC_UNBLANK_USER,
     vid := (vid p)\<lparr>vi_vpts := 0, vi_vpts_id := 0, vi_vpts_step := 0\<rparr>, audio_bypass_apts_adjust := 0x4b0\<rparr>"

definition set_on :: "bool \<Rightarrow> bool \<Rightarrow> bool \<Rightarrow> bool \<Rightarrow> avsync_priv \<Rightarrow> avsync_priv" where
  "set_on ap as vp vs p = p\<lparr>aud_pause_on := ap, aud_skip_on := as, vid_pause_on := vp, vid_skip_on := vs\<rparr>"

fun avsync_set_sync_mode :: "avsync_sync_mode_e \<Rightarrow> avsync_priv \<Rightarrow> avsync_priv \<times> mt_ret" where
  "avsync_set_sync_mode AVSYNC_REF_NONE_MODE p =
     ((set_on False False False False p)\<lparr>avsync_sync_mode := AVSYNC_REF_NONE_MODE\<rparr>, MT_SUCCESS)"
| "avsync_set_sync_mode AVSYNC_REF_AUDIO_MODE p =
     ((set_on False False True True p)\<lparr>init_stc := False, avsync_sync_mode := AVSYNC_REF_AUDIO_MODE\<rparr>, MT_SUCCESS)"
| "avsync_set_sync_mode AVSYNC_REF_VIDEO_MODE p =
     ((set_on True True False False p)\<lparr>init_stc := False, avsync_sync_mode := AVSYNC_REF_VIDEO_MODE\<rparr>, MT_SUCCESS)"
| "avsync_set_sync_mode AVSYNC_REF_PCR_MODE p =
     ((set_on True True True True p)\<lparr>avsync_sync_mode := AVSYNC_REF_PCR_MODE\<rparr>, MT_SUCCESS)"
| "avsync_set_sync_mode AVSYNC_REF_AV_MODE p =
     (if avsync_sync_mode p = AVSYNC_REF_PCR_MODE \<or> avsync_sync_mode p = AVSYNC_REF_NONE_MODE then (p, MT_FAILURE)
      else ((set_on True True True True p)\<lparr>avsync_sync_mode := AVSYNC_REF_AV_MODE\<rparr>, MT_SUCCESS))"

fun avsync_set_user_sync_mode :: "avsync_sync_mode_e \<Rightarrow> avsync_priv \<Rightarrow> avsync_priv \<times> mt_ret" where
  "avsync_set_user_sync_mode AVSYNC_REF_AV_MODE p = (p, MT_FAILURE)"
| "avsync_set_user_sync_mode m p = (p\<lparr>cfg_sync_mode := m\<rparr>, MT_SUCCESS)"

definition avsync_resume_sync_mode :: "avsync_priv \<Rightarrow> avsync_priv \<times> mt_ret" where
  "avsync_resume_sync_mode p =
     (case cfg_sync_mode p of
        AVSYNC_REF_AUDIO_MODE \<Rightarrow> ((set_on False False True True p)\<lparr>avsync_sync_mode := AVSYNC_REF_AUDIO_MODE\<rparr>, MT_SUCCESS)
      | AVSYNC_REF_VIDEO_MODE \<Rightarrow> ((set_on True True False False p)\<lparr>avsync_sync_mode := AVSYNC_REF_VIDEO_MODE\<rparr>, MT_SUCCESS)
      | _ \<Rightarrow> (p, MT_FAILURE))"

definition switch_mode :: "avsync_sync_mode_e \<Rightarrow> avsync_priv \<Rightarrow> avsync_priv" where
  "switch_mode m p = fst (avsync_set_sync_mode m p)"

definition avsync_pcr_switch_to_audio_master :: "nat \<Rightarrow> avsync_priv \<Rightarrow> avsync_priv" where
  "avsync_pcr_switch_to_audio_master reason p = (switch_mode AVSYNC_REF_AUDIO_MODE p)\<lparr>switch_audio_reason := reason\<rparr>"

section \<open>Comparisons\<close>

definition avsync_compare_slope :: "u64 \<Rightarrow> u64 \<Rightarrow> u32 \<Rightarrow> u32 \<Rightarrow> compare_result" where
  "avsync_compare_slope prev_tick tick prev_pcr cpcr =
     (if cpcr = prev_pcr then MUCH_MORE_THAN
      else let slope = ucast ((tick - prev_tick) div ucast (cpcr - prev_pcr)) :: u32
           in if (slope \<ge> AVSYNC_C0COUNTER_SLOPE \<and> slope - AVSYNC_C0COUNTER_SLOPE < AVSYNC_SLOPE_THRESHOLD)
                 \<or> (slope < AVSYNC_C0COUNTER_SLOPE \<and> AVSYNC_C0COUNTER_SLOPE - slope < AVSYNC_SLOPE_THRESHOLD)
              then ALMOST_EQUAL else MUCH_MORE_THAN)"

definition avsync_do_compare :: "u32 \<Rightarrow> u32 \<Rightarrow> compare_result" where
  "avsync_do_compare cpcr stc =
     (let big = cpcr > stc; d = (if big then cpcr - stc else stc - cpcr)
      in if d \<le> ALMOST_EQUAL_THRESHOLD then ALMOST_EQUAL
         else if d \<le> LITTLE_DIFFERENT_THRESHOLD then (if big then LITTLE_MORE_THAN else LITTLE_LESS_THAN)
         else if d \<le> DIFFERENT_THRESHOLD then (if big then MORE_THAN else LESS_THAN)
         else (if big then MUCH_MORE_THAN else MUCH_LESS_THAN))"

section \<open>Setting the counter\<close>

definition avsync_stc_set :: "u32 \<Rightarrow> avsync_priv \<Rightarrow> avsync_priv" where
  "avsync_stc_set stc p =
     p\<lparr>stc_sets := stc_sets p @ [if avsync_sync_mode p = AVSYNC_REF_PCR_MODE then stc - stc_offset p else stc]\<rparr>"

definition avsync_stc_init :: "u32 \<Rightarrow> avsync_priv \<Rightarrow> avsync_priv" where
  "avsync_stc_init stc p = (avsync_stc_set stc p)\<lparr>init_stc := True\<rparr>"

definition avsync_pcr_set_new_pcr :: "u32 \<Rightarrow> u64 \<Rightarrow> avsync_priv \<Rightarrow> avsync_priv" where
  "avsync_pcr_set_new_pcr cpcr tick p =
     p\<lparr>pcr := (pcr p)\<lparr>latest_pcr := cpcr, last_reliable_pcr := cpcr, latest_tick := tick, last_reliable_tick := tick\<rparr>\<rparr>"

definition avsync_pcr_reliable_check :: "u64 \<Rightarrow> u32 \<Rightarrow> avsync_priv \<Rightarrow> avsync_priv \<times> bool" where
  "avsync_pcr_reliable_check tick cpcr p =
     (let i = pcr p;
          first = avsync_compare_slope (last_reliable_tick i) tick (last_reliable_pcr i) cpcr = ALMOST_EQUAL;
          second = latest_pcr i \<noteq> last_reliable_pcr i
            \<and> avsync_compare_slope (latest_tick i) tick (latest_pcr i) cpcr = ALMOST_EQUAL;
          i = (if first then i else i\<lparr>pcr_reliable := False\<rparr>);
          i = (if first \<or> second then i\<lparr>pcr_reliable := True, last_reliable_pcr := cpcr, last_reliable_tick := tick\<rparr> else i)
      in (p\<lparr>pcr := i\<lparr>latest_pcr := cpcr, latest_tick := tick\<rparr>\<rparr>, first \<or> second))"

text \<open>A step back of the reference: the end of a looped stream.\<close>

definition pcr_rollback :: "u32 \<Rightarrow> u32 \<Rightarrow> avsync_priv \<Rightarrow> avsync_priv" where
  "pcr_rollback cpcr prev p =
     (let loop = (\<lambda>p. p\<lparr>stream_total_time := latest_pcr (pcr p) - cpcr, pcr := (pcr p)\<lparr>bpcr_loop := True\<rparr>\<rparr>)
      in if cpcr < prev \<and> prev - cpcr \<ge> 60 * 1000 * STC_CNT_PER_MS then loop p
         else if cpcr < prev \<and> prev - cpcr > 800 * STC_CNT_PER_MS \<and> prev \<noteq> 0xffffffff \<and> prev AND 0xffff0000 = 0xffff0000
         then loop (avsync_private_reset p)
         else if cpcr < latest_pcr (pcr p) \<and> latest_pcr (pcr p) - cpcr > 800 * STC_CNT_PER_MS then loop p
         else p)"

text \<open>An unreliable reference: after too many the audio becomes the master.\<close>

definition pcr_unreliable :: "avsync_priv \<Rightarrow> avsync_priv" where
  "pcr_unreliable p =
     (let p = p\<lparr>pcr_bad_cnt := pcr_bad_cnt p + 1\<rparr>
      in if pcr_bad_cnt p > PCR_BAD_THRESHOLD
         then if apts_total_cnt_before_sw_sync_mode p = 0
              then p\<lparr>apts_total_cnt_before_sw_sync_mode := apts_total_cnt p\<rparr>
              else if apts_total_cnt p \<ge> apts_total_cnt_before_sw_sync_mode p + 3
              then (if apts_bad_cnt p < APTS_BAD_THRESHOLD
                    then (avsync_pcr_switch_to_audio_master 8 p)\<lparr>pcr_bad_cnt := 0\<rparr> else p)
                   \<lparr>apts_total_cnt_before_sw_sync_mode := 0\<rparr>
              else p
         else p)"

text \<open>The statistics of a reliable reference; \<open>ms\<close> are the three readings of the millisecond counter.\<close>

definition pcr_stats :: "u32 \<times> u32 \<times> u32 \<Rightarrow> u32 \<Rightarrow> avsync_priv \<Rightarrow> avsync_priv" where
  "pcr_stats ms cpcr p =
     (let (m1, m2, m3) = ms;
          p = (if calc_pcr_time_start p = 0 then p\<lparr>calc_pcr_time_start := m1\<rparr> else p);
          p = (if m2 > calc_pcr_time_start p + 10 * 1000 then p\<lparr>pcr_reduce_cnt := 0, calc_pcr_time_start := m3\<rparr> else p);
          p = (if cpcr < reliable_pcr p \<and> cpcr + STC_CNT_PER_MS * 1000 > reliable_pcr p
               then p\<lparr>pcr_reduce_cnt := pcr_reduce_cnt p + 1\<rparr> else p)
      in p\<lparr>reliable_pcr := cpcr\<rparr>)"

text \<open>A reliable reference moves the counter.\<close>

definition pcr_follow :: "u32 \<times> u32 \<times> u32 \<Rightarrow> u32 \<Rightarrow> u32 \<Rightarrow> avsync_priv \<Rightarrow> avsync_priv" where
  "pcr_follow ms stc cpcr p =
     (let stc = stc + stc_offset p; p = pcr_stats ms cpcr (p\<lparr>cur_stc := stc\<rparr>)
      in case avsync_do_compare cpcr stc of
           ALMOST_EQUAL \<Rightarrow> p
         | LITTLE_LESS_THAN \<Rightarrow> avsync_stc_set (stc - drop_bit 1 (stc - cpcr)) p
         | LITTLE_MORE_THAN \<Rightarrow> avsync_stc_set (stc + drop_bit 1 (cpcr - stc)) p
         | _ \<Rightarrow> avsync_stc_set cpcr p)"

definition avsync_stc_adjust_by_pcr :: "u64 \<Rightarrow> u32 \<times> u32 \<times> u32 \<Rightarrow> u32 \<Rightarrow> u32 \<Rightarrow> avsync_priv \<Rightarrow> avsync_priv" where
  "avsync_stc_adjust_by_pcr tick ms stc cpcr p =
     (if cpcr = 0 \<or> cpcr = 0xffffffff then p
      else if \<not> init_stc p
      then avsync_pcr_set_new_pcr cpcr tick (avsync_stc_init cpcr (p\<lparr>stc_reference := Some TM_PCR\<rparr>))
      else let p = pcr_rollback cpcr (last_pcr p) (p\<lparr>last_pcr := cpcr\<rparr>); (p, ok) = avsync_pcr_reliable_check tick cpcr p
           in if ok then pcr_follow ms stc cpcr (p\<lparr>pcr_bad_cnt := (if pcr_bad_cnt p > 0 then pcr_bad_cnt p - 1 else 0),
                           apts_total_cnt_before_sw_sync_mode := 0\<rparr>)
              else pcr_unreliable p)"

text \<open>The presentation times that are played, when the audio or the video is the master.\<close>

definition follow_pts :: "u32 \<Rightarrow> u32 \<Rightarrow> u32 \<Rightarrow> u32 \<Rightarrow> avsync_priv \<Rightarrow> avsync_priv" where
  "follow_pts stc t prev dura p =
     (if (t > prev \<and> t - prev > dura + APTS_STC_DIFF_THRD_MAX) \<or> (t < prev \<and> prev - t > dura + APTS_STC_DIFF_THRD_MAX)
      then avsync_stc_set t p
      else let lim = (if dura > 80 * STC_CNT_PER_MS then dura * 2 + dura div 2 else 80 * STC_CNT_PER_MS);
               delta = (if stc > t then stc - t else t - stc)
           in if delta > lim then avsync_stc_set t p else p)"

definition avsync_stc_adjust_by_apts :: "u32 \<Rightarrow> pts_node \<Rightarrow> avsync_priv \<Rightarrow> avsync_priv \<times> mt_ret" where
  "avsync_stc_adjust_by_apts stc x p =
     (if nd_pts x = 0xffffffff then (p, MT_FAILURE)
      else if \<not> init_stc p then (avsync_stc_init (nd_pts x) (p\<lparr>stc_reference := Some TM_APTS\<rparr>), MT_SUCCESS)
      else (follow_pts stc (nd_pts x) (if audio_bypass p then audio_bypass_last_apts p else nd_pts (isr_pop p)) (nd_step x) p,
            MT_SUCCESS))"

definition avsync_stc_adjust_by_vpts :: "u32 \<Rightarrow> avsync_priv \<Rightarrow> avsync_priv \<times> mt_ret" where
  "avsync_stc_adjust_by_vpts stc p =
     (if cur_vpts p = 0xffffffff then (p, MT_FAILURE)
      else if \<not> init_stc p then (avsync_stc_init (cur_vpts p) (p\<lparr>stc_reference := Some TM_VPTS\<rparr>), MT_SUCCESS)
      else (follow_pts stc (cur_vpts p) (last_vpts p) (vpts_step p) p, MT_SUCCESS))"

section \<open>Interrupts\<close>

definition avsync_pcr_check_nextpcr_segment :: "u32 \<Rightarrow> avsync_priv \<Rightarrow> bool" where
  "avsync_pcr_check_nextpcr_segment cpcr p =
     (let prev = seg_last_pcr (pcr p); d = (if prev \<ge> cpcr then prev - cpcr else cpcr - prev)
      in prev AND 0xfff00000 \<noteq> cpcr AND 0xfff00000 \<and> d > 0xf0000)"

definition avsync_pcr_check_avpts_pcr_segment :: "u32 \<Rightarrow> avsync_priv \<Rightarrow> bool" where
  "avsync_pcr_check_avpts_pcr_segment cpcr p \<longleftrightarrow>
     (latest_parsed_vpts p AND 0xfff00000 \<noteq> cpcr AND 0xfff00000 \<or> latest_parsed_apts p AND 0xfff00000 \<noteq> cpcr AND 0xfff00000)
     \<and> latest_parsed_vpts p AND 0xfffc0000 = latest_parsed_apts p AND 0xfffc0000"

definition pcr_too_close :: "u32 \<Rightarrow> u32 \<Rightarrow> bool" where
  "pcr_too_close cpcr prev \<longleftrightarrow>
     (cpcr \<ge> prev \<and> cpcr < prev + AVSYNC_PCR_DIFF_TOO_SMALL * STC_CNT_PER_MS)
     \<or> (cpcr < prev \<and> prev < cpcr + AVSYNC_PCR_DIFF_TOO_SMALL * STC_CNT_PER_MS)"

text \<open>The first three times the presentation times of the stream are checked against the reference; \<open>vpts\<close> is the parsed one of the video.\<close>

definition pts_segment_check :: "u32 \<Rightarrow> avsync_priv \<Rightarrow> avsync_priv \<times> bool" where
  "pts_segment_check cpcr p =
     (let a = latest_parsed_apts p; v = latest_parsed_vpts p
      in if a \<noteq> 0 \<and> v \<noteq> 0 \<and> v \<noteq> 0xffffffff \<and> a \<noteq> 0xffffffff
         then let p = (if check_pts_pcr_cnt (pcr p) = 0 then p\<lparr>need_change_mode_cnt := 0\<rparr> else p);
                  p = (if check_pts_pcr_cnt (pcr p) < 3
                       then (if avsync_pcr_check_avpts_pcr_segment cpcr p
                             then p\<lparr>need_change_mode_cnt := need_change_mode_cnt p + 1\<rparr> else p)
                            \<lparr>pcr := (pcr p)\<lparr>check_pts_pcr_cnt := check_pts_pcr_cnt (pcr p) + 1\<rparr>\<rparr>
                       else p)
              in (p, check_pts_pcr_cnt (pcr p) \<noteq> 0 \<and> need_change_mode_cnt p \<noteq> 0)
         else (p, False))"

definition avsync_pcr_process_isr ::
  "u64 \<Rightarrow> u32 \<times> u32 \<times> u32 \<Rightarrow> u32 \<Rightarrow> u32 \<Rightarrow> u32 \<Rightarrow> avsync_priv \<Rightarrow> avsync_priv \<times> mt_ret" where
  "avsync_pcr_process_isr tick ms stc vpts cpcr p =
     (if cpcr = 0 \<or> cpcr = 0xffffffff then (p, MT_FAILURE)
      else let p = p\<lparr>pcr := (pcr p)\<lparr>pcr_got := True\<rparr>\<rparr>
           in if pcr_too_close cpcr (last_pcr p) then (p, MT_FAILURE)
              else if avsync_sync_mode p \<noteq> AVSYNC_REF_PCR_MODE then (p, MT_FAILURE)
              else let err = avsync_pcr_check_nextpcr_segment cpcr p;
                       p = (if err then p\<lparr>nextpcr_err_cnt := nextpcr_err_cnt p + 1\<rparr> else p)
                   in if err \<and> nextpcr_err_cnt p > 5
                      then (avsync_pcr_switch_to_audio_master 2 (p\<lparr>nextpcr_err_cnt := 0\<rparr>), MT_SUCCESS)
                      else let p = (if err then p\<lparr>nextpcr_succuess_cnt := 0\<rparr>
                                    else let p = p\<lparr>nextpcr_succuess_cnt := nextpcr_succuess_cnt p + 1\<rparr>
                                         in if nextpcr_succuess_cnt p > 5 then p\<lparr>nextpcr_err_cnt := 0\<rparr> else p);
                               p = p\<lparr>pcr := (pcr p)\<lparr>seg_last_pcr := cpcr\<rparr>, cur_pcr := cpcr, latest_parsed_vpts := vpts\<rparr>;
                               (p, change) = pts_segment_check cpcr p
                           in if change
                              then ((avsync_pcr_switch_to_audio_master 3 p)\<lparr>hold_video_num_before_audio_output := 4\<rparr>, MT_SUCCESS)
                              else (avsync_stc_adjust_by_pcr tick ms stc cpcr p, MT_SUCCESS))"

definition avsync_audio_pts_reliable_check :: "u64 \<Rightarrow> u32 \<Rightarrow> avsync_priv \<Rightarrow> bool" where
  "avsync_audio_pts_reliable_check tick apts p \<longleftrightarrow>
     avsync_compare_slope (latest_parsed_tick p) tick (latest_parsed_apts p) apts = ALMOST_EQUAL"

text \<open>\<open>tick\<close> and \<open>tick'\<close>: the readings of the interrupt and of the check.\<close>

definition avsync_audio_pts_parsed_isr :: "u64 \<Rightarrow> u64 \<Rightarrow> u32 \<Rightarrow> avsync_priv \<Rightarrow> avsync_priv" where
  "avsync_audio_pts_parsed_isr tick tick' apts p =
     (let p = (if latest_parsed_apts p \<noteq> 0xffffffff \<and> latest_parsed_tick p \<noteq> (-1)
               then if avsync_audio_pts_reliable_check tick' apts p
                    then (if apts_bad_cnt p > 0 then p\<lparr>apts_bad_cnt := apts_bad_cnt p - 1\<rparr> else p)
                    else p\<lparr>apts_bad_cnt := apts_bad_cnt p + 1\<rparr>
               else p);
          p = p\<lparr>apts_total_cnt := apts_total_cnt p + 1, latest_parsed_apts := apts, latest_parsed_tick := tick\<rparr>;
          p = (if first_parsed_tick p = (-1) then p\<lparr>first_parsed_tick := tick\<rparr> else p)
      in if avsync_sync_mode p = AVSYNC_REF_PCR_MODE \<and> latest_parsed_tick p - first_parsed_tick p \<ge> 3000000 \<and> \<not> pcr_got (pcr p)
         then avsync_pcr_switch_to_audio_master 4 p else p)"

text \<open>Presentation times pushed by the audio path, four for a frame of a Dolby conformance stream.\<close>

definition ddp_frames :: "avsync_priv \<Rightarrow> bool" where
  "ddp_frames p \<longleftrightarrow> do_ddp_verf p
     \<and> (aud_frame_sample_num p = 1536 \<or> aud_frame_sample_num p = 256 \<or> aud_frame_sample_num p = 1792 \<or> a_type_ac4 p)"

definition push_node :: "bool \<Rightarrow> pts_node \<Rightarrow> avsync_priv \<Rightarrow> avsync_priv \<times> mt_ret" where
  "push_node keep x p =
     (let (f, r) = avsync_audio_push_pts_fifo (apts_fifo p) x; p = p\<lparr>apts_fifo := f\<rparr>
      in (if r = MT_SUCCESS
          then let p = p\<lparr>apts_fifo_push_cnt := apts_fifo_push_cnt p + 1\<rparr> in if keep then p\<lparr>apts_fifo_push_pts := nd_pts x\<rparr> else p
          else p, r))"

fun push_quarters :: "nat list \<Rightarrow> u32 \<Rightarrow> u32 \<Rightarrow> u32 \<Rightarrow> avsync_priv \<times> mt_ret \<Rightarrow> avsync_priv \<times> mt_ret" where
  "push_quarters [] t i q pr = pr"
| "push_quarters (n # ns) t i q pr =
     push_quarters ns t i q (push_node True
       \<lparr>nd_pts = t + word_of_nat n * drop_bit 2 q, nd_id = push_bit 2 i + word_of_nat n, nd_step = drop_bit 2 q\<rparr> (fst pr))"

definition avsync_audio_push_pts :: "u32 \<Rightarrow> u32 \<Rightarrow> u32 \<Rightarrow> avsync_priv \<Rightarrow> avsync_priv \<times> mt_ret" where
  "avsync_audio_push_pts t i q p =
     (if ddp_frames p then push_quarters [0..<4] t i q (p, MT_SUCCESS)
      else push_node False \<lparr>nd_pts = t, nd_id = i, nd_step = q\<rparr> p)"

text \<open>A frame was played: \<open>stc\<close> is the reading of the counter.\<close>

definition avsync_audio_one_frame_out_isr :: "u32 \<Rightarrow> avsync_priv \<Rightarrow> avsync_priv \<times> mt_ret" where
  "avsync_audio_one_frame_out_isr stc p =
     (case avsync_audio_pop_pts_fifo (apts_fifo p) of
        (f, None, r) \<Rightarrow> (p\<lparr>apts_fifo := f\<rparr>, MT_FAILURE)
      | (f, Some x, r) \<Rightarrow>
          let p = p\<lparr>apts_fifo := f, cur_play_apts := nd_pts x\<rparr>;
              p = (if avsync_sync_mode p = AVSYNC_REF_AUDIO_MODE then fst (avsync_stc_adjust_by_apts stc x p) else p)
          in (p\<lparr>isr_pop := x, apts_fifo_pop_cnt := apts_fifo_pop_cnt p + 1\<rparr>, MT_SUCCESS))"

section \<open>The module\<close>

definition pts_fifo_zero :: pts_fifo where
  "pts_fifo_zero = \<lparr>fifo_init = False, fifo_len = 0, fifo_wr = 0, fifo_rd = 0, fifo_buf = replicate MAX_PTS_FIFO_NODE_COUNT pts_node_zero\<rparr>"

text \<open>The cleared memory the module starts with; \<open>avsync_private_reset\<close> sets what is not zero.\<close>

definition avsync_zero :: avsync_priv where
  "avsync_zero = \<lparr>cfg_sync_mode = AVSYNC_REF_NONE_MODE, avsync_sync_mode = AVSYNC_REF_NONE_MODE,
    pcr = \<lparr>latest_tick = 0, latest_pcr = 0, last_reliable_tick = 0, last_reliable_pcr = 0, pcr_probe_start_tick = 0, seg_last_pcr = 0, pcr_reliable = False, pcr_got = False, bpcr_loop = False, check_pts_pcr_cnt = 0\<rparr>,
    last_pcr = 0, init_stc = False, stream_total_time = 0, pcr_bad_cnt = 0, reliable_pcr = 0, calc_pcr_time_start = 0,
    pcr_reduce_cnt = 0, stc_reference = None, stc_offset = 0, cur_stc = 0, cur_pcr = 0, apts_bad_cnt = 0,
    apts_total_cnt = 0, apts_total_cnt_before_sw_sync_mode = 0, switch_audio_reason = 0,
    hold_video_num_before_audio_output = 0, latest_parsed_apts = 0, first_parsed_tick = 0, latest_parsed_tick = 0,
    latest_parsed_vpts = 0, need_change_mode_cnt = 0, nextpcr_err_cnt = 0, nextpcr_succuess_cnt = 0, stc_sets = [],
    cur_apts = 0, cur_apts_id = 0, apts_step = 0, last_apts = 0, last_apts_id = 0, first_apts = 0, cur_vpts = 0,
    cur_vpts_id = 0, vpts_step = 0, last_vpts = 0, last_vpts_id = 0, first_vpts = 0, apts_fifo = pts_fifo_zero,
    isr_pop = pts_node_zero, cur_play_apts = 0, apts_fifo_push_cnt = 0, apts_fifo_push_pts = 0, apts_fifo_pop_cnt = 0,
    audio_bypass = False, audio_bypass_last_apts = 0, audio_bypass_apts_adjust = 0, do_ddp_verf = False,
    ddp_atmos = False, aud_frame_sample_num = 0, a_type_ac4 = False, avsync_do_aud_track = False,
    avsync_do_trick_seek = False, avsync_aud_rollback = False, av_play_flag = False,
    audio_track_set_av_mode_flag = False, p_avsync_psync = False, events = [], aud_dev_init = False,
    vid_dev_init = False, avsync_pause_threhold = 0, avsync_skip_threhold = 0, astabled_flag = False, astabled_cnt = 0,
    vstabled_flag = False, vstabled_cnt = 0, a_synced_flag = False, a_unsynced_cnt = 0, v_synced_flag = False,
    v_unsynced_cnt = 0, av_synced_flag = False, dolby_sync_done = False, normal_sync_done = False, aud_pause_on = False,
    aud_skip_on = False, vid_pause_on = False, vid_skip_on = False, disp_flag = False, slow_sync_en = False,
    slow_sync_cnt = 0, screen_mode = None, vsync_diff = 0, end_of_stream_flag = False, vid_dolby_ply_cnt = 0,
    atoms_looped = False,
    vid = \<lparr>vi_vpts = 0, vi_vpts_id = 0, vi_vpts_step = 0, vloop_cnt = 0, vid_push_cnt = 0, vid_play_cnt = 0, vid_skip_cnt = 0, vid_pause_cnt = 0, vid_free_cnt = 0\<rparr>,
    aud = \<lparr>aud_push_cnt = 0, aud_play_cnt = 0, aud_skip_cnt = 0, aud_pause_cnt = 0, aud_free_cnt = 0\<rparr>\<rparr>"

definition avsync_module_default_cfg :: "avsync_priv \<Rightarrow> avsync_priv" where
  "avsync_module_default_cfg p = switch_mode AVSYNC_REF_AV_MODE (p\<lparr>init_stc := False, do_ddp_verf := False, ddp_atmos := False,
     avsync_do_aud_track := False, avsync_do_trick_seek := False, avsync_pause_threhold := 45 * 45, avsync_skip_threhold := 45 * 45\<rparr>)"

definition avsync_module_init :: avsync_priv where
  "avsync_module_init = avsync_module_default_cfg (avsync_private_reset avsync_zero)"

datatype sync_ref = MT_UNF_SYNC_REF_NONE | MT_UNF_SYNC_REF_AUDIO | MT_UNF_SYNC_REF_VIDEO | MT_UNF_SYNC_REF_PCR
  | MT_UNF_SYNC_REF_SCR | MT_UNF_SYNC_REF_BUTT

definition config_mode :: "avsync_sync_mode_e \<Rightarrow> avsync_priv \<Rightarrow> avsync_priv" where
  "config_mode m p = fst (avsync_set_user_sync_mode m (switch_mode m p))"

text \<open>The reference the user asks for; \<open>MT_FAILURE\<close> stands for the code of an invalid parameter.\<close>

fun SYNC_reference_config :: "sync_ref \<Rightarrow> avsync_priv \<Rightarrow> avsync_priv \<times> mt_ret" where
  "SYNC_reference_config MT_UNF_SYNC_REF_AUDIO p = (config_mode AVSYNC_REF_AUDIO_MODE p, MT_SUCCESS)"
| "SYNC_reference_config MT_UNF_SYNC_REF_PCR p = (config_mode AVSYNC_REF_PCR_MODE p, MT_SUCCESS)"
| "SYNC_reference_config MT_UNF_SYNC_REF_SCR p = (p, MT_SUCCESS)"
| "SYNC_reference_config MT_UNF_SYNC_REF_NONE p = (config_mode AVSYNC_REF_NONE_MODE p, MT_SUCCESS)"
| "SYNC_reference_config MT_UNF_SYNC_REF_VIDEO p = (config_mode AVSYNC_REF_VIDEO_MODE p, MT_SUCCESS)"
| "SYNC_reference_config MT_UNF_SYNC_REF_BUTT p = (config_mode AVSYNC_REF_AUDIO_MODE p, MT_FAILURE)"

section \<open>Lemmas\<close>

text \<open>The distance of two counter values, the value of the counter behind a call that read \<open>stc\<close>.\<close>

definition dist :: "u32 \<Rightarrow> u32 \<Rightarrow> nat" where
  "dist a b = (unat a - unat b) + (unat b - unat a)"

definition counter_after :: "avsync_priv \<Rightarrow> u32 \<Rightarrow> avsync_priv \<Rightarrow> u32" where
  "counter_after p stc p' = (if stc_sets p' = stc_sets p then stc else last (stc_sets p'))"

lemma u32_less: "unat (a :: u32) < 2 ^ 32"
  by (rule order.strict_trans2 [OF unsigned_less]) simp

lemma dist_word: "unat (if a > b then a - b else b - a) = dist a b"
  by (auto simp: dist_def unat_sub word_le_nat_alt word_less_nat_alt less_imp_le)

lemma dist_self [simp]: "dist a a = 0"
  by (simp add: dist_def)

lemma compare_dist:
  "avsync_do_compare a b =
     (if dist a b \<le> 3600 then ALMOST_EQUAL
      else if dist a b \<le> 7200 then (if a > b then LITTLE_MORE_THAN else LITTLE_LESS_THAN)
      else if dist a b \<le> 14400 then (if a > b then MORE_THAN else LESS_THAN)
      else (if a > b then MUCH_MORE_THAN else MUCH_LESS_THAN))"
  unfolding avsync_do_compare_def Let_def
  by (simp only: word_le_nat_alt dist_word) (simp add: clock_consts)

text \<open>A reference is accepted when the free-running counter advanced by 20 to 24 microseconds for every unit.\<close>

lemma slope_iff:
  "avsync_compare_slope t t' a b = ALMOST_EQUAL \<longleftrightarrow>
     a \<noteq> b \<and> (let s = (unat (t' - t) div unat (b - a)) mod 2 ^ 32 in 20 \<le> s \<and> s \<le> 24)"
proof -
  let ?s = "ucast ((t' - t) div ucast (b - a)) :: u32"
  have s: "unat ?s = (unat (t' - t) div unat (b - a)) mod 2 ^ 32"
    using u32_less [of "b - a"] by (simp add: unsigned_ucast_eq unat_div take_bit_eq_mod)
  have "(?s \<ge> 22 \<and> ?s - 22 < 3) \<or> (?s < 22 \<and> 22 - ?s < 3) \<longleftrightarrow> 20 \<le> unat ?s \<and> unat ?s \<le> 24"
    by unat_arith
  then show ?thesis using s by (auto simp: avsync_compare_slope_def Let_def clock_consts)
qed

lemma stc_set_fields [simp]:
  "avsync_sync_mode (avsync_stc_set v p) = avsync_sync_mode p" "stc_offset (avsync_stc_set v p) = stc_offset p"
  "pcr (avsync_stc_set v p) = pcr p" "pcr_bad_cnt (avsync_stc_set v p) = pcr_bad_cnt p" "init_stc (avsync_stc_set v p) = init_stc p"
  "last_pcr (avsync_stc_set v p) = last_pcr p"
  "stc_sets (avsync_stc_set v p) = stc_sets p @ [if avsync_sync_mode p = AVSYNC_REF_PCR_MODE then v - stc_offset p else v]"
  by (simp_all add: avsync_stc_set_def)

lemma stats_fields [simp]:
  "avsync_sync_mode (pcr_stats ms c p) = avsync_sync_mode p" "stc_offset (pcr_stats ms c p) = stc_offset p"
  "pcr (pcr_stats ms c p) = pcr p" "pcr_bad_cnt (pcr_stats ms c p) = pcr_bad_cnt p" "init_stc (pcr_stats ms c p) = init_stc p"
  "last_pcr (pcr_stats ms c p) = last_pcr p" "stc_sets (pcr_stats ms c p) = stc_sets p"
  by (cases ms; simp add: pcr_stats_def Let_def)+

text \<open>Following a reference: at most 80 milliseconds remain, half of a small difference or none.\<close>

lemma half_way:
  "3600 < dist a b \<Longrightarrow> dist a b \<le> 7200 \<Longrightarrow> dist a (if a > b then b + drop_bit 1 (a - b) else b - drop_bit 1 (b - a)) \<le> 3600"
proof -
  assume d: "3600 < dist a b" "dist a b \<le> 7200"
  have h: "unat (drop_bit (Suc 0) w) = unat w div 2" for w :: u32 by (simp add: drop_bit_eq_div unat_div)
  show ?thesis
  proof (cases "a > b")
    case True
    then have "unat (a - b) = unat a - unat b" "unat b < unat a" by (simp_all add: unat_sub less_imp_le word_less_nat_alt)
    moreover from this have "unat (b + drop_bit 1 (a - b)) = unat b + (unat a - unat b) div 2"
      using u32_less [of a] by (subst unat_add_lem [THEN iffD1]) (auto simp: h)
    ultimately show ?thesis using True d by (auto simp: dist_def)
  next
    case False
    then have "unat (b - a) = unat b - unat a" "unat a \<le> unat b" by (simp_all add: unat_sub word_le_nat_alt not_less)
    moreover from this have "unat (b - drop_bit 1 (b - a)) = unat b - (unat b - unat a) div 2"
      by (subst unat_sub) (auto simp: word_le_nat_alt h)
    ultimately show ?thesis using False d by (auto simp: dist_def)
  qed
qed

lemma follow_locks:
  assumes "avsync_sync_mode p = AVSYNC_REF_PCR_MODE" and q_def: "q = pcr_follow ms stc c p"
  shows "dist c (counter_after p stc q + stc_offset p) \<le> 3600"
    and "avsync_sync_mode q = AVSYNC_REF_PCR_MODE" "pcr q = pcr p" "pcr_bad_cnt q = pcr_bad_cnt p" "stc_offset q = stc_offset p"
    and "init_stc q = init_stc p" "last_pcr q = last_pcr p"
proof -
  define b where "b = stc + stc_offset p"
  let ?x = "pcr_stats ms c (p\<lparr>cur_stc := b\<rparr>)"
  have x: "q = (case avsync_do_compare c b of ALMOST_EQUAL \<Rightarrow> ?x
      | LITTLE_LESS_THAN \<Rightarrow> avsync_stc_set (b - drop_bit 1 (b - c)) ?x | LITTLE_MORE_THAN \<Rightarrow> avsync_stc_set (b + drop_bit 1 (c - b)) ?x
      | _ \<Rightarrow> avsync_stc_set c ?x)" unfolding q_def pcr_follow_def Let_def b_def [symmetric] by (rule refl)
  show "avsync_sync_mode q = AVSYNC_REF_PCR_MODE" "pcr q = pcr p" "pcr_bad_cnt q = pcr_bad_cnt p" "stc_offset q = stc_offset p"
    "init_stc q = init_stc p" "last_pcr q = last_pcr p"
    using x assms(1) by (simp_all split: compare_result.splits)
  have r: "(v - stc_offset p) + stc_offset p = v" for v by simp
  consider "dist c b \<le> 3600" | "3600 < dist c b" "dist c b \<le> 7200" | "7200 < dist c b" by linarith
  then show "dist c (counter_after p stc q + stc_offset p) \<le> 3600"
  proof cases
    case 1
    then show ?thesis using x by (simp add: compare_dist counter_after_def b_def)
  next
    case 2
    then have "counter_after p stc q + stc_offset p = (if c > b then b + drop_bit 1 (c - b) else b - drop_bit 1 (b - c))"
      using x assms(1) by (simp add: compare_dist counter_after_def r)
    then show ?thesis using half_way [OF 2] by simp
  next
    case 3
    then have "counter_after p stc q + stc_offset p = c" using x assms(1) by (simp add: compare_dist counter_after_def r)
    then show ?thesis by simp
  qed
qed

lemma private_reset_mode [simp]: "avsync_sync_mode (avsync_private_reset p) = cfg_sync_mode p"
  by (simp add: avsync_private_reset_def)

text \<open>A step back of the reference changes the clock only when the old reference is near the end of the counter.\<close>

definition near_end :: "u32 \<Rightarrow> bool" where "near_end a \<longleftrightarrow> a AND 0xffff0000 = 0xffff0000"

lemma rollback_cases:
  assumes "prev \<le> c \<or> \<not> near_end prev"
  shows "\<exists>t b. pcr_rollback c prev p = p\<lparr>stream_total_time := t, pcr := (pcr p)\<lparr>bpcr_loop := b\<rparr>\<rparr>"
proof -
  let ?u = "\<lambda>t b. p\<lparr>stream_total_time := t, pcr := (pcr p)\<lparr>bpcr_loop := b\<rparr>\<rparr>"
  have same: "p = ?u (stream_total_time p) (bpcr_loop (pcr p))" by simp
  have n: "\<not> (c < prev \<and> prev - c > 800 * STC_CNT_PER_MS \<and> prev \<noteq> 0xffffffff \<and> prev AND 0xffff0000 = 0xffff0000)"
    using assms by (auto simp: near_end_def)
  have "pcr_rollback c prev p = ?u (latest_pcr (pcr p) - c) True \<or> pcr_rollback c prev p = p"
    unfolding pcr_rollback_def Let_def if_not_P [OF n] by (simp only: split: if_split) blast
  then show ?thesis using same by metis
qed

definition pcr_accepted :: "u64 \<Rightarrow> u32 \<Rightarrow> avsync_priv \<Rightarrow> bool" where
  "pcr_accepted t c p \<longleftrightarrow>
     avsync_compare_slope (last_reliable_tick (pcr p)) t (last_reliable_pcr (pcr p)) c = ALMOST_EQUAL
     \<or> (latest_pcr (pcr p) \<noteq> last_reliable_pcr (pcr p) \<and> avsync_compare_slope (latest_tick (pcr p)) t (latest_pcr (pcr p)) c = ALMOST_EQUAL)"

lemma reliable_check_eq:
  "avsync_pcr_reliable_check t c p =
     (p\<lparr>pcr := (if pcr_accepted t c p then (pcr p)\<lparr>pcr_reliable := True, last_reliable_pcr := c, last_reliable_tick := t\<rparr>
        else (pcr p)\<lparr>pcr_reliable := False\<rparr>)\<lparr>latest_pcr := c, latest_tick := t\<rparr>\<rparr>, pcr_accepted t c p)"
  by (auto simp: avsync_pcr_reliable_check_def pcr_accepted_def Let_def)

lemma pcr_accepted_upd:
  "pcr_accepted t c (p\<lparr>last_pcr := c', stream_total_time := tt, pcr := (pcr p)\<lparr>bpcr_loop := b\<rparr>\<rparr>) = pcr_accepted t c p"
  by (simp add: pcr_accepted_def)

lemma adjust_accepted:
  fixes c :: u32 and p :: avsync_priv and t :: u64 and ms :: "u32 \<times> u32 \<times> u32" and stc :: u32
  assumes "c \<noteq> 0" "c \<noteq> 0xffffffff" "init_stc p" "last_pcr p \<le> c \<or> \<not> near_end (last_pcr p)" "pcr_accepted t c p"
    and "avsync_sync_mode p = AVSYNC_REF_PCR_MODE"
  defines "q \<equiv> avsync_stc_adjust_by_pcr t ms stc c p"
  shows "dist c (counter_after p stc q + stc_offset p) \<le> 3600"
    and "avsync_sync_mode q = AVSYNC_REF_PCR_MODE" "init_stc q" "stc_offset q = stc_offset p"
    and "pcr_bad_cnt q = pcr_bad_cnt p - (if pcr_bad_cnt p = 0 then 0 else 1)" "last_pcr q = c"
    and "latest_pcr (pcr q) = c" "latest_tick (pcr q) = t" "last_reliable_pcr (pcr q) = c" "last_reliable_tick (pcr q) = t"
    and "pcr_reliable (pcr q)"
proof -
  obtain tt b where r: "pcr_rollback c (last_pcr p) (p\<lparr>last_pcr := c\<rparr>)
      = p\<lparr>last_pcr := c, stream_total_time := tt, pcr := (pcr p)\<lparr>bpcr_loop := b\<rparr>\<rparr>"
    using rollback_cases [OF assms(4), of "p\<lparr>last_pcr := c\<rparr>"] by auto
  define p' where "p' = p\<lparr>last_pcr := c, stream_total_time := tt,
    pcr := (pcr p)\<lparr>bpcr_loop := b, pcr_reliable := True, last_reliable_pcr := c, last_reliable_tick := t, latest_pcr := c, latest_tick := t\<rparr>,
    pcr_bad_cnt := (if pcr_bad_cnt p > 0 then pcr_bad_cnt p - 1 else 0), apts_total_cnt_before_sw_sync_mode := 0\<rparr>"
  have q: "q = pcr_follow ms stc c p'"
    using assms(1-3,5) unfolding q_def avsync_stc_adjust_by_pcr_def r Let_def reliable_check_eq
    by (simp add: pcr_accepted_upd p'_def)
  have m: "avsync_sync_mode p' = AVSYNC_REF_PCR_MODE" using assms(6) by (simp add: p'_def)
  note f = follow_locks [OF m q]
  show "dist c (counter_after p stc q + stc_offset p) \<le> 3600" using f(1) by (simp add: p'_def counter_after_def)
  show "avsync_sync_mode q = AVSYNC_REF_PCR_MODE" "init_stc q" "stc_offset q = stc_offset p"
    "pcr_bad_cnt q = pcr_bad_cnt p - (if pcr_bad_cnt p = 0 then 0 else 1)" "last_pcr q = c"
    "latest_pcr (pcr q) = c" "latest_tick (pcr q) = t" "last_reliable_pcr (pcr q) = c" "last_reliable_tick (pcr q) = t"
    "pcr_reliable (pcr q)"
    using f(2-) assms(3) by (auto simp: p'_def word_neq_0_conv)
qed

lemma adjust_refused:
  fixes c :: u32 and p :: avsync_priv and t :: u64 and ms :: "u32 \<times> u32 \<times> u32" and stc :: u32
  assumes "c \<noteq> 0" "c \<noteq> 0xffffffff" "init_stc p" "last_pcr p \<le> c \<or> \<not> near_end (last_pcr p)" "\<not> pcr_accepted t c p"
    and "pcr_bad_cnt p < 15"
  defines "q \<equiv> avsync_stc_adjust_by_pcr t ms stc c p"
  shows "avsync_sync_mode q = avsync_sync_mode p" "init_stc q" "stc_offset q = stc_offset p" "stc_sets q = stc_sets p"
    "pcr_bad_cnt q = pcr_bad_cnt p + 1" "last_pcr q = c" "latest_pcr (pcr q) = c" "latest_tick (pcr q) = t"
    "last_reliable_pcr (pcr q) = last_reliable_pcr (pcr p)" "last_reliable_tick (pcr q) = last_reliable_tick (pcr p)"
    "\<not> pcr_reliable (pcr q)"
proof -
  obtain tt b where r: "pcr_rollback c (last_pcr p) (p\<lparr>last_pcr := c\<rparr>)
      = p\<lparr>last_pcr := c, stream_total_time := tt, pcr := (pcr p)\<lparr>bpcr_loop := b\<rparr>\<rparr>"
    using rollback_cases [OF assms(4), of "p\<lparr>last_pcr := c\<rparr>"] by auto
  have "\<not> pcr_bad_cnt p + 1 > PCR_BAD_THRESHOLD" using assms(6) unfolding clock_consts by unat_arith
  then have q: "q = p\<lparr>last_pcr := c, stream_total_time := tt,
    pcr := (pcr p)\<lparr>bpcr_loop := b, pcr_reliable := False, latest_pcr := c, latest_tick := t\<rparr>, pcr_bad_cnt := pcr_bad_cnt p + 1\<rparr>"
    using assms(1-3,5) unfolding q_def avsync_stc_adjust_by_pcr_def r Let_def reliable_check_eq
    by (simp add: pcr_accepted_upd pcr_unreliable_def)
  show "avsync_sync_mode q = avsync_sync_mode p" "init_stc q" "stc_offset q = stc_offset p" "stc_sets q = stc_sets p"
    "pcr_bad_cnt q = pcr_bad_cnt p + 1" "last_pcr q = c" "latest_pcr (pcr q) = c" "latest_tick (pcr q) = t"
    "last_reliable_pcr (pcr q) = last_reliable_pcr (pcr p)" "last_reliable_tick (pcr q) = last_reliable_tick (pcr p)"
    "\<not> pcr_reliable (pcr q)"
    unfolding q using assms(3) by simp_all
qed

section \<open>Properties\<close>

text \<open>
  The program clock is tracked: a reference that the driver accepts leaves the system time counter, with the delay
  of 200 milliseconds it runs behind, within 80 milliseconds of the reference, whatever it was before.
\<close>
theorem avsync_pcr_locks:
  assumes "avsync_sync_mode p = AVSYNC_REF_PCR_MODE" "init_stc p" "c \<noteq> 0" "c \<noteq> 0xffffffff"
    and "last_pcr p \<le> c \<or> \<not> near_end (last_pcr p)" "pcr_accepted t c p"
  shows "let q = avsync_stc_adjust_by_pcr t ms stc c p
         in dist c (counter_after p stc q + stc_offset p) \<le> 80 * 45 \<and> pcr_reliable (pcr q) \<and> last_reliable_pcr (pcr q) = c"
  using adjust_accepted [where c = c and p = p and t = t and ms = ms and stc = stc, OF assms(3,4,2,5,6,1)] by (simp add: Let_def)

text \<open>
  C19. After a jump of the program clock, by any distance, the second reference that is consistent with the one before is
  accepted and the counter is locked to it again; in between nothing moves the counter.
\<close>
theorem avsync_pcr_recovers:
  assumes "avsync_sync_mode p = AVSYNC_REF_PCR_MODE" "init_stc p" "pcr_bad_cnt p < 15"
    and "c \<noteq> 0" "c \<noteq> 0xffffffff" "c' \<noteq> 0" "c' \<noteq> 0xffffffff" "c \<le> c'" "last_pcr p \<le> c \<or> \<not> near_end (last_pcr p)"
    and "c \<noteq> last_reliable_pcr (pcr p)" "avsync_compare_slope t t' c c' = ALMOST_EQUAL"
  shows "let q = avsync_stc_adjust_by_pcr t ms stc c p; r = avsync_stc_adjust_by_pcr t' ms' stc' c' q
         in avsync_sync_mode r = AVSYNC_REF_PCR_MODE \<and> pcr_reliable (pcr r)
            \<and> dist c' (counter_after q stc' r + stc_offset p) \<le> 80 * 45
            \<and> (pcr_accepted t c p \<or> stc_sets q = stc_sets p)"
proof -
  define q where "q = avsync_stc_adjust_by_pcr t ms stc c p"
  have q: "avsync_sync_mode q = AVSYNC_REF_PCR_MODE" "init_stc q" "stc_offset q = stc_offset p" "last_pcr q = c"
    "latest_pcr (pcr q) = c" "latest_tick (pcr q) = t" "pcr_accepted t' c' q" "pcr_accepted t c p \<or> stc_sets q = stc_sets p"
  proof (atomize (full), cases "pcr_accepted t c p", goal_cases)
    case 1
    note a = adjust_accepted [where c = c and p = p and t = t and ms = ms and stc = stc, OF assms(4,5,2,9) 1 assms(1), folded q_def]
    show ?case using a assms(11) 1 by (simp add: pcr_accepted_def)
  next
    case 2
    note a = adjust_refused [where c = c and p = p and t = t and ms = ms and stc = stc, OF assms(4,5,2,9) 2 assms(3), folded q_def]
    show ?case using a assms(1,10,11) by (simp add: pcr_accepted_def)
  qed
  have "last_pcr q \<le> c' \<or> \<not> near_end (last_pcr q)" using q(4) assms(8) by simp
  note r = adjust_accepted [where c = c' and p = q and t = t' and ms = ms' and stc = stc', OF assms(6,7) q(2) this q(7,1)]
  show ?thesis using r q(3,8) by (simp add: Let_def q_def [symmetric])
qed

text \<open>A state for the witnesses: the program clock is the reference and the counter runs.\<close>

definition pcr_state :: avsync_priv where
  "pcr_state = (fst (SYNC_reference_config MT_UNF_SYNC_REF_PCR avsync_module_init))
     \<lparr>init_stc := True, last_pcr := 90000, pcr := (pcr avsync_module_init)\<lparr>latest_tick := 2000000, latest_pcr := 90000,
        last_reliable_tick := 2000000, last_reliable_pcr := 90000\<rparr>\<rparr>"

lemma avsync_pcr_recovers_witness:
  "let q = avsync_stc_adjust_by_pcr 2100000 (1, 1, 1) 5000 1000000 pcr_state;
       r = avsync_stc_adjust_by_pcr 2200000 (1, 1, 1) 9500 1004500 q
   in avsync_sync_mode r = AVSYNC_REF_PCR_MODE \<and> pcr_reliable (pcr r)
      \<and> dist 1004500 (counter_after q 9500 r + stc_offset pcr_state) \<le> 80 * 45"
proof -
  have s: "avsync_compare_slope 2100000 2200000 1000000 1004500 = ALMOST_EQUAL" by code_simp
  have f: "avsync_sync_mode pcr_state = AVSYNC_REF_PCR_MODE" "init_stc pcr_state" "last_pcr pcr_state = 90000"
    "last_reliable_pcr (pcr pcr_state) = 90000" "pcr_bad_cnt pcr_state = 0"
    by (simp_all add: pcr_state_def avsync_module_init_def avsync_module_default_cfg_def avsync_private_reset_def avsync_zero_def
      switch_mode_def config_mode_def set_on_def)
  show ?thesis
    using avsync_pcr_recovers [of pcr_state 1000000 1004500 2100000 2200000 "(1, 1, 1)" 5000 "(1, 1, 1)" 9500] f s
    by (simp add: Let_def)
qed

text \<open>The counter follows the times that are played.\<close>

lemma follow_pts_bound:
  assumes "unat dura < 2 ^ 30" "avsync_sync_mode p \<noteq> AVSYNC_REF_PCR_MODE"
  shows "dist t (counter_after p stc (follow_pts stc t prev dura p))
    \<le> (if unat dura > 80 * 45 then 2 * unat dura + unat dura div 2 else 80 * 45)"
proof -
  have d: "unat (dura * 2 + dura div 2) = 2 * unat dura + unat dura div 2"
    using assms(1) by (simp add: unat_word_ariths unat_div)
  define lim where "lim = (if dura > 80 * STC_CNT_PER_MS then dura * 2 + dura div 2 else 80 * STC_CNT_PER_MS)"
  have l: "unat lim = (if unat dura > 80 * 45 then 2 * unat dura + unat dura div 2 else 80 * 45)"
    by (auto simp: lim_def d word_less_nat_alt clock_consts)
  have set: "counter_after p stc (avsync_stc_set t p) = t" using assms(2) by (simp add: counter_after_def)
  have delta: "(if stc > t then stc - t else t - stc) > lim \<longleftrightarrow> dist t stc > unat lim"
    using dist_word [of t stc] by (simp only: word_less_nat_alt) (simp add: dist_def add.commute)
  show ?thesis unfolding l [symmetric] follow_pts_def lim_def [symmetric] Let_def delta
    using assms(2) by (auto simp: set counter_after_def)
qed

text \<open>
  C4. With the audio as the master every interrupt of the audio output takes the oldest time from the FIFO and leaves the counter
  close to it: within 80 milliseconds, or two and a half frames when the frames are longer, and at the time itself the first time.
\<close>
theorem avsync_audio_master_follows:
  assumes "pts_inv (apts_fifo p)" "pts_pending (apts_fifo p) = x # xs" "avsync_sync_mode p = AVSYNC_REF_AUDIO_MODE"
    and "nd_pts x \<noteq> 0xffffffff" "unat (nd_step x) < 2 ^ 30"
  shows "let (q, r) = avsync_audio_one_frame_out_isr stc p
         in r = MT_SUCCESS \<and> pts_inv (apts_fifo q) \<and> pts_pending (apts_fifo q) = xs \<and> cur_play_apts q = nd_pts x \<and> isr_pop q = x
            \<and> init_stc q \<and> (if init_stc p
              then dist (nd_pts x) (counter_after p stc q)
                \<le> (if unat (nd_step x) > 80 * 45 then 2 * unat (nd_step x) + unat (nd_step x) div 2 else 80 * 45)
              else counter_after p stc q = nd_pts x \<and> stc_reference q = Some TM_APTS)"
proof -
  let ?f = "(apts_fifo p)\<lparr>fifo_rd := (fifo_rd (apts_fifo p) + 1) mod 512\<rparr>"
  let ?p = "p\<lparr>apts_fifo := ?f, cur_play_apts := nd_pts x\<rparr>"
  have pop: "avsync_audio_pop_pts_fifo (apts_fifo p) = (?f, Some x, MT_SUCCESS)" using pts_pop_eq [OF assms(1)] assms(2) by simp
  note f = pts_pop_pending [OF assms(1,2)]
  have fields: "apts_fifo (follow_pts s t pr d r) = apts_fifo r" "cur_play_apts (follow_pts s t pr d r) = cur_play_apts r"
    "init_stc (follow_pts s t pr d r) = init_stc r" for s t pr d r
    by (simp_all add: follow_pts_def Let_def avsync_stc_set_def)
  show ?thesis
  proof (cases "init_stc p")
    case True
    define a where "a = (if audio_bypass p then audio_bypass_last_apts p else nd_pts (isr_pop p))"
    define q where "q = follow_pts stc (nd_pts x) a (nd_step x) ?p"
    have q: "apts_fifo q = ?f" "cur_play_apts q = nd_pts x" "init_stc q" using True by (simp_all add: q_def fields)
    have "dist (nd_pts x) (counter_after ?p stc q)
      \<le> (if unat (nd_step x) > 80 * 45 then 2 * unat (nd_step x) + unat (nd_step x) div 2 else 80 * 45)"
      using assms(3,5) unfolding q_def by (intro follow_pts_bound) simp_all
    moreover have "avsync_audio_one_frame_out_isr stc p = (q\<lparr>isr_pop := x, apts_fifo_pop_cnt := apts_fifo_pop_cnt q + 1\<rparr>, MT_SUCCESS)"
      using True assms(3,4) by (simp add: avsync_audio_one_frame_out_isr_def pop avsync_stc_adjust_by_apts_def Let_def q_def a_def)
    ultimately show ?thesis using True f q by (auto simp: Let_def counter_after_def split: if_splits)
  next
    case False
    then show ?thesis using assms(3,4) f
      by (simp add: avsync_audio_one_frame_out_isr_def pop avsync_stc_adjust_by_apts_def avsync_stc_init_def avsync_stc_set_def counter_after_def Let_def)
  qed
qed

lemma avsync_audio_master_follows_witness:
  "let p = (fst (SYNC_reference_config MT_UNF_SYNC_REF_AUDIO avsync_module_init))
         \<lparr>apts_fifo := pts_put avsync_audio_pts_fifo_init \<lparr>nd_pts = 45000, nd_id = 1, nd_step = 1080\<rparr>, init_stc := True\<rparr>;
       (q, r) = avsync_audio_one_frame_out_isr 40000 p
   in r = MT_SUCCESS \<and> pts_pending (apts_fifo q) = [] \<and> cur_play_apts q = 45000 \<and> dist 45000 (counter_after p 40000 q) \<le> 3600"
proof -
  define x where "x = \<lparr>nd_pts = 45000 :: u32, nd_id = 1 :: u32, nd_step = 1080 :: u32\<rparr>"
  define p where "p = (fst (SYNC_reference_config MT_UNF_SYNC_REF_AUDIO avsync_module_init))
    \<lparr>apts_fifo := pts_put avsync_audio_pts_fifo_init x, init_stc := True\<rparr>"
  have "pts_cnt avsync_audio_pts_fifo_init = 0"
    by (simp add: avsync_audio_pts_fifo_init_def pts_cnt_def)
  then have a: "pts_inv (apts_fifo p)" "pts_pending (apts_fifo p) = x # []"
    using pts_push_inv [OF pts_init_inv(1), of x] pts_push_pending [OF pts_init_inv(1), of x] pts_init_inv(2) by (simp_all add: p_def)
  have m: "avsync_sync_mode p = AVSYNC_REF_AUDIO_MODE" "init_stc p"
    by (simp_all add: p_def config_mode_def switch_mode_def)
  have n: "nd_pts x \<noteq> 0xffffffff" "unat (nd_step x) < 2 ^ 30" "nd_pts x = 45000" "unat (nd_step x) = 1080" by (simp_all add: x_def)
  show ?thesis using avsync_audio_master_follows [OF a m(1) n(1,2), of 40000] m(2) n(3,4)
    unfolding x_def [symmetric] p_def [symmetric] by (auto simp: Let_def split: prod.splits)
qed

end
