(* ===== verification/AvSync.thy ===== *)
theory AvSync
  imports AvClock
begin

text \<open>
  The decisions of the synchronisation driver, \<open>msp/drv/sync/drv_sync.c\<close>: every decoded audio frame and every displayed
  video frame is judged against the counter, or against the other stream, and is played, skipped, paused or left free. The
  state is that of \<open>AvClock\<close>. Readings of the hardware during one call are a record \<open>av_env\<close>; the readings of the
  display are the arguments of the loop of the video. Streams of a Dolby conformance test take routines that are not
  modelled: the loops are \<open>None\<close> for them.
\<close>

section \<open>Readings and flags\<close>

datatype avsync_flag = AVSYNC_FRAME_PLAY | AVSYNC_FRAME_SKIP | AVSYNC_FRAME_PAUSE | AVSYNC_FRAME_FREE | AVSYNC_FRAME_SKIP_AOUT

record av_env =
  en_stc :: u32
  en_stc_track :: u32
  en_remain :: u32
  en_tick :: u32
  en_live :: bool

record aframe =
  af_pts :: u32
  af_id :: u32
  af_step :: u32
  af_bypass :: bool

record vframe =
  vf_pts :: u32
  vf_pts_u64 :: u64
  vf_id :: u32
  vf_rate :: u32
  vf_screen_mode :: "avsync_screen_open_e option"
  vf_end_of_stream :: bool

definition AVSYNC_UNSYNCED_THRESHOLD :: u32 where "AVSYNC_UNSYNCED_THRESHOLD = 10"
definition AVSYNC_AV_DIFF_FREE_THRESHOLD :: u32 where "AVSYNC_AV_DIFF_FREE_THRESHOLD = 45 * 9 * 1000"
definition AVSYNC_SLOW_SYNC_PTS_DIFF :: u32 where "AVSYNC_SLOW_SYNC_PTS_DIFF = 400 * 45"
definition AVSYNC_STREAM_ROLLABCK_DIFF :: u32 where "AVSYNC_STREAM_ROLLABCK_DIFF = 10000 * 45"
definition AVSYNC_AUDIO_TRACK_DIFF :: u32 where "AVSYNC_AUDIO_TRACK_DIFF = 500 * 45"

lemmas sync_consts = AVSYNC_UNSYNCED_THRESHOLD_def AVSYNC_AV_DIFF_FREE_THRESHOLD_def AVSYNC_SLOW_SYNC_PTS_DIFF_def
  AVSYNC_STREAM_ROLLABCK_DIFF_def AVSYNC_AUDIO_TRACK_DIFF_def

definition abs32 :: "u32 \<Rightarrow> u32" where
  "abs32 d = (if sint d < 0 then - d else d)"

definition SYNC_UpLoadEvent :: "avsync_event \<Rightarrow> avsync_priv \<Rightarrow> avsync_priv" where
  "SYNC_UpLoadEvent e p = p\<lparr>events := events p @ [e]\<rparr>"

section \<open>Start of a stream\<close>

definition avsync_audio_sync_status_reset :: "avsync_priv \<Rightarrow> avsync_priv" where
  "avsync_audio_sync_status_reset p = p\<lparr>a_synced_flag := False, astabled_cnt := 0, astabled_flag := False, a_unsynced_cnt := 0,
     av_synced_flag := False, dolby_sync_done := False\<rparr>"

definition avsync_video_sync_status_reset :: "avsync_priv \<Rightarrow> avsync_priv" where
  "avsync_video_sync_status_reset p = p\<lparr>v_synced_flag := False, vstabled_cnt := 0, vstabled_flag := False, v_unsynced_cnt := 0,
     av_synced_flag := False\<rparr>"

definition avsync_audio_init :: "avsync_priv \<Rightarrow> avsync_priv \<times> mt_ret" where
  "avsync_audio_init p = (p\<lparr>apts_fifo := avsync_audio_pts_fifo_init, first_parsed_tick := 0, latest_parsed_tick := 0, last_apts_id := 0,
     switch_audio_reason := 0, audio_bypass := False, isr_pop := pts_node_zero, first_apts := 0xffffffff, cur_apts := 0xffffffff, cur_apts_id := 0,
     cur_play_apts := 0, aud := \<lparr>aud_push_cnt = 0, aud_play_cnt = 0, aud_skip_cnt = 0, aud_pause_cnt = 0, aud_free_cnt = 0\<rparr>,
     aud_dev_init := True, apts_fifo_push_cnt := 0, apts_fifo_pop_cnt := 0, apts_step := 0, astabled_cnt := 0,
     astabled_flag := False, a_unsynced_cnt := 0, last_apts := 0xffffffff, latest_parsed_apts := 0xffffffff,
     a_synced_flag := False, av_synced_flag := False, apts_total_cnt := 0, apts_total_cnt_before_sw_sync_mode := 0,
     atoms_looped := False\<rparr>, MT_SUCCESS)"

definition avsync_audio_deinit :: "avsync_priv \<Rightarrow> avsync_priv \<times> mt_ret" where
  "avsync_audio_deinit p = (p\<lparr>aud_dev_init := False\<rparr>, MT_SUCCESS)"

definition avsync_video_init :: "avsync_priv \<Rightarrow> avsync_priv \<times> mt_ret" where
  "avsync_video_init p = (p\<lparr>last_vpts_id := 0, screen_mode := Some AVSYNC_UNBLANK_USER, first_vpts := 0xffffffff,
     cur_vpts := 0xffffffff, cur_vpts_id := 0,
     vid := \<lparr>vi_vpts = 0, vi_vpts_id = 0, vi_vpts_step = 0, vloop_cnt = 0, vid_push_cnt = 0, vid_play_cnt = 0, vid_skip_cnt = 0,
       vid_pause_cnt = 0, vid_free_cnt = 0\<rparr>,
     vid_dev_init := True, vid_dolby_ply_cnt := 0, dolby_sync_done := False, normal_sync_done := False, vpts_step := 0,
     vstabled_cnt := 0, vstabled_flag := False, v_unsynced_cnt := 0, last_vpts := 0xffffffff, latest_parsed_vpts := 0xffffffff,
     v_synced_flag := False, av_synced_flag := False, disp_flag := False, slow_sync_cnt := 0, vsync_diff := 0\<rparr>, MT_SUCCESS)"

definition avsync_video_deinit :: "avsync_priv \<Rightarrow> avsync_priv \<times> mt_ret" where
  "avsync_video_deinit p = (p\<lparr>vid_dev_init := False\<rparr>, MT_SUCCESS)"

definition avsync_set_slow_sync_policy :: "bool \<Rightarrow> avsync_priv \<Rightarrow> avsync_priv \<times> mt_ret" where
  "avsync_set_slow_sync_policy b p = (p\<lparr>slow_sync_en := b\<rparr>, MT_SUCCESS)"

definition avsync_is_finished :: "avsync_priv \<Rightarrow> bool" where
  "avsync_is_finished p \<longleftrightarrow> disp_flag p \<or> vid_play_cnt (vid p) > 0 \<or> vid_push_cnt (vid p) > 120"

definition avsync_handle_isr ::
  "u32 \<Rightarrow> u64 \<Rightarrow> u64 \<Rightarrow> u32 \<times> u32 \<times> u32 \<Rightarrow> u32 \<Rightarrow> u32 \<Rightarrow> u32 \<Rightarrow> u32 \<Rightarrow> avsync_priv \<Rightarrow> avsync_priv" where
  "avsync_handle_isr sta tick tick' ms stc vpts apts cpcr p =
     (let p = (if bit sta 0 then fst (avsync_pcr_process_isr tick ms stc vpts cpcr p) else p);
          p = (if bit sta 3 then avsync_audio_pts_parsed_isr tick tick' apts p else p)
      in if bit sta 12 then fst (avsync_audio_one_frame_out_isr stc p) else p)"

section \<open>Checks of the presentation times\<close>

definition avsync_aduio_pts_rollback_event :: "bool \<Rightarrow> avsync_priv \<Rightarrow> avsync_priv" where
  "avsync_aduio_pts_rollback_event live p =
     (if ddp_frames p
      then (avsync_video_sync_status_reset (avsync_audio_sync_status_reset (fst (avsync_audio_init p))))
             \<lparr>vid_dolby_ply_cnt := 0, atoms_looped := True\<rparr>
      else if avsync_sync_mode p \<noteq> AVSYNC_REF_PCR_MODE \<and> live
      then switch_mode AVSYNC_REF_AV_MODE (avsync_video_sync_status_reset (avsync_audio_sync_status_reset p))
      else p)"

definition avsync_aduio_pts_event_check :: "bool \<Rightarrow> avsync_priv \<Rightarrow> avsync_priv" where
  "avsync_aduio_pts_event_check live p =
     (if p_avsync_psync p
      then let p = (if cur_apts p < last_apts p \<and> last_apts p \<noteq> 0xffffffff \<and> last_apts p - cur_apts p > AVSYNC_STREAM_ROLLABCK_DIFF
                    then avsync_aduio_pts_rollback_event live
                           (SYNC_UpLoadEvent SYNC_AVSYNC_EVENT_AUD_ROLLBACK (p\<lparr>avsync_aud_rollback := True\<rparr>))
                    else p)
           in if last_apts p \<noteq> 0xffffffff \<and> abs32 (cur_apts p - last_apts p) \<ge> 2 * apts_step p
              then SYNC_UpLoadEvent SYNC_AVSYNC_EVENT_APTS_JUMP p else p
      else p)"

definition avsync_aduio_pts_stable_check :: "avsync_priv \<Rightarrow> avsync_priv" where
  "avsync_aduio_pts_stable_check p =
     (if last_apts p = 0xffffffff then p\<lparr>astabled_flag := True\<rparr>
      else let p = (if first_apts p = 0xffffffff \<and> cur_apts p \<noteq> 0 then p\<lparr>first_apts := cur_apts p\<rparr> else p)
           in if cur_apts p > last_apts p
              then if cur_apts p - last_apts p \<le> push_bit 1 (apts_step p) + 0x300
                   then if astabled_cnt p > 10 then p\<lparr>astabled_flag := True\<rparr> else p\<lparr>astabled_cnt := astabled_cnt p + 1\<rparr>
                   else p\<lparr>astabled_cnt := 0, astabled_flag := False\<rparr>
              else if cur_apts p + 0x100 < last_apts p then p\<lparr>astabled_cnt := 0, astabled_flag := False\<rparr>
              else p)"

definition avsync_aduio_pts_check :: "bool \<Rightarrow> avsync_priv \<Rightarrow> avsync_priv" where
  "avsync_aduio_pts_check live p =
     (let p = avsync_aduio_pts_stable_check (avsync_aduio_pts_event_check live p)
      in p\<lparr>last_apts := cur_apts p, last_apts_id := cur_apts_id p\<rparr>)"

definition vpts_window :: "avsync_priv \<Rightarrow> u32" where
  "vpts_window p = (abs32 (cur_vpts_id p - last_vpts_id p) + 1) * vpts_step p"

definition avsync_video_pts_stable_check :: "avsync_priv \<Rightarrow> avsync_priv" where
  "avsync_video_pts_stable_check p =
     (if last_vpts p = 0xffffffff then p\<lparr>vstabled_flag := True\<rparr>
      else let p = (if first_vpts p = 0xffffffff \<and> cur_vpts p \<noteq> 0 then p\<lparr>first_vpts := cur_vpts p\<rparr> else p);
               unstable = p\<lparr>vstabled_cnt := 0, vstabled_flag := False\<rparr>
           in if cur_vpts_id p < last_vpts_id p then unstable
              else if cur_vpts p > last_vpts p
              then if cur_vpts p - last_vpts p \<le> vpts_window p
                   then if vstabled_cnt p > 4 then p\<lparr>vstabled_flag := True\<rparr> else p\<lparr>vstabled_cnt := vstabled_cnt p + 1\<rparr>
                   else unstable
              else if cur_vpts p + 0x100 < last_vpts p then unstable
              else p)"

definition avsync_video_pts_event_check :: "avsync_priv \<Rightarrow> avsync_priv" where
  "avsync_video_pts_event_check p =
     (if p_avsync_psync p
      then let p = (if cur_vpts p \<noteq> last_vpts p \<and> end_of_stream_flag p then SYNC_UpLoadEvent SYNC_AVSYNC_EVENT_EOS p else p);
               p = (if cur_vpts p < last_vpts p \<and> last_vpts p \<noteq> 0xffffffff \<and> last_vpts p - cur_vpts p > AVSYNC_STREAM_ROLLABCK_DIFF
                    then SYNC_UpLoadEvent SYNC_AVSYNC_EVENT_VID_ROLLBACK p else p)
           in if last_vpts p \<noteq> 0xffffffff \<and> abs32 (cur_vpts p - last_vpts p) \<ge> vpts_window p
              then SYNC_UpLoadEvent SYNC_AVSYNC_EVENT_VPTS_JUMP p else p
      else p)"

definition avsync_video_pts_check :: "avsync_priv \<Rightarrow> avsync_priv" where
  "avsync_video_pts_check p =
     (let p = avsync_video_pts_event_check (avsync_video_pts_stable_check p)
      in p\<lparr>vid := (vid p)\<lparr>vid_push_cnt := vid_push_cnt (vid p) + 1\<rparr>\<rparr>)"

definition avsync_video_pts_repeat_check :: "avsync_priv \<Rightarrow> bool" where
  "avsync_video_pts_repeat_check p \<longleftrightarrow> cur_vpts p \<noteq> 0xffffffff \<and> cur_vpts p = last_vpts p \<and> cur_vpts_id p = last_vpts_id p"

section \<open>Judgement of a frame\<close>

text \<open>A frame in the window: the stream is in sync, and with the other one in sync the user's mode is taken back.\<close>

definition sync_back :: "avsync_priv \<Rightarrow> avsync_priv" where
  "sync_back p = switch_mode (cfg_sync_mode p) p"

definition sync_finished :: "avsync_priv \<Rightarrow> avsync_priv" where
  "sync_finished p =
     (let p = (if avsync_do_aud_track p then sync_back (p\<lparr>avsync_do_aud_track := False\<rparr>) else p);
          p = (if avsync_do_trick_seek p then sync_back (p\<lparr>avsync_do_trick_seek := False\<rparr>) else p);
          p = (if avsync_aud_rollback p then sync_back (p\<lparr>avsync_aud_rollback := False\<rparr>) else p);
          p = (if av_play_flag p then sync_back (p\<lparr>av_play_flag := False\<rparr>) else p);
          p = p\<lparr>normal_sync_done := True\<rparr>
      in if p_avsync_psync p then SYNC_UpLoadEvent SYNC_AVSYNC_EVENT_STA_CHANGE p else p)"

definition avsync_audio_play_check :: "avsync_priv \<Rightarrow> avsync_priv \<times> avsync_flag" where
  "avsync_audio_play_check p =
     (let p = (if \<not> a_synced_flag p then p\<lparr>a_unsynced_cnt := 0\<rparr> else p)\<lparr>a_synced_flag := True\<rparr>
      in (if \<not> av_synced_flag p \<and> v_synced_flag p then sync_finished (p\<lparr>av_synced_flag := True, disp_flag := True\<rparr>) else p,
          AVSYNC_FRAME_PLAY))"

definition avsync_video_play_check :: "avsync_priv \<Rightarrow> avsync_priv \<times> avsync_flag" where
  "avsync_video_play_check p =
     (let p = (if \<not> v_synced_flag p then p\<lparr>v_unsynced_cnt := 0\<rparr> else p)\<lparr>v_synced_flag := True\<rparr>
      in (if \<not> av_synced_flag p \<and> a_synced_flag p
          then sync_finished (p\<lparr>av_synced_flag := True, disp_flag := True, slow_sync_cnt := 0\<rparr>) else p,
          AVSYNC_FRAME_PLAY))"

text \<open>A frame out of the window of a stream in sync is counted.\<close>

definition audio_unsynced :: "avsync_priv \<Rightarrow> avsync_priv" where
  "audio_unsynced p =
     (let p = p\<lparr>a_unsynced_cnt := a_unsynced_cnt p + 1\<rparr>
      in if a_unsynced_cnt p > AVSYNC_UNSYNCED_THRESHOLD then avsync_audio_sync_status_reset p else p)"

definition video_unsynced :: "avsync_priv \<Rightarrow> avsync_priv" where
  "video_unsynced p =
     (let p = p\<lparr>v_unsynced_cnt := v_unsynced_cnt p + 1\<rparr>
      in if v_unsynced_cnt p > AVSYNC_UNSYNCED_THRESHOLD then avsync_video_sync_status_reset p else p)"

definition avsync_audio_pause_check :: "avsync_priv \<Rightarrow> avsync_priv \<times> avsync_flag" where
  "avsync_audio_pause_check p =
     (if \<not> a_synced_flag p then (p, if aud_pause_on p then AVSYNC_FRAME_PAUSE else AVSYNC_FRAME_PLAY)
      else (audio_unsynced p, AVSYNC_FRAME_PLAY))"

definition avsync_audio_skip_check :: "avsync_priv \<Rightarrow> avsync_priv \<times> avsync_flag" where
  "avsync_audio_skip_check p =
     (if \<not> a_synced_flag p then (p, if aud_skip_on p then AVSYNC_FRAME_SKIP else AVSYNC_FRAME_FREE)
      else (audio_unsynced p, AVSYNC_FRAME_PLAY))"

definition avsync_audio_free_check :: "avsync_priv \<Rightarrow> avsync_priv \<times> avsync_flag" where
  "avsync_audio_free_check p =
     (if \<not> a_synced_flag p then (if avsync_do_aud_track p then sync_back (p\<lparr>avsync_do_aud_track := False\<rparr>) else p)
      else audio_unsynced p, AVSYNC_FRAME_FREE)"

fun avsync_audio_check_sync_flag :: "avsync_flag \<Rightarrow> avsync_priv \<Rightarrow> avsync_priv \<times> avsync_flag" where
  "avsync_audio_check_sync_flag AVSYNC_FRAME_PLAY p = avsync_audio_play_check p"
| "avsync_audio_check_sync_flag AVSYNC_FRAME_PAUSE p = avsync_audio_pause_check p"
| "avsync_audio_check_sync_flag AVSYNC_FRAME_SKIP p = avsync_audio_skip_check p"
| "avsync_audio_check_sync_flag AVSYNC_FRAME_FREE p = avsync_audio_free_check p"
| "avsync_audio_check_sync_flag f p = (p, f)"

text \<open>Slow sync: a video that is early is shown at a third of its speed instead of being held.\<close>

definition slow_step :: "avsync_priv \<Rightarrow> avsync_priv \<times> avsync_flag" where
  "slow_step p =
     (let (p, f) = (if slow_sync_cnt p mod 3 < 2 then (p, AVSYNC_FRAME_PAUSE) else (p\<lparr>disp_flag := True\<rparr>, AVSYNC_FRAME_PLAY))
      in (p\<lparr>slow_sync_cnt := slow_sync_cnt p + 1\<rparr>, f))"

definition avsync_video_pause_slow_sync_check :: "avsync_priv \<Rightarrow> avsync_priv \<times> avsync_flag" where
  "avsync_video_pause_slow_sync_check p =
     (case screen_mode p of
        None \<Rightarrow> (p, AVSYNC_FRAME_PAUSE)
      | Some m \<Rightarrow> if m = AVSYNC_UNBLANK_FAST \<or> m = AVSYNC_UNBLANK_STABLE \<or> vsync_diff p \<le> AVSYNC_SLOW_SYNC_PTS_DIFF
                  then slow_step p else (p, AVSYNC_FRAME_PAUSE))"

definition avsync_video_pause_check :: "avsync_priv \<Rightarrow> avsync_priv \<times> avsync_flag" where
  "avsync_video_pause_check p =
     (if \<not> v_synced_flag p
      then if vid_pause_on p
           then if slow_sync_en p \<and> avsync_sync_mode p \<noteq> AVSYNC_REF_AV_MODE then avsync_video_pause_slow_sync_check p
                else (p, AVSYNC_FRAME_PAUSE)
           else (p, AVSYNC_FRAME_FREE)
      else (video_unsynced p, AVSYNC_FRAME_PLAY))"

definition avsync_video_skip_check :: "avsync_priv \<Rightarrow> avsync_priv \<times> avsync_flag" where
  "avsync_video_skip_check p =
     (if \<not> v_synced_flag p then (p, if vid_skip_on p then AVSYNC_FRAME_SKIP else AVSYNC_FRAME_FREE)
      else (video_unsynced p, AVSYNC_FRAME_PLAY))"

definition avsync_video_free_check :: "avsync_priv \<Rightarrow> avsync_priv \<times> avsync_flag" where
  "avsync_video_free_check p = (if \<not> v_synced_flag p then p else video_unsynced p, AVSYNC_FRAME_FREE)"

fun avsync_video_check_sync_flag :: "avsync_flag \<Rightarrow> avsync_priv \<Rightarrow> avsync_priv \<times> avsync_flag" where
  "avsync_video_check_sync_flag AVSYNC_FRAME_PLAY p = avsync_video_play_check p"
| "avsync_video_check_sync_flag AVSYNC_FRAME_PAUSE p = avsync_video_pause_check p"
| "avsync_video_check_sync_flag AVSYNC_FRAME_SKIP p = avsync_video_skip_check p"
| "avsync_video_check_sync_flag AVSYNC_FRAME_FREE p = avsync_video_free_check p"
| "avsync_video_check_sync_flag f p = (p, f)"

section \<open>Flags of a frame\<close>

definition a_thr :: "avsync_priv \<Rightarrow> u32" where "a_thr p = (if a_synced_flag p then 120 * 45 else 60 * 45)"
definition v_thr :: "avsync_priv \<Rightarrow> u32" where "v_thr p = (if v_synced_flag p then 120 * 45 else 60 * 45)"

text \<open>The place of a time \<open>t\<close> against a reference \<open>r\<close>: early, late or in the window \<open>w\<close>.\<close>

definition judge :: "u32 \<Rightarrow> avsync_flag \<Rightarrow> u32 \<Rightarrow> u32 \<Rightarrow> avsync_flag" where
  "judge w early t r =
     (let d = (if t \<ge> r then t - r else r - t)
      in if d \<le> w then AVSYNC_FRAME_PLAY
         else if d \<le> AVSYNC_AV_DIFF_FREE_THRESHOLD then (if t \<ge> r then early else AVSYNC_FRAME_SKIP)
         else AVSYNC_FRAME_FREE)"

definition avsync_audio_get_ref_sync_flag :: "u32 \<Rightarrow> u32 \<Rightarrow> avsync_priv \<Rightarrow> avsync_priv \<times> avsync_flag" where
  "avsync_audio_get_ref_sync_flag apts ref p =
     avsync_audio_check_sync_flag
       (judge (a_thr p) (if aud_pause_on p then AVSYNC_FRAME_PAUSE else AVSYNC_FRAME_PLAY) apts ref) p"

definition avsync_video_get_ref_sync_flag :: "u32 \<Rightarrow> u32 \<Rightarrow> avsync_priv \<Rightarrow> avsync_priv \<times> avsync_flag" where
  "avsync_video_get_ref_sync_flag ref vpts p =
     avsync_video_check_sync_flag (judge (v_thr p) AVSYNC_FRAME_PAUSE vpts ref) (p\<lparr>vsync_diff := abs32 (vpts - ref)\<rparr>)"

text \<open>The audio is judged by the time of the frame that is heard: what waits in the output is taken off.\<close>

definition avsync_audio_get_aud_ref_sync_flg :: "av_env \<Rightarrow> avsync_priv \<Rightarrow> avsync_priv \<times> avsync_flag" where
  "avsync_audio_get_aud_ref_sync_flg e p =
     (if cur_apts p < en_remain e then (p, AVSYNC_FRAME_FREE)
      else if \<not> init_stc p then (p, AVSYNC_FRAME_FREE)
      else avsync_audio_get_ref_sync_flag (cur_apts p - en_remain e) (en_stc e) (p\<lparr>cur_stc := en_stc e\<rparr>))"

definition avsync_audio_get_vid_ref_sync_flg :: "av_env \<Rightarrow> avsync_priv \<Rightarrow> avsync_priv \<times> avsync_flag" where
  "avsync_audio_get_vid_ref_sync_flg e p =
     (if cur_apts p < en_remain e then (p, AVSYNC_FRAME_FREE)
      else if \<not> init_stc p then (p, AVSYNC_FRAME_FREE)
      else avsync_audio_get_ref_sync_flag (cur_apts p - en_remain e) (en_stc e) (p\<lparr>cur_stc := en_stc e\<rparr>))"

definition avsync_audio_get_av_ref_sync_flg :: "av_env \<Rightarrow> avsync_priv \<Rightarrow> avsync_priv \<times> avsync_flag" where
  "avsync_audio_get_av_ref_sync_flg e p =
     (if cur_apts p < en_remain e then (p, AVSYNC_FRAME_FREE)
      else let vpts = cur_vpts p; (p, f) = avsync_audio_get_ref_sync_flag (cur_apts p - en_remain e) vpts p
           in (p, if f = AVSYNC_FRAME_SKIP \<and> cur_apts p < vpts then AVSYNC_FRAME_SKIP_AOUT else f))"

text \<open>Against the program clock: nothing is decided for the first 100 milliseconds without a reference.\<close>

definition pcr_probe :: "u32 \<Rightarrow> avsync_priv \<Rightarrow> avsync_priv \<times> bool" where
  "pcr_probe tick p =
     (if pcr_got (pcr p) then (p, False)
      else if pcr_probe_start_tick (pcr p) = 0xffffffff then (p\<lparr>pcr := (pcr p)\<lparr>pcr_probe_start_tick := tick\<rparr>\<rparr>, True)
      else (p, tick - pcr_probe_start_tick (pcr p) \<le> 100))"

definition judge_pcr :: "u32 \<Rightarrow> u32 \<Rightarrow> u32 \<Rightarrow> u32 \<Rightarrow> avsync_flag" where
  "judge_pcr pause_thr skip_thr t stc =
     (let pause_pts = t - pause_thr; skip_pts = t + skip_thr
      in if pause_pts \<le> stc \<and> stc \<le> skip_pts then AVSYNC_FRAME_PLAY
         else if stc > skip_pts \<and> stc - t < AVSYNC_AV_DIFF_FREE_THRESHOLD then AVSYNC_FRAME_SKIP
         else if stc < pause_pts \<and> t - stc < AVSYNC_AV_DIFF_FREE_THRESHOLD then AVSYNC_FRAME_PAUSE
         else AVSYNC_FRAME_FREE)"

definition avsync_audio_get_pcr_ref_sync_flg :: "av_env \<Rightarrow> avsync_priv \<Rightarrow> avsync_priv \<times> avsync_flag" where
  "avsync_audio_get_pcr_ref_sync_flg e p =
     (if cur_apts p < en_remain e then (p, AVSYNC_FRAME_FREE)
      else let apts = cur_apts p - en_remain e; (p, wait) = pcr_probe (en_tick e) p
           in if wait then (p, AVSYNC_FRAME_PAUSE)
              else if \<not> init_stc p then (p, AVSYNC_FRAME_FREE)
              else avsync_audio_check_sync_flag (judge_pcr (avsync_pause_threhold p) (avsync_skip_threhold p) apts (en_stc e))
                     (p\<lparr>cur_stc := en_stc e\<rparr>))"

definition avsync_audio_get_sync_flg :: "av_env \<Rightarrow> avsync_priv \<Rightarrow> avsync_priv \<times> avsync_flag" where
  "avsync_audio_get_sync_flg e p =
     (case avsync_sync_mode p of
        AVSYNC_REF_AUDIO_MODE \<Rightarrow> avsync_audio_get_aud_ref_sync_flg e p
      | AVSYNC_REF_VIDEO_MODE \<Rightarrow> avsync_audio_get_vid_ref_sync_flg e p
      | AVSYNC_REF_AV_MODE \<Rightarrow> avsync_audio_get_av_ref_sync_flg e p
      | AVSYNC_REF_PCR_MODE \<Rightarrow> avsync_audio_get_pcr_ref_sync_flg e p
      | AVSYNC_REF_NONE_MODE \<Rightarrow> (p, AVSYNC_FRAME_FREE))"

definition avsync_video_get_aud_ref_sync_flg :: "av_env \<Rightarrow> avsync_priv \<Rightarrow> avsync_priv \<times> avsync_flag" where
  "avsync_video_get_aud_ref_sync_flg e p =
     (if \<not> init_stc p then (p, AVSYNC_FRAME_FREE)
      else avsync_video_get_ref_sync_flag (en_stc e) (cur_vpts p) (p\<lparr>cur_stc := en_stc e\<rparr>))"

definition avsync_video_get_vid_ref_sync_flg :: "av_env \<Rightarrow> avsync_priv \<Rightarrow> avsync_priv \<times> avsync_flag" where
  "avsync_video_get_vid_ref_sync_flg e p =
     (if \<not> init_stc p then (p, AVSYNC_FRAME_FREE)
      else avsync_video_get_ref_sync_flag (en_stc e) (cur_vpts p) (p\<lparr>cur_stc := en_stc e\<rparr>))"

definition avsync_video_get_av_ref_sync_flg :: "av_env \<Rightarrow> avsync_priv \<Rightarrow> avsync_priv \<times> avsync_flag" where
  "avsync_video_get_av_ref_sync_flg e p =
     (if cur_apts p < en_remain e then (p, AVSYNC_FRAME_FREE)
      else if cur_apts_id p > 2 then avsync_video_get_ref_sync_flag (cur_apts p - en_remain e) (cur_vpts p) p
      else (p, AVSYNC_FRAME_FREE))"

definition avsync_video_get_pcr_ref_sync_flg :: "av_env \<Rightarrow> avsync_priv \<Rightarrow> avsync_priv \<times> avsync_flag" where
  "avsync_video_get_pcr_ref_sync_flg e p =
     (let vpts = cur_vpts p; (p, wait) = pcr_probe (en_tick e) p
      in if wait then (p, AVSYNC_FRAME_PAUSE)
         else if \<not> init_stc p then (p, AVSYNC_FRAME_FREE)
         else avsync_video_check_sync_flag (judge_pcr (avsync_pause_threhold p) (avsync_skip_threhold p) vpts (en_stc e))
                (p\<lparr>cur_stc := en_stc e, vsync_diff := abs32 (vpts - en_stc e)\<rparr>))"

definition avsync_video_get_sync_flg :: "av_env \<Rightarrow> avsync_priv \<Rightarrow> avsync_priv \<times> avsync_flag" where
  "avsync_video_get_sync_flg e p =
     (case avsync_sync_mode p of
        AVSYNC_REF_AUDIO_MODE \<Rightarrow> avsync_video_get_aud_ref_sync_flg e p
      | AVSYNC_REF_VIDEO_MODE \<Rightarrow> avsync_video_get_vid_ref_sync_flg e p
      | AVSYNC_REF_AV_MODE \<Rightarrow> avsync_video_get_av_ref_sync_flg e p
      | AVSYNC_REF_PCR_MODE \<Rightarrow> avsync_video_get_pcr_ref_sync_flg e p
      | AVSYNC_REF_NONE_MODE \<Rightarrow> (p, AVSYNC_FRAME_FREE))"

section \<open>The loops\<close>

definition avsync_audio_do_sync :: "av_env \<Rightarrow> avsync_priv \<Rightarrow> (avsync_priv \<times> avsync_flag \<times> mt_ret) option" where
  "avsync_audio_do_sync e p =
     (let free = (\<lambda>r. Some (p, AVSYNC_FRAME_FREE, r));
          flag = (\<lambda>p. case avsync_audio_get_sync_flg e p of (p, f) \<Rightarrow> Some (p, f, MT_SUCCESS))
      in if \<not> aud_dev_init p then free MT_FAILURE
         else if cur_apts p = 0xffffffff then free MT_FAILURE
         else if ddp_atmos p \<or> do_ddp_verf p then None
         else if avsync_sync_mode p = AVSYNC_REF_NONE_MODE then Some (p\<lparr>a_synced_flag := True\<rparr>, AVSYNC_FRAME_FREE, MT_SUCCESS)
         else if avsync_sync_mode p = AVSYNC_REF_PCR_MODE then flag p
         else if \<not> vid_dev_init p then free MT_SUCCESS
         else if (\<not> astabled_flag p \<or> \<not> vstabled_flag p) \<and> \<not> avsync_do_aud_track p then free MT_SUCCESS
         else flag (if avsync_do_aud_track p \<and> audio_track_set_av_mode_flag p \<and> en_live e \<and> cur_apts p < en_stc_track e
                       \<and> en_stc_track e - cur_apts p > AVSYNC_AUDIO_TRACK_DIFF
                    then switch_mode AVSYNC_REF_AV_MODE (p\<lparr>audio_track_set_av_mode_flag := False\<rparr>) else p))"

definition avsync_video_do_sync :: "av_env \<Rightarrow> avsync_priv \<Rightarrow> (avsync_priv \<times> avsync_flag \<times> mt_ret) option" where
  "avsync_video_do_sync e p =
     (let free = (\<lambda>r. Some (p, AVSYNC_FRAME_FREE, r));
          flag = (case avsync_video_get_sync_flg e p of (p, f) \<Rightarrow> Some (p, f, MT_SUCCESS))
      in if \<not> vid_dev_init p then free MT_SUCCESS
         else if cur_vpts p = 0xffffffff then free MT_FAILURE
         else if do_ddp_verf p then None
         else if avsync_sync_mode p = AVSYNC_REF_NONE_MODE then Some (p\<lparr>v_synced_flag := True\<rparr>, AVSYNC_FRAME_FREE, MT_SUCCESS)
         else if avsync_sync_mode p = AVSYNC_REF_PCR_MODE then flag
         else if \<not> aud_dev_init p then free MT_FAILURE
         else if \<not> vstabled_flag p \<or> \<not> astabled_flag p then free MT_SUCCESS
         else flag)"

fun aud_count :: "avsync_flag \<Rightarrow> aud_path \<Rightarrow> aud_path" where
  "aud_count AVSYNC_FRAME_PLAY a = a\<lparr>aud_play_cnt := aud_play_cnt a + 1\<rparr>"
| "aud_count AVSYNC_FRAME_PAUSE a = a\<lparr>aud_pause_cnt := aud_pause_cnt a + 1\<rparr>"
| "aud_count AVSYNC_FRAME_FREE a = a\<lparr>aud_free_cnt := aud_free_cnt a + 1\<rparr>"
| "aud_count f a = a\<lparr>aud_skip_cnt := aud_skip_cnt a + 1\<rparr>"

text \<open>Audio that bypasses the decoder: the time is moved by the milliseconds of the low bits, forward when bit 15 is set.\<close>

definition bypass_adjust :: "avsync_priv \<Rightarrow> avsync_priv" where
  "bypass_adjust p =
     (let a = audio_bypass_apts_adjust p; d = 45 * (0x3fff AND a)
      in if audio_bypass p \<and> a \<noteq> 0 then p\<lparr>cur_apts := (if 0x8000 AND a \<noteq> 0 then cur_apts p + d else cur_apts p - d)\<rparr> else p)"

definition avsync_audio_loop :: "av_env \<Rightarrow> aframe \<Rightarrow> avsync_priv \<Rightarrow> (avsync_priv \<times> avsync_flag) option" where
  "avsync_audio_loop e x p =
     (if do_ddp_verf p \<or> ddp_atmos p then None
      else let p = p\<lparr>audio_bypass := af_bypass x, cur_apts := af_pts x, cur_apts_id := af_id x, apts_step := af_step x,
                     aud := (aud p)\<lparr>aud_push_cnt := aud_push_cnt (aud p) + 1\<rparr>\<rparr>;
               p = avsync_aduio_pts_check (en_live e) (bypass_adjust p)
           in case avsync_audio_do_sync e p of
                None \<Rightarrow> None
              | Some (p, f, _) \<Rightarrow>
                  let p = p\<lparr>aud := aud_count f (aud p)\<rparr>;
                      p = (if f = AVSYNC_FRAME_PLAY \<or> f = AVSYNC_FRAME_FREE
                           then fst (avsync_audio_push_pts (cur_apts p) (cur_apts_id p) (apts_step p) p) else p);
                      p = (if audio_bypass p \<and> astabled_flag p \<and> avsync_sync_mode p = AVSYNC_REF_AUDIO_MODE
                           then (fst (avsync_stc_adjust_by_apts (en_stc e) \<lparr>nd_pts = cur_apts p, nd_id = 0, nd_step = apts_step p\<rparr> p))
                                  \<lparr>audio_bypass_last_apts := cur_apts p\<rparr>
                           else p)
                  in Some (p, f))"

text \<open>A reading of the display. Every second one is dropped, and a frame shown longer keeps its time.\<close>

definition vpts_read :: "vframe \<Rightarrow> u32" where
  "vpts_read x =
     (let bad = vf_pts x = 0xffffffff \<or> vf_pts_u64 x = 0xffffffffffffffff
      in if \<not> bad \<and> vf_pts_u64 x \<noteq> 0 \<and> vf_pts x = 0 then ucast (vf_pts_u64 x div 1000 * 45)
         else if bad then 0 else vf_pts x)"

definition rate_step :: "u32 \<Rightarrow> u32" where
  "rate_step r = (let s = 4500000 div (if r = 0 then 2500 else if r = 2900 then 3000 else r) in if s = 0x5dc then 0x5de else s)"

definition avsync_video_pts_correct :: "u32 \<Rightarrow> u32 \<Rightarrow> avsync_priv \<Rightarrow> avsync_priv" where
  "avsync_video_pts_correct pts i p =
     (if pts = vi_vpts (vid p)
      then p\<lparr>cur_vpts := cur_vpts p + vi_vpts_step (vid p) * (if i > vi_vpts_id (vid p) then i - vi_vpts_id (vid p) else 0), cur_vpts_id := i\<rparr>
      else p\<lparr>cur_vpts := pts, cur_vpts_id := i\<rparr>)"

definition avsync_video_pts_get :: "vframe option \<Rightarrow> avsync_priv \<Rightarrow> avsync_priv \<times> mt_ret" where
  "avsync_video_pts_get r p =
     (case r of
        None \<Rightarrow> (p, MT_FAILURE)
      | Some x \<Rightarrow>
          let pts = vpts_read x; p = p\<lparr>vid := (vid p)\<lparr>vloop_cnt := vloop_cnt (vid p) + 1\<rparr>\<rparr>
          in if vloop_cnt (vid p) mod 2 = 0 then (p, MT_FAILURE)
             else let p = p\<lparr>vid := (vid p)\<lparr>vi_vpts_step := rate_step (vf_rate x)\<rparr>\<rparr>;
                      p = avsync_video_pts_correct pts (vf_id x) p;
                      p = p\<lparr>vid := (vid p)\<lparr>vi_vpts := pts, vi_vpts_id := vf_id x\<rparr>, screen_mode := vf_screen_mode x,
                            vpts_step := vi_vpts_step (vid p), end_of_stream_flag := vf_end_of_stream x\<rparr>
                  in (p, MT_SUCCESS))"

definition vid_count :: "avsync_flag \<Rightarrow> bool \<Rightarrow> vid_path \<Rightarrow> vid_path" where
  "vid_count f rep v =
     (case f of
        AVSYNC_FRAME_PLAY \<Rightarrow> if rep then v else v\<lparr>vid_play_cnt := vid_play_cnt v + 1\<rparr>
      | AVSYNC_FRAME_SKIP \<Rightarrow> v\<lparr>vid_skip_cnt := vid_skip_cnt v + 1\<rparr>
      | AVSYNC_FRAME_PAUSE \<Rightarrow> v\<lparr>vid_pause_cnt := vid_pause_cnt v + 1\<rparr>
      | _ \<Rightarrow> if rep then v else v\<lparr>vid_free_cnt := vid_free_cnt v + 1\<rparr>)"

text \<open>The flag is the request to the display: a pause shows the frame again, a skip drops one frame.\<close>

definition avsync_video_loop :: "av_env \<Rightarrow> vframe option \<Rightarrow> avsync_priv \<Rightarrow> (avsync_priv \<times> avsync_flag option) option" where
  "avsync_video_loop e r p =
     (case avsync_video_pts_get r p of
        (p, MT_SUCCESS) \<Rightarrow>
          (case avsync_video_do_sync e (avsync_video_pts_check p) of
             None \<Rightarrow> None
           | Some (p, f, _) \<Rightarrow>
               let p = p\<lparr>vid := vid_count f (avsync_video_pts_repeat_check p) (vid p)\<rparr>;
                   p = (if vstabled_flag p \<and> avsync_sync_mode p = AVSYNC_REF_VIDEO_MODE
                        then fst (avsync_stc_adjust_by_vpts (en_stc e) p) else p)
               in Some (p\<lparr>last_vpts := cur_vpts p, last_vpts_id := cur_vpts_id p\<rparr>, Some f))
      | (p, _) \<Rightarrow> Some (p, None))"

section \<open>Restarts\<close>

text \<open>Another audio track, a seek, a reset: the sync is regained in a mode of the driver's own.\<close>

definition avsync_audio_do_track :: "avsync_priv \<Rightarrow> avsync_priv" where
  "avsync_audio_do_track p =
     (if avsync_aud_rollback p then p\<lparr>avsync_do_aud_track := False\<rparr>
      else switch_mode AVSYNC_REF_VIDEO_MODE (p\<lparr>avsync_do_aud_track := True, audio_track_set_av_mode_flag := True\<rparr>))"

definition avsync_trick_seek_to_normal :: "avsync_priv \<Rightarrow> avsync_priv" where
  "avsync_trick_seek_to_normal p = switch_mode AVSYNC_REF_VIDEO_MODE (p\<lparr>avsync_do_trick_seek := True\<rparr>)"

definition ao_all_skip_avsync_reset :: "avsync_priv \<Rightarrow> avsync_priv" where
  "ao_all_skip_avsync_reset p = switch_mode AVSYNC_REF_AV_MODE (avsync_audio_sync_status_reset (fst (avsync_audio_init p)))"

definition avsync_reset :: "u32 \<Rightarrow> avsync_priv \<Rightarrow> avsync_priv" where
  "avsync_reset stc p =
     (let p = avsync_audio_sync_status_reset (fst (avsync_audio_init p))
      in if avsync_do_aud_track p then fst (avsync_stc_adjust_by_vpts stc (switch_mode AVSYNC_REF_VIDEO_MODE p))
         else switch_mode AVSYNC_REF_AV_MODE (avsync_video_sync_status_reset p))"

text \<open>A new programme; \<open>ddp\<close>: its identifiers are those of a Dolby conformance stream.\<close>

definition avsync_play_info_cfg :: "bool \<Rightarrow> avsync_priv \<Rightarrow> avsync_priv" where
  "avsync_play_info_cfg ddp p =
     (if avsync_do_aud_track p then p else avsync_module_default_cfg p)\<lparr>av_play_flag := True, do_ddp_verf := ddp\<rparr>"

definition avsync_get_current_psync :: "bool \<Rightarrow> avsync_priv \<Rightarrow> avsync_priv" where
  "avsync_get_current_psync b p = p\<lparr>p_avsync_psync := b\<rparr>"

end
