(* ===== verification/AvMaster.thy ===== *)
theory AvMaster
  imports AvSync
begin

text \<open>
  The modes of \<open>AvSync\<close>: every call of the driver as a step, the invariant that the pause and skip switches fit the mode, and what
  follows for the frames of the master.
\<close>

section \<open>Steps\<close>

text \<open>The calls of the module, interrupts among them, in any order and with any readings of the hardware.\<close>

inductive av_step :: "avsync_priv \<Rightarrow> avsync_priv \<Rightarrow> bool" where
  isr: "av_step p (avsync_handle_isr sta tick tick' ms stc vpts apts c p)"
| audio: "avsync_audio_loop e x p = Some (q, f) \<Longrightarrow> av_step p q"
| video: "avsync_video_loop e r p = Some (q, g) \<Longrightarrow> av_step p q"
| audio_init: "av_step p (fst (avsync_audio_init p))"
| audio_deinit: "av_step p (fst (avsync_audio_deinit p))"
| video_init: "av_step p (fst (avsync_video_init p))"
| video_deinit: "av_step p (fst (avsync_video_deinit p))"
| slow: "av_step p (fst (avsync_set_slow_sync_policy b p))"
| reference: "av_step p (fst (SYNC_reference_config s p))"
| track: "av_step p (avsync_audio_do_track p)"
| seek: "av_step p (avsync_trick_seek_to_normal p)"
| skip_reset: "av_step p (ao_all_skip_avsync_reset p)"
| reset: "av_step p (avsync_reset stc p)"
| play_info: "av_step p (avsync_play_info_cfg ddp p)"
| psync: "av_step p (avsync_get_current_psync b p)"

inductive av_reach :: "avsync_priv \<Rightarrow> bool" where
  start: "av_reach avsync_module_init"
| step: "av_reach p \<Longrightarrow> av_step p q \<Longrightarrow> av_reach q"

section \<open>The switches of a mode\<close>

fun mode_switches :: "avsync_sync_mode_e \<Rightarrow> bool \<times> bool" where
  "mode_switches AVSYNC_REF_NONE_MODE = (False, False)"
| "mode_switches AVSYNC_REF_AUDIO_MODE = (False, True)"
| "mode_switches AVSYNC_REF_VIDEO_MODE = (True, False)"
| "mode_switches AVSYNC_REF_PCR_MODE = (True, True)"
| "mode_switches AVSYNC_REF_AV_MODE = (True, True)"

text \<open>Pausing and skipping are allowed for exactly the streams that are not the master.\<close>

definition mode_inv :: "avsync_priv \<Rightarrow> bool" where
  "mode_inv p \<longleftrightarrow> (aud_pause_on p, vid_pause_on p) = mode_switches (avsync_sync_mode p)
     \<and> (aud_skip_on p, vid_skip_on p) = mode_switches (avsync_sync_mode p)
     \<and> (avsync_sync_mode p = AVSYNC_REF_PCR_MODE \<longrightarrow> cfg_sync_mode p = AVSYNC_REF_PCR_MODE)"

lemma mode_inv_switch:
  "mode_inv p \<Longrightarrow> m = AVSYNC_REF_PCR_MODE \<longrightarrow> cfg_sync_mode p = AVSYNC_REF_PCR_MODE \<Longrightarrow> mode_inv (switch_mode m p)"
  by (cases m) (auto simp: mode_inv_def switch_mode_def set_on_def)

text \<open>Most operations leave the mode and the switches alone: \<open>mode_view\<close> is what they do not change, \<open>view_simps\<close> says so for each.\<close>

definition mode_view :: "avsync_priv \<Rightarrow> avsync_sync_mode_e \<times> avsync_sync_mode_e \<times> bool \<times> bool \<times> bool \<times> bool" where
  "mode_view p = (avsync_sync_mode p, cfg_sync_mode p, aud_pause_on p, aud_skip_on p, vid_pause_on p, vid_skip_on p)"

lemma mode_view_inv: "mode_view q = mode_view p \<Longrightarrow> mode_inv p \<Longrightarrow> mode_inv q"
  by (simp add: mode_view_def mode_inv_def)

named_theorems view_simps

lemma view_stc_set [view_simps]: "mode_view (avsync_stc_set v p) = mode_view p"
  by (simp add: mode_view_def avsync_stc_set_def)

lemma view_stc_init [view_simps]: "mode_view (avsync_stc_init v p) = mode_view p"
  by (simp add: avsync_stc_init_def mode_view_def avsync_stc_set_def)

lemma view_follow_pts [view_simps]: "mode_view (follow_pts s t a d p) = mode_view p"
  by (simp add: follow_pts_def Let_def view_simps)

lemma view_adjust_apts [view_simps]: "mode_view (fst (avsync_stc_adjust_by_apts s x p)) = mode_view p"
  by (simp add: avsync_stc_adjust_by_apts_def view_simps) (simp add: mode_view_def)

lemma view_adjust_vpts [view_simps]: "mode_view (fst (avsync_stc_adjust_by_vpts s p)) = mode_view p"
  by (simp add: avsync_stc_adjust_by_vpts_def view_simps) (simp add: mode_view_def)

lemma view_stats [view_simps]: "mode_view (pcr_stats ms c p) = mode_view p"
  by (cases ms) (simp add: pcr_stats_def Let_def mode_view_def)

lemma view_follow [view_simps]: "mode_view (pcr_follow ms s c p) = mode_view p"
proof -
  have "mode_view (p\<lparr>cur_stc := x\<rparr>) = mode_view p" for x by (simp add: mode_view_def)
  then show ?thesis by (simp add: pcr_follow_def Let_def view_simps split: compare_result.split)
qed

lemma view_reset [view_simps]:
  "avsync_sync_mode p = AVSYNC_REF_PCR_MODE \<Longrightarrow> mode_inv p \<Longrightarrow> mode_view (avsync_private_reset p) = mode_view p"
  by (simp add: mode_view_def mode_inv_def avsync_private_reset_def)

lemma view_push_node [view_simps]: "mode_view (fst (push_node k x p)) = mode_view p"
  by (simp add: push_node_def mode_view_def Let_def split: prod.split)

lemma view_push_quarters [view_simps]: "mode_view (fst (push_quarters ns t i q pr)) = mode_view (fst pr)"
  by (induction ns arbitrary: pr) (simp_all add: view_simps)

lemma view_push_pts [view_simps]: "mode_view (fst (avsync_audio_push_pts t i q p)) = mode_view p"
  by (simp add: avsync_audio_push_pts_def view_simps)

lemma view_one_frame_out [view_simps]: "mode_view (fst (avsync_audio_one_frame_out_isr s p)) = mode_view p"
proof -
  have "mode_view (p\<lparr>apts_fifo := f\<rparr>) = mode_view p" "mode_view (p\<lparr>apts_fifo := f, cur_play_apts := a\<rparr>) = mode_view p"
    "mode_view (q\<lparr>isr_pop := x, apts_fifo_pop_cnt := n\<rparr>) = mode_view q" for p q f a x n
    by (simp_all add: mode_view_def)
  then show ?thesis
    by (simp add: avsync_audio_one_frame_out_isr_def Let_def view_simps split: prod.split option.split)
qed

lemma inv_switch_audio: "mode_inv p \<Longrightarrow> mode_inv (avsync_pcr_switch_to_audio_master n p)"
  using mode_inv_switch [of p AVSYNC_REF_AUDIO_MODE] by (simp add: avsync_pcr_switch_to_audio_master_def mode_inv_def)

lemma inv_rollback:
  assumes "mode_inv p" "avsync_sync_mode p = AVSYNC_REF_PCR_MODE"
  shows "mode_inv (pcr_rollback c v p)"
proof -
  have r: "mode_inv (avsync_private_reset p)" using view_reset [OF assms(2,1)] assms(1) by (rule mode_view_inv)
  have u: "mode_inv q \<Longrightarrow> mode_inv (q\<lparr>stream_total_time := x, pcr := y\<rparr>)" for q x y by (simp add: mode_inv_def)
  show ?thesis unfolding pcr_rollback_def Let_def using assms(1) r u by (simp split: if_split)
qed

lemma inv_unreliable: "mode_inv p \<Longrightarrow> mode_inv (pcr_unreliable p)"
proof -
  assume p: "mode_inv p"
  have a: "mode_inv (q\<lparr>pcr_bad_cnt := x\<rparr>) = mode_inv q" "mode_inv (q\<lparr>apts_total_cnt_before_sw_sync_mode := y\<rparr>) = mode_inv q"
    for q x y by (simp_all add: mode_inv_def)
  show ?thesis unfolding pcr_unreliable_def Let_def using p by (auto simp: a inv_switch_audio)
qed

lemma inv_adjust_pcr:
  assumes "mode_inv p" "avsync_sync_mode p = AVSYNC_REF_PCR_MODE"
  shows "mode_inv (avsync_stc_adjust_by_pcr t ms s c p)"
proof -
  have a: "mode_inv (q\<lparr>stc_reference := x\<rparr>) = mode_inv q" "mode_inv (q\<lparr>last_pcr := y\<rparr>) = mode_inv q" "mode_inv (q\<lparr>pcr := z\<rparr>) = mode_inv q"
    "mode_inv (q\<lparr>pcr_bad_cnt := m, apts_total_cnt_before_sw_sync_mode := n\<rparr>) = mode_inv q" for q x y z m n
    by (simp_all add: mode_inv_def)
  have r: "mode_inv (pcr_rollback c (last_pcr p) (p\<lparr>last_pcr := c\<rparr>))" using assms by (intro inv_rollback) (simp_all add: a)
  have f: "mode_inv q \<Longrightarrow> mode_inv (pcr_follow ms s c q)" for q using view_follow by (rule mode_view_inv)
  have i: "mode_inv q \<Longrightarrow> mode_inv (avsync_stc_init c q)" for q using view_stc_init by (rule mode_view_inv)
  show ?thesis unfolding avsync_stc_adjust_by_pcr_def avsync_pcr_set_new_pcr_def reliable_check_eq Let_def
    using assms(1) r by (auto simp: a intro!: f i inv_unreliable)
qed

lemma inv_process_isr: "mode_inv p \<Longrightarrow> mode_inv (fst (avsync_pcr_process_isr t ms s v c p))"
proof -
  assume p: "mode_inv p"
  have a: "mode_inv (q\<lparr>pcr := x\<rparr>) = mode_inv q" "mode_inv (q\<lparr>nextpcr_err_cnt := y\<rparr>) = mode_inv q"
    "mode_inv (q\<lparr>nextpcr_succuess_cnt := y\<rparr>) = mode_inv q" "mode_inv (q\<lparr>hold_video_num_before_audio_output := w\<rparr>) = mode_inv q"
    "mode_inv (q\<lparr>pcr := x, cur_pcr := u, latest_parsed_vpts := w\<rparr>) = mode_inv q" for q x y u w by (simp_all add: mode_inv_def)
  have s: "mode_view (fst (pts_segment_check c q)) = mode_view q" for q
    by (simp add: pts_segment_check_def Let_def mode_view_def)
  have s': "mode_inv q \<Longrightarrow> mode_inv (fst (pts_segment_check c q))" for q using s by (rule mode_view_inv)
  have m: "avsync_sync_mode (fst (pts_segment_check c q)) = avsync_sync_mode q" for q
    using s [of q] by (simp add: mode_view_def)
  show ?thesis unfolding avsync_pcr_process_isr_def Let_def split_beta fst_conv
    using p by (auto simp: a m intro!: inv_switch_audio inv_adjust_pcr s')
qed

lemma inv_parsed_isr: "mode_inv p \<Longrightarrow> mode_inv (avsync_audio_pts_parsed_isr t t' a p)"
proof -
  assume p: "mode_inv p"
  have a: "mode_inv (q\<lparr>apts_bad_cnt := x\<rparr>) = mode_inv q" "mode_inv (q\<lparr>first_parsed_tick := y\<rparr>) = mode_inv q"
    "mode_inv (q\<lparr>apts_total_cnt := z, latest_parsed_apts := a, latest_parsed_tick := t\<rparr>) = mode_inv q" for q x y z
    by (simp_all add: mode_inv_def)
  show ?thesis unfolding avsync_audio_pts_parsed_isr_def Let_def using p by (auto simp: a intro!: inv_switch_audio)
qed

lemma inv_handle_isr: "mode_inv p \<Longrightarrow> mode_inv (avsync_handle_isr sta t t' ms s v a c p)"
  unfolding avsync_handle_isr_def Let_def
  using mode_view_inv [OF view_one_frame_out] by (simp add: inv_process_isr inv_parsed_isr)

text \<open>The judgement: the flags of a stream that may not be held.\<close>

lemma inv_sync_back: "mode_inv p \<Longrightarrow> mode_inv (sync_back p)"
  unfolding sync_back_def by (rule mode_inv_switch) simp_all

lemma inv_sync_finished: "mode_inv p \<Longrightarrow> mode_inv (sync_finished p)"
proof -
  assume p: "mode_inv p"
  have a: "mode_inv (q\<lparr>avsync_do_aud_track := b\<rparr>) = mode_inv q" "mode_inv (q\<lparr>avsync_do_trick_seek := b\<rparr>) = mode_inv q"
    "mode_inv (q\<lparr>avsync_aud_rollback := b\<rparr>) = mode_inv q" "mode_inv (q\<lparr>av_play_flag := b\<rparr>) = mode_inv q"
    "mode_inv (q\<lparr>normal_sync_done := b\<rparr>) = mode_inv q" "mode_inv (SYNC_UpLoadEvent e q) = mode_inv q" for q b e
    by (simp_all add: mode_inv_def SYNC_UpLoadEvent_def)
  show ?thesis unfolding sync_finished_def Let_def using p by (simp add: a inv_sync_back)
qed

definition audio_ok :: "avsync_priv \<times> avsync_flag \<Rightarrow> bool" where
  "audio_ok r \<longleftrightarrow> mode_inv (fst r) \<and> (aud_pause_on (fst r) \<or> snd r = AVSYNC_FRAME_PLAY \<or> snd r = AVSYNC_FRAME_FREE)"

definition video_ok :: "avsync_priv \<times> avsync_flag \<Rightarrow> bool" where
  "video_ok r \<longleftrightarrow> mode_inv (fst r) \<and> (vid_pause_on (fst r) \<or> snd r = AVSYNC_FRAME_PLAY \<or> snd r = AVSYNC_FRAME_FREE)"

lemma skip_pause:
  "mode_inv p \<Longrightarrow> aud_skip_on p = aud_pause_on p" "mode_inv p \<Longrightarrow> vid_skip_on p = vid_pause_on p"
  by (cases "avsync_sync_mode p"; simp add: mode_inv_def)+

lemma view_unsynced [view_simps]:
  "mode_view (audio_unsynced p) = mode_view p" "mode_view (video_unsynced p) = mode_view p"
  by (simp_all add: mode_view_def audio_unsynced_def video_unsynced_def Let_def avsync_audio_sync_status_reset_def
    avsync_video_sync_status_reset_def)

lemma audio_check_ok:
  assumes "mode_inv p" "f \<noteq> AVSYNC_FRAME_SKIP_AOUT"
  shows "audio_ok (avsync_audio_check_sync_flag f p)"
proof -
  have u: "mode_inv (audio_unsynced p)" using view_unsynced(1) assms(1) by (rule mode_view_inv)
  have a: "mode_inv (p\<lparr>a_unsynced_cnt := x, a_synced_flag := b\<rparr>)" "mode_inv (p\<lparr>a_synced_flag := b\<rparr>)"
    "mode_inv (p\<lparr>a_unsynced_cnt := x, a_synced_flag := b, av_synced_flag := c, disp_flag := d\<rparr>)"
    "mode_inv (p\<lparr>a_synced_flag := b, av_synced_flag := c, disp_flag := d\<rparr>)"
    "mode_inv (p\<lparr>avsync_do_aud_track := b\<rparr>)" for x b c d using assms(1) by (simp_all add: mode_inv_def)
  show ?thesis using assms u skip_pause(1) [OF assms(1)]
    by (cases f) (auto simp: audio_ok_def avsync_audio_play_check_def avsync_audio_pause_check_def avsync_audio_skip_check_def
      avsync_audio_free_check_def Let_def intro!: inv_sync_finished inv_sync_back a)
qed

lemma view_slow [view_simps]: "mode_view (fst (avsync_video_pause_slow_sync_check p)) = mode_view p"
  by (simp add: avsync_video_pause_slow_sync_check_def slow_step_def mode_view_def Let_def split: option.split)

lemma video_check_ok:
  assumes "mode_inv p" "f \<noteq> AVSYNC_FRAME_SKIP_AOUT"
  shows "video_ok (avsync_video_check_sync_flag f p)"
proof -
  have u: "mode_inv (video_unsynced p)" "mode_inv (fst (avsync_video_pause_slow_sync_check p))"
    using mode_view_inv [OF view_unsynced(2) assms(1)] mode_view_inv [OF view_slow assms(1)] by simp_all
  have s: "vid_pause_on (fst (avsync_video_pause_slow_sync_check p)) = vid_pause_on p"
    using view_slow [of p] by (simp add: mode_view_def)
  have a: "mode_inv (p\<lparr>v_unsynced_cnt := x, v_synced_flag := b\<rparr>)" "mode_inv (p\<lparr>v_synced_flag := b\<rparr>)"
    "mode_inv (p\<lparr>v_unsynced_cnt := x, v_synced_flag := b, av_synced_flag := c, disp_flag := d, slow_sync_cnt := y\<rparr>)"
    "mode_inv (p\<lparr>v_synced_flag := b, av_synced_flag := c, disp_flag := d, slow_sync_cnt := y\<rparr>)" for x y b c d
    using assms(1) by (simp_all add: mode_inv_def)
  show ?thesis using assms u s skip_pause(2) [OF assms(1)]
    by (cases f) (auto simp: video_ok_def avsync_video_play_check_def avsync_video_pause_check_def avsync_video_skip_check_def
      avsync_video_free_check_def Let_def intro!: inv_sync_finished a)
qed

lemma audio_ref_ok: "mode_inv p \<Longrightarrow> audio_ok (avsync_audio_get_ref_sync_flag a r p)"
  unfolding avsync_audio_get_ref_sync_flag_def by (rule audio_check_ok) (auto simp: judge_def Let_def)

lemma video_ref_ok: "mode_inv p \<Longrightarrow> video_ok (avsync_video_get_ref_sync_flag r v p)"
  unfolding avsync_video_get_ref_sync_flag_def by (rule video_check_ok) (auto simp: judge_def Let_def mode_inv_def)

lemma ok_free:
  "mode_inv p \<Longrightarrow> audio_ok (p, AVSYNC_FRAME_FREE)" "mode_inv p \<Longrightarrow> video_ok (p, AVSYNC_FRAME_FREE)"
  by (simp_all add: audio_ok_def video_ok_def)

lemma inv_cur_stc: "mode_inv (p\<lparr>cur_stc := x\<rparr>) = mode_inv p" "mode_inv (p\<lparr>cur_stc := x, vsync_diff := y\<rparr>) = mode_inv p"
  by (simp_all add: mode_inv_def)

lemma view_probe [view_simps]: "mode_view (fst (pcr_probe t p)) = mode_view p"
  by (simp add: pcr_probe_def mode_view_def)

lemma judge_pcr_cases: "judge_pcr a b t s \<noteq> AVSYNC_FRAME_SKIP_AOUT"
  by (simp add: judge_pcr_def Let_def)

lemma pcr_mode_pause:
  assumes "mode_inv p" "avsync_sync_mode p = AVSYNC_REF_PCR_MODE"
  shows "mode_inv (fst (pcr_probe t p))" "aud_pause_on (fst (pcr_probe t p))" "vid_pause_on (fst (pcr_probe t p))"
  using view_probe [of t p] mode_view_inv [OF view_probe assms(1)] assms by (simp_all add: mode_view_def mode_inv_def)

lemma audio_flag_ok: "mode_inv p \<Longrightarrow> audio_ok (avsync_audio_get_sync_flg e p)"
proof -
  assume p: "mode_inv p"
  have av: "audio_ok (avsync_audio_get_av_ref_sync_flg e p)" if "avsync_sync_mode p = AVSYNC_REF_AV_MODE"
    using audio_ref_ok [OF p, of "cur_apts p - en_remain e" "cur_vpts p"] ok_free(1) [OF p]
    by (auto simp: avsync_audio_get_av_ref_sync_flg_def Let_def audio_ok_def split: prod.split)
  have pcr: "audio_ok (avsync_audio_get_pcr_ref_sync_flg e p)" if m: "avsync_sync_mode p = AVSYNC_REF_PCR_MODE"
  proof -
    note q = pcr_mode_pause [OF p m, of "en_tick e"]
    have w: "audio_ok (fst (pcr_probe (en_tick e) p), AVSYNC_FRAME_PAUSE)" using q by (simp add: audio_ok_def)
    show ?thesis using p q w unfolding avsync_audio_get_pcr_ref_sync_flg_def Let_def split_beta
      by (auto simp: ok_free inv_cur_stc judge_pcr_cases intro!: audio_check_ok)
  qed
  show ?thesis using p av pcr
    by (auto simp: avsync_audio_get_sync_flg_def avsync_audio_get_aud_ref_sync_flg_def avsync_audio_get_vid_ref_sync_flg_def
      ok_free inv_cur_stc intro!: audio_ref_ok split: avsync_sync_mode_e.split)
qed

lemma video_flag_ok: "mode_inv p \<Longrightarrow> video_ok (avsync_video_get_sync_flg e p)"
proof -
  assume p: "mode_inv p"
  have pcr: "video_ok (avsync_video_get_pcr_ref_sync_flg e p)" if m: "avsync_sync_mode p = AVSYNC_REF_PCR_MODE"
  proof -
    note q = pcr_mode_pause [OF p m, of "en_tick e"]
    have w: "video_ok (fst (pcr_probe (en_tick e) p), AVSYNC_FRAME_PAUSE)" using q by (simp add: video_ok_def)
    show ?thesis using p q w unfolding avsync_video_get_pcr_ref_sync_flg_def Let_def split_beta
      by (auto simp: ok_free inv_cur_stc judge_pcr_cases intro!: video_check_ok)
  qed
  show ?thesis using p pcr
    by (auto simp: avsync_video_get_sync_flg_def avsync_video_get_aud_ref_sync_flg_def avsync_video_get_vid_ref_sync_flg_def
      avsync_video_get_av_ref_sync_flg_def ok_free inv_cur_stc intro!: video_ref_ok split: avsync_sync_mode_e.split)
qed

lemma audio_do_sync_ok:
  assumes "mode_inv p" "avsync_audio_do_sync e p = Some (q, f, r)"
  shows "audio_ok (q, f)"
proof -
  have a: "mode_inv (p\<lparr>a_synced_flag := True\<rparr>)" "mode_inv (p\<lparr>audio_track_set_av_mode_flag := False\<rparr>)"
    using assms(1) by (simp_all add: mode_inv_def)
  have s: "mode_inv (switch_mode AVSYNC_REF_AV_MODE (p\<lparr>audio_track_set_av_mode_flag := False\<rparr>))"
    using a(2) by (rule mode_inv_switch) simp
  show ?thesis using assms a(1) ok_free audio_flag_ok [OF assms(1), of e] audio_flag_ok [OF s, of e]
    by (auto simp: avsync_audio_do_sync_def Let_def split: if_splits prod.splits)
qed

lemma video_do_sync_ok:
  assumes "mode_inv p" "avsync_video_do_sync e p = Some (q, f, r)"
  shows "video_ok (q, f)"
proof -
  have "mode_inv (p\<lparr>v_synced_flag := True\<rparr>)" using assms(1) by (simp add: mode_inv_def)
  then show ?thesis using assms ok_free video_flag_ok [OF assms(1), of e]
    by (auto simp: avsync_video_do_sync_def Let_def split: if_splits prod.splits)
qed

lemma view_pts_checks [view_simps]:
  "mode_view (avsync_aduio_pts_stable_check p) = mode_view p" "mode_view (avsync_video_pts_stable_check p) = mode_view p"
  "mode_view (SYNC_UpLoadEvent ev p) = mode_view p" "mode_view (bypass_adjust p) = mode_view p"
  "mode_view (avsync_video_pts_correct pts i p) = mode_view p"
  by (simp_all add: mode_view_def avsync_aduio_pts_stable_check_def avsync_video_pts_stable_check_def SYNC_UpLoadEvent_def
    bypass_adjust_def avsync_video_pts_correct_def Let_def)

lemma view_video_event [view_simps]: "mode_view (avsync_video_pts_event_check p) = mode_view p"
  by (simp add: avsync_video_pts_event_check_def Let_def view_pts_checks)

lemma view_video_check [view_simps]: "mode_view (avsync_video_pts_check p) = mode_view p"
proof -
  have "mode_view (q\<lparr>vid := v\<rparr>) = mode_view q" for q v by (simp add: mode_view_def)
  then show ?thesis by (simp add: avsync_video_pts_check_def Let_def view_video_event view_pts_checks)
qed

lemma view_video_get [view_simps]: "mode_view (fst (avsync_video_pts_get r p)) = mode_view p"
proof -
  have "mode_view (q\<lparr>vid := v\<rparr>) = mode_view q" "mode_view (q\<lparr>vid := v, screen_mode := m, vpts_step := s, end_of_stream_flag := b\<rparr>) = mode_view q"
    for q v m s b by (simp_all add: mode_view_def)
  then show ?thesis by (simp add: avsync_video_pts_get_def Let_def view_pts_checks split: option.split)
qed

lemma inv_status_reset:
  "mode_inv (avsync_audio_sync_status_reset p) = mode_inv p" "mode_inv (avsync_video_sync_status_reset p) = mode_inv p"
  "mode_inv (fst (avsync_audio_init p)) = mode_inv p" "mode_inv (fst (avsync_video_init p)) = mode_inv p"
  "mode_inv (fst (avsync_audio_deinit p)) = mode_inv p" "mode_inv (fst (avsync_video_deinit p)) = mode_inv p"
  "mode_inv (fst (avsync_set_slow_sync_policy b p)) = mode_inv p" "mode_inv (avsync_get_current_psync b p) = mode_inv p"
  by (simp_all add: mode_inv_def avsync_audio_sync_status_reset_def avsync_video_sync_status_reset_def avsync_audio_init_def
    avsync_video_init_def avsync_audio_deinit_def avsync_video_deinit_def avsync_set_slow_sync_policy_def avsync_get_current_psync_def)

lemma inv_rollback_event:
  assumes "mode_inv p"
  shows "mode_inv (avsync_aduio_pts_rollback_event live p)"
proof -
  let ?i = "avsync_video_sync_status_reset (avsync_audio_sync_status_reset (fst (avsync_audio_init p)))"
  let ?r = "avsync_video_sync_status_reset (avsync_audio_sync_status_reset p)"
  have "mode_inv ?i" using assms by (simp only: inv_status_reset)
  then have i: "mode_inv (?i\<lparr>vid_dolby_ply_cnt := 0, atoms_looped := True\<rparr>)" by (simp add: mode_inv_def)
  have "mode_inv ?r" using assms by (simp only: inv_status_reset)
  then have "mode_inv (switch_mode AVSYNC_REF_AV_MODE ?r)" by (rule mode_inv_switch) simp
  then show ?thesis unfolding avsync_aduio_pts_rollback_event_def using i assms by (simp only: split: if_split) simp
qed

lemma inv_audio_check: "mode_inv p \<Longrightarrow> mode_inv (avsync_aduio_pts_check live p)"
proof -
  assume p: "mode_inv p"
  have u: "mode_inv (SYNC_UpLoadEvent ev q) = mode_inv q" "mode_inv (q\<lparr>avsync_aud_rollback := True\<rparr>) = mode_inv q"
    "mode_inv (q\<lparr>last_apts := x, last_apts_id := y\<rparr>) = mode_inv q" for ev q x y
    by (simp_all add: mode_inv_def SYNC_UpLoadEvent_def)
  have "mode_inv (avsync_aduio_pts_event_check live p)"
    using p by (auto simp: avsync_aduio_pts_event_check_def Let_def u intro!: inv_rollback_event)
  from mode_view_inv [OF view_pts_checks(1) this] show ?thesis by (simp add: avsync_aduio_pts_check_def Let_def u)
qed

lemma audio_loop_ok:
  assumes "mode_inv p" "avsync_audio_loop e x p = Some (q, f)"
  shows "audio_ok (q, f)"
proof -
  define p1 where "p1 = p\<lparr>audio_bypass := af_bypass x, cur_apts := af_pts x, cur_apts_id := af_id x, apts_step := af_step x,
    aud := (aud p)\<lparr>aud_push_cnt := aud_push_cnt (aud p) + 1\<rparr>\<rparr>"
  define p2 where "p2 = avsync_aduio_pts_check (en_live e) (bypass_adjust p1)"
  have "mode_inv p1" using assms(1) by (simp add: mode_inv_def p1_def)
  from inv_audio_check [OF mode_view_inv [OF view_pts_checks(4) this]] have p2: "mode_inv p2" by (simp add: p2_def)
  obtain p3 g r where d: "avsync_audio_do_sync e p2 = Some (p3, g, r)"
    using assms(2) unfolding avsync_audio_loop_def Let_def p1_def [symmetric] p2_def [symmetric]
    by (auto split: if_splits option.splits)
  note k = audio_do_sync_ok [OF p2 d]
  define p4 where "p4 = p3\<lparr>aud := aud_count g (aud p3)\<rparr>"
  define p5 where "p5 = (if g = AVSYNC_FRAME_PLAY \<or> g = AVSYNC_FRAME_FREE
    then fst (avsync_audio_push_pts (cur_apts p4) (cur_apts_id p4) (apts_step p4) p4) else p4)"
  have q: "q = (if audio_bypass p5 \<and> astabled_flag p5 \<and> avsync_sync_mode p5 = AVSYNC_REF_AUDIO_MODE
      then (fst (avsync_stc_adjust_by_apts (en_stc e) \<lparr>nd_pts = cur_apts p5, nd_id = 0, nd_step = apts_step p5\<rparr> p5))
             \<lparr>audio_bypass_last_apts := cur_apts p5\<rparr> else p5)" and f: "f = g"
    using assms(2) d unfolding avsync_audio_loop_def Let_def p1_def [symmetric] p2_def [symmetric]
    by (auto simp: p5_def p4_def split: if_splits)
  have "mode_view p4 = mode_view p3" by (simp add: p4_def mode_view_def)
  moreover have "mode_view p5 = mode_view p4" by (simp add: p5_def view_simps)
  moreover have b: "mode_view (s\<lparr>audio_bypass_last_apts := v\<rparr>) = mode_view s" for s v by (simp add: mode_view_def)
  moreover have "mode_view q = mode_view p5" unfolding q by (simp add: b view_simps)
  ultimately have v: "mode_view q = mode_view p3" by simp
  moreover have "aud_pause_on q = aud_pause_on p3" using v by (simp add: mode_view_def)
  ultimately show ?thesis using k f mode_view_inv [OF v] by (simp add: audio_ok_def)
qed

lemma video_loop_ok:
  assumes "mode_inv p" "avsync_video_loop e r p = Some (q, g)"
  shows "mode_inv q \<and> (case g of None \<Rightarrow> True | Some f \<Rightarrow> video_ok (q, f))"
proof -
  define p1 where "p1 = fst (avsync_video_pts_get r p)"
  have p1: "mode_inv p1" using mode_view_inv [OF view_video_get assms(1)] by (simp add: p1_def)
  then have p2: "mode_inv (avsync_video_pts_check p1)" using mode_view_inv [OF view_video_check] by blast
  show ?thesis
  proof (cases "snd (avsync_video_pts_get r p)")
    case MT_FAILURE
    then have "q = p1 \<and> g = None" using assms(2) by (auto simp: avsync_video_loop_def p1_def split: prod.splits)
    then show ?thesis using p1 by simp
  next
    case MT_SUCCESS
    then have get: "avsync_video_pts_get r p = (p1, MT_SUCCESS)" by (simp add: p1_def prod_eq_iff)
    obtain p3 f s where d: "avsync_video_do_sync e (avsync_video_pts_check p1) = Some (p3, f, s)"
      using assms(2) unfolding avsync_video_loop_def get by (auto split: option.splits)
    note k = video_do_sync_ok [OF p2 d]
    define p4 where "p4 = p3\<lparr>vid := vid_count f (avsync_video_pts_repeat_check p3) (vid p3)\<rparr>"
    have q: "q = (let p = if vstabled_flag p4 \<and> avsync_sync_mode p4 = AVSYNC_REF_VIDEO_MODE
        then fst (avsync_stc_adjust_by_vpts (en_stc e) p4) else p4 in p\<lparr>last_vpts := cur_vpts p, last_vpts_id := cur_vpts_id p\<rparr>)"
      and g: "g = Some f"
      using assms(2) unfolding avsync_video_loop_def get by (auto simp: d p4_def Let_def)
    have l: "mode_view (u\<lparr>last_vpts := x, last_vpts_id := y\<rparr>) = mode_view u" for u x y by (simp add: mode_view_def)
    have "mode_view p4 = mode_view p3" by (simp add: p4_def mode_view_def)
    then have v: "mode_view q = mode_view p3" unfolding q by (simp add: Let_def l view_simps)
    then have "vid_pause_on q = vid_pause_on p3" by (simp add: mode_view_def)
    then show ?thesis using k g mode_view_inv [OF v] by (simp add: video_ok_def)
  qed
qed

lemma inv_config_mode: "mode_inv p \<Longrightarrow> m \<noteq> AVSYNC_REF_AV_MODE \<Longrightarrow> mode_inv (config_mode m p)"
  by (cases m) (simp_all add: config_mode_def switch_mode_def set_on_def mode_inv_def)

lemma inv_reference: "mode_inv p \<Longrightarrow> mode_inv (fst (SYNC_reference_config s p))"
  by (cases s) (simp_all add: inv_config_mode)

lemma inv_default_cfg: "mode_inv p \<Longrightarrow> mode_inv (avsync_module_default_cfg p)"
  unfolding avsync_module_default_cfg_def by (rule mode_inv_switch) (simp_all add: mode_inv_def)

lemma inv_module_init: "mode_inv avsync_module_init"
proof -
  have "mode_inv (avsync_private_reset avsync_zero)"
    by (simp add: mode_inv_def avsync_private_reset_def avsync_zero_def)
  then show ?thesis unfolding avsync_module_init_def by (rule inv_default_cfg)
qed

lemma inv_resets:
  assumes "mode_inv p"
  shows "mode_inv (avsync_audio_do_track p)" "mode_inv (avsync_trick_seek_to_normal p)" "mode_inv (ao_all_skip_avsync_reset p)"
    "mode_inv (avsync_reset stc p)" "mode_inv (avsync_play_info_cfg ddp p)"
proof -
  have a: "mode_inv (q\<lparr>avsync_do_aud_track := b\<rparr>) = mode_inv q" "mode_inv (q\<lparr>avsync_do_trick_seek := b\<rparr>) = mode_inv q"
    "mode_inv (q\<lparr>avsync_do_aud_track := b, audio_track_set_av_mode_flag := c\<rparr>) = mode_inv q"
    "mode_inv (q\<lparr>av_play_flag := b, do_ddp_verf := c\<rparr>) = mode_inv q" for q b c by (simp_all add: mode_inv_def)
  have s: "mode_inv q \<Longrightarrow> m \<noteq> AVSYNC_REF_PCR_MODE \<Longrightarrow> mode_inv (switch_mode m q)" for q m by (rule mode_inv_switch) simp_all
  show "mode_inv (avsync_audio_do_track p)" using assms by (simp add: avsync_audio_do_track_def a s)
  show "mode_inv (avsync_trick_seek_to_normal p)" using assms by (simp add: avsync_trick_seek_to_normal_def a s)
  show "mode_inv (ao_all_skip_avsync_reset p)" using assms by (simp add: ao_all_skip_avsync_reset_def s inv_status_reset)
  show "mode_inv (avsync_reset stc p)" using assms mode_view_inv [OF view_adjust_vpts]
    by (simp add: avsync_reset_def Let_def s inv_status_reset)
  show "mode_inv (avsync_play_info_cfg ddp p)" using assms by (simp add: avsync_play_info_cfg_def a inv_default_cfg)
qed

lemma step_inv: "av_step p q \<Longrightarrow> mode_inv p \<Longrightarrow> mode_inv q"
proof (induction rule: av_step.induct)
  case (isr p sta tick tick' ms stc vpts apts c) then show ?case by (rule inv_handle_isr)
next
  case (audio e x p q f) then show ?case using audio_loop_ok by (auto simp: audio_ok_def)
next
  case (video e r p q g) then show ?case using video_loop_ok by blast
qed (simp_all only: inv_status_reset inv_resets inv_reference)

lemma reach_inv: "av_reach p \<Longrightarrow> mode_inv p"
  by (induction rule: av_reach.induct) (simp_all add: inv_module_init step_inv)

section \<open>Properties of the modes\<close>

text \<open>
  C14. Whatever the order of interrupts, frames, changes of the reference, tracks, seeks and resets, the switches fit
  the mode: exactly the streams that are not the master may be paused or skipped, and the program clock is the reference only when
  the user asked for it.
\<close>
theorem avsync_switches_fit_mode:
  assumes "av_reach p"
  shows "(aud_pause_on p, vid_pause_on p) = mode_switches (avsync_sync_mode p)
    \<and> (aud_skip_on p, vid_skip_on p) = mode_switches (avsync_sync_mode p)
    \<and> (avsync_sync_mode p = AVSYNC_REF_PCR_MODE \<longrightarrow> cfg_sync_mode p = AVSYNC_REF_PCR_MODE)"
  using reach_inv [OF assms] by (simp add: mode_inv_def)

text \<open>
  C39. The master is never disturbed: in every state the driver can be in, an audio frame is not paused or skipped while the audio
  is the master, nor a video frame while the video is, and none of them while there is no reference.
\<close>
theorem avsync_master_not_held:
  assumes "av_reach p"
    and "avsync_audio_loop e x p = Some (q, f) \<and> avsync_sync_mode q \<in> {AVSYNC_REF_AUDIO_MODE, AVSYNC_REF_NONE_MODE}
      \<or> avsync_video_loop e r p = Some (q, Some f) \<and> avsync_sync_mode q \<in> {AVSYNC_REF_VIDEO_MODE, AVSYNC_REF_NONE_MODE}"
  shows "f = AVSYNC_FRAME_PLAY \<or> f = AVSYNC_FRAME_FREE"
proof -
  have p: "mode_inv p" using assms(1) by (rule reach_inv)
  show ?thesis using assms(2) audio_loop_ok [OF p, of e x q f] video_loop_ok [OF p, of e r q "Some f"]
    by (auto simp: audio_ok_def video_ok_def mode_inv_def)
qed

lemma avsync_switches_fit_mode_witness:
  "let p = fst (SYNC_reference_config MT_UNF_SYNC_REF_AUDIO avsync_module_init)
   in (aud_pause_on p, vid_pause_on p) = mode_switches (avsync_sync_mode p) \<and> avsync_sync_mode p = AVSYNC_REF_AUDIO_MODE"
proof -
  define p where "p = fst (SYNC_reference_config MT_UNF_SYNC_REF_AUDIO avsync_module_init)"
  have "av_reach p" unfolding p_def by (rule av_reach.step [OF av_reach.start av_step.reference])
  moreover have "avsync_sync_mode p = AVSYNC_REF_AUDIO_MODE" by (simp add: p_def config_mode_def switch_mode_def)
  ultimately show ?thesis using avsync_switches_fit_mode [of p] by (simp add: Let_def p_def)
qed

lemma avsync_master_not_held_witness:
  "let p = fst (avsync_audio_init (fst (SYNC_reference_config MT_UNF_SYNC_REF_AUDIO avsync_module_init)));
       e = \<lparr>en_stc = 0, en_stc_track = 0, en_remain = 0, en_tick = 0, en_live = False\<rparr>;
       x = \<lparr>af_pts = 45000, af_id = 1, af_step = 1080, af_bypass = False\<rparr>
   in case avsync_audio_loop e x p of None \<Rightarrow> False | Some (q, f) \<Rightarrow> f = AVSYNC_FRAME_PLAY \<or> f = AVSYNC_FRAME_FREE"
proof -
  define p where "p = fst (avsync_audio_init (fst (SYNC_reference_config MT_UNF_SYNC_REF_AUDIO avsync_module_init)))"
  define e where "e = \<lparr>en_stc = 0 :: u32, en_stc_track = 0 :: u32, en_remain = 0 :: u32, en_tick = 0 :: u32, en_live = False\<rparr>"
  define x where "x = \<lparr>af_pts = 45000 :: u32, af_id = 1 :: u32, af_step = 1080 :: u32, af_bypass = False\<rparr>"
  have r: "av_reach p" unfolding p_def
    by (rule av_reach.step [OF av_reach.step [OF av_reach.start av_step.reference] av_step.audio_init])
  have "case avsync_audio_loop e x p of None \<Rightarrow> False | Some (q, f) \<Rightarrow> avsync_sync_mode q = AVSYNC_REF_AUDIO_MODE"
    unfolding e_def x_def p_def by code_simp
  then obtain q f where q: "avsync_audio_loop e x p = Some (q, f)" "avsync_sync_mode q = AVSYNC_REF_AUDIO_MODE"
    by (auto split: option.splits)
  show ?thesis using avsync_master_not_held [OF r, of e x q f] q
    unfolding p_def [symmetric] e_def [symmetric] x_def [symmetric] by (simp add: Let_def)
qed

end
