(* ===== verification/AvStart.thy ===== *)
theory AvStart
  imports AvSync
begin

text \<open>
  Sync gained and lost over many frames: how a stream in sync loses it, how a start goes wrong, and how slow sync brings an early video
  to the counter.
\<close>

section \<open>Properties of the judgement\<close>

definition out_of_window :: "u32 \<times> u32 \<Rightarrow> bool" where
  "out_of_window x = (dist (fst x) (snd x) > 120 * 45)"

definition video_judged :: "(u32 \<times> u32) list \<Rightarrow> avsync_priv \<Rightarrow> avsync_priv" where
  "video_judged xs p = foldl (\<lambda>p x. fst (avsync_video_get_ref_sync_flag (fst x) (snd x) p)) p xs"

lemma judge_dist:
  "judge w early t r = (if dist r t \<le> unat w then AVSYNC_FRAME_PLAY
     else if dist r t \<le> 405000 then (if t \<ge> r then early else AVSYNC_FRAME_SKIP) else AVSYNC_FRAME_FREE)"
proof -
  have "unat (if t \<ge> r then t - r else r - t) = dist r t"
    by (auto simp: dist_def unat_sub word_le_nat_alt not_le less_imp_le)
  then show ?thesis unfolding judge_def Let_def by (simp only: word_le_nat_alt) (simp add: sync_consts word_le_nat_alt)
qed

lemma synced_step:
  assumes "v_synced_flag p" "unat (v_unsynced_cnt p) \<le> 10"
  shows "let q = fst (avsync_video_get_ref_sync_flag r v p); n = unat (v_unsynced_cnt p) + (if out_of_window (r, v) then 1 else 0)
         in (n \<le> 10 \<longrightarrow> v_synced_flag q \<and> unat (v_unsynced_cnt q) = n) \<and> (n > 10 \<longrightarrow> \<not> v_synced_flag q \<and> \<not> av_synced_flag q)"
proof -
  have c: "unat (v_unsynced_cnt p + 1) = unat (v_unsynced_cnt p) + 1" using assms(2) by (simp add: unat_word_ariths)
  have f: "v_synced_flag (sync_finished q) = v_synced_flag q" "v_unsynced_cnt (sync_finished q) = v_unsynced_cnt q" for q
  proof -
    have m: "v_synced_flag (switch_mode m q) = v_synced_flag q" "v_unsynced_cnt (switch_mode m q) = v_unsynced_cnt q" for m q
      by (cases m; simp add: switch_mode_def set_on_def)+
    show "v_synced_flag (sync_finished q) = v_synced_flag q" "v_unsynced_cnt (sync_finished q) = v_unsynced_cnt q"
      by (simp_all add: sync_finished_def sync_back_def SYNC_UpLoadEvent_def m Let_def)
  qed
  have u: "unat (v_unsynced_cnt p) + 1 \<le> 10 \<Longrightarrow> v_synced_flag (video_unsynced (p\<lparr>vsync_diff := d\<rparr>))
        \<and> unat (v_unsynced_cnt (video_unsynced (p\<lparr>vsync_diff := d\<rparr>))) = unat (v_unsynced_cnt p) + 1"
    "unat (v_unsynced_cnt p) + 1 > 10 \<Longrightarrow> \<not> v_synced_flag (video_unsynced (p\<lparr>vsync_diff := d\<rparr>))
        \<and> \<not> av_synced_flag (video_unsynced (p\<lparr>vsync_diff := d\<rparr>))" for d
    using assms(1) c by (simp_all add: video_unsynced_def Let_def sync_consts word_less_nat_alt avsync_video_sync_status_reset_def)
  show ?thesis
  proof (cases "out_of_window (r, v)")
    case True
    then have j: "judge (v_thr p) AVSYNC_FRAME_PAUSE v r \<in> {AVSYNC_FRAME_PAUSE, AVSYNC_FRAME_SKIP, AVSYNC_FRAME_FREE}"
      using assms(1) by (simp add: judge_dist out_of_window_def v_thr_def)
    then have "fst (avsync_video_get_ref_sync_flag r v p) = video_unsynced (p\<lparr>vsync_diff := abs32 (v - r)\<rparr>)"
      using assms(1) by (auto simp: avsync_video_get_ref_sync_flag_def avsync_video_pause_check_def avsync_video_skip_check_def
        avsync_video_free_check_def)
    then show ?thesis using True u [of "abs32 (v - r)"] by (simp add: Let_def)
  next
    case False
    then have "judge (v_thr p) AVSYNC_FRAME_PAUSE v r = AVSYNC_FRAME_PLAY"
      using assms(1) by (simp add: judge_dist out_of_window_def v_thr_def)
    then show ?thesis using False assms by (simp add: avsync_video_get_ref_sync_flag_def avsync_video_play_check_def Let_def f)
  qed
qed

text \<open>
  C11. A stream in sync loses it only by frames out of the window of 120 milliseconds, and by the eleventh of them, however many
  frames in the window are between them: the count is not taken back by a good frame.
\<close>
theorem avsync_sync_lost:
  assumes "v_synced_flag p" "v_unsynced_cnt p = 0" "length (filter out_of_window xs) \<le> 10"
  shows "v_synced_flag (video_judged xs p) \<and> unat (v_unsynced_cnt (video_judged xs p)) = length (filter out_of_window xs)
    \<and> (length (filter out_of_window xs) = 10 \<and> out_of_window x \<longrightarrow> \<not> v_synced_flag (video_judged (xs @ [x]) p))"
proof -
  have i: "v_synced_flag (video_judged xs p) \<and> unat (v_unsynced_cnt (video_judged xs p)) = length (filter out_of_window xs)"
    using assms(3)
  proof (induction xs rule: rev_induct)
    case Nil
    then show ?case using assms(1,2) by (simp add: video_judged_def)
  next
    case (snoc x xs)
    then have "v_synced_flag (video_judged xs p)" "unat (v_unsynced_cnt (video_judged xs p)) = length (filter out_of_window xs)"
      by (auto split: if_splits)
    with synced_step [of "video_judged xs p" "fst x" "snd x"] snoc.prems show ?case
      by (auto simp: video_judged_def Let_def split: if_splits)
  qed
  with synced_step [of "video_judged xs p" "fst x" "snd x"] show ?thesis
    by (auto simp: video_judged_def Let_def split: if_splits)
qed

section \<open>A start\<close>

text \<open>
  C15. The wait of three seconds for a first reference is lost when the audio starts: its start clears the time the first parsed
  time was seen instead of marking it unknown, so with a counter beyond three seconds the first parsed time already makes the
  audio the master, whatever the user asked for.
\<close>
theorem avsync_start_loses_wait:
  assumes "avsync_sync_mode p = AVSYNC_REF_PCR_MODE" "\<not> pcr_got (pcr p)" "3000000 \<le> t" "t \<noteq> 0xffffffffffffffff"
  shows "avsync_sync_mode (avsync_audio_pts_parsed_isr t t' a (fst (avsync_audio_init p))) = AVSYNC_REF_AUDIO_MODE
    \<and> avsync_sync_mode (avsync_audio_pts_parsed_isr t t' a (p\<lparr>first_parsed_tick := 0xffffffffffffffff\<rparr>)) = AVSYNC_REF_PCR_MODE"
  using assms by (simp add: avsync_audio_pts_parsed_isr_def avsync_audio_init_def avsync_pcr_switch_to_audio_master_def
    switch_mode_def set_on_def Let_def)

section \<open>Slow sync\<close>

text \<open>
  The display during the start of a stream: the counter advances by the time of a frame with every frame shown, and the next frame of
  the video is shown exactly when the last one was not paused.
\<close>

fun video_rounds :: "nat \<Rightarrow> u32 \<Rightarrow> u32 \<Rightarrow> u32 \<Rightarrow> avsync_priv \<Rightarrow> avsync_priv" where
  "video_rounds 0 d v s p = p"
| "video_rounds (Suc n) d v s p =
     (let (q, f) = avsync_video_get_ref_sync_flag s v p
      in video_rounds n d (if f = AVSYNC_FRAME_PAUSE then v else v + d) (s + d) q)"

definition slow_start :: "avsync_priv \<Rightarrow> bool" where
  "slow_start p \<longleftrightarrow> \<not> v_synced_flag p \<and> vid_pause_on p \<and> slow_sync_en p \<and> avsync_sync_mode p \<noteq> AVSYNC_REF_AV_MODE
     \<and> screen_mode p \<noteq> None"

lemma abs32_small: "r \<le> v \<Longrightarrow> unat (v - r) \<le> 400 * 45 \<Longrightarrow> abs32 (v - r) \<le> AVSYNC_SLOW_SYNC_PTS_DIFF"
proof -
  assume a: "r \<le> v" "unat (v - r) \<le> 400 * 45"
  have u: "uint (v - r) \<le> 18000" unfolding uint_nat using a(2) by linarith
  then have "sint (v - r) = uint (v - r)"
    using order_trans [OF _ uint_ge_0] by (simp add: sint_uint) (rule signed_take_bit_int_eq_self; simp add: order_trans [OF _ uint_ge_0])
  then have "\<not> sint (v - r) < 0" by simp
  then show ?thesis using a(2) by (simp add: abs32_def sync_consts word_le_nat_alt)
qed

lemma slow_round:
  assumes "slow_start p" "s \<le> v" "60 * 45 < unat (v - s)" "unat (v - s) \<le> 400 * 45"
  shows "let (q, f) = avsync_video_get_ref_sync_flag s v p
    in slow_start q \<and> slow_sync_cnt q = slow_sync_cnt p + 1
       \<and> f = (if slow_sync_cnt p mod 3 < 2 then AVSYNC_FRAME_PAUSE else AVSYNC_FRAME_PLAY)"
proof -
  have d: "dist s v = unat (v - s)" using assms(2) by (simp add: dist_def unat_sub word_le_nat_alt)
  have "judge (v_thr p) AVSYNC_FRAME_PAUSE v s = AVSYNC_FRAME_PAUSE"
    using assms by (simp add: judge_dist d v_thr_def slow_start_def)
  then show ?thesis
    using assms(1) abs32_small [OF assms(2,4)]
    by (auto simp: avsync_video_get_ref_sync_flag_def avsync_video_pause_check_def avsync_video_pause_slow_sync_check_def
      slow_start_def slow_step_def Let_def)
qed

lemma in_window_syncs:
  assumes "s \<le> v" "unat (v - s) \<le> 60 * 45"
  shows "v_synced_flag (fst (avsync_video_get_ref_sync_flag s v p))"
proof -
  have m: "v_synced_flag (switch_mode m q) = v_synced_flag q" for m q by (cases m; simp add: switch_mode_def set_on_def)
  have f: "v_synced_flag (sync_finished q) = v_synced_flag q" for q
    by (simp add: sync_finished_def sync_back_def SYNC_UpLoadEvent_def m Let_def)
  have "dist s v \<le> unat (v_thr p)" using assms by (simp add: dist_def unat_sub word_le_nat_alt v_thr_def)
  then have "judge (v_thr p) AVSYNC_FRAME_PAUSE v s = AVSYNC_FRAME_PLAY" by (simp add: judge_dist)
  then show ?thesis by (simp add: avsync_video_get_ref_sync_flag_def avsync_video_play_check_def f Let_def)
qed

lemma round_words:
  fixes v s d :: u32
  assumes "s \<le> v" "unat (v - s) > 60 * 45" "unat d \<le> 60 * 45" "unat v + unat d < 2 ^ 32"
  shows "s + d \<le> v" "unat (v - (s + d)) = unat (v - s) - unat d" "s + d \<le> v + d" "(v + d) - (s + d) = v - s"
    "unat (v + d) = unat v + unat d"
proof -
  have "unat (v - s) = unat v - unat s" "unat s \<le> unat v" using assms(1) by (simp_all add: unat_sub word_le_nat_alt)
  moreover from this have "unat (s + d) = unat s + unat d" using assms(4) by (subst unat_add_lem [THEN iffD1]) simp_all
  moreover show "unat (v + d) = unat v + unat d" using assms(4) by (subst unat_add_lem [THEN iffD1]) simp_all
  ultimately show "s + d \<le> v" "s + d \<le> v + d" "unat (v - (s + d)) = unat (v - s) - unat d"
    using assms(2,3) by (simp_all add: word_le_nat_alt unat_sub)
  show "(v + d) - (s + d) = v - s" by simp
qed

lemma third_round: "(c :: u32) mod 3 \<ge> 2 \<Longrightarrow> (c + 1) mod 3 < 2"
proof -
  assume "c mod 3 \<ge> 2"
  then have c: "unat c mod 3 = 2" by (simp add: word_le_nat_alt unat_mod)
  have "unat c \<noteq> 2 ^ 32 - 1" using c by auto
  then have "unat (c + 1) = unat c + 1" using u32_less [of c] by (simp add: unat_word_ariths)
  then have "unat (c + 1) mod 3 = 0" using c by presburger
  then show "(c + 1) mod 3 < 2" by (simp add: word_less_nat_alt unat_mod)
qed

lemma slow_sync_rounds:
  assumes "slow_start p" "s \<le> v" "unat (v - s) \<le> 400 * 45" "unat (v - s) \<le> 60 * 45 + k * unat d" "unat d \<le> 60 * 45"
    and "unat v + 2 * (k + 1) * unat d < 2 ^ 32"
  shows "\<exists>n \<le> 2 * k + 1. v_synced_flag (video_rounds n d v s p)"
  using assms
proof (induction k arbitrary: p s v)
  case 0
  then have "v_synced_flag (video_rounds 1 d v s p)" using in_window_syncs [of s v p] by (simp add: split_beta)
  then show ?case by force
next
  case (Suc k)
  show ?case
  proof (cases "unat (v - s) \<le> 60 * 45")
    case True
    then have "v_synced_flag (video_rounds 1 d v s p)" using in_window_syncs [of s v p] Suc.prems(2) by (simp add: split_beta)
    then show ?thesis by force
  next
    case False
    have w: "unat v + unat d < 2 ^ 32" using Suc.prems(6) by simp
    obtain q f where q: "avsync_video_get_ref_sync_flag s v p = (q, f)" by fastforce
    note r = slow_round [OF Suc.prems(1,2) _ Suc.prems(3)] and rw = round_words [OF Suc.prems(2) _ Suc.prems(5) w]
    have r1: "slow_start q" "slow_sync_cnt q = slow_sync_cnt p + 1"
      "f = (if slow_sync_cnt p mod 3 < 2 then AVSYNC_FRAME_PAUSE else AVSYNC_FRAME_PLAY)"
      using r False q by simp_all
    show ?thesis
    proof (cases "slow_sync_cnt p mod 3 < 2")
      case True
      have "\<exists>n \<le> 2 * k + 1. v_synced_flag (video_rounds n d v (s + d) q)"
        using Suc.prems(3-6) rw False by (intro Suc.IH r1(1)) simp_all
      then obtain n where "n \<le> 2 * k + 1" "v_synced_flag (video_rounds n d v (s + d) q)" by blast
      then show ?thesis using q r1(3) True by (intro exI [of _ "Suc n"]) simp
    next
      case F: False
      let ?v = "v + d" and ?s = "s + d"
      obtain q' f' where q': "avsync_video_get_ref_sync_flag ?s ?v q = (q', f')" by fastforce
      have diff: "unat (?v - ?s) = unat (v - s)" "?s \<le> ?v" using rw False by simp_all
      have m: "slow_sync_cnt q mod 3 < 2" using third_round F r1(2) by (simp add: not_less)
      have r2: "slow_start q'" "f' = AVSYNC_FRAME_PAUSE"
        using slow_round [OF r1(1) diff(2)] diff(1) Suc.prems(3) False q' m by simp_all
      have w2: "unat ?v + unat d < 2 ^ 32" using rw(5) False Suc.prems(6) by simp
      have g: "unat (?v - ?s) > 60 * 45" using diff False by simp
      note rw2 = round_words [OF diff(2) g Suc.prems(5) w2]
      have "\<exists>n \<le> 2 * k + 1. v_synced_flag (video_rounds n d ?v (?s + d) q')"
        using Suc.prems(3-6) rw2(1,2) rw(5) diff(1) False by (intro Suc.IH r2(1)) simp_all
      then obtain n where "n \<le> 2 * k + 1" "v_synced_flag (video_rounds n d ?v (?s + d) q')" by blast
      then show ?thesis using q q' r1(3) r2(2) F by (intro exI [of _ "Suc (Suc n)"]) simp
    qed
  qed
qed

text \<open>
  C27. A video that starts early catches up: while it is shown at a third of its speed, a video that is at most 400 milliseconds
  and \<open>k\<close> frames outside the window ahead of the counter is in sync after at most \<open>2 * k + 1\<close> frames of the display.
\<close>
theorem avsync_slow_sync_converges:
  assumes "slow_start p" "s \<le> v" "unat (v - s) \<le> 400 * 45" "unat (v - s) \<le> 60 * 45 + k * unat d" "unat d \<le> 60 * 45"
    and "unat v + 2 * (k + 1) * unat d < 2 ^ 32"
  shows "\<exists>n. n \<le> 2 * k + 1 \<and> v_synced_flag (video_rounds n d v s p)"
  using slow_sync_rounds [OF assms] by blast
lemma avsync_sync_lost_witness:
  "let p = avsync_module_init\<lparr>v_synced_flag := True\<rparr>; xs = replicate 5 (0, 6000) @ (0, 100) # replicate 5 (0, 6000)
   in v_synced_flag (video_judged xs p) \<and> \<not> v_synced_flag (video_judged (xs @ [(0, 6000)]) p)"
proof -
  define p where "p = avsync_module_init\<lparr>v_synced_flag := True\<rparr>"
  have w: "out_of_window (0, 6000)" "\<not> out_of_window (0, 100)" by (simp_all add: out_of_window_def dist_def)
  have "v_synced_flag p" "v_unsynced_cnt p = 0"
    by (simp_all add: p_def avsync_module_init_def avsync_module_default_cfg_def avsync_private_reset_def avsync_zero_def
      switch_mode_def set_on_def)
  from avsync_sync_lost [OF this, of "replicate 5 (0, 6000) @ (0, 100) # replicate 5 (0, 6000)" "(0, 6000)"] w
  show ?thesis by (simp add: p_def [symmetric] Let_def filter_replicate)
qed

lemma avsync_start_loses_wait_witness:
  "avsync_sync_mode (avsync_audio_pts_parsed_isr 3000000 3000000 45000
     (fst (avsync_audio_init (fst (SYNC_reference_config MT_UNF_SYNC_REF_PCR avsync_module_init))))) = AVSYNC_REF_AUDIO_MODE"
  using avsync_start_loses_wait [of "fst (SYNC_reference_config MT_UNF_SYNC_REF_PCR avsync_module_init)" 3000000 3000000 45000]
  by (simp add: config_mode_def switch_mode_def set_on_def avsync_module_init_def avsync_module_default_cfg_def
    avsync_private_reset_def avsync_zero_def)

lemma avsync_slow_sync_converges_witness:
  "let p = (fst (avsync_set_slow_sync_policy True (fst (SYNC_reference_config MT_UNF_SYNC_REF_AUDIO avsync_module_init))))
   in \<exists>n. n \<le> 9 \<and> v_synced_flag (video_rounds n 1800 10000 1000 p)"
proof -
  define p where "p = (fst (avsync_set_slow_sync_policy True (fst (SYNC_reference_config MT_UNF_SYNC_REF_AUDIO avsync_module_init))))"
  have "slow_start p"
    by (simp add: p_def slow_start_def avsync_set_slow_sync_policy_def config_mode_def switch_mode_def set_on_def
      avsync_module_init_def avsync_module_default_cfg_def avsync_private_reset_def avsync_zero_def)
  from avsync_slow_sync_converges [OF this, of 1000 10000 4 1800] show ?thesis unfolding p_def [symmetric] by (simp add: Let_def)
qed

section \<open>The program clock near zero\<close>

text \<open>
  The lower end of the window wraps: a frame whose time is below the pause threshold is paused even when the counter is exactly at its
  time.
\<close>
theorem avsync_pcr_window_wraps:
  assumes "t < a" "t \<le> t + b"
  shows "judge_pcr a b t t = AVSYNC_FRAME_PAUSE"
proof -
  have "\<not> t - a \<le> t" using assms(1) u32_less [of a] by (simp add: word_le_nat_alt word_less_nat_alt unat_sub_if')
  then show ?thesis using assms(2) by (auto simp: judge_pcr_def Let_def sync_consts)
qed

end
