(* ===== verification/SubtPixel.thy ===== *)
theory SubtPixel
  imports MT_Base
begin

text \<open>
  The code strings of DVB subtitle bitmaps (src/kware/subtitle/src/subtitle_parse.c, after
  ETSI EN 300 743, 7.2.5.2): the readers \<open>ReadNext2BitPixel\<close> and \<open>ReadNext4BitPixel\<close>,
  which take a byte of the segment at a time and hold the rest of it in function-local
  statics, and the run-length decoders \<open>Decode2Pixel\<close>, \<open>Decode4Pixel\<close> and
  \<open>Decode8Pixel\<close>. The standard's own coding is stated as \<open>code2\<close>, \<open>code4\<close> and
  \<open>code8\<close>; the interface \<open>pixel_code\<close> is what the block decoder relies on, and the
  three decoders are its instances.

  The segment's bytes are a function of the offset from the start of the block, total because
  the code reads on without a check where a block is cut short. The C leaves the order of the
  reads within one sum open; the model takes them from left to right, as they are written.
\<close>

section \<open>The reader\<close>

text \<open>The caller's cursor (\<open>*ppu8SegmentDataSrc\<close> as an offset, \<open>*pu16ProcessedLen\<close>)
and the statics of the two readers.\<close>

type_synonym seg_data = "nat \<Rightarrow> u8"

definition seg_of :: "u8 list \<Rightarrow> seg_data" where
  "seg_of bs k = (if k < length bs then bs ! k else 0)"

record pixel_reader =
  rd_ptr :: nat
  rd_len :: nat
  rd_get2 :: nat
  rd_temp2 :: u8
  rd_get4 :: nat
  rd_temp4 :: u8

text \<open>\<open>*pp += 1; *pu16ProcessedLen += 1\<close>, the length in 16 bits.\<close>

definition rd_next :: "pixel_reader \<Rightarrow> pixel_reader" where
  "rd_next rd = rd\<lparr>rd_ptr := rd_ptr rd + 1, rd_len := (rd_len rd + 1) mod 65536\<rparr>"

definition ReadNext2BitPixel :: "seg_data \<Rightarrow> bool \<Rightarrow> pixel_reader \<Rightarrow> u8 \<times> pixel_reader" where
  "ReadNext2BitPixel seg reset rd =
     (if reset then (0, if rd_get2 rd \<noteq> 0 then rd\<lparr>rd_get2 := 0\<rparr> else rd)
      else if rd_get2 rd = 0 then
        (drop_bit 6 (seg (rd_ptr rd)),
         rd_next (rd\<lparr>rd_temp2 := seg (rd_ptr rd), rd_get2 := 1\<rparr>))
      else if rd_get2 rd = 1 then (drop_bit 4 (rd_temp2 rd AND 0x30), rd\<lparr>rd_get2 := 2\<rparr>)
      else if rd_get2 rd = 2 then (drop_bit 2 (rd_temp2 rd AND 0x0c), rd\<lparr>rd_get2 := 3\<rparr>)
      else if rd_get2 rd = 3 then (rd_temp2 rd AND 0x03, rd\<lparr>rd_get2 := 0\<rparr>)
      else (0, rd))"

definition ReadNext4BitPixel :: "seg_data \<Rightarrow> bool \<Rightarrow> pixel_reader \<Rightarrow> u8 \<times> pixel_reader" where
  "ReadNext4BitPixel seg reset rd =
     (if reset then (0, if rd_get4 rd \<noteq> 0 then rd\<lparr>rd_get4 := 0\<rparr> else rd)
      else if rd_get4 rd = 0 then
        (drop_bit 4 (seg (rd_ptr rd)),
         rd_next (rd\<lparr>rd_temp4 := seg (rd_ptr rd), rd_get4 := 1\<rparr>))
      else (rd_temp4 rd AND 0x0f, rd\<lparr>rd_get4 := 0\<rparr>))"

text \<open>A plain byte, read by the 8-bit strings, the map tables and the data type.\<close>

definition read_byte :: "seg_data \<Rightarrow> pixel_reader \<Rightarrow> u8 \<times> pixel_reader" where
  "read_byte seg rd = (seg (rd_ptr rd), rd_next rd)"

section \<open>The decoders\<close>

text \<open>Each returns the colour entry, the number of pixels (0 at the end of the string) and
the reader.\<close>

definition Decode2Pixel :: "seg_data \<Rightarrow> pixel_reader \<Rightarrow> u8 \<times> nat \<times> pixel_reader" where
  "Decode2Pixel seg rd =
     (let (c, rd) = ReadNext2BitPixel seg False rd in
      if c \<noteq> 0 then (c, 1, rd)
      else let (c, rd) = ReadNext2BitPixel seg False rd in
      if c = 1 then (0, 1, rd)
      else if c = 2 \<or> c = 3 then
        let (l, rd) = ReadNext2BitPixel seg False rd;
            (e, rd) = ReadNext2BitPixel seg False rd
        in (e, 4 * unat (c AND 1) + unat l + 3, rd)
      else let (c, rd) = ReadNext2BitPixel seg False rd in
      if c = 1 then (0, 2, rd)
      else if c = 2 then
        let (l1, rd) = ReadNext2BitPixel seg False rd;
            (l0, rd) = ReadNext2BitPixel seg False rd;
            (e, rd) = ReadNext2BitPixel seg False rd
        in (e, 4 * unat l1 + unat l0 + 12, rd)
      else if c = 3 then
        let (l3, rd) = ReadNext2BitPixel seg False rd;
            (l2, rd) = ReadNext2BitPixel seg False rd;
            (l1, rd) = ReadNext2BitPixel seg False rd;
            (l0, rd) = ReadNext2BitPixel seg False rd;
            (e, rd) = ReadNext2BitPixel seg False rd
        in (e, 64 * unat l3 + 16 * unat l2 + 4 * unat l1 + unat l0 + 29, rd)
      else (0, 0, rd))"

definition Decode4Pixel :: "seg_data \<Rightarrow> pixel_reader \<Rightarrow> u8 \<times> nat \<times> pixel_reader" where
  "Decode4Pixel seg rd =
     (let (c, rd) = ReadNext4BitPixel seg False rd in
      if 0 < c then (c, 1, rd)
      else let (c, rd) = ReadNext4BitPixel seg False rd in
      if c = 0 then (0, 0, rd)
      else if c \<le> 7 then (0, unat c + 2, rd)
      else if c \<le> 0xb then
        let (e, rd) = ReadNext4BitPixel seg False rd in (e, unat (c AND 3) + 4, rd)
      else if c \<le> 0xd then (0, unat (c AND 3) + 1, rd)
      else if c = 0xe then
        let (l, rd) = ReadNext4BitPixel seg False rd;
            (e, rd) = ReadNext4BitPixel seg False rd
        in (e, unat l + 9, rd)
      else
        let (h, rd) = ReadNext4BitPixel seg False rd;
            (l, rd) = ReadNext4BitPixel seg False rd;
            (e, rd) = ReadNext4BitPixel seg False rd
        in (e, unat (push_bit 4 h AND 0xf0) + unat l + 25, rd))"

definition Decode8Pixel :: "seg_data \<Rightarrow> pixel_reader \<Rightarrow> u8 \<times> nat \<times> pixel_reader" where
  "Decode8Pixel seg rd =
     (let (c, rd) = read_byte seg rd in
      if c \<noteq> 0 then (c, 1, rd)
      else let (c, rd) = read_byte seg rd in
      if c = 0 then (0, 0, rd)
      else if c \<le> 0x7f then (0, unat c, rd)
      else let (e, rd) = read_byte seg rd in (e, unat (c AND 0x7f), rd))"

section \<open>Streams of 2-bit, 4-bit and 8-bit codes\<close>

text \<open>What the readers deliver: the codes of the segment one after another, most
significant bits first.\<close>

definition pair :: "seg_data \<Rightarrow> nat \<Rightarrow> u8" where
  "pair seg k = drop_bit (6 - 2 * (k mod 4)) (seg (k div 4)) AND 3"

definition nib :: "seg_data \<Rightarrow> nat \<Rightarrow> u8" where
  "nib seg k = drop_bit (4 - 4 * (k mod 2)) (seg (k div 2)) AND 15"

text \<open>The reader stands before code \<open>p\<close> of its block, the other reader's static idle.\<close>

definition at2 :: "seg_data \<Rightarrow> nat \<Rightarrow> pixel_reader \<Rightarrow> bool" where
  "at2 seg p rd \<longleftrightarrow> rd_ptr rd = (p + 3) div 4 \<and> rd_len rd = rd_ptr rd mod 65536 \<and>
     rd_get2 rd = p mod 4 \<and> (p mod 4 \<noteq> 0 \<longrightarrow> rd_temp2 rd = seg (p div 4)) \<and> rd_get4 rd = 0"

definition at4 :: "seg_data \<Rightarrow> nat \<Rightarrow> pixel_reader \<Rightarrow> bool" where
  "at4 seg p rd \<longleftrightarrow> rd_ptr rd = (p + 1) div 2 \<and> rd_len rd = rd_ptr rd mod 65536 \<and>
     rd_get4 rd = p mod 2 \<and> (p mod 2 \<noteq> 0 \<longrightarrow> rd_temp4 rd = seg (p div 2)) \<and> rd_get2 rd = 0"

definition at8 :: "seg_data \<Rightarrow> nat \<Rightarrow> pixel_reader \<Rightarrow> bool" where
  "at8 seg p rd \<longleftrightarrow> rd_ptr rd = p \<and> rd_len rd = rd_ptr rd mod 65536 \<and> rd_get2 rd = 0 \<and>
     rd_get4 rd = 0"

lemma byte_pairs:
  "drop_bit 6 (b :: u8) = drop_bit 6 b AND 3"
  "drop_bit 4 (b AND 0x30) = drop_bit 4 b AND 3"
  "drop_bit 2 (b AND 0x0c) = drop_bit 2 b AND 3"
  "drop_bit 4 b = drop_bit 4 b AND 15"
  by (intro bit_word_eqI;
      auto simp: bit_simps less_Suc_eq numeral_eq_Suc dest: bit_imp_le_length)+

lemma sub_div [simp]:
  "Suc (4 * q) div 4 = q" "Suc (Suc (4 * q)) div 4 = q" "Suc (Suc (Suc (4 * q))) div 4 = q"
  "Suc (2 * q) div 2 = q"
  by presburger+

lemma read2_at:
  assumes "at2 seg p rd"
  obtains rd' where "ReadNext2BitPixel seg False rd = (pair seg p, rd')" "at2 seg (Suc p) rd'"
proof -
  obtain q r where p: "p = 4 * q + r" "r < 4"
    by (metis mult_div_mod_eq mod_less_divisor zero_less_numeral)
  have "r = 0 \<or> r = 1 \<or> r = 2 \<or> r = 3"
    using p(2) by linarith
  then show thesis
    using assms p(1)
    by (intro that [of "snd (ReadNext2BitPixel seg False rd)"])
       (auto simp: at2_def ReadNext2BitPixel_def rd_next_def pair_def byte_pairs(2,3) mod_Suc_eq
         simp flip: byte_pairs(1))
qed

lemma read4_at:
  assumes "at4 seg p rd"
  obtains rd' where "ReadNext4BitPixel seg False rd = (nib seg p, rd')" "at4 seg (Suc p) rd'"
proof -
  obtain q r where p: "p = 2 * q + r" "r < 2"
    by (metis mult_div_mod_eq mod_less_divisor zero_less_numeral)
  have "r = 0 \<or> r = 1"
    using p(2) by linarith
  then show thesis
    using assms p(1)
    by (intro that [of "snd (ReadNext4BitPixel seg False rd)"])
       (auto simp: at4_def ReadNext4BitPixel_def rd_next_def nib_def mod_Suc_eq
         simp flip: byte_pairs(4))
qed

section \<open>The codes of the standard\<close>

text \<open>EN 300 743, 7.2.5.2: the code words for a run of \<open>n\<close> pixels of colour \<open>c\<close>, for
the runs that have one, and the word that ends a string.\<close>

definition fits2 :: "nat \<Rightarrow> u8 \<Rightarrow> bool" where
  "fits2 n c \<longleftrightarrow> c < 4 \<and>
     (n = 1 \<or> n = 2 \<and> c = 0 \<or> 3 \<le> n \<and> n \<le> 10 \<or> 12 \<le> n \<and> n \<le> 27 \<or> 29 \<le> n \<and> n \<le> 284)"

definition code2 :: "nat \<Rightarrow> u8 \<Rightarrow> u8 list" where
  "code2 n c =
     (if n = 1 then (if c = 0 then [0, 1] else [c])
      else if n = 2 then [0, 0, 1]
      else if n \<le> 10 then [0, of_nat (2 + (n - 3) div 4), of_nat ((n - 3) mod 4), c]
      else if n \<le> 27 then [0, 0, 2, of_nat ((n - 12) div 4), of_nat ((n - 12) mod 4), c]
      else [0, 0, 3, of_nat ((n - 29) div 64), of_nat ((n - 29) div 16 mod 4),
            of_nat ((n - 29) div 4 mod 4), of_nat ((n - 29) mod 4), c])"

definition fits4 :: "nat \<Rightarrow> u8 \<Rightarrow> bool" where
  "fits4 n c \<longleftrightarrow> c < 16 \<and>
     (n = 1 \<or> c = 0 \<and> 2 \<le> n \<and> n \<le> 9 \<or> 4 \<le> n \<and> n \<le> 7 \<or> 9 \<le> n \<and> n \<le> 280)"

definition code4 :: "nat \<Rightarrow> u8 \<Rightarrow> u8 list" where
  "code4 n c =
     (if n = 1 then (if c = 0 then [0, 0xc] else [c])
      else if n = 2 then [0, 0xd]
      else if c = 0 \<and> n \<le> 9 then [0, of_nat (n - 2)]
      else if n \<le> 7 then [0, of_nat (n + 4), c]
      else if n \<le> 24 then [0, 0xe, of_nat (n - 9), c]
      else [0, 0xf, of_nat ((n - 25) div 16), of_nat ((n - 25) mod 16), c])"

definition fits8 :: "nat \<Rightarrow> u8 \<Rightarrow> bool" where
  "fits8 n c \<longleftrightarrow> n = 1 \<or> c = 0 \<and> 1 \<le> n \<and> n \<le> 127 \<or> 3 \<le> n \<and> n \<le> 127"

definition code8 :: "nat \<Rightarrow> u8 \<Rightarrow> u8 list" where
  "code8 n c =
     (if c = 0 then [0, of_nat n] else if n = 1 then [c] else [0, of_nat (128 + n), c])"

text \<open>The segment shows the codes \<open>us\<close> from code \<open>p\<close> on.\<close>

primrec displays :: "(nat \<Rightarrow> u8) \<Rightarrow> nat \<Rightarrow> u8 list \<Rightarrow> bool" where
  "displays f p [] = True"
| "displays f p (u # us) = (f p = u \<and> displays f (Suc p) us)"

lemma displays_append [simp]:
  "displays f p (us @ vs) = (displays f p us \<and> displays f (p + length us) vs)"
  by (induction us arbitrary: p) auto

lemma displays_nth: "displays f p us \<longleftrightarrow> (\<forall>i<length us. f (p + i) = us ! i)"
  by (induction us arbitrary: p) (auto simp: less_Suc_eq_0_disj)

lemma displays_seg_of: "displays (seg_of (as @ bs)) (length as) bs"
proof (induction bs arbitrary: as)
  case (Cons b bs)
  then show ?case
    using Cons.IH [of "as @ [b]"] by (simp add: seg_of_def)
qed simp

lemma u8_of_nat: "k < 256 \<Longrightarrow> unat (of_nat k :: u8) = k"
  by (simp add: unsigned_of_nat take_bit_nat_eq_self)

text \<open>The readers one read after the other.\<close>

definition nx2 :: "seg_data \<Rightarrow> pixel_reader \<Rightarrow> pixel_reader" where
  "nx2 seg rd = snd (ReadNext2BitPixel seg False rd)"

definition nx4 :: "seg_data \<Rightarrow> pixel_reader \<Rightarrow> pixel_reader" where
  "nx4 seg rd = snd (ReadNext4BitPixel seg False rd)"

lemma read2_nx:
  assumes "at2 seg p rd"
  shows "ReadNext2BitPixel seg False rd = (pair seg p, nx2 seg rd)" "at2 seg (Suc p) (nx2 seg rd)"
proof -
  obtain rd' where "ReadNext2BitPixel seg False rd = (pair seg p, rd')" "at2 seg (Suc p) rd'"
    using assms by (rule read2_at)
  then show "ReadNext2BitPixel seg False rd = (pair seg p, nx2 seg rd)" "at2 seg (Suc p) (nx2 seg rd)"
    by (simp_all add: nx2_def)
qed

lemma read4_nx:
  assumes "at4 seg p rd"
  shows "ReadNext4BitPixel seg False rd = (nib seg p, nx4 seg rd)" "at4 seg (Suc p) (nx4 seg rd)"
proof -
  obtain rd' where "ReadNext4BitPixel seg False rd = (nib seg p, rd')" "at4 seg (Suc p) rd'"
    using assms by (rule read4_at)
  then show "ReadNext4BitPixel seg False rd = (nib seg p, nx4 seg rd)" "at4 seg (Suc p) (nx4 seg rd)"
    by (simp_all add: nx4_def)
qed

lemma read8_nx:
  assumes "at8 seg p rd"
  shows "read_byte seg rd = (seg p, rd_next rd)" "at8 seg (Suc p) (rd_next rd)"
  using assms by (auto simp: read_byte_def at8_def rd_next_def mod_Suc_eq)

lemma quad_digits:
  "64 * (m div 64) + 16 * (m div 16 mod 4) + 4 * (m div 4 mod 4) + m mod 4 = (m :: nat)"
proof -
  have "m mod 64 = 16 * (m div 16 mod 4) + m mod 16" "m mod 16 = 4 * (m div 4 mod 4) + m mod 4"
    using mod_mult2_eq [of m 16 4] mod_mult2_eq [of m 4 4] by simp_all
  then show ?thesis
    using mult_div_mod_eq [of 64 m] by linarith
qed

lemma Decode2_run:
  assumes a: "at2 seg p rd" and f: "fits2 n c" and d: "displays (pair seg) p (code2 n c)"
  shows "\<exists>rd'. Decode2Pixel seg rd = (c, n, rd') \<and> at2 seg (p + length (code2 n c)) rd'"
proof -
  note r1 = read2_nx [OF a] note r2 = read2_nx [OF r1(2)] note r3 = read2_nx [OF r2(2)]
  note r4 = read2_nx [OF r3(2)] note r5 = read2_nx [OF r4(2)] note r6 = read2_nx [OF r5(2)]
  note r7 = read2_nx [OF r6(2)] note r8 = read2_nx [OF r7(2)]
  consider "n = 1" "c \<noteq> 0" | "n = 1" "c = 0" | "n = 2" "c = 0" | "3 \<le> n" "n \<le> 6"
    | "7 \<le> n" "n \<le> 10" | "12 \<le> n" "n \<le> 27" | "29 \<le> n" "n \<le> 284"
    using f le_less_linear [of n 6] unfolding fits2_def by force
  then show ?thesis
  proof cases
    case 1 then show ?thesis
      using d r1 by (simp add: code2_def Decode2Pixel_def)
  next
    case 2 then show ?thesis
      using d r1(1) r2 by (simp add: code2_def Decode2Pixel_def)
  next
    case 3 then show ?thesis
      using d r1(1) r2(1) r3 by (simp add: code2_def Decode2Pixel_def)
  next
    case 4
    then have "(n - 3) div 4 = 0" "n - 3 < 4" by simp_all
    then show ?thesis
      using 4 d r1(1) r2(1) r3(1) r4 by (simp add: code2_def Decode2Pixel_def u8_of_nat del: of_nat_diff)
  next
    case 5
    then have "(n - 3) div 4 = 1" "(n - 3) mod 4 = n - 7"
      using div_mult_mod_eq [of "n - 3" 4] by (simp_all add: div_nat_eqI mod_nat_eqI)
    then show ?thesis
      using 5 d r1(1) r2(1) r3(1) r4 by (simp add: code2_def Decode2Pixel_def u8_of_nat del: of_nat_diff)
  next
    case 6 then show ?thesis
      using d r1(1) r2(1) r3(1) r4(1) r5(1) r6
      by (simp add: code2_def Decode2Pixel_def u8_of_nat del: of_nat_diff)
  next
    case 7
    have "(n - 29) div 64 < 256"
      using 7 by simp
    then show ?thesis
      using 7 d r1(1) r2(1) r3(1) r4(1) r5(1) r6(1) r7(1) r8
      by (simp add: code2_def Decode2Pixel_def u8_of_nat quad_digits del: of_nat_diff)
  qed
qed

lemma Decode2_stop:
  assumes a: "at2 seg p rd" and d: "displays (pair seg) p [0, 0, 0]"
  shows "\<exists>rd'. Decode2Pixel seg rd = (0, 0, rd') \<and> at2 seg (p + length [0 :: u8, 0, 0]) rd'"
proof -
  note r1 = read2_nx [OF a] note r2 = read2_nx [OF r1(2)] note r3 = read2_nx [OF r2(2)]
  show ?thesis
    using d r1(1) r2(1) r3 by (simp add: Decode2Pixel_def)
qed

lemma high_nib:
  assumes "m < 16" shows "unat (push_bit 4 (of_nat m :: u8) AND 0xf0) = 16 * m"
proof -
  have "\<forall>m\<in>set [0..<16]. unat (push_bit 4 (of_nat m :: u8) AND 0xf0) = 16 * m"
    by code_simp
  then show ?thesis using assms by simp
qed

lemma Decode4_run:
  assumes a: "at4 seg p rd" and f: "fits4 n c" and d: "displays (nib seg) p (code4 n c)"
  shows "\<exists>rd'. Decode4Pixel seg rd = (c, n, rd') \<and> at4 seg (p + length (code4 n c)) rd'"
proof -
  note r1 = read4_nx [OF a] note r2 = read4_nx [OF r1(2)] note r3 = read4_nx [OF r2(2)]
  note r4 = read4_nx [OF r3(2)] note r5 = read4_nx [OF r4(2)]
  consider "n = 1" "c \<noteq> 0" | "n = 1" "c = 0" | "n = 2" "c = 0" | "3 \<le> n" "n \<le> 9" "c = 0"
    | "4 \<le> n" "n \<le> 7" "c \<noteq> 0" | "9 \<le> n" "n \<le> 24" "\<not> (n = 9 \<and> c = 0)" | "25 \<le> n" "n \<le> 280"
    using f le_less_linear [of n 24] le_less_linear [of n 2] unfolding fits4_def by force
  then show ?thesis
  proof cases
    case 1 then show ?thesis
      using d r1 by (simp add: code4_def Decode4Pixel_def word_gt_0)
  next
    case 2 then show ?thesis
      using d r1(1) r2 by (simp add: code4_def Decode4Pixel_def)
  next
    case 3 then show ?thesis
      using d r1(1) r2 by (simp add: code4_def Decode4Pixel_def)
  next
    case 4
    then have "n = 3 \<or> n = 4 \<or> n = 5 \<or> n = 6 \<or> n = 7 \<or> n = 8 \<or> n = 9" by linarith
    with 4 d r1(1) r2 show ?thesis
      by (elim disjE) (simp_all add: code4_def Decode4Pixel_def)
  next
    case 5
    then have "n = 4 \<or> n = 5 \<or> n = 6 \<or> n = 7" by linarith
    with 5 d r1(1) r2(1) r3 show ?thesis
      by (elim disjE) (simp_all add: code4_def Decode4Pixel_def)
  next
    case 6
    then have "(c = 0 \<and> n \<le> 9) = False" "n \<noteq> 1" "n \<noteq> 2" "\<not> n \<le> 7" by auto
    then show ?thesis
      using 6 d r1(1) r2(1) r3(1) r4
      by (simp only: code4_def if_False if_True displays.simps list.size Let_def)
        (simp add: Decode4Pixel_def u8_of_nat del: of_nat_diff)
  next
    case 7
    then have "unat (push_bit 4 (of_nat ((n - 25) div 16) :: u8) AND 0xf0) = 16 * ((n - 25) div 16)"
      by (intro high_nib) simp
    then show ?thesis
      using 7 d r1(1) r2(1) r3(1) r4(1) r5
      by (simp add: code4_def Decode4Pixel_def u8_of_nat del: of_nat_diff)
  qed
qed

lemma Decode4_stop:
  assumes a: "at4 seg p rd" and d: "displays (nib seg) p [0, 0]"
  shows "\<exists>rd'. Decode4Pixel seg rd = (0, 0, rd') \<and> at4 seg (p + length [0 :: u8, 0]) rd'"
proof -
  note r1 = read4_nx [OF a] note r2 = read4_nx [OF r1(2)]
  show ?thesis
    using d r1(1) r2 by (simp add: Decode4Pixel_def)
qed

lemma mask_run:
  assumes "n \<le> 127" shows "unat (of_nat (128 + n) AND 0x7f :: u8) = n"
proof -
  have "\<forall>m\<in>set [0..<128]. unat (of_nat (128 + m) AND 0x7f :: u8) = m"
    by code_simp
  then show ?thesis using assms by simp
qed

lemma Decode8_run:
  assumes a: "at8 seg p rd" and f: "fits8 n c" and d: "displays seg p (code8 n c)"
  shows "\<exists>rd'. Decode8Pixel seg rd = (c, n, rd') \<and> at8 seg (p + length (code8 n c)) rd'"
proof -
  note r1 = read8_nx [OF a] note r2 = read8_nx [OF r1(2)] note r3 = read8_nx [OF r2(2)]
  have n: "n \<le> 127" "0 < n"
    using f by (auto simp: fits8_def)
  consider "c = 0" | "n = 1" "c \<noteq> 0" | "n \<noteq> 1" "c \<noteq> 0" by blast
  then show ?thesis
  proof cases
    case 1
    have "(of_nat n :: u8) \<noteq> 0" "(of_nat n :: u8) \<le> 0x7f"
      using n u8_of_nat [of n] by (auto simp: word_le_nat_alt)
    then show ?thesis
      using 1 n d r1(1) r2 by (simp add: code8_def Decode8Pixel_def u8_of_nat)
  next
    case 2 then show ?thesis
      using d r1 by (simp add: code8_def Decode8Pixel_def)
  next
    case 3
    have "unat (of_nat (128 + n) :: u8) = 128 + n" "unat ((of_nat (128 + n) :: u8) AND 0x7f) = n"
      using n mask_run [of n] by (auto simp: u8_of_nat simp del: of_nat_add)
    then have "(of_nat (128 + n) :: u8) \<noteq> 0" "\<not> (of_nat (128 + n) :: u8) \<le> 0x7f"
      "unat ((of_nat (128 + n) :: u8) AND 0x7f) = n"
      by (auto simp: word_le_nat_alt simp del: of_nat_add)
    then show ?thesis
      using 3 d r1(1) r2(1) r3 by (simp add: code8_def Decode8Pixel_def del: of_nat_add)
  qed
qed

lemma Decode8_stop:
  assumes a: "at8 seg p rd" and d: "displays seg p [0, 0]"
  shows "\<exists>rd'. Decode8Pixel seg rd = (0, 0, rd') \<and> at8 seg (p + length [0 :: u8, 0]) rd'"
proof -
  note r1 = read8_nx [OF a] note r2 = read8_nx [OF r1(2)]
  show ?thesis
    using d r1(1) r2 by (simp add: Decode8Pixel_def)
qed

section \<open>What the block decoder relies on\<close>

text \<open>The readers' static is one of the four the code tells apart; any other value would
deliver 0 for ever. A position counts the codes read, by the 16-bit length.\<close>

definition rd_ok :: "pixel_reader \<Rightarrow> bool" where
  "rd_ok rd \<longleftrightarrow> rd_get2 rd \<le> 3"

definition pos2 :: "pixel_reader \<Rightarrow> nat" where
  "pos2 rd = 4 * rd_len rd + (if rd_get2 rd = 0 then 4 else rd_get2 rd)"

definition pos4 :: "pixel_reader \<Rightarrow> nat" where
  "pos4 rd = 2 * rd_len rd + (if rd_get4 rd = 0 then 2 else 1)"

text \<open>Every code word takes one to eight reads, and each read moves the position on: what
ends the loops.\<close>

locale code_reader =
  fixes nx :: "seg_data \<Rightarrow> pixel_reader \<Rightarrow> pixel_reader"
    and pos :: "pixel_reader \<Rightarrow> nat"
    and dec :: "seg_data \<Rightarrow> pixel_reader \<Rightarrow> u8 \<times> nat \<times> pixel_reader"
  assumes nx_adv: "rd_ok rd \<Longrightarrow> rd_len rd < 65535 \<Longrightarrow>
      rd_ok (nx seg rd) \<and> pos rd < pos (nx seg rd) \<and>
      rd_len rd \<le> rd_len (nx seg rd) \<and> rd_len (nx seg rd) \<le> rd_len rd + 1 \<and>
      rd_ptr (nx seg rd) + rd_len rd = rd_ptr rd + rd_len (nx seg rd)"
    and dec_nx: "dec seg rd = (c, n, rd') \<Longrightarrow> \<exists>k. 0 < k \<and> k \<le> 8 \<and> rd' = (nx seg ^^ k) rd"
    and pos_le: "rd_ok rd \<Longrightarrow> pos rd \<le> 4 * rd_len rd + 4"
begin

lemma nx_pow:
  assumes "rd_ok rd" "rd_len rd + k < 65536"
  shows "rd_ok ((nx seg ^^ k) rd) \<and> pos rd + k \<le> pos ((nx seg ^^ k) rd) \<and>
    rd_len rd \<le> rd_len ((nx seg ^^ k) rd) \<and> rd_len ((nx seg ^^ k) rd) \<le> rd_len rd + k \<and>
    rd_ptr ((nx seg ^^ k) rd) + rd_len rd = rd_ptr rd + rd_len ((nx seg ^^ k) rd)"
  using assms
proof (induction k)
  case (Suc k)
  let ?r = "(nx seg ^^ k) rd"
  have "rd_ok ?r" "rd_len ?r < 65535"
    using Suc by auto
  from nx_adv [OF this, of seg] show ?case
    using Suc by auto
qed simp

lemma dec_adv:
  assumes "rd_ok rd" "rd_len rd + 8 < 65536" "dec seg rd = (c, n, rd')"
  shows "rd_ok rd'" "pos rd < pos rd'" "rd_len rd \<le> rd_len rd'" "rd_len rd' \<le> rd_len rd + 8"
    "rd_ptr rd' + rd_len rd = rd_ptr rd + rd_len rd'"
proof -
  obtain k where k: "0 < k" "k \<le> 8" "rd' = (nx seg ^^ k) rd"
    using dec_nx [OF assms(3)] by blast
  then show "rd_ok rd'" "pos rd < pos rd'" "rd_len rd \<le> rd_len rd'" "rd_len rd' \<le> rd_len rd + 8"
      "rd_ptr rd' + rd_len rd = rd_ptr rd + rd_len rd'"
    using nx_pow [of rd k seg] assms(1,2) by auto
qed

end

text \<open>The contract with the standard: where the segment shows the word of a run, the decoder
returns that run and stands behind the word.\<close>

locale pixel_code = code_reader nx pos dec
  for nx pos dec +
  fixes at_code :: "seg_data \<Rightarrow> nat \<Rightarrow> pixel_reader \<Rightarrow> bool"
    and per :: nat
    and unit :: "seg_data \<Rightarrow> nat \<Rightarrow> u8"
    and fits :: "nat \<Rightarrow> u8 \<Rightarrow> bool"
    and code :: "nat \<Rightarrow> u8 \<Rightarrow> u8 list"
    and stop :: "u8 list"
  assumes dec_run: "at_code seg p rd \<Longrightarrow> fits n c \<Longrightarrow> displays (unit seg) p (code n c) \<Longrightarrow>
      \<exists>rd'. dec seg rd = (c, n, rd') \<and> at_code seg (p + length (code n c)) rd'"
    and dec_stop: "at_code seg p rd \<Longrightarrow> displays (unit seg) p stop \<Longrightarrow>
      \<exists>rd'. dec seg rd = (0, 0, rd') \<and> at_code seg (p + length stop) rd'"
    and fits_pos: "fits n c \<Longrightarrow> 0 < n"
    and at_ptr: "at_code seg p rd \<Longrightarrow>
      rd_ptr rd = (p + per - 1) div per \<and> rd_len rd = rd_ptr rd mod 65536"
    and per_pos: "0 < per"

lemma nx2_adv:
  assumes "rd_ok rd" "rd_len rd < 65535"
  shows "rd_ok (nx2 seg rd) \<and> pos2 rd < pos2 (nx2 seg rd) \<and>
    rd_len rd \<le> rd_len (nx2 seg rd) \<and> rd_len (nx2 seg rd) \<le> rd_len rd + 1 \<and>
    rd_ptr (nx2 seg rd) + rd_len rd = rd_ptr rd + rd_len (nx2 seg rd)"
  using assms by (auto simp: nx2_def ReadNext2BitPixel_def rd_next_def rd_ok_def pos2_def)

lemma nx4_adv:
  assumes "rd_ok rd" "rd_len rd < 65535"
  shows "rd_ok (nx4 seg rd) \<and> pos4 rd < pos4 (nx4 seg rd) \<and>
    rd_len rd \<le> rd_len (nx4 seg rd) \<and> rd_len (nx4 seg rd) \<le> rd_len rd + 1 \<and>
    rd_ptr (nx4 seg rd) + rd_len rd = rd_ptr rd + rd_len (nx4 seg rd)"
  using assms by (auto simp: nx4_def ReadNext4BitPixel_def rd_next_def rd_ok_def pos4_def)

lemma split_nx:
  "(case ReadNext2BitPixel seg False x of (a, b) \<Rightarrow> f a b) =
     f (fst (ReadNext2BitPixel seg False x)) (nx2 seg x)"
  "(case ReadNext4BitPixel seg False x of (a, b) \<Rightarrow> f a b) =
     f (fst (ReadNext4BitPixel seg False x)) (nx4 seg x)"
  "(case read_byte seg x of (a, b) \<Rightarrow> f a b) = f (seg (rd_ptr x)) (rd_next x)"
  by (simp_all add: nx2_def nx4_def read_byte_def split_beta)

lemma funpow_unfold:
  "(g ^^ 1) x = g x" "(g ^^ 2) x = g (g x)" "(g ^^ 3) x = g (g (g x))"
  "(g ^^ 4) x = g (g (g (g x)))" "(g ^^ 5) x = g (g (g (g (g x))))"
  "(g ^^ 6) x = g (g (g (g (g (g x)))))" "(g ^^ 8) x = g (g (g (g (g (g (g (g x)))))))"
  by (simp_all add: eval_nat_numeral)

lemma Decode2_nx:
  assumes "Decode2Pixel seg rd = (c, n, rd')"
  shows "\<exists>k. 0 < k \<and> k \<le> 8 \<and> rd' = (nx2 seg ^^ k) rd"
proof -
  have "rd' = (nx2 seg ^^ 1) rd \<or> rd' = (nx2 seg ^^ 2) rd \<or> rd' = (nx2 seg ^^ 3) rd \<or>
      rd' = (nx2 seg ^^ 4) rd \<or> rd' = (nx2 seg ^^ 6) rd \<or> rd' = (nx2 seg ^^ 8) rd"
    using assms unfolding Decode2Pixel_def Let_def split_nx funpow_unfold
    by (simp only: prod.inject split: if_splits) blast+
  then show ?thesis by (elim disjE) (rule exI, rule conjI [rotated], erule conjI [rotated], simp, simp)+
qed

lemma Decode4_nx:
  assumes "Decode4Pixel seg rd = (c, n, rd')"
  shows "\<exists>k. 0 < k \<and> k \<le> 8 \<and> rd' = (nx4 seg ^^ k) rd"
proof -
  have "rd' = (nx4 seg ^^ 1) rd \<or> rd' = (nx4 seg ^^ 2) rd \<or> rd' = (nx4 seg ^^ 3) rd \<or>
      rd' = (nx4 seg ^^ 4) rd \<or> rd' = (nx4 seg ^^ 5) rd"
    using assms unfolding Decode4Pixel_def Let_def split_nx funpow_unfold
    by (simp only: prod.inject split: if_splits) blast+
  then show ?thesis by (elim disjE) (rule exI, rule conjI [rotated], erule conjI [rotated], simp, simp)+
qed

lemma Decode8_nx:
  assumes "Decode8Pixel seg rd = (c, n, rd')"
  shows "\<exists>k. 0 < k \<and> k \<le> 8 \<and> rd' = ((\<lambda>_. rd_next) seg ^^ k) rd"
proof -
  have "rd' = (rd_next ^^ 1) rd \<or> rd' = (rd_next ^^ 2) rd \<or> rd' = (rd_next ^^ 3) rd"
    using assms unfolding Decode8Pixel_def Let_def split_nx funpow_unfold
    by (simp only: prod.inject split: if_splits) blast+
  then show ?thesis by (elim disjE) (rule exI, rule conjI [rotated], erule conjI [rotated], simp, simp)+
qed

lemma rd_next_adv:
  assumes "rd_ok rd" "rd_len rd < 65535"
  shows "rd_ok (rd_next rd) \<and> rd_len rd < rd_len (rd_next rd) \<and>
    rd_len rd \<le> rd_len (rd_next rd) \<and> rd_len (rd_next rd) \<le> rd_len rd + 1 \<and>
    rd_ptr (rd_next rd) + rd_len rd = rd_ptr rd + rd_len (rd_next rd)"
  using assms by (auto simp: rd_next_def rd_ok_def)

lemma code2_pos: "fits2 n c \<Longrightarrow> 0 < n" "fits4 n c \<Longrightarrow> 0 < n" "fits8 n c \<Longrightarrow> 0 < n"
  by (auto simp: fits2_def fits4_def fits8_def)

lemma at_ptrs:
  "at2 seg p rd \<Longrightarrow> rd_ptr rd = (p + 4 - 1) div 4 \<and> rd_len rd = rd_ptr rd mod 65536"
  "at4 seg p rd \<Longrightarrow> rd_ptr rd = (p + 2 - 1) div 2 \<and> rd_len rd = rd_ptr rd mod 65536"
  "at8 seg p rd \<Longrightarrow> rd_ptr rd = (p + 1 - 1) div 1 \<and> rd_len rd = rd_ptr rd mod 65536"
  by (simp_all add: at2_def at4_def at8_def)

lemma pos_bounds:
  "rd_ok rd \<Longrightarrow> pos2 rd \<le> 4 * rd_len rd + 4" "rd_ok rd \<Longrightarrow> pos4 rd \<le> 4 * rd_len rd + 4"
  by (simp_all add: pos2_def pos4_def rd_ok_def)

interpretation px2: pixel_code nx2 pos2 Decode2Pixel at2 4 pair fits2 code2 "[0, 0, 0]"
  by unfold_locales
    (fact nx2_adv Decode2_nx pos_bounds Decode2_run Decode2_stop code2_pos at_ptrs | simp)+

interpretation px4: pixel_code nx4 pos4 Decode4Pixel at4 2 nib fits4 code4 "[0, 0]"
  by unfold_locales
    (fact nx4_adv Decode4_nx pos_bounds Decode4_run Decode4_stop code2_pos at_ptrs | simp)+

interpretation px8: pixel_code "\<lambda>_. rd_next" rd_len Decode8Pixel at8 1 "\<lambda>seg. seg" fits8 code8 "[0, 0]"
  by unfold_locales
    (fact rd_next_adv Decode8_nx Decode8_run Decode8_stop code2_pos at_ptrs | simp)+

section \<open>What a decoder can return\<close>

lemma unat_and_le: "unat (x AND (m :: u8)) \<le> unat m"
  by (simp add: word_and_le1 flip: word_le_nat_alt)

lemma unat_high: "unat (drop_bit 6 (x :: u8)) \<le> 3" "unat (drop_bit 4 x) \<le> 15"
  using unat_and_le [of "drop_bit 6 x" 3] unat_and_le [of "drop_bit 4 x" 15]
  by (simp_all flip: byte_pairs(1,4))

lemma fst_read2: "unat (fst (ReadNext2BitPixel seg False rd)) \<le> 3"
  using unat_and_le [of _ 3] by (auto simp: ReadNext2BitPixel_def byte_pairs(2,3) unat_high)

lemma fst_read4: "unat (fst (ReadNext4BitPixel seg False rd)) \<le> 15"
  using unat_and_le [of _ 15] by (auto simp: ReadNext4BitPixel_def unat_high)

lemma Decode2_bound:
  assumes "Decode2Pixel seg rd = (c, n, rd')" shows "unat c \<le> 3" "n \<le> 284"
proof -
  have "c \<in> {0} \<union> range (\<lambda>x. fst (ReadNext2BitPixel seg False x))"
    using assms unfolding Decode2Pixel_def Let_def split_nx by (auto split: if_splits)
  then show "unat c \<le> 3" using fst_read2 by auto
  let ?f = "\<lambda>x. unat (fst (ReadNext2BitPixel seg False x))"
  have "n \<in> {0, 1, 2} \<or> (\<exists>x y. n = 4 * unat (x AND 1 :: u8) + ?f y + 3) \<or>
      (\<exists>x y. n = 4 * ?f x + ?f y + 12) \<or>
      (\<exists>x y z w. n = 64 * ?f x + 16 * ?f y + 4 * ?f z + ?f w + 29)"
    using assms unfolding Decode2Pixel_def Let_def split_nx
    by (simp only: prod.inject insert_iff split: if_splits) blast+
  then show "n \<le> 284"
  proof (elim disjE exE)
    fix x :: u8 and y assume "n = 4 * unat (x AND 1) + ?f y + 3"
    then show ?thesis using unat_and_le [of x 1] fst_read2 [of seg y] by simp
  next
    fix x y assume "n = 4 * ?f x + ?f y + 12"
    then show ?thesis using fst_read2 [of seg x] fst_read2 [of seg y] by simp
  next
    fix x y z w assume "n = 64 * ?f x + 16 * ?f y + 4 * ?f z + ?f w + 29"
    then show ?thesis
      using fst_read2 [of seg x] fst_read2 [of seg y] fst_read2 [of seg z] fst_read2 [of seg w]
      by linarith
  qed auto
qed

lemma Decode4_bound:
  assumes "Decode4Pixel seg rd = (c, n, rd')" shows "unat c \<le> 15" "n \<le> 280"
proof -
  have "c \<in> {0} \<union> range (\<lambda>x. fst (ReadNext4BitPixel seg False x))"
    using assms unfolding Decode4Pixel_def Let_def split_nx by (auto split: if_splits)
  then show "unat c \<le> 15" using fst_read4 by auto
  let ?f = "\<lambda>x. unat (fst (ReadNext4BitPixel seg False x))"
  have "n \<in> {0, 1} \<or> (\<exists>x. n = ?f x + 2) \<or> (\<exists>x. n = unat (x AND 3 :: u8) + 4) \<or>
      (\<exists>x. n = unat (x AND 3 :: u8) + 1) \<or> (\<exists>x. n = ?f x + 9) \<or>
      (\<exists>x y. n = unat (x AND 0xf0 :: u8) + ?f y + 25)"
    using assms unfolding Decode4Pixel_def Let_def split_nx
    by (simp only: prod.inject insert_iff split: if_splits) blast+
  then show "n \<le> 280"
  proof (elim disjE exE)
    fix x assume "n = ?f x + 2" then show ?thesis using fst_read4 [of seg x] by simp
  next
    fix x :: u8 assume "n = unat (x AND 3) + 4" then show ?thesis using unat_and_le [of x 3] by simp
  next
    fix x :: u8 assume "n = unat (x AND 3) + 1" then show ?thesis using unat_and_le [of x 3] by simp
  next
    fix x assume "n = ?f x + 9" then show ?thesis using fst_read4 [of seg x] by simp
  next
    fix x :: u8 and y assume "n = unat (x AND 0xf0) + ?f y + 25"
    then show ?thesis using unat_and_le [of x "0xf0"] fst_read4 [of seg y] by simp
  qed auto
qed

lemma Decode8_bound:
  assumes "Decode8Pixel seg rd = (c, n, rd')" shows "n \<le> 127"
proof -
  have "n \<in> {0, 1} \<or> (\<exists>x. n = unat (x AND 0x7f :: u8)) \<or> (\<exists>x :: u8. x \<le> 0x7f \<and> n = unat x)"
    using assms unfolding Decode8Pixel_def Let_def split_nx
    by (simp only: prod.inject insert_iff split: if_splits) blast+
  then show ?thesis
    using unat_and_le [of _ "0x7f"] by (auto simp: word_le_nat_alt)
qed

end
