(* ===== verification/SubtBlock.thy ===== *)
theory SubtBlock
  imports SubtPixel
begin

text \<open>
  \<open>SUBT_Parse_PixelBlockDecode\<close> and \<open>SUBT_Parse_DecodingPixels\<close> of
  src/kware/subtitle/src/subtitle_parse.c: one field of a subtitle bitmap is a block of code
  strings, map tables and end-of-line codes, painted into the region buffer.
\<close>

section \<open>State\<close>

text \<open>The region buffer as the memory around it: bytes by address. The strings are painted
with \<open>memset\<close>.\<close>

type_synonym memory = "nat \<Rightarrow> u8"

definition mem_set :: "memory \<Rightarrow> nat \<Rightarrow> u8 \<Rightarrow> nat \<Rightarrow> memory" where
  "mem_set m p c n = (\<lambda>a. if p \<le> a \<and> a < p + n then c else m a)"

text \<open>\<open>SUBT_REFERING_REGION_S\<close> without its write pointer, which the state of the block
carries; \<open>rr_pixel\<close> is an address, \<open>rr_len\<close> the length the caller gives.\<close>

record refering_region =
  rr_depth :: nat
  rr_width :: nat
  rr_height :: nat
  rr_pixel :: nat
  rr_ver :: nat
  rr_hor :: nat
  rr_len :: nat

text \<open>The 2-to-4-bit, 2-to-8-bit and 4-to-8-bit map tables.\<close>

record map_tables =
  mt24 :: "u8 list"
  mt28 :: "u8 list"
  mt48 :: "u8 list"

text \<open>The locals of the decoder: \<open>ColorEntry\<close>, \<open>u8LastColorEntry\<close>, \<open>u16NumPixel\<close>,
\<open>wNumLine\<close>, \<open>nEndAddLine\<close> and the three map tables, with the reader, the memory and
\<open>pu8ObjPixelWrite\<close>.\<close>

record block_state =
  bk_rd :: pixel_reader
  bk_mem :: memory
  bk_wp :: nat
  bk_color :: u8
  bk_last :: u8
  bk_num :: nat
  bk_line :: nat
  bk_end :: nat
  bk_maps :: map_tables

datatype subt_ret = SUBT_SUCCESS | SUBT_FAILURE | ERR_OUT_OF_WIDTH

text \<open>A piece of the body goes on or returns from the function.\<close>

datatype block_out = Go block_state | Ret subt_ret block_state

text \<open>\<open>ulong\<close> subtraction.\<close>

definition ulong_sub :: "nat \<Rightarrow> nat \<Rightarrow> nat" where
  "ulong_sub a b = (if b \<le> a then a - b else a + 2 ^ 64 - b)"

section \<open>A code string\<close>

text \<open>The colour of a pixel in the depth of the region, as each case of the switch has it.\<close>

definition conv2 :: "nat \<Rightarrow> map_tables \<Rightarrow> u8 \<Rightarrow> u8" where
  "conv2 depth t c =
     (if depth = 4 then mt24 t ! unat c else if depth = 8 then mt28 t ! unat c else c)"

definition conv4 :: "nat \<Rightarrow> map_tables \<Rightarrow> u8 \<Rightarrow> u8" where
  "conv4 depth t c =
     (if depth = 2 then drop_bit 6 (c AND 0x80) OR (if c AND 0x70 \<noteq> 0 then 1 else 0)
      else if depth = 8 then mt48 t ! unat c else c)"

definition conv8 :: "nat \<Rightarrow> map_tables \<Rightarrow> u8 \<Rightarrow> u8" where
  "conv8 depth t c =
     (if depth = 2 then drop_bit 6 (c AND 0x80) OR (if c AND 0x70 \<noteq> 0 then 1 else 0)
      else if depth = 4 then drop_bit 4 (c AND 0xf0) else c)"

type_synonym decoder = "seg_data \<Rightarrow> pixel_reader \<Rightarrow> u8 \<times> nat \<times> pixel_reader"
type_synonym conversion = "nat \<Rightarrow> map_tables \<Rightarrow> u8 \<Rightarrow> u8"

text \<open>One round of the \<open>do\<close> loop, the same code in the three cases but for the decoder,
the conversion, and the row that only the 2-bit case clears (\<open>clear\<close>). The test
\<open>u16NumPixel > 0\<close> before the \<open>memset\<close> always holds there.\<close>

definition string_body ::
    "decoder \<Rightarrow> conversion \<Rightarrow> bool \<Rightarrow> seg_data \<Rightarrow> refering_region \<Rightarrow> block_state \<Rightarrow> block_out" where
  "string_body dec conv clear seg rr s =
     (let (c, n, rd) = dec seg (bk_rd s);
          s = s\<lparr>bk_rd := rd, bk_color := c, bk_num := n\<rparr>
      in if n = 0 then Go s
      else
        let c = conv (rr_depth rr) (bk_maps s) c;
            e = rr_pixel rr + rr_width rr * (rr_ver rr + bk_line s + 1);
            s = s\<lparr>bk_color := c, bk_end := e\<rparr>
        in if rr_pixel rr + rr_len rr < e then Ret SUBT_FAILURE s
        else if e < bk_wp s + n then
          let s = s\<lparr>bk_num := ulong_sub e (bk_wp s) mod 65536\<rparr>
          in Ret ERR_OUT_OF_WIDTH
               (if clear then s\<lparr>bk_mem := mem_set (bk_mem s) (e - rr_width rr) 0 (rr_width rr)\<rparr>
                else s)
        else Go (s\<lparr>bk_mem := mem_set (bk_mem s) (bk_wp s) c n, bk_wp := bk_wp s + n,
                   bk_last := c\<rparr>))"

primrec string_loop ::
    "nat \<Rightarrow> decoder \<Rightarrow> conversion \<Rightarrow> bool \<Rightarrow> seg_data \<Rightarrow> refering_region \<Rightarrow> nat \<Rightarrow> block_state \<Rightarrow>
     block_out option" where
  "string_loop 0 dec conv clear seg rr blen s = None"
| "string_loop (Suc f) dec conv clear seg rr blen s =
     (case string_body dec conv clear seg rr s of
        Ret r s \<Rightarrow> Some (Ret r s)
      | Go s \<Rightarrow> if bk_num s \<noteq> 0 \<and> rd_len (bk_rd s) < blen
                then string_loop f dec conv clear seg rr blen s else Some (Go s))"

text \<open>\<open>SUBT_REGION_LINE_PIXEL_ADJUST_NUM\<close> pixels more of the last colour, where the row
still has them.\<close>

definition line_adjust :: "block_state \<Rightarrow> block_state" where
  "line_adjust s =
     (let d = ulong_sub (bk_end s) (bk_wp s);
          k = (if 2 < d then 2 else d mod 65536)
      in s\<lparr>bk_mem := mem_set (bk_mem s) (bk_wp s) (bk_last s) k\<rparr>)"

definition reset2 :: "seg_data \<Rightarrow> block_state \<Rightarrow> block_state" where
  "reset2 seg s = s\<lparr>bk_rd := snd (ReadNext2BitPixel seg True (bk_rd s))\<rparr>"

definition reset4 :: "seg_data \<Rightarrow> block_state \<Rightarrow> block_state" where
  "reset4 seg s = s\<lparr>bk_rd := snd (ReadNext4BitPixel seg True (bk_rd s))\<rparr>"

definition then_go :: "(block_state \<Rightarrow> block_state) \<Rightarrow> block_out \<Rightarrow> block_out" where
  "then_go g r = (case r of Go s \<Rightarrow> Go (g s) | Ret e s \<Rightarrow> Ret e s)"

definition string2 :: "nat \<Rightarrow> seg_data \<Rightarrow> refering_region \<Rightarrow> nat \<Rightarrow> block_state \<Rightarrow> block_out option" where
  "string2 fuel seg rr blen s =
     map_option (then_go (reset2 seg \<circ> line_adjust))
       (string_loop fuel Decode2Pixel conv2 True seg rr blen s)"

definition string4 :: "nat \<Rightarrow> seg_data \<Rightarrow> refering_region \<Rightarrow> nat \<Rightarrow> block_state \<Rightarrow> block_out option" where
  "string4 fuel seg rr blen s =
     map_option (then_go (reset4 seg \<circ> line_adjust))
       (string_loop fuel Decode4Pixel conv4 False seg rr blen s)"

definition string8 :: "nat \<Rightarrow> seg_data \<Rightarrow> refering_region \<Rightarrow> nat \<Rightarrow> block_state \<Rightarrow> block_out option" where
  "string8 fuel seg rr blen s =
     map_option (then_go line_adjust)
       (string_loop fuel Decode8Pixel conv8 False seg rr blen s)"

section \<open>The block\<close>

text \<open>The map tables: four codes of four bits, four bytes, sixteen bytes.\<close>

primrec read_nibs :: "nat \<Rightarrow> seg_data \<Rightarrow> pixel_reader \<Rightarrow> u8 list \<times> pixel_reader" where
  "read_nibs 0 seg rd = ([], rd)"
| "read_nibs (Suc k) seg rd =
     (let (x, rd) = ReadNext4BitPixel seg False rd; (xs, rd) = read_nibs k seg rd in (x # xs, rd))"

primrec read_bytes :: "nat \<Rightarrow> seg_data \<Rightarrow> pixel_reader \<Rightarrow> u8 list \<times> pixel_reader" where
  "read_bytes 0 seg rd = ([], rd)"
| "read_bytes (Suc k) seg rd =
     (let (x, rd) = read_byte seg rd; (xs, rd) = read_bytes k seg rd in (x # xs, rd))"

definition table24 :: "seg_data \<Rightarrow> block_state \<Rightarrow> block_state" where
  "table24 seg s =
     (let (xs, rd) = read_nibs 4 seg (bk_rd s) in reset4 seg (s\<lparr>bk_maps := (bk_maps s)\<lparr>mt24 := xs\<rparr>, bk_rd := rd\<rparr>))"

definition table28 :: "seg_data \<Rightarrow> block_state \<Rightarrow> block_state" where
  "table28 seg s = (let (xs, rd) = read_bytes 4 seg (bk_rd s) in s\<lparr>bk_maps := (bk_maps s)\<lparr>mt28 := xs\<rparr>, bk_rd := rd\<rparr>)"

definition table48 :: "seg_data \<Rightarrow> block_state \<Rightarrow> block_state" where
  "table48 seg s = (let (xs, rd) = read_bytes 16 seg (bk_rd s) in s\<lparr>bk_maps := (bk_maps s)\<lparr>mt48 := xs\<rparr>, bk_rd := rd\<rparr>)"

text \<open>End of object line: the next line of the field is two rows down.\<close>

definition end_of_line :: "refering_region \<Rightarrow> block_state \<Rightarrow> block_state" where
  "end_of_line rr s =
     (let l = (bk_line s + 2) mod 65536;
          l = (if rr_height rr < l then (l + 65534) mod 65536 else l)
      in s\<lparr>bk_line := l, bk_wp := rr_pixel rr + (rr_width rr * (rr_ver rr + l) + rr_hor rr)\<rparr>)"

definition block_body :: "nat \<Rightarrow> seg_data \<Rightarrow> refering_region \<Rightarrow> nat \<Rightarrow> block_state \<Rightarrow> block_out option" where
  "block_body fuel seg rr blen s =
     (let (t, rd) = read_byte seg (bk_rd s); s = s\<lparr>bk_rd := rd\<rparr>
      in if t = 0x10 then string2 fuel seg rr blen s
      else if t = 0x11 then string4 fuel seg rr blen s
      else if t = 0x12 then string8 fuel seg rr blen s
      else if t = 0x20 then Some (Go (table24 seg s))
      else if t = 0x21 then Some (Go (table28 seg s))
      else if t = 0x22 then Some (Go (table48 seg s))
      else if t = 0xf0 then Some (Go (end_of_line rr s))
      else Some (Go s))"

primrec block_loop ::
    "nat \<Rightarrow> nat \<Rightarrow> seg_data \<Rightarrow> refering_region \<Rightarrow> nat \<Rightarrow> block_state \<Rightarrow> (subt_ret \<times> block_state) option" where
  "block_loop 0 fuel seg rr blen s = None"
| "block_loop (Suc f) fuel seg rr blen s =
     (if rd_len (bk_rd s) < blen then
        (case block_body fuel seg rr blen s of
           None \<Rightarrow> None
         | Some (Ret r s) \<Rightarrow> Some (r, s)
         | Some (Go s) \<Rightarrow> block_loop f fuel seg rr blen s)
      else Some (SUBT_SUCCESS, s))"

definition T24 :: "u8 list" where "T24 = [0x0, 0x7, 0x8, 0xf]"
definition T28 :: "u8 list" where "T28 = [0x00, 0x77, 0x88, 0xff]"
definition T48 :: "u8 list" where
  "T48 = [0x00, 0x11, 0x22, 0x33, 0x44, 0x55, 0x66, 0x77,
          0x88, 0x99, 0xaa, 0xbb, 0xcc, 0xdd, 0xee, 0xff]"

text \<open>On entry the cursor is at the block's first byte; the two readers' statics are what the
last call left.\<close>

definition block_init :: "pixel_reader \<Rightarrow> memory \<Rightarrow> nat \<Rightarrow> block_state" where
  "block_init st m wp =
     \<lparr>bk_rd = st\<lparr>rd_ptr := 0, rd_len := 0\<rparr>, bk_mem = m, bk_wp = wp, bk_color = 0, bk_last = 0,
      bk_num = 0, bk_line = 0, bk_end = 0,
      bk_maps = \<lparr>mt24 = T24, mt28 = T28, mt48 = T48\<rparr>\<rparr>"

definition SUBT_Parse_PixelBlockDecode ::
    "nat \<Rightarrow> seg_data \<Rightarrow> refering_region \<Rightarrow> nat \<Rightarrow> nat \<Rightarrow> pixel_reader \<Rightarrow> memory \<Rightarrow>
     (subt_ret \<times> block_state) option" where
  "SUBT_Parse_PixelBlockDecode fuel seg rr wp blen st m =
     block_loop fuel fuel seg rr blen (block_init st m wp)"

section \<open>Painting\<close>

definition paint :: "memory \<Rightarrow> nat \<Rightarrow> u8 list \<Rightarrow> memory" where
  "paint m p cs = (\<lambda>a. if p \<le> a \<and> a < p + length cs then cs ! (a - p) else m a)"

definition pixels :: "(nat \<times> u8) list \<Rightarrow> u8 list" where
  "pixels rs = concat (map (\<lambda>(n, c). replicate n c) rs)"

lemma mem_set_paint: "mem_set m p c n = paint m p (replicate n c)"
  by (auto simp: mem_set_def paint_def fun_eq_iff)

lemma paint_append: "paint (paint m p cs) (p + length cs) ds = paint m p (cs @ ds)"
  by (auto simp: paint_def nth_append fun_eq_iff)

lemma paint_Nil [simp]: "paint m p [] = m"
  by (auto simp: paint_def fun_eq_iff)

lemma pixels_simps [simp]: "pixels [] = []" "pixels ((n, c) # rs) = replicate n c @ pixels rs"
  by (simp_all add: pixels_def)

section \<open>Code strings of the standard\<close>

text \<open>The end of the row the block is painting, as the code computes it.\<close>

definition row_end :: "refering_region \<Rightarrow> nat \<Rightarrow> nat" where
  "row_end rr l = rr_pixel rr + rr_width rr * (rr_ver rr + l + 1)"

definition string_code :: "(nat \<Rightarrow> u8 \<Rightarrow> u8 list) \<Rightarrow> (nat \<times> u8) list \<Rightarrow> u8 list" where
  "string_code code rs = concat (map (\<lambda>(n, c). code n c) rs)"

lemma string_code_simps [simp]:
  "string_code code [] = []" "string_code code ((n, c) # rs) = code n c @ string_code code rs"
  "string_code code (rs @ rs') = string_code code rs @ string_code code rs'"
  by (simp_all add: string_code_def)

text \<open>What a string leaves: the state after its runs.\<close>

definition painted :: "refering_region \<Rightarrow> (u8 \<Rightarrow> u8) \<Rightarrow> (nat \<times> u8) list \<Rightarrow> pixel_reader \<Rightarrow>
    block_state \<Rightarrow> block_state \<Rightarrow> bool" where
  "painted rr g rs rd s s' \<longleftrightarrow>
     bk_rd s' = rd \<and> bk_mem s' = paint (bk_mem s) (bk_wp s) (map g (pixels rs)) \<and>
     bk_wp s' = bk_wp s + length (pixels rs) \<and> bk_line s' = bk_line s \<and> bk_maps s' = bk_maps s \<and>
     bk_last s' = (if rs = [] then bk_last s else g (snd (last rs))) \<and>
     bk_end s' = (if rs = [] then bk_end s else row_end rr (bk_line s))"

lemma painted_trans:
  assumes "painted rr g [(n, c)] rd s s1" "painted rr g rs rd' s1 s2"
  shows "painted rr g ((n, c) # rs) rd' s s2"
  using assms paint_append [of "bk_mem s" "bk_wp s" "replicate n (g c)"]
  by (auto simp: painted_def)

context pixel_code
begin

lemma body_run:
  assumes "at_code seg p (bk_rd s)" "fits n c" "displays (unit seg) p (code n c)"
    and "row_end rr (bk_line s) \<le> rr_pixel rr + rr_len rr" "bk_wp s + n \<le> row_end rr (bk_line s)"
  obtains s' rd where "string_body dec conv cl seg rr s = Go s'" "bk_num s' = n"
    "painted rr (conv (rr_depth rr) (bk_maps s)) [(n, c)] rd s s'"
    "at_code seg (p + length (code n c)) rd"
proof -
  obtain rd where rd: "dec seg (bk_rd s) = (c, n, rd)" "at_code seg (p + length (code n c)) rd"
    using dec_run [OF assms(1-3)] by blast
  let ?g = "conv (rr_depth rr) (bk_maps s)"
  show thesis
  proof (rule that)
    show "string_body dec conv cl seg rr s = Go (s\<lparr>bk_rd := rd, bk_num := n, bk_color := ?g c,
        bk_end := row_end rr (bk_line s), bk_mem := paint (bk_mem s) (bk_wp s) (replicate n (?g c)),
        bk_wp := bk_wp s + n, bk_last := ?g c\<rparr>)"
      using rd(1) assms(4,5) fits_pos [OF assms(2)]
      by (simp add: string_body_def row_end_def mem_set_paint Let_def)
  qed (use rd in \<open>simp_all add: painted_def\<close>)
qed

lemma body_stop:
  assumes "at_code seg p (bk_rd s)" "displays (unit seg) p stop"
  obtains s' rd where "string_body dec conv cl seg rr s = Go s'" "bk_num s' = 0"
    "painted rr g [] rd s s'" "at_code seg (p + length stop) rd"
proof -
  obtain rd where rd: "dec seg (bk_rd s) = (0, 0, rd)" "at_code seg (p + length stop) rd"
    using dec_stop [OF assms] by blast
  show thesis
  proof (rule that)
    show "string_body dec conv cl seg rr s = Go (s\<lparr>bk_rd := rd, bk_color := 0, bk_num := 0\<rparr>)"
      using rd(1) by (simp add: string_body_def)
  qed (use rd in \<open>simp_all add: painted_def\<close>)
qed

lemma at_len:
  assumes "at_code seg p rd" "p \<le> q" "(q + per - 1) div per < blen" "blen < 65536"
  shows "rd_len rd < blen"
proof -
  have "(p + per - 1) div per \<le> (q + per - 1) div per"
    using assms(2) by (intro div_le_mono) simp
  then show ?thesis
    using at_ptr [OF assms(1)] assms(3,4) by simp
qed

text \<open>Runs that fit the row at the head of a string.\<close>

lemma loop_prefix:
  assumes "at_code seg p (bk_rd s)" "\<And>n c. (n, c) \<in> set rs \<Longrightarrow> fits n c"
    and "displays (unit seg) p (string_code code rs)"
    and "row_end rr (bk_line s) \<le> rr_pixel rr + rr_len rr"
    and "bk_wp s + length (pixels rs) \<le> row_end rr (bk_line s)"
    and "(p + length (string_code code rs) + per - 1) div per < blen" "blen < 65536"
    and "length rs \<le> f"
  shows "\<exists>s' rd. string_loop f dec conv cl seg rr blen s =
      string_loop (f - length rs) dec conv cl seg rr blen s' \<and>
    painted rr (conv (rr_depth rr) (bk_maps s)) rs rd s s' \<and>
    at_code seg (p + length (string_code code rs)) rd"
  using assms
proof (induction rs arbitrary: s p f)
  case Nil
  then show ?case by (intro exI [of _ s] exI [of _ "bk_rd s"]) (simp add: painted_def)
next
  case (Cons r rs)
  obtain n c where r: "r = (n, c)" by fastforce
  obtain f' where f: "f = Suc f'" using Cons.prems by (cases f) auto
  let ?g = "conv (rr_depth rr) (bk_maps s)"
  obtain s1 rd1 where s1: "string_body dec conv cl seg rr s = Go s1" "bk_num s1 = n"
    "painted rr ?g [(n, c)] rd1 s s1" "at_code seg (p + length (code n c)) rd1"
    by (rule body_run [OF Cons.prems(1), where n = n and c = c and rr = rr and conv = conv and cl = cl])
      (use Cons.prems r in auto)
  have q: "bk_rd s1 = rd1" "bk_line s1 = bk_line s" "bk_maps s1 = bk_maps s" "bk_wp s1 = bk_wp s + n"
    using s1(3) by (auto simp: painted_def)
  have "rd_len rd1 < blen"
    by (rule at_len [OF s1(4) _ _ Cons.prems(7)]) (use Cons.prems(6) r in auto)
  moreover have "n \<noteq> 0"
    using Cons.prems(2) fits_pos r by force
  moreover have "\<exists>s' rd. string_loop f' dec conv cl seg rr blen s1 =
      string_loop (f' - length rs) dec conv cl seg rr blen s' \<and>
    painted rr (conv (rr_depth rr) (bk_maps s1)) rs rd s1 s' \<and>
    at_code seg (p + length (code n c) + length (string_code code rs)) rd"
    by (rule Cons.IH) (use Cons.prems s1 q r f in \<open>auto simp: add.assoc\<close>)
  ultimately show ?case
    using f r q s1 painted_trans by (fastforce simp: add.assoc)
qed

lemma loop_runs:
  assumes "at_code seg p (bk_rd s)" "\<And>n c. (n, c) \<in> set rs \<Longrightarrow> fits n c"
    and "displays (unit seg) p (string_code code rs @ stop)"
    and "row_end rr (bk_line s) \<le> rr_pixel rr + rr_len rr"
    and "bk_wp s + length (pixels rs) \<le> row_end rr (bk_line s)"
    and "(p + length (string_code code rs) + per - 1) div per < blen" "blen < 65536"
    and "length rs < f"
  shows "\<exists>s' rd. string_loop f dec conv cl seg rr blen s = Some (Go s') \<and>
    painted rr (conv (rr_depth rr) (bk_maps s)) rs rd s s' \<and>
    at_code seg (p + length (string_code code rs) + length stop) rd"
proof -
  let ?g = "conv (rr_depth rr) (bk_maps s)" and ?q = "p + length (string_code code rs)"
  obtain s1 rd1 where s1: "string_loop f dec conv cl seg rr blen s =
      string_loop (f - length rs) dec conv cl seg rr blen s1" "painted rr ?g rs rd1 s s1" "at_code seg ?q rd1"
    using loop_prefix [OF assms(1,2) _ assms(4-7), of f conv cl] assms(3,8) by auto
  obtain f' where f: "f - length rs = Suc f'" using assms(8) by (cases "f - length rs") auto
  have rd1: "bk_rd s1 = rd1" using s1(2) by (simp add: painted_def)
  obtain s' rd where s': "string_body dec conv cl seg rr s1 = Go s'" "bk_num s' = 0"
    "painted rr ?g [] rd s1 s'" "at_code seg (?q + length stop) rd"
    by (rule body_stop [where s = s1 and seg = seg and p = ?q and rr = rr and conv = conv and cl = cl and g = ?g])
      (use s1(3) rd1 assms(3) in auto)
  have "painted rr ?g rs rd s s'" using s1(2) s'(3) by (auto simp: painted_def)
  then show ?thesis using s1(1) f s' by auto
qed

end

section \<open>A line of an object\<close>

definition row_at :: "refering_region \<Rightarrow> nat \<Rightarrow> nat" where
  "row_at rr l = rr_pixel rr + (rr_width rr * (rr_ver rr + l) + rr_hor rr)"

text \<open>The pixels of a line with the one or two more the decoder adds inside the row.\<close>

definition object_line :: "refering_region \<Rightarrow> u8 list \<Rightarrow> u8 list" where
  "object_line rr cs = cs @ replicate (min 2 (rr_width rr - (rr_hor rr + length cs))) (last cs)"

text \<open>The effect of a whole string on the state.\<close>

definition line_done :: "refering_region \<Rightarrow> u8 list \<Rightarrow> block_state \<Rightarrow> block_state \<Rightarrow> bool" where
  "line_done rr cs s s' \<longleftrightarrow>
     bk_mem s' = paint (bk_mem s) (bk_wp s) (object_line rr cs) \<and> bk_line s' = bk_line s \<and>
     bk_maps s' = bk_maps s"

lemma row_end_at: "rr_hor rr \<le> rr_width rr \<Longrightarrow> row_end rr l = row_at rr l + (rr_width rr - rr_hor rr)"
  by (simp add: row_end_def row_at_def)

lemma adjust_line:
  assumes p: "painted rr g rs rd s s'" and rs: "rs \<noteq> []" "0 < fst (last rs)"
    and wp: "bk_wp s = row_at rr (bk_line s)" and le: "rr_hor rr + length (pixels rs) \<le> rr_width rr"
  shows "line_done rr (map g (pixels rs)) s (line_adjust s')" "bk_rd (line_adjust s') = rd"
proof -
  let ?cs = "map g (pixels rs)"
  have l: "last ?cs = g (snd (last rs))" "?cs \<noteq> []"
    using rs by (cases rs rule: rev_cases; auto simp: pixels_def last_append)+
  have "ulong_sub (bk_end s') (bk_wp s') = rr_width rr - (rr_hor rr + length ?cs)"
    using p rs(1) wp le by (simp add: painted_def ulong_sub_def row_end_at)
  moreover have "(if 2 < d then 2 else d mod 65536) = min 2 d" for d :: nat
    by simp
  ultimately show "line_done rr ?cs s (line_adjust s')" "bk_rd (line_adjust s') = rd"
    using p rs(1) l paint_append [of "bk_mem s" "bk_wp s" ?cs]
    by (simp_all add: line_done_def line_adjust_def object_line_def painted_def mem_set_paint)
qed

context pixel_code
begin

lemma runs_pos:
  assumes "\<And>n c. (n, c) \<in> set rs \<Longrightarrow> fits n c" "rs \<noteq> []" shows "0 < fst (last rs)"
  using assms(1) [of "fst (last rs)" "snd (last rs)"] fits_pos last_in_set [OF assms(2)] by simp

lemma loop_line:
  assumes "at_code seg p (bk_rd s)" "\<And>n c. (n, c) \<in> set rs \<Longrightarrow> fits n c" "rs \<noteq> []"
    and "displays (unit seg) p (string_code code rs @ stop)"
    and "row_end rr (bk_line s) \<le> rr_pixel rr + rr_len rr"
    and wp: "bk_wp s = row_at rr (bk_line s)" and le: "rr_hor rr + length (pixels rs) \<le> rr_width rr"
    and "(p + length (string_code code rs) + per - 1) div per < blen" "blen < 65536"
    and "length rs < f"
  shows "\<exists>s' rd. string_loop f dec conv cl seg rr blen s = Some (Go s') \<and>
    line_done rr (map (conv (rr_depth rr) (bk_maps s)) (pixels rs)) s (line_adjust s') \<and>
    bk_rd (line_adjust s') = rd \<and>
    at_code seg (p + length (string_code code rs) + length stop) rd"
proof -
  have "bk_wp s + length (pixels rs) \<le> row_end rr (bk_line s)"
    using wp le by (simp add: row_end_at)
  then obtain s' rd where "string_loop f dec conv cl seg rr blen s = Some (Go s')"
    "painted rr (conv (rr_depth rr) (bk_maps s)) rs rd s s'"
    "at_code seg (p + length (string_code code rs) + length stop) rd"
    using loop_runs [OF assms(1,2,4,5) _ assms(8-10)] by blast
  then show ?thesis
    using adjust_line [OF _ assms(3) runs_pos [OF assms(2,3)] wp le] by blast
qed

end

section \<open>Packing codes into bytes\<close>

text \<open>The encoder's side: codes of two or four bits in bytes, the last byte filled up with
zeros (the standard's stuffing bits).\<close>

definition quad :: "u8 \<Rightarrow> u8 \<Rightarrow> u8 \<Rightarrow> u8 \<Rightarrow> u8" where
  "quad a b c d =
     push_bit 6 (a AND 3) OR push_bit 4 (b AND 3) OR push_bit 2 (c AND 3) OR (d AND 3)"

fun pack2 :: "u8 list \<Rightarrow> u8 list" where
  "pack2 [] = []"
| "pack2 [a] = [quad a 0 0 0]"
| "pack2 [a, b] = [quad a b 0 0]"
| "pack2 [a, b, c] = [quad a b c 0]"
| "pack2 (a # b # c # d # us) = quad a b c d # pack2 us"

fun pack4 :: "u8 list \<Rightarrow> u8 list" where
  "pack4 [] = []"
| "pack4 [a] = [push_bit 4 (a AND 15)]"
| "pack4 (a # b # us) = (push_bit 4 (a AND 15) OR (b AND 15)) # pack4 us"

lemma length_pack2 [simp]: "length (pack2 us) = (length us + 3) div 4"
  by (induction us rule: pack2.induct) auto

lemma length_pack4 [simp]: "length (pack4 us) = (length us + 1) div 2"
  by (induction us rule: pack4.induct) auto

lemma u8_eqI:
  fixes x y :: u8
  assumes "bit x 0 = bit y 0" "bit x 1 = bit y 1" "bit x 2 = bit y 2" "bit x 3 = bit y 3"
    "bit x 4 = bit y 4" "bit x 5 = bit y 5" "bit x 6 = bit y 6" "bit x 7 = bit y 7"
  shows "x = y"
proof (rule bit_word_eqI)
  fix n assume "n < LENGTH(8)"
  then have "n = 0 \<or> n = 1 \<or> n = 2 \<or> n = 3 \<or> n = 4 \<or> n = 5 \<or> n = 6 \<or> n = 7"
    by (auto simp: less_Suc_eq numeral_eq_Suc)
  then show "bit x n = bit y n" using assms by blast
qed

lemma quad_bits:
  "drop_bit 6 (quad a b c d) AND 3 = a AND 3" "drop_bit 4 (quad a b c d) AND 3 = b AND 3"
  "drop_bit 2 (quad a b c d) AND 3 = c AND 3" "quad a b c d AND 3 = d AND 3"
  unfolding quad_def by (rule u8_eqI; simp add: bit_simps)+

lemma nib_bits:
  "drop_bit 4 (push_bit 4 (a AND 15) :: u8) AND 15 = a AND 15"
  "drop_bit 4 (push_bit 4 (a AND 15) OR (b AND 15) :: u8) AND 15 = a AND 15"
  "(push_bit 4 (a AND 15) OR (b AND 15) :: u8) AND 15 = b AND 15"
  by (rule u8_eqI; simp add: bit_simps)+

lemma pair_at:
  "pair seg (4 * k) = drop_bit 6 (seg k) AND 3" "pair seg (Suc (4 * k)) = drop_bit 4 (seg k) AND 3"
  "pair seg (Suc (Suc (4 * k))) = drop_bit 2 (seg k) AND 3"
  "pair seg (Suc (Suc (Suc (4 * k)))) = seg k AND 3"
  "nib seg (2 * k) = drop_bit 4 (seg k) AND 15" "nib seg (Suc (2 * k)) = seg k AND 15"
  by (simp_all add: pair_def nib_def mod_Suc)

lemma four_Suc: "4 + k = Suc (Suc (Suc (Suc k)))"
  by simp

lemma displays_pack2:
  "displays seg k (pack2 us) \<Longrightarrow> displays (pair seg) (4 * k) (map (\<lambda>u. u AND 3) us)"
proof (induction us arbitrary: k rule: pack2.induct)
  case (5 a b c d us)
  then show ?case
    using "5.IH" [of "Suc k"] by (simp add: pair_at quad_bits four_Suc)
qed (auto simp: pair_at quad_bits)

lemma displays_pack4:
  "displays seg k (pack4 us) \<Longrightarrow> displays (nib seg) (2 * k) (map (\<lambda>u. u AND 15) us)"
proof (induction us arbitrary: k rule: pack4.induct)
  case (3 a b us)
  then show ?case
    using "3.IH" [of "Suc k"] by (simp add: pair_at nib_bits del: push_bit_and)
qed (auto simp: pair_at nib_bits simp del: push_bit_and)

lemma small_and:
  "u < 4 \<Longrightarrow> u AND 3 = (u :: u8)" "u < 16 \<Longrightarrow> u AND 15 = u"
  using less_mask_eq [of u 2] less_mask_eq [of u 4] by (simp_all add: mask_numeral)

lemma code2_small:
  assumes "fits2 n c" "u \<in> set (code2 n c)" shows "u AND 3 = u"
proof -
  have "u = of_nat (2 + (n - 3) div 4) \<Longrightarrow> n \<le> 10 \<Longrightarrow> u < 4"
    using u8_of_nat [of "2 + (n - 3) div 4"] by (simp add: word_less_nat_alt del: of_nat_add)
  then have "u < 4"
    using assms by (auto simp: fits2_def code2_def word_less_nat_alt u8_of_nat
      simp del: of_nat_diff of_nat_add split: if_splits)
  then show ?thesis by (rule small_and)
qed

lemma code4_small: "fits4 n c \<Longrightarrow> u \<in> set (code4 n c) \<Longrightarrow> u AND 15 = u"
  by (intro small_and) (auto simp: fits4_def code4_def word_less_nat_alt u8_of_nat
      simp del: of_nat_diff of_nat_add split: if_splits)

section \<open>Lines of the three types\<close>

lemma at8_at: "at8 seg k rd \<Longrightarrow> at2 seg (4 * k) rd" "at8 seg k rd \<Longrightarrow> at4 seg (2 * k) rd"
  by (simp_all add: at2_def at4_def at8_def)

lemma reset_at:
  "at2 seg p rd \<Longrightarrow> at8 seg ((p + 3) div 4) (snd (ReadNext2BitPixel seg True rd))"
  "at4 seg p rd \<Longrightarrow> at8 seg ((p + 1) div 2) (snd (ReadNext4BitPixel seg True rd))"
  by (simp_all add: at2_def at4_def at8_def ReadNext2BitPixel_def ReadNext4BitPixel_def)

lemma string_code_map:
  assumes "\<And>n c u. (n, c) \<in> set rs \<Longrightarrow> u \<in> set (code n c) \<Longrightarrow> f u = u"
  shows "map f (string_code code rs) = string_code code rs"
  by (rule map_idI) (use assms in \<open>auto simp: string_code_def\<close>)

datatype obj_line = L2 "(nat \<times> u8) list" | L4 "(nat \<times> u8) list" | L8 "(nat \<times> u8) list"

primrec enc_line :: "obj_line \<Rightarrow> u8 list" where
  "enc_line (L2 rs) = 0x10 # pack2 (string_code code2 rs @ [0, 0, 0])"
| "enc_line (L4 rs) = 0x11 # pack4 (string_code code4 rs @ [0, 0])"
| "enc_line (L8 rs) = 0x12 # string_code code8 rs @ [0, 0]"

primrec line_runs :: "obj_line \<Rightarrow> (nat \<times> u8) list" where
  "line_runs (L2 rs) = rs" | "line_runs (L4 rs) = rs" | "line_runs (L8 rs) = rs"

primrec line_fits :: "obj_line \<Rightarrow> nat \<Rightarrow> u8 \<Rightarrow> bool" where
  "line_fits (L2 rs) = fits2" | "line_fits (L4 rs) = fits4" | "line_fits (L8 rs) = fits8"

primrec line_conv :: "obj_line \<Rightarrow> conversion" where
  "line_conv (L2 rs) = conv2" | "line_conv (L4 rs) = conv4" | "line_conv (L8 rs) = conv8"

definition line_pixels :: "nat \<Rightarrow> map_tables \<Rightarrow> obj_line \<Rightarrow> u8 list" where
  "line_pixels depth t L = map (line_conv L depth t) (pixels (line_runs L))"

definition obj_line_ok :: "refering_region \<Rightarrow> obj_line \<Rightarrow> bool" where
  "obj_line_ok rr L \<longleftrightarrow> line_runs L \<noteq> [] \<and> list_all (\<lambda>(n, c). line_fits L n c) (line_runs L) \<and>
     rr_hor rr + length (pixels (line_runs L)) \<le> rr_width rr"

lemma obj_line_okD:
  assumes "obj_line_ok rr L"
  shows "line_runs L \<noteq> []" "(n, c) \<in> set (line_runs L) \<Longrightarrow> line_fits L n c"
    "rr_hor rr + length (pixels (line_runs L)) \<le> rr_width rr"
  using assms by (auto simp: obj_line_ok_def list_all_iff)

text \<open>The three strings, from a byte boundary to a byte boundary.\<close>

lemma string2_line:
  assumes a: "at8 seg k (bk_rd s)" and ok: "obj_line_ok rr (L2 rs)"
    and d: "displays seg k (pack2 (string_code code2 rs @ [0, 0, 0]))"
    and re: "row_end rr (bk_line s) \<le> rr_pixel rr + rr_len rr" and wp: "bk_wp s = row_at rr (bk_line s)"
    and bl: "k + length (pack2 (string_code code2 rs @ [0, 0, 0])) < blen" "blen < 65536"
    and f: "length rs < fuel"
  shows "\<exists>s'. string2 fuel seg rr blen s = Some (Go s') \<and>
    line_done rr (line_pixels (rr_depth rr) (bk_maps s) (L2 rs)) s s' \<and>
    at8 seg (k + length (pack2 (string_code code2 rs @ [0, 0, 0]))) (bk_rd s')"
proof -
  let ?us = "string_code code2 rs @ [0, 0, 0 :: u8]"
  have "map (\<lambda>u. u AND 3) (string_code code2 rs) = string_code code2 rs"
    by (rule string_code_map, rule code2_small, rule obj_line_okD(2) [OF ok, simplified])
  then have "map (\<lambda>u. u AND 3) ?us = ?us"
    by simp
  then have d2: "displays (pair seg) (4 * k) ?us"
    using displays_pack2 [OF d] by metis
  have "(4 * k + length (string_code code2 rs) + 4 - 1) div 4 \<le> k + length (pack2 ?us)"
    by simp
  then have e: "(4 * k + length (string_code code2 rs) + 4 - 1) div 4 < blen"
    using bl(1) by linarith
  obtain s' rd where s': "string_loop fuel Decode2Pixel conv2 True seg rr blen s = Some (Go s')"
    "line_done rr (map (conv2 (rr_depth rr) (bk_maps s)) (pixels rs)) s (line_adjust s')"
    "bk_rd (line_adjust s') = rd" "at2 seg (4 * k + length (string_code code2 rs) + 3) rd"
    using px2.loop_line [OF at8_at(1) [OF a] _ _ d2 re wp _ e bl(2) f, of conv2 True] obj_line_okD [OF ok]
    by (auto simp: numeral_3_eq_3)
  have "(4 * k + length (string_code code2 rs) + 3 + 3) div 4 = k + length (pack2 ?us)"
    by simp
  then have "at8 seg (k + length (pack2 ?us)) (bk_rd (reset2 seg (line_adjust s')))"
    using reset_at(1) [OF s'(4)] s'(3) by (simp add: reset2_def)
  then show ?thesis
    using s'(1,2) by (simp add: string2_def then_go_def line_done_def line_pixels_def reset2_def)
qed

lemma string4_line:
  assumes a: "at8 seg k (bk_rd s)" and ok: "obj_line_ok rr (L4 rs)"
    and d: "displays seg k (pack4 (string_code code4 rs @ [0, 0]))"
    and re: "row_end rr (bk_line s) \<le> rr_pixel rr + rr_len rr" and wp: "bk_wp s = row_at rr (bk_line s)"
    and bl: "k + length (pack4 (string_code code4 rs @ [0, 0])) < blen" "blen < 65536"
    and f: "length rs < fuel"
  shows "\<exists>s'. string4 fuel seg rr blen s = Some (Go s') \<and>
    line_done rr (line_pixels (rr_depth rr) (bk_maps s) (L4 rs)) s s' \<and>
    at8 seg (k + length (pack4 (string_code code4 rs @ [0, 0]))) (bk_rd s')"
proof -
  let ?us = "string_code code4 rs @ [0, 0 :: u8]"
  have "map (\<lambda>u. u AND 15) (string_code code4 rs) = string_code code4 rs"
    by (rule string_code_map, rule code4_small, rule obj_line_okD(2) [OF ok, simplified])
  then have "map (\<lambda>u. u AND 15) ?us = ?us"
    by simp
  then have d2: "displays (nib seg) (2 * k) ?us"
    using displays_pack4 [OF d] by metis
  have "(2 * k + length (string_code code4 rs) + 2 - 1) div 2 \<le> k + length (pack4 ?us)"
    by simp
  then have e: "(2 * k + length (string_code code4 rs) + 2 - 1) div 2 < blen"
    using bl(1) by linarith
  obtain s' rd where s': "string_loop fuel Decode4Pixel conv4 False seg rr blen s = Some (Go s')"
    "line_done rr (map (conv4 (rr_depth rr) (bk_maps s)) (pixels rs)) s (line_adjust s')"
    "bk_rd (line_adjust s') = rd" "at4 seg (2 * k + length (string_code code4 rs) + 2) rd"
    using px4.loop_line [OF at8_at(2) [OF a] _ _ d2 re wp _ e bl(2) f, of conv4 False] obj_line_okD [OF ok]
    by auto
  have "(2 * k + length (string_code code4 rs) + 2 + 1) div 2 = k + length (pack4 ?us)"
    by simp
  then have "at8 seg (k + length (pack4 ?us)) (bk_rd (reset4 seg (line_adjust s')))"
    using reset_at(2) [OF s'(4)] s'(3) by (simp add: reset4_def)
  then show ?thesis
    using s'(1,2) by (simp add: string4_def then_go_def line_done_def line_pixels_def reset4_def)
qed

lemma string8_line:
  assumes a: "at8 seg k (bk_rd s)" and ok: "obj_line_ok rr (L8 rs)"
    and d: "displays seg k (string_code code8 rs @ [0, 0])"
    and re: "row_end rr (bk_line s) \<le> rr_pixel rr + rr_len rr" and wp: "bk_wp s = row_at rr (bk_line s)"
    and bl: "k + length (string_code code8 rs @ [0, 0 :: u8]) < blen" "blen < 65536"
    and f: "length rs < fuel"
  shows "\<exists>s'. string8 fuel seg rr blen s = Some (Go s') \<and>
    line_done rr (line_pixels (rr_depth rr) (bk_maps s) (L8 rs)) s s' \<and>
    at8 seg (k + length (string_code code8 rs @ [0, 0 :: u8])) (bk_rd s')"
proof -
  have e: "(k + length (string_code code8 rs) + 1 - 1) div 1 < blen"
    using bl(1) by simp
  obtain s' rd where s': "string_loop fuel Decode8Pixel conv8 False seg rr blen s = Some (Go s')"
    "line_done rr (map (conv8 (rr_depth rr) (bk_maps s)) (pixels rs)) s (line_adjust s')"
    "bk_rd (line_adjust s') = rd" "at8 seg (k + length (string_code code8 rs) + 2) rd"
    using px8.loop_line [OF a _ _ d re wp _ e bl(2) f, of conv8 False] obj_line_okD [OF ok] by auto
  then show ?thesis
    by (simp add: string8_def then_go_def line_done_def line_pixels_def)
qed

section \<open>A block of lines\<close>

definition enc_block :: "obj_line list \<Rightarrow> u8 list" where
  "enc_block Ls = concat (map (\<lambda>L. enc_line L @ [0xf0]) Ls)"

lemma enc_block_simps [simp]:
  "enc_block [] = []" "enc_block (L # Ls) = enc_line L @ 0xf0 # enc_block Ls"
  by (simp_all add: enc_block_def)

text \<open>What the field must look like: every other row from the object's first one.\<close>

primrec field :: "refering_region \<Rightarrow> memory \<Rightarrow> nat \<Rightarrow> u8 list list \<Rightarrow> memory" where
  "field rr m l [] = m"
| "field rr m l (cs # css) = field rr (paint m (row_at rr l) (object_line rr cs)) (l + 2) css"

lemma read_at8:
  assumes "at8 seg k (bk_rd s)" "seg k = t"
  shows "read_byte seg (bk_rd s) = (t, rd_next (bk_rd s))" "at8 seg (Suc k) (rd_next (bk_rd s))"
  using assms read8_nx by auto

lemma body_line:
  assumes a: "at8 seg k (bk_rd s)" and ok: "obj_line_ok rr L" and d: "displays seg k (enc_line L)"
    and re: "row_end rr (bk_line s) \<le> rr_pixel rr + rr_len rr" and wp: "bk_wp s = row_at rr (bk_line s)"
    and bl: "k + length (enc_line L) < blen" "blen < 65536" and f: "length (line_runs L) < fuel"
  shows "\<exists>s'. block_body fuel seg rr blen s = Some (Go s') \<and>
    line_done rr (line_pixels (rr_depth rr) (bk_maps s) L) s s' \<and>
    at8 seg (k + length (enc_line L)) (bk_rd s')"
proof -
  let ?s = "s\<lparr>bk_rd := rd_next (bk_rd s)\<rparr>"
  have a1: "at8 seg (Suc k) (bk_rd ?s)"
    using read_at8 [OF a] by simp
  have re1: "row_end rr (bk_line ?s) \<le> rr_pixel rr + rr_len rr" "bk_wp ?s = row_at rr (bk_line ?s)"
    using re wp by simp_all
  show ?thesis
  proof (cases L)
    case (L2 rs)
    obtain s' where "string2 fuel seg rr blen ?s = Some (Go s')"
      "line_done rr (line_pixels (rr_depth rr) (bk_maps ?s) (L2 rs)) ?s s'"
      "at8 seg (Suc k + length (pack2 (string_code code2 rs @ [0, 0, 0]))) (bk_rd s')"
      using string2_line [OF a1 _ _ re1 _ bl(2), of rs fuel] ok d bl(1) f L2 by auto
    then show ?thesis
      using read_at8 [OF a] d L2 by (simp add: block_body_def line_done_def)
  next
    case (L4 rs)
    obtain s' where "string4 fuel seg rr blen ?s = Some (Go s')"
      "line_done rr (line_pixels (rr_depth rr) (bk_maps ?s) (L4 rs)) ?s s'"
      "at8 seg (Suc k + length (pack4 (string_code code4 rs @ [0, 0]))) (bk_rd s')"
      using string4_line [OF a1 _ _ re1 _ bl(2), of rs fuel] ok d bl(1) f L4 by auto
    then show ?thesis
      using read_at8 [OF a] d L4 by (simp add: block_body_def line_done_def)
  next
    case (L8 rs)
    obtain s' where "string8 fuel seg rr blen ?s = Some (Go s')"
      "line_done rr (line_pixels (rr_depth rr) (bk_maps ?s) (L8 rs)) ?s s'"
      "at8 seg (Suc k + length (string_code code8 rs @ [0, 0 :: u8])) (bk_rd s')"
      using string8_line [OF a1 _ _ re1 _ bl(2), of rs fuel] ok d bl(1) f L8 by auto
    then show ?thesis
      using read_at8 [OF a] d L8 by (simp add: block_body_def line_done_def)
  qed
qed

lemma body_eol:
  assumes "at8 seg k (bk_rd s)" "seg k = 0xf0" "rr_height rr < 65536" "bk_line s + 2 < 65536"
  shows "\<exists>s'. block_body fuel seg rr blen s = Some (Go s') \<and> at8 seg (Suc k) (bk_rd s') \<and>
    bk_mem s' = bk_mem s \<and> bk_maps s' = bk_maps s \<and>
    (bk_line s + 2 \<le> rr_height rr \<longrightarrow>
       bk_line s' = bk_line s + 2 \<and> bk_wp s' = row_at rr (bk_line s'))"
  using read_at8 [OF assms(1,2)] assms(3,4)
  by (auto simp: block_body_def end_of_line_def Let_def row_at_def)

lemma at8_len: "at8 seg k rd \<Longrightarrow> k < 65536 \<Longrightarrow> rd_len rd = k"
  by (simp add: at8_def)

text \<open>Whole lines at the head of a block: the line counter follows while the region has rows.\<close>

lemma block_prefix:
  assumes "at8 seg k (bk_rd s)" "\<And>L. L \<in> set Ls \<Longrightarrow> obj_line_ok rr L" "displays seg k (enc_block Ls)"
    and "\<And>i. i < length Ls \<Longrightarrow> row_end rr (bk_line s + 2 * i) \<le> rr_pixel rr + rr_len rr"
    and "bk_wp s = row_at rr (bk_line s)" "k + length (enc_block Ls) \<le> blen" "blen < 65536"
    and "\<And>L. L \<in> set Ls \<Longrightarrow> length (line_runs L) < fuel" "2 * length Ls \<le> f"
    and "rr_height rr < 65534" "bk_line s + 2 * length Ls \<le> rr_height rr + 2"
  shows "\<exists>s'. block_loop f fuel seg rr blen s = block_loop (f - 2 * length Ls) fuel seg rr blen s' \<and>
    at8 seg (k + length (enc_block Ls)) (bk_rd s') \<and> bk_maps s' = bk_maps s \<and>
    bk_mem s' = field rr (bk_mem s) (bk_line s) (map (line_pixels (rr_depth rr) (bk_maps s)) Ls) \<and>
    (bk_line s + 2 * length Ls \<le> rr_height rr \<longrightarrow>
       bk_line s' = bk_line s + 2 * length Ls \<and> bk_wp s' = row_at rr (bk_line s'))"
  using assms
proof (induction Ls arbitrary: k s f)
  case Nil
  then show ?case by (intro exI [of _ s]) simp
next
  case (Cons L Ls)
  obtain f' where f: "f = Suc (Suc f')" using Cons.prems(9) by (cases f; cases "f - 1") auto
  let ?n = "length (enc_line L)"
  have d: "displays seg k (enc_line L)" "seg (k + ?n) = 0xf0" "displays seg (Suc (k + ?n)) (enc_block Ls)"
    using Cons.prems(3) by auto
  have re: "row_end rr (bk_line s) \<le> rr_pixel rr + rr_len rr"
    using Cons.prems(4) [of 0] by simp
  have n: "k + ?n < blen" "k < blen" using Cons.prems(6) by auto
  obtain s1 where s1: "block_body fuel seg rr blen s = Some (Go s1)"
    "line_done rr (line_pixels (rr_depth rr) (bk_maps s) L) s s1" "at8 seg (k + ?n) (bk_rd s1)"
    using body_line [OF Cons.prems(1) _ d(1) re Cons.prems(5) n(1) Cons.prems(7)]
      Cons.prems(2,8) by (meson list.set_intros(1))
  have l: "bk_line s1 = bk_line s" "bk_maps s1 = bk_maps s" using s1(2) by (auto simp: line_done_def)
  have e: "rr_height rr < 65536" "bk_line s1 + 2 < 65536"
    using Cons.prems(10,11) l by auto
  obtain s2 where s2: "block_body fuel seg rr blen s1 = Some (Go s2)" "at8 seg (Suc (k + ?n)) (bk_rd s2)"
    "bk_mem s2 = bk_mem s1" "bk_maps s2 = bk_maps s1" "bk_line s + 2 \<le> rr_height rr \<longrightarrow>
       bk_line s2 = bk_line s + 2 \<and> bk_wp s2 = row_at rr (bk_line s2)"
    using body_eol [OF s1(3) d(2) e, of fuel blen] unfolding l(1) by blast
  have step: "block_loop f fuel seg rr blen s = block_loop f' fuel seg rr blen s2"
    using f s1 s2 n at8_len [OF Cons.prems(1)] at8_len [OF s1(3)] Cons.prems(7) by simp
  have m: "bk_mem s2 = paint (bk_mem s) (row_at rr (bk_line s))
      (object_line rr (line_pixels (rr_depth rr) (bk_maps s) L))"
    using s1(2) s2(3) Cons.prems(5) by (simp add: line_done_def)
  show ?case
  proof (cases "bk_line s + 2 \<le> rr_height rr")
    case False
    then have "Ls = []" using Cons.prems(11) by (cases Ls) auto
    then show ?thesis
      using False step s2(2,4) m l(2) f by (intro exI [of _ s2]) simp
  next
    case True
    then have h: "bk_line s2 = bk_line s + 2" "bk_wp s2 = row_at rr (bk_line s2)"
      using s2(5) by auto
    have i: "row_end rr (bk_line s2 + 2 * i) \<le> rr_pixel rr + rr_len rr" if "i < length Ls" for i
      using Cons.prems(4) [of "Suc i"] h(1) that by simp
    have "\<exists>s'. block_loop f' fuel seg rr blen s2 = block_loop (f' - 2 * length Ls) fuel seg rr blen s' \<and>
        at8 seg (Suc (k + ?n) + length (enc_block Ls)) (bk_rd s') \<and> bk_maps s' = bk_maps s2 \<and>
        bk_mem s' = field rr (bk_mem s2) (bk_line s2) (map (line_pixels (rr_depth rr) (bk_maps s2)) Ls) \<and>
        (bk_line s2 + 2 * length Ls \<le> rr_height rr \<longrightarrow>
           bk_line s' = bk_line s2 + 2 * length Ls \<and> bk_wp s' = row_at rr (bk_line s'))"
      by (rule Cons.IH [OF s2(2) _ d(3) i h(2) _ Cons.prems(7) _ _ Cons.prems(10)])
        (use Cons.prems(2,6,8,9,11) f h(1) in auto)
    then show ?thesis
      using step s2(4) m l(2) h(1) f by (simp add: add.assoc)
  qed
qed

lemma block_lines:
  assumes "at8 seg k (bk_rd s)" "\<And>L. L \<in> set Ls \<Longrightarrow> obj_line_ok rr L" "displays seg k (enc_block Ls)"
    and "\<And>i. i < length Ls \<Longrightarrow> row_end rr (bk_line s + 2 * i) \<le> rr_pixel rr + rr_len rr"
    and "bk_wp s = row_at rr (bk_line s)" "blen = k + length (enc_block Ls)" "blen < 65536"
    and "\<And>L. L \<in> set Ls \<Longrightarrow> length (line_runs L) < fuel" "2 * length Ls < f"
    and "rr_height rr < 65534" "bk_line s + 2 * length Ls \<le> rr_height rr + 2"
  shows "\<exists>s'. block_loop f fuel seg rr blen s = Some (SUBT_SUCCESS, s') \<and> at8 seg blen (bk_rd s') \<and>
    bk_mem s' =
      field rr (bk_mem s) (bk_line s) (map (line_pixels (rr_depth rr) (bk_maps s)) Ls)"
proof -
  obtain s' where s': "block_loop f fuel seg rr blen s = block_loop (f - 2 * length Ls) fuel seg rr blen s'"
    "at8 seg blen (bk_rd s')"
    "bk_mem s' = field rr (bk_mem s) (bk_line s) (map (line_pixels (rr_depth rr) (bk_maps s)) Ls)"
    using block_prefix [OF assms(1-5) _ assms(7,8) _ assms(10,11)] assms(6,9) by (metis less_imp_le order_refl)
  obtain f' where "f - 2 * length Ls = Suc f'" using assms(9) by (cases "f - 2 * length Ls") auto
  then show ?thesis using s' at8_len [OF s'(2) assms(7)] by auto
qed

end
