(* ===== verification/SubtField.thy ===== *)
theory SubtField
  imports SubtBlock
begin

text \<open>
  What \<open>SUBT_Parse_PixelBlockDecode\<close> does with a block: blocks of lines coded as
  ETSI EN 300 743 has them are painted pixel by pixel; for any bytes the loops end, read at most
  16 bytes past the block and write inside the stated bounds; and the cases in which the code
  departs from what a caller expects (an empty string, a string abandoned in the middle of a
  byte, 4-bit strings in a 2-bit region).
\<close>

section \<open>The field, pixel by pixel\<close>

lemma length_object_line:
  "rr_hor rr + length cs \<le> rr_width rr \<Longrightarrow> rr_hor rr + length (object_line rr cs) \<le> rr_width rr"
  by (simp add: object_line_def)

lemma row_order: "l < l' \<Longrightarrow> row_end rr l \<le> row_at rr l'"
  using mult_le_mono2 [of "rr_ver rr + l + 1" "rr_ver rr + l'" "rr_width rr"]
  by (simp add: row_end_def row_at_def)

lemma paint_other: "a < p \<or> p + length cs \<le> a \<Longrightarrow> paint m p cs a = m a"
  by (auto simp: paint_def)

lemma field_other:
  assumes "\<And>cs. cs \<in> set css \<Longrightarrow> rr_hor rr + length cs \<le> rr_width rr"
    and "\<And>i. i < length css \<Longrightarrow> a < row_at rr (l + 2 * i) \<or> row_end rr (l + 2 * i) \<le> a"
  shows "field rr m l css a = m a"
  using assms
proof (induction css arbitrary: m l)
  case (Cons cs css)
  have "rr_hor rr + length (object_line rr cs) \<le> rr_width rr"
    using Cons.prems(1) by (intro length_object_line) auto
  then have "paint m (row_at rr l) (object_line rr cs) a = m a"
    using Cons.prems(2) [of 0] by (intro paint_other) (auto simp: row_end_at)
  moreover have "field rr (paint m (row_at rr l) (object_line rr cs)) (l + 2) css a
      = paint m (row_at rr l) (object_line rr cs) a"
    using Cons.prems(1) Cons.prems(2) [of "Suc i" for i] by (intro Cons.IH) auto
  ultimately show ?case by simp
qed simp

lemma field_pixel:
  assumes "\<And>cs. cs \<in> set css \<Longrightarrow> rr_hor rr + length cs \<le> rr_width rr"
    and "i < length css" "j < length (css ! i)"
  shows "field rr m l css (row_at rr (l + 2 * i) + j) = css ! i ! j"
  using assms
proof (induction css arbitrary: m l i)
  case (Cons cs css)
  let ?m = "paint m (row_at rr l) (object_line rr cs)"
  show ?case
  proof (cases i)
    case 0
    have "rr_hor rr + length cs \<le> rr_width rr" using Cons.prems(1) by simp
    then have "row_at rr l + j < row_end rr l"
      using 0 Cons.prems(3) by (auto simp: row_end_at)
    then have "field rr ?m (l + 2) css (row_at rr l + j) = ?m (row_at rr l + j)"
      using Cons.prems(1) row_order [of l "l + 2 + 2 * i'" rr for i']
      by (intro field_other) (auto intro: less_le_trans)
    then show ?thesis
      using 0 Cons.prems(3) by (simp add: paint_def object_line_def nth_append)
  next
    case (Suc i')
    then show ?thesis
      using Cons.IH [of i' ?m "l + 2"] Cons.prems by simp
  qed
qed simp

section \<open>Blocks of the standard are decoded\<close>

lemma string_code_len:
  assumes "\<And>n c. (n, c) \<in> set rs \<Longrightarrow> code n c \<noteq> []"
  shows "length rs \<le> length (string_code code rs)"
  using assms
proof (induction rs)
  case (Cons r rs)
  obtain n c where r: "r = (n, c)" by fastforce
  have "1 \<le> length (code n c)" using Cons.prems [of n c] r by (cases "code n c") auto
  then show ?case using Cons r by force
qed simp

lemma line_len: "obj_line_ok rr L \<Longrightarrow> length (line_runs L) \<le> 4 * length (enc_line L)"
proof (induction L)
  case (L2 rs)
  have "length rs \<le> length (string_code code2 rs)"
    by (rule string_code_len) (simp add: code2_def)
  then show ?case by simp
next
  case (L4 rs)
  have "length rs \<le> length (string_code code4 rs)"
    by (rule string_code_len) (simp add: code4_def)
  then show ?case by simp
next
  case (L8 rs)
  have "length rs \<le> length (string_code code8 rs)"
    by (rule string_code_len) (simp add: code8_def)
  then show ?case by simp
qed

lemma enc_line_le: "L \<in> set Ls \<Longrightarrow> length (enc_line L) \<le> length (enc_block Ls)"
  by (induction Ls) auto

lemma enc_block_lines: "2 * length Ls \<le> length (enc_block Ls)"
proof (induction Ls)
  case (Cons L Ls)
  have "1 \<le> length (enc_line L)" by (cases L) auto
  then show ?case using Cons by simp
qed simp

definition default_maps :: map_tables where
  "default_maps = \<lparr>mt24 = T24, mt28 = T28, mt48 = T48\<rparr>"

text \<open>The region has room for the object: its lines fit the row, and its rows the length.\<close>

definition room :: "refering_region \<Rightarrow> obj_line list \<Rightarrow> bool" where
  "room rr Ls \<longleftrightarrow> list_all (obj_line_ok rr) Ls \<and>
     row_end rr (2 * length Ls - 2) \<le> rr_pixel rr + rr_len rr \<and>
     2 * length Ls \<le> rr_height rr + 2 \<and> rr_height rr < 65534 \<and>
     length (enc_block Ls) < 65536"

lemma row_end_mono: "l \<le> l' \<Longrightarrow> row_end rr l \<le> row_end rr l'"
  by (simp add: row_end_def)

lemma block_field:
  assumes ro: "room rr Ls" and d: "displays seg 0 (enc_block Ls)"
    and st: "rd_get2 st = 0" "rd_get4 st = 0"
    and f: "4 * length (enc_block Ls) + 8 \<le> fuel"
  shows "\<exists>s. SUBT_Parse_PixelBlockDecode fuel seg rr (row_at rr 0)
        (length (enc_block Ls)) st m = Some (SUBT_SUCCESS, s) \<and>
      bk_mem s = field rr m 0 (map (line_pixels (rr_depth rr) default_maps) Ls) \<and>
      rd_get2 (bk_rd s) = 0 \<and> rd_get4 (bk_rd s) = 0"
proof -
  let ?b = "enc_block Ls"
  let ?s = "block_init st m (row_at rr 0)"
  have i: "bk_line ?s = 0" "bk_wp ?s = row_at rr (bk_line ?s)" "bk_mem ?s = m" "bk_maps ?s = default_maps"
    "at8 seg 0 (bk_rd ?s)"
    using st by (simp_all add: block_init_def default_maps_def at8_def)
  have "\<exists>s'. block_loop fuel fuel seg rr (length ?b) ?s = Some (SUBT_SUCCESS, s') \<and>
    at8 seg (length ?b) (bk_rd s') \<and>
    bk_mem s' = field rr (bk_mem ?s) (bk_line ?s) (map (line_pixels (rr_depth rr) (bk_maps ?s)) Ls)"
  proof (rule block_lines [OF i(5)])
    fix L assume L: "L \<in> set Ls"
    then show "obj_line_ok rr L" using ro by (simp add: room_def list_all_iff)
    then show "length (line_runs L) < fuel"
      using line_len [of rr L] enc_line_le [OF L] f by linarith
  next
    fix i assume "i < length Ls"
    then have "row_end rr (bk_line ?s + 2 * i) \<le> row_end rr (2 * length Ls - 2)"
      using i(1) by (intro row_end_mono) simp
    then show "row_end rr (bk_line ?s + 2 * i) \<le> rr_pixel rr + rr_len rr"
      using ro by (simp add: room_def)
  qed (use ro i f enc_block_lines [of Ls] d in \<open>auto simp: room_def\<close>)
  then show ?thesis
    using i by (auto simp: SUBT_Parse_PixelBlockDecode_def at8_def)
qed

text \<open>A block of coded lines is decoded: every pixel of every line is in its place, in the
colours of the region's depth, no row that is not the object's is touched, and the readers are
left at a byte boundary.\<close>

theorem subt_block_roundtrip:
  assumes ro: "room rr Ls" and d: "displays seg 0 (enc_block Ls)"
    and st: "rd_get2 st = 0" "rd_get4 st = 0"
    and f: "4 * length (enc_block Ls) + 8 \<le> fuel"
  shows "\<exists>s. SUBT_Parse_PixelBlockDecode fuel seg rr (row_at rr 0)
        (length (enc_block Ls)) st m = Some (SUBT_SUCCESS, s) \<and>
      (\<forall>i<length Ls. \<forall>j<length (line_pixels (rr_depth rr) default_maps (Ls ! i)).
         bk_mem s (row_at rr (2 * i) + j) = line_pixels (rr_depth rr) default_maps (Ls ! i) ! j) \<and>
      (\<forall>a. (\<forall>i<length Ls. a < row_at rr (2 * i) \<or> row_end rr (2 * i) \<le> a) \<longrightarrow> bk_mem s a = m a) \<and>
      rd_get2 (bk_rd s) = 0 \<and> rd_get4 (bk_rd s) = 0"
proof -
  obtain s where s: "SUBT_Parse_PixelBlockDecode fuel seg rr (row_at rr 0)
      (length (enc_block Ls)) st m = Some (SUBT_SUCCESS, s)"
    "bk_mem s = field rr m 0 (map (line_pixels (rr_depth rr) default_maps) Ls)"
    "rd_get2 (bk_rd s) = 0 \<and> rd_get4 (bk_rd s) = 0"
    using block_field [OF assms] by blast
  have w: "rr_hor rr + length cs \<le> rr_width rr"
    if "cs \<in> set (map (line_pixels (rr_depth rr) default_maps) Ls)" for cs
    using that ro by (auto simp: room_def list_all_iff line_pixels_def obj_line_ok_def)
  show ?thesis
    using s field_pixel [OF w, of "map (line_pixels (rr_depth rr) default_maps) Ls" _ _ m 0]
      field_other [OF w, of "map (line_pixels (rr_depth rr) default_maps) Ls" _ 0 m]
    by auto
qed

section \<open>The loops end\<close>

text \<open>The reader has moved on, its length and its pointer together.\<close>

definition rd_fwd :: "pixel_reader \<Rightarrow> pixel_reader \<Rightarrow> bool" where
  "rd_fwd rd rd' \<longleftrightarrow> rd_ok rd' \<and> rd_len rd \<le> rd_len rd' \<and>
     rd_ptr rd' + rd_len rd = rd_ptr rd + rd_len rd'"

lemma rd_fwd_trans: "rd_fwd r r' \<Longrightarrow> rd_fwd r' r'' \<Longrightarrow> rd_fwd r r''"
  by (auto simp: rd_fwd_def)

primrec out_state :: "block_out \<Rightarrow> block_state" where
  "out_state (Go s) = s" | "out_state (Ret r s) = s"

lemma string_body_rd:
  "bk_rd (out_state (string_body dec conv cl seg rr s)) = snd (snd (dec seg (bk_rd s)))"
  by (simp add: string_body_def Let_def split: prod.splits)

context code_reader
begin

lemma body_fwd:
  assumes "rd_ok (bk_rd s)" "rd_len (bk_rd s) \<le> blen" "blen + 8 < 65536"
    and "string_body dec conv cl seg rr s = r"
  shows "rd_fwd (bk_rd s) (bk_rd (out_state r))" "pos (bk_rd s) < pos (bk_rd (out_state r))"
    "rd_len (bk_rd (out_state r)) \<le> blen + 8"
proof -
  obtain c n rd where "dec seg (bk_rd s) = (c, n, rd)" by (metis prod_cases3)
  then show "rd_fwd (bk_rd s) (bk_rd (out_state r))" "pos (bk_rd s) < pos (bk_rd (out_state r))"
    "rd_len (bk_rd (out_state r)) \<le> blen + 8"
    using dec_adv [of "bk_rd s" seg c n rd] assms string_body_rd [of dec conv cl seg rr s]
    by (auto simp: rd_fwd_def)
qed

lemma loop_ends:
  assumes "rd_ok (bk_rd s)" "rd_len (bk_rd s) \<le> blen" "blen + 8 < 65536"
    and "4 * blen + 5 < f + pos (bk_rd s)"
  shows "\<exists>r. string_loop f dec conv cl seg rr blen s = Some r \<and>
    rd_fwd (bk_rd s) (bk_rd (out_state r)) \<and> rd_len (bk_rd (out_state r)) \<le> blen + 8"
  using assms
proof (induction f arbitrary: s)
  case 0
  then show ?case using pos_le [of "bk_rd s"] by simp
next
  case (Suc f)
  let ?r = "string_body dec conv cl seg rr s"
  note b = body_fwd [OF Suc.prems(1-3) refl, of conv cl seg rr]
  show ?case
  proof (cases ?r)
    case (Ret e s')
    then show ?thesis using b by simp
  next
    case (Go s')
    show ?thesis
    proof (cases "bk_num s' \<noteq> 0 \<and> rd_len (bk_rd s') < blen")
      case True
      have p: "rd_ok (bk_rd s')" "rd_len (bk_rd s') \<le> blen" "4 * blen + 5 < f + pos (bk_rd s')"
        using True b Go Suc.prems(4) by (auto simp: rd_fwd_def)
      show ?thesis
        using Suc.IH [OF p(1,2) Suc.prems(3) p(3)] True Go b(1) rd_fwd_trans by fastforce
    qed (use Go b in auto)
  qed
qed

end

lemma rd_fwd_nx4: "rd_ok rd \<Longrightarrow> rd_len rd < 65535 \<Longrightarrow> rd_fwd rd (nx4 seg rd)"
  using nx4_adv by (auto simp: rd_fwd_def)

lemma read_nibs_fwd:
  assumes "rd_ok rd" "rd_len rd + k < 65536" "read_nibs k seg rd = (xs, rd')"
  shows "rd_fwd rd rd' \<and> rd_len rd' \<le> rd_len rd + k"
  using assms
proof (induction k arbitrary: rd xs rd')
  case (Suc k)
  obtain ys r where ys: "read_nibs k seg (nx4 seg rd) = (ys, r)" by fastforce
  have n: "rd_fwd rd (nx4 seg rd)" "rd_len (nx4 seg rd) \<le> rd_len rd + 1"
    using rd_fwd_nx4 nx4_adv Suc.prems by auto
  have "rd_fwd (nx4 seg rd) r \<and> rd_len r \<le> rd_len (nx4 seg rd) + k"
    using Suc.IH [OF _ _ ys] n Suc.prems(2) by (auto simp: rd_fwd_def)
  moreover have "rd' = r"
    using Suc.prems(3) ys by (simp add: split_nx)
  ultimately show ?case using n rd_fwd_trans by fastforce
qed (auto simp: rd_fwd_def)

lemma read_bytes_fwd:
  assumes "rd_ok rd" "rd_len rd + k < 65536" "read_bytes k seg rd = (xs, rd')"
  shows "rd_fwd rd rd' \<and> rd_len rd' \<le> rd_len rd + k"
  using assms
proof (induction k arbitrary: rd xs rd')
  case (Suc k)
  obtain ys r where ys: "read_bytes k seg (rd_next rd) = (ys, r)" by fastforce
  have n: "rd_fwd rd (rd_next rd)" "rd_len (rd_next rd) \<le> rd_len rd + 1"
    using rd_next_adv [of rd] Suc.prems by (auto simp: rd_fwd_def)
  have "rd_fwd (rd_next rd) r \<and> rd_len r \<le> rd_len (rd_next rd) + k"
    using Suc.IH [OF _ _ ys] n Suc.prems(2) by (auto simp: rd_fwd_def)
  moreover have "rd' = r"
    using Suc.prems(3) ys by (simp add: split_nx)
  ultimately show ?case using n rd_fwd_trans by fastforce
qed (auto simp: rd_fwd_def)

lemma reset_fwd: "rd_ok rd \<Longrightarrow> rd_fwd rd (snd (ReadNext2BitPixel seg True rd))"
  "rd_ok rd \<Longrightarrow> rd_fwd rd (snd (ReadNext4BitPixel seg True rd))"
  by (auto simp: rd_fwd_def rd_ok_def ReadNext2BitPixel_def ReadNext4BitPixel_def)

lemma reset_len:
  "rd_len (snd (ReadNext2BitPixel seg True rd)) = rd_len rd"
  "rd_len (snd (ReadNext4BitPixel seg True rd)) = rd_len rd"
  by (simp_all add: ReadNext2BitPixel_def ReadNext4BitPixel_def)

lemma bk_rd_adjust [simp]: "bk_rd (line_adjust s) = bk_rd s"
  by (simp add: line_adjust_def Let_def)

lemma bk_rd_eol [simp]: "bk_rd (end_of_line rr s) = bk_rd s"
  by (simp add: end_of_line_def Let_def)

text \<open>A string with its adjustment and its reset.\<close>

lemma then_go_fwd:
  assumes "rd_fwd rd (bk_rd (out_state r))" "rd_len (bk_rd (out_state r)) \<le> b"
    and "\<And>s. rd_ok (bk_rd s) \<Longrightarrow> rd_fwd (bk_rd s) (bk_rd (g s)) \<and> rd_len (bk_rd (g s)) = rd_len (bk_rd s)"
  shows "rd_fwd rd (bk_rd (out_state (then_go g r))) \<and> rd_len (bk_rd (out_state (then_go g r))) \<le> b"
proof (cases r)
  case (Go s)
  then show ?thesis
    using assms(1,2) assms(3) [of s] rd_fwd_trans by (auto simp: then_go_def rd_fwd_def)
qed (use assms in \<open>auto simp: then_go_def\<close>)

lemma reset2_fwd:
  "rd_ok (bk_rd s) \<Longrightarrow> rd_fwd (bk_rd s) (bk_rd ((reset2 seg \<circ> line_adjust) s)) \<and>
    rd_len (bk_rd ((reset2 seg \<circ> line_adjust) s)) = rd_len (bk_rd s)"
  by (simp add: reset2_def reset_fwd reset_len)

lemma reset4_fwd:
  "rd_ok (bk_rd s) \<Longrightarrow> rd_fwd (bk_rd s) (bk_rd ((reset4 seg \<circ> line_adjust) s)) \<and>
    rd_len (bk_rd ((reset4 seg \<circ> line_adjust) s)) = rd_len (bk_rd s)"
  by (simp add: reset4_def reset_fwd reset_len)

lemma strings_end:
  assumes "rd_ok (bk_rd s)" "rd_len (bk_rd s) \<le> blen" "blen + 8 < 65536" "4 * blen + 8 \<le> fuel"
  shows "\<exists>r. string2 fuel seg rr blen s = Some r \<and> rd_fwd (bk_rd s) (bk_rd (out_state r)) \<and>
      rd_len (bk_rd (out_state r)) \<le> blen + 8"
    "\<exists>r. string4 fuel seg rr blen s = Some r \<and> rd_fwd (bk_rd s) (bk_rd (out_state r)) \<and>
      rd_len (bk_rd (out_state r)) \<le> blen + 8"
    "\<exists>r. string8 fuel seg rr blen s = Some r \<and> rd_fwd (bk_rd s) (bk_rd (out_state r)) \<and>
      rd_len (bk_rd (out_state r)) \<le> blen + 8"
proof -
  have f: "4 * blen + 5 < fuel + p" for p using assms(4) by simp
  show "\<exists>r. string2 fuel seg rr blen s = Some r \<and> rd_fwd (bk_rd s) (bk_rd (out_state r)) \<and>
      rd_len (bk_rd (out_state r)) \<le> blen + 8"
    using px2.loop_ends [OF assms(1-3) f, of conv2 True seg rr] then_go_fwd [OF _ _ reset2_fwd]
    by (fastforce simp: string2_def)
  show "\<exists>r. string4 fuel seg rr blen s = Some r \<and> rd_fwd (bk_rd s) (bk_rd (out_state r)) \<and>
      rd_len (bk_rd (out_state r)) \<le> blen + 8"
    using px4.loop_ends [OF assms(1-3) f, of conv4 False seg rr] then_go_fwd [OF _ _ reset4_fwd]
    by (fastforce simp: string4_def)
  show "\<exists>r. string8 fuel seg rr blen s = Some r \<and> rd_fwd (bk_rd s) (bk_rd (out_state r)) \<and>
      rd_len (bk_rd (out_state r)) \<le> blen + 8"
    using px8.loop_ends [OF assms(1-3) f, of conv8 False seg rr] then_go_fwd [where g = line_adjust]
    by (fastforce simp: string8_def rd_fwd_def)
qed

lemma body_ends:
  assumes "rd_ok (bk_rd s)" "rd_len (bk_rd s) < blen" "blen + 16 < 65536" "4 * blen + 8 \<le> fuel"
  shows "\<exists>r. block_body fuel seg rr blen s = Some r \<and> rd_fwd (bk_rd s) (bk_rd (out_state r)) \<and>
    rd_len (bk_rd s) < rd_len (bk_rd (out_state r)) \<and> rd_len (bk_rd (out_state r)) \<le> blen + 16"
proof -
  let ?s = "s\<lparr>bk_rd := rd_next (bk_rd s)\<rparr>"
  have n: "rd_fwd (bk_rd s) (bk_rd ?s)" "rd_len (bk_rd ?s) = rd_len (bk_rd s) + 1"
    using assms by (auto simp: rd_fwd_def rd_next_def rd_ok_def)
  have ok: "rd_ok (bk_rd ?s)" "rd_len (bk_rd ?s) \<le> blen" using n assms(2) by (auto simp: rd_fwd_def)
  let ?P = "\<lambda>w. \<exists>r. w = Some r \<and> rd_fwd (bk_rd ?s) (bk_rd (out_state r)) \<and>
    rd_len (bk_rd (out_state r)) \<le> blen + 16"
  have s: "?P (string2 fuel seg rr blen ?s)" "?P (string4 fuel seg rr blen ?s)"
    "?P (string8 fuel seg rr blen ?s)"
    using strings_end [OF ok _ assms(4), of seg rr] assms(3) by fastforce+
  obtain xs r where x: "read_nibs 4 seg (rd_next (bk_rd s)) = (xs, r)" by fastforce
  obtain ys r' where y: "read_bytes 4 seg (rd_next (bk_rd s)) = (ys, r')" by fastforce
  obtain zs r'' where z: "read_bytes 16 seg (rd_next (bk_rd s)) = (zs, r'')" by fastforce
  have l: "rd_ok (rd_next (bk_rd s))" "rd_len (rd_next (bk_rd s)) + 16 < 65536"
    using ok assms(3) by auto
  have "rd_fwd (bk_rd ?s) r \<and> rd_len r \<le> blen + 16"
    using read_nibs_fwd [OF _ _ x] l ok by fastforce
  then have t1: "?P (Some (Go (table24 seg ?s)))"
    using x reset_fwd(2) [of r seg] rd_fwd_trans
    by (auto simp: table24_def reset4_def reset_len rd_fwd_def)
  have "rd_fwd (bk_rd ?s) r' \<and> rd_len r' \<le> blen + 16" "rd_fwd (bk_rd ?s) r'' \<and> rd_len r'' \<le> blen + 16"
    using read_bytes_fwd [OF _ _ y] read_bytes_fwd [OF _ _ z] l ok by fastforce+
  then have t2: "?P (Some (Go (table28 seg ?s)))" "?P (Some (Go (table48 seg ?s)))"
    using y z by (auto simp: table28_def table48_def)
  have t3: "?P (Some (Go (end_of_line rr ?s)))" "?P (Some (Go ?s))"
    using ok assms(3) by (auto simp: rd_fwd_def)
  have "?P (block_body fuel seg rr blen s)"
    using s t1 t2 t3 by (simp only: block_body_def read_byte_def Let_def prod.case split: if_split) blast
  then show ?thesis
    using n rd_fwd_trans by (fastforce simp: rd_fwd_def)
qed

lemma block_ends:
  assumes "rd_ok (bk_rd s)" "rd_len (bk_rd s) \<le> blen + 16" "blen + 16 < 65536"
    and "4 * blen + 8 \<le> fuel" "blen < f + min blen (rd_len (bk_rd s))"
  shows "\<exists>r s'. block_loop f fuel seg rr blen s = Some (r, s') \<and>
    rd_fwd (bk_rd s) (bk_rd s') \<and> rd_len (bk_rd s') \<le> blen + 16"
  using assms
proof (induction f arbitrary: s)
  case (Suc f)
  show ?case
  proof (cases "rd_len (bk_rd s) < blen")
    case True
    obtain r where r: "block_body fuel seg rr blen s = Some r" "rd_fwd (bk_rd s) (bk_rd (out_state r))"
      "rd_len (bk_rd s) < rd_len (bk_rd (out_state r))" "rd_len (bk_rd (out_state r)) \<le> blen + 16"
      using body_ends [OF Suc.prems(1) True Suc.prems(3,4)] by blast
    show ?thesis
    proof (cases r)
      case (Go s')
      have "rd_ok (bk_rd s')" "blen < f + min blen (rd_len (bk_rd s'))"
        using r Go Suc.prems(5) True by (auto simp: rd_fwd_def)
      then show ?thesis
        using Suc.IH [of s'] Suc.prems(3,4) r Go True rd_fwd_trans by fastforce
    qed (use r True in auto)
  qed (use Suc.prems in \<open>auto simp: rd_fwd_def\<close>)
qed simp

lemma block_returns:
  assumes "rd_get2 st \<le> 3" "blen + 16 < 65536" "4 * blen + 8 \<le> fuel"
  obtains r s where "SUBT_Parse_PixelBlockDecode fuel seg rr wp blen st m = Some (r, s)"
    "rd_ptr (bk_rd s) \<le> blen + 16" "rd_get2 (bk_rd s) \<le> 3"
proof -
  have "rd_ok (bk_rd (block_init st m wp))" "rd_len (bk_rd (block_init st m wp)) = 0"
    "rd_ptr (bk_rd (block_init st m wp)) = 0"
    using assms(1) by (simp_all add: block_init_def rd_ok_def)
  then show thesis
    using block_ends [of "block_init st m wp" blen fuel fuel seg rr] assms that
    by (fastforce simp: SUBT_Parse_PixelBlockDecode_def rd_fwd_def rd_ok_def)
qed

section \<open>What a block can write\<close>

text \<open>The last row a line number can reach, and the end of the bytes a block can touch.\<close>

definition last_row :: "refering_region \<Rightarrow> nat" where
  "last_row rr = row_at rr (rr_height rr)"

definition write_end :: "refering_region \<Rightarrow> nat" where
  "write_end rr = max (rr_pixel rr + rr_len rr) (last_row rr + 2)"

definition same_outside :: "refering_region \<Rightarrow> memory \<Rightarrow> memory \<Rightarrow> bool" where
  "same_outside rr m m' \<longleftrightarrow> (\<forall>a. a < rr_pixel rr \<or> write_end rr \<le> a \<longrightarrow> m' a = m a)"

definition wp_ok :: "refering_region \<Rightarrow> block_state \<Rightarrow> bool" where
  "wp_ok rr s \<longleftrightarrow> rr_pixel rr \<le> bk_wp s \<and> bk_line s \<le> rr_height rr \<and>
     bk_end s \<le> rr_pixel rr + rr_len rr \<and> (bk_wp s \<le> bk_end s \<or> bk_wp s \<le> last_row rr)"

lemma same_refl [simp]: "same_outside rr m m"
  by (simp add: same_outside_def)

lemma same_trans: "same_outside rr m m' \<Longrightarrow> same_outside rr m' m'' \<Longrightarrow> same_outside rr m m''"
  by (simp add: same_outside_def)

lemma mem_set_same:
  "rr_pixel rr \<le> p \<Longrightarrow> p + n \<le> write_end rr \<Longrightarrow> same_outside rr m (mem_set m p c n)"
  by (auto simp: same_outside_def mem_set_def)

lemma string_body_mem:
  assumes w: "wp_ok rr s" and b: "string_body dec conv cl seg rr s = r"
  shows "same_outside rr (bk_mem s) (bk_mem (out_state r)) \<and>
    (\<forall>s'. r = Go s' \<longrightarrow> wp_ok rr s')"
proof -
  obtain c n rd where d: "dec seg (bk_rd s) = (c, n, rd)" by (metis prod_cases3)
  let ?e = "rr_pixel rr + rr_width rr * (rr_ver rr + bk_line s + 1)"
  have e: "rr_pixel rr \<le> ?e - rr_width rr" "?e - rr_width rr + rr_width rr = ?e" by simp_all
  consider "n = 0" | "n \<noteq> 0" "rr_pixel rr + rr_len rr < ?e"
    | "n \<noteq> 0" "?e \<le> rr_pixel rr + rr_len rr" "?e < bk_wp s + n"
    | "n \<noteq> 0" "?e \<le> rr_pixel rr + rr_len rr" "bk_wp s + n \<le> ?e" by linarith
  then show ?thesis
  proof cases
    case 1 then show ?thesis using w b d by (auto simp: string_body_def wp_ok_def)
  next
    case 2 then show ?thesis using w b d by (auto simp: string_body_def Let_def)
  next
    case 3
    have "same_outside rr (bk_mem s) (mem_set (bk_mem s) (?e - rr_width rr) 0 (rr_width rr))"
      using e 3 by (intro mem_set_same) (simp_all add: write_end_def)
    then show ?thesis using w b d 3 by (auto simp: string_body_def Let_def)
  next
    case 4
    have "same_outside rr (bk_mem s) (mem_set (bk_mem s) (bk_wp s) x n)" for x
      using w 4 by (intro mem_set_same) (simp_all add: write_end_def wp_ok_def)
    then show ?thesis using w b d 4 by (auto simp: string_body_def Let_def wp_ok_def)
  qed
qed

lemma string_loop_mem:
  assumes "wp_ok rr s" "string_loop f dec conv cl seg rr blen s = Some r"
  shows "same_outside rr (bk_mem s) (bk_mem (out_state r)) \<and> (\<forall>s'. r = Go s' \<longrightarrow> wp_ok rr s')"
  using assms
proof (induction f arbitrary: s)
  case (Suc f)
  show ?case
  proof (cases "string_body dec conv cl seg rr s")
    case (Go s')
    note b = string_body_mem [OF Suc.prems(1) Go]
    then have w: "wp_ok rr s'" "same_outside rr (bk_mem s) (bk_mem s')" by auto
    show ?thesis
    proof (cases "bk_num s' \<noteq> 0 \<and> rd_len (bk_rd s') < blen")
      case True
      then have "string_loop f dec conv cl seg rr blen s' = Some r"
        using Suc.prems(2) Go by simp
      from Suc.IH [OF w(1) this] show ?thesis
        using same_trans [OF w(2)] by blast
    qed (use Suc.prems(2) Go w in auto)
  qed (use Suc.prems string_body_mem [OF Suc.prems(1) refl] in \<open>auto split: if_splits\<close>)
qed simp

lemma adjust_mem:
  assumes "wp_ok rr s"
  shows "same_outside rr (bk_mem s) (bk_mem (line_adjust s)) \<and> wp_ok rr (line_adjust s)"
proof -
  let ?d = "ulong_sub (bk_end s) (bk_wp s)"
  let ?k = "if 2 < ?d then 2 else ?d mod 65536"
  have k: "?k \<le> 2" by auto
  have "bk_wp s + ?k \<le> write_end rr"
  proof (cases "bk_wp s \<le> bk_end s")
    case True
    then have "?k \<le> bk_end s - bk_wp s" by (auto simp: ulong_sub_def)
    then show ?thesis using True assms by (auto simp: wp_ok_def write_end_def)
  next
    case False
    then show ?thesis using k assms by (auto simp: wp_ok_def write_end_def)
  qed
  then have "same_outside rr (bk_mem s) (mem_set (bk_mem s) (bk_wp s) (bk_last s) ?k)"
    using assms by (intro mem_set_same) (auto simp: wp_ok_def)
  then show ?thesis
    using assms by (simp add: line_adjust_def Let_def wp_ok_def)
qed

lemma reset_mem:
  "bk_mem (reset2 seg s) = bk_mem s" "wp_ok rr (reset2 seg s) = wp_ok rr s"
  "bk_mem (reset4 seg s) = bk_mem s" "wp_ok rr (reset4 seg s) = wp_ok rr s"
  by (simp_all add: reset2_def reset4_def wp_ok_def)

lemma then_go_mem:
  assumes "same_outside rr m (bk_mem (out_state r)) \<and> (\<forall>s'. r = Go s' \<longrightarrow> wp_ok rr s')"
    and "\<And>s. wp_ok rr s \<Longrightarrow> same_outside rr (bk_mem s) (bk_mem (g s)) \<and> wp_ok rr (g s)"
  shows "same_outside rr m (bk_mem (out_state (then_go g r))) \<and>
    (\<forall>s'. then_go g r = Go s' \<longrightarrow> wp_ok rr s')"
  using assms by (cases r) (auto simp: then_go_def intro: same_trans)

lemma eol_mem:
  assumes "wp_ok rr s" "rr_height rr < 65534"
  shows "bk_mem (end_of_line rr s) = bk_mem s" "wp_ok rr (end_of_line rr s)"
proof -
  let ?l = "bk_line (end_of_line rr s)"
  have l: "?l \<le> rr_height rr"
    using assms by (auto simp: end_of_line_def Let_def wp_ok_def)
  have "bk_wp (end_of_line rr s) = row_at rr ?l"
    by (simp add: end_of_line_def Let_def row_at_def)
  moreover have "row_at rr ?l \<le> last_row rr"
    using l by (simp add: last_row_def row_at_def)
  ultimately show "wp_ok rr (end_of_line rr s)"
    using l assms(1) by (auto simp: wp_ok_def row_at_def) (simp add: end_of_line_def Let_def)+
  show "bk_mem (end_of_line rr s) = bk_mem s"
    by (simp add: end_of_line_def Let_def)
qed

lemma table_mem:
  "bk_mem (table24 seg s) = bk_mem s" "wp_ok rr (table24 seg s) = wp_ok rr s"
  "bk_mem (table28 seg s) = bk_mem s" "wp_ok rr (table28 seg s) = wp_ok rr s"
  "bk_mem (table48 seg s) = bk_mem s" "wp_ok rr (table48 seg s) = wp_ok rr s"
  by (simp_all add: table24_def table28_def table48_def reset4_def wp_ok_def split_beta)

lemma block_body_mem:
  assumes w: "wp_ok rr s" and h: "rr_height rr < 65534" and b: "block_body fuel seg rr blen s = Some r"
  shows "same_outside rr (bk_mem s) (bk_mem (out_state r)) \<and> (\<forall>s'. r = Go s' \<longrightarrow> wp_ok rr s')"
proof -
  let ?s = "s\<lparr>bk_rd := rd_next (bk_rd s)\<rparr>"
  have w1: "wp_ok rr ?s" "bk_mem ?s = bk_mem s" using w by (simp_all add: wp_ok_def)
  let ?P = "\<lambda>r. same_outside rr (bk_mem s) (bk_mem (out_state r)) \<and> (\<forall>s'. r = Go s' \<longrightarrow> wp_ok rr s')"
  have s: "?P r" if "map_option (then_go g) (string_loop fuel dec conv cl seg rr blen ?s) = Some r"
    "\<And>s. wp_ok rr s \<Longrightarrow> same_outside rr (bk_mem s) (bk_mem (g s)) \<and> wp_ok rr (g s)" for g dec conv cl
    using that(1) string_loop_mem [OF w1(1), of fuel dec conv cl seg blen]
      then_go_mem [OF _ that(2), of "bk_mem s"] w1(2) by fastforce
  have 2: "?P r" if "string2 fuel seg rr blen ?s = Some r"
    using that unfolding string2_def by (rule s) (use adjust_mem in \<open>auto simp: reset_mem\<close>)
  have 4: "?P r" if "string4 fuel seg rr blen ?s = Some r"
    using that unfolding string4_def by (rule s) (use adjust_mem in \<open>auto simp: reset_mem\<close>)
  have 8: "?P r" if "string8 fuel seg rr blen ?s = Some r"
    using that unfolding string8_def by (rule s) (use adjust_mem in auto)
  show ?thesis
    using b 2 4 8 eol_mem [OF w1(1) h] w1
    by (auto simp: block_body_def read_byte_def Let_def table_mem split: if_splits)
qed

lemma block_loop_mem:
  assumes "wp_ok rr s" "rr_height rr < 65534" "block_loop f fuel seg rr blen s = Some (r, s')"
  shows "same_outside rr (bk_mem s) (bk_mem s')"
  using assms
proof (induction f arbitrary: s)
  case (Suc f)
  show ?case
  proof (cases "rd_len (bk_rd s) < blen")
    case True
    then obtain o1 where o1: "block_body fuel seg rr blen s = Some o1"
      using Suc.prems(3) by (cases "block_body fuel seg rr blen s") auto
    note m = block_body_mem [OF Suc.prems(1,2) o1]
    show ?thesis
      using Suc.IH Suc.prems True o1 m same_trans by (cases o1) fastforce+
  qed (use Suc.prems in auto)
qed simp

text \<open>C31. For any bytes, any state the readers' statics can have and any block that leaves 16
bytes of the 16-bit length, the decoder returns; it has read at most 16 bytes past its block, and
it has written nothing below the region and nothing from the end of the given length on, or two
pixels past the start of the last row a line number can reach, whichever is further.\<close>

theorem subt_block_bounds:
  assumes st: "rd_get2 st \<le> 3" and b: "blen + 16 < 65536" and f: "4 * blen + 8 \<le> fuel"
    and h: "rr_height rr < 65534"
  shows "\<exists>r s. SUBT_Parse_PixelBlockDecode fuel seg rr (row_at rr 0) blen st m = Some (r, s) \<and>
      rd_ptr (bk_rd s) \<le> blen + 16 \<and> rd_get2 (bk_rd s) \<le> 3 \<and>
      (\<forall>a. a < rr_pixel rr \<or>
           max (rr_pixel rr + rr_len rr) (row_at rr (rr_height rr) + 2) \<le> a \<longrightarrow> bk_mem s a = m a)"
proof -
  obtain r s where s: "SUBT_Parse_PixelBlockDecode fuel seg rr (row_at rr 0) blen st m = Some (r, s)"
    "rd_ptr (bk_rd s) \<le> blen + 16" "rd_get2 (bk_rd s) \<le> 3"
    using block_returns [OF st b f] by blast
  have "wp_ok rr (block_init st m (row_at rr 0))"
    by (simp add: wp_ok_def block_init_def last_row_def row_at_def)
  then have "same_outside rr m (bk_mem s)"
    using block_loop_mem [OF _ h s(1) [unfolded SUBT_Parse_PixelBlockDecode_def]]
    by (simp add: block_init_def)
  then show ?thesis
    using s by (auto simp: same_outside_def write_end_def last_row_def)
qed

section \<open>Where the block decoder departs\<close>

text \<open>A string without a run paints two pixels of colour 0 wherever the write pointer stands:
the end of the row is still 0, its distance wraps, and neither the row nor the length of the
region is looked at.\<close>

theorem subt_empty_string_paints:
  assumes st: "rd_get2 st = 0" "rd_get4 st = 0" and wp: "0 < wp" "wp + 2 < 2 ^ 64" and f: "2 \<le> fuel"
    and t: "bs = [0x10, 0] \<or> bs = [0x11, 0] \<or> bs = [0x12, 0, 0]"
  shows "\<exists>s. SUBT_Parse_PixelBlockDecode fuel (seg_of bs) rr wp (length bs) st m = Some (SUBT_SUCCESS, s) \<and>
    bk_mem s = mem_set m wp 0 2"
proof -
  obtain f' where fuel: "fuel = Suc (Suc f')"
    using f by (metis add_2_eq_Suc le_Suc_ex)
  have "2 < 18446744073709551616 - wp"
    using wp by simp
  then show ?thesis
    using t st wp fuel
    by (elim disjE)
       (simp_all add: SUBT_Parse_PixelBlockDecode_def block_body_def block_init_def read_byte_def
         string2_def string4_def string8_def string_body_def then_go_def Decode2Pixel_def
         Decode4Pixel_def Decode8Pixel_def ReadNext2BitPixel_def ReadNext4BitPixel_def rd_next_def
         seg_of_def line_adjust_def ulong_sub_def reset2_def reset4_def Let_def)
qed

text \<open>The reader in the middle of a byte: a read after the cursor was put to a new block still
takes its code from that byte.\<close>

lemma stale_read:
  assumes "at2 seg p rd" "p mod 4 \<noteq> 0"
  shows "fst (ReadNext2BitPixel seg' False (rd\<lparr>rd_ptr := a, rd_len := b\<rparr>)) = pair seg p"
proof -
  have "p mod 4 = 1 \<or> p mod 4 = 2 \<or> p mod 4 = 3"
    using assms(2) mod_less_divisor [of 4 p] by linarith
  then show ?thesis
    using assms(1) by (elim disjE) (simp_all add: at2_def ReadNext2BitPixel_def pair_def byte_pairs(2,3))
qed

text \<open>The round that meets a run too wide for its row.\<close>

lemma body_too_wide:
  assumes a: "at2 seg p (bk_rd s)" and f: "fits2 n c" and d: "displays (pair seg) p (code2 n c)"
    and re: "row_end rr (bk_line s) \<le> rr_pixel rr + rr_len rr" "row_end rr (bk_line s) < bk_wp s + n"
  shows "\<exists>s'. string_body Decode2Pixel conv2 True seg rr s = Ret ERR_OUT_OF_WIDTH s' \<and>
    at2 seg (p + length (code2 n c)) (bk_rd s')"
proof -
  obtain rd where rd: "Decode2Pixel seg (bk_rd s) = (c, n, rd)" "at2 seg (p + length (code2 n c)) rd"
    using Decode2_run [OF a f d] by blast
  then show ?thesis
    using re code2_pos(1) [OF f] by (simp add: string_body_def row_end_def Let_def)
qed

lemma string_too_wide:
  assumes a: "at8 seg k (bk_rd s)" "seg k = 0x10" and wp: "bk_wp s = row_at rr (bk_line s)"
    and re: "row_end rr (bk_line s) \<le> rr_pixel rr + rr_len rr"
    and d: "displays (pair seg) (4 * (k + 1)) (string_code code2 (rs @ [(n, c)]))"
      "list_all (\<lambda>(n, c). fits2 n c) (rs @ [(n, c)])"
    and w: "rr_hor rr + length (pixels rs) \<le> rr_width rr" "rr_width rr < rr_hor rr + length (pixels rs) + n"
    and b: "k + 1 + (length (string_code code2 rs) + 3) div 4 < blen" "blen < 65536" "4 * blen + 8 \<le> fuel"
  shows "\<exists>s'. block_body fuel seg rr blen s = Some (Ret ERR_OUT_OF_WIDTH s') \<and>
    at2 seg (4 * (k + 1) + length (string_code code2 (rs @ [(n, c)]))) (bk_rd s')"
proof -
  let ?q = "length (string_code code2 rs)"
  define s2 where "s2 = s\<lparr>bk_rd := rd_next (bk_rd s)\<rparr>"
  note r = read_at8 [OF a]
  have s2: "at2 seg (4 * (k + 1)) (bk_rd s2)" "bk_line s2 = bk_line s" "bk_wp s2 = bk_wp s"
    using at8_at(1) [OF r(2)] by (simp_all add: s2_def)
  have "length rs \<le> ?q" by (rule string_code_len) (simp add: code2_def)
  then have len: "length rs < fuel" "(4 * (k + 1) + ?q + 4 - 1) div 4 < blen"
    using b by simp_all
  have dd: "displays (pair seg) (4 * (k + 1)) (string_code code2 rs)" "displays (pair seg) (4 * (k + 1) + ?q) (code2 n c)"
    and ft: "\<And>n c. (n, c) \<in> set rs \<Longrightarrow> fits2 n c" "fits2 n c"
    using d by (auto simp: list_all_iff)
  have ro: "row_end rr (bk_line s2) \<le> rr_pixel rr + rr_len rr" "bk_wp s2 + length (pixels rs) \<le> row_end rr (bk_line s2)"
    using re wp w(1) s2(2,3) by (simp_all add: row_end_at)
  obtain s3 rd where s3: "string_loop fuel Decode2Pixel conv2 True seg rr blen s2 =
      string_loop (fuel - length rs) Decode2Pixel conv2 True seg rr blen s3"
    "painted rr (conv2 (rr_depth rr) (bk_maps s2)) rs rd s2 s3" "at2 seg (4 * (k + 1) + ?q) rd"
    using px2.loop_prefix [OF s2(1) ft(1) dd(1) ro len(2) b(2) less_imp_le [OF len(1)]] by blast
  have p3: "at2 seg (4 * (k + 1) + ?q) (bk_rd s3)" "bk_line s3 = bk_line s"
    "bk_wp s3 = row_at rr (bk_line s) + length (pixels rs)"
    using s3(2,3) s2(2,3) wp by (auto simp: painted_def)
  have wide: "row_end rr (bk_line s3) \<le> rr_pixel rr + rr_len rr" "row_end rr (bk_line s3) < bk_wp s3 + n"
    using re w row_end_at [of rr "bk_line s"] unfolding p3(2,3) by linarith+
  obtain f1 where f1: "fuel - length rs = Suc f1" using len(1) by (cases "fuel - length rs") auto
  show ?thesis
    using body_too_wide [OF p3(1) ft(2) dd(2) wide] r(1) a(2) s3(1) f1
    by (auto simp: block_body_def string2_def then_go_def s2_def add.assoc)
qed

text \<open>C22. A block of whole lines, then a 2-bit string: at the first run that does not fit the row the
block is abandoned behind that run's code word. Where the word ends
inside a byte, the reader's static keeps the place in it, and the first 2-bit code read in the next
block is the rest of the abandoned string and none of the block's own bytes; where the word ends with
its byte nothing is kept.\<close>

theorem subt_out_of_width_keeps_bits:
  assumes st: "rd_get2 st = 0" "rd_get4 st = 0"
    and ls: "list_all (obj_line_ok rr) Ls" "displays seg 0 (enc_block Ls)"
    and h: "2 * length Ls \<le> rr_height rr" "rr_height rr < 65534"
      "row_end rr (2 * length Ls) \<le> rr_pixel rr + rr_len rr"
    and t: "seg (length (enc_block Ls)) = 0x10"
    and d: "displays (pair seg) (4 * (length (enc_block Ls) + 1)) (string_code code2 (rs @ [(n, c)]))"
      "list_all (\<lambda>(n, c). fits2 n c) (rs @ [(n, c)])"
    and w: "rr_hor rr + length (pixels rs) \<le> rr_width rr" "rr_width rr < rr_hor rr + length (pixels rs) + n"
    and b: "length (enc_block Ls) + 1 + (length (string_code code2 rs) + 3) div 4 < blen" "blen < 65536"
    and f: "4 * blen + 8 \<le> fuel"
  shows "\<exists>s k. SUBT_Parse_PixelBlockDecode fuel seg rr (row_at rr 0) blen st m = Some (ERR_OUT_OF_WIDTH, s) \<and>
    k = length (string_code code2 (rs @ [(n, c)])) \<and> rd_get2 (bk_rd s) = k mod 4 \<and>
    (k mod 4 \<noteq> 0 \<longrightarrow> fst (ReadNext2BitPixel seg' False ((bk_rd s)\<lparr>rd_ptr := 1, rd_len := 1\<rparr>)) =
       pair seg (4 * (length (enc_block Ls) + 1) + k))"
proof -
  let ?k = "length (enc_block Ls)" and ?q = "length (string_code code2 (rs @ [(n, c)]))"
  let ?s = "block_init st m (row_at rr 0)"
  have i: "at8 seg 0 (bk_rd ?s)" "bk_line ?s = 0" "bk_wp ?s = row_at rr (bk_line ?s)"
    using st by (simp_all add: block_init_def at8_def)
  have re: "row_end rr (bk_line ?s + 2 * j) \<le> rr_pixel rr + rr_len rr" if "j < length Ls" for j
    using h(3) row_end_mono [of "2 * j" "2 * length Ls" rr] that i(2) by simp
  have fl: "length (line_runs L) < fuel" if "L \<in> set Ls" for L
    using line_len [of rr L] enc_line_le [OF that] that ls(1) b(1) f by (auto simp: list_all_iff)
  obtain s1 where s1: "SUBT_Parse_PixelBlockDecode fuel seg rr (row_at rr 0) blen st m =
      block_loop (fuel - 2 * length Ls) fuel seg rr blen s1" "at8 seg ?k (bk_rd s1)"
    "bk_line s1 = 2 * length Ls" "bk_wp s1 = row_at rr (bk_line s1)"
    using block_prefix [OF i(1) _ ls(2) re i(3) _ b(2) fl _ h(2), of fuel] ls(1) h(1) i(2) b(1) f
      enc_block_lines [of Ls] by (auto simp: SUBT_Parse_PixelBlockDecode_def list_all_iff)
  obtain s2 where s2: "block_body fuel seg rr blen s1 = Some (Ret ERR_OUT_OF_WIDTH s2)" "at2 seg (4 * (?k + 1) + ?q) (bk_rd s2)"
    using string_too_wide [OF s1(2) t s1(4) _ d w b f] h(3) s1(3) by auto
  obtain f2 where "fuel - 2 * length Ls = Suc f2"
    using b(1) f enc_block_lines [of Ls] by (cases "fuel - 2 * length Ls") auto
  then have "SUBT_Parse_PixelBlockDecode fuel seg rr (row_at rr 0) blen st m = Some (ERR_OUT_OF_WIDTH, s2)"
    using s1(1) s2(1) at8_len [OF s1(2)] b by simp
  moreover have "(4 * (?k + 1) + ?q) mod 4 = ?q mod 4" by presburger
  ultimately show ?thesis
    using s2(2) stale_read [OF s2(2), of seg' 1 1] by (simp add: at2_def)
qed

text \<open>The masks of the 4-to-2-bit reduction are those of an 8-bit code: every pixel of a 4-bit
string comes out as colour 0.\<close>

theorem subt_four_bit_in_two_bit_region:
  assumes "list_all (\<lambda>(n, c). fits4 n c) rs"
  shows "line_pixels 2 t (L4 rs) = replicate (length (pixels rs)) 0"
proof -
  have z: "conv4 2 t c = 0" if "c < 16" for c
  proof -
    have c: "unat c \<in> set [0..<16]" using that by (simp add: word_less_nat_alt)
    have "\<forall>k\<in>set [0..<16]. conv4 2 t (of_nat k) = 0"
      by (simp add: conv4_def upt_rec)
    from bspec [OF this c] show ?thesis by simp
  qed
  have "map (conv4 2 t) (pixels rs) = replicate (length (pixels rs)) 0"
    using assms by (induction rs) (auto simp: z fits4_def replicate_add)
  then show ?thesis by (simp add: line_pixels_def)
qed

section \<open>The properties at concrete inputs\<close>

definition some_region :: refering_region where
  "some_region = \<lparr>rr_depth = 4, rr_width = 8, rr_height = 4, rr_pixel = 100, rr_ver = 0, rr_hor = 1,
     rr_len = 32\<rparr>"

definition some_reader :: pixel_reader where
  "some_reader = \<lparr>rd_ptr = 0, rd_len = 0, rd_get2 = 0, rd_temp2 = 0, rd_get4 = 0, rd_temp4 = 0\<rparr>"

theorem subt_block_bounds_witness:
  "\<exists>r s. SUBT_Parse_PixelBlockDecode 50 (\<lambda>_. 0x10) some_region 101 9 some_reader (\<lambda>_. 7) = Some (r, s) \<and>
    bk_mem s 99 = 7 \<and> bk_mem s 200 = 7"
  using subt_block_bounds [of some_reader 9 50 some_region "\<lambda>_. 0x10" "\<lambda>_. 7"]
  by (auto simp: some_reader_def some_region_def row_at_def)

text \<open>A line of two runs, then a string whose second run leaves the row; the next block's first
code comes from the last byte of the run's word.\<close>

definition wide_block :: "u8 list" where
  "wide_block = enc_block [L2 [(1, 1), (3, 2)]] @ [0x10, 0x4f, 0xe6]"

lemma wide_block_bytes: "wide_block = [0x10, 0x48, 0x80, 0xf0, 0x10, 0x4f, 0xe6]"
  by (simp add: wide_block_def code2_def quad_def)

theorem subt_out_of_width_keeps_bits_witness:
  "\<exists>s. SUBT_Parse_PixelBlockDecode 50 (seg_of wide_block) some_region 101 7 some_reader (\<lambda>_. 7) =
      Some (ERR_OUT_OF_WIDTH, s) \<and> rd_get2 (bk_rd s) = 1 \<and>
      fst (ReadNext2BitPixel (seg_of [0x10, 0x55]) False ((bk_rd s)\<lparr>rd_ptr := 1, rd_len := 1\<rparr>)) = 2"
proof -
  let ?Ls = "[L2 [(1, 1), (3, 2)]]" and ?rs = "[(1 :: nat, 1 :: u8)]"
  have e: "length (enc_block ?Ls) = 4" by (simp add: code2_def)
  have h: "rd_get2 some_reader = 0" "rd_get4 some_reader = 0" "list_all (obj_line_ok some_region) ?Ls"
    "2 * length ?Ls \<le> rr_height some_region" "rr_height some_region < 65534"
    "row_end some_region (2 * length ?Ls) \<le> rr_pixel some_region + rr_len some_region"
    "rr_hor some_region + length (pixels ?rs) \<le> rr_width some_region"
    "rr_width some_region < rr_hor some_region + length (pixels ?rs) + 10"
    "list_all (\<lambda>(n, c). fits2 n c) (?rs @ [(10, 3)])" "row_at some_region 0 = 101"
    by (simp_all add: some_reader_def some_region_def obj_line_ok_def fits2_def row_end_def row_at_def)
  have d: "displays (seg_of wide_block) 0 (enc_block ?Ls)" "seg_of wide_block (length (enc_block ?Ls)) = 0x10"
    using displays_seg_of [of "[]" wide_block] unfolding wide_block_def by simp_all
  have c: "displays (pair (seg_of wide_block)) (4 * (length (enc_block ?Ls) + 1)) (string_code code2 (?rs @ [(10, 3)]))"
    "length (string_code code2 (?rs @ [(10, 3)])) = 5" "length (string_code code2 ?rs) = 1"
    "pair (seg_of wide_block) 25 = 2"
    unfolding e by (simp_all add: code2_def wide_block_bytes pair_def seg_of_def)
  show ?thesis
    using subt_out_of_width_keeps_bits [OF h(1-3) d(1) h(4-6) d(2) c(1) h(9,7,8), of 7 50 "\<lambda>_. 7" "seg_of [0x10, 0x55]"] c(2-4) h(10)
    unfolding e by simp
qed

end
