(* ===== verification/SubtSegment.thy ===== *)
theory SubtSegment
  imports SubtBlock
begin

text \<open>
  The segments of a subtitle PES packet (src/kware/subtitle/src/subtitle_parse.c):
  \<open>SUBT_Parse_CreateSegment\<close> splits the packet into the slots of the page, the
  \<open>SUBT_Parse_Find...\<close> functions look a segment up, \<open>SUBT_Parse_ParsePageSegment\<close> and
  \<open>SUBT_Parse_ParseRegionSegment\<close> read the page and region compositions.

  The packet's bytes are a function of the offset, a segment's data the offset where they
  begin. A PES packet is at most 65541 bytes long, so the processed length never wraps. The lemmas
  show what ends up in the slots, also behind a segment that is not wanted, and that reading a region
  for an update changes nothing but its left edges.
\<close>

section \<open>The slots\<close>

record segment =
  sg_type :: u8
  sg_len :: nat
  sg_data :: "nat option"
  sg_status :: nat

definition be16 :: "seg_data \<Rightarrow> nat \<Rightarrow> nat" where
  "be16 pes p = 256 * unat (pes p) + unat (pes (p + 1))"

definition type_ok :: "u8 \<Rightarrow> bool" where
  "type_ok t \<longleftrightarrow> (0x10 \<le> t \<and> t \<le> 0x15) \<or> t = 0x80 \<or> t = 0xff"

text \<open>\<open>i\<close> is the slot \<open>pstSegment\<close>, \<open>p\<close> the cursor \<open>pu8SegtData\<close>. The length of a
segment that is not wanted is cleared before the cursor is moved by it.\<close>

function create_loop ::
    "seg_data \<Rightarrow> nat \<Rightarrow> nat \<Rightarrow> nat \<Rightarrow> nat \<Rightarrow> nat \<Rightarrow> nat \<Rightarrow> segment list \<Rightarrow> segment list" where
  "create_loop pes dlen pid aid i p done sgs =
     (if i < length sgs \<and> done + 6 < dlen then
        if pes p = 0x0f then
          let page = be16 pes (p + 2); len = be16 pes (p + 4);
              s = (sgs ! i)\<lparr>sg_type := pes (p + 1), sg_len := len\<rparr>
          in if dlen < done + (len + 6) then sgs[i := s\<lparr>sg_len := 0\<rparr>]
          else if (page = pid \<or> aid = page) \<and> type_ok (pes (p + 1)) then
            create_loop pes dlen pid aid (i + 1) (p + 6 + len) (done + (len + 6))
              (sgs[i := s\<lparr>sg_status := 0, sg_data := Some (p + 6)\<rparr>])
          else
            create_loop pes dlen pid aid i (p + 6 + 0) (done + (len + 6))
              (sgs[i := s\<lparr>sg_status := 0, sg_type := 0, sg_len := 0, sg_data := None\<rparr>])
        else sgs
      else sgs)"
  by auto
termination
  by (relation "measure (\<lambda>(pes, dlen, pid, aid, i, p, done, sgs). dlen - done)") auto

declare create_loop.simps [simp del]

definition SUBT_Parse_CreateSegment ::
    "seg_data \<Rightarrow> nat \<Rightarrow> nat \<Rightarrow> nat \<Rightarrow> segment list \<Rightarrow> segment list" where
  "SUBT_Parse_CreateSegment pes dlen pid aid sgs =
     create_loop pes dlen pid aid 0 0 0 (sgs[0 := (sgs ! 0)\<lparr>sg_len := 0\<rparr>])"

text \<open>The searches: from the segment handed in to the end of the list. Those for the page's
own segments look only at type and length, the others stop at a slot without data.\<close>

primrec find_plain :: "u8 \<Rightarrow> segment list \<Rightarrow> segment list option" where
  "find_plain t [] = None"
| "find_plain t (s # ss) = (if t = sg_type s \<and> sg_len s \<noteq> 0 then Some (s # ss) else find_plain t ss)"

definition SUBT_Parse_FindDisplayDefinitionSegment :: "segment list \<Rightarrow> segment list option" where
  "SUBT_Parse_FindDisplayDefinitionSegment = find_plain 0x14"

definition SUBT_Parse_FindPageSegment :: "segment list \<Rightarrow> segment list option" where
  "SUBT_Parse_FindPageSegment = find_plain 0x10"

primrec find_id :: "seg_data \<Rightarrow> u8 \<Rightarrow> u8 \<Rightarrow> segment list \<Rightarrow> segment list option" where
  "find_id pes t k [] = None"
| "find_id pes t k (s # ss) =
     (case sg_data s of
        None \<Rightarrow> None
      | Some p \<Rightarrow> if t = sg_type s \<and> pes p = k \<and> sg_len s \<noteq> 0 then Some (s # ss)
                  else find_id pes t k ss)"

definition SUBT_Parse_FindClutSegment :: "seg_data \<Rightarrow> u8 \<Rightarrow> segment list \<Rightarrow> segment list option" where
  "SUBT_Parse_FindClutSegment pes = find_id pes 0x12"

definition SUBT_Parse_FindRegionSegment :: "seg_data \<Rightarrow> u8 \<Rightarrow> segment list \<Rightarrow> segment list option" where
  "SUBT_Parse_FindRegionSegment pes = find_id pes 0x11"

primrec SUBT_Parse_FindObjectSegment ::
    "seg_data \<Rightarrow> nat \<Rightarrow> segment list \<Rightarrow> segment list option" where
  "SUBT_Parse_FindObjectSegment pes k [] = None"
| "SUBT_Parse_FindObjectSegment pes k (s # ss) =
     (case sg_data s of
        None \<Rightarrow> None
      | Some p \<Rightarrow> if sg_type s = 0x13 \<and> sg_len s \<noteq> 0 \<and> be16 pes p = k then Some (s # ss)
                  else SUBT_Parse_FindObjectSegment pes k ss)"

section \<open>Packets of the page\<close>

text \<open>A segment as the standard writes it (EN 300 743, 7.2).\<close>

definition hi8 :: "nat \<Rightarrow> u8" where "hi8 n = of_nat (n div 256)"
definition lo8 :: "nat \<Rightarrow> u8" where "lo8 n = of_nat (n mod 256)"

definition enc_seg :: "nat \<Rightarrow> u8 \<times> u8 list \<Rightarrow> u8 list" where
  "enc_seg page ts = [0x0f, fst ts, hi8 page, lo8 page, hi8 (length (snd ts)), lo8 (length (snd ts))]
     @ snd ts"

definition enc_segs :: "nat \<Rightarrow> (u8 \<times> u8 list) list \<Rightarrow> u8 list" where
  "enc_segs page tss = concat (map (enc_seg page) tss)"

lemma enc_segs_simps [simp]:
  "enc_segs page [] = []" "enc_segs page (x # xs) = enc_seg page x @ enc_segs page xs"
  by (simp_all add: enc_segs_def)

lemma be16_hi_lo: "n < 65536 \<Longrightarrow> pes p = hi8 n \<Longrightarrow> pes (Suc p) = lo8 n \<Longrightarrow> be16 pes p = n"
  by (simp add: be16_def hi8_def lo8_def u8_of_nat)

lemma length_enc_seg [simp]: "length (enc_seg page ts) = 6 + length (snd ts)"
  by (simp add: enc_seg_def)

text \<open>The slot a segment of the page is put into.\<close>

definition filled :: "segment \<Rightarrow> nat \<Rightarrow> u8 \<times> u8 list \<Rightarrow> segment" where
  "filled s p ts = s\<lparr>sg_type := fst ts, sg_len := length (snd ts), sg_status := 0, sg_data := Some (p + 6)\<rparr>"

fun fill_slots :: "nat \<Rightarrow> nat \<Rightarrow> segment list \<Rightarrow> (u8 \<times> u8 list) list \<Rightarrow> segment list" where
  "fill_slots i p sgs [] = sgs"
| "fill_slots i p sgs (x # xs) =
     fill_slots (i + 1) (p + 6 + length (snd x)) (sgs[i := filled (sgs ! i) p x]) xs"

lemma length_fill_slots [simp]: "length (fill_slots i p sgs xs) = length sgs"
  by (induction xs arbitrary: i p sgs) auto

lemma suc_pos:
  "p + 2 = Suc (Suc p)" "p + 4 = Suc (Suc (Suc (Suc p)))"
  "p + 6 = Suc (Suc (Suc (Suc (Suc (Suc p)))))" for p :: nat
  by simp_all

lemma create_step:
  assumes "displays pes p (enc_seg page x)" "type_ok (fst x)" "length (snd x) < 65536" "page < 65536"
    and "i < length sgs" "done + 6 < dlen" "done + (6 + length (snd x)) \<le> dlen"
    and "page = pid \<or> page = aid"
  shows "create_loop pes dlen pid aid i p done sgs =
    create_loop pes dlen pid aid (i + 1) (p + 6 + length (snd x)) (done + (6 + length (snd x)))
      (sgs[i := filled (sgs ! i) p x])"
proof -
  have "pes p = 0x0f" "pes (p + 1) = fst x" "be16 pes (p + 2) = page" "be16 pes (p + 4) = length (snd x)"
    using assms(1,3,4) by (auto simp: enc_seg_def suc_pos intro!: be16_hi_lo)
  then show ?thesis
    using assms
    by (subst create_loop.simps) (auto simp: Let_def filled_def add.commute)
qed

text \<open>Wanted segments at the head of what is left are put into the next slots.\<close>

lemma create_loop_wanted:
  assumes "displays pes p (enc_segs page xs)"
    and "list_all (\<lambda>x. type_ok (fst x) \<and> length (snd x) < 65536) xs" "page < 65536"
    and "i + length xs \<le> length sgs" "done + length (enc_segs page xs) < dlen"
    and "page = pid \<or> page = aid"
  shows "create_loop pes dlen pid aid i p done sgs =
    create_loop pes dlen pid aid (i + length xs) (p + length (enc_segs page xs))
      (done + length (enc_segs page xs)) (fill_slots i p sgs xs)"
  using assms
proof (induction xs arbitrary: i p "done" sgs)
  case (Cons x xs)
  let ?n = "6 + length (snd x)"
  have "create_loop pes dlen pid aid i p done sgs =
    create_loop pes dlen pid aid (i + 1) (p + 6 + length (snd x)) (done + ?n) (sgs[i := filled (sgs ! i) p x])"
    by (rule create_step [where page = page]) (use Cons.prems in auto)
  also have "\<dots> = create_loop pes dlen pid aid (i + 1 + length xs)
      (p + 6 + length (snd x) + length (enc_segs page xs)) (done + ?n + length (enc_segs page xs))
      (fill_slots (i + 1) (p + 6 + length (snd x)) (sgs[i := filled (sgs ! i) p x]) xs)"
    by (rule Cons.IH) (use Cons.prems in \<open>auto simp: add.assoc\<close>)
  finally show ?case by (simp add: add.assoc)
qed simp

lemma create_loop_stop: "pes p \<noteq> 0x0f \<Longrightarrow> create_loop pes dlen pid aid i p done sgs = sgs"
  by (subst create_loop.simps) simp

lemma fill_slots_eq:
  "i + length xs \<le> length sgs \<Longrightarrow>
     fill_slots i p sgs xs = take i sgs @ map (\<lambda>k. filled (sgs ! (i + k))
       (p + length (enc_segs 0 (take k xs))) (xs ! k)) [0..<length xs] @ drop (i + length xs) sgs"
proof (induction xs arbitrary: i p sgs)
  case (Cons x xs)
  then show ?case
    by (simp add: take_Suc_conv_app_nth map_upt_Suc add.assoc del: upt_Suc)
qed simp

lemma displays_segs:
  assumes "displays pes p (enc_segs page xs)" "k < length xs"
  shows "displays pes (p + length (enc_segs 0 (take k xs)) + 6) (snd (xs ! k))"
  using assms
proof (induction xs arbitrary: p k)
  case (Cons x xs)
  show ?case
  proof (cases k)
    case 0
    then show ?thesis using Cons.prems by (simp add: enc_seg_def suc_pos)
  next
    case (Suc k')
    then show ?thesis
      using Cons.IH [of "p + (6 + length (snd x))" k'] Cons.prems by (simp add: add.assoc add.left_commute)
  qed
qed simp

text \<open>The slots of a packet: its segments, then what was there before.\<close>

definition packet_slots :: "segment list \<Rightarrow> (u8 \<times> u8 list) list \<Rightarrow> segment list" where
  "packet_slots sgs xs = fill_slots 0 0 (sgs[0 := (sgs ! 0)\<lparr>sg_len := 0\<rparr>]) xs"

lemma packet_slots_show:
  assumes d: "displays pes 0 (enc_segs page xs)" and n: "length xs \<le> length sgs"
  shows "length (packet_slots sgs xs) = length sgs"
    "map sg_type (take (length xs) (packet_slots sgs xs)) = map fst xs"
    "map sg_len (take (length xs) (packet_slots sgs xs)) = map (length \<circ> snd) xs"
    "k < length xs \<Longrightarrow> \<exists>p. sg_data (packet_slots sgs xs ! k) = Some p \<and> displays pes p (snd (xs ! k))"
    "0 < m \<Longrightarrow> length xs \<le> m \<Longrightarrow> drop m (packet_slots sgs xs) = drop m sgs"
proof -
  let ?sgs = "sgs[0 := (sgs ! 0)\<lparr>sg_len := 0\<rparr>]"
  have r: "packet_slots sgs xs = map (\<lambda>k. filled (?sgs ! k) (length (enc_segs 0 (take k xs))) (xs ! k))
      [0..<length xs] @ drop (length xs) ?sgs"
    using n unfolding packet_slots_def by (subst fill_slots_eq) auto
  show "length (packet_slots sgs xs) = length sgs"
    "map sg_type (take (length xs) (packet_slots sgs xs)) = map fst xs"
    "map sg_len (take (length xs) (packet_slots sgs xs)) = map (length \<circ> snd) xs"
    "k < length xs \<Longrightarrow> \<exists>p. sg_data (packet_slots sgs xs ! k) = Some p \<and> displays pes p (snd (xs ! k))"
    unfolding r using displays_segs [OF d, of k] n
    by (auto simp: filled_def nth_append o_def intro!: nth_equalityI)
  show "0 < m \<Longrightarrow> length xs \<le> m \<Longrightarrow> drop m (packet_slots sgs xs) = drop m sgs"
    unfolding r by simp
qed

lemma create_packet:
  assumes d: "displays pes 0 (enc_segs page xs @ [0xff])"
    and ok: "list_all (\<lambda>x. type_ok (fst x) \<and> length (snd x) < 65536) xs" "page < 65536"
    and n: "0 < length xs" "length xs \<le> length sgs" and pg: "page = pid \<or> page = aid"
  shows "(let r = SUBT_Parse_CreateSegment pes (length (enc_segs page xs) + 1) pid aid sgs in
      length r = length sgs \<and>
      map sg_type (take (length xs) r) = map fst xs \<and>
      map sg_len (take (length xs) r) = map (length \<circ> snd) xs \<and>
      (\<forall>k<length xs. \<exists>p. sg_data (r ! k) = Some p \<and> displays pes p (snd (xs ! k))) \<and>
      drop (length xs) r = drop (length xs) sgs)"
proof -
  have e: "displays pes 0 (enc_segs page xs)" "pes (length (enc_segs page xs)) \<noteq> 0x0f" using d by auto
  have "SUBT_Parse_CreateSegment pes (length (enc_segs page xs) + 1) pid aid sgs = packet_slots sgs xs"
    using create_loop_wanted [OF e(1) ok, of 0 "sgs[0 := (sgs ! 0)\<lparr>sg_len := 0\<rparr>]" 0] n(2) pg
    by (simp add: SUBT_Parse_CreateSegment_def packet_slots_def create_loop_stop [of pes, OF e(2)])
  then show ?thesis
    using packet_slots_show [OF e(1) n(2)] n(1) by simp
qed

text \<open>C18. A packet made of segments of the wanted page and closed by the marker of the standard
is split into exactly these segments, each slot with the type, the length and the place of its
data; the slots behind them keep what an earlier packet left there.\<close>

theorem subt_packet_segments:
  assumes d: "displays pes 0 (enc_segs page xs @ [0xff])"
    and ok: "list_all (\<lambda>x. type_ok (fst x) \<and> length (snd x) < 65536) xs" "page < 65536"
    and n: "0 < length xs" "length xs \<le> length sgs" and pg: "page = pid \<or> page = aid"
  shows "(let r = SUBT_Parse_CreateSegment pes (length (enc_segs page xs) + 1) pid aid sgs in
      length r = length sgs \<and>
      map sg_type (take (length xs) r) = map fst xs \<and>
      map sg_len (take (length xs) r) = map (length \<circ> snd) xs \<and>
      (\<forall>k<length xs. \<exists>p. sg_data (r ! k) = Some p \<and> displays pes p (snd (xs ! k))) \<and>
      drop (length xs) r = drop (length xs) sgs)"
  by (rule create_packet [OF assms])

text \<open>A search that the new packet does not answer goes on into the slots of earlier ones.\<close>

lemma find_plain_append:
  "find_plain t (as @ bs) = (case find_plain t as of None \<Rightarrow> find_plain t bs | Some ss \<Rightarrow> Some (ss @ bs))"
  by (induction as) auto

lemma find_plain_none: "t \<notin> sg_type ` set ss \<Longrightarrow> find_plain t ss = None"
  by (induction ss) auto

theorem subt_stale_segment_found:
  assumes d: "displays pes 0 (enc_segs page xs @ [0xff])"
    and ok: "list_all (\<lambda>x. type_ok (fst x) \<and> length (snd x) < 65536) xs" "page < 65536"
    and n: "0 < length xs" "length xs \<le> length sgs" and pg: "page = pid \<or> page = aid"
    and new: "0x14 \<notin> fst ` set xs" and old: "find_plain 0x14 (drop (length xs) sgs) = Some ss"
  shows "SUBT_Parse_FindDisplayDefinitionSegment
      (SUBT_Parse_CreateSegment pes (length (enc_segs page xs) + 1) pid aid sgs) = Some ss"
proof -
  let ?r = "SUBT_Parse_CreateSegment pes (length (enc_segs page xs) + 1) pid aid sgs"
  have r: "map sg_type (take (length xs) ?r) = map fst xs" "drop (length xs) ?r = drop (length xs) sgs"
    using create_packet [OF d ok n pg] unfolding Let_def by blast+
  have "0x14 \<notin> sg_type ` set (take (length xs) ?r)"
    using new arg_cong [OF r(1), of set] by simp
  then have "find_plain 0x14 (take (length xs) ?r) = None"
    by (rule find_plain_none)
  then have "find_plain 0x14 (take (length xs) ?r @ drop (length xs) ?r) = Some ss"
    unfolding find_plain_append r(2) by (simp add: old)
  then show ?thesis
    by (simp add: SUBT_Parse_FindDisplayDefinitionSegment_def)
qed

text \<open>A segment that is not wanted: of another page, or of a type the code does not know.\<close>

definition unwanted :: "nat \<Rightarrow> nat \<Rightarrow> nat \<Rightarrow> u8 \<times> u8 list \<Rightarrow> bool" where
  "unwanted pid aid page x \<longleftrightarrow> \<not> ((page = pid \<or> page = aid) \<and> type_ok (fst x))"

definition cleared :: "segment \<Rightarrow> segment" where
  "cleared s = s\<lparr>sg_status := 0, sg_type := 0, sg_len := 0, sg_data := None\<rparr>"

text \<open>Its length is cleared before the cursor is moved by it: the next header is looked for at
the first byte of its data.\<close>

lemma create_unwanted:
  assumes "displays pes p (enc_seg page x)" "length (snd x) < 65536" "page < 65536"
    and u: "unwanted pid aid page x"
    and "i < length sgs" "done + 6 < dlen" "done + (6 + length (snd x)) \<le> dlen"
  shows "create_loop pes dlen pid aid i p done sgs =
    create_loop pes dlen pid aid i (p + 6) (done + (6 + length (snd x))) (sgs[i := cleared (sgs ! i)])"
proof -
  have "pes p = 0x0f" "pes (p + 1) = fst x" "be16 pes (p + 2) = page" "be16 pes (p + 4) = length (snd x)"
    using assms(1-3) by (auto simp: enc_seg_def suc_pos intro!: be16_hi_lo)
  moreover have "\<not> ((page = pid \<or> aid = page) \<and> type_ok (fst x))"
    using u by (auto simp: unwanted_def)
  ultimately show ?thesis
    using assms(5-7)
    by (subst create_loop.simps) (auto simp: Let_def cleared_def add.commute)
qed

text \<open>C34. A segment of another page or of an unknown type is not skipped: the next header is looked
for at the first byte of its data. Where it has data that do not begin with the sync byte the packet
ends there. The wanted segments before it are in their slots, its own slot is cleared, and nothing
behind it is found, however much of the packet is left.\<close>

theorem subt_foreign_segment_ends_packet:
  assumes d: "displays pes 0 (enc_segs page xs @ enc_seg fpage x)"
    and ok: "list_all (\<lambda>x. type_ok (fst x) \<and> length (snd x) < 65536) xs" "page < 65536" "page = pid \<or> page = aid"
    and f: "unwanted pid aid fpage x" "length (snd x) < 65536" "fpage < 65536"
    and x: "snd x \<noteq> []" "hd (snd x) \<noteq> 0x0f"
    and n: "length xs < length sgs" "length (enc_segs page xs) + 6 + length (snd x) \<le> dlen"
  shows "(let r = SUBT_Parse_CreateSegment pes dlen pid aid sgs in
      length r = length sgs \<and>
      map sg_type (take (length xs) r) = map fst xs \<and>
      map sg_len (take (length xs) r) = map (length \<circ> snd) xs \<and>
      (\<forall>k<length xs. \<exists>p. sg_data (r ! k) = Some p \<and> displays pes p (snd (xs ! k))) \<and>
      sg_type (r ! length xs) = 0 \<and> sg_len (r ! length xs) = 0 \<and> sg_data (r ! length xs) = None \<and>
      drop (length xs + 1) r = drop (length xs + 1) sgs)"
proof -
  let ?p = "length (enc_segs page xs)" and ?s = "packet_slots sgs xs"
  have e: "displays pes 0 (enc_segs page xs)" "displays pes ?p (enc_seg fpage x)" using d by auto
  have h: "pes (?p + 6) \<noteq> 0x0f" using e(2) x by (cases "snd x") (auto simp: enc_seg_def suc_pos)
  have l: "0 < length (snd x)" "length ?s = length sgs" "length xs \<le> length sgs"
    using x(1) packet_slots_show(1) [OF e(1)] n(1) by simp_all
  have "SUBT_Parse_CreateSegment pes dlen pid aid sgs = create_loop pes dlen pid aid (length xs) ?p ?p ?s"
    using create_loop_wanted [OF e(1) ok(1,2) _ _ ok(3), of 0 "sgs[0 := (sgs ! 0)\<lparr>sg_len := 0\<rparr>]" 0 dlen] n l(1)
    by (simp add: SUBT_Parse_CreateSegment_def packet_slots_def)
  also have "\<dots> = create_loop pes dlen pid aid (length xs) (?p + 6) (?p + (6 + length (snd x)))
      (?s[length xs := cleared (?s ! length xs)])"
    using n l by (intro create_unwanted [OF e(2) f(2,3,1)]; linarith)
  also have "\<dots> = ?s[length xs := cleared (?s ! length xs)]"
    by (rule create_loop_stop [of pes, OF h])
  finally show ?thesis
    using packet_slots_show [OF e(1) l(3)] n(1) by (simp add: cleared_def)
qed

text \<open>One without data is skipped as it should be.\<close>

theorem subt_empty_foreign_segment_skipped:
  assumes d: "displays pes 0 (enc_seg fpage (t, []) @ enc_segs page xs @ [0xff])"
    and ok: "list_all (\<lambda>x. type_ok (fst x) \<and> length (snd x) < 65536) xs" "page < 65536" "page = pid \<or> page = aid"
    and f: "unwanted pid aid fpage (t, [])" "fpage < 65536" and n: "0 < length xs" "length xs \<le> length sgs"
  shows "map sg_type (take (length xs) (SUBT_Parse_CreateSegment pes (length (enc_segs page xs) + 7) pid aid sgs)) =
    map fst xs"
proof -
  let ?s = "sgs[0 := cleared ((sgs ! 0)\<lparr>sg_len := 0\<rparr>)]"
  have e: "displays pes 0 (enc_seg fpage (t, []))" "displays pes 6 (enc_segs page xs)"
    "pes (6 + length (enc_segs page xs)) \<noteq> 0x0f" using d by auto
  have sg: "sgs \<noteq> []" using n by auto
  have "SUBT_Parse_CreateSegment pes (length (enc_segs page xs) + 7) pid aid sgs =
      create_loop pes (length (enc_segs page xs) + 7) pid aid 0 6 6 ?s"
    using create_unwanted [OF e(1) _ f(2,1), of 0 "sgs[0 := (sgs ! 0)\<lparr>sg_len := 0\<rparr>]" 0 "length (enc_segs page xs) + 7"]
      sg by (simp add: SUBT_Parse_CreateSegment_def)
  also have "\<dots> = fill_slots 0 6 ?s xs"
    using create_loop_wanted [OF e(2) ok(1,2) _ _ ok(3), of 0 ?s 6] n(2)
    by (simp add: create_loop_stop [of pes, OF e(3)])
  finally show ?thesis
    using n by (simp add: fill_slots_eq) (auto simp: filled_def intro!: nth_equalityI)
qed

section \<open>The page composition\<close>

text \<open>\<open>SUBT_REGION_INFO_IN_PAGE_S\<close>; the page state is the code of two bits, 0 being
\<open>SUBTITLE_PAGE_NORMAL_CASE\<close>.\<close>

record region_in_page =
  rp_id :: u8
  rp_left :: nat
  rp_top :: nat
  rp_ver :: nat

record page_info =
  pg_time :: nat
  pg_state :: nat
  pg_num :: nat
  pg_regions :: "region_in_page list"

primrec page_regions :: "seg_data \<Rightarrow> nat \<Rightarrow> nat \<Rightarrow> region_in_page list \<Rightarrow> region_in_page list" where
  "page_regions pes p 0 rs = rs"
| "page_regions pes p (Suc n) rs =
     (let rs = page_regions pes p n rs; q = p + 6 * n
      in rs[n := (rs ! n)\<lparr>rp_id := pes q, rp_left := be16 pes (q + 2), rp_top := be16 pes (q + 4)\<rparr>])"

definition SUBT_Parse_ParsePageSegment ::
    "seg_data \<Rightarrow> nat \<Rightarrow> nat \<Rightarrow> region_in_page list \<Rightarrow> page_info" where
  "SUBT_Parse_ParsePageSegment pes p len rs =
     (let t = unat (pes p);
          ver = unat (drop_bit 4 (pes (p + 1) AND 0xf0));
          n = (if len \<le> 2 then 0 else (len - 2) div 6);
          n = (if 10 < n then 10 else n)
      in \<lparr>pg_time = (if t = 0 then 5 else t),
          pg_state = unat (drop_bit 2 (pes (p + 1) AND 0x0c)), pg_num = n,
          pg_regions = page_regions pes (p + 2) n (rs[0 := (rs ! 0)\<lparr>rp_ver := ver\<rparr>])\<rparr>)"

section \<open>The region composition\<close>

text \<open>\<open>SUBT_OBJECT_INFO_IN_REGION_S\<close> and \<open>SUBT_ALL_INFO_IN_REGION_S\<close>; the object
type is its code, 1 a character, 2 a string of characters.\<close>

record object_info =
  oi_id :: nat
  oi_type :: nat
  oi_left :: nat
  oi_top :: nat
  oi_front :: u8
  oi_back :: u8

record region_info =
  ra_id :: u8
  ra_fill :: nat
  ra_width :: nat
  ra_height :: nat
  ra_clutsel :: nat
  ra_depth :: nat
  ra_clut :: u8
  ra_back :: u8
  ra_num :: nat
  ra_objs :: "object_info list"

definition region_head :: "seg_data \<Rightarrow> nat \<Rightarrow> region_info \<Rightarrow> region_info" where
  "region_head pes p r =
     (let w = be16 pes (p + 2); h = be16 pes (p + 4);
          d = unat (drop_bit 2 (pes (p + 6) AND 0x1c));
          depth = (if d = 1 then 2 else if d = 2 then 4 else if d = 3 then 8 else 0)
      in r\<lparr>ra_id := pes p,
           ra_fill := unat (drop_bit 3 (pes (p + 1) AND 0x08)),
           ra_width := (if 1920 < w then 1920 else w),
           ra_height := (if 1080 < h then 1080 else h),
           ra_clutsel := unat (drop_bit 5 (pes (p + 6) AND 0xe0)),
           ra_depth := depth,
           ra_clut := pes (p + 7),
           ra_back := (if depth = 2 then drop_bit 2 (pes (p + 9) AND 0x0c)
                       else if depth = 4 then drop_bit 4 (pes (p + 9) AND 0xf0)
                       else if depth = 8 then pes (p + 8) else ra_back r),
           ra_num := 0\<rparr>)"

definition pos12 :: "seg_data \<Rightarrow> nat \<Rightarrow> nat" where
  "pos12 pes p = 256 * unat (pes p AND 0x0f) + unat (pes (p + 1))"

text \<open>One object of the list. \<open>halve\<close> is \<open>data_status\<close>, set when the packet is parsed
again after a line too wide for its region; \<open>off\<close> is \<open>u32ObjectLeftOffset\<close> and \<open>rl\<close>
the region's left edge in the page. The last result tells a character object, whose two colours
are taken whether or not the segment still has them.\<close>

definition region_obj ::
    "seg_data \<Rightarrow> bool \<Rightarrow> bool \<Rightarrow> nat \<Rightarrow> nat \<Rightarrow> region_info \<Rightarrow> nat \<Rightarrow> region_info \<times> nat \<times> nat \<times> bool" where
  "region_obj pes halve normal p off r rl =
     (let k = ra_num r;
          l = (if halve then pos12 pes (p + 2) div 2 else pos12 pes (p + 2));
          ob = (ra_objs r ! k)\<lparr>oi_id := be16 pes p,
                 oi_type := unat (drop_bit 6 (pes (p + 2) AND 0xc0)),
                 oi_left := l, oi_top := pos12 pes (p + 4)\<rparr>;
          (ob, r, rl, off) =
            (if \<not> normal then (ob, r, rl, off)
             else if off = 0 then
               (ob\<lparr>oi_left := 0\<rparr>, r\<lparr>ra_width := (ra_width r + 65536 - l) mod 65536\<rparr>,
                (rl + l) mod 65536, l)
             else (ob\<lparr>oi_left := (l + 65536 - off) mod 65536\<rparr>, r, rl, off));
          char = (oi_type ob = 1 \<or> oi_type ob = 2);
          ob = (if char then ob\<lparr>oi_front := pes (p + 6), oi_back := pes (p + 7)\<rparr> else ob)
      in (r\<lparr>ra_objs := (ra_objs r)[k := ob], ra_num := k + 1\<rparr>, rl, off, char))"

text \<open>The list: the length is signed, and at most 50 objects are taken.\<close>

function region_objs ::
    "seg_data \<Rightarrow> bool \<Rightarrow> bool \<Rightarrow> nat \<Rightarrow> int \<Rightarrow> nat \<Rightarrow> region_info \<Rightarrow> nat \<Rightarrow> region_info \<times> nat" where
  "region_objs pes halve normal p dlen off r rl =
     (if 6 \<le> dlen then
        let (r, rl, off, char) = region_obj pes halve normal p off r rl
        in if 50 \<le> ra_num r then (r, rl)
           else region_objs pes halve normal (if char then p + 8 else p + 6)
                  (if char then dlen - 8 else dlen - 6) off r rl
      else (r, rl))"
  by pat_completeness auto
termination
  by (relation "measure (\<lambda>(pes, halve, normal, p, dlen, off, r, rl). nat dlen)") auto

declare region_objs.simps [simp del]

definition SUBT_Parse_ParseRegionSegment ::
    "seg_data \<Rightarrow> bool \<Rightarrow> nat \<Rightarrow> nat \<Rightarrow> nat \<Rightarrow> region_info \<Rightarrow> nat \<Rightarrow> region_info \<times> nat" where
  "SUBT_Parse_ParseRegionSegment pes halve state p len r rl =
     region_objs pes halve (state = 0) (p + 10) (int len - 10) 0 (region_head pes p r) rl"

lemma region_objs_stop: "dlen < 6 \<Longrightarrow> region_objs pes halve normal p dlen off r rl = (r, rl)"
  by (subst region_objs.simps) simp

lemma region_obj_num:
  assumes "region_obj pes halve normal p off r rl = (r', rl', off', char)"
  shows "ra_num r' = ra_num r + 1" "length (ra_objs r') = length (ra_objs r)"
    "ra_height r' = ra_height r" "\<not> normal \<Longrightarrow> ra_width r' = ra_width r" "\<not> normal \<Longrightarrow> rl' = rl"
    "char = (unat (drop_bit 6 (pes (p + 2) AND 0xc0)) \<in> {1, 2})"
  using assms by (auto simp: region_obj_def Let_def split: if_splits)


text \<open>Where an update of a page moves the region to its first object, every object stays
where it is on the page, and nothing but the left edges differs.\<close>

definition but_left :: "object_info \<Rightarrow> object_info" where
  "but_left ob = ob\<lparr>oi_left := 0\<rparr>"




definition obj_left :: "seg_data \<Rightarrow> bool \<Rightarrow> nat \<Rightarrow> nat" where
  "obj_left pes halve p = (if halve then pos12 pes (p + 2) div 2 else pos12 pes (p + 2))"


lemma region_obj_left:
  assumes "region_obj pes halve normal p off r rl = (r', rl', off', char)"
    and "ra_num r < length (ra_objs r)"
  shows "i < ra_num r \<Longrightarrow> ra_objs r' ! i = ra_objs r ! i"
    "oi_left (ra_objs r' ! ra_num r) =
       (if \<not> normal then obj_left pes halve p else if off = 0 then 0
        else (obj_left pes halve p + 65536 - off) mod 65536)"
    "rl' = (if normal \<and> off = 0 then (rl + obj_left pes halve p) mod 65536 else rl)"
    "off' = (if normal \<and> off = 0 then obj_left pes halve p else off)"
  using assms unfolding region_obj_def Let_def obj_left_def [symmetric]
  by (auto split: if_splits)

lemma but_left_simps [simp]:
  "but_left (ob\<lparr>oi_left := l\<rparr>) = but_left ob" "oi_type (but_left ob) = oi_type ob"
  "but_left (ob\<lparr>oi_id := a\<rparr>) = (but_left ob)\<lparr>oi_id := a\<rparr>" "but_left (ob\<lparr>oi_type := a\<rparr>) = (but_left ob)\<lparr>oi_type := a\<rparr>"
  "but_left (ob\<lparr>oi_top := a\<rparr>) = (but_left ob)\<lparr>oi_top := a\<rparr>"
  "but_left (ob\<lparr>oi_front := c\<rparr>) = (but_left ob)\<lparr>oi_front := c\<rparr>" "but_left (ob\<lparr>oi_back := c\<rparr>) = (but_left ob)\<lparr>oi_back := c\<rparr>"
  by (simp_all add: but_left_def)






text \<open>An update whose first object has the left edge 0 and whose second has not: the second
object takes the place of the first.\<close>

theorem subt_update_moves_first_object:
  assumes "length (ra_objs r) = 50" "22 \<le> len" "len < 28" "rl < 65536"
    and t: "unat (drop_bit 6 (pes (p + 12) AND 0xc0)) = 0" "unat (drop_bit 6 (pes (p + 18) AND 0xc0)) = 0"
    and l: "obj_left pes halve (p + 10) = 0" "obj_left pes halve (p + 16) \<noteq> 0"
  shows "\<exists>rU. SUBT_Parse_ParseRegionSegment pes halve 0 p len r rl =
      (rU, (rl + obj_left pes halve (p + 16)) mod 65536) \<and> ra_num rU = 2 \<and>
    oi_left (ra_objs rU ! 0) = 0 \<and> oi_left (ra_objs rU ! 1) = 0"
proof -
  let ?h = "region_head pes p r"
  have h: "length (ra_objs ?h) = 50" "ra_num ?h = 0"
    using assms(1) by (simp_all add: region_head_def Let_def)
  obtain r1 rl1 off1 char1 where o1: "region_obj pes halve True (p + 10) 0 ?h rl = (r1, rl1, off1, char1)"
    by (metis prod_cases4)
  have k1: "ra_num ?h < length (ra_objs ?h)" using h by simp
  note f1 = region_obj_num [OF o1] region_obj_left [OF o1 k1]
  have s1: "ra_num r1 = 1" "length (ra_objs r1) = 50" "\<not> char1" "rl1 = rl" "off1 = 0" "oi_left (ra_objs r1 ! 0) = 0"
    using f1 h l(1) t(1) assms(4) by (auto simp: add.commute)
  obtain r2 rl2 off2 char2 where o2: "region_obj pes halve True (p + 16) 0 r1 rl = (r2, rl2, off2, char2)"
    by (metis prod_cases4)
  have k2: "ra_num r1 < length (ra_objs r1)" using s1 by simp
  note f2 = region_obj_num [OF o2] region_obj_left [OF o2 k2]
  have s2: "ra_num r2 = 2" "\<not> char2" "rl2 = (rl + obj_left pes halve (p + 16)) mod 65536"
    "oi_left (ra_objs r2 ! 0) = 0" "oi_left (ra_objs r2 ! 1) = 0"
    using f2 s1 t(2) f2(7) [of 0] by (auto simp: add.commute)
  have "region_objs pes halve True (p + 10) (int len - 10) 0 ?h rl =
      region_objs pes halve True (p + 16) (int len - 16) 0 r1 rl"
    using assms(2) o1 s1 by (subst region_objs.simps) (simp add: add.commute)
  also have "\<dots> = region_objs pes halve True (p + 22) (int len - 22) off2 r2 rl2"
    using assms(2) o2 s2 s1 by (subst region_objs.simps) (simp add: add.commute)
  also have "\<dots> = (r2, rl2)"
    using assms(3) by (intro region_objs_stop) simp
  finally show ?thesis
    using s2 by (simp add: SUBT_Parse_ParseRegionSegment_def)
qed

section \<open>The properties at concrete inputs\<close>

definition blank_segment :: segment where
  "blank_segment = \<lparr>sg_type = 0, sg_len = 0, sg_data = None, sg_status = 0\<rparr>"

definition two_segs :: "(u8 \<times> u8 list) list" where
  "two_segs = [(0x10, [5, 0]), (0x80, [])]"

theorem subt_packet_segments_witness:
  "map sg_type (take (length two_segs) (SUBT_Parse_CreateSegment (seg_of (enc_segs 7 two_segs @ [0xff]))
      (length (enc_segs 7 two_segs) + 1) 7 9 (replicate 4 blank_segment))) = [0x10, 0x80]"
proof -
  have d: "displays (seg_of (enc_segs 7 two_segs @ [0xff])) 0 (enc_segs 7 two_segs @ [0xff])"
    using displays_seg_of [of "[]" "enc_segs 7 two_segs @ [0xff]"] by simp
  have x: "list_all (\<lambda>x. type_ok (fst x) \<and> length (snd x) < 65536) two_segs" "(7 :: nat) < 65536"
    "0 < length two_segs" "length two_segs \<le> length (replicate 4 blank_segment)"
    by (simp_all add: two_segs_def type_ok_def)
  show ?thesis
    using subt_packet_segments [OF d x, of 7 9] unfolding Let_def by (simp add: two_segs_def)
qed

text \<open>A wanted segment, one of page 8, and another wanted one that is lost.\<close>

definition mixed_packet :: "u8 list" where
  "mixed_packet = (enc_segs 7 [(0x10, [5, 0])] @ enc_seg 8 (0x11, [5, 0])) @ enc_seg 7 (0x12, [6, 1])"

theorem subt_foreign_segment_ends_packet_witness:
  "(let r = SUBT_Parse_CreateSegment (seg_of mixed_packet) (length mixed_packet) 7 7 (replicate 3 blank_segment)
    in map sg_type (take 1 r) = [0x10] \<and> sg_type (r ! 1) = 0 \<and> drop 2 r = [blank_segment])"
proof -
  let ?xs = "[(0x10, [5, 0])] :: (u8 \<times> u8 list) list" and ?x = "(0x11, [5, 0]) :: u8 \<times> u8 list"
  have d: "displays (seg_of mixed_packet) 0 (enc_segs 7 ?xs @ enc_seg 8 ?x)"
    using displays_seg_of [of "[]" mixed_packet] unfolding mixed_packet_def displays_append by simp
  have h: "list_all (\<lambda>x. type_ok (fst x) \<and> length (snd x) < 65536) ?xs" "unwanted 7 7 8 ?x"
    "length ?xs < length (replicate 3 blank_segment)" "length (enc_segs 7 ?xs) + 6 + length (snd ?x) \<le> length mixed_packet"
    by (simp_all add: type_ok_def unwanted_def mixed_packet_def)
  have b: "(7 :: nat) < 65536" "(7 :: nat) = 7 \<or> (7 :: nat) = 7" "length (snd ?x) < 65536" "(8 :: nat) < 65536"
    "snd ?x \<noteq> []" "hd (snd ?x) \<noteq> 0x0f" "drop (length ?xs + 1) (replicate 3 blank_segment) = [blank_segment]"
    by (simp_all add: numeral_3_eq_3)
  show ?thesis
    using subt_foreign_segment_ends_packet [OF d h(1) b(1,2) h(2) b(3-6) h(3,4)] b(7)
    by (simp add: Let_def numeral_2_eq_2)
qed





end
