(* ===== verification/SubtObject.thy ===== *)
theory SubtObject
  imports SubtField SubtSegment
begin

text \<open>
  Regions and objects (src/kware/subtitle/src/subtitle_parse.c): the region buffer, in which a
  region's struct is followed by its pixels and the next region's struct
  (\<open>SUBT_Parse_CreateShowRegion\<close>, \<open>SUBT_Parse_SetNextRegionAddr\<close>), and
  \<open>SUBT_Parse_DecodingPixels\<close>, which paints the two fields of an object.

  The struct's size \<open>sizeof(SUBT_SHOW_REGION_S)\<close> depends on the platform and is the parameter
  \<open>hdr\<close>. The structs are kept beside the memory, each with its address; a \<open>memset\<close> of one
  is a write to the memory all the same.
\<close>

section \<open>The region buffer\<close>

record show_region =
  sr_addr :: nat
  sr_id :: u8
  sr_x :: nat
  sr_y :: nat
  sr_width :: nat
  sr_height :: nat
  sr_depth :: nat
  sr_clut :: u8
  sr_clutlen :: nat
  sr_data :: nat
  sr_chars :: nat

text \<open>\<open>pu8RegionBuffer\<close>, \<open>u32RegionBufferLen\<close>, the linked list of regions (empty where
\<open>pstShowRegion\<close> is null) and the memory.\<close>

record region_buf =
  rb_buf :: nat
  rb_len :: nat
  rb_regions :: "show_region list"
  rb_mem :: memory

definition align4 :: "nat \<Rightarrow> nat" where
  "align4 n = (n + 3) div 4 * 4"

definition new_region :: "nat \<Rightarrow> show_region" where
  "new_region a = \<lparr>sr_addr = a, sr_id = 0, sr_x = 0, sr_y = 0, sr_width = 0, sr_height = 0,
     sr_depth = 0, sr_clut = 0, sr_clutlen = 0, sr_data = 0, sr_chars = 0\<rparr>"

definition set_last :: "region_buf \<Rightarrow> show_region \<Rightarrow> region_buf" where
  "set_last b r = b\<lparr>rb_regions := butlast (rb_regions b) @ [r]\<rparr>"

definition SUBT_Parse_GetCurPageLastRegion :: "region_buf \<Rightarrow> show_region option" where
  "SUBT_Parse_GetCurPageLastRegion b =
     (if rb_regions b = [] then None else Some (last (rb_regions b)))"

definition SUBT_Parse_CreateShowRegion ::
    "nat \<Rightarrow> nat \<Rightarrow> nat \<Rightarrow> region_info \<Rightarrow> region_buf \<Rightarrow> mt_ret \<times> region_buf" where
  "SUBT_Parse_CreateShowRegion hdr left upper ra b =
     (case SUBT_Parse_GetCurPageLastRegion b of
        None \<Rightarrow> (MT_SUCCESS, b)
      | Some r \<Rightarrow>
          let r = r\<lparr>sr_id := ra_id ra, sr_x := left, sr_y := upper, sr_width := ra_width ra,
                    sr_height := ra_height ra, sr_clut := ra_clut ra, sr_depth := ra_depth ra,
                    sr_clutlen := (if ra_depth ra = 2 then 4 else if ra_depth ra = 4 then 16 else 256),
                    sr_data := sr_addr r + align4 hdr\<rparr>;
              len = align4 (sr_width r * sr_height r)
          in if (sr_data r + len - rb_buf b) mod 2 ^ 32 \<le> rb_len b then
               (MT_SUCCESS,
                (set_last b (r\<lparr>sr_chars := 0\<rparr>))\<lparr>rb_mem := mem_set (rb_mem b) (sr_data r)
                   (if ra_fill ra \<noteq> 0 then ra_back ra else 0) len\<rparr>)
             else (MT_FAILURE, set_last b r))"

definition SUBT_Parse_SetNextRegionAddr :: "nat \<Rightarrow> region_buf \<Rightarrow> mt_ret \<times> region_buf" where
  "SUBT_Parse_SetNextRegionAddr hdr b =
     (case SUBT_Parse_GetCurPageLastRegion b of
        None \<Rightarrow> (MT_FAILURE, b)
      | Some r \<Rightarrow>
          let a = sr_data r + align4 (sr_width r * sr_height r)
          in if a - rb_buf b \<le> rb_len b then
               (MT_SUCCESS, b\<lparr>rb_mem := mem_set (rb_mem b) a 0 hdr,
                              rb_regions := rb_regions b @ [new_region a]\<rparr>)
             else (MT_FAILURE, b))"

section \<open>Decoding an object\<close>

text \<open>\<open>memcpy\<close> of a row, and the loop that copies the rows of the top field to the bottom
field where the object has no bottom field. Heights are at most 1080, so the 16-bit counter
does not wrap.\<close>

definition copy_row :: "memory \<Rightarrow> nat \<Rightarrow> nat \<Rightarrow> nat \<Rightarrow> memory" where
  "copy_row m dst src n = (\<lambda>a. if dst \<le> a \<and> a < dst + n then m (src + (a - dst)) else m a)"

function copy_rows :: "nat \<Rightarrow> nat \<Rightarrow> nat \<Rightarrow> nat \<Rightarrow> memory \<Rightarrow> memory" where
  "copy_rows i h w d m =
     (if i < h then copy_rows (i + 2) h w d (copy_row m (d + (i - 1) * w) (d + (i - 2) * w) w)
      else m)"
  by auto
termination by (relation "measure (\<lambda>(i, h, w, d, m). h - i)") auto

declare copy_rows.simps [simp del]

text \<open>The region as the decoder of one field gets it: the length counts from the field's
first pixel, but is used from the region's.\<close>

definition field_region :: "region_info \<Rightarrow> nat \<Rightarrow> nat \<Rightarrow> nat \<Rightarrow> nat \<Rightarrow> refering_region" where
  "field_region ra left ver d len =
     \<lparr>rr_depth = ra_depth ra, rr_width = ra_width ra, rr_height = ra_height ra, rr_pixel = d,
      rr_ver = ver, rr_hor = left,
      rr_len = (d + len - (d + (ra_width ra * ver + left))) mod 2 ^ 32\<rparr>"

text \<open>The return value of the second block is not looked at.\<close>

definition SUBT_Parse_DecodingPixels ::
    "nat \<Rightarrow> nat \<Rightarrow> region_info \<Rightarrow> nat \<Rightarrow> nat \<Rightarrow> seg_data \<Rightarrow> pixel_reader \<Rightarrow> region_buf \<Rightarrow>
     (subt_ret \<times> pixel_reader \<times> region_buf) option" where
  "SUBT_Parse_DecodingPixels hdr fuel ra left ver seg st b =
     (let toplen = be16 seg 0; botlen = be16 seg 2 in
      case SUBT_Parse_GetCurPageLastRegion b of
        None \<Rightarrow> Some (SUBT_FAILURE, st, b)
      | Some r \<Rightarrow>
          let d = align4 (sr_addr r + hdr);
              b = set_last b (r\<lparr>sr_data := d\<rparr>);
              w = ra_width ra; bottom = (ver + 1) mod 65536;
              p1 = d + (w * ver + left); p2 = d + (w * bottom + left)
          in if rb_buf b + rb_len b < p1 then Some (SUBT_FAILURE, st, b)
          else if rb_buf b + rb_len b < p2 then Some (SUBT_FAILURE, st, b)
          else
            let rr1 = field_region ra left ver d (rb_len b);
                rr2 = field_region ra left bottom d (rb_len b)
            in case SUBT_Parse_PixelBlockDecode fuel (\<lambda>i. seg (4 + i)) rr1 p1 toplen st (rb_mem b) of
                 None \<Rightarrow> None
               | Some (e, s) \<Rightarrow>
                   if e = ERR_OUT_OF_WIDTH then Some (e, bk_rd s, b\<lparr>rb_mem := bk_mem s\<rparr>)
                   else if botlen \<noteq> 0 then
                     (case SUBT_Parse_PixelBlockDecode fuel (\<lambda>i. seg (4 + toplen + i)) rr2 p2 botlen
                             (bk_rd s) (bk_mem s) of
                        None \<Rightarrow> None
                      | Some (_, s) \<Rightarrow> Some (SUBT_SUCCESS, bk_rd s, b\<lparr>rb_mem := bk_mem s\<rparr>))
                   else Some (SUBT_SUCCESS, bk_rd s,
                     b\<lparr>rb_mem := copy_rows 2 ((ra_height ra + 1) div 2 * 2) w d (bk_mem s)\<rparr>))"

section \<open>Rows of an object without a bottom field\<close>

lemma copy_rows_other:
  assumes "2 \<le> i" "a < d + (i - 1) * w \<or> d + (h - 1) * w \<le> a"
  shows "copy_rows i h w d m a = m a"
  using assms
proof (induction i h w d m rule: copy_rows.induct)
  case (1 i h w d m)
  have "copy_row m (d + (i - 1) * w) (d + (i - 2) * w) w a = m a" if "i < h"
  proof -
    have "d + (i - 1) * w + w \<le> d + (h - 1) * w"
      using that mult_le_mono1 [of i "h - 1" w] "1.prems"(1) by (cases i) (auto simp: add.commute)
    then show ?thesis
      using "1.prems" by (auto simp: copy_row_def)
  qed
  moreover have "(i - 1) * w \<le> (i + 2 - 1) * w" by (intro mult_le_mono1) simp
  ultimately show ?case
    using "1.IH" "1.prems" by (subst copy_rows.simps) auto
qed

lemma copy_rows_at:
  assumes "2 \<le> i" "i \<le> j" "j < h" "even (j - i)" "x < w"
  shows "copy_rows i h w d m (d + (j - 1) * w + x) = m (d + (j - 2) * w + x) \<and>
    copy_rows i h w d m (d + (j - 2) * w + x) = m (d + (j - 2) * w + x)"
  using assms
proof (induction i h w d m arbitrary: j rule: copy_rows.induct)
  case (1 i h w d m)
  let ?m = "copy_row m (d + (i - 1) * w) (d + (i - 2) * w) w"
  show ?case
  proof (cases "j = i")
    case True
    have r: "(i - 1) * w = (i - 2) * w + w" using "1.prems"(1) by (cases i; cases "i - 1") auto
    have "(i + 2 - 1) * w = (i - 1) * w + w + w" using "1.prems"(1) by (cases i) auto
    then have "copy_rows (i + 2) h w d ?m (d + (i - 1) * w + x) = ?m (d + (i - 1) * w + x)"
      "copy_rows (i + 2) h w d ?m (d + (i - 2) * w + x) = ?m (d + (i - 2) * w + x)"
      using "1.prems"(5) r by (intro copy_rows_other; simp)+
    moreover have "?m (d + (i - 1) * w + x) = m (d + (i - 2) * w + x)"
      using "1.prems"(5) by (simp add: copy_row_def)
    moreover have "?m (d + (i - 2) * w + x) = m (d + (i - 2) * w + x)"
      using "1.prems"(5) r by (simp add: copy_row_def)
    moreover have "copy_rows i h w d m = copy_rows (i + 2) h w d ?m"
      using True "1.prems"(3) by (subst copy_rows.simps) simp
    ultimately show ?thesis
      using True by (simp only:)
  next
    case False
    then have j: "i + 2 \<le> j" "even (j - (i + 2))" using "1.prems" by presburger+
    have "?m (d + (j - 2) * w + x) = m (d + (j - 2) * w + x)"
    proof -
      have "(i - 1) * w + w \<le> (j - 2) * w"
        using mult_le_mono1 [of i "j - 2" w] j(1) "1.prems"(1) by (cases i) (auto simp: add.commute)
      then show ?thesis by (simp add: copy_row_def)
    qed
    moreover have "copy_rows i h w d m = copy_rows (i + 2) h w d ?m"
      using "1.prems"(2,3) by (subst copy_rows.simps) simp
    ultimately show ?thesis
      using "1.IH" [of j] "1.prems" j by auto
  qed
qed

text \<open>An object whose bottom field is empty: the rows of the region are doubled from the first
two on, whatever row the object starts at, and the last two rows of a region of even height are
left out.\<close>

theorem subt_single_field_object:
  assumes r: "SUBT_Parse_GetCurPageLastRegion b = Some r" and d: "d = align4 (sr_addr r + hdr)"
    and p: "d + (ra_width ra * ver + left) \<le> rb_buf b + rb_len b" "ver < 65535"
      "d + (ra_width ra * (ver + 1) + left) \<le> rb_buf b + rb_len b"
    and bot: "be16 seg 2 = 0"
    and f: "SUBT_Parse_PixelBlockDecode fuel (\<lambda>i. seg (4 + i)) (field_region ra left ver d (rb_len b))
      (d + (ra_width ra * ver + left)) (be16 seg 0) st (rb_mem b) = Some (SUBT_SUCCESS, s)"
  shows "\<exists>b'. SUBT_Parse_DecodingPixels hdr fuel ra left ver seg st b = Some (SUBT_SUCCESS, bk_rd s, b') \<and>
    (\<forall>k x. 2 * k + 2 < ra_height ra \<longrightarrow> x < ra_width ra \<longrightarrow>
       rb_mem b' (d + (2 * k + 1) * ra_width ra + x) = bk_mem s (d + 2 * k * ra_width ra + x) \<and>
       rb_mem b' (d + 2 * k * ra_width ra + x) = bk_mem s (d + 2 * k * ra_width ra + x)) \<and>
    (\<forall>a. d + (ra_height ra - 1) * ra_width ra \<le> a \<and> even (ra_height ra) \<longrightarrow> rb_mem b' a = bk_mem s a)"
proof -
  let ?w = "ra_width ra" and ?h = "(ra_height ra + 1) div 2 * 2"
  let ?m = "copy_rows 2 ?h ?w d (bk_mem s)"
  have "SUBT_Parse_DecodingPixels hdr fuel ra left ver seg st b =
      Some (SUBT_SUCCESS, bk_rd s, (set_last b (r\<lparr>sr_data := d\<rparr>))\<lparr>rb_mem := ?m\<rparr>)"
    using assms by (simp add: SUBT_Parse_DecodingPixels_def Let_def set_last_def)
  moreover have "?m (d + (2 * k + 1) * ?w + x) = bk_mem s (d + 2 * k * ?w + x) \<and>
      ?m (d + 2 * k * ?w + x) = bk_mem s (d + 2 * k * ?w + x)"
    if "2 * k + 2 < ra_height ra" "x < ?w" for k x
    using copy_rows_at [of 2 "2 * k + 2" ?h x ?w d "bk_mem s"] that by simp
  moreover have "?m a = bk_mem s a" if "d + (ra_height ra - 1) * ?w \<le> a \<and> even (ra_height ra)" for a
  proof -
    have "?h = ra_height ra" using that by presburger
    then show ?thesis using that by (intro copy_rows_other) auto
  qed
  ultimately show ?thesis by (intro exI conjI allI impI) auto
qed

section \<open>Objects of two fields\<close>

definition object_bytes :: "obj_line list \<Rightarrow> obj_line list \<Rightarrow> u8 list" where
  "object_bytes Lt Lb =
     (let t = enc_block Lt; c = enc_block Lb in
      [hi8 (length t), lo8 (length t), hi8 (length c), lo8 (length c)] @ t @ c)"

lemma displays_shift: "displays (\<lambda>i. seg (k + i)) p us = displays seg (k + p) us"
  by (induction us arbitrary: p) auto

lemma object_bytes_show:
  assumes "displays seg 0 (object_bytes Lt Lb)" "length (enc_block Lt) < 65536" "length (enc_block Lb) < 65536"
  shows "be16 seg 0 = length (enc_block Lt)" "be16 seg 2 = length (enc_block Lb)"
    "displays (\<lambda>i. seg (4 + i)) 0 (enc_block Lt)"
    "displays (\<lambda>i. seg (4 + length (enc_block Lt) + i)) 0 (enc_block Lb)"
proof -
  have n: "(2 :: nat) = Suc (Suc 0)" "(4 :: nat) = Suc (Suc (Suc (Suc 0)))"
    by simp_all
  show "be16 seg 0 = length (enc_block Lt)" "be16 seg 2 = length (enc_block Lb)"
    "displays (\<lambda>i. seg (4 + i)) 0 (enc_block Lt)"
    "displays (\<lambda>i. seg (4 + length (enc_block Lt) + i)) 0 (enc_block Lb)"
    using assms unfolding displays_shift n
    by (auto simp: object_bytes_def Let_def intro!: be16_hi_lo)
qed

text \<open>A pixel of the top field is in no row of the bottom field.\<close>

lemma fields_apart:
  assumes "left + j < ra_width ra"
  shows "row_at (field_region ra left ver d len) (2 * i) + j < row_at (field_region ra left (ver + 1) d len) (2 * i') \<or>
    row_end (field_region ra left (ver + 1) d len) (2 * i') \<le> row_at (field_region ra left ver d len) (2 * i) + j"
proof -
  have f: "row_at (field_region ra left v d len) k = d + ra_width ra * (v + k) + left"
    "row_end (field_region ra left v d len) k = d + ra_width ra * (v + k + 1)" for v k
    by (simp_all add: row_at_def row_end_def field_region_def add.assoc)
  show ?thesis
  proof (cases "i \<le> i'")
    case True
    then have "ra_width ra * (ver + 2 * i + 1) \<le> ra_width ra * (ver + 1 + 2 * i')"
      by (intro mult_le_mono2) simp
    moreover have "ra_width ra * (ver + 2 * i + 1) = ra_width ra * (ver + 2 * i) + ra_width ra"
      by simp
    ultimately show ?thesis using assms unfolding f by linarith
  next
    case False
    then have "ra_width ra * (ver + 1 + 2 * i' + 1) \<le> ra_width ra * (ver + 2 * i)"
      by (intro mult_le_mono2) simp
    then show ?thesis unfolding f by linarith
  qed
qed

text \<open>C8. An object of two coded fields is decoded completely: line \<open>i\<close> of the top field
appears in row \<open>2 i\<close> and line \<open>i\<close> of the bottom field in row \<open>2 i + 1\<close> below the
object's first row, pixel by pixel, and neither field disturbs the other.\<close>

theorem subt_object_roundtrip:
  assumes r: "SUBT_Parse_GetCurPageLastRegion b = Some r" and d: "d = align4 (sr_addr r + hdr)"
    and p: "d + (ra_width ra * (ver + 1) + left) \<le> rb_buf b + rb_len b" "ver < 65535"
    and ro: "room (field_region ra left ver d (rb_len b)) Lt"
      "room (field_region ra left (ver + 1) d (rb_len b)) Lb" "Lb \<noteq> []"
    and seg: "displays seg 0 (object_bytes Lt Lb)" and st: "rd_get2 st = 0" "rd_get4 st = 0"
    and f: "4 * length (object_bytes Lt Lb) + 8 \<le> fuel"
  shows "\<exists>st' b'. SUBT_Parse_DecodingPixels hdr fuel ra left ver seg st b = Some (SUBT_SUCCESS, st', b') \<and>
    (\<forall>i<length Lt. \<forall>j<length (line_pixels (ra_depth ra) default_maps (Lt ! i)).
       rb_mem b' (d + ra_width ra * (ver + 2 * i) + left + j) =
         line_pixels (ra_depth ra) default_maps (Lt ! i) ! j) \<and>
    (\<forall>i<length Lb. \<forall>j<length (line_pixels (ra_depth ra) default_maps (Lb ! i)).
       rb_mem b' (d + ra_width ra * (ver + 1 + 2 * i) + left + j) =
         line_pixels (ra_depth ra) default_maps (Lb ! i) ! j)"
proof -
  let ?r1 = "field_region ra left ver d (rb_len b)"
  let ?r2 = "field_region ra left (ver + 1) d (rb_len b)"
  let ?px = "line_pixels (ra_depth ra) default_maps"
  have l: "length (enc_block Lt) < 65536" "length (enc_block Lb) < 65536"
    using ro by (simp_all add: room_def)
  note o = object_bytes_show [OF seg l]
  have fu: "4 * length (enc_block Lt) + 8 \<le> fuel" "4 * length (enc_block Lb) + 8 \<le> fuel"
    using f by (auto simp: object_bytes_def Let_def)
  have f12: "row_at ?r1 k = d + ra_width ra * (ver + k) + left"
    "row_at ?r2 k = d + ra_width ra * (ver + 1 + k) + left"
    "row_end ?r2 k = d + ra_width ra * (ver + 1 + k + 1)"
    "rr_depth ?r1 = ra_depth ra" "rr_depth ?r2 = ra_depth ra" for k
    by (simp_all add: row_at_def row_end_def field_region_def add.assoc)
  obtain s1 where s1: "SUBT_Parse_PixelBlockDecode fuel (\<lambda>i. seg (4 + i)) ?r1 (row_at ?r1 0)
      (length (enc_block Lt)) st (rb_mem b) = Some (SUBT_SUCCESS, s1)"
    "\<And>i j. i < length Lt \<Longrightarrow> j < length (?px (Lt ! i)) \<Longrightarrow> bk_mem s1 (row_at ?r1 (2 * i) + j) = ?px (Lt ! i) ! j"
    "rd_get2 (bk_rd s1) = 0" "rd_get4 (bk_rd s1) = 0"
    using subt_block_roundtrip [OF ro(1) o(3) st fu(1), of "rb_mem b"] unfolding f12(4) by blast
  obtain s2 where s2: "SUBT_Parse_PixelBlockDecode fuel (\<lambda>i. seg (4 + length (enc_block Lt) + i)) ?r2
      (row_at ?r2 0) (length (enc_block Lb)) (bk_rd s1) (bk_mem s1) = Some (SUBT_SUCCESS, s2)"
    "\<And>i j. i < length Lb \<Longrightarrow> j < length (?px (Lb ! i)) \<Longrightarrow> bk_mem s2 (row_at ?r2 (2 * i) + j) = ?px (Lb ! i) ! j"
    "\<And>a. (\<forall>i<length Lb. a < row_at ?r2 (2 * i) \<or> row_end ?r2 (2 * i) \<le> a) \<Longrightarrow> bk_mem s2 a = bk_mem s1 a"
    using subt_block_roundtrip [OF ro(2) o(4) s1(3,4) fu(2), of "bk_mem s1"] unfolding f12(5) by blast
  have "length (enc_block Lb) \<noteq> 0"
    using ro(3) by (cases Lb) auto
  then have D: "SUBT_Parse_DecodingPixels hdr fuel ra left ver seg st b =
      Some (SUBT_SUCCESS, bk_rd s2, (set_last b (r\<lparr>sr_data := d\<rparr>))\<lparr>rb_mem := bk_mem s2\<rparr>)"
    using r d p o s1(1) s2(1) unfolding f12(1,2)
    by (simp add: SUBT_Parse_DecodingPixels_def Let_def set_last_def add.assoc)
  have "bk_mem s2 (row_at ?r1 (2 * i) + j) = ?px (Lt ! i) ! j"
    if i: "i < length Lt" "j < length (?px (Lt ! i))" for i j
  proof -
    have "left + length (?px (Lt ! i)) \<le> ra_width ra"
      using ro(1) i(1) by (auto simp: room_def list_all_length obj_line_ok_def line_pixels_def field_region_def)
    then have "left + j < ra_width ra" using i(2) by linarith
    from fields_apart [OF this] show ?thesis
      using s2(3) s1(2) [OF i] by simp
  qed
  then show ?thesis
    using D s2(2) unfolding f12 by (intro exI conjI) auto
qed

section \<open>Writes behind the region buffer\<close>

text \<open>A region that fills the buffer to its end: the struct of the next region is cleared
behind it.\<close>

theorem subt_next_region_overruns:
  assumes "SUBT_Parse_GetCurPageLastRegion b = Some r"
    and "sr_data r + align4 (sr_width r * sr_height r) = rb_buf b + rb_len b"
  shows "\<exists>b'. SUBT_Parse_SetNextRegionAddr hdr b = (MT_SUCCESS, b') \<and>
    rb_mem b' = mem_set (rb_mem b) (rb_buf b + rb_len b) 0 hdr"
  using assms by (simp add: SUBT_Parse_SetNextRegionAddr_def Let_def)

text \<open>The loops of the decoder at numerals, for evaluation.\<close>

lemma loop_numeral:
  "string_loop (numeral k) dec conv cl seg rr blen s =
     (case string_body dec conv cl seg rr s of
        Ret r s \<Rightarrow> Some (Ret r s)
      | Go s \<Rightarrow> if bk_num s \<noteq> 0 \<and> rd_len (bk_rd s) < blen
                then string_loop (pred_numeral k) dec conv cl seg rr blen s else Some (Go s))"
  "block_loop (numeral k) fuel seg rr blen s =
     (if rd_len (bk_rd s) < blen then
        (case block_body fuel seg rr blen s of
           None \<Rightarrow> None
         | Some (Ret r s) \<Rightarrow> Some (r, s)
         | Some (Go s) \<Rightarrow> block_loop (pred_numeral k) fuel seg rr blen s)
      else Some (SUBT_SUCCESS, s))"
  by (simp_all add: numeral_eq_Suc)

definition full_region :: region_info where
  "full_region = \<lparr>ra_id = 1, ra_fill = 0, ra_width = 10, ra_height = 12, ra_clutsel = 3, ra_depth = 8,
     ra_clut = 0, ra_back = 0, ra_num = 1, ra_objs = []\<rparr>"

definition small_buffer :: region_buf where
  "small_buffer = \<lparr>rb_buf = 1000, rb_len = 200, rb_regions = [new_region 1000], rb_mem = (\<lambda>_. 0)\<rparr>"

definition idle_reader :: pixel_reader where
  "idle_reader = \<lparr>rd_ptr = 0, rd_len = 0, rd_get2 = 0, rd_temp2 = 0, rd_get4 = 0, rd_temp4 = 0\<rparr>"

text \<open>The length handed to the block decoder counts from the object's first pixel but is used
from the region's: a region of 12 rows that \<open>CreateShowRegion\<close> accepts up to the last byte of
its buffer, with an object in row 6, is painted in row 12, behind the buffer.\<close>

theorem subt_field_overruns_buffer:
  "fst (SUBT_Parse_CreateShowRegion 80 0 0 full_region small_buffer) = MT_SUCCESS \<and>
   (\<exists>st b. SUBT_Parse_DecodingPixels 80 50 full_region 0 6
        (seg_of [0, 9, 0, 0, 0xf0, 0xf0, 0xf0, 0x12, 0, 0x8a, 0x55, 0, 0]) idle_reader
        (snd (SUBT_Parse_CreateShowRegion 80 0 0 full_region small_buffer)) = Some (SUBT_SUCCESS, st, b) \<and>
      rb_buf b + rb_len b = 1200 \<and> rb_mem b 1200 = 0x55)"
  by (simp add: SUBT_Parse_DecodingPixels_def SUBT_Parse_CreateShowRegion_def full_region_def
      small_buffer_def idle_reader_def SUBT_Parse_GetCurPageLastRegion_def set_last_def align4_def
      new_region_def field_region_def be16_def seg_of_def SUBT_Parse_PixelBlockDecode_def
      block_body_def block_init_def read_byte_def end_of_line_def string8_def string_body_def
      then_go_def conv8_def Let_def Decode8Pixel_def rd_next_def line_adjust_def ulong_sub_def
      copy_rows.simps copy_row_def loop_numeral mem_set_def)

section \<open>A property at a concrete input\<close>

definition top_lines :: "obj_line list" where
  "top_lines = [L8 [(3, 5)], L2 [(1, 1)]]"

definition bottom_lines :: "obj_line list" where
  "bottom_lines = [L4 [(2, 0), (4, 7)]]"

definition object_seg :: seg_data where
  "object_seg = seg_of (object_bytes top_lines bottom_lines)"

theorem subt_object_roundtrip_witness:
  "\<exists>st' b'. SUBT_Parse_DecodingPixels 80 500 full_region 1 0 object_seg idle_reader small_buffer =
      Some (SUBT_SUCCESS, st', b') \<and> rb_mem b' 1083 = 5 \<and> rb_mem b' 1101 = 0x77 \<and> rb_mem b' 1093 = 0x77"
proof -
  have l: "SUBT_Parse_GetCurPageLastRegion small_buffer = Some (new_region 1000)"
    "1080 = align4 (sr_addr (new_region 1000) + 80)"
    "1080 + (ra_width full_region * (0 + 1) + 1) \<le> rb_buf small_buffer + rb_len small_buffer"
    "room (field_region full_region 1 0 1080 (rb_len small_buffer)) top_lines"
    "room (field_region full_region 1 (0 + 1) 1080 (rb_len small_buffer)) bottom_lines"
    "bottom_lines \<noteq> []" "rd_get2 idle_reader = 0" "rd_get4 idle_reader = 0"
    "4 * length (object_bytes top_lines bottom_lines) + 8 \<le> 500"
    by (simp_all add: SUBT_Parse_GetCurPageLastRegion_def small_buffer_def new_region_def align4_def
        full_region_def idle_reader_def room_def obj_line_ok_def field_region_def top_lines_def
        bottom_lines_def fits8_def fits2_def fits4_def row_end_def code8_def code2_def code4_def
        object_bytes_def Let_def)
  have d: "displays object_seg 0 (object_bytes top_lines bottom_lines)"
    using displays_seg_of [of "[]" "object_bytes top_lines bottom_lines"] by (simp add: object_seg_def)
  obtain st' b' where o: "SUBT_Parse_DecodingPixels 80 500 full_region 1 0 object_seg idle_reader small_buffer =
      Some (SUBT_SUCCESS, st', b')"
    "\<forall>i<length top_lines. \<forall>j<length (line_pixels (ra_depth full_region) default_maps (top_lines ! i)).
       rb_mem b' (1080 + ra_width full_region * (0 + 2 * i) + 1 + j) =
         line_pixels (ra_depth full_region) default_maps (top_lines ! i) ! j"
    "\<forall>i<length bottom_lines. \<forall>j<length (line_pixels (ra_depth full_region) default_maps (bottom_lines ! i)).
       rb_mem b' (1080 + ra_width full_region * (0 + 1 + 2 * i) + 1 + j) =
         line_pixels (ra_depth full_region) default_maps (bottom_lines ! i) ! j"
    using subt_object_roundtrip [OF l(1-3) _ l(4-6) d l(7-9)] by auto
  have p: "ra_width full_region = 10" "ra_depth full_region = 8"
    "line_pixels 8 default_maps (top_lines ! 0) = [5, 5, 5]"
    "line_pixels 8 default_maps (top_lines ! 1) = [0x77]"
    "line_pixels 8 default_maps (bottom_lines ! 0) = [0, 0, 0x77, 0x77, 0x77, 0x77]"
    "length top_lines = 2" "length bottom_lines = 1"
    by code_simp+
  have "rb_mem b' 1083 = 5" "rb_mem b' 1101 = 0x77" "rb_mem b' 1093 = 0x77"
    using o(2) [rule_format, of 0 2] o(2) [rule_format, of 1 0] o(3) [rule_format, of 0 2]
    by (simp_all add: p p(4) [unfolded One_nat_def])
  then show ?thesis using o(1) by blast
qed

end
