(* ===== verification/Spec2Isabelle.thy ===== *)
theory Spec2Isabelle
  imports CcQueue SoQueue CcFifo RingBuffer Frc PtsDesc WMalloc Scd Xds CcTimer DtvCode CcTask AvMaster AvStart SubtObject
begin

text \<open>
  Verification of the data-handling core of the Montage set-top-box SDK. The SDK is a tree of
  kernel drivers (\<open>src/msp/drv\<close>), the user-space libraries over them (\<open>src/msp/api\<close>) and middleware
  (\<open>src/kware\<close>). Most of it programs device registers; the development models the parts that
  compute: the buffers and queues through which data passes between threads, the allocator, the
  parsers and state machines that interpret streams, and the rate and time arithmetic of the
  player. Paths below are relative to \<open>src/\<close>.

  \<^bold>\<open>How the parts interact.\<close> Closed captions enter as user data of the video stream: \<open>cc_fifo_put\<close>
  stores the packets, and the caption task takes them out with \<open>cc_fifo_get\<close>. Under the line 21 protocol it
  decodes them itself with \<open>CcProcess\<close>, which writes characters into two screens and draws them. Under the
  DTV protocol the packets go to the decoders of the 708 tree, where byte
  pairs travel through a \<open>CCQueue\<close>: \<open>CC608_DEC_CheckXDS\<close> sends the pairs of field 2 to the
  extended data services or to the caption decoder; erase and delay times are \<open>CCTimer\<close> timers. The user
  data of DTV captions is cut into caption constructs: \<open>_DtvCC_ParsePicUsrData\<close> collects them into channel
  packets, \<open>_DtvCC_ParsePacketData\<close> puts the service blocks of the selected service into the service
  queue, a \<open>CCQueue\<close> whose elements point to rows of a fixed array, and \<open>CC708_DEC_ProcessServicefifo\<close>, run by
  another thread, takes them out and decodes the commands and characters unless a delay is running, which
  a \<open>CCTimer\<close> timer ends. DVB subtitles arrive as PES packets: \<open>SUBT_Parse_CreateSegment\<close> splits a packet into
  the slots of the page, \<open>SUBT_Parse_ParseRegionSegment\<close> reads a region and its objects, and
  \<open>SUBT_Parse_DecodingPixels\<close> paints each object into the region buffer through \<open>SUBT_Parse_PixelBlockDecode\<close>. Decoded
  subtitles wait in the \<open>SO_Queue\<close> for their presentation time. For playback the demultiplexer
  fills a ring of PTS descriptors; \<open>AVPLAY\<close> searches it for the descriptor of an audio packet, feeds
  the external decoder through the ring buffer and adapts the frame rate with \<open>AVPLAY_FrcCalculate\<close>. The
  synchronisation driver keeps the system time counter by the program clock of the stream or by the times that are played: the
  audio path pushes the time of each decoded frame into a FIFO, the interrupt of the audio output takes it out, and every frame of
  both streams is judged against the counter. For
  recording, the hardware delivers start code descriptors; \<open>DmxScdToVideoIndex\<close> unpacks them,
  \<open>FIDX_FeedStartCode\<close> assembles frames from them, using the bit reader on slice headers, and
  \<open>DmxRecUpdateFrameInfo\<close> stores the result. The drawing engine takes its nodes from the pool of
  \<open>wmalloc\<close>.

  \<^bold>\<open>Theories, in the order of the imports.\<close>
  \<^item> \<open>MT_Base\<close>: C integer types, 32-bit arithmetic on naturals with the wrap-around written out, byte
    memories, circular views, and the lemma collections \<open>c_int\<close>, \<open>mem_simps\<close>, \<open>ring_simps\<close>.
  \<^item> \<open>Queue_Interface\<close>: locale \<open>fifo_queue\<close>, the contract of a first-in-first-out queue and what it
    gives for whole interleavings of producers and consumers. \<open>CcQueue\<close>
    (\<open>kware/cc/src/708/common/src/cc_queue.c\<close>: \<open>TRI_QUEUE\<close> as the record \<open>tri_queue\<close> with the byte memory of
    its slots) and \<open>SoQueue\<close> (\<open>kware/subtoutput/src/so_queue.c\<close>: the linked list with a heap of
    payloads) interpret it.
  \<^item> \<open>Stream_Interface\<close>: locale \<open>byte_stream\<close>, the contract of a byte buffer between a feeder and a
    drainer. \<open>CcFifo\<close> (\<open>kware/cc/src/mt_cc_fifo.c\<close>) and \<open>RingBuffer\<close>
    (\<open>msp/api/adec/ext_decoder/RingBuffer.c\<close>) interpret it.
  \<^item> \<open>Frc\<close> (\<open>msp/api/avplay/mt_avplay_frc.c\<close>): the drop and repeat decisions of the player.
  \<^item> \<open>PtsDesc\<close> (\<open>msp/api/demux/mpi_demux_pts_descriptor.c\<close>, parts of \<open>mt_mpi_demux.c\<close> and
    \<open>msp/api/avplay/mt_mpi_avplay.c\<close>): the ring of presentation time descriptors and its search.
  \<^item> \<open>WMalloc\<close> (\<open>msp/drv/tde/wmalloc_k.c\<close>): the memory pool; locale \<open>unit_pool\<close> states what an allocator of
    fixed units promises and is interpreted on \<open>wmalloc\<close> and \<open>wfree\<close>.
  \<^item> \<open>Bit_Interface\<close> and \<open>Bitstream\<close> (\<open>msp/drv/demux/drv_demux_bitstream.c\<close>): locale \<open>bit_reader\<close>, interpreted
    on \<open>PvrBsShow\<close> and \<open>PvrBsSkip\<close>; its lemmas on consecutive fields carry the
    parsers of \<open>FrameIndex\<close>.
  \<^item> \<open>FrameIndex\<close> (\<open>msp/drv/demux/drv_demux_index.c\<close>): the frame assembling state machine for MPEG-2,
    MPEG-4, H.264 and AVS with its table of instances.
  \<^item> \<open>Scd\<close> (\<open>msp/drv/demux/drv_demux_scd.c\<close>): descriptors in, index records out.
  \<^item> \<open>Xds\<close> (\<open>kware/cc/src/708/cc608/src/cc608_xds.c\<close> and \<open>CC608_DEC_CheckXDS\<close> of \<open>cc608_dec.c\<close>): the packets of
    the extended data services.
  \<^item> \<open>CcTimer\<close> (\<open>kware/cc/src/708/common/src/cc_timer.c\<close>): the caption timers.
  \<^item> \<open>SlotQueue\<close>: a \<open>CCQueue\<close> with its row array; locale \<open>slot_queue\<close> states what the encoding of an element
    must satisfy. \<open>Dtvcc\<close> (\<open>kware/cc/src/708/cc708/src/cc708_dec.c\<close>, \<open>CC708_OBJECT_S\<close> as the record
    \<open>cc708_object\<close>): caption constructs, packets and service blocks; it interprets \<open>slot_queue\<close> on the elements of the
    service queue. \<open>DtvCode\<close> (same file): service data to text, commands and calls of the drawing layer, with
    \<open>stCaptionBuf\<close> in the record \<open>dtv_code\<close>. \<open>KscTables\<close>: the KS C 5601 tables of its P16 command.
  \<^item> \<open>Eia608\<close> (\<open>kware/cc/src/mt_cc_parse.c\<close>, \<open>CLOSEDCP_PARAM_S\<close> as the record \<open>closedcp_param\<close>): the line 21 decoder of
    the caption task, its screens, commands and drawing, with the invariant of the screens. \<open>EiaCaption\<close>: whole
    captions, roll-up, transports and channels. \<open>CcTask\<close>: a round of the task, from the FIFO to the screen.

  \<^item> \<open>AvFifo\<close>, \<open>AvClock\<close>, \<open>AvSync\<close> (\<open>msp/drv/sync/drv_sync.c\<close>, \<open>avsync_priv_t\<close> as the record \<open>avsync_priv\<close>): the FIFO of
    audio times, which interprets \<open>byte_stream\<close>; the clock with its modes and interrupts; the judgement of frames, the loops of
    the two streams and the restarts. \<open>AvMaster\<close>: all calls as a step relation, the invariant of the modes. \<open>AvStart\<close>: sync
    gained and lost over many frames.
  \<^item> \<open>SubtPixel\<close>, \<open>SubtBlock\<close>, \<open>SubtField\<close>, \<open>SubtSegment\<close>, \<open>SubtObject\<close> (\<open>kware/subtitle/src/subtitle_parse.c\<close>): the bit
    readers and run-length decoders of DVB subtitles with the coding of the standard; locale \<open>code_reader\<close> states that a
    decoder moves on, \<open>pixel_code\<close> extends it by the contract with the standard, and both are interpreted on the three
    decoders; one field of a bitmap (\<open>SUBT_REFERING_REGION_S\<close> as \<open>refering_region\<close>, the locals of the block decoder as
    \<open>block_state\<close>); what any block can do; the segments of a packet, page and region compositions; the region buffer and
    whole objects.

  \<^bold>\<open>Correspondence.\<close> A C struct is a record with the source's field names; each function is a
  definition of its name that takes the old state and returns the new state and the result. A pointer
  that may be NULL is an option, a pointer into a buffer an offset. Error returns are the values of
  \<open>mt_ret\<close>, option or a sum type. What C leaves undefined and the code does not exclude (division
  by zero, shifts out of range, double free) is \<open>None\<close>. Unsigned integers are words, or naturals with \<open>mod 2 ^ 32\<close>
  where the code can wrap. Answers of \<open>malloc\<close>, the state of the display and the contents of
  registers at the moment of a call are arguments. Operations under a mutex are atomic: threads appear as
  arbitrary sequences of whole operations (\<open>queue_run\<close>, \<open>cctimer_run\<close>, runs of the frame index over all
  instances).

  \<^bold>\<open>What the lemmas show.\<close>
  \<^item> Buffers (C1, C3, C7, C10): each queue, the FIFO and the ring buffer refine an abstract
    sequence under any interleaving. Further theorems of these theories cover what a reset releases, contiguous reads, the
    counters, ownership and repeated time stamps.
  \<^item> Player (C13, C16, C17): the frames shown stay within one frame of the ideal ratio; further theorems show that they are
    exact over a cycle and when the calculation traps; descriptors parse back to what was encoded, the search ends; a further theorem
    shows that it returns the right pair.
  \<^item> Pool (C20, C21): allocation is fresh, no unit
    is lost or handed out twice; further theorems show that it fails exactly when nothing fits and that initialisation ends
    in a pool of disjoint units.
  \<^item> Bit reader (C24): fields are read in order for every start address; further theorems show that the leading zero
    count is right and that long skips equal short ones.
  \<^item> Recording (C29, C30, C32, C35): indices stay in range, frames
    span fed start codes and, in a stream of increasing positions, end behind their start (packet headers are reported with
    size 0); slice headers decode; descriptors unpack
    completely; further theorems show that instances do not influence each other, that a presentation time is used once, and
    cover times. The lemmas of these theories also show two streams on which the index is wrong.
  \<^item> Line 21 captions (C2, C5, C12, C26): a pop-on caption goes from the FIFO to the hidden screen and is drawn
    exactly by its end-of-caption code (C2 composes the FIFO, the task and the decoder); a carriage return scrolls the
    window; the decoder leaves its screens for one input only, a
    backspace at the first column; the two transports agree; further theorems show that channel 2 does not disturb channel 1.
  \<^item> Extended data and timers (C38, C40): the packet decoder refines an abstract machine, timers fire at exactly their
    interval; a further theorem follows an interrupted packet.
  \<^item> Synchronisation (C4, C11, C14, C15, C19, C27, C36, C39): the counter follows the master and locks to the program clock
    again after any jump; the switches fit the mode and the master is never held, in every reachable state; an early video
    catches up by slow sync; sync is lost by the eleventh bad frame; the full FIFO of audio times empties itself, and the
    start of the audio loses the wait for the program clock.
  \<^item> DVB subtitles (C8, C18, C22, C28, C31, C34): a packet is split into its segments, but a segment that is not wanted
    ends it unless it is empty or its data begin with the sync byte; reading a region for an update leaves its objects as and
    where they are on the page, if the first is off the left edge; an object of two fields coded as the standard
    has it is painted pixel by pixel (C8 composes the bit reader, the decoders, the block and the two fields); for any bytes the
    block decoder returns and stays within stated bounds of reading and writing; a 2-bit string too wide for its row leaves the rest
    of a byte begun to the next block. Further theorems show what an empty string, an object without a bottom field and an object low in a
    full region do, and that slots of earlier packets are found.
  \<^item> DTV captions (C6, C9, C23, C25, C33, C37): packets are reassembled and their blocks queued in
    order, the parser returns and its buffers are safe for any user data that announce no packet of 128 bytes (with 128 bytes
    the last one can be an extended header that is read on behind the array), the queue is processed in order and stops at a delay, a
    delay ends on time, a caption is drawn through all layers (C25 composes the packet layer, the
    queue and the coding layer); more than 64 characters of text are written out of
    bounds. Further theorems show that a split command is lost and that a packet start behind padding is missed.

  \<^bold>\<open>Bounds and fuel.\<close> Loops are structural recursion or \<open>function\<close> with a measure wherever they end; the
  descriptor loops of \<open>PtsDesc\<close>, which depend on what the hardware wrote, are \<open>partial_function (option)\<close>
  and C17 proves that they return; the initialisation loops of \<open>WMalloc\<close> end by \<open>wmeminit_pool\<close>. The loop over
  caption constructs, whose 8-bit offset wraps for long data, and the loop over the service queue
  are \<open>partial_function (option)\<close> too; C23 shows that the first returns on any user data with
    packets below 128 bytes, C37 and C6 that they return on the inputs they are made for. Counter
  widths are those of the source: the theorems carry the range in which no counter wraps, or show that
  none can (C29, C38, C40). C27 bounds the rounds of slow sync. The loops over the code strings of a subtitle block depend on a
  16-bit length that wraps, so they take fuel; C31 shows that four times the block's length and 8 more is enough while the block
  leaves 16 bytes of the range. The products of widths and rows are exact: widths are 16-bit and heights at most 1080.

  \<^bold>\<open>Not modelled.\<close> Register and interrupt code of the drivers, firmware images, generated register
  headers, tables of fonts and coefficients, vendored libraries and the sample programs: they have no
  behaviour of their own to state, or none whose device is in the tree. \<open>FIDX_IsSCUseful\<close> is excluded by the
  preprocessor. Diagnostic output is left out. The drawing of DTV captions
  (\<open>cc708_osd.c\<close>) is a list of calls, and so is that of line 21 captions; the ARIB loop of the caption task only draws. Still to come, in this order: the user data queue and the task of
  the DTV decoder (\<open>cc708.c\<close>) with the cable formats of \<open>cc708_dec.c\<close>, the second line 21 decoder
  and its row buffers (\<open>cc608_dec.c\<close>, \<open>cc608_data.c\<close>), the smart card protocol (\<open>msp/api/sci\<close>), the
  colour tables, disparity and layout of DVB subtitles with the buffering of their packets (\<open>subtitle_data.c\<close>), the
  routines for Dolby conformance streams and the older \<open>SYNC_\<close> half of \<open>drv_sync.c\<close>.
\<close>

end
